(* ===== verification/Ucc_Prelude.thy ===== *)
theory Ucc_Prelude
  imports Main "HOL-Library.Word"
begin

text \<open>
  Shared vocabulary of the development: the fixed-width integer types of the C sources,
  the ways a C function of this program can fail, the error monad that threads such a
  failure through a computation, checked access to a block of memory, and the
  character-class functions of \<^verbatim>\<open><ctype.h>\<close> in the C locale.

  A C string is a \<^typ>\<open>string\<close> without its terminating NUL; a pointer into it is the
  suffix that starts there, so \<^verbatim>\<open>*p\<close> is the head of the suffix, \<^verbatim>\<open>!*p\<close> says that the
  suffix is empty, and \<^verbatim>\<open>p++\<close> drops the head.
\<close>

named_theorems outcome_simps \<open>evaluation rules of the error monad\<close>

named_theorems mem_simps \<open>evaluation rules of checked memory access\<close>

named_theorems ctype_defs \<open>definitions of the character classes\<close>

type_synonym u8 = "8 word"

type_synonym u32 = "32 word"

type_synonym u64 = "64 word"

text \<open>
  How a run can stop early: a failed \<^verbatim>\<open>assert\<close> or \<^verbatim>\<open>UCC_ASSERT\<close>, an access outside a
  block, a read of memory that nothing has written, a null dereference, an operation that
  C leaves undefined (a signed overflow, a shift by the width or more), a fatal user
  error (\<^verbatim>\<open>CPP_DIE\<close>, \<^verbatim>\<open>die_at\<close>), an internal compiler error, and, for the definitions
  with a fuel argument, the end of the fuel.
\<close>

datatype failure =
    Assert_failed string
  | Out_of_bounds
  | Uninit_read
  | Null_deref
  | Undefined string
  | Died string
  | Ice string
  | Out_of_fuel

type_synonym 'a outcome = "failure + 'a"

section \<open>The error monad\<close>

definition bindE :: "'a outcome \<Rightarrow> ('a \<Rightarrow> 'b outcome) \<Rightarrow> 'b outcome" where
  "bindE m f = (case m of Inl e \<Rightarrow> Inl e | Inr x \<Rightarrow> f x)"

lemma bindE_simps [simp, outcome_simps]:
  "bindE (Inl e) f = Inl e"
  "bindE (Inr x) f = f x"
  by (simp_all add: bindE_def)

lemma bindE_cong [fundef_cong]:
  "m = m' \<Longrightarrow> (\<And>x. m' = Inr x \<Longrightarrow> f x = g x) \<Longrightarrow> bindE m f = bindE m' g"
  by (cases m') (simp_all add: bindE_def)

lemma bindE_eq_Inr: "bindE m f = Inr y \<longleftrightarrow> (\<exists>x. m = Inr x \<and> f x = Inr y)"
  by (cases m) simp_all

lemma bindE_eq_Inl: "bindE m f = Inl e \<longleftrightarrow> m = Inl e \<or> (\<exists>x. m = Inr x \<and> f x = Inl e)"
  by (cases m) simp_all

lemma bindE_InrE:
  assumes "bindE m f = Inr y"
  obtains x where "m = Inr x" and "f x = Inr y"
  using assms by (auto simp: bindE_eq_Inr)

lemma bindE_assoc: "bindE (bindE m f) g = bindE m (\<lambda>x. bindE (f x) g)"
  by (cases m) simp_all

section \<open>Blocks of memory\<close>

text \<open>
  A pointer value is a 64-bit word with NULL as 0.  A block of pointer-sized memory is a
  list of cells; a cell that \<^verbatim>\<open>realloc\<close> has made available holds nothing until it is
  written.
\<close>

type_synonym ptr = "64 word"

datatype cell = Undef | Cell ptr

definition rd :: "cell list \<Rightarrow> nat \<Rightarrow> ptr outcome" where
  "rd ar i =
     (if i < length ar then (case ar ! i of Undef \<Rightarrow> Inl Uninit_read | Cell p \<Rightarrow> Inr p)
      else Inl Out_of_bounds)"

definition wr :: "cell list \<Rightarrow> nat \<Rightarrow> ptr \<Rightarrow> cell list outcome" where
  "wr ar i p = (if i < length ar then Inr (ar[i := Cell p]) else Inl Out_of_bounds)"

definition memmove_cells :: "cell list \<Rightarrow> nat \<Rightarrow> nat \<Rightarrow> nat \<Rightarrow> cell list outcome" where
  "memmove_cells ar dst src n =
     (if dst + n \<le> length ar \<and> src + n \<le> length ar
      then Inr (take dst ar @ take n (drop src ar) @ drop (dst + n) ar)
      else Inl Out_of_bounds)"

definition realloc_cells :: "cell list \<Rightarrow> nat \<Rightarrow> cell list" where
  "realloc_cells ar n = take n ar @ replicate (n - length ar) Undef"

definition calloc_cells :: "nat \<Rightarrow> cell list" where
  "calloc_cells n = replicate n (Cell 0)"

lemma length_realloc_cells [simp, mem_simps]: "length (realloc_cells ar n) = n"
  by (simp add: realloc_cells_def)

lemma length_calloc_cells [simp, mem_simps]: "length (calloc_cells n) = n"
  by (simp add: calloc_cells_def)

lemma rd_Inr_bound: "rd ar i = Inr p \<Longrightarrow> i < length ar"
  by (simp add: rd_def split: if_splits)

lemma rd_append_right [mem_simps]: "rd (xs @ Cell p # ys) (length xs) = Inr p"
  by (simp add: rd_def)

lemma rd_append_left [mem_simps]: "i < length xs \<Longrightarrow> rd (map Cell xs @ ys) i = Inr (xs ! i)"
  by (simp add: rd_def nth_append)

lemma wr_append_right [mem_simps]:
  "n = length xs \<Longrightarrow> wr (xs @ c # ys) n p = Inr (xs @ Cell p # ys)"
  by (simp add: wr_def)

section \<open>Character classes\<close>

text \<open>
  \<^verbatim>\<open><ctype.h>\<close> in the C locale.  \<open>char_code\<close> is the value as \<^verbatim>\<open>unsigned char\<close>;
  \<open>char_sval\<close> is the value of a plain \<^verbatim>\<open>char\<close>, which is signed on the hosts of the
  program.
\<close>

definition char_code :: "char \<Rightarrow> nat" where
  "char_code c = of_char c"

definition char_sval :: "char \<Rightarrow> int" where
  "char_sval c = (if char_code c < 128 then int (char_code c) else int (char_code c) - 256)"

definition isspace :: "char \<Rightarrow> bool" where
  [ctype_defs]: "isspace c \<longleftrightarrow> char_code c = 32 \<or> 9 \<le> char_code c \<and> char_code c \<le> 13"

definition isdigit :: "char \<Rightarrow> bool" where
  [ctype_defs]: "isdigit c \<longleftrightarrow> 48 \<le> char_code c \<and> char_code c \<le> 57"

definition isupper :: "char \<Rightarrow> bool" where
  [ctype_defs]: "isupper c \<longleftrightarrow> 65 \<le> char_code c \<and> char_code c \<le> 90"

definition islower :: "char \<Rightarrow> bool" where
  [ctype_defs]: "islower c \<longleftrightarrow> 97 \<le> char_code c \<and> char_code c \<le> 122"

definition isalpha :: "char \<Rightarrow> bool" where
  [ctype_defs]: "isalpha c \<longleftrightarrow> isupper c \<or> islower c"

definition isalnum :: "char \<Rightarrow> bool" where
  [ctype_defs]: "isalnum c \<longleftrightarrow> isalpha c \<or> isdigit c"

definition isxdigit :: "char \<Rightarrow> bool" where
  [ctype_defs]: "isxdigit c \<longleftrightarrow> isdigit c \<or> 65 \<le> char_code c \<and> char_code c \<le> 70
     \<or> 97 \<le> char_code c \<and> char_code c \<le> 102"

definition tolower :: "char \<Rightarrow> char" where
  "tolower c = (if isupper c then char_of (char_code c + 32) else c)"

lemma char_code_bound: "char_code c < 256"
  unfolding char_code_def by (metis of_char_mod_256 mod_less_divisor zero_less_numeral)

lemma char_code_inject: "char_code a = char_code b \<longleftrightarrow> a = b"
  by (simp add: char_code_def)

text \<open>
  \<^verbatim>\<open>strcmp\<close>: C fixes the sign of the result only; the model returns the sign.
\<close>

fun strcmp :: "string \<Rightarrow> string \<Rightarrow> int" where
  "strcmp [] [] = 0"
| "strcmp [] (b # bs) = -1"
| "strcmp (a # as) [] = 1"
| "strcmp (a # as) (b # bs) =
     (if a = b then strcmp as bs else if char_code a < char_code b then -1 else 1)"

lemma strcmp_eq_0 [simp]: "strcmp a b = 0 \<longleftrightarrow> a = b"
  by (induction a b rule: strcmp.induct) auto

text \<open>Dropping a leading run never lengthens a string: the termination facts of the scanners.\<close>

lemma length_dropWhile_less:
  "xs \<noteq> [] \<Longrightarrow> P (hd xs) \<Longrightarrow> length (dropWhile P xs) < length xs"
  by (cases xs) (simp_all add: length_dropWhile_le le_imp_less_Suc)

section \<open>Words\<close>

unbundle bit_operations_syntax

text \<open>Masks, shifts and bitwise sums of words, read as natural numbers.\<close>

lemma unat_and_mask_mod: "unat (w AND mask n) = unat w mod 2 ^ n" for w :: "'a::len word"
  by (metis take_bit_eq_mask take_bit_eq_mod unsigned_take_bit_eq)

lemma unat_drop_bit_div: "unat (drop_bit n w) = unat w div 2 ^ n" for w :: "'a::len word"
  by (metis unat_drop_bit_eq drop_bit_eq_div)

lemma unat_2_power: "n < LENGTH('a) \<Longrightarrow> unat (2 ^ n :: 'a::len word) = 2 ^ n"
proof -
  assume n: "n < LENGTH('a)"
  have "unat (2 ^ n :: 'a word) = unat (word_of_nat (2 ^ n) :: 'a word)" by simp
  also have "\<dots> = 2 ^ n" using n by (simp only: unat_of_nat) simp
  finally show ?thesis .
qed

lemma int_xor_plus: "x + y = (x XOR y) + 2 * (x AND y)" for x y :: int
proof -
  have "(x XOR y) AND (x AND y) = 0" by (rule bit_eqI) (auto simp: bit_simps)
  moreover have "(x XOR y) OR (x AND y) = x OR y" by (rule bit_eqI) (auto simp: bit_simps)
  ultimately have "x OR y = (x XOR y) + (x AND y)" by (metis disjunctive_add_eq_or)
  then show ?thesis using plus_and_or [of x y] by simp
qed

lemma unat_xor_le: "unat (x XOR y) \<le> unat x + unat y" for x y :: "'a::len word"
proof -
  have "uint (x XOR y) \<le> uint x + uint y"
    using int_xor_plus [of "uint x" "uint y"] by (simp add: unsigned_xor_eq)
  then show ?thesis by (metis nat_add_distrib nat_mono uint_ge_0 unat_eq_nat_uint)
qed

section \<open>Programs over a component and simulation\<close>

text \<open>
  \<open>run step ops s\<close> runs a sequence of operations of a component and collects what each
  returns, up to the first failure.  The locale \<open>simulation\<close> is the contract between a
  component and its specification: from related states each operation fails in the same way
  on both sides, or both succeed with the same return value in related states.
\<close>

fun run :: "('op \<Rightarrow> 's \<Rightarrow> ('s \<times> 'o) outcome) \<Rightarrow> 'op list \<Rightarrow> 's \<Rightarrow> ('s \<times> 'o list) outcome" where
  "run step [] s = Inr (s, [])"
| "run step (op # ops) s =
     bindE (step op s) (\<lambda>(s', out). bindE (run step ops s') (\<lambda>(t, outs). Inr (t, out # outs)))"

lemma rel_outcome_bind:
  assumes "rel_sum (=) R m m'" and "\<And>x y. R x y \<Longrightarrow> rel_sum (=) S (f x) (g y)"
  shows "rel_sum (=) S (bindE m f) (bindE m' g)"
  using assms by (cases m; cases m') auto

locale simulation =
  fixes R :: "'c \<Rightarrow> 'a \<Rightarrow> bool"
    and cstep :: "'op \<Rightarrow> 'c \<Rightarrow> ('c \<times> 'o) outcome"
    and astep :: "'op \<Rightarrow> 'a \<Rightarrow> ('a \<times> 'o) outcome"
  assumes step_sim: "R c a \<Longrightarrow> rel_sum (=) (rel_prod R (=)) (cstep op c) (astep op a)"
begin

lemma run_sim: "R c a \<Longrightarrow> rel_sum (=) (rel_prod R (=)) (run cstep ops c) (run astep ops a)"
proof (induction ops arbitrary: c a)
  case Nil
  then show ?case by simp
next
  case (Cons op ops)
  show ?case
    unfolding run.simps
  proof (rule rel_outcome_bind [OF step_sim [OF Cons.prems, of op]])
    fix x :: "'c \<times> 'o" and y :: "'a \<times> 'o"
    assume xy: "rel_prod R (=) x y"
    show "rel_sum (=) (rel_prod R (=))
        ((\<lambda>(s', out). bindE (run cstep ops s') (\<lambda>(t, outs). Inr (t, out # outs))) x)
        ((\<lambda>(s', out). bindE (run astep ops s') (\<lambda>(t, outs). Inr (t, out # outs))) y)"
      using xy Cons.IH by (cases x; cases y) (auto intro!: rel_outcome_bind)
  qed
qed

lemma run_ok:
  assumes "R c a" and "run astep ops a = Inr (a', outs)"
  shows "\<exists>c'. run cstep ops c = Inr (c', outs) \<and> R c' a'"
  using run_sim [OF assms(1), of ops] assms(2)
  by (cases "run cstep ops c") (auto simp: rel_sum_simps)

lemma run_fail:
  assumes "R c a" and "run cstep ops c = Inl e"
  shows "run astep ops a = Inl e"
  using run_sim [OF assms(1), of ops] assms(2) by (cases "run astep ops a") auto

end

end
