(* ===== verification/Ucc_Dynarray.thy ===== *)
theory Ucc_Dynarray
  imports Ucc_Prelude
begin

text \<open>
  The growable NULL-terminated pointer array of \<^verbatim>\<open>src/util/dynarray.c\<close>, at the level of
  the memory it touches.  A \<^verbatim>\<open>void **\<close> is \<open>None\<close> when it is NULL and otherwise the block
  it points to; every read, write, \<^verbatim>\<open>memmove\<close> and \<^verbatim>\<open>realloc\<close> of the source is an access to
  that block, so an access out of bounds or a read of a cell nothing has written would show
  as a failure.  \<open>da_rep\<close> says which list of pointers a block stands for; every operation
  refines the list operation it is meant to be, and none of them fails on a well-formed
  array other than by the assertions of the source.  Allocation is assumed to succeed
  (\<^verbatim>\<open>umalloc\<close> and \<^verbatim>\<open>urealloc1\<close> stop the compiler otherwise).
\<close>

section \<open>Operations\<close>

type_synonym vec = "cell list option"

definition DYNARRAY_NULL :: ptr where
  "DYNARRAY_NULL = 1"

text \<open>The loop \<^verbatim>\<open>while(ar[len]) len++\<close> of \<^verbatim>\<open>dynarray_nochk_count\<close>.\<close>

function count_from :: "cell list \<Rightarrow> nat \<Rightarrow> nat outcome" where
  "count_from ar len =
     bindE (rd ar len) (\<lambda>p. if p = 0 then Inr len else count_from ar (Suc len))"
  by pat_completeness auto
termination
  by (relation "measure (\<lambda>(ar, len). length ar - len)") (auto dest!: rd_Inr_bound)

declare count_from.simps [simp del]

definition dynarray_nochk_count :: "vec \<Rightarrow> nat outcome" where
  "dynarray_nochk_count ar = (case ar of None \<Rightarrow> Inr 0 | Some b \<Rightarrow> count_from b 0)"

definition dynarray_nochk_add :: "vec \<Rightarrow> ptr \<Rightarrow> vec outcome" where
  "dynarray_nochk_add par new =
     (if new = 0 then Inl (Assert_failed ''dynarray_nochk_add(): adding NULL'')
      else bindE
        (case par of
           None \<Rightarrow> Inr (calloc_cells 2, 0)
         | Some ar \<Rightarrow> bindE (dynarray_nochk_count par)
             (\<lambda>idx. Inr (realloc_cells ar (idx + 2), idx)))
        (\<lambda>(ar, idx). bindE (wr ar idx new) (\<lambda>ar.
           bindE (wr ar (idx + 1) 0) (\<lambda>ar. Inr (Some ar)))))"

text \<open>The padding loop \<^verbatim>\<open>for(j = i - n; j > 0; j--)\<close> of \<^verbatim>\<open>dynarray_nochk_padinsert\<close>.\<close>

fun pad_loop :: "nat \<Rightarrow> vec \<Rightarrow> vec outcome" where
  "pad_loop 0 par = Inr par"
| "pad_loop (Suc j) par = bindE (dynarray_nochk_add par DYNARRAY_NULL) (pad_loop j)"

definition dynarray_nochk_padinsert ::
  "vec \<Rightarrow> nat \<Rightarrow> nat \<Rightarrow> ptr \<Rightarrow> (vec \<times> nat \<times> ptr) outcome" where
  "dynarray_nochk_padinsert par i n ins =
     (if i < n then
        (case par of
           None \<Rightarrow> Inl Null_deref
         | Some ar \<Rightarrow> bindE (rd ar i) (\<lambda>out. bindE (wr ar i ins) (\<lambda>ar.
             Inr (Some ar, n, if out = DYNARRAY_NULL then 0 else out))))
      else
        bindE (pad_loop (i - n) par) (\<lambda>par.
        bindE (dynarray_nochk_add par ins) (\<lambda>par. Inr (par, n + (i - n) + 1, 0))))"

definition dynarray_nochk_insert :: "vec \<Rightarrow> nat \<Rightarrow> ptr \<Rightarrow> vec outcome" where
  "dynarray_nochk_insert par i to_insert =
     bindE (dynarray_nochk_count par) (\<lambda>n.
       if \<not> i \<le> n then Inl (Assert_failed ''oob dynarray insert'')
       else if i = n then dynarray_nochk_add par to_insert
       else bindE (dynarray_nochk_add par to_insert) (\<lambda>par.
         (case par of
            None \<Rightarrow> Inl Null_deref
          | Some ar \<Rightarrow> bindE (memmove_cells ar (i + 1) i (n + 1 - i - 1)) (\<lambda>ar.
              bindE (wr ar i to_insert) (\<lambda>ar. Inr (Some ar))))))"

definition dynarray_nochk_pop :: "vec \<Rightarrow> (vec \<times> ptr) outcome" where
  "dynarray_nochk_pop par =
     bindE (dynarray_nochk_count par) (\<lambda>n.
       if \<not> n > 0 then Inl (Assert_failed ''dynarray_nochk_pop(): empty array'')
       else (case par of
          None \<Rightarrow> Inl Null_deref
        | Some ar \<Rightarrow> bindE (rd ar (n - 1)) (\<lambda>r. bindE (wr ar (n - 1) 0) (\<lambda>ar.
            Inr (if n = 1 then None else Some ar, r)))))"

definition dynarray_nochk_prepend :: "vec \<Rightarrow> ptr \<Rightarrow> vec outcome" where
  "dynarray_nochk_prepend par new =
     bindE (dynarray_nochk_add par new) (\<lambda>par.
     bindE (dynarray_nochk_count par) (\<lambda>n.
       (case par of
          None \<Rightarrow> Inl Null_deref
        | Some ar \<Rightarrow> let i = n - 1 in
            bindE (if i > 0 then memmove_cells ar 1 0 i else Inr ar) (\<lambda>ar.
            bindE (wr ar 0 new) (\<lambda>ar. Inr (Some ar))))))"

text \<open>The search loop \<^verbatim>\<open>for(i = 0; ar[i]; i++)\<close> of \<^verbatim>\<open>dynarray_nochk_rm\<close>.\<close>

function rm_from :: "cell list \<Rightarrow> nat \<Rightarrow> ptr \<Rightarrow> nat \<Rightarrow> vec outcome" where
  "rm_from ar n x i =
     bindE (rd ar i) (\<lambda>p.
       if p = 0 then Inr (Some ar)
       else if p = x then
         (if n = 1 then Inr None
          else bindE (memmove_cells ar i (i + 1) (n - i)) (\<lambda>ar. Inr (Some ar)))
       else rm_from ar n x (Suc i))"
  by pat_completeness auto
termination
  by (relation "measure (\<lambda>(ar, n, x, i). length ar - i)") (auto dest!: rd_Inr_bound)

declare rm_from.simps [simp del]

definition dynarray_nochk_rm :: "vec \<Rightarrow> ptr \<Rightarrow> vec outcome" where
  "dynarray_nochk_rm par x =
     (case par of
        None \<Rightarrow> Inr None
      | Some ar \<Rightarrow> bindE (dynarray_nochk_count par) (\<lambda>n. rm_from ar n x 0))"

text \<open>
  \<^verbatim>\<open>dynarray_nochk_free\<close> with a callback \<^verbatim>\<open>f\<close>: the model returns the arguments of the
  calls of \<^verbatim>\<open>f\<close>, in order; with \<^verbatim>\<open>f\<close> NULL there are none.
\<close>

function free_calls :: "cell list \<Rightarrow> nat \<Rightarrow> ptr list outcome" where
  "free_calls ar i =
     bindE (rd ar i) (\<lambda>p.
       if p = 0 then Inr []
       else bindE (free_calls ar (Suc i)) (\<lambda>ps. Inr (p # ps)))"
  by pat_completeness auto
termination
  by (relation "measure (\<lambda>(ar, i). length ar - i)") (auto dest!: rd_Inr_bound)

declare free_calls.simps [simp del]

definition dynarray_nochk_free :: "vec \<Rightarrow> bool \<Rightarrow> (vec \<times> ptr list) outcome" where
  "dynarray_nochk_free par f =
     (case par of
        None \<Rightarrow> Inr (None, [])
      | Some ar \<Rightarrow> bindE (if f then free_calls ar 0 else Inr []) (\<lambda>ps. Inr (None, ps)))"

text \<open>\<^verbatim>\<open>memcpy\<close> of the first \<open>n\<close> cells of one block to position \<open>at\<close> of another.\<close>

definition memcpy_cells :: "cell list \<Rightarrow> nat \<Rightarrow> cell list \<Rightarrow> nat \<Rightarrow> cell list outcome" where
  "memcpy_cells dst at src n =
     (if at + n \<le> length dst \<and> n \<le> length src
      then Inr (take at dst @ take n src @ drop (at + n) dst) else Inl Out_of_bounds)"

definition dynarray_nochk_add_array :: "vec \<Rightarrow> vec \<Rightarrow> vec outcome" where
  "dynarray_nochk_add_array par ar2 =
     (case ar2 of
        None \<Rightarrow> Inr par
      | Some b2 \<Rightarrow>
        (case par of
           None \<Rightarrow> bindE (dynarray_nochk_count ar2) (\<lambda>n.
             bindE (memcpy_cells (calloc_cells (n + 1)) 0 b2 n) (\<lambda>ar.
             bindE (wr ar n 0) (\<lambda>ar. Inr (Some ar))))
         | Some ar \<Rightarrow> bindE (dynarray_nochk_count par) (\<lambda>n.
             bindE (dynarray_nochk_count ar2) (\<lambda>n2.
             bindE (memcpy_cells (realloc_cells ar (n + n2 + 1)) n b2 (n2 + 1)) (\<lambda>ar.
             Inr (Some ar))))))"

definition dynarray_nochk_add_tmparray :: "vec \<Rightarrow> vec \<Rightarrow> (vec \<times> vec) outcome" where
  "dynarray_nochk_add_tmparray par ar2 =
     bindE (dynarray_nochk_add_array par ar2) (\<lambda>par.
     bindE (dynarray_nochk_free ar2 False) (\<lambda>(ar2, _). Inr (par, ar2)))"

section \<open>The list a block stands for\<close>

text \<open>
  A block represents \<open>xs\<close> when it holds exactly the pointers \<open>xs\<close>, none of them NULL, and
  then NULL; what follows the terminator is never read.
\<close>

definition da_rep :: "vec \<Rightarrow> ptr list \<Rightarrow> bool" where
  "da_rep par xs \<longleftrightarrow> 0 \<notin> set xs \<and>
     (case par of None \<Rightarrow> xs = [] | Some ar \<Rightarrow> \<exists>rest. ar = map Cell xs @ Cell 0 # rest)"

lemma da_rep_None [simp]: "da_rep None xs \<longleftrightarrow> xs = []"
  by (auto simp: da_rep_def)

lemma da_repE:
  assumes "da_rep (Some ar) xs"
  obtains rest where "ar = map Cell xs @ Cell 0 # rest" and "0 \<notin> set xs"
  using assms by (auto simp: da_rep_def)

lemma da_repI: "0 \<notin> set xs \<Longrightarrow> da_rep (Some (map Cell xs @ Cell 0 # rest)) xs"
  by (auto simp: da_rep_def)

lemma da_rep_nonzero: "da_rep par xs \<Longrightarrow> 0 \<notin> set xs"
  by (simp add: da_rep_def)

lemma rd_rep:
  "i \<le> length xs \<Longrightarrow>
   rd (map Cell xs @ Cell 0 # rest) i = Inr (if i = length xs then 0 else xs ! i)"
  by (auto simp: rd_def nth_append)

lemma count_from_rep:
  "i \<le> length xs \<Longrightarrow> 0 \<notin> set xs \<Longrightarrow>
   count_from (map Cell xs @ Cell 0 # rest) i = Inr (length xs)"
proof (induction "length xs - i" arbitrary: i)
  case 0
  then show ?case by (subst count_from.simps) (simp add: rd_rep)
next
  case (Suc k)
  then have "i < length xs" and "xs ! i \<noteq> 0" by (auto simp: nth_mem in_set_conv_nth)
  with Suc show ?case by (subst count_from.simps) (simp add: rd_rep)
qed

lemma count_rep [simp]: "da_rep par xs \<Longrightarrow> dynarray_nochk_count par = Inr (length xs)"
  by (cases par) (auto simp: dynarray_nochk_count_def count_from_rep elim!: da_repE)

section \<open>Each operation refines its list operation\<close>

lemma realloc_rep:
  "realloc_cells (map Cell xs @ Cell 0 # rest) (length xs + 2) =
     map Cell xs @ Cell 0 # (case rest of [] \<Rightarrow> [Undef] | c # _ \<Rightarrow> [c])"
  by (simp add: realloc_cells_def split: list.split)

lemma add_rep:
  assumes "da_rep par xs" and "p \<noteq> 0"
  shows "\<exists>par'. dynarray_nochk_add par p = Inr par' \<and> da_rep par' (xs @ [p])"
proof (cases par)
  case None
  then have "dynarray_nochk_add par p = Inr (Some [Cell p, Cell 0])"
    using assms by (simp add: dynarray_nochk_add_def calloc_cells_def wr_def eval_nat_numeral)
  then show ?thesis using assms None da_repI [of "[p]" "[]"] by simp
next
  case (Some ar)
  with assms(1) obtain rest where ar: "ar = map Cell xs @ Cell 0 # rest" and nz: "0 \<notin> set xs"
    by (auto elim!: da_repE)
  obtain c where c: "realloc_cells ar (length xs + 2) = map Cell xs @ [Cell 0, c]"
    using realloc_rep [of xs rest] by (cases rest) (auto simp: ar)
  have "wr (map Cell xs @ [Cell p, c]) (length xs + 1) 0 = Inr (map Cell (xs @ [p]) @ [Cell 0])"
    using wr_append_right [of "length xs + 1" "map Cell (xs @ [p])" c "[]" 0] by simp
  then have "dynarray_nochk_add par p = Inr (Some (map Cell (xs @ [p]) @ [Cell 0]))"
    using Some assms c by (simp add: dynarray_nochk_add_def mem_simps)
  then show ?thesis using nz assms(2) da_repI [of "xs @ [p]" "[]"] by simp
qed

lemma add_null: "dynarray_nochk_add par 0 = Inl (Assert_failed ''dynarray_nochk_add(): adding NULL'')"
  by (simp add: dynarray_nochk_add_def)

lemma add_repE:
  assumes "da_rep par xs" and "p \<noteq> 0"
  obtains ar where "dynarray_nochk_add par p = Inr (Some ar)" and "da_rep (Some ar) (xs @ [p])"
proof -
  obtain par' where *: "dynarray_nochk_add par p = Inr par'" "da_rep par' (xs @ [p])"
    using add_rep [OF assms] by blast
  then show ?thesis using that by (cases par') auto
qed

text \<open>
  The two shifting operations first add the element at the end and then move a part of the
  block up by one cell.
\<close>

lemma shift_up_rep:
  assumes "da_rep (Some ar) (xs @ ys @ [p])"
  shows "\<exists>ar'. bindE (memmove_cells ar (length xs + 1) (length xs) (length ys)) (\<lambda>ar.
           bindE (wr ar (length xs) q) (\<lambda>ar. Inr (Some ar))) = Inr (Some ar') \<and>
         (q \<noteq> 0 \<longrightarrow> da_rep (Some ar') (xs @ q # ys))"
proof -
  obtain rest where ar: "ar = map Cell (xs @ ys @ [p]) @ Cell 0 # rest"
    and nz: "0 \<notin> set (xs @ ys @ [p])"
    using assms by (rule da_repE)
  obtain z zs where hd: "map Cell ys @ [Cell p] = z # zs" by (cases ys) auto
  have "memmove_cells ar (length xs + 1) (length xs) (length ys) =
          Inr (map Cell xs @ z # map Cell ys @ Cell 0 # rest)"
    using hd by (cases ys) (auto simp: ar memmove_cells_def)
  moreover have "wr (map Cell xs @ z # map Cell ys @ Cell 0 # rest) (length xs) q =
      Inr (map Cell (xs @ q # ys) @ Cell 0 # rest)"
    by (simp add: mem_simps)
  ultimately show ?thesis using nz da_repI [of "xs @ q # ys" rest] by simp
qed

lemma insert_rep:
  assumes "da_rep par xs" and "p \<noteq> 0" and "i \<le> length xs"
  shows "\<exists>par'. dynarray_nochk_insert par i p = Inr par' \<and>
           da_rep par' (take i xs @ p # drop i xs)"
proof (cases "i = length xs")
  case True
  then show ?thesis using assms add_rep [OF assms(1,2)] by (simp add: dynarray_nochk_insert_def)
next
  case False
  obtain ar where ar: "dynarray_nochk_add par p = Inr (Some ar)" "da_rep (Some ar) (xs @ [p])"
    using assms(1,2) by (rule add_repE)
  have "da_rep (Some ar) (take i xs @ drop i xs @ [p])"
    using ar(2) by (metis append.assoc append_take_drop_id)
  from shift_up_rep [OF this, of p] show ?thesis
    using assms False ar(1) by (auto simp: dynarray_nochk_insert_def min_absorb2)
qed

lemma insert_oob:
  "da_rep par xs \<Longrightarrow> length xs < i \<Longrightarrow>
   dynarray_nochk_insert par i p = Inl (Assert_failed ''oob dynarray insert'')"
  by (simp add: dynarray_nochk_insert_def)

lemma insert_null:
  "da_rep par xs \<Longrightarrow> i \<le> length xs \<Longrightarrow>
   dynarray_nochk_insert par i 0 = Inl (Assert_failed ''dynarray_nochk_add(): adding NULL'')"
  by (simp add: dynarray_nochk_insert_def add_null)

lemma prepend_rep:
  assumes "da_rep par xs" and "p \<noteq> 0"
  shows "\<exists>par'. dynarray_nochk_prepend par p = Inr par' \<and> da_rep par' (p # xs)"
proof -
  obtain ar where ar: "dynarray_nochk_add par p = Inr (Some ar)" "da_rep (Some ar) (xs @ [p])"
    using assms by (rule add_repE)
  have len: "dynarray_nochk_count (Some ar) = Inr (Suc (length xs))"
    using count_rep [OF ar(2)] by simp
  have rep: "da_rep (Some ar) ([] @ xs @ [p])" using ar(2) by simp
  show ?thesis
  proof (cases "xs = []")
    case True
    obtain rest where "ar = map Cell [p] @ Cell 0 # rest"
      using ar(2) True by (auto elim: da_repE)
    then show ?thesis using ar(1) assms(2) True len da_repI [of "[p]" rest]
      by (simp add: dynarray_nochk_prepend_def wr_def)
  next
    case False
    then show ?thesis using shift_up_rep [OF rep, of p] ar(1) len assms(2)
      by (auto simp: dynarray_nochk_prepend_def)
  qed
qed

lemma prepend_null:
  "dynarray_nochk_prepend par 0 = Inl (Assert_failed ''dynarray_nochk_add(): adding NULL'')"
  by (simp add: dynarray_nochk_prepend_def add_null)

lemma pop_rep:
  assumes "da_rep par xs" and "xs \<noteq> []"
  shows "\<exists>par'. dynarray_nochk_pop par = Inr (par', last xs) \<and> da_rep par' (butlast xs)"
proof -
  from assms obtain ar where par: "par = Some ar" by (cases par) auto
  with assms obtain rest where ar: "ar = map Cell xs @ Cell 0 # rest" and nz: "0 \<notin> set xs"
    by (auto elim!: da_repE)
  obtain ys y where xs: "xs = ys @ [y]" using assms(2) by (metis append_butlast_last_id)
  have "rd ar (length ys) = Inr y" and
    "wr ar (length ys) 0 = Inr (map Cell ys @ Cell 0 # Cell 0 # rest)"
    by (simp_all add: ar xs rd_def wr_def nth_append list_update_append)
  then show ?thesis
    using assms(1) par nz xs da_repI [of ys "Cell 0 # rest"]
    by (cases ys) (auto simp: dynarray_nochk_pop_def)
qed

lemma pop_empty:
  "da_rep par [] \<Longrightarrow>
   dynarray_nochk_pop par = Inl (Assert_failed ''dynarray_nochk_pop(): empty array'')"
  by (simp add: dynarray_nochk_pop_def)

lemma rm_from_rep:
  assumes nz: "0 \<notin> set (xs @ ys)" and x: "x \<notin> set xs" and n: "n = length (xs @ ys)"
  shows "\<exists>par'. rm_from (map Cell (xs @ ys) @ Cell 0 # rest) n x (length xs) = Inr par' \<and>
           da_rep par' (xs @ remove1 x ys)"
  using assms
proof (induction ys arbitrary: xs)
  case Nil
  then show ?case using da_repI [of xs rest] rd_rep [of "length xs" xs rest]
    by (subst rm_from.simps) simp
next
  case (Cons y ys)
  have rd: "rd (map Cell (xs @ y # ys) @ Cell 0 # rest) (length xs) = Inr y"
    by (simp add: rd_def nth_append)
  have y0: "y \<noteq> 0" using Cons.prems by auto
  show ?case
  proof (cases "y = x")
    case False
    have "\<exists>par'. rm_from (map Cell ((xs @ [y]) @ ys) @ Cell 0 # rest) n x (length (xs @ [y])) = Inr par'
        \<and> da_rep par' ((xs @ [y]) @ remove1 x ys)"
      using Cons.prems False by (intro Cons.IH) auto
    then show ?thesis using rd y0 False by (subst rm_from.simps) auto
  next
    case True
    show ?thesis
    proof (cases "n = 1")
      case True
      then have "xs = []" and "ys = []" using Cons.prems by auto
      then show ?thesis using rd y0 \<open>y = x\<close> True by (subst rm_from.simps) simp
    next
      case False
      have "memmove_cells (map Cell (xs @ y # ys) @ Cell 0 # rest) (length xs) (length xs + 1)
              (n - length xs) = Inr (map Cell (xs @ ys) @ Cell 0 # Cell 0 # rest)"
        using Cons.prems(3) by (simp add: memmove_cells_def)
      then show ?thesis
        using rd y0 True False da_repI [of "xs @ ys" "Cell 0 # rest"] Cons.prems
        by (subst rm_from.simps) simp
    qed
  qed
qed

lemma rm_rep:
  assumes "da_rep par xs"
  shows "\<exists>par'. dynarray_nochk_rm par x = Inr par' \<and> da_rep par' (remove1 x xs)"
proof (cases par)
  case None
  then show ?thesis using assms by (simp add: dynarray_nochk_rm_def)
next
  case (Some ar)
  with assms obtain rest where "ar = map Cell ([] @ xs) @ Cell 0 # rest" and "0 \<notin> set xs"
    by (auto elim!: da_repE)
  then show ?thesis
    using Some assms rm_from_rep [of "[]" xs x "length xs" rest]
    by (simp add: dynarray_nochk_rm_def)
qed

lemma free_calls_rep:
  "i \<le> length xs \<Longrightarrow> 0 \<notin> set xs \<Longrightarrow>
   free_calls (map Cell xs @ Cell 0 # rest) i = Inr (drop i xs)"
proof (induction "length xs - i" arbitrary: i)
  case 0
  then show ?case by (subst free_calls.simps) (simp add: rd_rep)
next
  case (Suc k)
  then have "i < length xs" and "xs ! i \<noteq> 0" by (auto simp: in_set_conv_nth)
  with Suc show ?case by (subst free_calls.simps) (simp add: rd_rep Cons_nth_drop_Suc)
qed

lemma free_rep:
  "da_rep par xs \<Longrightarrow> dynarray_nochk_free par f = Inr (None, if f then xs else [])"
  by (cases par) (auto simp: dynarray_nochk_free_def free_calls_rep elim!: da_repE)

lemma add_array_rep:
  assumes "da_rep par xs" and "da_rep ar2 ys"
  shows "\<exists>par'. dynarray_nochk_add_array par ar2 = Inr par' \<and> da_rep par' (xs @ ys)"
proof (cases ar2)
  case None
  then show ?thesis using assms by (simp add: dynarray_nochk_add_array_def)
next
  case (Some b2)
  with assms(2) obtain r2 where b2: "b2 = map Cell ys @ Cell 0 # r2" and nz2: "0 \<notin> set ys"
    by (auto elim!: da_repE)
  show ?thesis
  proof (cases par)
    case None
    have "memcpy_cells (calloc_cells (Suc (length ys))) 0 b2 (length ys) = Inr (map Cell ys @ [Cell 0])"
      by (simp add: memcpy_cells_def calloc_cells_def b2 del: replicate_Suc) (simp add: Suc_diff_le)
    moreover have "wr (map Cell ys @ [Cell 0]) (length ys) 0 = Inr (map Cell ys @ [Cell 0])"
      by (simp add: mem_simps)
    ultimately show ?thesis
      using None Some assms nz2 da_repI [of ys "[]"] by (simp add: dynarray_nochk_add_array_def)
  next
    case (Some ar)
    with assms(1) obtain r1 where ar: "ar = map Cell xs @ Cell 0 # r1" and nz1: "0 \<notin> set xs"
      by (auto elim!: da_repE)
    have "memcpy_cells (realloc_cells ar (length xs + length ys + 1)) (length xs) b2 (length ys + 1) =
        Inr (map Cell (xs @ ys) @ Cell 0 # [])"
      by (simp add: memcpy_cells_def b2) (simp add: realloc_cells_def ar)
    then show ?thesis
      using Some \<open>ar2 = Some b2\<close> assms nz1 nz2 da_repI [of "xs @ ys" "[]"]
      by (simp add: dynarray_nochk_add_array_def)
  qed
qed

lemma add_tmparray_rep:
  "da_rep par xs \<Longrightarrow> da_rep ar2 ys \<Longrightarrow>
   \<exists>par'. dynarray_nochk_add_tmparray par ar2 = Inr (par', None) \<and> da_rep par' (xs @ ys)"
  using add_array_rep [of par xs ar2 ys]
  by (auto simp: dynarray_nochk_add_tmparray_def free_rep)

section \<open>Programs over an array\<close>

text \<open>
  A client drives an array through a sequence of these operations.  \<open>da_cstep\<close> runs one on
  the block, \<open>da_astep\<close> is what it means on lists; the second component is what the client
  gets back (the popped element, the elements handed to the destructor).
\<close>

datatype da_op =
    Da_add ptr
  | Da_prepend ptr
  | Da_insert nat ptr
  | Da_pop
  | Da_rm ptr
  | Da_count
  | Da_free bool

fun da_cstep :: "da_op \<Rightarrow> vec \<Rightarrow> (vec \<times> ptr list \<times> nat) outcome" where
  "da_cstep (Da_add p) v = bindE (dynarray_nochk_add v p) (\<lambda>v. Inr (v, [], 0))"
| "da_cstep (Da_prepend p) v = bindE (dynarray_nochk_prepend v p) (\<lambda>v. Inr (v, [], 0))"
| "da_cstep (Da_insert i p) v = bindE (dynarray_nochk_insert v i p) (\<lambda>v. Inr (v, [], 0))"
| "da_cstep Da_pop v = bindE (dynarray_nochk_pop v) (\<lambda>(v, r). Inr (v, [r], 0))"
| "da_cstep (Da_rm p) v = bindE (dynarray_nochk_rm v p) (\<lambda>v. Inr (v, [], 0))"
| "da_cstep Da_count v = bindE (dynarray_nochk_count v) (\<lambda>n. Inr (v, [], n))"
| "da_cstep (Da_free f) v = bindE (dynarray_nochk_free v f) (\<lambda>(v, ps). Inr (v, ps, 0))"

fun da_astep :: "da_op \<Rightarrow> ptr list \<Rightarrow> (ptr list \<times> ptr list \<times> nat) outcome" where
  "da_astep (Da_add p) xs =
     (if p = 0 then Inl (Assert_failed ''dynarray_nochk_add(): adding NULL'')
      else Inr (xs @ [p], [], 0))"
| "da_astep (Da_prepend p) xs =
     (if p = 0 then Inl (Assert_failed ''dynarray_nochk_add(): adding NULL'')
      else Inr (p # xs, [], 0))"
| "da_astep (Da_insert i p) xs =
     (if length xs < i then Inl (Assert_failed ''oob dynarray insert'')
      else if p = 0 then Inl (Assert_failed ''dynarray_nochk_add(): adding NULL'')
      else Inr (take i xs @ p # drop i xs, [], 0))"
| "da_astep Da_pop xs =
     (if xs = [] then Inl (Assert_failed ''dynarray_nochk_pop(): empty array'')
      else Inr (butlast xs, [last xs], 0))"
| "da_astep (Da_rm p) xs = Inr (remove1 p xs, [], 0)"
| "da_astep Da_count xs = Inr (xs, [], length xs)"
| "da_astep (Da_free f) xs = Inr ([], if f then xs else [], 0)"

lemma da_step_sim:
  assumes "da_rep v xs"
  shows "rel_sum (=) (rel_prod da_rep (=)) (da_cstep op v) (da_astep op xs)"
proof (cases op)
  case (Da_add p)
  then show ?thesis using assms add_rep [of v xs p] by (cases "p = 0") (auto simp: add_null)
next
  case (Da_prepend p)
  then show ?thesis using assms prepend_rep [of v xs p] by (cases "p = 0") (auto simp: prepend_null)
next
  case (Da_insert i p)
  then show ?thesis using assms insert_rep [of v xs p i]
    by (cases "length xs < i"; cases "p = 0") (auto simp: insert_oob insert_null)
next
  case Da_pop
  then show ?thesis using assms pop_rep [of v xs] pop_empty [of v] by (cases "xs = []") auto
next
  case (Da_rm p)
  then show ?thesis using assms rm_rep [of v xs p] by auto
next
  case (Da_free f)
  then show ?thesis using assms by (simp add: free_rep)
qed (use assms in simp)

interpretation da: simulation da_rep da_cstep da_astep
  by unfold_locales (rule da_step_sim)

section \<open>Padded insertion\<close>

lemma pad_loop_rep:
  "da_rep par xs \<Longrightarrow>
   \<exists>par'. pad_loop j par = Inr par' \<and> da_rep par' (xs @ replicate j DYNARRAY_NULL)"
proof (induction j arbitrary: par xs)
  case (Suc j)
  have "DYNARRAY_NULL \<noteq> 0" by (simp add: DYNARRAY_NULL_def)
  from add_rep [OF Suc.prems this] obtain par' where
    par': "dynarray_nochk_add par DYNARRAY_NULL = Inr par'" "da_rep par' (xs @ [DYNARRAY_NULL])"
    by blast
  from Suc.IH [OF this(2)] show ?case using par'(1) by auto
qed simp

lemma padinsert_inside:
  assumes "da_rep par xs" and "ins \<noteq> 0" and "i < length xs"
  shows "\<exists>par'. dynarray_nochk_padinsert par i (length xs) ins =
           Inr (par', length xs, if xs ! i = DYNARRAY_NULL then 0 else xs ! i) \<and>
         da_rep par' (xs[i := ins])"
proof -
  obtain ar where par: "par = Some ar" using assms by (cases par) auto
  with assms(1) obtain rest where ar: "ar = map Cell xs @ Cell 0 # rest" and nz: "0 \<notin> set xs"
    by (auto elim!: da_repE)
  have "wr ar i ins = Inr (map Cell (xs[i := ins]) @ Cell 0 # rest)"
    using assms(3) by (simp add: ar wr_def list_update_append map_update)
  moreover have "0 \<notin> set (xs[i := ins])"
    using nz assms(2) by (auto dest: set_update_subset_insert [THEN subsetD])
  ultimately show ?thesis
    using assms par da_repI [of "xs[i := ins]" rest]
    by (simp add: dynarray_nochk_padinsert_def ar mem_simps)
qed

lemma padinsert_beyond:
  assumes "da_rep par xs" and "ins \<noteq> 0" and "length xs \<le> i"
  shows "\<exists>par'. dynarray_nochk_padinsert par i (length xs) ins = Inr (par', i + 1, 0) \<and>
         da_rep par' (xs @ replicate (i - length xs) DYNARRAY_NULL @ [ins])"
proof -
  obtain p1 where p1: "pad_loop (i - length xs) par = Inr p1"
    "da_rep p1 (xs @ replicate (i - length xs) DYNARRAY_NULL)"
    using pad_loop_rep [OF assms(1)] by blast
  from add_rep [OF p1(2) assms(2)] show ?thesis
    using assms(3) p1(1) by (auto simp: dynarray_nochk_padinsert_def)
qed

section \<open>Properties\<close>

text \<open>
  C2: any sequence of operations on an array that starts as NULL behaves on the memory block
  exactly as on the list of its elements: it returns the same values, it stops only at the
  assertions of the source (and then both sides do), never by an access outside the block or
  a read of an unwritten cell, and the block stays NULL-terminated.
\<close>

theorem dynarray_refines_list:
  "rel_sum (=) (rel_prod da_rep (=)) (run da_cstep ops None) (run da_astep ops [])"
  by (rule da.run_sim) simp

text \<open>
  C23: \<^verbatim>\<open>dynarray_nochk_padinsert\<close>, which the initialiser code uses for designators: inside
  the array it replaces the element and returns the old one (NULL for a filler), beyond the
  end it fills the gap with the filler; afterwards the element at index \<open>i\<close> is the inserted
  one, no other index of the old array changes, and the count it stores is the length.
\<close>

theorem dynarray_padinsert_spec:
  assumes "da_rep par xs" and "ins \<noteq> 0"
  shows "\<exists>par' old ys. dynarray_nochk_padinsert par i (length xs) ins = Inr (par', length ys, old) \<and>
    da_rep par' ys \<and> length ys = max (length xs) (i + 1) \<and> ys ! i = ins \<and>
    (\<forall>j < length ys. j \<noteq> i \<longrightarrow> ys ! j = (if j < length xs then xs ! j else DYNARRAY_NULL)) \<and>
    old = (if i < length xs \<and> xs ! i \<noteq> DYNARRAY_NULL then xs ! i else 0)"
proof (cases "i < length xs")
  case True
  then obtain par' where "dynarray_nochk_padinsert par i (length xs) ins =
      Inr (par', length xs, if xs ! i = DYNARRAY_NULL then 0 else xs ! i)" "da_rep par' (xs[i := ins])"
    using padinsert_inside [OF assms] by blast
  then show ?thesis using True
    by (intro exI [of _ par'] exI [of _ "if xs ! i = DYNARRAY_NULL then 0 else xs ! i"]
        exI [of _ "xs[i := ins]"]) auto
next
  case False
  then obtain par' where "dynarray_nochk_padinsert par i (length xs) ins = Inr (par', i + 1, 0)"
    "da_rep par' (xs @ replicate (i - length xs) DYNARRAY_NULL @ [ins])"
    using padinsert_beyond [OF assms, of i] by auto
  then show ?thesis using False
    by (intro exI [of _ par'] exI [of _ 0]
        exI [of _ "xs @ replicate (i - length xs) DYNARRAY_NULL @ [ins]"])
      (auto simp: nth_append nth_Cons')
qed

theorem dynarray_padinsert_spec_witness:
  "\<exists>par' old ys. dynarray_nochk_padinsert (Some [Cell 7, Cell 0]) 3 (length [7 :: ptr]) 9 =
      Inr (par', length ys, old) \<and>
    da_rep par' ys \<and> length ys = max (length [7 :: ptr]) (3 + 1) \<and> ys ! 3 = 9 \<and>
    (\<forall>j < length ys. j \<noteq> 3 \<longrightarrow> ys ! j = (if j < length [7 :: ptr] then [7] ! j else DYNARRAY_NULL)) \<and>
    old = (if 3 < length [7 :: ptr] \<and> [7 :: ptr] ! 3 \<noteq> DYNARRAY_NULL then [7] ! 3 else 0)"
  by (rule dynarray_padinsert_spec) (simp_all add: da_rep_def)

end
