(* ===== verification/Ucc_Dynmap.thy ===== *)
theory Ucc_Dynmap
  imports Ucc_Prelude
begin

text \<open>
  The hash map of \<^verbatim>\<open>src/util/dynmap.c\<close>: 256 buckets, each the head of a chain of
  key/value pairs whose first pair lives in the table itself.  Keys and values are pointers
  (\<open>None\<close> is NULL); the comparison and hash functions are fields of the map, as in the
  source, and \<^verbatim>\<open>cmp == NULL\<close> compares the key pointers.  \<open>dm_inv\<close> is the invariant of the
  table; under it and the contract of the callbacks (\<open>dm_ok\<close>: equal keys hash alike, key
  equality is an equivalence) the operations are those of a finite map, stated as the
  locale \<open>key_store\<close> and interpreted for the map over C strings that the compiler uses for
  labels, warnings and dependencies.
\<close>

section \<open>Data\<close>

definition HASH_TBL_CNT :: nat where
  "HASH_TBL_CNT = 256"

datatype ('k, 'v) pair = Pair "'k option" "'v option" "('k, 'v) pair option"

record ('k, 'v) dynmap =
  dm_cmp :: "('k \<Rightarrow> 'k \<Rightarrow> int) option"
  dm_hash :: "'k \<Rightarrow> u32"
  dm_pairs :: "('k, 'v) pair list"

section \<open>Operations\<close>

fun strhash_from :: "u32 \<Rightarrow> string \<Rightarrow> u32" where
  "strhash_from hash [] = hash"
| "strhash_from hash (c # s) =
     strhash_from (push_bit 5 hash + hash + of_int (char_sval c)) s"

definition dynmap_strhash :: "string \<Rightarrow> u32" where
  "dynmap_strhash s = strhash_from 5381 s"

definition dynmap_nochk_new ::
  "('k \<Rightarrow> 'k \<Rightarrow> int) option \<Rightarrow> ('k \<Rightarrow> u32) \<Rightarrow> ('k, 'v) dynmap" where
  "dynmap_nochk_new cmp hash =
     \<lparr>dm_cmp = cmp, dm_hash = hash, dm_pairs = replicate HASH_TBL_CNT (Pair None None None)\<rparr>"

text \<open>The loop of \<^verbatim>\<open>dynmap_first_pair\<close> that squashes the hash into a bucket number.\<close>

lemma squash_decreases:
  fixes hash :: u32
  assumes "256 \<le> hash"
  shows "unat (drop_bit 8 hash XOR (hash AND 255)) < unat hash"
proof -
  have h: "256 \<le> unat hash" using assms by (simp add: word_le_nat_alt)
  have "unat (hash AND 255) = unat hash mod 256"
    using unat_and_mask_mod [of hash 8] by (simp add: mask_numeral)
  moreover have "unat (drop_bit 8 hash) = unat hash div 256"
    by (simp add: unat_drop_bit_div)
  ultimately have "unat (drop_bit 8 hash XOR (hash AND 255)) \<le> unat hash div 256 + unat hash mod 256"
    by (metis unat_xor_le)
  also have "\<dots> < unat hash"
  proof -
    have "q + r < q * 256 + r" if "1 \<le> q" for q r :: nat using that by simp
    from this [of "unat hash div 256" "unat hash mod 256"] show ?thesis
      using div_le_mono [OF h, of 256] by (simp only: div_mult_mod_eq)
  qed
  finally show ?thesis .
qed

function squash_hash :: "u32 \<Rightarrow> u32" where
  "squash_hash hash =
     (if 256 \<le> hash then squash_hash (drop_bit 8 hash XOR (hash AND 255)) else hash)"
  by pat_completeness auto
termination
  by (relation "measure unat") (simp_all add: squash_decreases)

declare squash_hash.simps [simp del]

definition dynmap_first_pair :: "u32 \<Rightarrow> nat" where
  "dynmap_first_pair hash = unat (squash_hash hash)"

definition key_matches :: "('k, 'v) dynmap \<Rightarrow> 'k \<Rightarrow> 'k \<Rightarrow> bool" where
  "key_matches mp pk key =
     (case dm_cmp mp of Some cmp \<Rightarrow> cmp pk key = 0 | None \<Rightarrow> pk = key)"

text \<open>
  \<^verbatim>\<open>dynmap_nochk_pair\<close> returns a pointer to a pair; here that is the position of the pair
  in its chain.
\<close>

fun chain_find :: "('k \<Rightarrow> bool) \<Rightarrow> ('k, 'v) pair \<Rightarrow> nat option" where
  "chain_find eq (Pair None v n) = None"
| "chain_find eq (Pair (Some k) v n) =
     (if eq k then Some 0
      else (case n of None \<Rightarrow> None | Some p \<Rightarrow> map_option Suc (chain_find eq p)))"

definition dynmap_nochk_pair ::
  "('k, 'v) dynmap \<Rightarrow> 'k option \<Rightarrow> (u32 \<times> nat option) outcome" where
  "dynmap_nochk_pair mp key =
     (case key of
        None \<Rightarrow> Inl (Assert_failed ''null key'')
      | Some k \<Rightarrow> let hash = dm_hash mp k in
          Inr (hash, chain_find (\<lambda>pk. key_matches mp pk k)
            (dm_pairs mp ! dynmap_first_pair hash)))"

fun chain_nth :: "('k, 'v) pair \<Rightarrow> nat \<Rightarrow> ('k, 'v) pair option" where
  "chain_nth p 0 = Some p"
| "chain_nth (Pair k v n) (Suc i) = (case n of None \<Rightarrow> None | Some p \<Rightarrow> chain_nth p i)"

fun pair_key :: "('k, 'v) pair \<Rightarrow> 'k option" where
  "pair_key (Pair k v n) = k"

fun pair_value :: "('k, 'v) pair \<Rightarrow> 'v option" where
  "pair_value (Pair k v n) = v"

fun pair_next :: "('k, 'v) pair \<Rightarrow> ('k, 'v) pair option" where
  "pair_next (Pair k v n) = n"

definition dynmap_nochk_get :: "('k, 'v) dynmap option \<Rightarrow> 'k option \<Rightarrow> 'v option outcome" where
  "dynmap_nochk_get mp key =
     (case mp of
        None \<Rightarrow> Inr None
      | Some m \<Rightarrow> bindE (dynmap_nochk_pair m key) (\<lambda>(hash, i).
          (case i of
             None \<Rightarrow> Inr None
           | Some d \<Rightarrow> (case chain_nth (dm_pairs m ! dynmap_first_pair hash) d of
               None \<Rightarrow> Inl Null_deref
             | Some p \<Rightarrow> Inr (pair_value p)))))"

definition dynmap_nochk_exists :: "('k, 'v) dynmap option \<Rightarrow> 'k option \<Rightarrow> bool outcome" where
  "dynmap_nochk_exists mp key =
     (case mp of
        None \<Rightarrow> Inr False
      | Some m \<Rightarrow> bindE (dynmap_nochk_pair m key) (\<lambda>(hash, i). Inr (i \<noteq> None)))"

fun chain_set_value :: "nat \<Rightarrow> 'v option \<Rightarrow> ('k, 'v) pair \<Rightarrow> ('k, 'v) pair" where
  "chain_set_value 0 v (Pair k _ n) = Pair k v n"
| "chain_set_value (Suc i) v (Pair k w n) = Pair k w (map_option (chain_set_value i v) n)"

fun chain_append :: "('k, 'v) pair \<Rightarrow> 'k \<Rightarrow> 'v option \<Rightarrow> ('k, 'v) pair" where
  "chain_append (Pair k w None) key v = Pair k w (Some (Pair (Some key) v None))"
| "chain_append (Pair k w (Some p)) key v = Pair k w (Some (chain_append p key v))"

definition first_set :: "('k, 'v) pair \<Rightarrow> 'k \<Rightarrow> 'v option \<Rightarrow> ('k, 'v) pair" where
  "first_set p key v =
     (if pair_key p \<noteq> None then chain_append p key v else Pair (Some key) v (pair_next p))"

definition update_bucket ::
  "('k, 'v) dynmap \<Rightarrow> nat \<Rightarrow> ('k, 'v) pair \<Rightarrow> ('k, 'v) dynmap" where
  "update_bucket m b p = m\<lparr>dm_pairs := (dm_pairs m)[b := p]\<rparr>"

definition dynmap_nochk_set ::
  "('k, 'v) dynmap \<Rightarrow> 'k option \<Rightarrow> 'v option \<Rightarrow> (('k, 'v) dynmap \<times> 'v option) outcome" where
  "dynmap_nochk_set m key val =
     (case key of
        None \<Rightarrow> Inl (Assert_failed ''null dynmap key'')
      | Some k \<Rightarrow> bindE (dynmap_nochk_pair m key) (\<lambda>(hash, i).
          let b = dynmap_first_pair hash; first = dm_pairs m ! b in
          (case i of
             Some d \<Rightarrow> (case chain_nth first d of
                 None \<Rightarrow> Inl Null_deref
               | Some p \<Rightarrow> Inr (update_bucket m b (chain_set_value d val first), pair_value p))
           | None \<Rightarrow> Inr (update_bucket m b (first_set first k val), None))))"

fun chain_unlink :: "nat \<Rightarrow> ('k, 'v) pair \<Rightarrow> ('k, 'v) pair" where
  "chain_unlink 0 p = p"
| "chain_unlink (Suc 0) (Pair k v n) =
     Pair k v (case n of None \<Rightarrow> None | Some p \<Rightarrow> pair_next p)"
| "chain_unlink (Suc (Suc i)) (Pair k v n) =
     Pair k v (map_option (chain_unlink (Suc i)) n)"

definition dynmap_nochk_rm ::
  "('k, 'v) dynmap \<Rightarrow> 'k option \<Rightarrow> (('k, 'v) dynmap \<times> 'v option) outcome" where
  "dynmap_nochk_rm m key =
     bindE (dynmap_nochk_pair m key) (\<lambda>(hash, i).
       let b = dynmap_first_pair hash; first = dm_pairs m ! b in
       (case i of
          None \<Rightarrow> Inr (m, None)
        | Some d \<Rightarrow> (case chain_nth first d of
            None \<Rightarrow> Inl Null_deref
          | Some p \<Rightarrow>
              let value = pair_value p in
              if d = 0 then
                (case pair_next first of
                   Some q \<Rightarrow> Inr (update_bucket m b q, value)
                 | None \<Rightarrow> Inr (update_bucket m b (Pair None None None), value))
              else Inr (update_bucket m b (chain_unlink d first), value))))"

text \<open>
  \<^verbatim>\<open>dynmap_nochk_idx\<close> counts the pairs that have a key through all the buckets.
\<close>

fun chain_idx :: "int \<Rightarrow> ('k, 'v) pair \<Rightarrow> int + ('k, 'v) pair" where
  "chain_idx at (Pair k v n) =
     (if k \<noteq> None \<and> at = 0 then Inr (Pair k v n)
      else let at' = (if k \<noteq> None then at - 1 else at) in
        (case n of None \<Rightarrow> Inl at' | Some p \<Rightarrow> chain_idx at' p))"

fun table_idx :: "int \<Rightarrow> ('k, 'v) pair list \<Rightarrow> ('k, 'v) pair option" where
  "table_idx at [] = None"
| "table_idx at (p # ps) =
     (case chain_idx at p of Inr q \<Rightarrow> Some q | Inl at' \<Rightarrow> table_idx at' ps)"

definition dynmap_nochk_idx :: "('k, 'v) dynmap option \<Rightarrow> int \<Rightarrow> ('k, 'v) pair option" where
  "dynmap_nochk_idx mp at =
     (case mp of None \<Rightarrow> None | Some m \<Rightarrow> table_idx at (take HASH_TBL_CNT (dm_pairs m)))"

definition dynmap_nochk_key :: "('k, 'v) dynmap option \<Rightarrow> int \<Rightarrow> 'k option" where
  "dynmap_nochk_key mp i =
     (case dynmap_nochk_idx mp i of None \<Rightarrow> None | Some p \<Rightarrow> pair_key p)"

definition dynmap_nochk_value :: "('k, 'v) dynmap option \<Rightarrow> int \<Rightarrow> 'v option" where
  "dynmap_nochk_value mp i =
     (case dynmap_nochk_idx mp i of None \<Rightarrow> None | Some p \<Rightarrow> pair_value p)"

section \<open>Chains as association lists\<close>

fun chain_list :: "('k, 'v) pair \<Rightarrow> ('k \<times> 'v option) list" where
  "chain_list (Pair None v n) = []"
| "chain_list (Pair (Some k) v n) =
     (k, v) # (case n of None \<Rightarrow> [] | Some p \<Rightarrow> chain_list p)"

fun chain_keyed :: "('k, 'v) pair \<Rightarrow> bool" where
  "chain_keyed (Pair k v n) \<longleftrightarrow> k \<noteq> None \<and> (case n of None \<Rightarrow> True | Some p \<Rightarrow> chain_keyed p)"

text \<open>A well-formed bucket is the zeroed pair or a chain in which every pair has a key.\<close>

definition chain_ok :: "('k, 'v) pair \<Rightarrow> bool" where
  "chain_ok p \<longleftrightarrow> p = Pair None None None \<or> chain_keyed p"

lemma dynmap_first_pair_bound: "dynmap_first_pair hash < HASH_TBL_CNT"
proof -
  have "squash_hash hash < 256" for hash
  proof (induction hash rule: squash_hash.induct)
    case (1 hash)
    then show ?case
      by (subst squash_hash.simps) (simp add: not_le)
  qed
  then have "unat (squash_hash hash) < unat (256 :: u32)" by (simp only: word_less_nat_alt)
  then show ?thesis by (simp add: dynmap_first_pair_def HASH_TBL_CNT_def)
qed

text \<open>Finding, updating and unlinking a pair by its position in a chain.\<close>

lemma chain_okE:
  assumes "chain_ok p"
  obtains "p = Pair None None None" | "chain_keyed p"
  using assms by (auto simp: chain_ok_def)

lemma chain_keyed_Some: "chain_keyed (Pair k v n) \<Longrightarrow> \<exists>k'. k = Some k'"
  by simp

lemma chain_find_None:
  "chain_find eq p = None \<longleftrightarrow> (\<forall>x \<in> set (chain_list p). \<not> eq (fst x))"
  by (induction eq p rule: chain_find.induct) (auto split: option.split)

lemma chain_find_Some:
  "chain_find eq p = Some d \<Longrightarrow>
   d < length (chain_list p) \<and> eq (fst (chain_list p ! d)) \<and>
   (\<forall>i < d. \<not> eq (fst (chain_list p ! i)))"
proof (induction eq p arbitrary: d rule: chain_find.induct)
  case (1 eq v n)
  then show ?case by simp
next
  case (2 eq k v n)
  show ?case
  proof (cases "eq k")
    case True
    then show ?thesis using "2.prems" by simp
  next
    case False
    then obtain p d' where p: "n = Some p" "chain_find eq p = Some d'" "d = Suc d'"
      using "2.prems" by (auto split: option.splits)
    from "2.IH" [OF False p(1,2)] show ?thesis
      using p False by (auto simp: less_Suc_eq_0_disj)
  qed
qed

lemma chain_nth_value:
  "d < length (chain_list p) \<Longrightarrow>
   \<exists>q. chain_nth p d = Some q \<and> pair_value q = snd (chain_list p ! d)"
proof (induction p d rule: chain_nth.induct)
  case (1 p)
  then show ?case by (cases p rule: chain_list.cases) auto
next
  case (2 k v n i)
  then show ?case by (cases k; cases n) auto
qed

lemma chain_list_set_value:
  "d < length (chain_list p) \<Longrightarrow>
   chain_list (chain_set_value d v p) = (chain_list p)[d := (fst (chain_list p ! d), v)]"
proof (induction d v p rule: chain_set_value.induct)
  case (1 v k w n)
  then show ?case by (cases k) auto
next
  case (2 i v k w n)
  then show ?case by (cases k; cases n) auto
qed

lemma chain_keyed_set_value: "chain_keyed p \<Longrightarrow> chain_keyed (chain_set_value d v p)"
  by (induction d v p rule: chain_set_value.induct) (auto split: option.splits)

lemma chain_append_keyed:
  "chain_keyed p \<Longrightarrow> chain_keyed (chain_append p key v) \<and>
   chain_list (chain_append p key v) = chain_list p @ [(key, v)]"
  by (induction p key v rule: chain_append.induct) (auto split: option.splits)

lemma first_set_ok:
  assumes "chain_ok p"
  shows "chain_ok (first_set p key v) \<and> chain_list (first_set p key v) = chain_list p @ [(key, v)]"
  using assms
proof (cases rule: chain_okE)
  case 2
  then have "pair_key p \<noteq> None" by (cases p) auto
  then show ?thesis using chain_append_keyed [OF 2] by (simp add: first_set_def chain_ok_def)
qed (simp add: first_set_def chain_ok_def)

lemma chain_unlink_keyed:
  "chain_keyed p \<Longrightarrow> 0 < d \<Longrightarrow> d < length (chain_list p) \<Longrightarrow>
   chain_keyed (chain_unlink d p) \<and>
   chain_list (chain_unlink d p) = take d (chain_list p) @ drop (Suc d) (chain_list p)"
proof (induction d p rule: chain_unlink.induct)
  case (2 k v n)
  then show ?case by (cases n; cases "the n") (auto split: option.splits)
next
  case (3 i k v n)
  then show ?case by (cases n) auto
qed simp

lemma chain_keyed_next:
  "chain_keyed p \<Longrightarrow> pair_next p = Some q \<Longrightarrow> chain_keyed q \<and> chain_list q = tl (chain_list p)"
  by (cases p) auto

lemma chain_last: "chain_keyed p \<Longrightarrow> pair_next p = None \<Longrightarrow> tl (chain_list p) = []"
  by (cases p) auto

section \<open>The invariant and the map it represents\<close>

definition dm_same :: "('k, 'v) dynmap \<Rightarrow> 'k \<Rightarrow> 'k \<Rightarrow> bool" where
  "dm_same m k k' \<longleftrightarrow> key_matches m k k'"

text \<open>The contract of the callbacks a map is created with.\<close>

definition dm_ok :: "('k, 'v) dynmap \<Rightarrow> bool" where
  "dm_ok m \<longleftrightarrow> equivp (dm_same m) \<and> (\<forall>k k'. dm_same m k k' \<longrightarrow> dm_hash m k = dm_hash m k')"

definition dm_bucket :: "('k, 'v) dynmap \<Rightarrow> 'k \<Rightarrow> nat" where
  "dm_bucket m k = dynmap_first_pair (dm_hash m k)"

definition bucket_inv :: "('k, 'v) dynmap \<Rightarrow> nat \<Rightarrow> bool" where
  "bucket_inv m b \<longleftrightarrow>
     chain_ok (dm_pairs m ! b) \<and>
     (\<forall>x \<in> set (chain_list (dm_pairs m ! b)). dm_bucket m (fst x) = b) \<and>
     sorted_wrt (\<lambda>k k'. \<not> dm_same m k k') (map fst (chain_list (dm_pairs m ! b)))"

definition dm_inv :: "('k, 'v) dynmap \<Rightarrow> bool" where
  "dm_inv m \<longleftrightarrow> length (dm_pairs m) = HASH_TBL_CNT \<and> (\<forall>b < HASH_TBL_CNT. bucket_inv m b)"

definition alookup :: "('k \<Rightarrow> bool) \<Rightarrow> ('k \<times> 'w) list \<Rightarrow> 'w option" where
  "alookup eq xs = map_option snd (find (\<lambda>x. eq (fst x)) xs)"

definition dm_lookup :: "('k, 'v) dynmap \<Rightarrow> 'k \<Rightarrow> 'v option option" where
  "dm_lookup m k = alookup (\<lambda>pk. dm_same m pk k) (chain_list (dm_pairs m ! dm_bucket m k))"

text \<open>What a lookup returns to the caller: the stored value, or NULL when there is no pair.\<close>

fun or_null :: "'v option option \<Rightarrow> 'v option" where
  "or_null None = None"
| "or_null (Some v) = v"

lemma alookup_simps [simp]:
  "alookup eq [] = None"
  "alookup eq (x # xs) = (if eq (fst x) then Some (snd x) else alookup eq xs)"
  by (simp_all add: alookup_def)

lemma alookup_append:
  "alookup eq (xs @ ys) = (case alookup eq xs of None \<Rightarrow> alookup eq ys | Some v \<Rightarrow> Some v)"
  by (induction xs) auto

lemma alookup_None: "alookup eq xs = None \<longleftrightarrow> (\<forall>x \<in> set xs. \<not> eq (fst x))"
  by (induction xs) auto

lemma alookup_nth:
  "d < length xs \<Longrightarrow> eq (fst (xs ! d)) \<Longrightarrow> \<forall>i < d. \<not> eq (fst (xs ! i)) \<Longrightarrow>
   alookup eq xs = Some (snd (xs ! d))"
proof (induction xs arbitrary: d)
  case (Cons x xs)
  then show ?case
  proof (cases d)
    case (Suc e)
    have "\<forall>i < e. \<not> eq (fst (xs ! i))" using Cons.prems(3) Suc by (metis Suc_less_eq nth_Cons_Suc)
    moreover have "\<not> eq (fst x)" using Cons.prems(3) Suc by fastforce
    ultimately show ?thesis using Cons Suc by simp
  qed simp
qed simp

lemma chain_find_alookup:
  "chain_find eq p = Some d \<Longrightarrow> alookup eq (chain_list p) = Some (snd (chain_list p ! d))"
  by (metis chain_find_Some alookup_nth)

lemma chain_find_alookup_None:
  "chain_find eq p = None \<longleftrightarrow> alookup eq (chain_list p) = None"
  by (simp add: chain_find_None alookup_None)

lemma dm_bucket_bound: "dm_bucket m k < HASH_TBL_CNT"
  by (simp add: dm_bucket_def dynmap_first_pair_bound)

lemma dm_inv_bucket: "dm_inv m \<Longrightarrow> b < HASH_TBL_CNT \<Longrightarrow> bucket_inv m b"
  by (simp add: dm_inv_def)

section \<open>Each operation keeps the invariant and acts on the map\<close>

lemma update_bucket_sel [simp]:
  "dm_hash (update_bucket m b p) = dm_hash m"
  "dm_bucket (update_bucket m b p) = dm_bucket m"
  "dm_same (update_bucket m b p) = dm_same m"
  by (auto simp: update_bucket_def dm_bucket_def dm_same_def key_matches_def fun_eq_iff)

lemma dm_ok_update_bucket [simp]: "dm_ok (update_bucket m b p) = dm_ok m"
  by (simp add: dm_ok_def)

lemma dm_inv_update:
  assumes "dm_inv m" and "b < HASH_TBL_CNT" and "chain_ok p"
    and "\<forall>x \<in> set (chain_list p). dm_bucket m (fst x) = b"
    and "sorted_wrt (\<lambda>k k'. \<not> dm_same m k k') (map fst (chain_list p))"
  shows "dm_inv (update_bucket m b p)"
  using assms by (auto simp: dm_inv_def bucket_inv_def nth_list_update update_bucket_def
      dm_bucket_def dm_same_def key_matches_def)

lemma dm_lookup_update:
  assumes "dm_inv m" and "b < HASH_TBL_CNT"
  shows "dm_lookup (update_bucket m b p) k =
     (if dm_bucket m k = b then alookup (\<lambda>pk. dm_same m pk k) (chain_list p) else dm_lookup m k)"
  using assms by (auto simp: dm_lookup_def dm_inv_def) (auto simp: update_bucket_def)

lemma dm_ok_same_cong:
  assumes "dm_ok m" and "dm_same m k k'"
  shows "dm_same m pk k' = dm_same m pk k" and "dm_bucket m k' = dm_bucket m k"
    and "dm_lookup m k' = dm_lookup m k"
proof -
  have e: "equivp (dm_same m)" using assms(1) by (simp add: dm_ok_def)
  show same: "dm_same m pk k' = dm_same m pk k" for pk
    using assms(2) e by (metis equivp_symp equivp_transp)
  show "dm_bucket m k' = dm_bucket m k"
    using assms by (simp add: dm_ok_def dm_bucket_def)
  then show "dm_lookup m k' = dm_lookup m k" by (simp add: dm_lookup_def same)
qed

lemma dm_same_refl: "dm_ok m \<Longrightarrow> dm_same m k k"
  by (simp add: dm_ok_def equivp_reflp)

lemma dynmap_nochk_pair_eq:
  "dynmap_nochk_pair m (Some k) =
     Inr (dm_hash m k, chain_find (\<lambda>pk. dm_same m pk k) (dm_pairs m ! dm_bucket m k))"
  by (simp add: dynmap_nochk_pair_def dm_same_def dm_bucket_def Let_def)

lemma get_spec: "dynmap_nochk_get (Some m) (Some k) = Inr (or_null (dm_lookup m k))"
proof (cases "chain_find (\<lambda>pk. dm_same m pk k) (dm_pairs m ! dm_bucket m k)")
  case None
  then have "dm_lookup m k = None" by (simp add: dm_lookup_def chain_find_alookup_None)
  then show ?thesis using None by (simp add: dynmap_nochk_get_def dynmap_nochk_pair_eq)
next
  case (Some d)
  let ?p = "dm_pairs m ! dm_bucket m k"
  have "dm_lookup m k = Some (snd (chain_list ?p ! d))"
    using Some by (simp add: dm_lookup_def chain_find_alookup)
  moreover obtain q where "chain_nth ?p d = Some q" "pair_value q = snd (chain_list ?p ! d)"
    using chain_nth_value chain_find_Some [OF Some] by blast
  ultimately show ?thesis using Some
    by (simp add: dynmap_nochk_get_def dynmap_nochk_pair_eq flip: dm_bucket_def)
qed

lemma exists_spec: "dynmap_nochk_exists (Some m) (Some k) = Inr (dm_lookup m k \<noteq> None)"
  using chain_find_alookup_None [of "\<lambda>pk. dm_same m pk k" "dm_pairs m ! dm_bucket m k"]
  by (simp add: dynmap_nochk_exists_def dynmap_nochk_pair_eq dm_lookup_def del: not_None_eq)

lemma map_fst_update: "d < length xs \<Longrightarrow> map fst (xs[d := (fst (xs ! d), v)]) = map fst xs"
  by (metis fst_conv list_update_id map_update nth_map)

lemma alookup_update_other:
  "d < length xs \<Longrightarrow> \<not> eq (fst (xs ! d)) \<Longrightarrow>
   alookup eq (xs[d := (fst (xs ! d), v)]) = alookup eq xs"
proof (induction xs arbitrary: d)
  case (Cons x xs)
  then show ?case by (cases d) auto
qed simp

lemma alookup_update_same:
  assumes "d < length xs" and "eq (fst (xs ! d))" and "\<forall>i < d. \<not> eq (fst (xs ! i))"
  shows "alookup eq (xs[d := (fst (xs ! d), v)]) = Some v"
  using assms alookup_nth [of d "xs[d := (fst (xs ! d), v)]" eq] by simp

lemma set_spec_found:
  assumes ok: "dm_ok m" and inv: "dm_inv m"
    and found: "chain_find (\<lambda>pk. dm_same m pk k) (dm_pairs m ! dm_bucket m k) = Some d"
  shows "\<exists>m'. dynmap_nochk_set m (Some k) v = Inr (m', or_null (dm_lookup m k)) \<and>
     dm_inv m' \<and> dm_ok m' \<and> dm_same m' = dm_same m \<and>
     dm_lookup m' = (\<lambda>k'. if dm_same m k k' then Some v else dm_lookup m k')"
proof -
  let ?b = "dm_bucket m k" and ?p = "dm_pairs m ! dm_bucket m k"
  let ?xs = "chain_list ?p"
  define m' where "m' = update_bucket m ?b (chain_set_value d v ?p)"
  note b = dm_bucket_bound [of m k]
  note bi = dm_inv_bucket [OF inv b]
  have d: "d < length ?xs" "dm_same m (fst (?xs ! d)) k" "\<forall>i < d. \<not> dm_same m (fst (?xs ! i)) k"
    using chain_find_Some [OF found] by auto
  have cl: "chain_list (chain_set_value d v ?p) = ?xs[d := (fst (?xs ! d), v)]"
    using d(1) by (rule chain_list_set_value)
  have "chain_keyed ?p" using bi d(1) by (auto simp: bucket_inv_def chain_ok_def)
  then have "dm_inv m'" unfolding m'_def
    using inv b bi d(1) map_fst_update [OF d(1), of v] chain_keyed_set_value
    by (intro dm_inv_update)
      (auto simp: bucket_inv_def cl chain_ok_def dest!: set_update_subset_insert [THEN subsetD])
  moreover obtain q where "chain_nth ?p d = Some q" "pair_value q = snd (?xs ! d)"
    using chain_nth_value d(1) by blast
  moreover have "dm_lookup m k = Some (snd (?xs ! d))"
    using found by (simp add: dm_lookup_def chain_find_alookup)
  ultimately have "dynmap_nochk_set m (Some k) v = Inr (m', or_null (dm_lookup m k))"
    using found by (simp add: dynmap_nochk_set_def dynmap_nochk_pair_eq m'_def Let_def flip: dm_bucket_def)
  moreover have "dm_lookup m' k' = (if dm_same m k k' then Some v else dm_lookup m k')" for k'
  proof (cases "dm_same m k k'")
    case True
    then show ?thesis
      using dm_ok_same_cong [OF ok True] d
      by (simp add: m'_def dm_lookup_update [OF inv b] cl alookup_update_same)
  next
    case False
    then have "\<not> dm_same m (fst (?xs ! d)) k'"
      using dm_ok_same_cong(1) [OF ok, of "fst (?xs ! d)" k] d(2) ok
      by (metis dm_ok_def equivp_symp equivp_transp)
    then show ?thesis using False d(1)
      by (simp add: m'_def dm_lookup_update [OF inv b] cl alookup_update_other)
        (simp add: dm_lookup_def)
  qed
  ultimately show ?thesis using \<open>dm_inv m'\<close> ok by (auto simp: m'_def fun_eq_iff)
qed

lemma set_spec_new:
  assumes ok: "dm_ok m" and inv: "dm_inv m"
    and none: "chain_find (\<lambda>pk. dm_same m pk k) (dm_pairs m ! dm_bucket m k) = None"
  shows "\<exists>m'. dynmap_nochk_set m (Some k) v = Inr (m', or_null (dm_lookup m k)) \<and>
     dm_inv m' \<and> dm_ok m' \<and> dm_same m' = dm_same m \<and>
     dm_lookup m' = (\<lambda>k'. if dm_same m k k' then Some v else dm_lookup m k')"
proof -
  let ?b = "dm_bucket m k" and ?p = "dm_pairs m ! dm_bucket m k"
  define m' where "m' = update_bucket m ?b (first_set ?p k v)"
  note b = dm_bucket_bound [of m k]
  note bi = dm_inv_bucket [OF inv b]
  have miss: "\<forall>x \<in> set (chain_list ?p). \<not> dm_same m (fst x) k"
    using none by (simp add: chain_find_None)
  have fs: "chain_ok (first_set ?p k v)" "chain_list (first_set ?p k v) = chain_list ?p @ [(k, v)]"
    using first_set_ok [of ?p k v] bi by (auto simp: bucket_inv_def)
  have "dm_inv m'" unfolding m'_def
    using inv b bi fs miss
    by (intro dm_inv_update) (auto simp: bucket_inv_def sorted_wrt_append)
  moreover have "dm_lookup m k = None"
    using none by (simp add: dm_lookup_def chain_find_alookup_None)
  moreover have "dm_lookup m' k' = (if dm_same m k k' then Some v else dm_lookup m k')" for k'
  proof (cases "dm_same m k k'")
    case True
    moreover have "alookup (\<lambda>pk. dm_same m pk k) (chain_list ?p) = None"
      using miss by (simp add: alookup_None)
    ultimately show ?thesis
      using dm_ok_same_cong [OF ok True] dm_same_refl [OF ok, of k]
      by (simp add: m'_def dm_lookup_update [OF inv b] fs alookup_append)
  next
    case False
    then show ?thesis
      by (simp add: m'_def dm_lookup_update [OF inv b] fs alookup_append split: option.split)
        (simp add: dm_lookup_def)
  qed
  ultimately show ?thesis using ok none
    by (auto simp: m'_def fun_eq_iff dynmap_nochk_set_def dynmap_nochk_pair_eq Let_def
        simp flip: dm_bucket_def)
qed

lemma set_spec:
  assumes "dm_ok m" and "dm_inv m"
  shows "\<exists>m'. dynmap_nochk_set m (Some k) v = Inr (m', or_null (dm_lookup m k)) \<and>
     dm_inv m' \<and> dm_ok m' \<and> dm_same m' = dm_same m \<and>
     dm_lookup m' = (\<lambda>k'. if dm_same m k k' then Some v else dm_lookup m k')"
  using set_spec_found [OF assms] set_spec_new [OF assms]
  by (cases "chain_find (\<lambda>pk. dm_same m pk k) (dm_pairs m ! dm_bucket m k)") auto

text \<open>Removing one pair of a chain with pairwise different keys.\<close>

lemma alookup_remove:
  assumes sw: "sorted_wrt (\<lambda>k k'. \<not> same k k') (map fst xs)" and eq: "equivp same"
    and d: "d < length xs" "same (fst (xs ! d)) k"
  shows "alookup (\<lambda>pk. same pk k') (take d xs @ drop (Suc d) xs) =
    (if same k k' then None else alookup (\<lambda>pk. same pk k') xs)"
proof -
  have xs: "xs = take d xs @ xs ! d # drop (Suc d) xs" using d(1) by (rule id_take_nth_drop)
  have sw': "sorted_wrt (\<lambda>k k'. \<not> same k k') (map fst (take d xs @ xs ! d # drop (Suc d) xs))"
    using sw by (subst xs [symmetric])
  show ?thesis
  proof (cases "same k k'")
    case True
    have "\<not> same (fst x) k'" if "x \<in> set (take d xs @ drop (Suc d) xs)" for x
    proof
      assume "same (fst x) k'"
      then have "same (fst x) (fst (xs ! d))" "same (fst (xs ! d)) (fst x)"
        using True d(2) eq by (metis equivp_symp equivp_transp)+
      then show False using that sw' by (auto simp: sorted_wrt_append)
    qed
    then show ?thesis using True by (simp add: alookup_None)
  next
    case False
    then have "\<not> same (fst (xs ! d)) k'" using d(2) eq by (metis equivp_symp equivp_transp)
    then have "alookup (\<lambda>pk. same pk k') (take d xs @ xs ! d # drop (Suc d) xs) =
        alookup (\<lambda>pk. same pk k') (take d xs @ drop (Suc d) xs)"
      by (simp add: alookup_append split: option.split)
    then show ?thesis using False by (metis xs)
  qed
qed

lemma rm_chain:
  assumes ok: "chain_ok p" and d: "d < length (chain_list p)"
  defines "q \<equiv> (if d = 0 then (case pair_next p of Some q \<Rightarrow> q | None \<Rightarrow> Pair None None None)
                else chain_unlink d p)"
  shows "chain_ok q \<and> chain_list q = take d (chain_list p) @ drop (Suc d) (chain_list p)"
proof -
  have ck: "chain_keyed p" using ok d by (auto simp: chain_ok_def)
  show ?thesis
  proof (cases "d = 0")
    case False
    then show ?thesis using chain_unlink_keyed [OF ck _ d] by (simp add: q_def chain_ok_def)
  next
    case True
    then show ?thesis using chain_keyed_next [OF ck] chain_last [OF ck]
      by (cases "pair_next p") (auto simp: q_def chain_ok_def drop_Suc)
  qed
qed

lemma rm_spec:
  assumes ok: "dm_ok m" and inv: "dm_inv m"
  shows "\<exists>m'. dynmap_nochk_rm m (Some k) = Inr (m', or_null (dm_lookup m k)) \<and>
     dm_inv m' \<and> dm_ok m' \<and> dm_same m' = dm_same m \<and>
     dm_lookup m' = (\<lambda>k'. if dm_same m k k' then None else dm_lookup m k')"
proof (cases "chain_find (\<lambda>pk. dm_same m pk k) (dm_pairs m ! dm_bucket m k)")
  case None
  then have "dm_lookup m k = None" by (simp add: dm_lookup_def chain_find_alookup_None)
  moreover from this have "dm_lookup m k' = None" if "dm_same m k k'" for k'
    using dm_ok_same_cong(3) [OF ok that] by simp
  ultimately show ?thesis using None ok inv
    by (auto simp: dynmap_nochk_rm_def dynmap_nochk_pair_eq fun_eq_iff)
next
  case (Some d)
  let ?b = "dm_bucket m k" and ?p = "dm_pairs m ! dm_bucket m k"
  let ?xs = "chain_list ?p"
  define q where "q = (if d = 0 then (case pair_next ?p of Some q \<Rightarrow> q | None \<Rightarrow> Pair None None None)
                else chain_unlink d ?p)"
  define m' where "m' = update_bucket m ?b q"
  note b = dm_bucket_bound [of m k]
  note bi = dm_inv_bucket [OF inv b]
  have d: "d < length ?xs" "dm_same m (fst (?xs ! d)) k"
    using chain_find_Some [OF Some] by auto
  have q: "chain_ok q" "chain_list q = take d ?xs @ drop (Suc d) ?xs"
    using rm_chain [of ?p d] bi d(1) unfolding q_def by (auto simp: bucket_inv_def)
  have sw: "sorted_wrt (\<lambda>k k'. \<not> dm_same m k k') (map fst ?xs)"
    using bi by (simp add: bucket_inv_def)
  have "dm_inv m'" unfolding m'_def
  proof (rule dm_inv_update [OF inv b q(1)])
    show "\<forall>x\<in>set (chain_list q). dm_bucket m (fst x) = ?b"
      using bi by (auto simp: q bucket_inv_def dest: in_set_takeD in_set_dropD)
    have "sorted_wrt (\<lambda>k k'. \<not> dm_same m k k') (map fst (take d ?xs @ ?xs ! d # drop (Suc d) ?xs))"
      using sw id_take_nth_drop [OF d(1)] by simp
    then show "sorted_wrt (\<lambda>k k'. \<not> dm_same m k k') (map fst (chain_list q))"
      by (auto simp: q sorted_wrt_append)
  qed
  moreover obtain r where "chain_nth ?p d = Some r" "pair_value r = snd (?xs ! d)"
    using chain_nth_value d(1) by blast
  moreover have "dm_lookup m k = Some (snd (?xs ! d))"
    using Some by (simp add: dm_lookup_def chain_find_alookup)
  ultimately have "dynmap_nochk_rm m (Some k) = Inr (m', or_null (dm_lookup m k))"
    using Some by (simp add: dynmap_nochk_rm_def dynmap_nochk_pair_eq m'_def q_def Let_def
        flip: dm_bucket_def split: option.split)
  moreover have "dm_lookup m' k' = (if dm_same m k k' then None else dm_lookup m k')" for k'
    using alookup_remove [OF sw _ d, of k'] ok dm_ok_same_cong(2) [OF ok, of k k']
    by (simp add: m'_def dm_lookup_update [OF inv b] q dm_ok_def) (simp add: dm_lookup_def)
  ultimately show ?thesis using \<open>dm_inv m'\<close> ok by (auto simp: m'_def fun_eq_iff)
qed

lemma new_spec:
  "dm_inv (dynmap_nochk_new cmp hash)" "dm_lookup (dynmap_nochk_new cmp hash) = (\<lambda>_. None)"
  by (simp_all add: dm_inv_def bucket_inv_def dynmap_nochk_new_def chain_ok_def dm_lookup_def
      fun_eq_iff dm_bucket_bound)

section \<open>Programs over a map\<close>

text \<open>
  As for the arrays: a client is a sequence of operations, and its meaning is given on
  functions from keys to stored values, up to the key equality \<open>S\<close> of the map.
\<close>

datatype ('k, 'v) dm_op =
    Dm_set "'k option" "'v option"
  | Dm_get "'k option"
  | Dm_exists "'k option"
  | Dm_rm "'k option"

fun dm_cstep ::
  "('k, 'v) dm_op \<Rightarrow> ('k, 'v) dynmap \<Rightarrow> (('k, 'v) dynmap \<times> 'v option \<times> bool) outcome" where
  "dm_cstep (Dm_set k v) m = bindE (dynmap_nochk_set m k v) (\<lambda>(m, old). Inr (m, old, False))"
| "dm_cstep (Dm_get k) m = bindE (dynmap_nochk_get (Some m) k) (\<lambda>v. Inr (m, v, False))"
| "dm_cstep (Dm_exists k) m = bindE (dynmap_nochk_exists (Some m) k) (\<lambda>b. Inr (m, None, b))"
| "dm_cstep (Dm_rm k) m = bindE (dynmap_nochk_rm m k) (\<lambda>(m, old). Inr (m, old, False))"

fun dm_astep ::
  "('k \<Rightarrow> 'k \<Rightarrow> bool) \<Rightarrow> ('k, 'v) dm_op \<Rightarrow> ('k \<Rightarrow> 'v option option) \<Rightarrow>
   (('k \<Rightarrow> 'v option option) \<times> 'v option \<times> bool) outcome" where
  "dm_astep S (Dm_set (Some k) v) f =
     Inr (\<lambda>k'. if S k k' then Some v else f k', or_null (f k), False)"
| "dm_astep S (Dm_set None v) f = Inl (Assert_failed ''null dynmap key'')"
| "dm_astep S (Dm_get (Some k)) f = Inr (f, or_null (f k), False)"
| "dm_astep S (Dm_get None) f = Inl (Assert_failed ''null key'')"
| "dm_astep S (Dm_exists (Some k)) f = Inr (f, None, f k \<noteq> None)"
| "dm_astep S (Dm_exists None) f = Inl (Assert_failed ''null key'')"
| "dm_astep S (Dm_rm (Some k)) f =
     Inr (\<lambda>k'. if S k k' then None else f k', or_null (f k), False)"
| "dm_astep S (Dm_rm None) f = Inl (Assert_failed ''null key'')"

definition dm_rel ::
  "('k \<Rightarrow> 'k \<Rightarrow> bool) \<Rightarrow> ('k, 'v) dynmap \<Rightarrow> ('k \<Rightarrow> 'v option option) \<Rightarrow> bool" where
  "dm_rel S m f \<longleftrightarrow> dm_ok m \<and> dm_inv m \<and> dm_same m = S \<and> dm_lookup m = f"

lemma null_key [simp]:
  "dynmap_nochk_get (Some m) None = Inl (Assert_failed ''null key'')"
  "dynmap_nochk_exists (Some m) None = Inl (Assert_failed ''null key'')"
  "dynmap_nochk_set m None v = Inl (Assert_failed ''null dynmap key'')"
  "dynmap_nochk_rm m None = Inl (Assert_failed ''null key'')"
  by (simp_all add: dynmap_nochk_pair_def dynmap_nochk_get_def dynmap_nochk_exists_def
      dynmap_nochk_set_def dynmap_nochk_rm_def)

lemma dm_step_sim:
  assumes "dm_rel S m f"
  shows "rel_sum (=) (rel_prod (dm_rel S) (=)) (dm_cstep op m) (dm_astep S op f)"
proof (cases "(S, op, f)" rule: dm_astep.cases)
  case (1 S' k v f')
  then show ?thesis using assms set_spec [of m k v] by (auto simp: dm_rel_def)
next
  case (7 S' k f')
  then show ?thesis using assms rm_spec [of m k] by (auto simp: dm_rel_def)
qed (use assms in \<open>auto simp: dm_rel_def get_spec exists_spec\<close>)

interpretation dm: simulation "dm_rel S" dm_cstep "dm_astep S" for S
  by unfold_locales (rule dm_step_sim)

section \<open>Enumeration by index\<close>

definition dm_entries :: "('k, 'v) dynmap \<Rightarrow> ('k \<times> 'v option) list" where
  "dm_entries m = concat (map chain_list (dm_pairs m))"

lemma chain_idx_keyed:
  "chain_keyed p \<Longrightarrow>
   (if i < length (chain_list p)
    then \<exists>q. chain_idx (int i) p = Inr q \<and> pair_key q = Some (fst (chain_list p ! i)) \<and>
         pair_value q = snd (chain_list p ! i)
    else chain_idx (int i) p = Inl (int (i - length (chain_list p))))"
proof (induction p arbitrary: i rule: chain_list.induct)
  case (1 v n)
  then show ?case by simp
next
  case (2 k v n)
  show ?case
  proof (cases i)
    case (Suc j)
    then show ?thesis using "2.IH" [of _ j] "2.prems" by (cases n) auto
  qed simp
qed

lemma chain_idx_ok:
  assumes "chain_ok p"
  shows "(if i < length (chain_list p)
    then \<exists>q. chain_idx (int i) p = Inr q \<and> pair_key q = Some (fst (chain_list p ! i)) \<and>
         pair_value q = snd (chain_list p ! i)
    else chain_idx (int i) p = Inl (int (i - length (chain_list p))))"
  using assms by (cases rule: chain_okE) (simp, rule chain_idx_keyed)

lemma table_idx_spec:
  assumes "\<forall>p \<in> set ps. chain_ok p"
  shows "if i < length (concat (map chain_list ps))
    then \<exists>q. table_idx (int i) ps = Some q \<and>
           pair_key q = Some (fst (concat (map chain_list ps) ! i)) \<and>
           pair_value q = snd (concat (map chain_list ps) ! i)
    else table_idx (int i) ps = None"
  using assms
proof (induction ps arbitrary: i)
  case (Cons p ps)
  note c = chain_idx_ok [of p i] and IH = Cons.IH [of "i - length (chain_list p)"]
  show ?case
  proof (cases "i < length (chain_list p)")
    case True
    then show ?thesis using c Cons.prems by (auto simp: nth_append)
  next
    case False
    then have "chain_idx (int i) p = Inl (int (i - length (chain_list p)))"
      using c Cons.prems by simp
    then show ?thesis using False IH Cons.prems by (auto simp: nth_append split: if_splits)
  qed
qed simp

lemma key_index_spec:
  assumes "dm_inv m"
  shows "dynmap_nochk_key (Some m) (int i) =
           (if i < length (dm_entries m) then Some (fst (dm_entries m ! i)) else None)"
    and "dynmap_nochk_value (Some m) (int i) =
           (if i < length (dm_entries m) then snd (dm_entries m ! i) else None)"
proof -
  have "take HASH_TBL_CNT (dm_pairs m) = dm_pairs m" "\<forall>p \<in> set (dm_pairs m). chain_ok p"
    using assms by (auto simp: dm_inv_def bucket_inv_def in_set_conv_nth)
  from this(1) table_idx_spec [OF this(2), of i]
  show "dynmap_nochk_key (Some m) (int i) =
           (if i < length (dm_entries m) then Some (fst (dm_entries m ! i)) else None)"
    and "dynmap_nochk_value (Some m) (int i) =
           (if i < length (dm_entries m) then snd (dm_entries m ! i) else None)"
    by (auto simp: dynmap_nochk_key_def dynmap_nochk_value_def dynmap_nochk_idx_def dm_entries_def
        split: if_splits)
qed

lemma dm_entries_set:
  assumes inv: "dm_inv m"
  shows "x \<in> set (dm_entries m) \<longleftrightarrow> x \<in> set (chain_list (dm_pairs m ! dm_bucket m (fst x)))"
proof
  assume "x \<in> set (dm_entries m)"
  then obtain b where b: "b < length (dm_pairs m)" "x \<in> set (chain_list (dm_pairs m ! b))"
    by (auto simp: dm_entries_def in_set_conv_nth [of _ "dm_pairs m"])
  then have "dm_bucket m (fst x) = b" using inv by (simp add: dm_inv_def bucket_inv_def)
  with b show "x \<in> set (chain_list (dm_pairs m ! dm_bucket m (fst x)))" by simp
next
  assume "x \<in> set (chain_list (dm_pairs m ! dm_bucket m (fst x)))"
  moreover have "dm_bucket m (fst x) < length (dm_pairs m)"
    using inv dm_bucket_bound [of m "fst x"] by (simp add: dm_inv_def)
  ultimately show "x \<in> set (dm_entries m)" by (auto simp: dm_entries_def)
qed

lemma alookup_Some_iff:
  assumes sw: "sorted_wrt (\<lambda>k k'. \<not> same k k') (map fst xs)" and eq: "equivp same"
  shows "alookup (\<lambda>pk. same pk k) xs = Some v \<longleftrightarrow> (\<exists>k'. (k', v) \<in> set xs \<and> same k' k)"
  using sw
proof (induction xs)
  case (Cons x xs)
  show ?case
  proof (cases "same (fst x) k")
    case True
    have "\<not> same k' k" if "(k', w) \<in> set xs" for k' w
    proof
      assume "same k' k"
      then have "same (fst x) k'" using True eq by (metis equivp_symp equivp_transp)
      then show False using Cons.prems that by force
    qed
    then show ?thesis using True by (cases x) auto
  next
    case False
    then show ?thesis using Cons by (cases x) auto
  qed
qed simp

lemma dm_lookup_entries:
  assumes "dm_ok m" and "dm_inv m"
  shows "dm_lookup m k = Some v \<longleftrightarrow> (\<exists>k'. (k', v) \<in> set (dm_entries m) \<and> dm_same m k' k)"
proof -
  let ?xs = "chain_list (dm_pairs m ! dm_bucket m k)"
  have "dm_lookup m k = Some v \<longleftrightarrow> (\<exists>k'. (k', v) \<in> set ?xs \<and> dm_same m k' k)"
    using dm_inv_bucket [OF assms(2) dm_bucket_bound [of m k]] assms(1)
    by (auto simp: dm_lookup_def bucket_inv_def dm_ok_def intro!: alookup_Some_iff)
  moreover have "(k', v) \<in> set ?xs \<longleftrightarrow> (k', v) \<in> set (dm_entries m)" if "dm_same m k' k" for k'
    using dm_ok_same_cong(2) [OF assms(1) that] dm_entries_set [OF assms(2), of "(k', v)"] by simp
  ultimately show ?thesis by blast
qed

section \<open>The interface its clients use\<close>

text \<open>
  A store with string keys, as the symbol table's labels, the dependency set and the table
  of unknown warnings use it.
\<close>

locale key_store =
  fixes inv :: "'s \<Rightarrow> bool"
    and lookup :: "'s \<Rightarrow> 'k \<Rightarrow> 'w option"
    and put :: "'s \<Rightarrow> 'k \<Rightarrow> 'w \<Rightarrow> ('s \<times> 'r) outcome"
    and del :: "'s \<Rightarrow> 'k \<Rightarrow> ('s \<times> 'r) outcome"
  assumes put_ok: "inv s \<Longrightarrow> \<exists>s' r. put s k w = Inr (s', r) \<and> inv s' \<and> lookup s' = (lookup s)(k \<mapsto> w)"
    and del_ok: "inv s \<Longrightarrow> \<exists>s' r. del s k = Inr (s', r) \<and> inv s' \<and> lookup s' = (lookup s)(k := None)"
begin

fun put_all :: "'s \<Rightarrow> ('k \<times> 'w) list \<Rightarrow> 's outcome" where
  "put_all s [] = Inr s"
| "put_all s ((k, w) # kws) = bindE (put s k w) (\<lambda>(s', r). put_all s' kws)"

lemma put_all_ok:
  "inv s \<Longrightarrow> \<exists>s'. put_all s kws = Inr s' \<and> inv s' \<and> lookup s' = lookup s ++ map_of (rev kws)"
proof (induction kws arbitrary: s)
  case Nil
  then show ?case by simp
next
  case (Cons kw kws)
  obtain k w where kw: "kw = (k, w)" by fastforce
  obtain s' r where s': "put s k w = Inr (s', r)" "inv s'" "lookup s' = (lookup s)(k \<mapsto> w)"
    using put_ok [OF Cons.prems] by blast
  from Cons.IH [OF s'(2)] show ?case
    by (auto simp: kw s' fun_eq_iff map_add_def split: option.split)
qed

lemma put_del:
  assumes "inv s"
  shows "\<exists>s1 r1 s2 r2. put s k w = Inr (s1, r1) \<and> del s1 k = Inr (s2, r2) \<and>
           lookup s2 = (lookup s)(k := None)"
proof -
  obtain s1 r1 where *: "put s k w = Inr (s1, r1)" "inv s1" "lookup s1 = (lookup s)(k \<mapsto> w)"
    using put_ok [OF assms] by blast
  obtain s2 r2 where "del s1 k = Inr (s2, r2)" "lookup s2 = (lookup s1)(k := None)"
    using del_ok [OF *(2)] by blast
  with * show ?thesis by auto
qed

end

definition strmap_new :: "(string, 'v) dynmap" where
  "strmap_new = dynmap_nochk_new (Some strcmp) dynmap_strhash"

definition strmap_inv :: "(string, 'v) dynmap \<Rightarrow> bool" where
  "strmap_inv m \<longleftrightarrow> dm_inv m \<and> dm_cmp m = Some strcmp \<and> dm_hash m = dynmap_strhash"

lemma strmap_same: "strmap_inv m \<Longrightarrow> dm_same m = (=)"
  by (auto simp: strmap_inv_def dm_same_def key_matches_def fun_eq_iff)

lemma strmap_ok: "strmap_inv m \<Longrightarrow> dm_ok m"
  by (simp add: dm_ok_def strmap_same identity_equivp)

lemma strmap_new_inv: "strmap_inv strmap_new"
  by (simp add: strmap_inv_def strmap_new_def new_spec) (simp add: dynmap_nochk_new_def)

lemma set_rm_callbacks:
  "dynmap_nochk_set m k v = Inr (m', r) \<Longrightarrow> dm_cmp m' = dm_cmp m \<and> dm_hash m' = dm_hash m"
  "dynmap_nochk_rm m k = Inr (m', r) \<Longrightarrow> dm_cmp m' = dm_cmp m \<and> dm_hash m' = dm_hash m"
  by (auto simp: dynmap_nochk_set_def dynmap_nochk_rm_def update_bucket_def Let_def
      elim!: bindE_InrE split: option.splits if_splits)

interpretation strmap: key_store strmap_inv dm_lookup
  "\<lambda>m k. dynmap_nochk_set m (Some k)" "\<lambda>m k. dynmap_nochk_rm m (Some k)"
proof
  fix m :: "(string, 'v) dynmap" and k and v :: "'v option"
  assume m: "strmap_inv m"
  then have "dm_inv m" by (simp add: strmap_inv_def)
  note set = set_spec [OF strmap_ok [OF m] this, of k v]
    and rm = rm_spec [OF strmap_ok [OF m] this, of k]
  show "\<exists>s' r. dynmap_nochk_set m (Some k) v = Inr (s', r) \<and> strmap_inv s' \<and>
      dm_lookup s' = (dm_lookup m)(k \<mapsto> v)"
    using set set_rm_callbacks(1) m strmap_same [OF m] by (fastforce simp: strmap_inv_def fun_eq_iff)
  show "\<exists>s' r. dynmap_nochk_rm m (Some k) = Inr (s', r) \<and> strmap_inv s' \<and>
      dm_lookup s' = (dm_lookup m)(k := None)"
    using rm set_rm_callbacks(2) m strmap_same [OF m] by (fastforce simp: strmap_inv_def fun_eq_iff)
qed

section \<open>Properties\<close>

text \<open>
  C3: any sequence of set, get, exists and remove operations on a new map returns what a
  finite map up to the key equality returns, and the table keeps its invariant, provided that
  the callbacks meet their contract: key equality is an equivalence that the hash respects.
\<close>

theorem dynmap_refines_map:
  assumes "dm_ok (dynmap_nochk_new cmp hash :: ('k, 'v) dynmap)"
  defines "S \<equiv> dm_same (dynmap_nochk_new cmp hash :: ('k, 'v) dynmap)"
  shows "rel_sum (=) (rel_prod (dm_rel S) (=))
    (run dm_cstep ops (dynmap_nochk_new cmp hash :: ('k, 'v) dynmap))
    (run (dm_astep S) ops (\<lambda>_. None))"
  using assms by (intro dm.run_sim) (simp add: dm_rel_def new_spec)

text \<open>The contract holds for the string maps of the compiler.\<close>

theorem dynmap_refines_map_witness:
  "rel_sum (=) (rel_prod (dm_rel (dm_same (strmap_new :: (string, nat) dynmap))) (=))
    (run dm_cstep [Dm_set (Some ''a'') (Some 1), Dm_get (Some ''a'')] (strmap_new :: (string, nat) dynmap))
    (run (dm_astep (dm_same (strmap_new :: (string, nat) dynmap)))
       [Dm_set (Some ''a'') (Some 1), Dm_get (Some ''a'')] (\<lambda>_. None))"
  unfolding strmap_new_def
  by (rule dynmap_refines_map) (rule strmap_ok [OF strmap_new_inv [unfolded strmap_new_def]])



text \<open>
  filling a new string map with a list of bindings never fails, and afterwards the map
  holds, for every key, its last binding.
\<close>

theorem strmap_fill:
  "\<exists>m. strmap.put_all strmap_new kvs = Inr m \<and> strmap_inv m \<and> dm_lookup m = map_of (rev kvs)"
  using strmap.put_all_ok [OF strmap_new_inv, of kvs]
  by (simp add: strmap_new_def new_spec)

end
