(* ===== verification/Ucc_Math.thy ===== *)
theory Ucc_Math
  imports Ucc_Prelude
begin

text \<open>
  The power-of-two helpers of \<^verbatim>\<open>src/util/math.c\<close> on the machine words they are written
  for.  The lemmas give each its arithmetical meaning: \<open>ispow2\<close> decides powers of two,
  \<open>log2ll\<close> is the integer logarithm, \<open>round2\<close> the least power of two above its argument
  (as long as that fits 64 bits), \<open>extractbottombit\<close> splits off the lowest set bit.
\<close>

section \<open>Definitions\<close>

fun pow2i_loop :: "nat \<Rightarrow> u64 \<Rightarrow> u64" where
  "pow2i_loop 0 out = out"
| "pow2i_loop (Suc v) out = pow2i_loop v (out * 2)"

definition pow2i :: "u32 \<Rightarrow> u64" where
  "pow2i v = pow2i_loop (unat v) 1"

definition ispow2 :: "u64 \<Rightarrow> bool" where
  "ispow2 v \<longleftrightarrow> v \<noteq> 0 \<and> v AND (v - 1) = 0"

text \<open>
  The loop of \<^verbatim>\<open>last_bit_index\<close>.  A shift by 64 or more is undefined in C: the second
  disjunct of the exit condition stands for that, and \<open>last_bit_loop_stops\<close> shows that the
  loop has always cleared the word by then.
\<close>

function last_bit_loop :: "nat \<Rightarrow> int \<Rightarrow> u64 \<Rightarrow> int" where
  "last_bit_loop i lst v =
     (if v = 0 \<or> 64 \<le> i then lst
      else if v AND push_bit i 1 \<noteq> 0
      then last_bit_loop (Suc i) (int i) (v AND NOT (push_bit i 1))
      else last_bit_loop (Suc i) lst v)"
  by pat_completeness auto
termination
  by (relation "measure (\<lambda>(i, lst, v). 64 - i)") auto

declare last_bit_loop.simps [simp del]

definition last_bit_index :: "u64 \<Rightarrow> u32" where
  "last_bit_index v = of_int (last_bit_loop 0 (-1) v)"

lemma drop_bit_1_less: "v \<noteq> 0 \<Longrightarrow> unat (drop_bit (Suc 0) v) < unat v" for v :: "'a::len word"
  using unat_gt_0 [of v] by (simp only: unat_drop_bit_div) simp

function log2_loop :: "u64 \<Rightarrow> int \<Rightarrow> int" where
  "log2_loop v r = (if v = 0 then r else log2_loop (drop_bit 1 v) (r + 1))"
  by pat_completeness auto
termination
  by (relation "measure (\<lambda>(v, r). unat v)") (simp_all add: drop_bit_1_less)

declare log2_loop.simps [simp del]

definition log2ll :: "u64 \<Rightarrow> int" where
  "log2ll v =
     (let adj = (0 :: int); adj = (if \<not> ispow2 v then 0 else adj) in log2_loop v (-1) + adj)"

definition log2i :: "u32 \<Rightarrow> int" where
  "log2i v = log2ll (ucast v)"

definition round2 :: "u64 \<Rightarrow> u64" where
  "round2 v = (if ispow2 v then v else pow2i (last_bit_index v + 1))"

definition extractbottombit :: "u32 \<Rightarrow> u32 \<times> u32" where
  "extractbottombit bitset =
     (let next = bitset AND (bitset - 1); b = bitset AND NOT next in (b, next))"

section \<open>The lowest set bit\<close>

definition lowest_bit :: "'a::len word \<Rightarrow> nat \<Rightarrow> bool" where
  "lowest_bit w k \<longleftrightarrow> bit w k \<and> (\<forall>j < k. \<not> bit w j)"

lemma lowest_bit_ex: "w \<noteq> 0 \<Longrightarrow> \<exists>k. lowest_bit w k" for w :: "'a::len word"
proof -
  assume "w \<noteq> 0"
  then obtain n where "bit w n" using bit_eqI [of w 0] by (auto simp: bit_simps)
  then show ?thesis using exists_least_iff [of "bit w"] by (auto simp: lowest_bit_def)
qed

lemma and_minus_1:
  assumes "lowest_bit w k"
  shows "w AND (w - 1) = unset_bit k w" and "w = unset_bit k w + 2 ^ k"
proof -
  let ?u = "unset_bit k w"
  have k: "k < LENGTH('a)" using assms by (auto simp: lowest_bit_def dest: bit_imp_le_length)
  have u: "bit ?u n \<longleftrightarrow> bit w n \<and> n \<noteq> k" for n
    by (auto simp: bit_simps dest: bit_imp_le_length)
  have low: "\<not> bit ?u n" if "n < k" for n using assms that by (simp add: u lowest_bit_def)
  have "w = ?u OR 2 ^ k"
    using assms k by (intro bit_word_eqI) (auto simp: bit_simps lowest_bit_def)
  also have "\<dots> = ?u + 2 ^ k"
    by (rule disjunctive_add [symmetric]) (auto simp: bit_simps)
  finally show w: "w = ?u + 2 ^ k" .
  have "w - 1 = ?u + mask k" by (subst w) (simp add: mask_eq_exp_minus_1)
  also have "\<dots> = ?u OR mask k"
    by (rule disjunctive_add) (use low in \<open>auto simp: bit_simps\<close>)
  finally have w1: "w - 1 = ?u OR mask k" .
  show "w AND (w - 1) = ?u"
    unfolding w1 using assms low
    by (intro bit_word_eqI) (auto simp: bit_simps lowest_bit_def)
qed

lemma ispow2_iff: "ispow2 v \<longleftrightarrow> (\<exists>n < 64. v = 2 ^ n)"
proof
  assume p: "ispow2 v"
  then obtain k where k: "lowest_bit v k" using lowest_bit_ex by (auto simp: ispow2_def)
  then have "v = 2 ^ k" using p and_minus_1 [OF k] by (simp add: ispow2_def)
  moreover have "k < 64" using k by (auto simp: lowest_bit_def dest: bit_imp_le_length)
  ultimately show "\<exists>n < 64. v = 2 ^ n" by blast
next
  assume "\<exists>n < 64. v = 2 ^ n"
  then obtain n where n: "n < 64" "v = 2 ^ n" by blast
  then have "lowest_bit v n" by (auto simp: lowest_bit_def bit_simps)
  from and_minus_1 [OF this] n show "ispow2 v"
    by (auto simp: ispow2_def)
qed

lemma extractbottombit_zero: "extractbottombit 0 = (0, 0)"
  by (simp add: extractbottombit_def)

lemma extractbottombit_split:
  assumes "lowest_bit b k"
  shows "extractbottombit b = (2 ^ k, unset_bit k b)"
proof -
  have "b AND NOT (unset_bit k b) = 2 ^ k"
    using assms by (intro bit_word_eqI) (auto simp: bit_simps lowest_bit_def)
  then show ?thesis by (simp add: extractbottombit_def and_minus_1(1) [OF assms])
qed

section \<open>Logarithm and rounding\<close>

text \<open>The position of the highest set bit is the integer logarithm.\<close>

definition highest_bit :: "'a::len word \<Rightarrow> nat \<Rightarrow> bool" where
  "highest_bit w k \<longleftrightarrow> bit w k \<and> (\<forall>j > k. \<not> bit w j)"

lemma highest_bit_bounds:
  assumes "highest_bit w k"
  shows "2 ^ k \<le> unat w" and "unat w < 2 ^ Suc k"
proof -
  have "bit (unat w) k" using assms by (simp add: highest_bit_def bit_unsigned_iff)
  then have "odd (unat w div 2 ^ k)" by (simp add: bit_iff_odd)
  then have "unat w div 2 ^ k \<noteq> 0" by (metis even_zero)
  then show "2 ^ k \<le> unat w" by (metis div_less leI)
  have "take_bit (Suc k) (unat w) = unat w"
    using assms by (intro bit_eqI)
      (auto simp: bit_simps highest_bit_def bit_unsigned_iff less_Suc_eq_le, meson linorder_not_le)
  then show "unat w < 2 ^ Suc k" by (simp only: take_bit_nat_eq_self_iff)
qed

lemma last_bit_loop_highest:
  "i \<le> 64 \<Longrightarrow> \<forall>j < i. \<not> bit v j \<Longrightarrow>
   (v = 0 \<and> last_bit_loop i l v = l) \<or>
   (\<exists>h \<ge> i. highest_bit v h \<and> last_bit_loop i l v = int h)"
proof (induction "64 - i" arbitrary: i l v)
  case 0
  then have "v = 0" using bit_imp_le_length [of v] by (intro bit_word_eqI) auto
  then show ?case by (simp add: last_bit_loop.simps)
next
  case (Suc n)
  then have i: "i < 64" and n: "n = 64 - Suc i" by auto
  show ?case
  proof (cases "v = 0")
    case True
    then show ?thesis by (simp add: last_bit_loop.simps)
  next
    case False
    define v' where "v' = v AND NOT (push_bit i 1)"
    have b: "v AND push_bit i 1 \<noteq> 0 \<longleftrightarrow> bit v i"
      by (metis and_exp_eq_0_iff_not_bit push_bit_eq_mult mult_1)
    have v': "bit v' j \<longleftrightarrow> bit v j \<and> j \<noteq> i" for j
      by (auto simp: v'_def bit_simps dest: bit_imp_le_length)
    show ?thesis
    proof (cases "bit v i")
      case True
      then have eq: "last_bit_loop i l v = last_bit_loop (Suc i) (int i) v'"
        using b i False by (subst last_bit_loop.simps) (simp add: v'_def)
      have "\<forall>j < Suc i. \<not> bit v' j" using Suc.prems(2) by (auto simp: v' less_Suc_eq)
      then consider "v' = 0" "last_bit_loop (Suc i) (int i) v' = int i"
        | h where "h \<ge> Suc i" "highest_bit v' h" "last_bit_loop (Suc i) (int i) v' = int h"
        using Suc.hyps(1) [OF n, of v' "int i"] i by auto
      then show ?thesis
      proof cases
        case 1
        then have "\<not> bit v j" if "j > i" for j using that v' [of j] by simp
        with True have "highest_bit v i" by (simp add: highest_bit_def)
        then show ?thesis using 1 eq by auto
      next
        case 2
        then have "bit v h" "\<not> bit v j" if "j > h" for j
          using that v' [of h] v' [of j] by (auto simp: highest_bit_def)
        then have "highest_bit v h" by (meson gt_ex highest_bit_def)
        then show ?thesis using 2 eq by (intro disjI2 exI [of _ h]) auto
      qed
    next
      case nb: False
      then have eq: "last_bit_loop i l v = last_bit_loop (Suc i) l v"
        using b i False by (subst last_bit_loop.simps) simp
      have "\<forall>j < Suc i. \<not> bit v j" using Suc.prems(2) nb by (auto simp: less_Suc_eq)
      then show ?thesis using Suc.hyps(1) [OF n, of v l] i eq False by (auto intro: Suc_leD)
    qed
  qed
qed

lemma last_bit_loop_stops:
  "v \<noteq> 0 \<Longrightarrow> \<exists>h < 64. highest_bit v h \<and> last_bit_loop 0 (-1) v = int h"
  using last_bit_loop_highest [of 0 v "-1"] bit_imp_le_length [of v] by (auto simp: highest_bit_def)

lemma pow2i_loop_eq: "pow2i_loop n out = out * 2 ^ n"
  by (induction n out rule: pow2i_loop.induct) (simp_all add: algebra_simps)

lemma round2_zero: "round2 0 = 1"
  by (simp add: round2_def ispow2_def last_bit_index_def last_bit_loop.simps [of 0 "-1" 0]
      pow2i_def)

lemma round2_not_pow2:
  assumes "\<not> ispow2 v" and "highest_bit v h"
  shows "round2 v = 2 ^ Suc h"
proof -
  have "v \<noteq> 0" using assms(2) by (auto simp: highest_bit_def)
  then obtain h' where h': "h' < 64" "highest_bit v h'" "last_bit_loop 0 (-1) v = int h'"
    using last_bit_loop_stops by blast
  have "h' = h" using h'(2) assms(2) by (metis highest_bit_def linorder_neqE_nat)
  then have idx: "last_bit_index v + 1 = word_of_nat (Suc h)" and h: "h < 64"
    using h' by (simp_all add: last_bit_index_def)
  have "unat (word_of_nat (Suc h) :: u32) = Suc h" using h by (simp only: unat_of_nat) simp
  then show ?thesis using assms(1) by (simp only: round2_def idx pow2i_def pow2i_loop_eq if_False) simp
qed

lemma round2_least:
  assumes "v \<noteq> 0" and "unat v \<le> 2 ^ 63"
  shows "\<exists>k \<le> 63. round2 v = 2 ^ k \<and> unat v \<le> 2 ^ k \<and> (k \<noteq> 0 \<longrightarrow> 2 ^ (k - 1) < unat v)"
proof (cases "ispow2 v")
  case True
  then obtain n where n: "n < 64" "v = 2 ^ n" by (auto simp: ispow2_iff)
  then have "unat v = 2 ^ n" by (simp add: unat_2_power)
  then show ?thesis using n True by (intro exI [of _ n]) (auto simp: round2_def)
next
  case False
  obtain h where h: "h < 64" "highest_bit v h" using last_bit_loop_stops assms(1) by blast
  note hb = highest_bit_bounds [OF h(2)]
  have ne: "unat v \<noteq> 2 ^ h"
  proof
    assume "unat v = 2 ^ h"
    then have "v = 2 ^ h" using h(1) by (simp add: unat_2_power word_unat_eq_iff)
    then show False using False h(1) by (auto simp: ispow2_iff)
  qed
  have "h \<noteq> 63" using hb(1) assms(2) ne by auto
  then show ?thesis using h(1) hb ne round2_not_pow2 [OF False h(2)]
    by (intro exI [of _ "Suc h"]) auto
qed

lemma log2_loop_bounds:
  "v \<noteq> 0 \<Longrightarrow> \<exists>k. log2_loop v r = r + 1 + int k \<and> 2 ^ k \<le> unat v \<and> unat v < 2 ^ Suc k"
proof (induction v r rule: log2_loop.induct)
  case (1 v r)
  let ?w = "drop_bit 1 v :: u64"
  have w: "unat ?w = unat v div 2" by (simp only: unat_drop_bit_div) simp
  have v0: "0 < unat v" using "1.prems" by (simp add: unat_gt_0)
  have step: "log2_loop v r = log2_loop ?w (r + 1)"
    using "1.prems" by (subst log2_loop.simps) simp
  show ?case
  proof (cases "?w = 0")
    case True
    then have "unat v = 1" using w v0 by simp
    then show ?thesis using True step
      by (intro exI [of _ 0]) (simp add: log2_loop.simps [of 0])
  next
    case False
    then obtain k where "log2_loop ?w (r + 1) = r + 1 + 1 + int k" "2 ^ k \<le> unat ?w" "unat ?w < 2 ^ Suc k"
      using "1.IH" [OF "1.prems"] by blast
    then show ?thesis using step w by (intro exI [of _ "Suc k"]) auto
  qed
qed

section \<open>Properties\<close>

text \<open>
  \<^verbatim>\<open>round2\<close> returns the least power of two that is not below its argument, for every
  nonzero argument up to \<open>2 ^ 63\<close> (above, that power does not fit the return type).
\<close>

theorem round2_correct:
  assumes "v \<noteq> 0" and "unat v \<le> 2 ^ 63"
  shows "ispow2 (round2 v) \<and> v \<le> round2 v \<and> (\<forall>p. ispow2 p \<and> v \<le> p \<longrightarrow> round2 v \<le> p)"
proof -
  obtain k where k: "k \<le> 63" "round2 v = 2 ^ k" "unat v \<le> 2 ^ k" "k \<noteq> 0 \<longrightarrow> 2 ^ (k - 1) < unat v"
    using round2_least [OF assms] by blast
  have u: "unat (round2 v) = 2 ^ k" using k(1,2) by (simp add: unat_2_power)
  have "round2 v \<le> p" if p: "ispow2 p" "v \<le> p" for p
  proof -
    obtain n where n: "n < 64" "p = 2 ^ n" using p(1) by (auto simp: ispow2_iff)
    have un: "unat p = 2 ^ n" using n by (simp add: unat_2_power)
    have "k \<le> n"
    proof (rule ccontr)
      assume "\<not> k \<le> n"
      then have "(2 :: nat) ^ n \<le> 2 ^ (k - 1)" by (intro power_increasing) auto
      moreover have "2 ^ (k - 1) < unat v" using k(4) \<open>\<not> k \<le> n\<close> by auto
      moreover have "unat v \<le> 2 ^ n" using p(2) un by (simp add: word_le_nat_alt)
      ultimately show False by linarith
    qed
    then show ?thesis using u un by (simp add: word_le_nat_alt)
  qed
  moreover have "ispow2 (round2 v)" using k(1,2) by (auto simp: ispow2_iff intro!: exI [of _ k])
  moreover have "v \<le> round2 v" using k(3) u by (simp add: word_le_nat_alt)
  ultimately show ?thesis by blast
qed

theorem round2_correct_witness: "ispow2 (round2 5) \<and> 5 \<le> round2 5 \<and> round2 5 \<le> 8"
proof -
  have "ispow2 8" by (simp add: ispow2_def)
  then show ?thesis using round2_correct [of 5] by simp
qed

text \<open>
  \<^verbatim>\<open>extractbottombit\<close> returns the lowest set bit of a nonzero set and leaves the set
  without it, so that the callers' loops visit every bit exactly once and end.
\<close>

theorem extractbottombit_correct:
  assumes "b \<noteq> 0"
  shows "\<exists>k. bit b k \<and> (\<forall>j < k. \<not> bit b j) \<and> extractbottombit b = (2 ^ k, unset_bit k b)
    \<and> snd (extractbottombit b) < b"
proof -
  obtain k where k: "lowest_bit b k" using lowest_bit_ex [OF assms] by blast
  have "bit b k" using k by (simp add: lowest_bit_def)
  then have "k < 32" by (auto dest: bit_imp_le_length)
  have "uint (unset_bit k b) = unset_bit k (uint b)"
    by (rule bit_eqI) (auto simp: bit_simps dest: bit_imp_le_length)
  moreover have "unset_bit k (uint b) < uint b"
    using \<open>bit b k\<close> by (simp add: unset_bit_less_eq less_le bit_uint_iff)
      (metis bit_unset_bit_iff bit_uint_iff bit_imp_le_length)
  ultimately have "unset_bit k b < b" by (simp add: word_less_def)
  then show ?thesis
    using k extractbottombit_split [OF k] by (auto simp: lowest_bit_def)
qed

theorem extractbottombit_correct_witness:
  "\<exists>k. bit (12 :: u32) k \<and> (\<forall>j < k. \<not> bit (12 :: u32) j) \<and>
     extractbottombit 12 = (2 ^ k, unset_bit k 12) \<and> snd (extractbottombit 12) < 12"
  by (rule extractbottombit_correct) simp

end
