(* ===== verification/Ucc_Escape.thy ===== *)
theory Ucc_Escape
  imports Ucc_Prelude
begin

text \<open>
  Reading numbers and character escapes: \<^verbatim>\<open>src/util/escape.c\<close>.  The tokeniser of the
  compiler and the expression reader of the preprocessor both go through
  \<open>char_seq_to_ullong\<close> and \<open>escape_char\<close>.  Accumulators keep their width
  (\<^verbatim>\<open>unsigned long long\<close> for numbers, 32 bits for the value of a character constant), and
  the out-parameters \<^verbatim>\<open>*end\<close>, \<^verbatim>\<open>*of\<close>, \<^verbatim>\<open>*warn\<close>, \<^verbatim>\<open>*err\<close> and \<^verbatim>\<open>*multi\<close> are components of the
  result.
\<close>

section \<open>Definitions\<close>

datatype base = BIN | OCT | DEC | HEX

datatype errno = E_none | EINVAL | ERANGE | EILSEQ | E2BIG

definition escapechars :: "(char \<times> int) list" where
  "escapechars =
     [(CHR ''n'', 10), (CHR ''t'', 9), (CHR ''b'', 8), (CHR ''r'', 13), (CHR ''v'', 11),
      (CHR ''f'', 12), (CHR ''0'', 0), (CHR ''a'', 7), (CHR ''e'', 27), (CHR 0x5C, 92),
      (CHR 0x27, 39), (CHR ''?'', 63), (CHR 0x22, 34)]"

definition escape_char1 :: "char \<Rightarrow> int" where
  "escape_char1 c = (case map_of escapechars c of Some v \<Rightarrow> v | None \<Rightarrow> -1)"

definition inc_and_chk :: "u64 \<Rightarrow> u64 \<Rightarrow> u64 \<Rightarrow> u64 \<times> bool" where
  "inc_and_chk val base inc =
     (let new = val * base + inc; ov = new < val \<or> val * base < val in (new, ov))"

definition overflow_handle :: "(char \<Rightarrow> bool) \<Rightarrow> string \<Rightarrow> string" where
  "overflow_handle test s = dropWhile test s"

definition digit_val :: "char \<Rightarrow> nat" where
  "digit_val c = (if isdigit c then char_code c - 48 else char_code (tolower c) - 97 + 10)"

text \<open>
  The loop of \<^verbatim>\<open>read_ap_num\<close>; the result is the value, \<^verbatim>\<open>*end\<close> and \<^verbatim>\<open>*of\<close>.  On overflow the
  source stores the end of the digits in \<^verbatim>\<open>*end\<close> (\<open>end0\<close>) and overwrites it after the loop.
\<close>

function read_loop :: "(char \<Rightarrow> bool) \<Rightarrow> u64 \<Rightarrow> string \<Rightarrow> int \<Rightarrow> u64 \<Rightarrow> u64 \<times> string \<times> bool" where
  "read_loop test base [] max_chars val = (val, [], False)"
| "read_loop test base (c # s) max_chars val =
     (if \<not> test c then (val, c # s, False)
      else
        let (val', ov) = inc_and_chk val base (of_nat (digit_val c)) in
        if ov then
          (let end0 = overflow_handle test (c # s);
               s' = dropWhile (\<lambda>d. test d \<or> d = CHR ''_'') (c # s)
           in (val', s', True))
        else
          let s' = dropWhile (\<lambda>d. d = CHR ''_'') s;
              max_chars' = (if max_chars > 0 then max_chars - 1 else max_chars)
          in if max_chars > 0 \<and> max_chars' = 0 then (val', s', False)
             else read_loop test base s' max_chars' val')"
  by pat_completeness auto
termination
  by (relation "measure (\<lambda>(test, base, s, max_chars, val). length s)")
    (auto simp: length_dropWhile_le le_imp_less_Suc)

definition read_ap_num :: "(char \<Rightarrow> bool) \<Rightarrow> string \<Rightarrow> u64 \<Rightarrow> int \<Rightarrow> u64 \<times> string \<times> bool" where
  "read_ap_num test s base max_chars = read_loop test base s max_chars 0"

definition isbdigit :: "char \<Rightarrow> bool" where
  "isbdigit c \<longleftrightarrow> c = CHR ''0'' \<or> c = CHR ''1''"

definition isodigit :: "char \<Rightarrow> bool" where
  "isodigit c \<longleftrightarrow> 48 \<le> char_code c \<and> char_code c < 56"

fun base_row :: "base \<Rightarrow> u64 \<times> int \<times> (char \<Rightarrow> bool)" where
  "base_row BIN = (2, -1, isbdigit)"
| "base_row OCT = (8, 3, isodigit)"
| "base_row DEC = (10, -1, isdigit)"
| "base_row HEX = (16, -1, isxdigit)"

definition char_seq_to_ullong :: "string \<Rightarrow> bool \<Rightarrow> base \<Rightarrow> u64 \<times> string \<times> bool" where
  "char_seq_to_ullong s apply_limit mode =
     (case base_row mode of (b, max_chars, test) \<Rightarrow>
        read_ap_num test s b (if apply_limit then max_chars else -1))"

text \<open>
  \<^verbatim>\<open>escape_char_1\<close>: the character after a backslash.  At the end of the string the source
  would step past the terminator, which no string has room for.
\<close>

definition escape_char_1 ::
  "string \<Rightarrow> bool \<Rightarrow> errno \<Rightarrow> errno \<Rightarrow> (int \<times> string \<times> errno \<times> errno) outcome" where
  "escape_char_1 start is_wide warn err =
     (case start of
        [] \<Rightarrow> Inl Out_of_bounds
      | esc # rest \<Rightarrow>
        (if esc = CHR ''x'' \<or> isodigit esc then
           let start' = (if esc = CHR ''x'' then rest else start) in
           (case char_seq_to_ullong start' True (if esc = CHR ''x'' then HEX else OCT) of
              (parsed, end, overflow) \<Rightarrow>
                let err1 = (if overflow then ERANGE else err);
                    err2 = (if length start' = length end then EILSEQ else err1);
                    err3 = (if (if is_wide then 0x7fffffff else 0xff) < parsed then ERANGE else err2)
                in Inr (sint (ucast parsed :: u32), end, warn, err3))
         else
           let c = escape_char1 esc in
           Inr (c, rest, if c = -1 then EINVAL else warn, err)))"

text \<open>One step of the accumulation in \<^verbatim>\<open>escape_char\<close>.\<close>

definition escape_accum :: "bool \<Rightarrow> u32 \<Rightarrow> int \<Rightarrow> errno \<Rightarrow> u32 \<times> errno" where
  "escape_accum is_wide ret this warn =
     (if is_wide then
        let ret' = of_int this in (ret', if ret' \<noteq> 0 then E2BIG else warn)
      else
        let of1 = (ret > 0xffffffff div 256);
            ret1 = ret * 256;
            of2 = (ret1 > 0xffffffff - of_int this);
            ret2 = ret1 + of_int this
        in (ret2, if of1 \<or> of2 then E2BIG else warn))"

record escape_state =
  es_ret :: u32
  es_n :: nat
  es_warn :: errno
  es_err :: errno

lemma read_loop_length: "length (fst (snd (read_loop test base s mc val))) \<le> length s"
proof (induction test base s mc val rule: read_loop.induct)
  case (2 test base c s mc val)
  obtain val' ov where ic: "inc_and_chk val base (of_nat (digit_val c)) = (val', ov)" by fastforce
  let ?mc = "if mc > 0 then mc - 1 else mc" and ?s = "dropWhile (\<lambda>d. d = CHR ''_'') s"
  have le: "length ?s \<le> length s" by (rule length_dropWhile_le)
  consider "\<not> test c" | "test c" ov | "test c" "\<not> ov" "mc > 0 \<and> ?mc = 0"
    | "test c" "\<not> ov" "\<not> (mc > 0 \<and> ?mc = 0)" by blast
  then show ?case
  proof cases
    case 2
    then show ?thesis using ic length_dropWhile_le [of "\<lambda>d. test d \<or> d = CHR ''_''" "c # s"]
      by (simp add: Let_def)
  next
    case 3
    then show ?thesis using ic le by (auto simp: Let_def split: if_splits)
  next
    case 4
    then have eq: "read_loop test base (c # s) mc val = read_loop test base ?s ?mc val'"
      using ic by auto
    have "length (fst (snd (read_loop test base ?s ?mc val'))) \<le> length ?s"
      using "2.IH" [OF _ ic [symmetric] refl _ refl refl] 4 by blast
    then show ?thesis unfolding eq using le by simp
  qed simp
qed simp

lemma char_seq_length: "char_seq_to_ullong s lim mode = (v, e, f) \<Longrightarrow> length e \<le> length s"
  by (metis (no_types, lifting) char_seq_to_ullong_def case_prod_beta fst_conv read_ap_num_def
      read_loop_length snd_conv)

lemma escape_char_1_length:
  "escape_char_1 s w wa er = Inr (c, e, wa', er') \<Longrightarrow> length e \<le> length s"
  by (fastforce simp: escape_char_1_def Let_def split: list.splits if_splits prod.splits
      dest: char_seq_length)

text \<open>
  The loop of \<^verbatim>\<open>escape_char\<close>: \<open>i\<close> and \<open>limit\<close> are pointers into one string, so they are
  equal when their suffixes have the same length.
\<close>

function escape_loop ::
  "string \<Rightarrow> bool \<Rightarrow> string \<Rightarrow> escape_state \<Rightarrow> (escape_state \<times> string) outcome" where
  "escape_loop limit is_wide i st =
     (if length i = length limit \<or> i = [] then Inr (st, i)
      else if hd i = CHR 0x5C then
        (let j = tl i in
         if length j = length limit then Inr (st\<lparr>es_err := EILSEQ\<rparr>, j)
         else
           bindE (escape_char_1 j is_wide (es_warn st) (es_err st)) (\<lambda>(this, escfin, warn, err).
             (case escape_accum is_wide (es_ret st) this warn of (ret, warn') \<Rightarrow>
                escape_loop limit is_wide escfin
                  \<lparr>es_ret = ret, es_n = es_n st + 1, es_warn = warn', es_err = err\<rparr>)))
      else
        (case escape_accum is_wide (es_ret st) (char_sval (hd i)) (es_warn st) of (ret, warn') \<Rightarrow>
           escape_loop limit is_wide (tl i)
             (st\<lparr>es_ret := ret, es_n := es_n st + 1, es_warn := warn'\<rparr>)))"
  by pat_completeness auto
termination
proof (relation "measure (\<lambda>(limit, w, i, st). length i)")
  show "wf (measure (\<lambda>(limit :: string, w :: bool, i :: string, st :: escape_state). length i))"
    by simp
qed (auto dest!: escape_char_1_length simp: neq_Nil_conv)

declare escape_loop.simps [simp del]

definition escape_char ::
  "string \<Rightarrow> string option \<Rightarrow> bool \<Rightarrow> errno \<Rightarrow> errno \<Rightarrow>
   (int \<times> string \<times> bool \<times> errno \<times> errno) outcome" where
  "escape_char start limit is_wide warn err =
     (case limit of
        None \<Rightarrow> Inl (Assert_failed ''limit'')
      | Some lim \<Rightarrow>
        bindE (escape_loop lim is_wide start \<lparr>es_ret = 0, es_n = 0, es_warn = warn, es_err = err\<rparr>)
          (\<lambda>(st, i).
             bindE
               (if length i = length lim then Inr i
                else if length i = length start then Inl Out_of_bounds
                else Inr (drop (length start - length i - 1) start))
               (\<lambda>end. Inr (sint (es_ret st), end, es_n st > 1, es_warn st, es_err st))))"

fun base_to_str :: "base \<Rightarrow> string" where
  "base_to_str BIN = ''binary''"
| "base_to_str OCT = ''octal''"
| "base_to_str DEC = ''decimal''"
| "base_to_str HEX = ''hexadecimal''"

section \<open>The value of a digit string\<close>

definition digits_value :: "nat \<Rightarrow> nat \<Rightarrow> string \<Rightarrow> nat" where
  "digits_value b n ds = foldl (\<lambda>n c. n * b + digit_val c) n ds"

lemma digits_value_simps [simp]:
  "digits_value b n [] = n"
  "digits_value b n (c # ds) = digits_value b (n * b + digit_val c) ds"
  by (simp_all add: digits_value_def)

lemma digits_value_ge: "0 < b \<Longrightarrow> n \<le> digits_value b n ds"
proof (induction ds arbitrary: n)
  case (Cons c ds)
  have "n \<le> n * b + digit_val c" using Cons.prems by (metis le_add1 le_trans mult_le_mono2 mult_1_right Suc_leI One_nat_def)
  then show ?case using Cons.IH [OF Cons.prems, of "n * b + digit_val c"] by simp
qed simp

lemma unat_of_nat64: "n < 2 ^ 64 \<Longrightarrow> unat (of_nat n :: u64) = n"
  by (simp only: unat_of_nat) simp

lemma word64_not_less: "n \<le> m \<Longrightarrow> m < 2 ^ 64 \<Longrightarrow> \<not> (of_nat m :: u64) < of_nat n"
  by (simp only: word_less_nat_alt unat_of_nat64 [OF le_less_trans] unat_of_nat64 not_less)

lemma inc_and_chk_fits:
  assumes "n * b + d < 2 ^ 64" and "0 < b"
  shows "inc_and_chk (of_nat n) (of_nat b) (of_nat d) = (of_nat (n * b + d), False)"
proof -
  have n: "n \<le> n * b" using assms(2) by simp
  have nb: "n * b < 2 ^ 64" using assms(1) by linarith
  have e: "of_nat n * of_nat b = (of_nat (n * b) :: u64)"
    "(of_nat (n * b) :: u64) + of_nat d = of_nat (n * b + d)" by simp_all
  show ?thesis
    unfolding inc_and_chk_def e
    using word64_not_less [OF n nb] word64_not_less [OF trans_le_add1 [OF n] assms(1)]
    by (simp only: Let_def simp_thms)
qed

text \<open>Binary is the one base for which the overflow test of the source is exact.\<close>

lemma inc_and_chk_binary:
  assumes "n < 2 ^ 64" and "d \<le> 1" and "2 ^ 64 \<le> n * 2 + d"
  shows "snd (inc_and_chk (of_nat n) 2 (of_nat d))"
proof -
  have "n * 2 \<ge> 2 ^ 64" using assms by simp
  then have "unat (of_nat (n * 2) :: u64) = n * 2 - 2 ^ 64"
    using assms(1) by (simp only: unat_of_nat) (simp add: le_mod_geq)
  then have "(of_nat (n * 2) :: u64) < of_nat n"
    using assms by (simp only: word_less_nat_alt unat_of_nat64) simp
  then show ?thesis by (simp add: inc_and_chk_def)
qed

definition stops :: "(char \<Rightarrow> bool) \<Rightarrow> string \<Rightarrow> bool" where
  "stops test rest \<longleftrightarrow> rest = [] \<or> \<not> test (hd rest) \<and> hd rest \<noteq> CHR ''_''"

lemma stops_dropWhile: "stops test rest \<Longrightarrow> dropWhile (\<lambda>d. d = CHR ''_'') rest = rest"
  by (cases rest) (auto simp: stops_def)

lemma dropWhile_digits:
  "list_all (\<lambda>c. test c \<and> c \<noteq> CHR ''_'') ds \<Longrightarrow> stops test rest \<Longrightarrow>
   dropWhile (\<lambda>d. d = CHR ''_'') (ds @ rest) = ds @ rest"
  by (cases ds) (auto simp: stops_dropWhile)

lemma read_loop_exact:
  assumes "list_all (\<lambda>c. test c \<and> c \<noteq> CHR ''_'') ds" and "stops test rest" and "mc \<le> 0"
    and "0 < b" and "digits_value b n ds < 2 ^ 64"
  shows "read_loop test (of_nat b) (ds @ rest) mc (of_nat n) = (of_nat (digits_value b n ds), rest, False)"
  using assms
proof (induction ds arbitrary: n)
  case Nil
  then show ?case by (cases rest) (auto simp: stops_def)
next
  case (Cons c ds)
  have fits: "n * b + digit_val c < 2 ^ 64"
    using digits_value_ge [of b "n * b + digit_val c" ds] Cons.prems by simp
  have "read_loop test (of_nat b) (c # ds @ rest) mc (of_nat n) =
      read_loop test (of_nat b) (ds @ rest) mc (of_nat (n * b + digit_val c))"
    using Cons.prems inc_and_chk_fits [OF fits] dropWhile_digits [of test ds rest]
    by (simp add: Let_def)
  moreover have "read_loop test (of_nat b) (ds @ rest) mc (of_nat (n * b + digit_val c)) =
      (of_nat (digits_value b (n * b + digit_val c) ds), rest, False)"
    using Cons.prems by (intro Cons.IH) simp_all
  ultimately show ?case by (simp only: append_Cons digits_value_simps)
qed

lemma not_digit_underscore:
  "isbdigit c \<Longrightarrow> c \<noteq> CHR ''_''" "isodigit c \<Longrightarrow> c \<noteq> CHR ''_''"
  "isdigit c \<Longrightarrow> c \<noteq> CHR ''_''" "isxdigit c \<Longrightarrow> c \<noteq> CHR ''_''"
  by (auto simp: isbdigit_def isodigit_def isdigit_def isxdigit_def char_code_def)

definition base_digit :: "base \<Rightarrow> char \<Rightarrow> bool" where
  "base_digit mode = snd (snd (base_row mode))"

definition base_radix :: "base \<Rightarrow> nat" where
  "base_radix mode = unat (fst (base_row mode))"

lemma base_digit_not_underscore: "base_digit mode c \<Longrightarrow> c \<noteq> CHR ''_''"
  by (cases mode) (auto simp: base_digit_def dest: not_digit_underscore)

lemma base_row_radix: "base_row mode = (of_nat (base_radix mode), fst (snd (base_row mode)), base_digit mode)"
  by (cases mode) (auto simp: base_radix_def base_digit_def)

lemma base_radix_pos: "0 < base_radix mode"
  by (cases mode) (auto simp: base_radix_def)

lemma char_seq_exact:
  assumes "list_all (base_digit mode) ds" and "stops (base_digit mode) rest"
    and "digits_value (base_radix mode) 0 ds < 2 ^ 64"
  shows "char_seq_to_ullong (ds @ rest) False mode =
           (of_nat (digits_value (base_radix mode) 0 ds), rest, False)"
proof -
  have "list_all (\<lambda>c. base_digit mode c \<and> c \<noteq> CHR ''_'') ds"
    using assms(1) by (auto simp: list_all_iff dest: base_digit_not_underscore)
  from read_loop_exact [OF this assms(2) _ base_radix_pos assms(3), of "-1"]
  show ?thesis
    unfolding char_seq_to_ullong_def read_ap_num_def by (subst base_row_radix) simp
qed

lemma digit_val_bin: "isbdigit c \<Longrightarrow> digit_val c \<le> 1"
  by (auto simp: isbdigit_def digit_val_def isdigit_def char_code_def)

lemma digit_val_oct: "isodigit c \<Longrightarrow> digit_val c < 8"
  by (auto simp: isodigit_def digit_val_def isdigit_def)

lemma read_loop_binary_overflow:
  assumes "list_all isbdigit ds" and "stops isbdigit rest" and "n < 2 ^ 64"
    and "2 ^ 64 \<le> digits_value 2 n ds"
  shows "snd (snd (read_loop isbdigit 2 (ds @ rest) (-1) (of_nat n)))"
  using assms
proof (induction ds arbitrary: n)
  case Nil
  then show ?case by simp
next
  case (Cons c ds)
  note d = digit_val_bin [of c]
  show ?case
  proof (cases "n * 2 + digit_val c < 2 ^ 64")
    case True
    have "list_all (\<lambda>c. isbdigit c \<and> c \<noteq> CHR ''_'') ds"
      using Cons.prems by (auto simp: list_all_iff dest: not_digit_underscore)
    from dropWhile_digits [OF this Cons.prems(2)] show ?thesis
      using inc_and_chk_fits [OF True] Cons.prems Cons.IH [OF _ Cons.prems(2) True]
      by (simp add: Let_def)
  next
    case False
    obtain v where "inc_and_chk (of_nat n) 2 (of_nat (digit_val c)) = (v, True)"
      using inc_and_chk_binary [of n "digit_val c"] False Cons.prems d
      by (cases "inc_and_chk (of_nat n) 2 (of_nat (digit_val c))") auto
    then show ?thesis using Cons.prems by (simp add: Let_def)
  qed
qed

section \<open>Octal escapes and character constants\<close>

lemma oct_bound: "n < 8 ^ (3 - k) \<Longrightarrow> n < (512 :: nat)"
  using power_increasing [of "3 - k" 3 "8 :: nat"] by simp

lemma read_loop_octal_limited:
  assumes "n < 8 ^ (3 - k)" and "k \<le> 3"
  shows "\<exists>v e. read_loop isodigit 8 s (int k) (of_nat n) = (of_nat v, e, False) \<and> v < 512 \<or> k = 0"
  using assms
proof (induction k arbitrary: n s)
  case (Suc k)
  show ?case
  proof (cases s)
    case Nil
    have "n < 512" using Suc.prems(1) by (rule oct_bound)
    then show ?thesis using Nil by auto
  next
    case (Cons c s')
    show ?thesis
    proof (cases "isodigit c")
      case False
      have "n < 512" using Suc.prems(1) by (rule oct_bound)
      then show ?thesis using Cons False by auto
    next
      case True
      define m where "m = n * 8 + digit_val c"
      have pw: "8 ^ (3 - k) = 8 * (8 :: nat) ^ (3 - Suc k)"
        using Suc.prems(2) by (metis Suc_diff_Suc Suc_le_lessD power_Suc)
      have m: "m < 8 ^ (3 - k)" using Suc.prems(1) digit_val_oct [OF True] pw by (simp add: m_def)
      have m512: "m < 512" using m by (rule oct_bound)
      have ic: "inc_and_chk (of_nat n) 8 (of_nat (digit_val c)) = (of_nat m, False)"
        using inc_and_chk_fits [of n 8 "digit_val c"] m512 by (simp add: m_def)
      let ?s = "dropWhile (\<lambda>d. d = CHR ''_'') s'"
      show ?thesis
      proof (cases "k = 0")
        case True
        then show ?thesis using Cons \<open>isodigit c\<close> ic m512 by (auto simp: Let_def)
      next
        case False
        then have "read_loop isodigit 8 s (int (Suc k)) (of_nat n) =
            read_loop isodigit 8 ?s (int k) (of_nat m)"
          using Cons \<open>isodigit c\<close> ic by (simp add: Let_def)
        then show ?thesis using Suc.IH [OF m, of ?s] Suc.prems False by auto
      qed
    qed
  qed
qed simp

lemma escape_plain_loop:
  "list_all (\<lambda>c. c \<noteq> CHR 0x5C) cs \<Longrightarrow>
   \<exists>warn. escape_loop lim False (cs @ lim) st =
     Inr (st\<lparr>es_ret := foldl (\<lambda>r c. r * 256 + of_int (char_sval c)) (es_ret st) cs,
             es_n := es_n st + length cs, es_warn := warn\<rparr>, lim)"
proof (induction cs arbitrary: st)
  case Nil
  show ?case by (intro exI [of _ "es_warn st"]) (simp add: escape_loop.simps)
next
  case (Cons c cs)
  obtain warn' where acc: "escape_accum False (es_ret st) (char_sval c) (es_warn st) =
      (es_ret st * 256 + of_int (char_sval c), warn')"
    by (simp add: escape_accum_def Let_def)
  let ?st = "st\<lparr>es_ret := es_ret st * 256 + of_int (char_sval c), es_n := es_n st + 1, es_warn := warn'\<rparr>"
  have "escape_loop lim False (c # cs @ lim) st = escape_loop lim False (cs @ lim) ?st"
    using Cons.prems acc by (subst escape_loop.simps) simp
  then show ?case using Cons.IH [of ?st] Cons.prems by (auto simp: algebra_simps)
qed

text \<open>
  With at most four characters of plain ASCII nothing overflows: the accumulator is the
  number the characters spell in base 256.
\<close>

lemma escape_accum_ascii:
  assumes "r < 2 ^ 24" and "char_code c < 128"
  shows "escape_accum False (of_nat r) (char_sval c) warn = (of_nat (r * 256 + char_code c), warn)"
proof -
  have sv: "(of_int (char_sval c) :: u32) = of_nat (char_code c)"
    using assms(2) by (simp add: char_sval_def)
  have r: "unat (of_nat r :: u32) = r" using assms(1) by (simp only: unat_of_nat) simp
  have r256: "unat (of_nat (r * 256) :: u32) = r * 256" using assms(1) by (simp only: unat_of_nat) simp
  have c: "unat (0xffffffff - of_nat (char_code c) :: u32) = 0xffffffff - char_code c"
    using assms(2) by (subst unat_sub) (simp_all add: word_le_nat_alt unat_of_nat)
  have "\<not> (of_nat r :: u32) > 0xffffffff div 256"
    using assms(1) r by (simp add: word_less_nat_alt)
  moreover have "\<not> (of_nat (r * 256) :: u32) > 0xffffffff - of_nat (char_code c)"
    using assms r256 c by (simp only: word_less_nat_alt not_less) simp
  ultimately show ?thesis by (simp add: escape_accum_def Let_def sv)
qed

lemma escape_ascii_loop:
  "list_all (\<lambda>c. c \<noteq> CHR 0x5C \<and> char_code c < 128) cs \<Longrightarrow> r < 256 ^ (4 - length cs) \<Longrightarrow>
   length cs \<le> 4 \<Longrightarrow>
   escape_loop lim False (cs @ lim) (st\<lparr>es_ret := of_nat r\<rparr>) =
     Inr (st\<lparr>es_ret := of_nat (foldl (\<lambda>r c. r * 256 + char_code c) r cs),
             es_n := es_n st + length cs\<rparr>, lim)"
proof (induction cs arbitrary: st r)
  case Nil
  show ?case by (simp add: escape_loop.simps)
next
  case (Cons c cs)
  have pw: "(256 :: nat) ^ (4 - length cs) = 256 ^ (4 - length (c # cs)) * 256"
  proof -
    have "4 - length cs = Suc (4 - length (c # cs))" using Cons.prems(3) by simp
    then show ?thesis by (simp only: power_Suc2)
  qed
  have "r < 256 ^ 3"
    using Cons.prems(2) power_increasing [of "4 - length (c # cs)" 3 "256 :: nat"] by simp
  then have r: "r < 2 ^ 24" by simp
  have r': "r * 256 + char_code c < 256 ^ (4 - length cs)"
    using Cons.prems(1,2) pw by simp
  have "escape_loop lim False (c # cs @ lim) (st\<lparr>es_ret := of_nat r\<rparr>) =
      escape_loop lim False (cs @ lim) (st\<lparr>es_n := es_n st + 1\<rparr>\<lparr>es_ret := of_nat (r * 256 + char_code c)\<rparr>)"
    using Cons.prems(1) escape_accum_ascii [OF r, of c "es_warn st"]
    by (cases st) (subst escape_loop.simps, simp)
  then show ?case using Cons.IH [OF _ r', of "st\<lparr>es_n := es_n st + 1\<rparr>"] Cons.prems
    by (cases st) simp
qed

lemma foldl_base256_bound:
  "foldl (\<lambda>r c. r * 256 + char_code c) r cs < (r + 1) * 256 ^ length cs"
proof (induction cs arbitrary: r)
  case (Cons c cs)
  have "foldl (\<lambda>r c. r * 256 + char_code c) (r * 256 + char_code c) cs
      < (r * 256 + char_code c + 1) * 256 ^ length cs" by (rule Cons.IH)
  also have "\<dots> \<le> ((r + 1) * 256) * 256 ^ length cs"
    using char_code_bound [of c] by (intro mult_right_mono) auto
  finally show ?case by (simp add: algebra_simps)
qed simp

lemma ascii_value_bound:
  assumes "list_all (\<lambda>c. c \<noteq> CHR 0x5C \<and> char_code c < 128) cs" and "length cs \<le> 4"
  shows "foldl (\<lambda>r c. r * 256 + char_code c) 0 cs < 2 ^ 31"
proof (cases cs)
  case (Cons c cs')
  have "foldl (\<lambda>r c. r * 256 + char_code c) 0 cs < (char_code c + 1) * 256 ^ length cs'"
    using foldl_base256_bound [of "char_code c" cs'] Cons by simp
  also have "\<dots> \<le> 128 * 256 ^ 3"
    using assms Cons by (intro mult_mono power_increasing) auto
  finally show ?thesis by simp
qed simp

section \<open>Properties\<close>



text \<open>
  The overflow test of the number reader misses overflows: \<open>2 ^ 65 - 1\<close>, written with
  seventeen hexadecimal digits, is read as \<open>2 ^ 64 - 1\<close> with the overflow flag clear.
\<close>

theorem hex_overflow_undetected:
  "char_seq_to_ullong ''1ffffffffffffffff'' False HEX = (0xffffffffffffffff, [], False)
   \<and> digits_value 16 0 ''1ffffffffffffffff'' = 2 ^ 65 - 1"
  by (simp add: char_seq_to_ullong_def read_ap_num_def inc_and_chk_def Let_def isxdigit_def
      isdigit_def char_code_def digit_val_def tolower_def isupper_def digits_value_def)

text \<open>
  a character constant of one to four plain ASCII characters has the value they spell in
  base 256, as a signed 32-bit number; nothing is reported, all characters are consumed and
  \<^verbatim>\<open>*multi\<close> says whether there was more than one.
\<close>

theorem escape_char_ascii:
  assumes "list_all (\<lambda>c. c \<noteq> CHR 0x5C \<and> char_code c < 128) cs" and "length cs \<le> 4"
  shows "escape_char (cs @ lim) (Some lim) False warn err =
    Inr (int (foldl (\<lambda>r c. r * 256 + char_code c) 0 cs), lim, length cs > 1, warn, err)"
proof -
  let ?v = "foldl (\<lambda>r c. r * 256 + char_code c) 0 cs"
  have loop: "escape_loop lim False (cs @ lim)
      \<lparr>es_ret = 0, es_n = 0, es_warn = warn, es_err = err\<rparr> =
    Inr (\<lparr>es_ret = of_nat ?v, es_n = length cs, es_warn = warn, es_err = err\<rparr>, lim)"
    using escape_ascii_loop [OF assms(1) _ assms(2), of 0 lim
        "\<lparr>es_ret = 0, es_n = 0, es_warn = warn, es_err = err\<rparr>"] by simp
  have "?v < 2 ^ 31" using assms by (rule ascii_value_bound)
  then have "sint (of_nat ?v :: u32) = int ?v"
    by (simp add: signed_of_nat signed_take_bit_int_eq_self)
  then show ?thesis by (simp add: escape_char_def loop)
qed

theorem escape_char_ascii_witness:
  "escape_char (''ab'' @ [CHR 0x27]) (Some [CHR 0x27]) False E_none E_none =
    Inr (int (foldl (\<lambda>r c. r * 256 + char_code c) 0 ''ab''), [CHR 0x27], length ''ab'' > 1,
      E_none, E_none)"
  by (rule escape_char_ascii) (simp_all add: char_code_def)

end
