(* ===== verification/Ucc_Leb.thy ===== *)
theory Ucc_Leb
  imports Ucc_Prelude
begin

text \<open>
  The LEB128 encoder of the DWARF writer, \<^verbatim>\<open>src/cc1/out/leb.c\<close>.  \<^verbatim>\<open>leb128_out\<close> prints
  the bytes and returns their number, \<^verbatim>\<open>leb128_length\<close> computes that number on its own; the
  model of the former returns the printed bytes with the count.  The decoders are those of
  the DWARF standard and serve as the specification: decoding what the encoder wrote gives
  the value back, and the two functions agree on the length.
\<close>

section \<open>Definitions\<close>

definition sleb_done :: "u64 \<Rightarrow> bool \<Rightarrow> bool" where
  "sleb_done sv sign_bit_set \<longleftrightarrow> sv = 0 \<and> \<not> sign_bit_set \<or> sv = -1 \<and> sign_bit_set"

text \<open>Termination: the distance of a signed value from \<open>0\<close> or \<open>-1\<close> shrinks with each shift.\<close>

definition sleb_size :: "int \<Rightarrow> nat" where
  "sleb_size x = nat (if 0 \<le> x then x else - x - 1)"

lemma sint_signed_drop_bit: "sint (signed_drop_bit n v) = sint v div 2 ^ n" for v :: "'a::len word"
  by (simp add: sint_signed_drop_bit_eq drop_bit_eq_div)

lemma sleb_size_div: "x \<noteq> 0 \<Longrightarrow> x \<noteq> -1 \<Longrightarrow> sleb_size (x div 128) < sleb_size x"
  unfolding sleb_size_def by (cases "0 \<le> x") auto

lemma sleb_decreases:
  assumes "\<not> sleb_done (signed_drop_bit 7 sv) (sv AND 0x40 \<noteq> 0)"
  shows "sleb_size (sint (signed_drop_bit 7 sv)) < sleb_size (sint sv)"
proof -
  have "sv \<noteq> 0" "sv \<noteq> -1" using assms by (auto simp: sleb_done_def)
  then have "sint sv \<noteq> 0" "sint sv \<noteq> -1" by (metis sint_0 signed_word_eqI, metis sint_n1 signed_word_eqI)
  from sleb_size_div [OF this] show ?thesis by (simp add: sint_signed_drop_bit)
qed

function sleb_length :: "u64 \<Rightarrow> nat \<Rightarrow> nat" where
  "sleb_length sv len =
     (let sign_bit_set = (sv AND 0x40 \<noteq> 0); sv' = signed_drop_bit 7 sv in
      if sleb_done sv' sign_bit_set then len else sleb_length sv' (len + 1))"
  by pat_completeness auto
termination
  by (relation "measure (\<lambda>(sv, len). sleb_size (sint sv))") (auto dest: sleb_decreases)

declare sleb_length.simps [simp del]

lemma drop_bit_7_less: "drop_bit 7 v \<noteq> 0 \<Longrightarrow> unat (drop_bit 7 v) < unat v" for v :: u64
proof -
  assume "drop_bit 7 v \<noteq> 0"
  then have "v \<noteq> 0" by auto
  then show ?thesis using unat_gt_0 [of v] by (simp add: unat_drop_bit_div)
qed

function uleb_length :: "u64 \<Rightarrow> nat \<Rightarrow> nat" where
  "uleb_length v len =
     (let v' = drop_bit 7 v in if v' = 0 then len else uleb_length v' (len + 1))"
  by pat_completeness auto
termination
  by (relation "measure (\<lambda>(v, len). unat v)") (auto dest: drop_bit_7_less)

declare uleb_length.simps [simp del]

definition leb128_length :: "u64 \<Rightarrow> bool \<Rightarrow> nat" where
  "leb128_length v is_signed = (if is_signed then sleb_length v 1 else uleb_length v 1)"

lemma byte_sign_bit:
  "(ucast (sv AND 0x7f) AND 0x40 \<noteq> (0 :: u8)) \<longleftrightarrow> sv AND 0x40 \<noteq> 0" for sv :: u64
proof -
  have "ucast (sv AND 0x7f) AND (0x40 :: u8) = ucast (sv AND 0x40)"
    by (intro bit_word_eqI) (auto simp: bit_simps bit_numeral_rec numeral_eq_Suc less_Suc_eq)
  moreover have "(ucast (sv AND 0x40) :: u8) = 0 \<longleftrightarrow> sv AND 0x40 = 0"
  proof
    assume u: "(ucast (sv AND 0x40) :: u8) = 0"
    show "sv AND 0x40 = 0"
    proof (rule bit_word_eqI)
      fix n
      have "bit (ucast (sv AND 0x40) :: u8) 6 \<longleftrightarrow> bit sv 6" by (simp add: bit_simps)
      then have "\<not> bit sv 6" using u by simp
      then show "bit (sv AND 0x40) n = bit (0 :: u64) n"
        using bit_push_bit_iff [of 6 "1 :: u64" n] by (auto simp: bit_simps)
    qed
  qed simp
  ultimately show ?thesis by simp
qed

function sleb_out :: "u64 \<Rightarrow> nat \<Rightarrow> u8 list \<times> nat" where
  "sleb_out sv len =
     (let byte = ucast (sv AND 0x7f); sign_bit_set = (byte AND 0x40 \<noteq> (0 :: u8));
          sv' = signed_drop_bit 7 sv in
      if sleb_done sv' sign_bit_set then ([byte], len)
      else (case sleb_out sv' (len + 1) of (bytes, n) \<Rightarrow> ((byte OR 0x80) # bytes, n)))"
  by pat_completeness auto
termination
  by (relation "measure (\<lambda>(sv, len). sleb_size (sint sv))")
    (auto simp: byte_sign_bit dest: sleb_decreases)

declare sleb_out.simps [simp del]

text \<open>The byte of one step, read as a number.\<close>

lemma unat_low7: "unat (ucast (v AND 0x7f) :: u8) = unat v mod 128" for v :: u64
proof -
  have "v AND 0x7f = v AND mask 7" by (simp add: mask_eq_exp_minus_1)
  then have v7: "unat (v AND 0x7f) = unat v mod 128" by (simp add: unat_and_mask_mod)
  have "unat (ucast (v AND 0x7f) :: u8) = unat (v AND 0x7f) mod 256"
    by (simp add: unsigned_ucast_eq take_bit_eq_mod)
  then show ?thesis using v7 by (simp add: mod_mod_cancel)
qed

lemma low7_and_0x80: "ucast (v AND 0x7f) AND 0x80 = (0 :: u8)" for v :: u64
  by (intro bit_word_eqI) (auto simp: bit_simps bit_numeral_rec numeral_eq_Suc less_Suc_eq)

lemma low7_or_0x80: "unat (ucast (v AND 0x7f) OR 0x80 :: u8) = unat v mod 128 + 128" for v :: u64
proof -
  have "ucast (v AND 0x7f) OR 0x80 = ucast (v AND 0x7f) + (0x80 :: u8)"
    by (rule disjunctive_add_eq_or [symmetric]) (rule low7_and_0x80)
  moreover have "unat v mod 128 < 128" by simp
  ultimately show ?thesis
    by (simp add: unat_word_ariths unat_low7)
qed

lemma low7_flag: "(ucast (v AND 0x7f) OR 0x80) AND 0x80 \<noteq> (0 :: u8)" for v :: u64
proof -
  have "bit ((ucast (v AND 0x7f) OR 0x80) AND 0x80 :: u8) 7" by (simp add: bit_simps)
  then show ?thesis by auto
qed

function uleb_out :: "u64 \<Rightarrow> nat \<Rightarrow> u8 list \<times> nat" where
  "uleb_out v len =
     (let byte = ucast (v AND 0x7f); v' = drop_bit 7 v;
          byte' = (if v' \<noteq> 0 then byte OR 0x80 else byte) in
      if byte' AND 0x80 \<noteq> (0 :: u8)
      then (case uleb_out v' (len + 1) of (bytes, n) \<Rightarrow> (byte' # bytes, n))
      else ([byte'], len))"
  by pat_completeness auto
termination
  by (relation "measure (\<lambda>(v, len). unat v)")
    (auto simp: low7_and_0x80 split: if_splits dest: drop_bit_7_less)

declare uleb_out.simps [simp del]

definition leb128_out :: "u64 \<Rightarrow> bool \<Rightarrow> u8 list \<times> nat" where
  "leb128_out v sig = (if sig then sleb_out v 1 else uleb_out v 1)"

section \<open>The decoders of the standard\<close>

fun uleb_decode :: "u8 list \<Rightarrow> (nat \<times> u8 list) option" where
  "uleb_decode [] = None"
| "uleb_decode (b # bs) =
     (if unat b < 128 then Some (unat b, bs)
      else map_option (\<lambda>(v, rest). (unat b - 128 + 128 * v, rest)) (uleb_decode bs))"

fun sleb_decode :: "u8 list \<Rightarrow> (int \<times> u8 list) option" where
  "sleb_decode [] = None"
| "sleb_decode (b # bs) =
     (if unat b < 64 then Some (int (unat b), bs)
      else if unat b < 128 then Some (int (unat b) - 128, bs)
      else map_option (\<lambda>(v, rest). (int (unat b) - 128 + 128 * v, rest)) (sleb_decode bs))"

section \<open>Correctness\<close>

lemma uleb_out_cases:
  "uleb_out v len =
     (if drop_bit 7 v = 0 then ([ucast (v AND 0x7f)], len)
      else (case uleb_out (drop_bit 7 v) (len + 1) of
              (bytes, n) \<Rightarrow> ((ucast (v AND 0x7f) OR 0x80) # bytes, n)))"
  by (subst uleb_out.simps) (simp add: Let_def low7_and_0x80 low7_flag)

lemma drop_bit_7_eq_0: "drop_bit 7 v = 0 \<longleftrightarrow> unat v < 128" for v :: u64
  using unat_eq_0 [of "drop_bit 7 v"] unat_drop_bit_div [of 7 v] by (auto simp: div_eq_0_iff)

lemma uleb_roundtrip:
  "uleb_decode (fst (uleb_out v len) @ rest) = Some (unat v, rest)"
proof (induction v len rule: uleb_out.induct)
  case (1 v len)
  show ?case
  proof (cases "drop_bit 7 v = 0")
    case True
    then show ?thesis by (subst uleb_out_cases) (simp add: unat_low7 drop_bit_7_eq_0)
  next
    case False
    have "uleb_decode (fst (uleb_out (drop_bit 7 v) (len + 1)) @ rest)
        = Some (unat v div 128, rest)"
      using 1 [OF refl refl refl] False by (simp add: low7_flag unat_drop_bit_div)
    then show ?thesis using False
      by (subst uleb_out_cases) (auto simp: low7_or_0x80 split: prod.splits)
  qed
qed

lemma uleb_out_length:
  "snd (uleb_out v len) = uleb_length v len
   \<and> len + length (fst (uleb_out v len)) = uleb_length v len + 1"
proof (induction v len rule: uleb_length.induct)
  case (1 v len)
  then show ?case
    by (subst uleb_out_cases, subst uleb_length.simps, subst uleb_out_cases,
        subst (2) uleb_length.simps) (auto simp: Let_def split: prod.splits)
qed

lemma sleb_step: "int (unat v mod 128) + 128 * (sint v div 128) = sint v" for v :: u64
proof -
  have "take_bit 7 (sint v) = take_bit 7 (uint v)"
    by (simp add: sint_uint take_bit_signed_take_bit)
  then have "sint v mod 128 = int (unat v mod 128)"
    by (simp add: take_bit_eq_mod zmod_int)
  then show ?thesis using mult_div_mod_eq [of 128 "sint v"] by linarith
qed

lemma odd_div_64: "odd (x div 64) \<longleftrightarrow> 64 \<le> x mod 128" for x :: nat
proof -
  have "x mod 128 = 64 * (x div 64 mod 2) + x mod 64" using mod_mult2_eq [of x 64 2] by simp
  moreover have "x mod 64 < 64" by simp
  ultimately show ?thesis
    by (cases "odd (x div 64)") (auto simp: mod_2_eq_odd)
qed

lemma low7_sign: "ucast (v AND 0x7f) AND 0x40 \<noteq> (0 :: u8) \<longleftrightarrow> 64 \<le> unat v mod 128" for v :: u64
proof -
  have "v AND 0x40 \<noteq> 0 \<longleftrightarrow> bit v 6"
    using and_exp_eq_0_iff_not_bit [of v 6] by simp
  also have "\<dots> \<longleftrightarrow> odd (unat v div 64)"
    using bit_iff_odd [of "unat v" 6] by (simp add: bit_unsigned_iff)
  also have "\<dots> \<longleftrightarrow> 64 \<le> unat v mod 128"
    by (rule odd_div_64)
  finally show ?thesis using byte_sign_bit [of v] by simp
qed

lemma sleb_done_iff:
  "sleb_done (signed_drop_bit 7 v) (ucast (v AND 0x7f) AND 0x40 \<noteq> (0 :: u8))
   \<longleftrightarrow> sint v div 128 = (if unat v mod 128 < 64 then 0 else -1)"
proof -
  have s: "sint (signed_drop_bit 7 v) = sint v div 128"
    by (simp add: sint_signed_drop_bit)
  have "signed_drop_bit 7 v = 0 \<longleftrightarrow> sint v div 128 = 0"
    by (metis s signed_word_eqI sint_0)
  moreover have "signed_drop_bit 7 v = -1 \<longleftrightarrow> sint v div 128 = -1"
    by (metis s signed_word_eqI sint_n1)
  ultimately show ?thesis by (auto simp: sleb_done_def low7_sign)
qed

lemma sleb_roundtrip:
  "sleb_decode (fst (sleb_out v len) @ rest) = Some (sint v, rest)"
proof (induction v len rule: sleb_out.induct)
  case (1 v len)
  let ?d = "sleb_done (signed_drop_bit 7 v) (ucast (v AND 0x7f) AND 0x40 \<noteq> (0 :: u8))"
  show ?case
  proof (cases ?d)
    case True
    then have "fst (sleb_out v len) = [ucast (v AND 0x7f)]"
      by (subst sleb_out.simps) (simp add: Let_def)
    moreover have "unat v mod 128 < 128" by simp
    moreover have "sint v = int (unat v mod 128) + (if unat v mod 128 < 64 then 0 else -128)"
      using sleb_step [of v] True unfolding sleb_done_iff
      by (cases "unat v mod 128 < 64") auto
    ultimately show ?thesis by (auto simp: unat_low7)
  next
    case False
    have "sleb_decode (fst (sleb_out (signed_drop_bit 7 v) (len + 1)) @ rest)
        = Some (sint v div 128, rest)"
      using 1 [OF refl refl refl] False by (simp add: sint_signed_drop_bit)
    moreover have "fst (sleb_out v len)
        = (ucast (v AND 0x7f) OR 0x80) # fst (sleb_out (signed_drop_bit 7 v) (len + 1))"
      using False by (subst sleb_out.simps) (simp add: Let_def split: prod.split)
    ultimately show ?thesis using sleb_step [of v] by (simp add: low7_or_0x80)
  qed
qed

lemma sleb_out_length:
  "snd (sleb_out v len) = sleb_length v len
   \<and> len + length (fst (sleb_out v len)) = sleb_length v len + 1"
proof (induction v len rule: sleb_length.induct)
  case (1 v len)
  show ?case
  proof (cases "sleb_done (signed_drop_bit 7 v) (v AND 0x40 \<noteq> 0)")
    case True
    then show ?thesis
      by (subst sleb_out.simps, subst sleb_length.simps, subst sleb_out.simps,
          subst (2) sleb_length.simps) (simp add: Let_def byte_sign_bit)
  next
    case False
    from 1 [OF refl refl this] False show ?thesis
      using sleb_out.simps [of v len] sleb_length.simps [of v len]
      by (simp add: Let_def byte_sign_bit split: prod.splits)
  qed
qed

text \<open>No value needs more than ten bytes: seven bits a byte.\<close>

lemma uleb_length_le:
  "unat v < 2 ^ (7 * k) \<Longrightarrow> 0 < k \<Longrightarrow> uleb_length v len \<le> len + k - 1"
proof (induction k arbitrary: v len)
  case 0
  then show ?case by simp
next
  case (Suc k)
  show ?case
  proof (cases "drop_bit 7 v = 0")
    case True
    then show ?thesis by (subst uleb_length.simps) simp
  next
    case False
    have "unat (drop_bit 7 v) < 2 ^ (7 * k)"
      using Suc.prems(1) by (simp add: unat_drop_bit_div power_add div_less_iff_less_mult)
    moreover from this have "0 < k" using False by (cases k) (simp_all add: unat_eq_0)
    ultimately have "uleb_length (drop_bit 7 v) (len + 1) \<le> len + 1 + k - 1" by (rule Suc.IH)
    then show ?thesis using False by (subst uleb_length.simps) simp
  qed
qed

lemma sleb_length_le:
  "- (2 ^ (7 * k - 1)) \<le> sint v \<Longrightarrow> sint v < 2 ^ (7 * k - 1) \<Longrightarrow> 0 < k
   \<Longrightarrow> sleb_length v len \<le> len + k - 1"
proof (induction k arbitrary: v len)
  case 0
  then show ?case by simp
next
  case (Suc k)
  let ?d = "sleb_done (signed_drop_bit 7 v) (v AND 0x40 \<noteq> 0)"
  show ?case
  proof (cases "?d \<or> k = 0")
    case True
    have ?d if "k = 0"
    proof -
      have "- 64 \<le> sint v" "sint v < 64" using Suc.prems that by simp_all
      moreover have "unat v mod 128 < 128" by simp
      ultimately have "sint v div 128 = (if unat v mod 128 < 64 then 0 else -1)"
        using sleb_step [of v] by auto
      then show ?thesis using sleb_done_iff [of v] byte_sign_bit [of v] by simp
    qed
    with True have ?d by blast
    then show ?thesis by (subst sleb_length.simps) (simp add: Let_def)
  next
    case False
    have e: "(2 :: int) ^ (7 * Suc k - 1) = 128 * 2 ^ (7 * k - 1)"
      using False by (cases k) (simp_all add: power_add)
    have "- (2 ^ (7 * k - 1)) \<le> sint (signed_drop_bit 7 v)"
      "sint (signed_drop_bit 7 v) < 2 ^ (7 * k - 1)"
      using Suc.prems(1,2) unfolding e by (simp_all add: sint_signed_drop_bit)
    then have "sleb_length (signed_drop_bit 7 v) (len + 1) \<le> len + 1 + k - 1"
      using False by (intro Suc.IH) simp_all
    then show ?thesis using False by (subst sleb_length.simps) (simp add: Let_def)
  qed
qed

section \<open>Properties\<close>

text \<open>
  C20: decoding the bytes that \<^verbatim>\<open>leb128_out\<close> prints gives the value back and stops right
  behind them, for the signed encoding of every 64-bit value read as a signed number and for
  the unsigned encoding read as an unsigned one.
\<close>

theorem leb128_roundtrip:
  "sleb_decode (fst (leb128_out v True) @ rest) = Some (sint v, rest)
   \<and> uleb_decode (fst (leb128_out v False) @ rest) = Some (unat v, rest)"
  by (simp add: leb128_out_def sleb_roundtrip uleb_roundtrip)

text \<open>
  C21: the count \<^verbatim>\<open>leb128_out\<close> returns, the number of bytes it prints and the independent
  \<^verbatim>\<open>leb128_length\<close> (which sizes the section before it is written) are the same, between one
  and ten.
\<close>

theorem leb128_length_agrees:
  "snd (leb128_out v sig) = leb128_length v sig
   \<and> length (fst (leb128_out v sig)) = leb128_length v sig
   \<and> 1 \<le> leb128_length v sig \<and> leb128_length v sig \<le> 10"
proof -
  have "unat v < 2 ^ LENGTH(64)" by (rule unsigned_less)
  then have u: "uleb_length v 1 \<le> 10" using uleb_length_le [of v 10 1] by simp
  have s: "sleb_length v 1 \<le> 10"
    using sleb_length_le [of 10 v 1] sint_ge [of v] sint_lt [of v] by simp
  have ne: "fst (uleb_out v 1) \<noteq> []" "fst (sleb_out v 1) \<noteq> []"
    using uleb_roundtrip [of v 1 "[]"] sleb_roundtrip [of v 1 "[]"] by auto
  show ?thesis
    using u s uleb_out_length [of v 1] sleb_out_length [of v 1] ne
    by (auto simp: leb128_out_def leb128_length_def Suc_le_eq simp flip: length_greater_0_conv)
qed

end
