(* ===== verification/Ucc_Str.thy ===== *)
theory Ucc_Str
  imports Ucc_Prelude
begin

text \<open>
  String helpers of the preprocessor and the compiler: \<^verbatim>\<open>src/util/str.c\<close> and
  \<^verbatim>\<open>src/cpp2/str.c\<close>.  A pointer into a string is the suffix that starts there; NULL is
  \<open>None\<close>; a pointer comparison inside one string compares the lengths of the suffixes.
  String lengths are below \<open>2 ^ 31\<close>, so the \<^verbatim>\<open>int\<close> and \<^verbatim>\<open>unsigned\<close> variables that hold them
  do not wrap.  \<^verbatim>\<open>xsnprintf\<close> is not modelled (it forwards a format to the C library).
\<close>

section \<open>util/str.c\<close>

text \<open>
  A backslash makes the loop of \<^verbatim>\<open>str_quotefin2\<close> step over the next character without
  looking at it, so after a backslash that ends the string it has stepped over the
  terminator.
\<close>

fun str_quotefin2 :: "string \<Rightarrow> char \<Rightarrow> string option outcome" where
  "str_quotefin2 [] q = Inr None"
| "str_quotefin2 (c # s) q =
     (if c = CHR 0x5C then (case s of [] \<Rightarrow> Inl Out_of_bounds | _ # s' \<Rightarrow> str_quotefin2 s' q)
      else if c = q then Inr (Some (c # s))
      else str_quotefin2 s q)"

definition char_quotefin :: "string \<Rightarrow> string option outcome" where
  "char_quotefin s = str_quotefin2 s (CHR 0x27)"

definition str_quotefin :: "string \<Rightarrow> string option outcome" where
  "str_quotefin s = str_quotefin2 s (CHR 0x22)"

definition str_spc_skip :: "string \<Rightarrow> string" where
  "str_spc_skip s = dropWhile isspace s"

definition str_endswith :: "string \<Rightarrow> string \<Rightarrow> bool" where
  "str_endswith haystack needle =
     (let h_l = length haystack; n_l = length needle in
      if n_l > h_l then False else strcmp (drop (h_l - n_l) haystack) needle = 0)"

text \<open>
  \<^verbatim>\<open>str_split\<close> ends the piece it returns by a NUL in place; the piece is returned as it then
  reads, with the new \<^verbatim>\<open>*state\<close>.
\<close>

definition str_split :: "string option \<Rightarrow> char \<Rightarrow> string option \<Rightarrow> string option \<times> string option" where
  "str_split haystack sep state =
     (let begin = (case haystack of Some h \<Rightarrow> Some h | None \<Rightarrow> state) in
      case begin of
        None \<Rightarrow> (None, None)
      | Some b \<Rightarrow>
        if b = [] then (None, None)
        else
          let anchor = dropWhile (\<lambda>c. c \<noteq> sep) b; piece = takeWhile (\<lambda>c. c \<noteq> sep) b in
          (Some piece, case anchor of [] \<Rightarrow> None | _ # rest \<Rightarrow> Some rest))"

section \<open>cpp2/str.c\<close>

definition iswordpart :: "char \<Rightarrow> bool" where
  "iswordpart c \<longleftrightarrow> isalnum c \<or> c = CHR ''_'' \<or> c = CHR ''$''"

definition word_end :: "string \<Rightarrow> string" where
  "word_end s = dropWhile iswordpart s"

lemma str_quotefin2_suffix:
  "str_quotefin2 s q = Inr (Some t) \<Longrightarrow> \<exists>p u. s = p @ q # u \<and> t = q # u"
proof (induction s q rule: str_quotefin2.induct)
  case (2 c s q)
  show ?case
  proof (cases "c = CHR 0x5C")
    case True
    then obtain d s' where s: "s = d # s'" using "2.prems" by (cases s) auto
    with True "2.IH"(1) [OF True s] "2.prems" obtain p u where "s' = p @ q # u" "t = q # u" by auto
    then show ?thesis by (intro exI [of _ "c # d # p"] exI [of _ u]) (simp add: s)
  next
    case False
    show ?thesis
    proof (cases "c = q")
      case True
      then show ?thesis using False "2.prems" by (intro exI [of _ "[]"] exI [of _ s]) auto
    next
      case cq: False
      then obtain p u where "s = p @ q # u" "t = q # u"
        using False "2.IH"(2) [OF False cq] "2.prems" by auto
      then show ?thesis by (intro exI [of _ "c # p"] exI [of _ u]) simp
    qed
  qed
qed simp

lemma str_quotefin2_length: "str_quotefin2 s q = Inr (Some t) \<Longrightarrow> length t \<le> length s"
  by (auto dest!: str_quotefin2_suffix)

function word_find_any :: "string \<Rightarrow> string option outcome" where
  "word_find_any [] = Inr None"
| "word_find_any (c # s) =
     (if c = CHR 0x22 \<or> c = CHR 0x27 then
        bindE (str_quotefin2 s c) (\<lambda>r.
          (case r of
             None \<Rightarrow> Inr None
           | Some e \<Rightarrow> if iswordpart (hd e) then Inr (Some e) else word_find_any (tl e)))
      else if iswordpart c then Inr (Some (c # s)) else word_find_any s)"
  by pat_completeness auto
termination
  by (relation "measure length") (auto dest!: str_quotefin2_suffix)

text \<open>
  \<^verbatim>\<open>str_trim\<close> works in place: it moves the text behind the leading spaces to the front,
  finds the terminator and steps back while the character there is a space.
\<close>

fun trim_back :: "string \<Rightarrow> nat \<Rightarrow> nat" where
  "trim_back str 0 = 0"
| "trim_back str (Suc n) =
     (if Suc n < length str \<and> isspace (str ! Suc n) then trim_back str n else Suc n)"

definition str_trim :: "string \<Rightarrow> string" where
  "str_trim str = (let s = str_spc_skip str in take (trim_back s (length s)) s)"

text \<open>
  \<^verbatim>\<open>str_join\<close> and \<^verbatim>\<open>str_quote\<close> compute the size of their buffer in a first pass
  (\<open>str_join_size\<close>, \<open>str_quote_size\<close>, with the terminator) and fill it in a second.
\<close>

definition str_join_size :: "string list \<Rightarrow> string \<Rightarrow> nat" where
  "str_join_size strs sep = foldl (\<lambda>len s. len + (length s + length sep)) 1 strs"

fun str_join :: "string list \<Rightarrow> string \<Rightarrow> string" where
  "str_join [] sep = []"
| "str_join (s # strs) sep = s @ (if strs \<noteq> [] then sep else []) @ str_join strs sep"

definition word_dup :: "string \<Rightarrow> string" where
  "word_dup s = takeWhile iswordpart s"

definition str_quote_size :: "string \<Rightarrow> nat" where
  "str_quote_size quoteme =
     foldl (\<lambda>len c. (if c = CHR 0x22 \<or> c = CHR 0x5C then len + 1 else len) + 1) 3 quoteme"

fun quote_chars :: "string \<Rightarrow> string" where
  "quote_chars [] = []"
| "quote_chars (c # s) =
     (if c = CHR 0x22 \<or> c = CHR 0x5C then [CHR 0x5C, c] else [c]) @ quote_chars s"

definition str_quote :: "string \<Rightarrow> string" where
  "str_quote quoteme = [CHR 0x22] @ quote_chars quoteme @ [CHR 0x22]"

text \<open>
  \<^verbatim>\<open>str_replace\<close>: \<open>start\<close> and \<open>end\<close> are offsets into \<open>line\<close>.  A shorter replacement is made
  in place by \<^verbatim>\<open>memcpy\<close> and \<^verbatim>\<open>memmove\<close>, a longer one in a new buffer.
\<close>

definition str_replace :: "string \<Rightarrow> nat \<Rightarrow> nat \<Rightarrow> string \<Rightarrow> string" where
  "str_replace line start end replace =
     (let len_find = end - start; len_replace = length replace in
      if len_replace < len_find then
        (let line1 = take start line @ replace @ drop (start + len_replace) line in
         take (start + len_replace) line1 @ drop end line1)
      else take start line @ replace @ drop end line)"

definition word_replace :: "string \<Rightarrow> nat \<Rightarrow> nat \<Rightarrow> string \<Rightarrow> string" where
  "word_replace line pos len replace = str_replace line pos (pos + len) replace"

text \<open>\<^verbatim>\<open>strstr\<close> of the C library.\<close>

fun strstr :: "string \<Rightarrow> string \<Rightarrow> string option" where
  "strstr [] needle = (if needle = [] then Some [] else None)"
| "strstr (c # h) needle =
     (if take (length needle) (c # h) = needle then Some (c # h) else strstr h needle)"

function word_strstr_loop :: "string \<Rightarrow> string \<Rightarrow> string option outcome" where
  "word_strstr_loop [] needle = Inr None"
| "word_strstr_loop (c # s) needle =
     (if c = CHR 0x22 then
        bindE (str_quotefin s) (\<lambda>r.
          (case r of
             None \<Rightarrow> Inl (Ice ''terminating quote not found'')
           | Some i \<Rightarrow> word_strstr_loop (tl i) needle))
      else if take (length needle) (c # s) = needle then Inr (Some (c # s))
      else word_strstr_loop s needle)"
  by pat_completeness auto
termination
  by (relation "measure (\<lambda>(s, needle). length s)")
    (auto simp: str_quotefin_def dest!: str_quotefin2_suffix)

definition word_strstr :: "string \<Rightarrow> string \<Rightarrow> string option outcome" where
  "word_strstr haystack needle =
     (if strstr haystack needle = None then Inr None else word_strstr_loop haystack needle)"

lemma word_strstr_loop_found:
  "word_strstr_loop s needle = Inr (Some p) \<Longrightarrow>
   p \<noteq> [] \<and> take (length needle) p = needle \<and> (\<exists>u. s = u @ p)"
proof (induction s needle rule: word_strstr_loop.induct)
  case (2 c s needle)
  show ?case
  proof (cases "c = CHR 0x22")
    case True
    then obtain i where i: "str_quotefin s = Inr (Some i)" "word_strstr_loop (tl i) needle = Inr (Some p)"
      using "2.prems" by (auto elim!: bindE_InrE split: option.splits)
    obtain u where "s = u @ tl i" using i(1) by (auto simp: str_quotefin_def dest!: str_quotefin2_suffix)
    then show ?thesis using "2.IH"(1) [OF True i(1) refl i(2)]
      by auto
  next
    case False
    show ?thesis
    proof (cases "take (length needle) (c # s) = needle")
      case True
      then show ?thesis using "2.prems" False by auto
    next
      case nf: False
      then obtain u where "s = u @ p" "p \<noteq> []" "take (length needle) p = needle"
        using "2.prems" "2.IH"(2) [OF False nf] False by auto
      then show ?thesis by (metis append_Cons)
    qed
  qed
qed simp

lemma word_strstr_found:
  "word_strstr s needle = Inr (Some p) \<Longrightarrow>
   p \<noteq> [] \<and> take (length needle) p = needle \<and> (\<exists>u. s = u @ p)"
  by (auto simp: word_strstr_def split: if_splits dest!: word_strstr_loop_found)

text \<open>\<open>wordpart_before line pos\<close> is \<^verbatim>\<open>pos > line && iswordpart(pos[-1])\<close>.\<close>

definition wordpart_before :: "string \<Rightarrow> string \<Rightarrow> bool" where
  "wordpart_before line pos \<longleftrightarrow>
     length pos < length line \<and> iswordpart (line ! (length line - length pos - 1))"

definition wordpart_at :: "string \<Rightarrow> bool" where
  "wordpart_at s = (case s of [] \<Rightarrow> False | c # _ \<Rightarrow> iswordpart c)"

function word_find_loop :: "string \<Rightarrow> string \<Rightarrow> string \<Rightarrow> string option outcome" where
  "word_find_loop line word pos =
     bindE (word_strstr pos word) (\<lambda>r.
       (case r of
          None \<Rightarrow> Inr None
        | Some p \<Rightarrow>
          if wordpart_before line p then word_find_loop line word (tl p)
          else if wordpart_at (drop (length word) p) then word_find_loop line word (tl p)
          else Inr (Some p)))"
  by pat_completeness auto
termination
  by (relation "measure (\<lambda>(line, word, pos). length pos)")
    (auto dest!: word_strstr_found simp: neq_Nil_conv)

declare word_find_loop.simps [simp del]

definition word_find :: "string \<Rightarrow> string \<Rightarrow> string option outcome" where
  "word_find line word = word_find_loop line word line"

fun strchr_nest_loop :: "nat \<Rightarrow> string \<Rightarrow> char \<Rightarrow> string option" where
  "strchr_nest_loop nest [] fnd = None"
| "strchr_nest_loop nest (c # s) fnd =
     (if c = CHR ''('' then strchr_nest_loop (nest + 1) s fnd
      else
        let nest' = (if c = CHR '')'' \<and> nest > 0 then nest - 1 else nest) in
        if nest' = 0 \<and> c = fnd then Some (c # s) else strchr_nest_loop nest' s fnd)"

definition strchr_nest :: "string \<Rightarrow> char \<Rightarrow> string option" where
  "strchr_nest start fnd = strchr_nest_loop 0 start fnd"

section \<open>Lemmas\<close>

lemma str_quotefin_quoted:
  "str_quotefin (quote_chars s @ CHR 0x22 # rest) = Inr (Some (CHR 0x22 # rest))"
  unfolding str_quotefin_def by (induction s) auto

lemma str_quote_size_from:
  "foldl (\<lambda>len c. (if c = CHR 0x22 \<or> c = CHR 0x5C then len + 1 else len) + 1) n s =
     n + length (quote_chars s)"
  by (induction s arbitrary: n) auto

lemma str_quote_size: "str_quote_size s = length (str_quote s) + 1"
  unfolding str_quote_size_def str_quote_size_from by (simp add: str_quote_def)

lemma str_join_size_from:
  "foldl (\<lambda>len s. len + (length s + length sep)) n strs \<ge> n + length (str_join strs sep)"
proof (induction strs arbitrary: n)
  case (Cons s strs)
  show ?case using Cons.IH [of "n + (length s + length sep)"] by simp
qed simp

lemma str_join_fits: "length (str_join strs sep) < str_join_size strs sep"
  using str_join_size_from [of 1 strs sep] by (simp add: str_join_size_def)

lemma str_replace_eq:
  "start \<le> end \<Longrightarrow> end \<le> length line \<Longrightarrow>
   str_replace line start end r = take start line @ r @ drop end line"
  by (auto simp: str_replace_def Let_def)

lemma trim_back_length: "trim_back s (length s) = length s"
  by (cases s) auto

lemma str_trim_eq: "str_trim s = str_spc_skip s"
  by (simp add: str_trim_def Let_def trim_back_length)

lemma word_find_loop_sound:
  assumes "word_find_loop line word pos = Inr (Some p)" and "\<exists>u. line = u @ pos"
  shows "p \<noteq> [] \<and> take (length word) p = word \<and> (\<exists>u. line = u @ p \<and> (u = [] \<or> \<not> iswordpart (last u)))
    \<and> \<not> wordpart_at (drop (length word) p)"
  using assms
proof (induction line word pos rule: word_find_loop.induct)
  case (1 line word pos)
  obtain q where q: "word_strstr pos word = Inr (Some q)"
    using "1.prems"(1) by (subst (asm) word_find_loop.simps) (auto elim!: bindE_InrE split: option.splits)
  note qf = word_strstr_found [OF q]
  obtain u where u: "line = u @ q" using qf "1.prems"(2) by (metis append_assoc)
  then have tlq: "\<exists>u. line = u @ tl q"
    using qf by (metis append_Cons append_Nil append_assoc list.collapse)
  show ?case
  proof (cases "wordpart_before line q \<or> wordpart_at (drop (length word) q)")
    case True
    then have "word_find_loop line word (tl q) = Inr (Some p)"
      using "1.prems"(1) q by (subst (asm) word_find_loop.simps) (auto split: if_splits)
    then show ?thesis using "1.IH" [OF q refl] True tlq by blast
  next
    case False
    then have "p = q" using "1.prems"(1) q by (subst (asm) word_find_loop.simps) auto
    moreover have "u = [] \<or> \<not> iswordpart (last u)"
      using False u by (auto simp: wordpart_before_def nth_append last_conv_nth)
    ultimately show ?thesis using False qf u by auto
  qed
qed

text \<open>Parenthesised text: every closing parenthesis has its opening one before it.\<close>

fun nest_after :: "nat \<Rightarrow> string \<Rightarrow> nat option" where
  "nest_after n [] = Some n"
| "nest_after n (c # s) =
     (if c = CHR ''('' then nest_after (n + 1) s
      else if c = CHR '')'' then (case n of 0 \<Rightarrow> None | Suc m \<Rightarrow> nest_after m s)
      else nest_after n s)"

definition balanced :: "string \<Rightarrow> bool" where
  "balanced s \<longleftrightarrow> nest_after 0 s = Some 0"

lemma strchr_nest_loop_inside:
  "nest_after n s = Some m \<Longrightarrow>
   strchr_nest_loop (Suc n) (s @ rest) (CHR '')'') = strchr_nest_loop (Suc m) rest (CHR '')'')"
proof (induction n s rule: nest_after.induct)
  case (2 n c s)
  then show ?case by (auto simp: Let_def split: if_splits nat.splits)
qed simp

section \<open>Properties\<close>

text \<open>
  C25: a string that \<^verbatim>\<open>str_quote\<close> has quoted reads back as one string literal: whatever
  follows it, the search for its closing quote ends exactly at the last character that
  \<^verbatim>\<open>str_quote\<close> wrote, and the buffer of the computed size holds the result with its
  terminator.
\<close>

theorem str_quote_closes:
  "str_quotefin (tl (str_quote s @ rest)) = Inr (Some (CHR 0x22 # rest))
   \<and> str_quote_size s = length (str_quote s) + 1"
  using str_quotefin_quoted [of s rest] by (simp add: str_quote_def str_quote_size [unfolded str_quote_def])

text \<open>
  C26: from an opening parenthesis, \<^verbatim>\<open>strchr_nest\<close> finds the closing parenthesis that
  matches it, over any balanced text between them.
\<close>

theorem strchr_nest_matching:
  assumes "balanced s"
  shows "strchr_nest (CHR ''('' # s @ CHR '')'' # rest) (CHR '')'') = Some (CHR '')'' # rest)"
  using strchr_nest_loop_inside [of 0 s 0 "CHR '')'' # rest"] assms
  by (simp add: strchr_nest_def balanced_def)

theorem strchr_nest_matching_witness:
  "strchr_nest (CHR ''('' # ''a(b)(c(d))'' @ CHR '')'' # ''+1)'') (CHR '')'') =
     Some (CHR '')'' # ''+1)'')"
  by (rule strchr_nest_matching) (simp add: balanced_def)

text \<open>
  C27: \<^verbatim>\<open>word_find\<close> returns only whole words: the position it returns lies in the line,
  starts with the word, and neither the character before nor the one behind is part of a word.
\<close>

theorem word_find_whole_word:
  assumes "word_find line word = Inr (Some p)"
  shows "\<exists>u v. line = u @ word @ v \<and> p = word @ v \<and> (u = [] \<or> \<not> iswordpart (last u)) \<and>
    (v = [] \<or> \<not> iswordpart (hd v))"
proof -
  have f: "take (length word) p = word" "\<exists>u. line = u @ p \<and> (u = [] \<or> \<not> iswordpart (last u))"
    "\<not> wordpart_at (drop (length word) p)"
    using word_find_loop_sound [of line word line p] assms by (auto simp: word_find_def)
  have p: "p = word @ drop (length word) p" using f(1) by (metis append_take_drop_id)
  moreover have "drop (length word) p = [] \<or> \<not> iswordpart (hd (drop (length word) p))"
    using f(3) by (cases "drop (length word) p") (auto simp: wordpart_at_def)
  ultimately show ?thesis using f(2) by metis
qed

theorem word_find_whole_word_witness:
  "\<exists>u v. ''xdefined defined(A)'' = u @ ''defined'' @ v \<and> ''defined(A)'' = ''defined'' @ v \<and>
     (u = [] \<or> \<not> iswordpart (last u)) \<and> (v = [] \<or> \<not> iswordpart (hd v))"
  by (rule word_find_whole_word)
    (simp add: word_find_def word_find_loop.simps word_strstr_def wordpart_before_def
      wordpart_at_def iswordpart_def isalnum_def isalpha_def isupper_def islower_def isdigit_def
      char_code_def)

text \<open>
  \<^verbatim>\<open>str_trim\<close> removes the leading white space only: its second loop starts at the
  terminator, which is no space, so it never moves.
\<close>

theorem str_trim_leading_only: "str_trim s = str_spc_skip s"
  by (rule str_trim_eq)

end
