(* ===== verification/Ucc_Tokenise.thy ===== *)
theory Ucc_Tokenise
  imports Ucc_Str
begin

text \<open>
  The tokeniser of the preprocessor, \<^verbatim>\<open>src/cpp2/tokenise.c\<close>, and the argument splitter of
  \<^verbatim>\<open>src/cpp2/eval.c\<close> that works on its tokens.  A NULL-terminated \<^verbatim>\<open>token **\<close> is a list;
  \<^verbatim>\<open>tokenise\<close> returns NULL for an empty line, which is the empty list here.
\<close>

section \<open>Definitions\<close>

datatype tokkind =
    TOKEN_WORD
  | TOKEN_OPEN_PAREN
  | TOKEN_CLOSE_PAREN
  | TOKEN_COMMA
  | TOKEN_ELIPSIS
  | TOKEN_STRING
  | TOKEN_HASH_QUOTE
  | TOKEN_HASH_JOIN
  | TOKEN_OTHER

record token =
  tk_tok :: tokkind
  tk_w :: "string option"
  tk_ws :: bool

text \<open>
  The body of the loop from the first character that is no space: the kind and word of the
  token and the position at which the next round starts (behind the \<^verbatim>\<open>p++\<close> of the loop).
\<close>

definition lex1 :: "char \<Rightarrow> string \<Rightarrow> (tokkind \<times> string option \<times> string) outcome" where
  "lex1 c r =
     (if isalpha c \<or> c = CHR ''_'' then
        Inr (TOKEN_WORD, Some (c # takeWhile iswordpart r), dropWhile iswordpart r)
      else if c = CHR '','' then Inr (TOKEN_COMMA, None, r)
      else if c = CHR ''('' then Inr (TOKEN_OPEN_PAREN, None, r)
      else if c = CHR '')'' then Inr (TOKEN_CLOSE_PAREN, None, r)
      else if c = CHR 0x22 then
        bindE (str_quotefin r) (\<lambda>e.
          (case e of
             None \<Rightarrow> Inl (Assert_failed ''strip_comment() broken'')
           | Some e \<Rightarrow>
             Inr (TOKEN_STRING, Some (c # take (length r - length e) r @ [hd e]), tl e)))
      else if c = CHR ''#'' then
        (case r of
           [] \<Rightarrow> Inr (TOKEN_HASH_QUOTE, None, r)
         | d # r' \<Rightarrow> if d = CHR ''#'' then Inr (TOKEN_HASH_JOIN, None, r')
                   else Inr (TOKEN_HASH_QUOTE, None, r))
      else if take 3 (c # r) = ''...'' then Inr (TOKEN_ELIPSIS, None, drop 2 r)
      else Inr (TOKEN_OTHER, Some [c], r))"

lemma lex1_length: "lex1 c r = Inr (k, w, r') \<Longrightarrow> length r' \<le> length r"
  by (auto simp: lex1_def str_quotefin_def length_dropWhile_le elim!: bindE_InrE
      dest!: str_quotefin2_suffix split: if_splits option.splits list.splits)

function tok_loop :: "string \<Rightarrow> (token list \<times> string) outcome" where
  "tok_loop p =
     (if p = [] then Inr ([], p)
      else
        let ws = isspace (hd p) in
        (case str_spc_skip p of
           [] \<Rightarrow> Inr ([\<lparr>tk_tok = TOKEN_WORD, tk_w = Some [], tk_ws = ws\<rparr>], [])
         | c # r \<Rightarrow>
           bindE (lex1 c r) (\<lambda>(k, w, r').
           bindE (tok_loop r') (\<lambda>(ts, p').
             Inr (\<lparr>tk_tok = k, tk_w = w, tk_ws = ws\<rparr> # ts, p')))))"
  by pat_completeness auto
termination
proof (relation "measure length")
  fix p :: string and ws c r and x :: "tokkind \<times> string option \<times> string" and k y w r'
  assume "p \<noteq> []" and s: "str_spc_skip p = c # r" and "lex1 c r = Inr x" "(k, y) = x" "(w, r') = y"
  then have "length r' \<le> length r" by (auto dest: lex1_length)
  moreover have "length (c # r) \<le> length p"
    using s length_dropWhile_le [of isspace p] by (simp add: str_spc_skip_def)
  ultimately show "(r', p) \<in> measure length" by simp
qed simp

declare tok_loop.simps [simp del]

definition trim_token :: "token \<Rightarrow> token" where
  "trim_token t = t\<lparr>tk_w := map_option str_trim (tk_w t)\<rparr>"

definition tokenise :: "string \<Rightarrow> token list outcome" where
  "tokenise line =
     bindE (tok_loop line) (\<lambda>(ts, p).
       let ts' = (if p \<noteq> [] then ts @ [\<lparr>tk_tok = TOKEN_OTHER, tk_w = Some p, tk_ws = isspace (hd p)\<rparr>]
                  else ts)
       in Inr (map trim_token ts'))"

definition token_str :: "token \<Rightarrow> string outcome" where
  "token_str t =
     (case tk_tok t of
        TOKEN_OTHER \<Rightarrow> (case tk_w t of None \<Rightarrow> Inl (Assert_failed ''no word'') | Some w \<Rightarrow> Inr w)
      | TOKEN_WORD \<Rightarrow> (case tk_w t of None \<Rightarrow> Inl (Assert_failed ''no word'') | Some w \<Rightarrow> Inr w)
      | TOKEN_STRING \<Rightarrow> (case tk_w t of None \<Rightarrow> Inl (Assert_failed ''no word'') | Some w \<Rightarrow> Inr w)
      | TOKEN_OPEN_PAREN \<Rightarrow> Inr ''(''
      | TOKEN_CLOSE_PAREN \<Rightarrow> Inr '')''
      | TOKEN_COMMA \<Rightarrow> Inr '',''
      | TOKEN_ELIPSIS \<Rightarrow> Inr ''...''
      | TOKEN_HASH_QUOTE \<Rightarrow> Inr ''#''
      | TOKEN_HASH_JOIN \<Rightarrow> Inr ''##'')"

text \<open>
  \<^verbatim>\<open>tokens_join_n\<close> sizes its buffer in a first pass and fills it in a second; \<open>lim\<close> is \<open>None\<close>
  for the source's \<open>-1\<close>.
\<close>

definition lim_tokens :: "token list \<Rightarrow> nat option \<Rightarrow> token list" where
  "lim_tokens ts lim = (case lim of None \<Rightarrow> ts | Some n \<Rightarrow> take n ts)"

fun join_size :: "nat \<Rightarrow> token list \<Rightarrow> nat outcome" where
  "join_size len [] = Inr len"
| "join_size len (t # ts) = bindE (token_str t) (\<lambda>s. join_size (len + (1 + length s)) ts)"

fun join_fill :: "string \<Rightarrow> token list \<Rightarrow> string outcome" where
  "join_fill val [] = Inr val"
| "join_fill val (t # ts) =
     bindE (token_str t) (\<lambda>s. join_fill ((if tk_ws t then val @ '' '' else val) @ s) ts)"

definition tokens_join_n :: "token list \<Rightarrow> nat option \<Rightarrow> string outcome" where
  "tokens_join_n ts lim =
     bindE (join_size 1 (lim_tokens ts lim)) (\<lambda>len.
     bindE (join_fill [] (lim_tokens ts lim)) (\<lambda>val.
       if length val + 1 \<le> len then Inr val else Inl Out_of_bounds))"

definition tokens_join :: "token list \<Rightarrow> string outcome" where
  "tokens_join ts = tokens_join_n ts None"

definition token_is_space :: "token \<Rightarrow> bool outcome" where
  "token_is_space t =
     (if tk_tok t = TOKEN_WORD then
        (case tk_w t of None \<Rightarrow> Inl Null_deref | Some w \<Rightarrow> Inr (str_spc_skip w = []))
      else Inr False)"

fun tokens_skip_whitespace :: "token list \<Rightarrow> token list outcome" where
  "tokens_skip_whitespace [] = Inr []"
| "tokens_skip_whitespace (t # ts) =
     bindE (token_is_space t) (\<lambda>sp. if \<not> sp then Inr (t # ts) else tokens_skip_whitespace ts)"

text \<open>The two counters test the pointer, not the list: only a NULL pointer gives 1 here.\<close>

definition tokens_just_whitespace :: "token list option \<Rightarrow> bool outcome" where
  "tokens_just_whitespace tokens =
     (case tokens of
        None \<Rightarrow> Inr True
      | Some ts \<Rightarrow> bindE (tokens_skip_whitespace ts) (\<lambda>_. Inr False))"

fun tokens_count_skip_spc :: "token list \<Rightarrow> nat outcome" where
  "tokens_count_skip_spc [] = Inr 0"
| "tokens_count_skip_spc (t # ts) =
     bindE (token_is_space t) (\<lambda>sp. bindE (tokens_count_skip_spc ts) (\<lambda>n.
       Inr (if \<not> sp then Suc n else n)))"

text \<open>
  \<^verbatim>\<open>split_func_args\<close> of \<^verbatim>\<open>eval.c\<close>: \<open>anchor\<close> holds the tokens since the last top-level comma;
  \<^verbatim>\<open>nest\<close> is an \<^verbatim>\<open>unsigned\<close>, so a stray closing parenthesis makes it wrap and hides the
  commas behind it.
\<close>

fun split_loop :: "u32 \<Rightarrow> token list \<Rightarrow> string list \<Rightarrow> token list \<Rightarrow> (token list \<times> string list) outcome" where
  "split_loop nest anchor args [] = Inr (anchor, args)"
| "split_loop nest anchor args (t # ts) =
     (case tk_tok t of
        TOKEN_COMMA \<Rightarrow>
          if nest = 0 then
            bindE (tokens_join_n anchor None) (\<lambda>arg. split_loop nest [] (args @ [arg]) ts)
          else split_loop nest (anchor @ [t]) args ts
      | TOKEN_OPEN_PAREN \<Rightarrow> split_loop (nest + 1) (anchor @ [t]) args ts
      | TOKEN_CLOSE_PAREN \<Rightarrow> split_loop (nest - 1) (anchor @ [t]) args ts
      | _ \<Rightarrow> split_loop nest (anchor @ [t]) args ts)"

definition split_func_args :: "string \<Rightarrow> string list outcome" where
  "split_func_args args_str =
     bindE (tokenise args_str) (\<lambda>tokens.
     bindE (split_loop 0 [] [] tokens) (\<lambda>(anchor, args).
       if anchor \<noteq> [] \<or> (tokens \<noteq> [] \<and> tk_tok (last tokens) = TOKEN_COMMA) then
         bindE (tokens_join_n anchor None) (\<lambda>arg. Inr (args @ [arg]))
       else Inr args))"

section \<open>What the tokeniser keeps of the line\<close>

text \<open>The text of a token without its white space, and of a token list.\<close>

definition tok_text :: "token \<Rightarrow> string" where
  "tok_text t = (case token_str t of Inl _ \<Rightarrow> [] | Inr s \<Rightarrow> s)"

definition tok_ok :: "token \<Rightarrow> bool" where
  "tok_ok t \<longleftrightarrow> (\<exists>s. token_str t = Inr s)"

definition text_of :: "token list \<Rightarrow> string" where
  "text_of ts = concat (map (\<lambda>t. (if tk_ws t then '' '' else []) @ tok_text t) ts)"

lemma tok_okD: "tok_ok t \<Longrightarrow> token_str t = Inr (tok_text t)"
  by (auto simp: tok_ok_def tok_text_def)

lemma join_size_ok:
  "list_all tok_ok ts \<Longrightarrow> \<exists>len. join_size n ts = Inr len \<and> n + length (text_of ts) \<le> len"
proof (induction ts arbitrary: n)
  case (Cons t ts)
  then obtain len where "join_size (n + (1 + length (tok_text t))) ts = Inr len"
    "n + (1 + length (tok_text t)) + length (text_of ts) \<le> len" by fastforce
  then show ?case using Cons.prems by (auto simp: tok_okD text_of_def)
qed (simp add: text_of_def)

lemma join_fill_ok: "list_all tok_ok ts \<Longrightarrow> join_fill val ts = Inr (val @ text_of ts)"
  by (induction ts arbitrary: val) (auto simp: tok_okD text_of_def)

lemma tokens_join_n_ok:
  "list_all tok_ok ts \<Longrightarrow> tokens_join_n ts None = Inr (text_of ts)"
  using join_size_ok [of ts 1] by (auto simp: tokens_join_n_def lim_tokens_def join_fill_ok)

text \<open>What one token takes from the line, verbatim.\<close>

lemma alpha_not_space: "isalpha c \<Longrightarrow> \<not> isspace c"
  by (auto simp: ctype_defs)

lemma lex1_text:
  assumes "lex1 c r = Inr (k, w, r')"
  shows "\<exists>s. (\<forall>ws. token_str \<lparr>tk_tok = k, tk_w = w, tk_ws = ws\<rparr> = Inr s) \<and> s @ r' = c # r \<and>
           s \<noteq> [] \<and> (\<forall>v. w = Some v \<longrightarrow> v = s)"
proof -
  have dots: "\<exists>r2. c # r = ''...'' @ r2 \<and> drop 2 r = r2" if "take 3 (c # r) = ''...''"
    using that by (cases r; cases "tl r") (auto simp: eval_nat_numeral)
  show ?thesis
    using assms dots
    by (auto simp: lex1_def token_str_def str_quotefin_def elim!: bindE_InrE
        dest!: str_quotefin2_suffix split: if_splits option.splits list.splits)
qed

lemma spc_skip_Cons: "str_spc_skip p = c # r \<Longrightarrow> \<not> isspace c"
  by (metis str_spc_skip_def hd_dropWhile list.sel(1) list.distinct(1))

lemma spc_skip_nonspace [simp]: "\<not> isspace c \<Longrightarrow> str_spc_skip (c # r) = c # r"
  by (simp add: str_spc_skip_def)

lemma isspace_space [simp]: "isspace (CHR '' '')"
  by (simp add: isspace_def char_code_def)

text \<open>The cases of one round of the loop.\<close>

lemma tok_loopE:
  assumes "tok_loop p = Inr (ts, p')"
  obtains (Nil) "p = []" "ts = []" "p' = []"
  | (Blank) "p \<noteq> []" "list_all isspace p" "p' = []"
      "ts = [\<lparr>tk_tok = TOKEN_WORD, tk_w = Some [], tk_ws = True\<rparr>]"
  | (Tok) c r k w r' ts' where "p \<noteq> []" "str_spc_skip p = c # r" "lex1 c r = Inr (k, w, r')"
      "tok_loop r' = Inr (ts', p')"
      "ts = \<lparr>tk_tok = k, tk_w = w, tk_ws = isspace (hd p)\<rparr> # ts'"
proof (cases "p = []")
  case True
  then show ?thesis using assms Nil by (simp add: tok_loop.simps)
next
  case False
  show ?thesis
  proof (cases "str_spc_skip p")
    case s: Nil
    then have "list_all isspace p" by (simp add: str_spc_skip_def list_all_iff dropWhile_eq_Nil_conv)
    moreover from this have "isspace (hd p)" using False by (cases p) auto
    ultimately show ?thesis
      using assms Blank False s by (subst (asm) tok_loop.simps) (simp add: Let_def)
  next
    case (Cons c r)
    then show ?thesis
      using assms Tok [OF False Cons] False by (subst (asm) tok_loop.simps) (auto elim!: bindE_InrE)
  qed
qed

lemma text_of_Cons [simp]:
  "text_of (t # ts) = (if tk_ws t then '' '' else []) @ tok_text t @ text_of ts"
  by (simp add: text_of_def)

lemma text_of_Nil [simp]: "text_of [] = []"
  by (simp add: text_of_def)

lemma lex1_tok_text:
  assumes "lex1 c r = Inr (k, w, r')"
  shows "tok_ok \<lparr>tk_tok = k, tk_w = w, tk_ws = ws\<rparr>"
    and "tok_text \<lparr>tk_tok = k, tk_w = w, tk_ws = ws\<rparr> @ r' = c # r"
  using lex1_text [OF assms] by (auto simp: tok_ok_def tok_text_def)

lemma tok_loop_ok: "tok_loop p = Inr (ts, p') \<Longrightarrow> list_all tok_ok ts \<and> p' = []"
proof (induction p arbitrary: ts p' rule: tok_loop.induct)
  case (1 p)
  from "1.prems" show ?case
  proof (cases rule: tok_loopE)
    case (Tok c r k w r' ts')
    then show ?thesis using "1.IH" [OF Tok(1) refl Tok(2,3) refl refl Tok(4)]
      by (simp add: lex1_tok_text)
  qed (auto simp: tok_ok_def token_str_def)
qed

lemma tok_loop_trim: "tok_loop p = Inr (ts, p') \<Longrightarrow> map trim_token ts = ts"
proof (induction p arbitrary: ts p' rule: tok_loop.induct)
  case (1 p)
  from "1.prems" show ?case
  proof (cases rule: tok_loopE)
    case (Tok c r k w r' ts')
    have "w = Some v \<Longrightarrow> str_trim v = v" for v
      using lex1_text [OF Tok(3)] spc_skip_Cons [OF Tok(2)]
      by (auto simp: str_trim_eq append_eq_Cons_conv)
    then have "map_option str_trim w = w" by (cases w) auto
    then show ?thesis using Tok "1.IH" [OF Tok(1) refl Tok(2,3) refl refl Tok(4)]
      by (simp add: trim_token_def)
  qed (simp_all add: trim_token_def str_trim_eq str_spc_skip_def)
qed

lemma tok_loop_hd:
  "tok_loop p = Inr (ts, p') \<Longrightarrow>
   (text_of ts = [] \<longleftrightarrow> p = []) \<and>
   (p \<noteq> [] \<longrightarrow> hd (text_of ts) = (if isspace (hd p) then CHR '' '' else hd p))"
proof (erule tok_loopE)
  fix c r k w r' ts'
  assume a: "p \<noteq> []" "str_spc_skip p = c # r" "lex1 c r = Inr (k, w, r')" "tok_loop r' = Inr (ts', p')"
    "ts = \<lparr>tk_tok = k, tk_w = w, tk_ws = isspace (hd p)\<rparr> # ts'"
  obtain s where s: "tok_text \<lparr>tk_tok = k, tk_w = w, tk_ws = isspace (hd p)\<rparr> = c # s"
    using lex1_text [OF a(3)] by (auto simp: tok_text_def append_eq_Cons_conv)
  have "p = c # r" if "\<not> isspace (hd p)"
    using a(1,2) that by (cases p) auto
  then show ?thesis using a s by auto
qed (auto simp: neq_Nil_conv)

lemma tok_loop_nonspace:
  "tok_loop p = Inr (ts, p') \<Longrightarrow>
   filter (\<lambda>c. \<not> isspace c) (text_of ts) = filter (\<lambda>c. \<not> isspace c) p"
proof (induction p arbitrary: ts p' rule: tok_loop.induct)
  case (1 p)
  from "1.prems" show ?case
  proof (cases rule: tok_loopE)
    case (Tok c r k w r' ts')
    let ?t = "tok_text \<lparr>tk_tok = k, tk_w = w, tk_ws = isspace (hd p)\<rparr>"
    have "filter (\<lambda>c. \<not> isspace c) p = filter (\<lambda>c. \<not> isspace c) (str_spc_skip p)"
      by (simp add: str_spc_skip_def) (induction p; simp)
    also have "\<dots> = filter (\<lambda>c. \<not> isspace c) (?t @ r')"
      using lex1_tok_text(2) [OF Tok(3)] Tok(2) by simp
    also have "\<dots> = filter (\<lambda>c. \<not> isspace c) (text_of ts)"
      using Tok "1.IH" [OF Tok(1) refl Tok(2,3) refl refl Tok(4)] by simp
    finally show ?thesis ..
  qed (auto simp: tok_text_def token_str_def list_all_iff filter_empty_conv)
qed

text \<open>
  What one round reads depends on the rest of the line only through its first characters:
  the rest may be replaced by any text that does not extend the token.
\<close>

definition compat :: "string \<Rightarrow> string \<Rightarrow> bool" where
  "compat r x \<longleftrightarrow> (wordpart_at x \<longrightarrow> wordpart_at r) \<and>
     (x \<noteq> [] \<and> hd x = CHR ''#'' \<longrightarrow> r \<noteq> [] \<and> hd r = CHR ''#'') \<and>
     (take 2 x = ''..'' \<longrightarrow> take 2 r = ''..'')"

lemma str_quotefin2_local:
  "str_quotefin2 s q = Inr (Some t) \<Longrightarrow> s = p @ t \<Longrightarrow>
   str_quotefin2 (p @ q # x) q = Inr (Some (q # x))"
proof (induction s q arbitrary: p rule: str_quotefin2.induct)
  case (2 c s q)
  show ?case
  proof (cases "c = CHR 0x5C")
    case True
    then obtain d s' where s: "s = d # s'" and f: "str_quotefin2 s' q = Inr (Some t)"
      using "2.prems"(1) by (cases s) auto
    note str_quotefin2_length [OF f]
    then obtain p'' where "p = c # d # p''" "s' = p'' @ t"
      using "2.prems"(2) s by (cases p; cases "tl p") auto
    then show ?thesis using "2.IH"(1) [OF True s f, of p''] True by simp
  next
    case False
    show ?thesis
    proof (cases "c = q")
      case True
      then have "p = []" using "2.prems" False by simp
      then show ?thesis using True False by simp
    next
      case cq: False
      then have f: "str_quotefin2 s q = Inr (Some t)" using "2.prems"(1) False by simp
      note str_quotefin2_length [OF f]
      then obtain p' where "p = c # p'" "s = p' @ t" using "2.prems"(2) by (cases p) auto
      then show ?thesis using "2.IH"(2) [OF False cq f, of p'] False cq by simp
    qed
  qed
qed simp

lemma takeWhile_local:
  assumes "\<not> wordpart_at x"
  shows "takeWhile iswordpart (takeWhile iswordpart r @ x) = takeWhile iswordpart r"
    and "dropWhile iswordpart (takeWhile iswordpart r @ x) = x"
proof -
  have "\<forall>y \<in> set (takeWhile iswordpart r). iswordpart y" by (auto dest: set_takeWhileD)
  moreover have "takeWhile iswordpart x = []" "dropWhile iswordpart x = x"
    using assms by (cases x; simp add: wordpart_at_def)+
  ultimately show "takeWhile iswordpart (takeWhile iswordpart r @ x) = takeWhile iswordpart r"
    and "dropWhile iswordpart (takeWhile iswordpart r @ x) = x"
    by (simp_all add: takeWhile_append2 dropWhile_append2)
qed

lemma not_wordpart_dropWhile: "\<not> wordpart_at (dropWhile iswordpart r)"
  by (induction r) (auto simp: wordpart_at_def)

lemma lex1_local_string:
  assumes "lex1 (CHR 0x22) r = Inr (k, w, r')"
  shows "\<exists>s. tok_text \<lparr>tk_tok = k, tk_w = w, tk_ws = ws\<rparr> = CHR 0x22 # s \<and>
    lex1 (CHR 0x22) (s @ x) = Inr (k, w, x)"
proof -
  have na: "\<not> isalpha (CHR 0x22)" by (simp add: ctype_defs char_code_def)
  obtain e where e: "str_quotefin r = Inr (Some e)"
    and kw: "k = TOKEN_STRING" "w = Some (CHR 0x22 # take (length r - length e) r @ [hd e])" "r' = tl e"
    using assms na by (auto simp: lex1_def elim!: bindE_InrE split: option.splits)
  obtain p u where pu: "r = p @ CHR 0x22 # u" "e = CHR 0x22 # u"
    using e by (auto simp: str_quotefin_def dest: str_quotefin2_suffix)
  then have "str_quotefin (p @ CHR 0x22 # x) = Inr (Some (CHR 0x22 # x))"
    using e str_quotefin2_local [of r "CHR 0x22" e p x] by (simp add: str_quotefin_def)
  then show ?thesis using kw pu na
    by (intro exI [of _ "p @ [CHR 0x22]"]) (simp add: lex1_def tok_text_def token_str_def)
qed

lemma lex1_local:
  assumes l: "lex1 c r = Inr (k, w, r')" and x: "compat r' x"
  shows "\<exists>s. tok_text \<lparr>tk_tok = k, tk_w = w, tk_ws = ws\<rparr> = c # s \<and> lex1 c (s @ x) = Inr (k, w, x)"
proof -
  consider "isalpha c \<or> c = CHR ''_''" | "c = CHR 0x22"
    | "\<not> (isalpha c \<or> c = CHR ''_'')" "c = CHR ''#''"
    | "\<not> (isalpha c \<or> c = CHR ''_'')" "c \<noteq> CHR 0x22" "c \<noteq> CHR ''#''" by blast
  then show ?thesis
  proof cases
    case 1
    then have kw: "k = TOKEN_WORD" "w = Some (c # takeWhile iswordpart r)" "r' = dropWhile iswordpart r"
      using l by (auto simp: lex1_def)
    have "\<not> wordpart_at x" using x not_wordpart_dropWhile [of r] by (auto simp: compat_def kw)
    then show ?thesis using 1 takeWhile_local [of x r]
      by (intro exI [of _ "takeWhile iswordpart r"])
        (simp add: lex1_def kw tok_text_def token_str_def)
  next
    case 2
    then show ?thesis using lex1_local_string l by blast
  next
    case 3
    show ?thesis
    proof (cases "r \<noteq> [] \<and> hd r = CHR ''#''")
      case True
      then show ?thesis using 3 l
        by (intro exI [of _ "''#''"]) (cases r; auto simp: lex1_def tok_text_def token_str_def)
    next
      case False
      then have "k = TOKEN_HASH_QUOTE" "w = None" "r' = r" "\<not> (x \<noteq> [] \<and> hd x = CHR ''#'')"
        using 3 l x by (cases r; auto simp: lex1_def compat_def)+
      then show ?thesis using 3
        by (intro exI [of _ "[]"]) (cases x; auto simp: lex1_def tok_text_def token_str_def)
    qed
  next
    case 4
    show ?thesis
    proof (cases "take 3 (c # r) = ''...''")
      case True
      then show ?thesis using 4 l
        by (intro exI [of _ "''..''"])
          (auto simp: lex1_def tok_text_def token_str_def eval_nat_numeral)
    next
      case False
      then have "take 3 (c # r') = take 3 (c # x) \<or> take 3 (c # x) \<noteq> ''...'' \<or> c \<noteq> CHR ''.''"
        using x by (auto simp: compat_def eval_nat_numeral)
      moreover have "take 3 (c # r) \<noteq> ''...'' \<Longrightarrow> take 3 (c # x) \<noteq> ''...''" if "r' = r"
        using x that by (auto simp: compat_def eval_nat_numeral)
      ultimately show ?thesis using 4 l False
        by (intro exI [of _ "[]"])
          (auto simp: lex1_def tok_text_def token_str_def split: if_splits)
    qed
  qed
qed

lemma tok_loop_compat: "tok_loop p = Inr (ts, p') \<Longrightarrow> compat p (text_of ts)"
proof -
  assume t: "tok_loop p = Inr (ts, p')"
  note h = tok_loop_hd [OF t]
  have sp: "\<not> iswordpart (CHR '' '')"
    by (simp add: iswordpart_def ctype_defs char_code_def)
  have dots: "take 2 p = ''..''" if d: "take 2 (text_of ts) = ''..''"
  proof -
    have hd: "text_of ts \<noteq> []" "hd (text_of ts) = CHR ''.''" using d by (cases "text_of ts"; auto)+
    then have pd: "p \<noteq> []" "hd p = CHR ''.''" "\<not> isspace (hd p)" using h by (auto split: if_splits)
    from t show ?thesis
    proof (cases rule: tok_loopE)
      case (Tok c r k w r' ts')
      have p: "p = c # r" using pd Tok(2) by (cases p) auto
      have c: "c = CHR ''.''" using p pd by simp
      show ?thesis
      proof (cases "take 3 p = ''...''")
        case True
        then show ?thesis by (cases r; cases "tl r") (auto simp: p eval_nat_numeral)
      next
        case False
        then have "k = TOKEN_OTHER" "w = Some ''.''" "r' = r"
          using Tok(3) p by (auto simp: lex1_def c ctype_defs char_code_def)
        then have "text_of ts = CHR ''.'' # text_of ts'" using Tok pd
          by (simp add: tok_text_def token_str_def)
        then have "text_of ts' \<noteq> []" "hd (text_of ts') = CHR ''.''"
          using d by (cases "text_of ts'"; simp)+
        then have "r \<noteq> []" "hd r = CHR ''.''"
          using tok_loop_hd [OF Tok(4)] \<open>r' = r\<close> by (auto split: if_splits)
        then show ?thesis by (cases r) (simp_all add: p c)
      qed
    qed (use pd in \<open>cases p; auto\<close>)+
  qed
  show ?thesis unfolding compat_def
  proof (intro conjI impI)
    show "wordpart_at p" if "wordpart_at (text_of ts)"
      using that h sp by (cases p; cases "text_of ts") (auto simp: wordpart_at_def split: if_splits)
    show "p \<noteq> []" if "text_of ts \<noteq> [] \<and> hd (text_of ts) = CHR ''#''" using that h by auto
    show "hd p = CHR ''#''" if "text_of ts \<noteq> [] \<and> hd (text_of ts) = CHR ''#''"
      using that h by (auto split: if_splits)
  qed (rule dots)
qed

lemma tok_loop_text: "tok_loop p = Inr (ts, p') \<Longrightarrow> tok_loop (text_of ts) = Inr (ts, [])"
proof (induction p arbitrary: ts p' rule: tok_loop.induct)
  case (1 p)
  from "1.prems" show ?case
  proof (cases rule: tok_loopE)
    case Nil
    then show ?thesis by (simp add: tok_loop.simps)
  next
    case Blank
    then show ?thesis
      by (simp add: tok_text_def token_str_def) (simp add: tok_loop.simps str_spc_skip_def)
  next
    case (Tok c r k w r' ts')
    have IH: "tok_loop (text_of ts') = Inr (ts', [])"
      using "1.IH" [OF Tok(1) refl Tok(2,3) refl refl Tok(4)] .
    obtain s where s: "tok_text \<lparr>tk_tok = k, tk_w = w, tk_ws = isspace (hd p)\<rparr> = c # s"
      "lex1 c (s @ text_of ts') = Inr (k, w, text_of ts')"
      using lex1_local [OF Tok(3) tok_loop_compat [OF Tok(4)]] by blast
    have nc: "\<not> isspace c" using Tok(2) by (rule spc_skip_Cons)
    have "str_spc_skip (text_of ts) = c # s @ text_of ts'"
      using Tok s(1) nc by (simp add: str_spc_skip_def)
    moreover have "text_of ts \<noteq> []" "isspace (hd (text_of ts)) = isspace (hd p)"
      using Tok s(1) nc by auto
    ultimately show ?thesis using Tok s IH by (subst tok_loop.simps) (simp add: Let_def)
  qed
qed

section \<open>Properties\<close>



end
