(* ===== verification/Ucc_Cpp_Expr.thy ===== *)
theory Ucc_Cpp_Expr
  imports Ucc_Str Ucc_Escape "HOL-Library.Signed_Division"
begin

text \<open>
  The \<^verbatim>\<open>#if\<close> expressions of the preprocessor: the token reader \<^verbatim>\<open>src/cpp2/expr_tok.c\<close>, the
  precedence-climbing parser and the evaluator of \<^verbatim>\<open>src/cpp2/expr.c\<close>.

  A token is the \<^verbatim>\<open>int\<close> the source stores in \<^verbatim>\<open>tok_cur\<close>: a negative number of the
  enumeration or a character value (plain \<^verbatim>\<open>char\<close> is signed, so a byte above 127 is negative
  and may coincide with a member of the enumeration, as in the source).  The reader's globals
  \<^verbatim>\<open>tok_pos\<close>, \<^verbatim>\<open>tok_cur\<close> and \<^verbatim>\<open>tok_cur_num\<close> are a record that the parser threads.  The three
  parse functions call each other without a structural argument; they carry fuel, and
  \<open>expr_parse_fuel\<close> shows that the fuel \<open>expr_parse\<close> gives them is always enough.
  Values are \<^verbatim>\<open>long\<close>, the integers of 64 bits; what C leaves undefined on them is a failure.
\<close>

section \<open>Tokens\<close>

abbreviation tok_ident :: int where "tok_ident \<equiv> -1"
abbreviation tok_num :: int where "tok_num \<equiv> -2"
abbreviation tok_eof :: int where "tok_eof \<equiv> 0"
abbreviation tok_lparen :: int where "tok_lparen \<equiv> 40"
abbreviation tok_rparen :: int where "tok_rparen \<equiv> 41"
abbreviation tok_multiply :: int where "tok_multiply \<equiv> 42"
abbreviation tok_divide :: int where "tok_divide \<equiv> 47"
abbreviation tok_modulus :: int where "tok_modulus \<equiv> 37"
abbreviation tok_plus :: int where "tok_plus \<equiv> 43"
abbreviation tok_minus :: int where "tok_minus \<equiv> 45"
abbreviation tok_xor :: int where "tok_xor \<equiv> 94"
abbreviation tok_or :: int where "tok_or \<equiv> 124"
abbreviation tok_and :: int where "tok_and \<equiv> 38"
abbreviation tok_orsc :: int where "tok_orsc \<equiv> -3"
abbreviation tok_andsc :: int where "tok_andsc \<equiv> -4"
abbreviation tok_shiftl :: int where "tok_shiftl \<equiv> -5"
abbreviation tok_shiftr :: int where "tok_shiftr \<equiv> -6"
abbreviation tok_not :: int where "tok_not \<equiv> 33"
abbreviation tok_bnot :: int where "tok_bnot \<equiv> 126"
abbreviation tok_eq :: int where "tok_eq \<equiv> -7"
abbreviation tok_ne :: int where "tok_ne \<equiv> -8"
abbreviation tok_le :: int where "tok_le \<equiv> -9"
abbreviation tok_lt :: int where "tok_lt \<equiv> 60"
abbreviation tok_ge :: int where "tok_ge \<equiv> -10"
abbreviation tok_gt :: int where "tok_gt \<equiv> 62"
abbreviation tok_question :: int where "tok_question \<equiv> 63"
abbreviation tok_colon :: int where "tok_colon \<equiv> 58"

record tokst =
  tok_pos :: string
  tok_cur :: int
  tok_cur_num :: int

text \<open>
  \<^verbatim>\<open>strtol\<close> with base 0 on a string that starts with a digit, as \<^verbatim>\<open>tok_next\<close> calls it: the
  prefix chooses the base, the value saturates at \<^verbatim>\<open>LONG_MAX\<close>.
\<close>

definition strtol0 :: "string \<Rightarrow> int \<times> string" where
  "strtol0 s =
     (let (b, test, digits) =
        (case s of
           z # x # h # r \<Rightarrow>
             if z = CHR ''0'' \<and> (x = CHR ''x'' \<or> x = CHR ''X'') \<and> isxdigit h
             then (16, isxdigit, h # r)
             else if z = CHR ''0'' then (8, isodigit, s) else (10, isdigit, s)
         | z # r \<Rightarrow> if z = CHR ''0'' then (8, isodigit, s) else (10, isdigit, s)
         | [] \<Rightarrow> (10, isdigit, s))
      in (min (int (digits_value b 0 (takeWhile test digits))) (2 ^ 63 - 1),
          dropWhile test digits))"

text \<open>The double-character operators, from the characters \<open>c\<close> read and \<open>d\<close> behind it.\<close>

definition double_op :: "int \<Rightarrow> string \<Rightarrow> int \<times> string" where
  "double_op c r =
     (case r of
        [] \<Rightarrow> (c, r)
      | d # r' \<Rightarrow>
        if d = CHR ''|'' then (if c = 124 then (tok_orsc, r') else (c, r))
        else if d = CHR ''&'' then (if c = 38 then (tok_andsc, r') else (c, r))
        else if d = CHR ''<'' then (if c = 60 then (tok_shiftl, r') else (c, r))
        else if d = CHR ''>'' then (if c = 62 then (tok_shiftr, r') else (c, r))
        else if d = CHR ''='' then
          (if c = 61 then (tok_eq, r') else if c = 33 then (tok_ne, r')
           else if c = 60 then (tok_le, r') else if c = 62 then (tok_ge, r') else (c, r))
        else (c, r))"

definition tok_char_literal :: "bool \<Rightarrow> string \<Rightarrow> tokst outcome" where
  "tok_char_literal wide start =
     bindE (char_quotefin start) (\<lambda>limit.
     bindE (escape_char start limit wide E_none E_none) (\<lambda>(v, fin, mchar, warn, err).
       if err = EILSEQ then Inl (Died ''incomplete escape sequence in literal'')
       else if err = ERANGE then Inl (Died ''character escape out of range'')
       else (case fin of
               [] \<Rightarrow> Inl Out_of_bounds
             | _ # r \<Rightarrow> Inr \<lparr>tok_pos = r, tok_cur = tok_num, tok_cur_num = v\<rparr>)))"

definition tok_begin :: "string \<Rightarrow> tokst" where
  "tok_begin begin = \<lparr>tok_pos = begin, tok_cur = 0, tok_cur_num = 0\<rparr>"

definition tok_next :: "tokst \<Rightarrow> tokst outcome" where
  "tok_next st =
     (if tok_pos st = [] then Inr (st\<lparr>tok_cur := tok_eof\<rparr>)
      else
        let p = str_spc_skip (tok_pos st) in
        (case p of
           [] \<Rightarrow> Inr (st\<lparr>tok_pos := [], tok_cur := 0\<rparr>)
         | c # r \<Rightarrow>
           if isdigit c then
             (let (n, ep) = strtol0 p; ep' = dropWhile (\<lambda>d. d = CHR ''L'' \<or> d = CHR ''U'') ep in
              Inr \<lparr>tok_pos = ep', tok_cur = tok_num, tok_cur_num = n\<rparr>)
           else if c = CHR 0x27 then tok_char_literal False r
           else if c = CHR ''L'' \<and> r \<noteq> [] \<and> hd r = CHR 0x27 then tok_char_literal True (tl r)
           else if isalpha c \<or> c = CHR ''_'' then
             Inr (st\<lparr>tok_pos := word_end p, tok_cur := tok_ident\<rparr>)
           else if char_sval c = 0 then Inr (st\<lparr>tok_pos := p, tok_cur := 0\<rparr>)
           else (case double_op (char_sval c) r of (cur, r') \<Rightarrow>
                   Inr (st\<lparr>tok_pos := r', tok_cur := cur\<rparr>))))"

section \<open>Parser\<close>

datatype cexpr =
    E_IDENT
  | E_NUM int
  | E_OP int cexpr cexpr
  | E_UOP int cexpr
  | E_TOP cexpr cexpr cexpr

definition is_op :: "int \<Rightarrow> bool" where
  "is_op op \<longleftrightarrow> op \<in> {tok_multiply, tok_divide, tok_modulus, tok_plus, tok_minus, tok_xor,
     tok_or, tok_and, tok_orsc, tok_andsc, tok_shiftl, tok_shiftr, tok_not, tok_bnot, tok_eq,
     tok_ne, tok_le, tok_lt, tok_ge, tok_gt, tok_question}"

definition MIN_OP :: int where "MIN_OP = -10"

definition MAX_PRI :: int where "MAX_PRI = 20"

text \<open>The table that \<^verbatim>\<open>expr_init\<close> fills, and an access to its 255 entries.\<close>

definition preds :: "(int \<times> int) list" where
  "preds =
     [(tok_multiply, 1), (tok_divide, 1), (tok_modulus, 1), (tok_plus, 2), (tok_minus, 2),
      (tok_shiftl, 3), (tok_shiftr, 3), (tok_le, 4), (tok_lt, 4), (tok_ge, 4), (tok_gt, 4),
      (tok_eq, 5), (tok_ne, 5), (tok_and, 6), (tok_xor, 7), (tok_or, 8), (tok_andsc, 9),
      (tok_orsc, 10), (tok_question, 11)]"

definition PRECEDENCE :: "int \<Rightarrow> int outcome" where
  "PRECEDENCE x =
     (let i = x - MIN_OP in
      if 0 \<le> i \<and> i < 255 then Inr (case map_of preds x of Some n \<Rightarrow> n | None \<Rightarrow> MAX_PRI)
      else Inl Out_of_bounds)"

fun parse_primary :: "nat \<Rightarrow> tokst \<Rightarrow> (cexpr \<times> tokst) outcome"
  and parse_rhs :: "nat \<Rightarrow> cexpr \<Rightarrow> int \<Rightarrow> tokst \<Rightarrow> (cexpr \<times> tokst) outcome"
  and parse :: "nat \<Rightarrow> tokst \<Rightarrow> (cexpr \<times> tokst) outcome"
where
  "parse_primary 0 st = Inl Out_of_fuel"
| "parse_primary (Suc f) st =
     (if tok_cur st = tok_ident then bindE (tok_next st) (\<lambda>st. Inr (E_IDENT, st))
      else if tok_cur st = tok_num then
        bindE (tok_next st) (\<lambda>st'. Inr (E_NUM (tok_cur_num st'), st'))
      else if tok_cur st = tok_lparen then
        bindE (tok_next st) (\<lambda>st.
        bindE (parse f st) (\<lambda>(e, st).
          if tok_cur st \<noteq> tok_rparen then Inl (Died ''close paren expected'')
          else bindE (tok_next st) (\<lambda>st. Inr (e, st))))
      else if tok_cur st = tok_not \<or> tok_cur st = tok_bnot \<or> tok_cur st = tok_minus then
        (let op = tok_cur st in
         bindE (tok_next st) (\<lambda>st. bindE (parse_primary f st) (\<lambda>(e, st). Inr (E_UOP op e, st))))
      else Inl (Died ''expression expected''))"
| "parse_rhs 0 lhs priority st = Inl Out_of_fuel"
| "parse_rhs (Suc f) lhs priority st =
     (let op = tok_cur st in
      if \<not> is_op op then Inr (lhs, st)
      else bindE (PRECEDENCE op) (\<lambda>this_pri.
        if this_pri > priority then Inr (lhs, st)
        else bindE (tok_next st) (\<lambda>st.
          if op = tok_question then
            bindE (parse f st) (\<lambda>(if_t, st).
              if tok_cur st \<noteq> tok_colon then Inl (Died ''colon expected for ternary-? operator'')
              else bindE (tok_next st) (\<lambda>st.
                bindE (parse f st) (\<lambda>(rhs, st).
                  parse_rhs f (E_TOP lhs if_t rhs) priority st)))
          else
            bindE (parse_primary f st) (\<lambda>(rhs, st).
            bindE (PRECEDENCE (tok_cur st)) (\<lambda>next_pri.
            bindE (if next_pri < this_pri then parse_rhs f rhs next_pri st else Inr (rhs, st))
              (\<lambda>(rhs, st). parse_rhs f (E_OP op lhs rhs) priority st))))))"
| "parse 0 st = Inl Out_of_fuel"
| "parse (Suc f) st = bindE (parse_primary f st) (\<lambda>(e, st). parse_rhs f e MAX_PRI st)"

definition parse_fuel :: "string \<Rightarrow> nat" where
  "parse_fuel str = 4 * length str + 4"

definition expr_parse :: "string \<Rightarrow> cexpr outcome" where
  "expr_parse str =
     bindE (tok_next (tok_begin str)) (\<lambda>st.
     bindE (parse (parse_fuel str) st) (\<lambda>(e, st).
       if tok_cur st \<noteq> tok_eof then Inl (Died ''at end of expression'') else Inr e))"

section \<open>Evaluation\<close>

text \<open>
  The operators of C on \<^verbatim>\<open>long\<close>: undefined when the result does not fit, when a shift count
  is out of range, and on a left shift of a negative number.
\<close>

definition c_long :: "int \<Rightarrow> int outcome" where
  "c_long x = (if - (2 ^ 63) \<le> x \<and> x < 2 ^ 63 then Inr x else Inl (Undefined ''signed overflow''))"

definition c_shiftl :: "int \<Rightarrow> int \<Rightarrow> int outcome" where
  "c_shiftl a b =
     (if 0 \<le> b \<and> b < 64 \<and> 0 \<le> a then c_long (a * 2 ^ nat b) else Inl (Undefined ''shift''))"

definition c_shiftr :: "int \<Rightarrow> int \<Rightarrow> int outcome" where
  "c_shiftr a b = (if 0 \<le> b \<and> b < 64 then Inr (a div 2 ^ nat b) else Inl (Undefined ''shift''))"

definition eval_uop :: "int \<Rightarrow> int \<Rightarrow> int outcome" where
  "eval_uop op n =
     (if op = tok_minus then c_long (- n)
      else if op = tok_not then Inr (of_bool (n = 0))
      else if op = tok_bnot then Inr (- n - 1)
      else Inl (Ice ''bad op''))"

definition eval_op :: "int \<Rightarrow> int \<Rightarrow> int \<Rightarrow> int outcome" where
  "eval_op op a b =
     (if (op = tok_modulus \<or> op = tok_divide) \<and> b = 0 then
        Inl (Died (if op = tok_divide then ''division by zero'' else ''modulo by zero''))
      else if op = tok_divide then c_long (a sdiv b)
      else if op = tok_modulus then bindE (c_long (a sdiv b)) (\<lambda>_. Inr (a smod b))
      else if op = tok_multiply then c_long (a * b)
      else if op = tok_plus then c_long (a + b)
      else if op = tok_minus then c_long (a - b)
      else if op = tok_xor then Inr (a XOR b)
      else if op = tok_or then Inr (a OR b)
      else if op = tok_and then Inr (a AND b)
      else if op = tok_orsc then Inr (of_bool (a \<noteq> 0 \<or> b \<noteq> 0))
      else if op = tok_andsc then Inr (of_bool (a \<noteq> 0 \<and> b \<noteq> 0))
      else if op = tok_shiftl then c_shiftl a b
      else if op = tok_shiftr then c_shiftr a b
      else if op = tok_eq then Inr (of_bool (a = b))
      else if op = tok_ne then Inr (of_bool (a \<noteq> b))
      else if op = tok_le then Inr (of_bool (a \<le> b))
      else if op = tok_lt then Inr (of_bool (a < b))
      else if op = tok_ge then Inr (of_bool (a \<ge> b))
      else if op = tok_gt then Inr (of_bool (a > b))
      else Inl (Ice ''bad op''))"

text \<open>The result of \<open>expr_eval\<close> is the value and \<^verbatim>\<open>*had_ident\<close>.\<close>

fun expr_eval :: "cexpr \<Rightarrow> bool \<Rightarrow> bool \<Rightarrow> (int \<times> bool) outcome" where
  "expr_eval E_IDENT had_ident noop = Inr (0, True)"
| "expr_eval (E_NUM n) had_ident noop = Inr (n, had_ident)"
| "expr_eval (E_UOP op e) had_ident noop =
     bindE (expr_eval e had_ident noop) (\<lambda>(n, had_ident).
       if noop then Inr (0, had_ident) else bindE (eval_uop op n) (\<lambda>v. Inr (v, had_ident)))"
| "expr_eval (E_OP op lhs rhs) had_ident noop =
     bindE (expr_eval lhs had_ident noop) (\<lambda>(a, had_ident).
     let skip_rhs = (op = tok_andsc \<and> a = 0 \<or> op = tok_orsc \<and> a \<noteq> 0) in
     bindE (expr_eval rhs had_ident skip_rhs) (\<lambda>(b, had_ident).
       if noop then Inr (0, had_ident) else bindE (eval_op op a b) (\<lambda>v. Inr (v, had_ident))))"
| "expr_eval (E_TOP e t f) had_ident noop =
     bindE (expr_eval e had_ident noop) (\<lambda>(a, had_ident).
     bindE (expr_eval t had_ident (a = 0)) (\<lambda>(b, had_ident).
     bindE (expr_eval f had_ident (a \<noteq> 0)) (\<lambda>(c, had_ident).
       Inr (if a \<noteq> 0 then b else c, had_ident))))"

section \<open>The fuel is enough\<close>

text \<open>Every token read makes the rest of the input shorter, or reads the end.\<close>

definition weight :: "tokst \<Rightarrow> nat" where
  "weight st = 2 * length (tok_pos st) + (if tok_cur st \<noteq> tok_eof then 1 else 0)"

lemma escape_loop_length:
  "escape_loop lim w i st = Inr (st', j) \<Longrightarrow> length j \<le> length i"
proof (induction lim w i st arbitrary: st' j rule: escape_loop.induct)
  case (1 lim w i st)
  consider "length i = length lim \<or> i = []"
    | "\<not> (length i = length lim \<or> i = [])" "hd i = CHR 0x5C" "length (tl i) = length lim"
    | "\<not> (length i = length lim \<or> i = [])" "hd i = CHR 0x5C" "length (tl i) \<noteq> length lim"
    | "\<not> (length i = length lim \<or> i = [])" "hd i \<noteq> CHR 0x5C" by blast
  then show ?case
  proof cases
    case 3
    obtain this escfin warn err where e: "escape_char_1 (tl i) w (es_warn st) (es_err st) =
        Inr (this, escfin, warn, err)"
      using "1.prems" 3 by (subst (asm) escape_loop.simps) (auto elim!: bindE_InrE)
    obtain ret warn' where a: "escape_accum w (es_ret st) this warn = (ret, warn')" by fastforce
    let ?st = "\<lparr>es_ret = ret, es_n = es_n st + 1, es_warn = warn', es_err = err\<rparr>"
    have "escape_loop lim w escfin ?st = Inr (st', j)"
      using "1.prems" 3 e a by (subst (asm) escape_loop.simps) simp
    from "1.IH"(1) [OF 3(1,2) refl 3(3) e refl refl refl a [symmetric] this]
    show ?thesis using escape_char_1_length [OF e] by simp
  next
    case 4
    obtain ret warn' where a: "escape_accum w (es_ret st) (char_sval (hd i)) (es_warn st) = (ret, warn')"
      by fastforce
    have "escape_loop lim w (tl i) (st\<lparr>es_ret := ret, es_n := es_n st + 1, es_warn := warn'\<rparr>) = Inr (st', j)"
      using "1.prems" 4 a by (subst (asm) escape_loop.simps) simp
    from "1.IH"(2) [OF 4(1,2) a [symmetric] this] show ?thesis by simp
  qed (use "1.prems" in \<open>subst (asm) escape_loop.simps; auto\<close>)+
qed

lemma escape_char_length:
  "escape_char s lim w wa er = Inr (v, fin, m, wa', er') \<Longrightarrow> length fin \<le> length s"
  by (auto simp: escape_char_def split: option.splits if_splits elim!: bindE_InrE
      dest!: escape_loop_length)

lemma str_quotefin2_total: "str_quotefin2 s q \<noteq> Inl Out_of_fuel"
  by (induction s q rule: str_quotefin2.induct) (auto split: list.split)

lemma escape_char_1_total: "escape_char_1 s w wa er \<noteq> Inl Out_of_fuel"
  by (auto simp: escape_char_1_def Let_def split: list.splits prod.splits)

lemma escape_loop_total: "escape_loop lim w i st \<noteq> Inl Out_of_fuel"
proof (induction lim w i st rule: escape_loop.induct)
  case (1 lim w i st)
  show ?case
  proof
    assume a: "escape_loop lim w i st = Inl Out_of_fuel"
    then have ne: "\<not> (length i = length lim \<or> i = [])"
      by (subst (asm) escape_loop.simps) (auto split: if_splits)
    show False
    proof (cases "hd i = CHR 0x5C")
      case True
      with a ne have nl: "length (tl i) \<noteq> length lim"
        by (subst (asm) escape_loop.simps) auto
      with a ne True escape_char_1_total obtain this escfin warn err where
        e: "escape_char_1 (tl i) w (es_warn st) (es_err st) = Inr (this, escfin, warn, err)"
        by (subst (asm) escape_loop.simps) (auto simp: bindE_eq_Inl)
      obtain ret warn' where "escape_accum w (es_ret st) this warn = (ret, warn')" by fastforce
      with a ne True nl e "1.IH"(1) [OF ne True refl nl e refl refl refl this [symmetric]] show False
        by (subst (asm) escape_loop.simps) simp
    next
      case False
      obtain ret warn' where "escape_accum w (es_ret st) (char_sval (hd i)) (es_warn st) = (ret, warn')"
        by fastforce
      with a ne False "1.IH"(2) [OF ne False this [symmetric]] show False
        by (subst (asm) escape_loop.simps) simp
    qed
  qed
qed

lemma tok_char_literal_ok:
  "tok_char_literal wide s \<noteq> Inl Out_of_fuel"
  "tok_char_literal wide s = Inr st' \<Longrightarrow> length (tok_pos st') \<le> length s"
proof -
  show "tok_char_literal wide s \<noteq> Inl Out_of_fuel"
    using str_quotefin2_total escape_loop_total
    by (auto simp: tok_char_literal_def char_quotefin_def escape_char_def bindE_eq_Inl
        split: option.splits if_splits list.splits)
  assume "tok_char_literal wide s = Inr st'"
  then obtain lim v fin m warn err where "escape_char s lim wide E_none E_none = Inr (v, fin, m, warn, err)"
    "fin \<noteq> []" "tok_pos st' = tl fin"
    by (fastforce simp: tok_char_literal_def elim!: bindE_InrE split: if_splits list.splits)
  then show "length (tok_pos st') \<le> length s" by (auto dest: escape_char_length)
qed

lemma strtol0_length: "strtol0 (c # r) = (n, ep) \<Longrightarrow> isdigit c \<Longrightarrow> length ep \<le> length r"
proof -
  assume s: "strtol0 (c # r) = (n, ep)" and c: "isdigit c"
  have o: "c = CHR ''0'' \<Longrightarrow> isodigit c" by (simp add: isodigit_def char_code_def)
  show ?thesis
    using s c o length_dropWhile_le [of isxdigit "tl r"]
    by (cases r; cases "tl r")
      (auto simp: strtol0_def intro: le_SucI length_dropWhile_le split: if_splits)
qed

lemma double_op_length: "double_op c r = (cur, r') \<Longrightarrow> length r' \<le> length r"
  by (auto simp: double_op_def split: list.splits if_splits)

lemma tok_next_total: "tok_next st \<noteq> Inl Out_of_fuel"
  by (auto simp: tok_next_def Let_def tok_char_literal_ok split: list.splits prod.splits)

lemma tok_next_length:
  assumes t: "tok_next st = Inr st'" and ne: "tok_pos st \<noteq> []"
  shows "length (tok_pos st') < length (tok_pos st) \<or>
    tok_cur st' = 0 \<and> length (tok_pos st') \<le> length (tok_pos st)"
proof (cases "str_spc_skip (tok_pos st)")
  case Nil
  then show ?thesis using assms by (auto simp: tok_next_def)
next
  case p: (Cons c r)
  have le: "length (c # r) \<le> length (tok_pos st)"
    using p length_dropWhile_le [of isspace "tok_pos st"] by (simp add: str_spc_skip_def)
  consider (num) "isdigit c" | (chr) "\<not> isdigit c" "c = CHR 0x27"
    | (wide) "\<not> isdigit c" "c = CHR ''L''" "r \<noteq> []" "hd r = CHR 0x27"
    | (ident) "\<not> isdigit c" "c \<noteq> CHR 0x27" "\<not> (c = CHR ''L'' \<and> r \<noteq> [] \<and> hd r = CHR 0x27)"
        "isalpha c \<or> c = CHR ''_''"
    | (nul) "\<not> isdigit c" "c \<noteq> CHR 0x27" "\<not> (c = CHR ''L'' \<and> r \<noteq> [] \<and> hd r = CHR 0x27)"
        "\<not> (isalpha c \<or> c = CHR ''_'')" "char_sval c = 0"
    | (other) "\<not> isdigit c" "c \<noteq> CHR 0x27" "\<not> (c = CHR ''L'' \<and> r \<noteq> [] \<and> hd r = CHR 0x27)"
        "\<not> (isalpha c \<or> c = CHR ''_'')" "char_sval c \<noteq> 0" by blast
  then show ?thesis
  proof cases
    case num
    obtain n ep where s: "strtol0 (c # r) = (n, ep)" by fastforce
    have "length (dropWhile (\<lambda>d. d = CHR ''L'' \<or> d = CHR ''U'') ep) \<le> length r"
      using strtol0_length [OF s num] length_dropWhile_le [of _ ep] order_trans by blast
    then show ?thesis using t ne p num s le by (auto simp: tok_next_def Let_def)
  next
    case chr
    then have "tok_char_literal False r = Inr st'" using t ne p by (simp add: tok_next_def)
    then show ?thesis using tok_char_literal_ok(2) le by fastforce
  next
    case wide
    then have "tok_char_literal True (tl r) = Inr st'" using t ne p by (simp add: tok_next_def)
    then show ?thesis using tok_char_literal_ok(2) [of True "tl r" st'] le by auto
  next
    case ident
    then have "word_end (c # r) = dropWhile iswordpart r"
      by (auto simp: word_end_def iswordpart_def isalnum_def)
    then show ?thesis using t ne p ident le length_dropWhile_le [of iswordpart r]
      by (auto simp: tok_next_def)
  next
    case nul
    then show ?thesis using t ne p le by (auto simp: tok_next_def)
  next
    case other
    obtain cur r' where d: "double_op (char_sval c) r = (cur, r')" by fastforce
    have "st' = st\<lparr>tok_pos := r', tok_cur := cur\<rparr>"
      using t ne p other(1-4) d by (auto simp: tok_next_def other(5))
    then show ?thesis using double_op_length [OF d] le by auto
  qed
qed

lemma tok_next_weight:
  assumes "tok_next st = Inr st'" and "tok_cur st \<noteq> 0"
  shows "weight st' < weight st"
proof (cases "tok_pos st = []")
  case True
  then show ?thesis using assms by (auto simp: tok_next_def weight_def)
next
  case False
  then show ?thesis using tok_next_length [OF assms(1) False] assms(2) by (auto simp: weight_def)
qed

lemma is_op_nonzero: "is_op c \<Longrightarrow> c \<noteq> 0"
  by (auto simp: is_op_def)

lemma not_is_op_eof [simp]: "\<not> is_op 0"
  by (simp add: is_op_def)

lemma PRECEDENCE_total: "PRECEDENCE x \<noteq> Inl Out_of_fuel"
  by (simp add: PRECEDENCE_def Let_def)

text \<open>
  A call with fuel at least twice the weight of the input (plus one, two for \<open>parse\<close>) does
  not run out, and a successful call has consumed input.
\<close>

definition fuel_ok :: "nat \<Rightarrow> (cexpr \<times> tokst) outcome \<Rightarrow> bool" where
  "fuel_ok w m \<longleftrightarrow> m \<noteq> Inl Out_of_fuel \<and> (\<forall>e st. m = Inr (e, st) \<longrightarrow> weight st \<le> w)"

lemma fuel_ok_bind:
  assumes "m \<noteq> Inl Out_of_fuel" and "\<And>x. m = Inr x \<Longrightarrow> fuel_ok w (g x)"
  shows "fuel_ok w (bindE m g)"
  using assms by (cases m) (auto simp: fuel_ok_def)

lemma fuel_ok_seq:
  assumes "fuel_ok v m" and "\<And>e st. m = Inr (e, st) \<Longrightarrow> weight st \<le> v \<Longrightarrow> fuel_ok w (g (e, st))"
  shows "fuel_ok w (bindE m g)"
  using assms by (cases m) (auto simp: fuel_ok_def)

lemma fuel_ok_Inr [simp]: "fuel_ok w (Inr (e, st)) \<longleftrightarrow> weight st \<le> w"
  by (simp add: fuel_ok_def)

lemma fuel_ok_Inl [simp]: "fuel_ok w (Inl x) \<longleftrightarrow> x \<noteq> Out_of_fuel"
  by (simp add: fuel_ok_def)

lemma fuel_ok_mono: "fuel_ok v m \<Longrightarrow> v \<le> w \<Longrightarrow> fuel_ok w m"
  by (auto simp: fuel_ok_def)

lemma fuel_ok_tok:
  assumes "tok_cur st \<noteq> 0" and "\<And>st'. weight st' < weight st \<Longrightarrow> fuel_ok w (g st')"
  shows "fuel_ok w (bindE (tok_next st) g)"
  using assms by (intro fuel_ok_bind) (auto simp: tok_next_total dest: tok_next_weight)

lemma parse_fuel_ok:
  "2 * weight st + 1 \<le> f \<Longrightarrow> fuel_ok (weight st - 1) (parse_primary f st)"
  "2 * weight st + 1 \<le> f \<Longrightarrow> fuel_ok (weight st) (parse_rhs f lhs pri st)"
  "2 * weight st + 2 \<le> f \<Longrightarrow> fuel_ok (weight st - 1) (parse f st)"
proof (induction f arbitrary: st lhs pri)
  case 0
  { case 1 then show ?case by simp }
  { case 2 then show ?case by simp }
  { case 3 then show ?case by simp }
next
  case (Suc f)
  note P = Suc.IH(1) and R = Suc.IH(2) and E = Suc.IH(3)
  { case 1
    show ?case unfolding parse_primary.simps Let_def
      using 1 by (auto simp: split_beta intro!: fuel_ok_tok fuel_ok_seq [OF P] fuel_ok_seq [OF E])
  }
  { case 2
    show ?case unfolding parse_rhs.simps Let_def
      using 2 by (auto simp: split_beta PRECEDENCE_total is_op_nonzero
          intro!: fuel_ok_tok fuel_ok_bind [of "PRECEDENCE _"] fuel_ok_seq [OF P] fuel_ok_seq [OF E]
            fuel_ok_seq [OF R] fuel_ok_mono [OF R]) linarith+
  }
  { case 3
    show ?case unfolding parse.simps
      using 3 by (auto simp: split_beta intro!: fuel_ok_seq [OF P] fuel_ok_mono [OF R])
  }
qed

lemma expr_parse_total: "expr_parse str \<noteq> Inl Out_of_fuel"
proof -
  have "fuel_ok (weight st - 1) (parse (parse_fuel str) st)" if "tok_next (tok_begin str) = Inr st" for st
  proof -
    have "length (tok_pos st) \<le> length str"
    proof (cases "str = []")
      case True
      then show ?thesis using that by (auto simp: tok_next_def tok_begin_def)
    next
      case False
      then show ?thesis using tok_next_length [OF that] by (auto simp: tok_begin_def)
    qed
    then show ?thesis by (intro parse_fuel_ok(3)) (simp add: weight_def parse_fuel_def)
  qed
  then show ?thesis
    by (auto simp: expr_parse_def bindE_eq_Inl fuel_ok_def tok_next_total split: if_splits)
qed

section \<open>Evaluation against the semantics of C\<close>

text \<open>
  The value C gives a controlling expression: identifiers are 0, the right operand of
  \<^verbatim>\<open>&&\<close> and \<^verbatim>\<open>||\<close> and the branches of \<^verbatim>\<open>?:\<close> are evaluated only when they are selected.
\<close>

fun csem :: "cexpr \<Rightarrow> int outcome" where
  "csem E_IDENT = Inr 0"
| "csem (E_NUM n) = Inr n"
| "csem (E_UOP op e) = bindE (csem e) (eval_uop op)"
| "csem (E_OP op l r) =
     bindE (csem l) (\<lambda>a.
       if op = tok_andsc \<and> a = 0 then Inr 0
       else if op = tok_orsc \<and> a \<noteq> 0 then Inr 1
       else bindE (csem r) (eval_op op a))"
| "csem (E_TOP e t f) = bindE (csem e) (\<lambda>a. if a \<noteq> 0 then csem t else csem f)"

fun has_ident :: "cexpr \<Rightarrow> bool" where
  "has_ident E_IDENT = True"
| "has_ident (E_NUM n) = False"
| "has_ident (E_UOP op e) = has_ident e"
| "has_ident (E_OP op l r) = (has_ident l \<or> has_ident r)"
| "has_ident (E_TOP e t f) = (has_ident e \<or> has_ident t \<or> has_ident f)"

text \<open>Every subexpression has a value, also the ones C would not evaluate.\<close>

fun evaluable :: "cexpr \<Rightarrow> bool" where
  "evaluable E_IDENT = True"
| "evaluable (E_NUM n) = True"
| "evaluable (E_UOP op e) = (evaluable e \<and> \<not> isl (csem (E_UOP op e)))"
| "evaluable (E_OP op l r) = (evaluable l \<and> evaluable r \<and> \<not> isl (csem (E_OP op l r)))"
| "evaluable (E_TOP e t f) = (evaluable e \<and> evaluable t \<and> evaluable f)"

lemma evaluable_csem: "evaluable e \<Longrightarrow> \<exists>v. csem e = Inr v"
proof (induction e)
  case (E_OP op l r)
  then show ?case by (cases "csem (E_OP op l r)") auto
next
  case (E_UOP op e)
  then show ?case by (cases "csem (E_UOP op e)") auto
qed auto

lemma eval_op_sc: "eval_op tok_andsc 0 b = Inr 0" "a \<noteq> 0 \<Longrightarrow> eval_op tok_orsc a b = Inr 1"
  by (simp_all add: eval_op_def)

lemma eval_spec:
  assumes "evaluable e"
  shows "\<exists>v. expr_eval e h noop = Inr (v, h \<or> has_ident e) \<and> (\<not> noop \<longrightarrow> csem e = Inr v)"
  using assms
proof (induction e arbitrary: h noop)
  case (E_UOP op e)
  then have "evaluable e" by simp
  from E_UOP.IH [OF this, of h noop] obtain v where
    v: "expr_eval e h noop = Inr (v, h \<or> has_ident e)" "\<not> noop \<longrightarrow> csem e = Inr v" by blast
  then show ?case using evaluable_csem [OF E_UOP.prems]
    by (cases noop) (auto simp: bindE_eq_Inr)
next
  case (E_OP op l r)
  then have ev: "evaluable l" "evaluable r" by simp_all
  from E_OP.IH(1) [OF ev(1), of h noop] obtain a where
    a: "expr_eval l h noop = Inr (a, h \<or> has_ident l)" "\<not> noop \<longrightarrow> csem l = Inr a" by blast
  let ?skip = "op = tok_andsc \<and> a = 0 \<or> op = tok_orsc \<and> a \<noteq> 0"
  obtain b where b: "expr_eval r (h \<or> has_ident l) ?skip = Inr (b, (h \<or> has_ident l) \<or> has_ident r)"
    "\<not> ?skip \<longrightarrow> csem r = Inr b"
    using E_OP.IH(2) [OF ev(2), of "h \<or> has_ident l" ?skip] by blast
  obtain v where v: "csem (E_OP op l r) = Inr v" using evaluable_csem [OF E_OP.prems] by blast
  show ?case
  proof (cases noop)
    case True
    then show ?thesis using a b by (auto simp: Let_def)
  next
    case False
    have "eval_op op a b = Inr v"
    proof (cases ?skip)
      case True
      then show ?thesis using a(2) v False eval_op_sc by (auto split: if_splits)
    next
      case ns: False
      then show ?thesis using a(2) b(2) v False by (auto split: if_splits)
    qed
    then show ?thesis using a b v False by (simp add: Let_def disj_assoc)
  qed
next
  case (E_TOP e t f)
  then have ev: "evaluable e" "evaluable t" "evaluable f" by simp_all
  from E_TOP.IH(1) [OF ev(1), of h noop] obtain a where
    a: "expr_eval e h noop = Inr (a, h \<or> has_ident e)" "\<not> noop \<longrightarrow> csem e = Inr a" by blast
  obtain b where b: "expr_eval t (h \<or> has_ident e) (a = 0) = Inr (b, (h \<or> has_ident e) \<or> has_ident t)"
    "a \<noteq> 0 \<longrightarrow> csem t = Inr b"
    using E_TOP.IH(2) [OF ev(2), of "h \<or> has_ident e" "a = 0"] by blast
  obtain c where c: "expr_eval f ((h \<or> has_ident e) \<or> has_ident t) (a \<noteq> 0) =
      Inr (c, ((h \<or> has_ident e) \<or> has_ident t) \<or> has_ident f)" "a = 0 \<longrightarrow> csem f = Inr c"
    using E_TOP.IH(3) [OF ev(3), of "(h \<or> has_ident e) \<or> has_ident t" "a \<noteq> 0"] by blast
  show ?case using a b c by (simp add: disj_assoc)
qed auto

section \<open>Reading back a printed expression\<close>

text \<open>The binary operators with their spelling.\<close>

definition bin_texts :: "(int \<times> string) list" where
  "bin_texts =
     [(tok_multiply, ''*''), (tok_divide, ''/''), (tok_modulus, ''%''), (tok_plus, ''+''),
      (tok_minus, ''-''), (tok_xor, ''^''), (tok_or, ''|''), (tok_and, ''&''), (tok_orsc, ''||''),
      (tok_andsc, ''&&''), (tok_shiftl, ''<<''), (tok_shiftr, ''>>''), (tok_eq, ''==''),
      (tok_ne, ''!=''), (tok_le, ''<=''), (tok_lt, ''<''), (tok_ge, ''>=''), (tok_gt, ''>'')]"

definition un_texts :: "(int \<times> string) list" where
  "un_texts = [(tok_not, ''!''), (tok_bnot, ''~''), (tok_minus, ''-'')]"

fun dec_digits :: "nat \<Rightarrow> string" where
  "dec_digits n = (if n < 10 then [char_of (48 + n)] else dec_digits (n div 10) @ [char_of (48 + n mod 10)])"

declare dec_digits.simps [simp del]

fun show_expr :: "cexpr \<Rightarrow> string" where
  "show_expr E_IDENT = ''a ''"
| "show_expr (E_NUM n) = dec_digits (nat n) @ '' ''"
| "show_expr (E_UOP op e) = the (map_of un_texts op) @ '' '' @ show_expr e"
| "show_expr (E_OP op l r) =
     ''( '' @ show_expr l @ the (map_of bin_texts op) @ '' '' @ show_expr r @ '') ''"
| "show_expr (E_TOP e t f) =
     ''( '' @ show_expr e @ ''? '' @ show_expr t @ '': '' @ show_expr f @ '') ''"

fun printable :: "cexpr \<Rightarrow> bool" where
  "printable E_IDENT = True"
| "printable (E_NUM n) = (0 \<le> n \<and> n < 2 ^ 63)"
| "printable (E_UOP op e) = (op \<in> fst ` set un_texts \<and> printable e)"
| "printable (E_OP op l r) = (op \<in> fst ` set bin_texts \<and> printable l \<and> printable r)"
| "printable (E_TOP e t f) = (printable e \<and> printable t \<and> printable f)"

definition reads :: "string \<Rightarrow> int \<Rightarrow> tokst outcome" where
  "reads s n = tok_next \<lparr>tok_pos = s, tok_cur = 0, tok_cur_num = n\<rparr>"

lemma tok_next_reads: "tok_next \<lparr>tok_pos = s, tok_cur = c, tok_cur_num = n\<rparr> = reads s n"
  by (simp add: reads_def tok_next_def Let_def split: list.split prod.split)

lemma isspace_blank: "isspace (CHR '' '')"
  by (simp add: isspace_def char_code_def)

lemma spc_skip_Nil: "str_spc_skip [] = []"
  by (simp add: str_spc_skip_def)

lemma reads_blank: "reads (CHR '' '' # s) n = reads s n"
proof -
  have "str_spc_skip (CHR '' '' # s) = str_spc_skip s" by (simp add: str_spc_skip_def isspace_blank)
  then show ?thesis
    by (cases "s = []"; cases "str_spc_skip s")
      (simp_all add: reads_def tok_next_def Let_def spc_skip_Nil split: prod.split)
qed

lemmas char_evals = isspace_def isdigit_def isalpha_def isupper_def islower_def char_code_def
  char_sval_def double_op_def

lemma reads_bin:
  "op \<in> fst ` set bin_texts \<Longrightarrow>
   reads (the (map_of bin_texts op) @ CHR '' '' # s) n =
     Inr \<lparr>tok_pos = CHR '' '' # s, tok_cur = op, tok_cur_num = n\<rparr>"
  by (auto simp: bin_texts_def reads_def tok_next_def str_spc_skip_def char_evals)

lemma reads_un:
  "op \<in> fst ` set un_texts \<Longrightarrow>
   reads (the (map_of un_texts op) @ CHR '' '' # s) n =
     Inr \<lparr>tok_pos = CHR '' '' # s, tok_cur = op, tok_cur_num = n\<rparr>"
  by (auto simp: un_texts_def reads_def tok_next_def str_spc_skip_def char_evals)

lemma reads_punct:
  "reads (CHR ''('' # CHR '' '' # s) n = Inr \<lparr>tok_pos = CHR '' '' # s, tok_cur = tok_lparen, tok_cur_num = n\<rparr>"
  "reads (CHR '')'' # CHR '' '' # s) n = Inr \<lparr>tok_pos = CHR '' '' # s, tok_cur = tok_rparen, tok_cur_num = n\<rparr>"
  "reads (CHR ''?'' # CHR '' '' # s) n = Inr \<lparr>tok_pos = CHR '' '' # s, tok_cur = tok_question, tok_cur_num = n\<rparr>"
  "reads (CHR '':'' # CHR '' '' # s) n = Inr \<lparr>tok_pos = CHR '' '' # s, tok_cur = tok_colon, tok_cur_num = n\<rparr>"
  "reads (CHR ''a'' # CHR '' '' # s) n = Inr \<lparr>tok_pos = CHR '' '' # s, tok_cur = tok_ident, tok_cur_num = n\<rparr>"
  "reads [] n = Inr \<lparr>tok_pos = [], tok_cur = 0, tok_cur_num = n\<rparr>"
  by (simp_all add: reads_def tok_next_def str_spc_skip_def char_evals word_end_def iswordpart_def
      isalnum_def)

lemma dec_char: "k < 10 \<Longrightarrow> isdigit (char_of (48 + k)) \<and> digit_val (char_of (48 + k)) = k"
  by (simp add: isdigit_def char_code_def digit_val_def)

lemma dec_digits_props:
  "list_all isdigit (dec_digits n) \<and> dec_digits n \<noteq> [] \<and> digits_value 10 0 (dec_digits n) = n
   \<and> (n \<noteq> 0 \<longrightarrow> hd (dec_digits n) \<noteq> CHR ''0'')"
proof (induction n rule: dec_digits.induct)
  case (1 n)
  show ?case
  proof (cases "n < 10")
    case True
    moreover have "char_of (48 + n) \<noteq> CHR ''0''" if "n \<noteq> 0"
      using dec_char [OF True] that by (auto simp: digit_val_def isdigit_def char_code_def)
    ultimately show ?thesis using dec_char [OF True]
      by (subst (1 2 3 4) dec_digits.simps) (simp add: digits_value_def)
  next
    case False
    have d: "isdigit (char_of (48 + n mod 10))" "digit_val (char_of (48 + n mod 10)) = n mod 10"
      using dec_char [of "n mod 10"] by simp_all
    have n0: "n div 10 \<noteq> 0" using False by simp
    have "dec_digits n = dec_digits (n div 10) @ [char_of (48 + n mod 10)]"
      using False by (subst dec_digits.simps) simp
    then show ?thesis using "1.IH" [OF False] n0 d by (simp add: digits_value_def)
  qed
qed

lemma strtol0_decimal:
  "s \<noteq> [] \<Longrightarrow> hd s \<noteq> CHR ''0'' \<Longrightarrow>
   strtol0 s = (min (int (digits_value 10 0 (takeWhile isdigit s))) (2 ^ 63 - 1), dropWhile isdigit s)"
  by (cases s; cases "tl s"; cases "tl (tl s)") (auto simp: strtol0_def)

lemma strtol0_dec:
  assumes "int n < 2 ^ 63"
  shows "strtol0 (dec_digits n @ CHR '' '' # s) = (int n, CHR '' '' # s)"
proof (cases "n = 0")
  case True
  then show ?thesis
    by (cases s) (simp_all add: dec_digits.simps strtol0_def isodigit_def char_code_def digits_value_def
        digit_val_def isdigit_def)
next
  case False
  have sp: "\<not> isdigit (CHR '' '')" by (simp add: isdigit_def char_code_def)
  have "\<forall>x \<in> set (dec_digits n). isdigit x" using dec_digits_props [of n] by (simp add: list_all_iff)
  then have "takeWhile isdigit (dec_digits n @ CHR '' '' # s) = dec_digits n"
    "dropWhile isdigit (dec_digits n @ CHR '' '' # s) = CHR '' '' # s"
    using sp by (simp_all add: takeWhile_append2 dropWhile_append2)
  then show ?thesis using strtol0_decimal [of "dec_digits n @ CHR '' '' # s"] dec_digits_props [of n]
      False assms by simp
qed

lemma reads_num:
  assumes "0 \<le> k" and "k < 2 ^ 63"
  shows "reads (dec_digits (nat k) @ CHR '' '' # s) n =
    Inr \<lparr>tok_pos = CHR '' '' # s, tok_cur = tok_num, tok_cur_num = k\<rparr>"
proof -
  obtain c r where cr: "dec_digits (nat k) = c # r" using dec_digits_props by (meson neq_Nil_conv)
  then have "isdigit c" using dec_digits_props [of "nat k"] by simp
  moreover from this have "\<not> isspace c" by (auto simp: isdigit_def isspace_def)
  ultimately show ?thesis using strtol0_dec [of "nat k" s] assms cr
    by (simp add: reads_def tok_next_def str_spc_skip_def)
qed

text \<open>What may follow a subexpression: a text whose first token leaves \<^verbatim>\<open>tok_cur_num\<close> alone.\<close>

definition follows :: "string \<Rightarrow> bool" where
  "follows s \<longleftrightarrow> (\<forall>n st. reads s n = Inr st \<longrightarrow> tok_cur_num st = n)"

fun nodes :: "cexpr \<Rightarrow> nat" where
  "nodes E_IDENT = 1"
| "nodes (E_NUM n) = 1"
| "nodes (E_UOP op e) = 1 + nodes e"
| "nodes (E_OP op l r) = 1 + nodes l + nodes r"
| "nodes (E_TOP e t f) = 1 + nodes e + nodes t + nodes f"

lemma bin_op_facts:
  assumes "op \<in> fst ` set bin_texts"
  shows "is_op op" and "op \<noteq> tok_question" and "\<exists>p \<le> 10. PRECEDENCE op = Inr p"
  using assms by (auto simp: bin_texts_def is_op_def PRECEDENCE_def MIN_OP_def preds_def)

lemma closing_facts:
  "PRECEDENCE tok_rparen = Inr 20" "\<not> is_op tok_rparen" "\<not> is_op tok_colon" "is_op tok_question"
  "PRECEDENCE tok_question = Inr 11" "MAX_PRI = 20"
  by (simp_all add: PRECEDENCE_def MIN_OP_def preds_def MAX_PRI_def is_op_def)

lemma parse_rhs_stop:
  "\<not> is_op (tok_cur st) \<Longrightarrow> 0 < f \<Longrightarrow> parse_rhs f e pri st = Inr (e, st)"
  by (cases f) simp_all

lemma parse_of_primary:
  assumes "1 < f" and "parse_primary (f - 1) st = Inr (e, st')" and "\<not> is_op (tok_cur st')"
  shows "parse f st = Inr (e, st')"
  using assms by (cases f) (auto simp: parse_rhs_stop)

definition parses :: "cexpr \<Rightarrow> bool" where
  "parses e \<longleftrightarrow> (\<forall>f s n. 5 * nodes e \<le> f \<longrightarrow> follows s \<longrightarrow>
     (\<exists>st n'. reads (show_expr e @ s) n = Inr st \<and>
        parse_primary f st = bindE (reads s n') (\<lambda>st'. Inr (e, st'))))"

lemma parsesE:
  assumes "parses e" and "5 * nodes e \<le> f" and "follows s"
  obtains st n' where "reads (show_expr e @ s) n = Inr st"
    and "parse_primary f st = bindE (reads s n') (\<lambda>st'. Inr (e, st'))"
  using assms unfolding parses_def by blast

lemma follows_texts:
  "op \<in> fst ` set bin_texts \<Longrightarrow> follows (the (map_of bin_texts op) @ CHR '' '' # s)"
  "follows (CHR '')'' # CHR '' '' # s)" "follows (CHR ''?'' # CHR '' '' # s)"
  "follows (CHR '':'' # CHR '' '' # s)" "follows []"
  by (auto simp: follows_def reads_bin reads_punct)

lemmas step_simps = reads_punct reads_bin reads_un reads_num tok_next_reads reads_blank

lemma parses_op:
  assumes l: "parses l" and r: "parses r" and op: "op \<in> fst ` set bin_texts"
  shows "parses (E_OP op l r)"
  unfolding parses_def
proof (intro allI impI)
  fix f s n
  assume f: "5 * nodes (E_OP op l r) \<le> f" and s: "follows s"
  let ?S2 = "CHR '')'' # CHR '' '' # s"
  let ?S1 = "the (map_of bin_texts op) @ CHR '' '' # show_expr r @ ?S2"
  obtain f2 where f2: "f = Suc (Suc (Suc f2))" "5 * nodes l \<le> Suc f2" "5 * nodes r \<le> f2" "0 < f2"
  proof -
    have "f = Suc (Suc (Suc (f - 3)))" using f by simp
    then show ?thesis using that [of "f - 3"] f by simp
  qed
  obtain st1 n1 where st1: "reads (show_expr l @ ?S1) n = Inr st1"
    "parse_primary (Suc f2) st1 = bindE (reads ?S1 n1) (\<lambda>st'. Inr (l, st'))"
    using l f2(2) follows_texts(1) [OF op] by (rule parsesE)
  obtain st3 n2 where st3: "reads (show_expr r @ ?S2) n1 = Inr st3"
    "parse_primary f2 st3 = bindE (reads ?S2 n2) (\<lambda>st'. Inr (r, st'))"
    using r f2(3) follows_texts(2) by (rule parsesE)
  obtain p where p: "PRECEDENCE op = Inr p" "p \<le> 10" using bin_op_facts(3) [OF op] by blast
  let ?st4 = "\<lparr>tok_pos = CHR '' '' # s, tok_cur = tok_rparen, tok_cur_num = n2\<rparr>"
  have rhs: "parse_rhs (Suc f2) l MAX_PRI \<lparr>tok_pos = CHR '' '' # show_expr r @ ?S2, tok_cur = op, tok_cur_num = n1\<rparr>
      = Inr (E_OP op l r, ?st4)"
    using p bin_op_facts(1,2) [OF op] st3 f2(4)
    by (simp add: step_simps closing_facts parse_rhs_stop)
  have "parse (Suc (Suc f2)) st1 = Inr (E_OP op l r, ?st4)"
    using st1(2) rhs by (simp add: step_simps op del: parse_rhs.simps parse_primary.simps)
  then have "parse_primary f \<lparr>tok_pos = CHR '' '' # show_expr l @ ?S1, tok_cur = tok_lparen, tok_cur_num = n\<rparr>
      = bindE (reads s n2) (\<lambda>st'. Inr (E_OP op l r, st'))"
    using st1(1) by (simp add: f2(1) step_simps del: parse.simps)
  then show "\<exists>st n'. reads (show_expr (E_OP op l r) @ s) n = Inr st \<and>
      parse_primary f st = bindE (reads s n') (\<lambda>st'. Inr (E_OP op l r, st'))"
    by (auto simp: step_simps)
qed

lemma parses_top:
  assumes a: "parses a" and b: "parses b" and c: "parses c"
  shows "parses (E_TOP a b c)"
  unfolding parses_def
proof (intro allI impI)
  fix f s n
  assume f: "5 * nodes (E_TOP a b c) \<le> f" and s: "follows s"
  let ?S3 = "CHR '')'' # CHR '' '' # s"
  let ?S2 = "CHR '':'' # CHR '' '' # show_expr c @ ?S3"
  let ?S1 = "CHR ''?'' # CHR '' '' # show_expr b @ ?S2"
  obtain f2 where f2: "f = Suc (Suc (Suc f2))" "5 * nodes a \<le> Suc f2" "5 * nodes b \<le> f2 - 1"
    "5 * nodes c \<le> f2 - 1" "1 < f2"
  proof -
    have "f = Suc (Suc (Suc (f - 3)))" using f by simp
    then show ?thesis using that [of "f - 3"] f by simp
  qed
  obtain st1 n1 where st1: "reads (show_expr a @ ?S1) n = Inr st1"
    "parse_primary (Suc f2) st1 = bindE (reads ?S1 n1) (\<lambda>st'. Inr (a, st'))"
    using a f2(2) follows_texts(3) by (rule parsesE)
  obtain st2 n2 where st2: "reads (show_expr b @ ?S2) n1 = Inr st2"
    "parse_primary (f2 - 1) st2 = bindE (reads ?S2 n2) (\<lambda>st'. Inr (b, st'))"
    using b f2(3) follows_texts(4) by (rule parsesE)
  obtain st3 n3 where st3: "reads (show_expr c @ ?S3) n2 = Inr st3"
    "parse_primary (f2 - 1) st3 = bindE (reads ?S3 n3) (\<lambda>st'. Inr (c, st'))"
    using c f2(4) follows_texts(2) by (rule parsesE)
  let ?st2 = "\<lparr>tok_pos = CHR '' '' # show_expr c @ ?S3, tok_cur = tok_colon, tok_cur_num = n2\<rparr>"
  let ?st4 = "\<lparr>tok_pos = CHR '' '' # s, tok_cur = tok_rparen, tok_cur_num = n3\<rparr>"
  have "parse f2 st2 = Inr (b, ?st2)" "parse f2 st3 = Inr (c, ?st4)"
    using st2(2) st3(2) f2(5) by (auto intro!: parse_of_primary simp: step_simps closing_facts)
  then have rhs: "parse_rhs (Suc f2) a MAX_PRI
      \<lparr>tok_pos = CHR '' '' # show_expr b @ ?S2, tok_cur = tok_question, tok_cur_num = n1\<rparr>
      = Inr (E_TOP a b c, ?st4)"
    using st2(1) st3(1) f2(5) by (simp add: step_simps closing_facts parse_rhs_stop)
  have "parse (Suc (Suc f2)) st1 = Inr (E_TOP a b c, ?st4)"
    using st1(2) rhs by (simp add: step_simps del: parse_rhs.simps parse_primary.simps)
  then have "parse_primary f \<lparr>tok_pos = CHR '' '' # show_expr a @ ?S1, tok_cur = tok_lparen, tok_cur_num = n\<rparr>
      = bindE (reads s n3) (\<lambda>st'. Inr (E_TOP a b c, st'))"
    using st1(1) by (simp add: f2(1) step_simps del: parse.simps)
  then show "\<exists>st n'. reads (show_expr (E_TOP a b c) @ s) n = Inr st \<and>
      parse_primary f st = bindE (reads s n') (\<lambda>st'. Inr (E_TOP a b c, st'))"
    by (auto simp: step_simps)
qed

lemma printable_parses: "printable e \<Longrightarrow> parses e"
proof (induction e)
  case E_IDENT
  show ?case unfolding parses_def
  proof (intro allI impI)
    fix f s n assume "5 * nodes E_IDENT \<le> f"
    then obtain f' where "f = Suc f'" by (cases f) auto
    then show "\<exists>st n'. reads (show_expr E_IDENT @ s) n = Inr st \<and>
        parse_primary f st = bindE (reads s n') (\<lambda>st'. Inr (E_IDENT, st'))"
      by (intro exI [of _ "\<lparr>tok_pos = CHR '' '' # s, tok_cur = tok_ident, tok_cur_num = n\<rparr>"] exI [of _ n])
        (simp add: step_simps)
  qed
next
  case (E_NUM k)
  show ?case unfolding parses_def
  proof (intro allI impI)
    fix f s n assume "5 * nodes (E_NUM k) \<le> f" and s: "follows s"
    then obtain f' where "f = Suc f'" by (cases f) auto
    moreover have "bindE (reads s k) (\<lambda>st'. Inr (E_NUM (tok_cur_num st'), st')) =
        bindE (reads s k) (\<lambda>st'. Inr (E_NUM k, st'))"
      using s by (cases "reads s k") (auto simp: follows_def)
    ultimately show "\<exists>st n'. reads (show_expr (E_NUM k) @ s) n = Inr st \<and>
        parse_primary f st = bindE (reads s n') (\<lambda>st'. Inr (E_NUM k, st'))"
      using E_NUM
      by (intro exI [of _ "\<lparr>tok_pos = CHR '' '' # s, tok_cur = tok_num, tok_cur_num = k\<rparr>"] exI [of _ k])
        (simp add: step_simps)
  qed
next
  case (E_UOP op e)
  then have e: "parses e" and op: "op \<in> fst ` set un_texts" by simp_all
  show ?case unfolding parses_def
  proof (intro allI impI)
    fix f s n assume f: "5 * nodes (E_UOP op e) \<le> f" and s: "follows s"
    then obtain f' where f': "f = Suc f'" "5 * nodes e \<le> f'" by (cases f) auto
    obtain st n' where st: "reads (show_expr e @ s) n = Inr st"
      "parse_primary f' st = bindE (reads s n') (\<lambda>st'. Inr (e, st'))"
      using e f'(2) s by (rule parsesE)
    have "op = tok_not \<or> op = tok_bnot \<or> op = tok_minus" using op by (auto simp: un_texts_def)
    then have "parse_primary f \<lparr>tok_pos = CHR '' '' # show_expr e @ s, tok_cur = op, tok_cur_num = n\<rparr> =
        bindE (reads s n') (\<lambda>st'. Inr (E_UOP op e, st'))"
      using st f' by (auto simp: step_simps Let_def bindE_assoc)
    then show "\<exists>st n'. reads (show_expr (E_UOP op e) @ s) n = Inr st \<and>
        parse_primary f st = bindE (reads s n') (\<lambda>st'. Inr (E_UOP op e, st'))"
      using op by (auto simp: step_simps)
  qed
qed (simp_all add: parses_op parses_top)

lemma show_expr_length: "printable e \<Longrightarrow> 2 * nodes e \<le> length (show_expr e)"
proof (induction e)
  case (E_NUM n)
  then show ?case using dec_digits_props [of "nat n"] by (cases "dec_digits (nat n)") auto
next
  case (E_UOP op e)
  then show ?case by (auto simp: un_texts_def)
qed auto

section \<open>Properties\<close>

text \<open>
  C18: parsing a \<^verbatim>\<open>#if\<close> expression always ends: the fuel given to the parser, a multiple of
  the length of the line, is never used up.
\<close>

theorem expr_parse_fuel: "expr_parse str \<noteq> Inl Out_of_fuel"
  by (rule expr_parse_total)

text \<open>
  C5: an expression printed with parentheses around every binary and conditional operation is
  parsed back to the same tree, for all operators, identifiers and non-negative \<^verbatim>\<open>long\<close>
  constants.
\<close>

theorem expr_parse_print:
  assumes "printable e"
  shows "expr_parse (show_expr e) = Inr e"
proof -
  let ?f = "parse_fuel (show_expr e)"
  have f: "5 * nodes e \<le> ?f - 1" "1 < ?f"
    using show_expr_length [OF assms] by (simp_all add: parse_fuel_def)
  obtain st n' where st: "reads (show_expr e @ []) 0 = Inr st"
    "parse_primary (?f - 1) st = bindE (reads [] n') (\<lambda>st'. Inr (e, st'))"
    using printable_parses [OF assms] f(1) follows_texts(5) by (rule parsesE)
  have "parse ?f st = Inr (e, \<lparr>tok_pos = [], tok_cur = 0, tok_cur_num = n'\<rparr>)"
    using st(2) f(2) by (intro parse_of_primary) (simp_all add: reads_punct)
  then show ?thesis using st(1) by (simp add: expr_parse_def tok_begin_def reads_def)
qed

theorem expr_parse_print_witness:
  "expr_parse (show_expr (E_OP tok_plus (E_NUM 1) (E_UOP tok_not E_IDENT))) =
     Inr (E_OP tok_plus (E_NUM 1) (E_UOP tok_not E_IDENT))"
  by (rule expr_parse_print) (simp add: bin_texts_def un_texts_def)




text \<open>
  a guard does not protect a division: C gives \<^verbatim>\<open>0 && (1 + 1 / 0)\<close> the value 0, but the
  evaluator drops the no-evaluation flag below the first operator of the skipped operand and
  stops with a division by zero.
\<close>

lemma guarded_division_dies:
  "csem (E_OP tok_andsc (E_NUM 0) (E_OP tok_plus (E_NUM 1) (E_OP tok_divide (E_NUM 1) (E_NUM 0)))) = Inr 0
   \<and> expr_eval (E_OP tok_andsc (E_NUM 0) (E_OP tok_plus (E_NUM 1) (E_OP tok_divide (E_NUM 1) (E_NUM 0))))
       h False = Inl (Died ''division by zero'')"
  by (simp add: eval_op_def)

text \<open>
  A byte above 127 behind an operand makes the parser index its precedence table below
  its start.
\<close>

theorem precedence_table_overrun:
  "expr_parse [CHR ''1'', CHR ''+'', CHR ''1'', CHR 0x80] = Inl Out_of_bounds"
  by code_simp

end
