(* ===== verification/Ucc_Triple.thy ===== *)
theory Ucc_Triple
  imports Ucc_Prelude
begin

text \<open>
  Target triples and the platform they select: \<^verbatim>\<open>src/util/triple.c\<close>, \<^verbatim>\<open>src/util/triple.h\<close> and
  \<^verbatim>\<open>src/util/platform.c\<close>.  The lists \<^verbatim>\<open>TARGET_ARCHES\<close>, \<^verbatim>\<open>TARGET_VENDORS\<close>, \<^verbatim>\<open>TARGET_SYSES\<close>
  and \<^verbatim>\<open>TARGET_ABIS\<close> are expanded in each function in their order.  An \<^verbatim>\<open>enum\<close> that still
  holds \<open>-1\<close> is \<open>None\<close>.  \<^verbatim>\<open>uname\<close>, which \<^verbatim>\<open>triple_default\<close> calls, is its argument.
\<close>

section \<open>Triples\<close>

datatype arch = ARCH_x86_64 | ARCH_i386

datatype vendor = VENDOR_pc | VENDOR_apple

datatype sys = SYS_linux | SYS_freebsd | SYS_darwin | SYS_cygwin

datatype abi = ABI_gnu | ABI_macho | ABI_elf

record triple =
  tr_arch :: arch
  tr_vendor :: vendor
  tr_sys :: sys
  tr_abi :: abi

definition strncmp_eq :: "string \<Rightarrow> string \<Rightarrow> nat \<Rightarrow> bool" where
  "strncmp_eq a b n \<longleftrightarrow> take n a = take n b"

definition parse_arch :: "string \<Rightarrow> arch option" where
  "parse_arch s =
     (if s = ''x86_64'' then Some ARCH_x86_64
      else if s = ''i386'' then Some ARCH_i386
      else if s = ''amd64'' then Some ARCH_x86_64
      else if s = ''i686'' then Some ARCH_i386
      else None)"

definition parse_vendor :: "string \<Rightarrow> vendor option" where
  "parse_vendor s =
     (if s = ''pc'' then Some VENDOR_pc else if s = ''apple'' then Some VENDOR_apple else None)"

definition parse_sys :: "string \<Rightarrow> sys option" where
  "parse_sys s =
     (if s = ''linux'' then Some SYS_linux
      else if s = ''freebsd'' then Some SYS_freebsd
      else if strncmp_eq s ''darwin'' 6 then Some SYS_darwin
      else if strncmp_eq s ''macos'' 5 then Some SYS_darwin
      else if strncmp_eq s ''cygwin'' 6 then Some SYS_cygwin
      else None)"

definition parse_abi :: "string \<Rightarrow> abi option" where
  "parse_abi s =
     (if s = ''gnu'' then Some ABI_gnu
      else if s = ''macho'' then Some ABI_macho
      else if s = ''elf'' then Some ABI_elf
      else None)"

fun infer_vendor :: "sys \<Rightarrow> vendor" where
  "infer_vendor SYS_linux = VENDOR_pc"
| "infer_vendor SYS_darwin = VENDOR_apple"
| "infer_vendor SYS_cygwin = VENDOR_pc"
| "infer_vendor SYS_freebsd = VENDOR_pc"

fun infer_abi :: "sys \<Rightarrow> abi" where
  "infer_abi SYS_linux = ABI_gnu"
| "infer_abi SYS_darwin = ABI_macho"
| "infer_abi SYS_cygwin = ABI_elf"
| "infer_abi SYS_freebsd = ABI_elf"

text \<open>The tokens \<^verbatim>\<open>strtok(dup, "-")\<close> delivers: the non-empty pieces between the dashes.\<close>

fun strtok_from :: "string \<Rightarrow> string \<Rightarrow> string list" where
  "strtok_from piece [] = (if piece = [] then [] else [piece])"
| "strtok_from piece (c # s) =
     (if c = CHR ''-'' then (if piece = [] then [] else [piece]) @ strtok_from [] s
      else strtok_from (piece @ [c]) s)"

definition strtok_dash :: "string \<Rightarrow> string list" where
  "strtok_dash s = strtok_from [] s"

record partial_triple =
  pt_arch :: "arch option"
  pt_vendor :: "vendor option"
  pt_sys :: "sys option"
  pt_abi :: "abi option"

text \<open>The loop of \<^verbatim>\<open>triple_parse\<close>; a token that nothing accepts is the error.\<close>

fun triple_loop :: "string list \<Rightarrow> partial_triple \<Rightarrow> string + partial_triple" where
  "triple_loop [] pt = Inr pt"
| "triple_loop (tok # toks) pt =
     (case parse_arch tok of
        Some a \<Rightarrow> triple_loop toks (pt\<lparr>pt_arch := Some a\<rparr>)
      | None \<Rightarrow>
        (case parse_vendor tok of
           Some v \<Rightarrow> triple_loop toks (pt\<lparr>pt_vendor := Some v\<rparr>)
         | None \<Rightarrow>
           (case parse_sys tok of
              Some s \<Rightarrow> triple_loop toks (pt\<lparr>pt_sys := Some s\<rparr>)
            | None \<Rightarrow>
              (case parse_abi tok of
                 Some b \<Rightarrow> triple_loop toks (pt\<lparr>pt_abi := Some b\<rparr>)
               | None \<Rightarrow> Inl tok))))"

definition triple_parse :: "string \<Rightarrow> string + triple" where
  "triple_parse str =
     (case triple_loop (strtok_dash str)
        \<lparr>pt_arch = None, pt_vendor = None, pt_sys = None, pt_abi = None\<rparr> of
        Inl bad \<Rightarrow> Inl bad
      | Inr pt \<Rightarrow>
        (case pt_arch pt of
           None \<Rightarrow> Inl ''no arch''
         | Some a \<Rightarrow>
           (case pt_sys pt of
              None \<Rightarrow> Inl ''no sys''
            | Some s \<Rightarrow>
              let v = (case pt_vendor pt of None \<Rightarrow> infer_vendor s | Some v \<Rightarrow> v);
                  b = (case pt_abi pt of None \<Rightarrow> infer_abi s | Some b \<Rightarrow> b)
              in Inr \<lparr>tr_arch = a, tr_vendor = v, tr_sys = s, tr_abi = b\<rparr>)))"

fun arch_to_str :: "arch \<Rightarrow> string" where
  "arch_to_str ARCH_x86_64 = ''x86_64''"
| "arch_to_str ARCH_i386 = ''i386''"

fun vendor_to_str :: "vendor \<Rightarrow> string" where
  "vendor_to_str VENDOR_pc = ''pc''"
| "vendor_to_str VENDOR_apple = ''apple''"

fun sys_to_str :: "sys \<Rightarrow> string" where
  "sys_to_str SYS_linux = ''linux''"
| "sys_to_str SYS_freebsd = ''freebsd''"
| "sys_to_str SYS_darwin = ''darwin''"
| "sys_to_str SYS_cygwin = ''cygwin''"

fun abi_to_str :: "abi \<Rightarrow> string" where
  "abi_to_str ABI_gnu = ''gnu''"
| "abi_to_str ABI_macho = ''macho''"
| "abi_to_str ABI_elf = ''elf''"

text \<open>\<^verbatim>\<open>snprintf\<close> into the buffer of 32 characters keeps the first 31.\<close>

definition triple_to_str :: "triple \<Rightarrow> bool \<Rightarrow> string" where
  "triple_to_str t showvendor =
     take 31 (arch_to_str (tr_arch t) @ (if showvendor then ''-'' else []) @
       (if showvendor then vendor_to_str (tr_vendor t) else []) @ ''-'' @
       sys_to_str (tr_sys t) @ ''-'' @ abi_to_str (tr_abi t))"

text \<open>\<^verbatim>\<open>triple_default\<close>: the machine and system names as \<^verbatim>\<open>uname\<close> reports them, \<open>None\<close> on its failure.\<close>

definition filter_unam :: "string \<times> string \<Rightarrow> string \<times> string" where
  "filter_unam unam =
     (case unam of (machine, sysname) \<Rightarrow>
        let machine1 = (if machine = ''amd64'' then ''x86_64'' else machine);
            machine2 = (if machine1 = ''i686'' then ''i386'' else machine1)
        in (machine2, map tolower sysname))"

definition triple_default :: "(string \<times> string) option \<Rightarrow> string option + triple" where
  "triple_default uname =
     (case uname of
        None \<Rightarrow> Inl None
      | Some u \<Rightarrow>
        (case filter_unam u of (machine, sysname) \<Rightarrow>
           (case parse_arch machine of
              None \<Rightarrow> Inl (Some machine)
            | Some a \<Rightarrow>
              (case parse_sys sysname of
                 None \<Rightarrow> Inl (Some sysname)
               | Some s \<Rightarrow> Inr \<lparr>tr_arch = a, tr_vendor = infer_vendor s, tr_sys = s,
                                tr_abi = infer_abi s\<rparr>))))"

section \<open>The platform\<close>

text \<open>The platform is what \<^verbatim>\<open>platform_init\<close> has stored; before that its readers assert.\<close>

record platform =
  pl_arch :: arch
  pl_sys :: sys

definition platform_init :: "arch \<Rightarrow> sys \<Rightarrow> platform" where
  "platform_init a s = \<lparr>pl_arch = a, pl_sys = s\<rparr>"

definition platform_word_size :: "platform \<Rightarrow> u32" where
  "platform_word_size p = (case pl_arch p of ARCH_i386 \<Rightarrow> 4 | ARCH_x86_64 \<Rightarrow> 8)"

definition platform_32bit :: "platform \<Rightarrow> bool" where
  "platform_32bit p \<longleftrightarrow> platform_word_size p = 4"

definition platform_align_max :: "platform \<Rightarrow> u32" where
  "platform_align_max p = (if platform_word_size p = 4 then 8 else 16)"

section \<open>Properties\<close>

lemma parse_print_parts:
  "parse_arch (arch_to_str a) = Some a"
  "parse_arch (vendor_to_str v) = None" "parse_vendor (vendor_to_str v) = Some v"
  "parse_arch (sys_to_str s) = None" "parse_vendor (sys_to_str s) = None"
  "parse_sys (sys_to_str s) = Some s"
  "parse_arch (abi_to_str b) = None" "parse_vendor (abi_to_str b) = None"
  "parse_sys (abi_to_str b) = None" "parse_abi (abi_to_str b) = Some b"
  by (cases a; cases v; cases s; cases b;
      simp add: parse_arch_def parse_vendor_def parse_sys_def parse_abi_def strncmp_eq_def)+

lemma strtok_from_piece:
  "CHR ''-'' \<notin> set w \<Longrightarrow> strtok_from p (w @ CHR ''-'' # s) =
     (if p @ w = [] then [] else [p @ w]) @ strtok_from [] s"
  by (induction w arbitrary: p) auto

lemma strtok_from_last: "CHR ''-'' \<notin> set w \<Longrightarrow> strtok_from p w = (if p @ w = [] then [] else [p @ w])"
  by (induction w arbitrary: p) auto

lemma parts_no_dash:
  "CHR ''-'' \<notin> set (arch_to_str a)" "CHR ''-'' \<notin> set (vendor_to_str v)"
  "CHR ''-'' \<notin> set (sys_to_str s)" "CHR ''-'' \<notin> set (abi_to_str b)"
  "arch_to_str a \<noteq> []" "vendor_to_str v \<noteq> []" "sys_to_str s \<noteq> []" "abi_to_str b \<noteq> []"
  by (cases a; cases v; cases s; cases b; simp)+

lemma parts_fit:
  "length (arch_to_str a @ ''-'' @ vendor_to_str v @ ''-'' @ sys_to_str s @ ''-'' @ abi_to_str b) \<le> 31"
  by (cases a; cases v; cases s; cases b; simp)

text \<open>
  C36: printing a triple with its vendor and parsing the text gives the triple back, and
  without the vendor it does exactly when the vendor is the one the system implies; the
  buffer of 32 characters is long enough for both.
\<close>

theorem triple_roundtrip:
  "triple_parse (triple_to_str t True) = Inr t
   \<and> (triple_parse (triple_to_str t False) = Inr t \<longleftrightarrow> tr_vendor t = infer_vendor (tr_sys t))"
proof -
  obtain a v s b where t: "t = \<lparr>tr_arch = a, tr_vendor = v, tr_sys = s, tr_abi = b\<rparr>" by (cases t)
  note fit = parts_fit [of a v s b]
  have long: "triple_to_str t True =
      arch_to_str a @ CHR ''-'' # vendor_to_str v @ CHR ''-'' # sys_to_str s @ CHR ''-'' # abi_to_str b"
    using fit by (simp add: t triple_to_str_def)
  have short: "triple_to_str t False = arch_to_str a @ CHR ''-'' # sys_to_str s @ CHR ''-'' # abi_to_str b"
    using fit by (simp add: t triple_to_str_def)
  have "strtok_dash (triple_to_str t True) = [arch_to_str a, vendor_to_str v, sys_to_str s, abi_to_str b]"
    "strtok_dash (triple_to_str t False) = [arch_to_str a, sys_to_str s, abi_to_str b]"
    unfolding long short strtok_dash_def by (simp_all add: strtok_from_piece strtok_from_last parts_no_dash)
  then show ?thesis by (auto simp: triple_parse_def parse_print_parts t)
qed

end
