(* ===== verification/Ucc_Path.thy ===== *)
theory Ucc_Path
  imports Ucc_Prelude
begin

text \<open>
  Canonical form of an include path: \<^verbatim>\<open>src/util/path.c\<close>.  The source cuts the buffer at the
  slashes, collects pointers to the pieces, and copies the pieces that stay back to the front
  of the buffer (each to or before its old place, so a piece is read before it is
  overwritten); the model keeps the pieces as strings.  The last statement of the source
  writes the terminator one character before the end of what was copied, which lies before
  the buffer when nothing was copied.
\<close>

section \<open>Definitions\<close>

definition canon_add :: "string list \<Rightarrow> string \<Rightarrow> string list" where
  "canon_add ents ent =
     (if ent = ''.'' then ents
      else if ent = ''..'' then
        (if ents \<noteq> [] then (if last ents = ''..'' then ents @ [ent] else butlast ents)
         else ents @ [ent])
      else ents @ [ent])"

text \<open>The loop over the buffer: \<open>piece\<close> is the text from \<^verbatim>\<open>last\<close> to \<^verbatim>\<open>p\<close>.\<close>

fun path_loop :: "string list \<Rightarrow> string \<Rightarrow> string \<Rightarrow> string list \<times> string" where
  "path_loop ents piece [] = (ents, piece)"
| "path_loop ents piece (c # p) =
     (if c = CHR ''/'' then path_loop (if piece \<noteq> [] then canon_add ents piece else ents) [] p
      else path_loop ents (piece @ [c]) p)"

definition canonicalise_path :: "string \<Rightarrow> string outcome" where
  "canonicalise_path path =
     (let begin_slash = (path \<noteq> [] \<and> hd path = CHR ''/'') in
      case path_loop [] [] path of (ents0, piece) \<Rightarrow>
        let ents = (if piece \<noteq> [] then canon_add ents0 piece else ents0);
            trailing_slash = (piece = []);
            dest = (if begin_slash then ''/'' else []) @ concat (map (\<lambda>e. e @ ''/'') ents)
        in if trailing_slash then Inr dest
           else if dest = [] then Inl Out_of_bounds
           else Inr (butlast dest))"

section \<open>Normal forms\<close>

text \<open>
  The entries of a canonical path: no empty entry, no dot, and parent entries only at the
  front.
\<close>

definition canon_ok :: "string list \<Rightarrow> bool" where
  "canon_ok ents \<longleftrightarrow> list_all (\<lambda>e. e \<noteq> [] \<and> e \<noteq> ''.'' \<and> CHR ''/'' \<notin> set e) ents \<and>
     ''..'' \<notin> set (dropWhile (\<lambda>e. e = ''..'') ents)"

lemma dropWhile_append_ne:
  "dropWhile P (xs @ ys) = (if dropWhile P xs = [] then dropWhile P ys else dropWhile P xs @ ys)"
  by (induction xs) auto

lemma dropWhile_butlast_subset: "set (dropWhile P (butlast xs)) \<subseteq> set (dropWhile P xs)"
  by (induction xs) (auto dest: in_set_butlastD set_dropWhileD)

lemma canon_ok_parents:
  assumes "canon_ok ents" and "ents \<noteq> []" and "last ents = ''..''"
  shows "dropWhile (\<lambda>e. e = ''..'') ents = []"
proof (rule ccontr)
  assume ne: "dropWhile (\<lambda>e. e = ''..'') ents \<noteq> []"
  have "ents = takeWhile (\<lambda>e. e = ''..'') ents @ dropWhile (\<lambda>e. e = ''..'') ents" by simp
  then have "last ents \<in> set (dropWhile (\<lambda>e. e = ''..'') ents)"
    using ne by (metis last_appendR last_in_set)
  then show False using assms by (simp add: canon_ok_def)
qed

lemma canon_add_ok:
  assumes "canon_ok ents" and "ent \<noteq> []" and "CHR ''/'' \<notin> set ent"
  shows "canon_ok (canon_add ents ent)"
proof (cases "ent = ''..'' \<and> ents \<noteq> [] \<and> last ents \<noteq> ''..''")
  case True
  have "list_all (\<lambda>e. e \<noteq> [] \<and> e \<noteq> ''.'' \<and> CHR ''/'' \<notin> set e) (butlast ents)"
    using assms(1) by (auto simp: canon_ok_def list_all_iff dest: in_set_butlastD)
  moreover have "''..'' \<notin> set (dropWhile (\<lambda>e. e = ''..'') (butlast ents))"
    using assms(1) dropWhile_butlast_subset [of "\<lambda>e. e = ''..''" ents] by (auto simp: canon_ok_def)
  ultimately show ?thesis using True by (simp add: canon_add_def canon_ok_def)
next
  case False
  have "canon_ok (ents @ [ent])" if "ent \<noteq> ''.''"
  proof -
    have "dropWhile (\<lambda>e. e = ''..'') ents = []" if "ent = ''..''"
      using False that canon_ok_parents [OF assms(1)] by (cases "ents = []") auto
    then show ?thesis using assms \<open>ent \<noteq> ''.''\<close>
      by (auto simp: canon_ok_def dropWhile_append_ne)
  qed
  then show ?thesis using False assms(1) by (auto simp: canon_add_def)
qed

lemma path_loop_ok:
  "canon_ok ents \<Longrightarrow> CHR ''/'' \<notin> set piece \<Longrightarrow> path_loop ents piece p = (ents', piece') \<Longrightarrow>
   canon_ok ents' \<and> CHR ''/'' \<notin> set piece'"
proof (induction ents piece p rule: path_loop.induct)
  case (2 ents piece c p)
  then show ?case by (auto simp: canon_add_ok split: if_splits)
qed simp

text \<open>Reading back a list of canonical entries gives the list.\<close>

lemma canon_add_id: "canon_ok (ents @ [ent]) \<Longrightarrow> canon_add ents ent = ents @ [ent]"
proof (cases "ent = ''..'' \<and> ents \<noteq> []")
  case True
  assume ok: "canon_ok (ents @ [ent])"
  have "dropWhile (\<lambda>e. e = ''..'') ents = []"
  proof (rule ccontr)
    assume "dropWhile (\<lambda>e. e = ''..'') ents \<noteq> []"
    then have "ent \<in> set (dropWhile (\<lambda>e. e = ''..'') (ents @ [ent]))"
      by (simp only: dropWhile_append_ne if_False) simp
    then show False using ok True by (simp add: canon_ok_def)
  qed
  then have "\<forall>x \<in> set ents. x = ''..''" by (simp add: dropWhile_eq_Nil_conv)
  then have "last ents = ''..''" using True last_in_set [of ents] by blast
  then show ?thesis using True by (simp add: canon_add_def)
qed (auto simp: canon_add_def canon_ok_def)

lemma path_loop_piece:
  "CHR ''/'' \<notin> set e \<Longrightarrow> path_loop ents piece (e @ p) = path_loop ents (piece @ e) p"
  by (induction e arbitrary: piece) auto

lemma canon_ok_prefix: "canon_ok (xs @ ys) \<Longrightarrow> canon_ok xs"
  by (cases "dropWhile (\<lambda>e. e = ''..'') xs = []")
    (simp_all add: canon_ok_def dropWhile_append_ne del: dropWhile_eq_Nil_conv)

lemma path_loop_entries:
  "canon_ok (ents @ es) \<Longrightarrow>
   path_loop ents [] (concat (map (\<lambda>e. e @ ''/'') es) @ p) = path_loop (ents @ es) [] p"
proof (induction es arbitrary: ents)
  case (Cons e es)
  have e: "e \<noteq> []" "CHR ''/'' \<notin> set e" using Cons.prems by (auto simp: canon_ok_def)
  have "canon_add ents e = ents @ [e]"
    using Cons.prems canon_ok_prefix [of "ents @ [e]" es] by (simp add: canon_add_id)
  then show ?case using e Cons.IH [of "ents @ [e]"] Cons.prems by (simp add: path_loop_piece)
qed simp

text \<open>The entries of a path: its non-empty pieces between the slashes.\<close>

fun pieces_from :: "string \<Rightarrow> string \<Rightarrow> string list" where
  "pieces_from piece [] = (if piece = [] then [] else [piece])"
| "pieces_from piece (c # s) =
     (if c = CHR ''/'' then (if piece = [] then [] else [piece]) @ pieces_from [] s
      else pieces_from (piece @ [c]) s)"

definition pieces :: "string \<Rightarrow> string list" where
  "pieces s = pieces_from [] s"

abbreviation slashed :: "string list \<Rightarrow> string" where
  "slashed es \<equiv> concat (map (\<lambda>e. e @ ''/'') es)"

lemma pieces_piece: "CHR ''/'' \<notin> set e \<Longrightarrow> pieces_from p (e @ s) = pieces_from (p @ e) s"
  by (induction e arbitrary: p) auto

lemma pieces_slashed: "canon_ok es \<Longrightarrow> pieces_from [] (slashed es @ s) = es @ pieces_from [] s"
proof -
  assume "canon_ok es"
  then have "list_all (\<lambda>e. e \<noteq> [] \<and> CHR ''/'' \<notin> set e) es" by (auto simp: canon_ok_def list_all_iff)
  then show ?thesis by (induction es) (auto simp: pieces_piece)
qed

lemma path_loop_slashed:
  "canon_ok es \<Longrightarrow> path_loop [] [] (slashed es @ s) = path_loop es [] s"
  using path_loop_entries [of "[]" es s] by simp

lemma hd_slashed: "canon_ok es \<Longrightarrow> es \<noteq> [] \<Longrightarrow> slashed es \<noteq> [] \<and> hd (slashed es @ s) \<noteq> CHR ''/''"
  by (cases es; cases "hd es") (auto simp: canon_ok_def)

text \<open>The two shapes a result has: with a slash behind every entry, or behind all but the last.\<close>

lemma canonicalise_closed:
  assumes "canon_ok es" and "pre = [] \<or> pre = ''/''"
  shows "canonicalise_path (pre @ slashed es) = Inr (pre @ slashed es)"
proof -
  have "(pre @ slashed es \<noteq> [] \<and> hd (pre @ slashed es) = CHR ''/'') = (pre = ''/'')"
    using assms(2) hd_slashed [OF assms(1), of "[]"] by (cases "es = []") auto
  moreover have "path_loop [] [] (pre @ slashed es) = (es, [])"
    using assms(2) path_loop_slashed [OF assms(1), of "[]"] by auto
  ultimately show ?thesis using assms(2) unfolding canonicalise_path_def Let_def by auto
qed

lemma canonicalise_open:
  assumes "canon_ok (es @ [e])" and "pre = [] \<or> pre = ''/''"
  shows "canonicalise_path (pre @ slashed es @ e) = Inr (pre @ slashed es @ e)"
proof -
  have e: "e \<noteq> []" "CHR ''/'' \<notin> set e" using assms(1) by (auto simp: canon_ok_def)
  note es = canon_ok_prefix [OF assms(1)]
  have "hd (slashed es @ e) \<noteq> CHR ''/''"
    using e hd_slashed [OF es, of e] by (cases "es = []"; cases e) auto
  then have "(pre @ slashed es @ e \<noteq> [] \<and> hd (pre @ slashed es @ e) = CHR ''/'') = (pre = ''/'')"
    using assms(2) by auto
  moreover have "path_loop [] [] (pre @ slashed es @ e) = (es, e)"
    using assms(2) path_loop_slashed [OF es, of e] path_loop_piece [OF e(2), of es "[]" "[]"] by auto
  ultimately show ?thesis using assms(2) e canon_add_id [OF assms(1)]
    unfolding canonicalise_path_def Let_def by (auto simp: butlast_append)
qed

lemma canonicalise_shape:
  assumes "canonicalise_path path = Inr out"
  obtains (closed) pre es where "canon_ok es" "pre = [] \<or> pre = ''/''" "out = pre @ slashed es"
  | (open_end) pre es e where "canon_ok (es @ [e])" "pre = [] \<or> pre = ''/''" "out = pre @ slashed es @ e"
proof -
  obtain ents0 piece where l: "path_loop [] [] path = (ents0, piece)" by fastforce
  have ok: "canon_ok ents0" "CHR ''/'' \<notin> set piece"
    using path_loop_ok [OF _ _ l] by (auto simp: canon_ok_def)
  define pre where "pre = (if path \<noteq> [] \<and> hd path = CHR ''/'' then ''/'' else [])"
  have pre: "pre = [] \<or> pre = ''/''" by (simp add: pre_def)
  show thesis
  proof (cases "piece = []")
    case True
    then have "out = pre @ slashed ents0"
      using assms l by (auto simp: canonicalise_path_def Let_def pre_def split: if_splits)
    then show thesis using closed ok(1) pre by blast
  next
    case False
    define ents where "ents = canon_add ents0 piece"
    have ents: "canon_ok ents" using ok False by (simp add: ents_def canon_add_ok)
    have out: "out = butlast (pre @ slashed ents)" "pre @ slashed ents \<noteq> []"
      using assms l False by (auto simp: canonicalise_path_def Let_def pre_def ents_def split: if_splits)
    show thesis
    proof (cases ents rule: rev_cases)
      case Nil
      then have "out = [] @ slashed []" using out pre by auto
      then show thesis using closed [of "[]" "[]"] by (simp add: canon_ok_def)
    next
      case (snoc es e)
      then have "out = pre @ slashed es @ e" using out by (simp add: butlast_append)
      then show thesis using open_end ents snoc pre by blast
    qed
  qed
qed

section \<open>Properties\<close>



text \<open>
  A path that cancels out is written outside its buffer: for \<^verbatim>\<open>a/..\<close> and for a single
  dot nothing is copied, and the terminator goes to the byte before the buffer; for \<^verbatim>\<open>/.\<close> the
  root itself is lost.
\<close>

theorem canonicalise_path_underrun:
  "canonicalise_path ''a/..'' = Inl Out_of_bounds \<and> canonicalise_path ''.'' = Inl Out_of_bounds
   \<and> canonicalise_path ''/.'' = Inr []"
  by (simp add: canonicalise_path_def canon_add_def)

end
