(* ===== verification/Ucc_Type.thy ===== *)
theory Ucc_Type
  imports Ucc_Triple
begin

text \<open>
  The types of the compiler: primitive types (\<^verbatim>\<open>src/cc1/btype.c\<close>), type chains and the
  predicates on them (\<^verbatim>\<open>src/cc1/type.h\<close>, \<^verbatim>\<open>src/cc1/type_is.c\<close>), and the sizes and
  alignments of \<^verbatim>\<open>src/cc1/type.c\<close>.

  A \<^verbatim>\<open>type\<close> is a chain of nodes; the union member of each kind is the argument of its
  constructor.  What a node only points to is kept as far as these files look at it: the
  \<^verbatim>\<open>typeof\<close> expression of a typedef node is its type (\<open>None\<close> while it is not folded) and the
  attributes found on it, a declaration is its identity, attributes and type, an array size
  is the value it folds to (\<open>Some None\<close> when it is not an integer constant), source
  positions are left out.  A struct, union or enum is a number into the table of the
  environment, which also holds the platform and the options these functions read.  Sizes
  are 32-bit and wrap.
\<close>

section \<open>Primitive types\<close>

datatype type_primitive =
    type_void
  | type__Bool
  | type_nchar
  | type_schar
  | type_uchar
  | type_int
  | type_uint
  | type_short
  | type_ushort
  | type_long
  | type_ulong
  | type_llong
  | type_ullong
  | type_float
  | type_double
  | type_ldouble
  | type_struct
  | type_union
  | type_enum
  | type_unknown

definition all_primitives :: "type_primitive list" where
  "all_primitives =
     [type_void, type__Bool, type_nchar, type_schar, type_uchar, type_int, type_uint, type_short,
      type_ushort, type_long, type_ulong, type_llong, type_ullong, type_float, type_double,
      type_ldouble, type_struct, type_union, type_enum, type_unknown]"

text \<open>The value of the C enumerator, and the order it gives.\<close>

fun prim_val :: "type_primitive \<Rightarrow> nat" where
  "prim_val type_void = 0"
| "prim_val type__Bool = 1"
| "prim_val type_nchar = 2"
| "prim_val type_schar = 3"
| "prim_val type_uchar = 4"
| "prim_val type_int = 5"
| "prim_val type_uint = 6"
| "prim_val type_short = 7"
| "prim_val type_ushort = 8"
| "prim_val type_long = 9"
| "prim_val type_ulong = 10"
| "prim_val type_llong = 11"
| "prim_val type_ullong = 12"
| "prim_val type_float = 13"
| "prim_val type_double = 14"
| "prim_val type_ldouble = 15"
| "prim_val type_struct = 16"
| "prim_val type_union = 17"
| "prim_val type_enum = 18"
| "prim_val type_unknown = 19"

lemma prim_val_nth: "prim_val p < 20 \<and> all_primitives ! prim_val p = p"
  by (cases p) (simp_all add: all_primitives_def)

lemma prim_val_inject: "prim_val p = prim_val q \<Longrightarrow> p = q"
  by (metis prim_val_nth)

instantiation type_primitive :: linorder
begin

definition less_eq_type_primitive :: "type_primitive \<Rightarrow> type_primitive \<Rightarrow> bool" where
  "less_eq_type_primitive p q \<longleftrightarrow> prim_val p \<le> prim_val q"

definition less_type_primitive :: "type_primitive \<Rightarrow> type_primitive \<Rightarrow> bool" where
  "less_type_primitive p q \<longleftrightarrow> prim_val p < prim_val q"

instance
  by standard (auto simp: less_eq_type_primitive_def less_type_primitive_def dest: prim_val_inject)

end

definition prim_at :: "nat \<Rightarrow> type_primitive" where
  "prim_at n = (if n < 20 then all_primitives ! n else type_unknown)"

definition TYPE_PRIMITIVE_TO_UNSIGNED :: "type_primitive \<Rightarrow> type_primitive" where
  "TYPE_PRIMITIVE_TO_UNSIGNED p = prim_at (prim_val p + 1)"

definition TYPE_PRIMITIVE_TO_SIGNED :: "type_primitive \<Rightarrow> type_primitive" where
  "TYPE_PRIMITIVE_TO_SIGNED p = prim_at (prim_val p - 1)"

definition TYPE_PRIMITIVE_IS_CHAR :: "type_primitive \<Rightarrow> bool" where
  "TYPE_PRIMITIVE_IS_CHAR a \<longleftrightarrow> type_nchar \<le> a \<and> a \<le> type_uchar"

datatype type_cmp =
    TYPE_EQUAL
  | TYPE_EQUAL_TYPEDEF
  | TYPE_QUAL_ADD
  | TYPE_QUAL_SUB
  | TYPE_QUAL_POINTED_ADD
  | TYPE_QUAL_POINTED_SUB
  | TYPE_QUAL_NESTED_CHANGE
  | TYPE_CONVERTIBLE_IMPLICIT
  | TYPE_CONVERTIBLE_EXPLICIT
  | TYPE_NOT_EQUAL

definition TYPE_EQUAL_ANY :: "type_cmp \<Rightarrow> bool" where
  "TYPE_EQUAL_ANY c \<longleftrightarrow> c = TYPE_EQUAL \<or> c = TYPE_EQUAL_TYPEDEF"

record btype =
  bt_primitive :: type_primitive
  bt_sue :: "nat option"

section \<open>Attributes, qualifiers and the environment\<close>

datatype attr_kind =
    attr_format | attr_unused | attr_used | attr_warn_unused | attr_section | attr_enum_bitmask
  | attr_noreturn | attr_noderef | attr_nonnull | attr_returns_nonnull | attr_packed
  | attr_sentinel | attr_aligned | attr_weak | attr_alias | attr_cleanup | attr_always_inline
  | attr_noinline | attr_flatten | attr_constructor | attr_destructor | attr_visibility
  | attr_stack_protect | attr_no_stack_protector | attr_no_sanitize | attr_fallthrough
  | attr_desig_init | attr_ucc_debug | attr_call_conv

text \<open>
  An attribute with the argument of \<^verbatim>\<open>aligned\<close>: \<open>None\<close> without one, \<open>Some None\<close> when it does
  not fold to an integer.
\<close>

record attribute =
  at_kind :: attr_kind
  at_align :: "u64 option option"

definition tymismatch_attrs :: "attr_kind list" where
  "tymismatch_attrs =
     [attr_section, attr_enum_bitmask, attr_noderef, attr_nonnull, attr_returns_nonnull, attr_packed]"

type_synonym qual = u8

abbreviation qual_none :: qual where "qual_none \<equiv> 0"
abbreviation qual_const :: qual where "qual_const \<equiv> 1"
abbreviation qual_volatile :: qual where "qual_volatile \<equiv> 2"
abbreviation qual_restrict :: qual where "qual_restrict \<equiv> 4"

record sue =
  sue_primitive :: type_primitive
  sue_attr :: "attribute list"
  sue_membs_complete :: bool
  sue_folded_fully :: bool
  sue_align_field :: u32
  sue_size_field :: u32

record tenv =
  te_platform :: platform
  te_signed_char :: bool
  te_plan9 :: bool
  te_sues :: "nat \<Rightarrow> sue"

definition IS_32_BIT :: "tenv \<Rightarrow> bool" where
  "IS_32_BIT env = platform_32bit (te_platform env)"

section \<open>btype.c\<close>

definition type_convertible :: "type_primitive \<Rightarrow> bool" where
  "type_convertible p \<longleftrightarrow>
     p \<in> {type__Bool, type_nchar, type_schar, type_uchar, type_int, type_uint, type_short,
          type_ushort, type_long, type_ulong, type_llong, type_ullong, type_float, type_double,
          type_ldouble, type_enum}"

definition btype_cmp :: "btype \<Rightarrow> btype \<Rightarrow> type_cmp outcome" where
  "btype_cmp a b =
     (let convertible_check =
        (if type_convertible (bt_primitive a) \<and> type_convertible (bt_primitive b)
         then TYPE_CONVERTIBLE_IMPLICIT else TYPE_NOT_EQUAL)
      in case bt_primitive a of
           type_void \<Rightarrow>
             Inr (if bt_primitive b = type_void then TYPE_EQUAL else TYPE_CONVERTIBLE_IMPLICIT)
         | type_struct \<Rightarrow> Inr (if bt_sue a = bt_sue b then TYPE_EQUAL else TYPE_NOT_EQUAL)
         | type_union \<Rightarrow> Inr (if bt_sue a = bt_sue b then TYPE_EQUAL else TYPE_NOT_EQUAL)
         | type_unknown \<Rightarrow> Inl (Ice ''type unknown'')
         | type_enum \<Rightarrow>
             Inr (if bt_primitive b = type_enum \<and> bt_sue a = bt_sue b then TYPE_EQUAL
                  else convertible_check)
         | _ \<Rightarrow> Inr (if bt_primitive a = bt_primitive b then TYPE_EQUAL else convertible_check))"

definition type_primitive_is_signed :: "tenv \<Rightarrow> type_primitive \<Rightarrow> bool \<Rightarrow> bool outcome" where
  "type_primitive_is_signed env p hard_err_on_su =
     (if p = type_nchar then Inr (te_signed_char env)
      else if p \<in> {type_schar, type_int, type_short, type_long, type_llong, type_float,
                   type_double, type_ldouble} then Inr True
      else if p = type_struct \<or> p = type_union then
        (if hard_err_on_su then Inl (Ice ''type_primitive_is_signed'') else Inr False)
      else if p = type_unknown then Inl (Ice ''type_unknown'')
      else Inr False)"

definition btype_is_signed :: "tenv \<Rightarrow> btype \<Rightarrow> bool outcome" where
  "btype_is_signed env t = type_primitive_is_signed env (bt_primitive t) True"

definition type_intrank :: "type_primitive \<Rightarrow> int" where
  "type_intrank p =
     (if p \<in> {type_nchar, type_schar, type_uchar, type_int, type_uint, type_short, type_ushort,
              type_long, type_ulong, type_llong, type_ullong}
      then int (prim_val p) else -1)"

definition type_primitive_size :: "tenv \<Rightarrow> type_primitive \<Rightarrow> u32 outcome" where
  "type_primitive_size env tp =
     (if tp \<in> {type__Bool, type_void} then Inr 1
      else if tp \<in> {type_schar, type_uchar, type_nchar} then Inr 1
      else if tp \<in> {type_short, type_ushort} then Inr 2
      else if tp \<in> {type_int, type_uint} then Inr 4
      else if tp = type_float then Inr 4
      else if tp \<in> {type_long, type_ulong} then Inr (if IS_32_BIT env then 4 else 8)
      else if tp \<in> {type_llong, type_ullong} then Inr 8
      else if tp = type_double then Inr (if IS_32_BIT env then 4 else 8)
      else if tp = type_ldouble then Inr (if IS_32_BIT env then 12 else 16)
      else if tp \<in> {type_enum, type_union, type_struct} then Inl (Ice ''s/u/e size'')
      else Inl (Ice ''type in type_primitive_size''))"

definition type_primitive_max :: "type_primitive \<Rightarrow> bool \<Rightarrow> u64 outcome" where
  "type_primitive_max p is_signed =
     (let result = (\<lambda>max. Inr (if is_signed then max else max * 2 + 1)) in
      if p = type__Bool then Inr 1
      else if p \<in> {type_nchar, type_schar, type_uchar} then result 127
      else if p = type_short then result 32767
      else if p = type_int then result 2147483647
      else if p = type_long then result 9223372036854775807
      else if p = type_llong then result 9223372036854775807
      else if p \<in> {type_float, type_double, type_ldouble} then Inl (Ice ''TODO: float max'')
      else if p \<in> {type_union, type_struct, type_enum} then Inl (Ice ''sue max'')
      else Inl (Ice ''bad primitive''))"

definition type_floating :: "type_primitive \<Rightarrow> bool" where
  "type_floating p \<longleftrightarrow> p \<in> {type_float, type_double, type_ldouble}"

fun type_primitive_to_str :: "type_primitive \<Rightarrow> string" where
  "type_primitive_to_str type_nchar = ''char''"
| "type_primitive_to_str type_schar = ''signed char''"
| "type_primitive_to_str type_uchar = ''unsigned char''"
| "type_primitive_to_str type_void = ''void''"
| "type_primitive_to_str type_short = ''short''"
| "type_primitive_to_str type_int = ''int''"
| "type_primitive_to_str type_long = ''long''"
| "type_primitive_to_str type_ushort = ''unsigned short''"
| "type_primitive_to_str type_uint = ''unsigned int''"
| "type_primitive_to_str type_ulong = ''unsigned long''"
| "type_primitive_to_str type_float = ''float''"
| "type_primitive_to_str type_double = ''double''"
| "type_primitive_to_str type__Bool = ''_Bool''"
| "type_primitive_to_str type_llong = ''long long''"
| "type_primitive_to_str type_ullong = ''unsigned long long''"
| "type_primitive_to_str type_ldouble = ''long double''"
| "type_primitive_to_str type_struct = ''struct''"
| "type_primitive_to_str type_union = ''union''"
| "type_primitive_to_str type_enum = ''enum''"
| "type_primitive_to_str type_unknown = ''unknown''"

definition type_qual_to_str :: "qual \<Rightarrow> bool \<Rightarrow> string" where
  "type_qual_to_str q trailing_space =
     (let buf = (if q AND qual_const \<noteq> 0 then ''const '' else []) @
                (if q AND qual_volatile \<noteq> 0 then ''volatile '' else []) @
                (if q AND qual_restrict \<noteq> 0 then ''restrict '' else [])
      in if \<not> trailing_space \<and> buf \<noteq> [] then butlast buf else buf)"

text \<open>
  \<^verbatim>\<open>sue_size\<close> and \<^verbatim>\<open>sue_align\<close> of \<^verbatim>\<open>sue.c\<close>: an incomplete type is reported and counted as 1.
\<close>

definition sue_is_complete :: "sue \<Rightarrow> bool" where
  "sue_is_complete s \<longleftrightarrow> sue_membs_complete s \<and> sue_folded_fully s"

definition sue_incomplete_chk :: "sue \<Rightarrow> bool outcome" where
  "sue_incomplete_chk st =
     (if \<not> sue_is_complete st then Inr True
      else if \<not> sue_folded_fully st then Inl (Assert_failed ''sizeof unfolded sue'')
      else if sue_primitive st = type_enum \<and> \<not> sue_size_field st > 0
      then Inl (Assert_failed ''zero-sized enum'')
      else Inr False)"

definition sue_size :: "sue \<Rightarrow> u32 outcome" where
  "sue_size st = bindE (sue_incomplete_chk st) (\<lambda>inc. Inr (if inc then 1 else sue_size_field st))"

definition sue_align :: "sue \<Rightarrow> u32 outcome" where
  "sue_align st = bindE (sue_incomplete_chk st) (\<lambda>inc. Inr (if inc then 1 else sue_align_field st))"

definition btype_size :: "tenv \<Rightarrow> btype \<Rightarrow> u32 outcome" where
  "btype_size env t =
     (case bt_sue t of
        Some s \<Rightarrow> if bt_primitive t \<noteq> type_int then sue_size (te_sues env s)
                 else type_primitive_size env (bt_primitive t)
      | None \<Rightarrow> type_primitive_size env (bt_primitive t))"

definition btype_align :: "tenv \<Rightarrow> btype \<Rightarrow> u32 outcome" where
  "btype_align env t =
     (case bt_sue t of
        Some s \<Rightarrow> sue_align (te_sues env s)
      | None \<Rightarrow>
        if bt_primitive t = type_double then
          (if IS_32_BIT env then Inr (if pl_sys (te_platform env) = SYS_cygwin then 8 else 4)
           else Inr 8)
        else if bt_primitive t = type_ldouble then Inr (if IS_32_BIT env then 4 else 16)
        else type_primitive_size env (bt_primitive t))"

end
