(* ===== verification/Ucc_Type_Is.thy ===== *)
theory Ucc_Type_Is
  imports Ucc_Type
begin

text \<open>
  Type chains and the predicates of \<^verbatim>\<open>src/cc1/type_is.c\<close>.  A function that the source calls
  with a pointer that may be NULL takes an option; the result is an option where the source
  may return NULL.  The only failures are the assertions of the source and its internal
  errors on \<^verbatim>\<open>__auto_type\<close>.
\<close>

section \<open>Types\<close>

datatype vla_kind = VLA_NO | VLA | VLA_STAR

datatype type_kind =
    K_btype | K_tdef | K_ptr | K_block | K_func | K_array | K_auto | K_cast | K_attr | K_where

datatype ctype =
    T_btype btype
  | T_tdef "ctype option" "attribute list" "(nat \<times> attribute list \<times> ctype) option"
  | T_ptr ctype "ctype option"
  | T_block ctype
  | T_func ctype funcargs
  | T_array ctype "u64 option option" vla_kind
  | T_auto
  | T_cast qual ctype
  | T_attr "attribute list" ctype
  | T_where ctype
and funcargs =
    Funcargs (fa_id: nat) (fa_args_void: bool) (fa_old_proto: bool) (fa_variadic: bool)
      (fa_arglist: "ctype list")

fun kind_of :: "ctype \<Rightarrow> type_kind" where
  "kind_of (T_btype b) = K_btype"
| "kind_of (T_tdef t a d) = K_tdef"
| "kind_of (T_ptr t d) = K_ptr"
| "kind_of (T_block t) = K_block"
| "kind_of (T_func t a) = K_func"
| "kind_of (T_array t s v) = K_array"
| "kind_of T_auto = K_auto"
| "kind_of (T_cast q t) = K_cast"
| "kind_of (T_attr a t) = K_attr"
| "kind_of (T_where t) = K_where"

text \<open>The \<^verbatim>\<open>ref\<close> member of a node.\<close>

fun type_ref :: "ctype \<Rightarrow> ctype option" where
  "type_ref (T_btype b) = None"
| "type_ref (T_tdef t a d) = None"
| "type_ref (T_ptr t d) = Some t"
| "type_ref (T_block t) = Some t"
| "type_ref (T_func t a) = Some t"
| "type_ref (T_array t s v) = Some t"
| "type_ref T_auto = None"
| "type_ref (T_cast q t) = Some t"
| "type_ref (T_attr a t) = Some t"
| "type_ref (T_where t) = Some t"

section \<open>Skipping\<close>

definition tdef_next :: "ctype option \<Rightarrow> (nat \<times> attribute list \<times> ctype) option \<Rightarrow> ctype outcome" where
  "tdef_next type_of d =
     (case d of
        Some (_, _, r) \<Rightarrow> Inr r
      | None \<Rightarrow> (case type_of of Some r \<Rightarrow> Inr r | None \<Rightarrow> Inl (Assert_failed ''unfolded typeof()'')))"

fun type_next_1 :: "ctype \<Rightarrow> ctype option outcome" where
  "type_next_1 (T_tdef type_of a d) = bindE (tdef_next type_of d) (\<lambda>r. Inr (Some r))"
| "type_next_1 r = Inr (type_ref r)"

datatype skippage = STOP_AT_TDEF | STOP_AT_CAST | STOP_AT_QUAL_CASTS | STOP_AT_ATTR | STOP_AT_WHERE

lemma tdef_next_size:
  "tdef_next t d = Inr r \<Longrightarrow> size r < size (T_tdef t a d)"
  by (cases d; cases t) (auto simp: tdef_next_def)

function type_skip :: "skippage set \<Rightarrow> ctype \<Rightarrow> ctype outcome" where
  "type_skip stops (T_tdef type_of a d) =
     (if STOP_AT_TDEF \<in> stops then Inr (T_tdef type_of a d)
      else bindE (tdef_next type_of d) (type_skip stops))"
| "type_skip stops (T_cast q t) =
     (if STOP_AT_CAST \<in> stops then Inr (T_cast q t)
      else if STOP_AT_QUAL_CASTS \<in> stops then Inr (T_cast q t)
      else type_skip stops t)"
| "type_skip stops (T_attr a t) =
     (if STOP_AT_ATTR \<in> stops then Inr (T_attr a t) else type_skip stops t)"
| "type_skip stops (T_where t) =
     (if STOP_AT_WHERE \<in> stops then Inr (T_where t) else type_skip stops t)"
| "type_skip stops (T_btype b) = Inr (T_btype b)"
| "type_skip stops (T_ptr t d) = Inr (T_ptr t d)"
| "type_skip stops (T_block t) = Inr (T_block t)"
| "type_skip stops (T_func t fa) = Inr (T_func t fa)"
| "type_skip stops (T_array t s v) = Inr (T_array t s v)"
| "type_skip stops T_auto = Inr T_auto"
  by pat_completeness auto
termination
proof (relation "measure (\<lambda>(stops, t). size t)")
  fix stops :: "skippage set" and type_of a d r
  assume "tdef_next type_of d = Inr r"
  then show "((stops, r), stops, T_tdef type_of a d) \<in> measure (\<lambda>(stops, t). size t)"
    using tdef_next_size [of type_of d r a] by simp
qed simp_all

definition type_skip_all :: "ctype \<Rightarrow> ctype outcome" where
  "type_skip_all t = type_skip {} t"

definition type_skip_non_tdefs :: "ctype \<Rightarrow> ctype outcome" where
  "type_skip_non_tdefs t = type_skip {STOP_AT_TDEF} t"

definition type_skip_non_casts :: "ctype \<Rightarrow> ctype outcome" where
  "type_skip_non_casts t = type_skip {STOP_AT_CAST} t"

definition type_skip_wheres :: "ctype \<Rightarrow> ctype outcome" where
  "type_skip_wheres t = type_skip {STOP_AT_TDEF, STOP_AT_CAST, STOP_AT_QUAL_CASTS, STOP_AT_ATTR} t"

definition type_skip_tdefs :: "ctype \<Rightarrow> ctype outcome" where
  "type_skip_tdefs t = type_skip {STOP_AT_CAST, STOP_AT_QUAL_CASTS} t"

definition type_skip_attrs :: "ctype \<Rightarrow> ctype outcome" where
  "type_skip_attrs t = type_skip {STOP_AT_TDEF, STOP_AT_CAST, STOP_AT_QUAL_CASTS, STOP_AT_WHERE} t"

definition type_skip_non_tdefs_consts :: "ctype \<Rightarrow> ctype outcome" where
  "type_skip_non_tdefs_consts t = type_skip {STOP_AT_TDEF, STOP_AT_QUAL_CASTS} t"

definition type_skip_non_wheres :: "ctype \<Rightarrow> ctype outcome" where
  "type_skip_non_wheres t = type_skip {STOP_AT_WHERE} t"

definition type_skip_non_attr :: "ctype \<Rightarrow> ctype outcome" where
  "type_skip_non_attr t = type_skip {STOP_AT_ATTR} t"

definition type_is_tdef :: "ctype \<Rightarrow> (nat \<times> attribute list \<times> ctype) option outcome" where
  "type_is_tdef t =
     bindE (type_skip_non_tdefs t) (\<lambda>t. Inr (case t of T_tdef _ _ d \<Rightarrow> d | _ \<Rightarrow> None))"

text \<open>\<^verbatim>\<open>type_next\<close>: the recursion of the source is one call on the skipped type.\<close>

fun concrete_next :: "ctype \<Rightarrow> ctype option outcome" where
  "concrete_next T_auto = Inl (Ice ''__auto_type'')"
| "concrete_next (T_btype b) = Inr None"
| "concrete_next (T_ptr t d) = Inr (Some t)"
| "concrete_next (T_block t) = Inr (Some t)"
| "concrete_next (T_func t fa) = Inr (Some t)"
| "concrete_next (T_array t s v) = Inr (Some t)"
| "concrete_next t = Inl (Ice ''not skipped'')"

definition type_next :: "ctype \<Rightarrow> ctype option outcome" where
  "type_next r = bindE (type_skip_all r) concrete_next"

section \<open>Kinds of types\<close>

definition type_is :: "ctype option \<Rightarrow> type_kind \<Rightarrow> ctype option outcome" where
  "type_is r k =
     (case r of
        None \<Rightarrow> Inr None
      | Some t \<Rightarrow> bindE (type_skip_all t) (\<lambda>t. Inr (if kind_of t = k then Some t else None)))"

text \<open>\<^verbatim>\<open>bits.type\<close> of a type that \<open>type_is\<close> found to be a \<^verbatim>\<open>btype\<close>.\<close>

definition type_is_btype :: "ctype option \<Rightarrow> btype option outcome" where
  "type_is_btype r =
     bindE (type_is r K_btype) (\<lambda>t. Inr (case t of Some (T_btype b) \<Rightarrow> Some b | _ \<Rightarrow> None))"

definition type_is_primitive :: "ctype option \<Rightarrow> type_primitive \<Rightarrow> bool outcome" where
  "type_is_primitive t p =
     bindE (type_is_btype t) (\<lambda>b.
       if p = type_unknown then Inl (Assert_failed ''p != type_unknown'')
       else Inr (case b of None \<Rightarrow> False | Some b \<Rightarrow> bt_primitive b = p))"

definition anysign :: "tenv \<Rightarrow> type_primitive \<Rightarrow> type_primitive outcome" where
  "anysign env a =
     (if TYPE_PRIMITIVE_IS_CHAR a then Inr type_nchar
      else bindE (type_primitive_is_signed env a False) (\<lambda>s.
        Inr (if s then TYPE_PRIMITIVE_TO_UNSIGNED a else a)))"

definition type_is_primitive_anysign :: "tenv \<Rightarrow> ctype option \<Rightarrow> type_primitive \<Rightarrow> bool outcome" where
  "type_is_primitive_anysign env t p =
     bindE (type_is_btype t) (\<lambda>b.
       (case b of
          None \<Rightarrow> Inr False
        | Some b \<Rightarrow>
          if p = type_unknown then Inr True
          else bindE (anysign env p) (\<lambda>x. bindE (anysign env (bt_primitive b)) (\<lambda>y. Inr (x = y)))))"

definition type_is_ptr :: "ctype option \<Rightarrow> ctype option outcome" where
  "type_is_ptr r = bindE (type_is r K_ptr) (\<lambda>t. Inr (Option.bind t type_ref))"

definition type_is_ptr_or_block :: "ctype option \<Rightarrow> ctype option outcome" where
  "type_is_ptr_or_block r =
     bindE (type_is_ptr r) (\<lambda>t.
       if t \<noteq> None then Inr t
       else bindE (type_is r K_block) (\<lambda>b. case b of None \<Rightarrow> Inr None | Some b \<Rightarrow> type_next b))"

definition type_is_array :: "ctype option \<Rightarrow> ctype option outcome" where
  "type_is_array r = bindE (type_is r K_array) (\<lambda>t. Inr (Option.bind t type_ref))"

definition type_is_s_or_u_or_e :: "ctype option \<Rightarrow> nat option outcome" where
  "type_is_s_or_u_or_e r =
     bindE (type_is_btype r) (\<lambda>b. Inr (case b of None \<Rightarrow> None | Some b \<Rightarrow> bt_sue b))"

definition type_is_enum :: "tenv \<Rightarrow> ctype option \<Rightarrow> nat option outcome" where
  "type_is_enum env t =
     bindE (type_is_s_or_u_or_e t) (\<lambda>s.
       Inr (case s of None \<Rightarrow> None
            | Some n \<Rightarrow> if sue_primitive (te_sues env n) = type_enum then Some n else None))"

definition type_is_s_or_u :: "tenv \<Rightarrow> ctype option \<Rightarrow> nat option outcome" where
  "type_is_s_or_u env r =
     bindE (type_is_s_or_u_or_e r) (\<lambda>s.
       Inr (case s of None \<Rightarrow> None
            | Some n \<Rightarrow> if sue_primitive (te_sues env n) \<noteq> type_enum then Some n else None))"

definition type_is_scalar :: "tenv \<Rightarrow> ctype \<Rightarrow> bool outcome" where
  "type_is_scalar env r =
     bindE (type_is_s_or_u env (Some r)) (\<lambda>s.
       if s \<noteq> None then Inr False
       else bindE (type_is_array (Some r)) (\<lambda>a. Inr (a = None)))"

definition type_is_func_or_block :: "ctype \<Rightarrow> ctype option outcome" where
  "type_is_func_or_block r =
     bindE (type_is (Some r) K_func) (\<lambda>t.
       if t \<noteq> None then Inr t
       else bindE (type_is (Some r) K_block) (\<lambda>b.
         (case b of
            None \<Rightarrow> Inr None
          | Some b \<Rightarrow> bindE (type_next b) (\<lambda>n.
              (case n of
                 None \<Rightarrow> Inl Null_deref
               | Some n \<Rightarrow> bindE (type_skip_all n) (\<lambda>t.
                   if kind_of t = K_func then Inr (Some t)
                   else Inl (Assert_failed ''block->next not func?'')))))))"

definition type_get_type :: "ctype \<Rightarrow> btype option outcome" where
  "type_get_type t =
     bindE (type_skip_all t) (\<lambda>t. Inr (case t of T_btype b \<Rightarrow> Some b | _ \<Rightarrow> None))"

definition type_get_primitive :: "ctype \<Rightarrow> type_primitive outcome" where
  "type_get_primitive t =
     bindE (type_get_type t) (\<lambda>bt. Inr (case bt of Some b \<Rightarrow> bt_primitive b | None \<Rightarrow> type_unknown))"

definition prim_integral :: "type_primitive \<Rightarrow> bool" where
  "prim_integral p \<longleftrightarrow>
     p \<in> {type_int, type_uint, type_nchar, type_schar, type_uchar, type__Bool, type_short,
          type_ushort, type_long, type_ulong, type_llong, type_ullong, type_enum}"

definition type_is_integral :: "ctype option \<Rightarrow> bool outcome" where
  "type_is_integral r =
     bindE (type_is_btype r) (\<lambda>b. Inr (case b of None \<Rightarrow> False | Some b \<Rightarrow> prim_integral (bt_primitive b)))"

definition type_is_floating :: "ctype option \<Rightarrow> bool outcome" where
  "type_is_floating r =
     bindE (type_is_btype r) (\<lambda>b. Inr (case b of None \<Rightarrow> False | Some b \<Rightarrow> type_floating (bt_primitive b)))"

datatype type_boolish = TYPE_BOOLISH_NO | TYPE_BOOLISH_OK | TYPE_BOOLISH_CONV

definition type_bool_category :: "ctype \<Rightarrow> type_boolish outcome" where
  "type_bool_category t =
     bindE (type_is_ptr_or_block (Some t)) (\<lambda>p.
       if p \<noteq> None then Inr TYPE_BOOLISH_OK
       else bindE (type_is (Some t) K_btype) (\<lambda>b.
         if b = None then Inr TYPE_BOOLISH_NO
         else bindE (type_is_integral b) (\<lambda>i.
           if i then Inr TYPE_BOOLISH_OK
           else bindE (type_is_floating b) (\<lambda>f.
             Inr (if f then TYPE_BOOLISH_CONV else TYPE_BOOLISH_NO)))))"

definition type_is_fptr :: "ctype \<Rightarrow> bool outcome" where
  "type_is_fptr r = bindE (type_is_ptr (Some r)) (\<lambda>t. bindE (type_is t K_func) (\<lambda>f. Inr (f \<noteq> None)))"

definition type_is_nonfptr :: "ctype \<Rightarrow> bool outcome" where
  "type_is_nonfptr r =
     bindE (type_is_ptr (Some r)) (\<lambda>t.
       if t = None then Inr False else bindE (type_is t K_func) (\<lambda>f. Inr (f = None)))"

definition type_is_void_ptr :: "ctype \<Rightarrow> bool outcome" where
  "type_is_void_ptr r = bindE (type_is_ptr (Some r)) (\<lambda>t. type_is_primitive t type_void)"

definition type_is_nonvoid_ptr :: "ctype \<Rightarrow> bool outcome" where
  "type_is_nonvoid_ptr r =
     bindE (type_is_ptr (Some r)) (\<lambda>t.
       if t = None then Inr False else bindE (type_is_primitive t type_void) (\<lambda>v. Inr (\<not> v)))"

definition type_is_arith :: "ctype option \<Rightarrow> bool outcome" where
  "type_is_arith t =
     bindE (type_is t K_btype) (\<lambda>b.
       if b = None then Inr False
       else bindE (type_is_integral b) (\<lambda>i. bindE (type_is_floating b) (\<lambda>f. Inr (i \<or> f))))"

lemma type_skip_size: "type_skip stops t = Inr t' \<Longrightarrow> size t' \<le> size t"
proof (induction stops t rule: type_skip.induct)
  case (1 stops type_of a d)
  show ?case
  proof (cases "STOP_AT_TDEF \<in> stops")
    case True
    then show ?thesis using "1.prems" by simp
  next
    case False
    then obtain r where r: "tdef_next type_of d = Inr r" "type_skip stops r = Inr t'"
      using "1.prems" by (auto elim: bindE_InrE)
    then show ?thesis using "1.IH" [OF False r(1)] tdef_next_size [OF r(1), of a] by simp
  qed
qed (auto split: if_splits)

lemma type_is_size: "type_is (Some t) k = Inr (Some t') \<Longrightarrow> size t' \<le> size t"
  by (auto simp: type_is_def type_skip_all_def elim!: bindE_InrE split: if_splits dest: type_skip_size)

fun type_is_complete_1 :: "tenv \<Rightarrow> (ctype \<Rightarrow> bool outcome) \<Rightarrow> ctype \<Rightarrow> bool outcome" where
  "type_is_complete_1 env rec T_auto = Inl (Ice ''__auto_type'')"
| "type_is_complete_1 env rec (T_btype t) =
     (case bt_primitive t of
        type_void \<Rightarrow> Inr False
      | type_struct \<Rightarrow> (case bt_sue t of None \<Rightarrow> Inl Null_deref | Some s \<Rightarrow> Inr (sue_is_complete (te_sues env s)))
      | type_union \<Rightarrow> (case bt_sue t of None \<Rightarrow> Inl Null_deref | Some s \<Rightarrow> Inr (sue_is_complete (te_sues env s)))
      | type_enum \<Rightarrow> (case bt_sue t of None \<Rightarrow> Inl Null_deref | Some s \<Rightarrow> Inr (sue_is_complete (te_sues env s)))
      | _ \<Rightarrow> Inr True)"
| "type_is_complete_1 env rec (T_array t s v) =
     (if v \<noteq> VLA_NO \<or> s \<noteq> None then rec t else Inr False)"
| "type_is_complete_1 env rec (T_func t fa) = Inr True"
| "type_is_complete_1 env rec (T_ptr t d) = Inr True"
| "type_is_complete_1 env rec (T_block t) = Inr True"
| "type_is_complete_1 env rec t = Inl (Ice ''should've been skipped'')"

lemma type_is_complete_1_cong [fundef_cong]:
  assumes "t = t'" and "\<And>u s v. t' = T_array u s v \<Longrightarrow> rec u = rec' u"
  shows "type_is_complete_1 env rec t = type_is_complete_1 env rec' t'"
  using assms by (cases t') auto

function type_is_complete :: "tenv \<Rightarrow> ctype \<Rightarrow> bool outcome" where
  "type_is_complete env r =
     bindE (type_skip_all r) (\<lambda>r. type_is_complete_1 env (type_is_complete env) r)"
  by pat_completeness auto
termination
  by (relation "measure (\<lambda>(env, r). size r)")
    (auto simp: type_skip_all_def dest!: type_skip_size)

declare type_is_complete.simps [simp del]

lemma type_next_size: "type_next t = Inr (Some n) \<Longrightarrow> size n < size t"
proof -
  assume "type_next t = Inr (Some n)"
  then obtain s where s: "type_skip {} t = Inr s" "concrete_next s = Inr (Some n)"
    by (auto simp: type_next_def type_skip_all_def elim: bindE_InrE)
  then have "size n < size s" by (cases s rule: concrete_next.cases) auto
  then show ?thesis using type_skip_size [OF s(1)] by simp
qed

text \<open>The first variable-length dimension; \<open>top_only\<close> is \<^verbatim>\<open>VLA_TOP_DIMENSION\<close>.\<close>

function type_is_vla :: "ctype \<Rightarrow> bool \<Rightarrow> ctype option outcome" where
  "type_is_vla ty top_only =
     bindE (type_is (Some ty) K_array) (\<lambda>a.
       (case a of
          Some (T_array t s v) \<Rightarrow>
            if v \<noteq> VLA_NO then Inr (Some (T_array t s v))
            else if top_only then Inr None else type_is_vla t top_only
        | _ \<Rightarrow> Inr None))"
  by pat_completeness auto
termination
  by (relation "measure (\<lambda>(ty, top). size ty)") (auto dest!: type_is_size)

declare type_is_vla.simps [simp del]

text \<open>The result of \<open>variably_loop\<close> is the return value and \<^verbatim>\<open>*vla\<close>.\<close>

function variably_loop :: "ctype \<Rightarrow> bool \<Rightarrow> (bool \<times> bool) outcome" where
  "variably_loop ti first =
     bindE (type_is (Some ti) K_array) (\<lambda>test.
       (case test of
          Some (T_array t s v) \<Rightarrow>
            if v \<noteq> VLA_NO then Inr (True, first)
            else bindE (type_next ti) (\<lambda>n.
              case n of None \<Rightarrow> Inr (False, False) | Some n \<Rightarrow> variably_loop n False)
        | _ \<Rightarrow> bindE (type_next ti) (\<lambda>n.
              case n of None \<Rightarrow> Inr (False, False) | Some n \<Rightarrow> variably_loop n False)))"
  by pat_completeness auto
termination
  by (relation "measure (\<lambda>(ti, first). size ti)") (auto dest!: type_next_size)

declare variably_loop.simps [simp del]

definition type_is_variably_modified_vla :: "ctype \<Rightarrow> (bool \<times> bool) outcome" where
  "type_is_variably_modified_vla ty = variably_loop ty True"

definition type_is_variably_modified :: "ctype \<Rightarrow> bool outcome" where
  "type_is_variably_modified ty = bindE (type_is_variably_modified_vla ty) (\<lambda>(r, _). Inr r)"

definition type_is_incomplete_array :: "ctype \<Rightarrow> bool outcome" where
  "type_is_incomplete_array r =
     bindE (type_is (Some r) K_array) (\<lambda>a.
       Inr (case a of Some (T_array t s v) \<Rightarrow> s = None | _ \<Rightarrow> False))"

definition type_func_call :: "ctype \<Rightarrow> (ctype \<times> funcargs) outcome" where
  "type_func_call fp =
     bindE (type_skip_all fp) (\<lambda>fp.
     bindE
       (case fp of
          T_ptr r d \<Rightarrow> type_is (Some r) K_func
        | T_block r \<Rightarrow> type_is (Some r) K_func
        | T_func r fa \<Rightarrow> Inr (Some (T_func r fa))
        | _ \<Rightarrow> Inl (Ice ''can't func-deref non func-ptr/block ref''))
       (\<lambda>f. case f of
              Some (T_func r fa) \<Rightarrow> bindE (type_skip_all r) (\<lambda>r. Inr (r, fa))
            | _ \<Rightarrow> Inl (Assert_failed ''not a func for fcall'')))"

definition type_decayable :: "ctype \<Rightarrow> bool outcome" where
  "type_decayable r =
     bindE (type_skip_all r) (\<lambda>t. Inr (kind_of t = K_array \<or> kind_of t = K_func))"

definition type_is_void :: "ctype option \<Rightarrow> bool outcome" where
  "type_is_void r = type_is_primitive r type_void"

function type_is_signed :: "tenv \<Rightarrow> ctype \<Rightarrow> bool outcome" where
  "type_is_signed env (T_btype b) = btype_is_signed env b"
| "type_is_signed env (T_ptr t d) = Inr True"
| "type_is_signed env (T_tdef type_of a d) = bindE (tdef_next type_of d) (type_is_signed env)"
| "type_is_signed env (T_block t) = type_is_signed env t"
| "type_is_signed env (T_func t fa) = type_is_signed env t"
| "type_is_signed env (T_array t s v) = type_is_signed env t"
| "type_is_signed env T_auto = Inr False"
| "type_is_signed env (T_cast q t) = type_is_signed env t"
| "type_is_signed env (T_attr a t) = type_is_signed env t"
| "type_is_signed env (T_where t) = type_is_signed env t"
  by pat_completeness auto
termination
proof (relation "measure (\<lambda>(env, t). size t)")
  fix env :: tenv and type_of a d r
  assume "tdef_next type_of d = Inr r"
  then show "((env, r), env, T_tdef type_of a d) \<in> measure (\<lambda>(env, t). size t)"
    using tdef_next_size [of type_of d r a] by simp
qed simp_all

text \<open>\<^verbatim>\<open>type_qual\<close> goes through the \<^verbatim>\<open>typeof\<close> expression of a typedef, not its declaration.\<close>

fun type_qual :: "ctype \<Rightarrow> qual" where
  "type_qual (T_where t) = type_qual t"
| "type_qual (T_attr a t) = type_qual t"
| "type_qual (T_cast q t) = q OR type_qual t"
| "type_qual (T_tdef type_of a d) = (case type_of of None \<Rightarrow> qual_none | Some t \<Rightarrow> type_qual t)"
| "type_qual _ = qual_none"

definition type_primitive_of :: "ctype \<Rightarrow> type_primitive outcome" where
  "type_primitive_of ty =
     bindE (type_is_btype (Some ty)) (\<lambda>b.
       case b of None \<Rightarrow> Inl (Assert_failed ''not primitive?'') | Some b \<Rightarrow> Inr (bt_primitive b))"

definition type_resolve_func :: "ctype \<Rightarrow> (ctype \<times> funcargs) outcome" where
  "type_resolve_func t =
     bindE (type_skip_all t) (\<lambda>t.
     bindE (case t of T_ptr r d \<Rightarrow> type_skip_all r | T_block r \<Rightarrow> type_skip_all r | _ \<Rightarrow> Inr t) (\<lambda>t.
       case t of T_func r fa \<Rightarrow> Inr (r, fa) | _ \<Rightarrow> Inl (Assert_failed ''not a function type'')))"

definition type_funcargs :: "ctype \<Rightarrow> funcargs outcome" where
  "type_funcargs r = bindE (type_resolve_func r) (\<lambda>(_, fa). Inr fa)"

definition type_is_callable :: "ctype \<Rightarrow> bool outcome" where
  "type_is_callable r =
     bindE (type_skip_all r) (\<lambda>r.
       case r of
         T_ptr t d \<Rightarrow> bindE (type_is (Some t) K_func) (\<lambda>f. Inr (f \<noteq> None))
       | T_block t \<Rightarrow> bindE (type_is (Some t) K_func) (\<lambda>f. Inr (f \<noteq> None))
       | _ \<Rightarrow> Inr False)"

definition type_is_const :: "ctype \<Rightarrow> bool outcome" where
  "type_is_const ty =
     bindE (type_is_array (Some ty)) (\<lambda>a.
       let nonarray = (case a of None \<Rightarrow> ty | Some t \<Rightarrow> t) in
       Inr (type_qual nonarray AND qual_const \<noteq> 0))"

text \<open>\<^verbatim>\<open>const_fold_val_i\<close> on the size expression of an array.\<close>

definition fold_val_i :: "u64 option \<Rightarrow> u64 outcome" where
  "fold_val_i e = (case e of Some v \<Rightarrow> Inr v | None \<Rightarrow> Inl (Assert_failed ''not an integer constant''))"

definition type_array_len :: "ctype \<Rightarrow> u32 outcome" where
  "type_array_len r =
     bindE (type_is (Some r) K_array) (\<lambda>a.
       case a of
         Some (T_array t s v) \<Rightarrow>
           (case s of
              None \<Rightarrow> Inl (Assert_failed ''array len of []'')
            | Some e \<Rightarrow> bindE (fold_val_i e) (\<lambda>n. Inr (ucast n)))
       | _ \<Rightarrow> Inl (Assert_failed ''not an array''))"

definition type_is_variadic_func :: "ctype \<Rightarrow> bool outcome" where
  "type_is_variadic_func r =
     bindE (type_is (Some r) K_func) (\<lambda>f.
       Inr (case f of Some (T_func t fa) \<Rightarrow> fa_variadic fa | _ \<Rightarrow> False))"

definition type_is_autotype :: "ctype \<Rightarrow> bool outcome" where
  "type_is_autotype t = bindE (type_skip_all t) (\<lambda>t. Inr (kind_of t = K_auto))"

definition type_is_decayed_array :: "ctype \<Rightarrow> ctype option outcome" where
  "type_is_decayed_array r =
     bindE (type_is (Some r) K_ptr) (\<lambda>p. Inr (case p of Some (T_ptr t d) \<Rightarrow> d | _ \<Rightarrow> None))"

section \<open>Attributes of types\<close>

text \<open>\<^verbatim>\<open>attr_present\<close> and \<^verbatim>\<open>type_attr_present\<close> of \<^verbatim>\<open>attribute.c\<close>.\<close>

definition attr_present :: "attribute list \<Rightarrow> attr_kind \<Rightarrow> attribute option" where
  "attr_present attrs k = List.find (\<lambda>a. at_kind a = k) attrs"

fun type_attr_present :: "tenv \<Rightarrow> ctype \<Rightarrow> attr_kind \<Rightarrow> attribute option outcome" where
  "type_attr_present env T_auto k = Inl (Assert_failed ''__auto_type'')"
| "type_attr_present env (T_btype b) k =
     Inr (case bt_sue b of None \<Rightarrow> None | Some s \<Rightarrow> attr_present (sue_attr (te_sues env s)) k)"
| "type_attr_present env (T_tdef type_of attrs d) k =
     (case Option.bind d (\<lambda>(_, da, _). attr_present da k) of
        Some a \<Rightarrow> Inr (Some a)
      | None \<Rightarrow> Inr (attr_present attrs k))"
| "type_attr_present env (T_attr attrs t) k =
     (case attr_present attrs k of Some a \<Rightarrow> Inr (Some a) | None \<Rightarrow> type_attr_present env t k)"
| "type_attr_present env (T_ptr t d) k = type_attr_present env t k"
| "type_attr_present env (T_block t) k = type_attr_present env t k"
| "type_attr_present env (T_func t fa) k = type_attr_present env t k"
| "type_attr_present env (T_array t s v) k = type_attr_present env t k"
| "type_attr_present env (T_cast q t) k = type_attr_present env t k"
| "type_attr_present env (T_where t) k = type_attr_present env t k"

section \<open>Sizes and alignments\<close>

function type_size :: "tenv \<Rightarrow> ctype \<Rightarrow> u32 outcome" where
  "type_size env T_auto = Inl (Ice ''__auto_type'')"
| "type_size env (T_btype b) = btype_size env b"
| "type_size env (T_tdef type_of a d) = bindE (tdef_next type_of d) (type_size env)"
| "type_size env (T_attr a t) = type_size env t"
| "type_size env (T_cast q t) = type_size env t"
| "type_size env (T_where t) = type_size env t"
| "type_size env (T_ptr t d) = Inr (platform_word_size (te_platform env))"
| "type_size env (T_block t) = Inr (platform_word_size (te_platform env))"
| "type_size env (T_func t fa) = Inr 1"
| "type_size env (T_array t s v) =
     bindE (type_is_void (Some t)) (\<lambda>void.
       if void then Inl (Died ''array of void'')
       else (case s of
               None \<Rightarrow> Inl (Died ''array has an incomplete size'')
             | Some e \<Rightarrow> bindE (fold_val_i e) (\<lambda>sz. bindE (type_size env t) (\<lambda>n.
                 Inr (ucast (sz * ucast n))))))"
  by pat_completeness auto
termination
proof (relation "measure (\<lambda>(env, t). size t)")
  fix env :: tenv and type_of a d r
  assume "tdef_next type_of d = Inr r"
  then show "((env, r), env, T_tdef type_of a d) \<in> measure (\<lambda>(env, t). size t)"
    using tdef_next_size [of type_of d r a] by simp
qed simp_all

text \<open>
  The alignment below the attribute check; the recursion of the source for an array of an
  aligned element goes through the attribute check again.
\<close>

function type_align_with_attr :: "tenv \<Rightarrow> bool \<Rightarrow> ctype \<Rightarrow> u32 outcome" where
  "type_align_with_attr env with_attributes r =
     bindE (if with_attributes then type_attr_present env r attr_aligned else Inr None) (\<lambda>al.
       case al of
         Some a \<Rightarrow>
           (case at_align a of
              Some (Some v) \<Rightarrow> Inr (ucast v)
            | Some None \<Rightarrow> Inl (Assert_failed ''k.type == CONST_NUM'')
            | None \<Rightarrow> Inr (platform_align_max (te_platform env)))
       | None \<Rightarrow>
           bindE (type_is_s_or_u env (Some r)) (\<lambda>s.
             case s of
               Some n \<Rightarrow>
                 (if \<not> sue_folded_fully (te_sues env n)
                  then Inl (Assert_failed ''sue->foldprog == SUE_FOLDED_FULLY'')
                  else sue_align (te_sues env n))
             | None \<Rightarrow>
                 bindE (type_skip_all r) (\<lambda>t.
                   case t of
                     T_ptr u d \<Rightarrow> Inr (platform_word_size (te_platform env))
                   | T_block u \<Rightarrow> Inr (platform_word_size (te_platform env))
                   | T_btype b \<Rightarrow> btype_align env b
                   | T_array u sz v \<Rightarrow> type_align_with_attr env True u
                   | _ \<Rightarrow> Inr 1)))"
  by pat_completeness auto
termination
  by (relation "measure (\<lambda>(env, w, r). size r)") (auto simp: type_skip_all_def dest!: type_skip_size)

declare type_align_with_attr.simps [simp del]

definition type_align_no_attr :: "tenv \<Rightarrow> ctype \<Rightarrow> u32 outcome" where
  "type_align_no_attr env r = type_align_with_attr env False r"

definition type_align :: "tenv \<Rightarrow> ctype \<Rightarrow> u32 outcome" where
  "type_align env r = type_align_with_attr env True r"

definition type_max :: "tenv \<Rightarrow> ctype \<Rightarrow> u64 outcome" where
  "type_max env r =
     bindE (type_size env r) (\<lambda>sz.
     bindE (type_is_signed env r) (\<lambda>is_signed.
       let bits = sz * 8; sh = 64 - unat bits in
       if unat bits = 0 \<or> 64 < unat bits then Inl (Undefined ''shift'')
       else let max = drop_bit sh (- 1) in Inr (if is_signed then max div 2 - 1 else max)))"

definition type_is_promotable :: "tenv \<Rightarrow> ctype \<Rightarrow> type_primitive option outcome" where
  "type_is_promotable env t =
     bindE (type_is_arith (Some t)) (\<lambda>ar.
       if \<not> ar then Inr None
       else bindE (type_is_floating (Some t)) (\<lambda>f.
         let prim = (if f then type_double else type_int) in
         bindE (type_size env t) (\<lambda>sz.
         bindE (type_primitive_size env prim) (\<lambda>psz.
           Inr (if sz < psz then Some prim else None)))))"

fun not_less_loop :: "tenv \<Rightarrow> u32 \<Rightarrow> bool \<Rightarrow> type_primitive list \<Rightarrow> type_primitive outcome" where
  "not_less_loop env sz is_signed [] = Inr type_unknown"
| "not_less_loop env sz is_signed (p # ps) =
     bindE (type_primitive_size env p) (\<lambda>psz.
       if sz \<ge> psz then
         Inr (if is_signed then
                (if TYPE_PRIMITIVE_IS_CHAR p then type_schar else TYPE_PRIMITIVE_TO_SIGNED p)
              else p)
       else not_less_loop env sz is_signed ps)"

definition type_primitive_not_less_than_size :: "tenv \<Rightarrow> u32 \<Rightarrow> bool \<Rightarrow> type_primitive outcome" where
  "type_primitive_not_less_than_size env sz is_signed =
     not_less_loop env sz is_signed [type_ulong, type_uint, type_ushort, type_uchar]"

section \<open>Sizes and alignments agree\<close>

text \<open>A 64-bit Linux target with one struct of twelve bytes, for the examples.\<close>

definition example_env :: tenv where
  "example_env = \<lparr>te_platform = \<lparr>pl_arch = ARCH_x86_64, pl_sys = SYS_linux\<rparr>,
     te_signed_char = True, te_plan9 = False,
     te_sues = (\<lambda>_. \<lparr>sue_primitive = type_struct, sue_attr = [], sue_membs_complete = True,
       sue_folded_fully = True, sue_align_field = 4, sue_size_field = 12\<rparr>)\<rparr>"

definition example_int :: ctype where
  "example_int = T_btype \<lparr>bt_primitive = type_int, bt_sue = None\<rparr>"

definition example_tdef :: ctype where
  "example_tdef = T_tdef None [] (Some (1, [], T_array (T_cast 1 example_int) (Some (Some 4)) VLA_NO))"

text \<open>
  Structs, unions and enums as their layout leaves them: the alignment is a power of two
  that divides the size.  A type without any \<^verbatim>\<open>aligned\<close> attribute.
\<close>

definition aligned_size :: "u32 \<Rightarrow> u32 \<Rightarrow> bool" where
  "aligned_size n a \<longleftrightarrow> (\<exists>k<32. unat a = 2 ^ k) \<and> unat a dvd unat n"

definition sues_aligned :: "tenv \<Rightarrow> bool" where
  "sues_aligned env \<longleftrightarrow>
     (\<forall>n. attr_present (sue_attr (te_sues env n)) attr_aligned = None \<and>
          aligned_size (sue_size_field (te_sues env n)) (sue_align_field (te_sues env n)))"

fun no_aligned :: "ctype \<Rightarrow> bool" where
  "no_aligned (T_btype b) = (bt_sue b \<noteq> None \<longrightarrow> bt_primitive b \<noteq> type_int)"
| "no_aligned (T_tdef t as (Some (n, das, r))) =
     (no_aligned r \<and> attr_present as attr_aligned = None \<and> attr_present das attr_aligned = None)"
| "no_aligned (T_tdef (Some r) as None) = (no_aligned r \<and> attr_present as attr_aligned = None)"
| "no_aligned (T_tdef None as None) = (attr_present as attr_aligned = None)"
| "no_aligned (T_attr as t) = (attr_present as attr_aligned = None \<and> no_aligned t)"
| "no_aligned (T_ptr t d) = no_aligned t"
| "no_aligned (T_block t) = no_aligned t"
| "no_aligned (T_func t fa) = no_aligned t"
| "no_aligned (T_array t s v) = no_aligned t"
| "no_aligned (T_cast q t) = no_aligned t"
| "no_aligned (T_where t) = no_aligned t"
| "no_aligned T_auto = True"

lemma no_aligned_absent:
  "sues_aligned env \<Longrightarrow> no_aligned t \<Longrightarrow>
     type_attr_present env t attr_aligned = Inr None \<or> (\<exists>e. type_attr_present env t attr_aligned = Inl e)"
  by (induction t rule: no_aligned.induct) (auto simp: sues_aligned_def split: option.splits)

lemma tdef_next_no_aligned:
  "tdef_next t d = Inr r \<Longrightarrow> no_aligned (T_tdef t as d) \<Longrightarrow> no_aligned r"
  by (cases d; cases t) (auto simp: tdef_next_def)

lemma type_skip_aligned:
  "stops = {} \<Longrightarrow> type_skip stops t = Inr s \<Longrightarrow> no_aligned t \<Longrightarrow>
     no_aligned s \<and> type_size env t = type_size env s"
proof (induction stops t rule: type_skip.induct)
  case (1 stops type_of a d)
  then obtain r where r: "tdef_next type_of d = Inr r" "type_skip stops r = Inr s"
    by (auto elim: bindE_InrE)
  then show ?case
    using "1.IH" [OF _ r(1) "1.prems"(1) r(2)] tdef_next_no_aligned [OF r(1) "1.prems"(3)] "1.prems"(1)
    by simp
qed auto

lemma aligned_size_self:
  assumes "unat a = 2 ^ k" "k < 32"
  shows "aligned_size a a"
  using assms by (auto simp: aligned_size_def)

lemma aligned_size_consts [simp]:
  "aligned_size 1 1" "aligned_size 2 2" "aligned_size 4 4" "aligned_size 8 8" "aligned_size 16 16"
  using aligned_size_self [of 1 0] aligned_size_self [of 2 1] aligned_size_self [of 4 2]
    aligned_size_self [of 8 3] aligned_size_self [of 16 4] by simp_all

lemma aligned_size_1 [simp]: "aligned_size n 1"
  by (auto simp: aligned_size_def intro: exI [of _ 0])

lemma btype_aligned:
  assumes "sues_aligned env" "\<not> IS_32_BIT env" "bt_sue b \<noteq> None \<longrightarrow> bt_primitive b \<noteq> type_int"
    and "btype_size env b = Inr n" "btype_align env b = Inr a"
  shows "aligned_size n a"
proof (cases "bt_sue b")
  case None
  then show ?thesis using assms
    by (cases "bt_primitive b") (simp_all add: btype_size_def btype_align_def type_primitive_size_def)
next
  case (Some s)
  then have "sue_size (te_sues env s) = Inr n" "sue_align (te_sues env s) = Inr a"
    using assms by (simp_all add: btype_size_def btype_align_def)
  then show ?thesis using assms(1)
    by (auto simp: sue_size_def sue_align_def sues_aligned_def elim!: bindE_InrE split: if_splits)
qed

lemma aligned_size_scale:
  fixes z :: u64
  assumes "aligned_size n a"
  shows "aligned_size (ucast (z * ucast n)) a"
proof -
  obtain k where k: "k < 32" "unat a = 2 ^ k" and d: "unat a dvd unat n"
    using assms by (auto simp: aligned_size_def)
  have m: "unat (ucast (z * ucast n) :: u32) = (unat z * unat n) mod 2 ^ 64 mod 2 ^ 32"
    by (simp add: unsigned_ucast_eq unat_word_ariths take_bit_eq_mod mod_mult_right_eq)
  have "(2 ^ k :: nat) dvd 2 ^ 64" "(2 ^ k :: nat) dvd 2 ^ 32"
    using k(1) by (intro le_imp_power_dvd; simp)+
  then have "2 ^ k dvd (unat z * unat n) mod 2 ^ 64 mod 2 ^ 32"
    using d k(2) by (simp add: dvd_mod_iff)
  then show ?thesis using k m by (auto simp: aligned_size_def)
qed

lemma type_size_aligned:
  assumes "sues_aligned env" "\<not> IS_32_BIT env" "no_aligned t"
    and "type_size env t = Inr n" "type_align_with_attr env w t = Inr a"
  shows "aligned_size n a"
  using assms
proof (induction "size t" arbitrary: t w n a rule: less_induct)
  case less
  have ws: "platform_word_size (te_platform env) = 8"
    using less.prems(2) by (auto simp: IS_32_BIT_def platform_32bit_def platform_word_size_def split: arch.splits)
  have na: "type_attr_present env t attr_aligned = Inr x \<Longrightarrow> x = None" for x
    using no_aligned_absent [OF less.prems(1,3)] by auto
  note al = less.prems(5) [unfolded type_align_with_attr.simps [of env w t]]
  obtain s' where s': "type_is_s_or_u env (Some t) = Inr s'"
    using al by (auto elim!: bindE_InrE split: if_splits option.splits dest: na)
  obtain s where s: "type_skip_all t = Inr s"
    using s' by (auto simp: type_is_s_or_u_def type_is_s_or_u_or_e_def type_is_btype_def type_is_def elim!: bindE_InrE)
  have skip: "no_aligned s" "type_size env t = type_size env s"
    using type_skip_aligned [OF refl, of t s env] s less.prems(3) by (simp_all add: type_skip_all_def)
  have step: "(case s' of Some k \<Rightarrow> (\<exists>b. s = T_btype b \<and> bt_sue b = Some k) \<and> sue_align (te_sues env k) = Inr a
      | None \<Rightarrow> (case s of
            T_ptr u d \<Rightarrow> Inr (platform_word_size (te_platform env))
          | T_block u \<Rightarrow> Inr (platform_word_size (te_platform env))
          | T_btype b \<Rightarrow> btype_align env b
          | T_array u sz v \<Rightarrow> type_align_with_attr env True u
          | _ \<Rightarrow> Inr 1) = Inr a)"
    using al s' s
    by (auto dest: na simp: type_is_s_or_u_def type_is_s_or_u_or_e_def type_is_btype_def type_is_def
        elim!: bindE_InrE split: if_splits option.splits ctype.splits)
  show ?case
  proof (cases s')
    case (Some k)
    then obtain b where b: "s = T_btype b" "bt_sue b = Some k" "btype_align env b = Inr a"
      using step by (auto simp: btype_align_def)
    moreover have "btype_size env b = Inr n" using b skip(2) less.prems(4) by simp
    ultimately show ?thesis using btype_aligned [OF less.prems(1,2), of b n a] skip(1) by simp
  next
    case None
    show ?thesis
    proof (cases s)
      case (T_btype b)
      then have "btype_size env b = Inr n" "btype_align env b = Inr a"
        using None step skip(2) less.prems(4) by simp_all
      then show ?thesis using btype_aligned [OF less.prems(1,2), of b n a] skip(1) T_btype by simp
    next
      case (T_array u sz v)
      then have "type_align_with_attr env True u = Inr a" "size u < size t" "no_aligned u"
        using None step skip type_skip_size [of "{}" t s] s by (auto simp: type_skip_all_def)
      moreover obtain z m where "type_size env u = Inr m" "n = ucast (z * ucast m :: u64)"
        using less.prems(4) unfolding skip(2) T_array
        by (auto elim!: bindE_InrE split: if_splits option.splits)
      ultimately show ?thesis using less.hyps less.prems(1,2) aligned_size_scale by blast
    qed (use None step skip less.prems(4) ws s in \<open>auto simp: type_skip_all_def\<close>)
  qed
qed





end
