(* ===== verification/Ucc_Type_Cmp.thy ===== *)
theory Ucc_Type_Cmp
  imports Ucc_Type_Is
begin

text \<open>
  Comparison of types: \<^verbatim>\<open>type_cmp_r\<close> and \<^verbatim>\<open>type_cmp\<close> of \<^verbatim>\<open>src/cc1/type.c\<close>, mutually
  recursive with \<^verbatim>\<open>funcargs_cmp\<close> of \<^verbatim>\<open>src/cc1/funcargs.c\<close>.  The function \<^verbatim>\<open>type_cmp\<close> is
  \<open>type_compare\<close> here, since \<open>type_cmp\<close> is the type of its results.  The only option,
  \<^verbatim>\<open>TYPE_CMP_ALLOW_TENATIVE_ARRAY\<close>, is a boolean; \<open>membs\<close> gives the types of the members
  of a struct or union, which the plan 9 extension looks at.
\<close>

section \<open>Qualifiers and attributes\<close>

definition type_qual_cmp_1 :: "qual \<Rightarrow> qual \<Rightarrow> qual \<Rightarrow> int" where
  "type_qual_cmp_1 a b m =
     (let d = of_bool (a AND m \<noteq> 0) - (of_bool (b AND m \<noteq> 0) :: int) in
      if d = 0 then 0 else if d = 1 then -1 else 1)"

definition type_qual_cmp :: "qual \<Rightarrow> qual \<Rightarrow> int" where
  "type_qual_cmp a0 b0 =
     (let a = a0 AND NOT qual_restrict; b = b0 AND NOT qual_restrict in
      if a = b then 0
      else let r = type_qual_cmp_1 a b qual_const in
        if r \<noteq> 0 then r
        else let r = type_qual_cmp_1 a b qual_volatile in
          if r \<noteq> 0 then r else 0)"

definition type_attribute_missing1 :: "tenv \<Rightarrow> ctype \<Rightarrow> ctype \<Rightarrow> attr_kind \<Rightarrow> bool outcome" where
  "type_attribute_missing1 env ta tb attr =
     bindE (type_attr_present env tb attr) (\<lambda>pb.
       if pb = None then Inr False
       else bindE (type_attr_present env ta attr) (\<lambda>pa. Inr (pa = None)))"

fun missing_loop :: "tenv \<Rightarrow> ctype \<Rightarrow> ctype \<Rightarrow> attr_kind list \<Rightarrow> bool outcome" where
  "missing_loop env ta tb [] = Inr False"
| "missing_loop env ta tb (k # ks) =
     bindE (type_attribute_missing1 env ta tb k) (\<lambda>m. if m then Inr True else missing_loop env ta tb ks)"

definition type_attribute_missing :: "tenv \<Rightarrow> ctype \<Rightarrow> ctype \<Rightarrow> bool outcome" where
  "type_attribute_missing env ta tb = missing_loop env ta tb tymismatch_attrs"

section \<open>The stages of a comparison\<close>

text \<open>Short-circuit conjunction and disjunction.\<close>

definition andE :: "bool outcome \<Rightarrow> bool outcome \<Rightarrow> bool outcome" where
  "andE p q = bindE p (\<lambda>b. if b then q else Inr False)"

definition orE :: "bool outcome \<Rightarrow> bool outcome \<Rightarrow> bool outcome" where
  "orE p q = bindE p (\<lambda>b. if b then Inr True else q)"

definition nonnull :: "'a option outcome \<Rightarrow> bool outcome" where
  "nonnull p = bindE p (\<lambda>x. Inr (x \<noteq> None))"

text \<open>The branch of \<^verbatim>\<open>type_cmp_r\<close> for types of different kinds.\<close>

definition cmp_other_kind :: "ctype \<Rightarrow> ctype \<Rightarrow> type_cmp outcome" where
  "cmp_other_kind a b =
     bindE (andE (type_is_primitive (Some a) type__Bool) (nonnull (type_is_ptr (Some b)))) (\<lambda>c.
     if c then Inr TYPE_CONVERTIBLE_IMPLICIT else
     bindE (orE (andE (nonnull (type_is_ptr_or_block (Some a))) (type_is_integral (Some b)))
                (andE (nonnull (type_is_ptr_or_block (Some b))) (type_is_integral (Some a)))) (\<lambda>c.
     if c then Inr TYPE_CONVERTIBLE_EXPLICIT else
     bindE (type_is_void (Some a)) (\<lambda>c.
     if c then Inr TYPE_CONVERTIBLE_IMPLICIT else
     bindE (orE (andE (type_is_fptr a) (nonnull (type_is (Some b) K_block)))
                (andE (type_is_fptr b) (nonnull (type_is (Some a) K_block)))) (\<lambda>c.
     Inr (if c then TYPE_CONVERTIBLE_EXPLICIT else TYPE_NOT_EQUAL)))))"

text \<open>Whether two array sizes go together.\<close>

definition array_sizes_match ::
    "bool \<Rightarrow> u64 option option \<Rightarrow> vla_kind \<Rightarrow> u64 option option \<Rightarrow> vla_kind \<Rightarrow> bool outcome" where
  "array_sizes_match tentative sa va sb vb =
     (if va \<noteq> VLA_NO \<or> vb \<noteq> VLA_NO then Inr True
      else (case (sa, sb) of
              (Some ea, Some eb) \<Rightarrow>
                bindE (fold_val_i ea) (\<lambda>av. bindE (fold_val_i eb) (\<lambda>bv. Inr (av = bv)))
            | (None, None) \<Rightarrow> Inr True
            | _ \<Rightarrow> Inr tentative))"

fun find_sue_loop :: "tenv \<Rightarrow> nat \<Rightarrow> ctype list \<Rightarrow> ctype option outcome" where
  "find_sue_loop env needle [] = Inr None"
| "find_sue_loop env needle (d # ds) =
     bindE (type_is_s_or_u env (Some d)) (\<lambda>s.
       if s = Some needle then Inr (Some d) else find_sue_loop env needle ds)"

definition struct_union_member_find_sue ::
    "tenv \<Rightarrow> (nat \<Rightarrow> ctype list) \<Rightarrow> nat \<Rightarrow> nat \<Rightarrow> ctype option outcome" where
  "struct_union_member_find_sue env membs s needle =
     (if sue_primitive (te_sues env s) = type_enum then Inl (Assert_failed ''enum'')
      else find_sue_loop env needle (membs s))"

text \<open>
  The fixups of an unequal result, for types of the same kind; the second component is
  \<^verbatim>\<open>skip_pointer_explicit_decay\<close>.
\<close>

definition not_equal_fixup ::
    "tenv \<Rightarrow> (nat \<Rightarrow> ctype list) \<Rightarrow> ctype \<Rightarrow> ctype \<Rightarrow> type_cmp \<Rightarrow> (type_cmp \<times> bool) outcome" where
  "not_equal_fixup env membs a b ret =
     (if ret \<noteq> TYPE_NOT_EQUAL then Inr (ret, False)
      else if kind_of a = K_func then Inr (TYPE_CONVERTIBLE_EXPLICIT, False)
      else if kind_of a = K_ptr \<and> te_plan9 env then
        bindE (type_is_s_or_u env (type_ref a)) (\<lambda>sa.
        bindE (type_is_s_or_u env (type_ref b)) (\<lambda>sb.
          case (sa, sb) of
            (Some a_sue, Some b_sue) \<Rightarrow>
              bindE (struct_union_member_find_sue env membs b_sue a_sue) (\<lambda>m.
                Inr (if m \<noteq> None then (TYPE_CONVERTIBLE_IMPLICIT, True) else (ret, False)))
          | _ \<Rightarrow> Inr (ret, False)))
      else
        bindE (andE (nonnull (type_is_ptr (Some a))) (nonnull (type_is_ptr (Some b)))) (\<lambda>c.
          Inr (if c then TYPE_CONVERTIBLE_EXPLICIT else ret, False)))"

text \<open>The pointer stage: a conversion behind a pointer is explicit, qualifiers move one level down.\<close>

definition pointed_map :: "type_cmp \<Rightarrow> type_cmp" where
  "pointed_map ret =
     (case ret of
        TYPE_QUAL_ADD \<Rightarrow> TYPE_QUAL_POINTED_ADD
      | TYPE_QUAL_SUB \<Rightarrow> TYPE_QUAL_POINTED_SUB
      | TYPE_QUAL_POINTED_ADD \<Rightarrow> TYPE_QUAL_NESTED_CHANGE
      | TYPE_QUAL_POINTED_SUB \<Rightarrow> TYPE_QUAL_NESTED_CHANGE
      | _ \<Rightarrow> ret)"

definition pointer_stage :: "type_kind \<Rightarrow> type_cmp \<times> bool \<Rightarrow> type_cmp" where
  "pointer_stage k = (\<lambda>(ret, skip_decay).
     let ret = (if ret = TYPE_CONVERTIBLE_IMPLICIT \<and> k = K_ptr \<and> \<not> skip_decay
                then TYPE_CONVERTIBLE_EXPLICIT else ret)
     in if k = K_ptr \<or> k = K_block then pointed_map ret else ret)"

text \<open>The qualifier, attribute and typedef stages of an equal result.\<close>

definition qual_stage :: "qual \<Rightarrow> qual \<Rightarrow> type_cmp \<Rightarrow> type_cmp" where
  "qual_stage a_qual b_qual ret =
     (if \<not> TYPE_EQUAL_ANY ret then ret
      else if a_qual \<noteq> 0 \<and> b_qual \<noteq> 0 then
        (if type_qual_cmp a_qual b_qual = -1 then TYPE_QUAL_ADD
         else if type_qual_cmp a_qual b_qual = 1 then TYPE_QUAL_SUB else ret)
      else if a_qual \<noteq> 0 then TYPE_QUAL_ADD
      else if b_qual \<noteq> 0 then TYPE_QUAL_SUB
      else ret)"

definition attr_stage :: "tenv \<Rightarrow> ctype \<Rightarrow> ctype \<Rightarrow> type_cmp \<Rightarrow> type_cmp outcome" where
  "attr_stage env orig_a orig_b ret =
     (if TYPE_EQUAL_ANY ret then
        bindE (type_attribute_missing env orig_a orig_b) (\<lambda>m.
          Inr (if m then TYPE_QUAL_POINTED_SUB else ret))
      else Inr ret)"

fun tdef_decl :: "ctype \<Rightarrow> nat option" where
  "tdef_decl (T_tdef t a d) = map_option fst d"
| "tdef_decl _ = None"

definition tdef_stage :: "ctype \<Rightarrow> ctype \<Rightarrow> type_cmp \<Rightarrow> type_cmp" where
  "tdef_stage orig_a orig_b ret =
     (if ret = TYPE_EQUAL then
        (let at = kind_of orig_a = K_tdef; bt = kind_of orig_b = K_tdef in
         if at \<noteq> bt then TYPE_EQUAL_TYPEDEF
         else if at \<and> tdef_decl orig_a \<noteq> tdef_decl orig_b then TYPE_EQUAL_TYPEDEF
         else ret)
      else ret)"

definition cmp_stages ::
    "tenv \<Rightarrow> (nat \<Rightarrow> ctype list) \<Rightarrow> ctype \<Rightarrow> ctype \<Rightarrow> ctype \<Rightarrow> ctype \<Rightarrow> type_cmp \<Rightarrow> type_cmp outcome" where
  "cmp_stages env membs orig_a orig_b a b ret =
     bindE (not_equal_fixup env membs a b ret) (\<lambda>rs.
     bindE (attr_stage env orig_a orig_b
              (qual_stage (type_qual orig_a) (type_qual orig_b) (pointer_stage (kind_of a) rs))) (\<lambda>ret.
     Inr (tdef_stage orig_a orig_b ret)))"

text \<open>The implicit conversions to and from \<^verbatim>\<open>void *\<close> that \<^verbatim>\<open>type_cmp\<close> adds to \<^verbatim>\<open>type_cmp_r\<close>.\<close>

definition void_ptr_fixup :: "ctype \<Rightarrow> ctype \<Rightarrow> type_cmp \<Rightarrow> type_cmp outcome" where
  "void_ptr_fixup a b cmp =
     (if cmp \<noteq> TYPE_CONVERTIBLE_EXPLICIT then Inr cmp
      else bindE (orE (andE (type_is_void_ptr a) (nonnull (type_is_ptr (Some b))))
                      (andE (type_is_void_ptr b) (nonnull (type_is_ptr (Some a))))) (\<lambda>c.
        Inr (if c then TYPE_CONVERTIBLE_IMPLICIT else cmp)))"

section \<open>The comparison\<close>

datatype funcargs_cmp =
    FUNCARGS_EXACT_EQUAL | FUNCARGS_IMPLICIT_CONV | FUNCARGS_MISMATCH_TYPES | FUNCARGS_MISMATCH_COUNT

definition FUNCARGS_EMPTY_NOVOID :: "funcargs \<Rightarrow> bool" where
  "FUNCARGS_EMPTY_NOVOID fa \<longleftrightarrow> fa_arglist fa = [] \<and> \<not> fa_args_void fa"

lemma type_skip_all_size: "type_skip_all t = Inr t' \<Longrightarrow> size t' \<le> size t"
  unfolding type_skip_all_def by (rule type_skip_size)

function type_cmp_r ::
    "tenv \<Rightarrow> (nat \<Rightarrow> ctype list) \<Rightarrow> bool \<Rightarrow> ctype \<Rightarrow> ctype \<Rightarrow> type_cmp outcome"
  and type_compare ::
    "tenv \<Rightarrow> (nat \<Rightarrow> ctype list) \<Rightarrow> bool \<Rightarrow> ctype \<Rightarrow> ctype \<Rightarrow> type_cmp outcome"
  and funcargs_compare ::
    "tenv \<Rightarrow> (nat \<Rightarrow> ctype list) \<Rightarrow> funcargs \<Rightarrow> funcargs \<Rightarrow> funcargs_cmp outcome"
  and args_loop ::
    "tenv \<Rightarrow> (nat \<Rightarrow> ctype list) \<Rightarrow> ctype list \<Rightarrow> ctype list \<Rightarrow> funcargs_cmp outcome"
where
  "type_cmp_r env membs opts orig_a orig_b =
     bindE (type_skip_all orig_a) (\<lambda>a.
     bindE (type_skip_all orig_b) (\<lambda>b.
       if kind_of a \<noteq> kind_of b then cmp_other_kind a b
       else (case (a, b) of
           (T_btype ba, T_btype bb) \<Rightarrow>
             bindE (btype_cmp ba bb) (cmp_stages env membs orig_a orig_b a b)
         | (T_array ta sa va, T_array tb sb vb) \<Rightarrow>
             bindE (array_sizes_match opts sa va sb vb) (\<lambda>ok.
               if \<not> ok then Inr TYPE_NOT_EQUAL
               else bindE (type_cmp_r env membs opts ta tb) (cmp_stages env membs orig_a orig_b a b))
         | (T_block ta, T_block tb) \<Rightarrow>
             bindE (type_cmp_r env membs opts ta tb) (cmp_stages env membs orig_a orig_b a b)
         | (T_ptr ta da, T_ptr tb db) \<Rightarrow>
             bindE (type_cmp_r env membs opts ta tb) (cmp_stages env membs orig_a orig_b a b)
         | (T_func ta fa, T_func tb fb) \<Rightarrow>
             bindE (funcargs_compare env membs fa fb) (\<lambda>c.
               if c = FUNCARGS_EXACT_EQUAL \<or> c = FUNCARGS_IMPLICIT_CONV
               then bindE (type_cmp_r env membs opts ta tb) (cmp_stages env membs orig_a orig_b a b)
               else Inr TYPE_CONVERTIBLE_EXPLICIT)
         | (T_auto, _) \<Rightarrow> Inl (Ice ''__auto_type'')
         | _ \<Rightarrow> Inl (Ice ''should've been skipped''))))"
| "type_compare env membs opts a b =
     bindE (type_cmp_r env membs opts a b) (void_ptr_fixup a b)"
| "funcargs_compare env membs args_to args_from =
     (if fa_id args_to = fa_id args_from then Inr FUNCARGS_EXACT_EQUAL
      else if FUNCARGS_EMPTY_NOVOID args_to \<or> FUNCARGS_EMPTY_NOVOID args_from
      then Inr FUNCARGS_IMPLICIT_CONV
      else let count_to = length (fa_arglist args_to); count_from = length (fa_arglist args_from) in
        if \<not> (if fa_variadic args_to then count_to \<le> count_from else count_to = count_from)
        then Inr FUNCARGS_MISMATCH_COUNT
        else args_loop env membs (fa_arglist args_to) (fa_arglist args_from))"
| "args_loop env membs [] froms = Inr FUNCARGS_EXACT_EQUAL"
| "args_loop env membs (t # tos) [] = Inl Null_deref"
| "args_loop env membs (t # tos) (f # froms) =
     bindE (type_compare env membs False t f) (\<lambda>c.
       if c = TYPE_EQUAL \<or> c = TYPE_QUAL_ADD \<or> c = TYPE_QUAL_SUB \<or> c = TYPE_EQUAL_TYPEDEF
       then args_loop env membs tos froms
       else Inr FUNCARGS_MISMATCH_TYPES)"
  by pat_completeness auto
termination
  by (relation "measure (\<lambda>x. case x of
        Inl (Inl (env, membs, opts, a, b)) \<Rightarrow> 2 * size a
      | Inl (Inr (env, membs, opts, a, b)) \<Rightarrow> 2 * size a + 1
      | Inr (Inl (env, membs, fa, fb)) \<Rightarrow> 2 * size fa
      | Inr (Inr (env, membs, ts, fs)) \<Rightarrow> 2 * size_list size ts + 1)")
    (auto dest!: type_skip_all_size, (case_tac args_to, simp)+)

definition type_eq_nontdef ::
    "tenv \<Rightarrow> (nat \<Rightarrow> ctype list) \<Rightarrow> ctype \<Rightarrow> ctype \<Rightarrow> int outcome" where
  "type_eq_nontdef env membs a b =
     bindE (type_compare env membs False a b) (\<lambda>cmp. Inr (if cmp = TYPE_EQUAL then 0 else 1))"

section \<open>Well-formed types\<close>

text \<open>
  What the rest of the compiler establishes before it compares types: every \<^verbatim>\<open>typeof\<close> has
  been folded, \<^verbatim>\<open>__auto_type\<close> has been replaced, a tag is present for structs,
  unions and enums, and otherwise only on an \<^verbatim>\<open>int\<close> that came from an enum, and array sizes are integer constants unless the array is a VLA.
\<close>

definition wf_btype :: "tenv \<Rightarrow> btype \<Rightarrow> bool" where
  "wf_btype env b \<longleftrightarrow> bt_primitive b \<noteq> type_unknown \<and>
     (case bt_sue b of
        None \<Rightarrow> bt_primitive b \<notin> {type_struct, type_union, type_enum}
      | Some s \<Rightarrow> bt_primitive b \<in> {type_struct, type_union, type_enum, type_int} \<and>
          sue_primitive (te_sues env s) =
            (if bt_primitive b = type_int then type_enum else bt_primitive b))"

fun wf_type :: "tenv \<Rightarrow> ctype \<Rightarrow> bool" where
  "wf_type env (T_btype b) = wf_btype env b"
| "wf_type env (T_tdef t a (Some (n, as, r))) = wf_type env r"
| "wf_type env (T_tdef (Some r) a None) = wf_type env r"
| "wf_type env (T_tdef None a None) = False"
| "wf_type env (T_ptr t d) = wf_type env t"
| "wf_type env (T_block t) = wf_type env t"
| "wf_type env (T_func t fa) = wf_type env t"
| "wf_type env (T_array t s v) = (wf_type env t \<and> (v = VLA_NO \<longrightarrow> s \<noteq> Some None))"
| "wf_type env T_auto = False"
| "wf_type env (T_cast q t) = wf_type env t"
| "wf_type env (T_attr a t) = wf_type env t"
| "wf_type env (T_where t) = wf_type env t"

fun no_vla :: "ctype \<Rightarrow> bool" where
  "no_vla (T_tdef t a (Some (n, as, r))) = no_vla r"
| "no_vla (T_tdef (Some r) a None) = no_vla r"
| "no_vla (T_array t s v) = (v = VLA_NO \<and> no_vla t)"
| "no_vla (T_cast q t) = no_vla t"
| "no_vla (T_attr a t) = no_vla t"
| "no_vla (T_where t) = no_vla t"
| "no_vla _ = True"

text \<open>The kinds \<open>type_skip_all\<close> can end on, \<^verbatim>\<open>__auto_type\<close> apart.\<close>

definition concrete :: "ctype \<Rightarrow> bool" where
  "concrete t \<longleftrightarrow> kind_of t \<in> {K_btype, K_ptr, K_block, K_func, K_array}"

lemma wf_tdef_next:
  assumes "wf_type env (T_tdef t a d)"
  obtains r where "tdef_next t d = Inr r" "wf_type env r" "no_vla r \<longleftrightarrow> no_vla (T_tdef t a d)"
  using assms by (cases d; cases t) (auto simp: tdef_next_def)

lemma type_skip_wf:
  "stops = {} \<Longrightarrow> wf_type env t \<Longrightarrow>
     \<exists>s. type_skip stops t = Inr s \<and> wf_type env s \<and> concrete s \<and> (no_vla s \<longleftrightarrow> no_vla t) \<and>
         (\<forall>env. type_size env t = type_size env s)"
proof (induction stops t rule: type_skip.induct)
  case (1 stops type_of a d)
  obtain r where r: "tdef_next type_of d = Inr r" "wf_type env r"
      "no_vla r \<longleftrightarrow> no_vla (T_tdef type_of a d)"
    using "1.prems"(2) by (rule wf_tdef_next)
  show ?case using "1.IH" [OF _ r(1) "1.prems"(1) r(2)] "1.prems"(1) r by auto
qed (auto simp: concrete_def)

lemma type_skip_all_wf:
  assumes "wf_type env t"
  obtains s where "type_skip_all t = Inr s" "wf_type env s" "concrete s" "no_vla s \<longleftrightarrow> no_vla t"
    "\<And>env. type_size env t = type_size env s"
  using type_skip_wf [OF refl assms] by (auto simp: type_skip_all_def)

lemma type_skip_concrete: "concrete t \<Longrightarrow> type_skip_all t = Inr t"
  by (cases t) (auto simp: concrete_def type_skip_all_def)

section \<open>A type equals itself\<close>

lemma attr_present_wf: "wf_type env t \<Longrightarrow> \<exists>r. type_attr_present env t k = Inr r"
  by (induction t rule: wf_type.induct) (auto split: option.splits)

lemma attribute_missing_refl: "wf_type env t \<Longrightarrow> missing_loop env t t ks = Inr False"
proof (induction ks)
  case (Cons k ks)
  then obtain r where "type_attr_present env t k = Inr r" using attr_present_wf by blast
  then show ?case using Cons by (simp add: type_attribute_missing1_def)
qed simp

lemma cmp_stages_refl:
  "wf_type env t \<Longrightarrow> cmp_stages env membs t t a b TYPE_EQUAL = Inr TYPE_EQUAL"
  by (simp add: cmp_stages_def not_equal_fixup_def pointer_stage_def pointed_map_def qual_stage_def
      attr_stage_def tdef_stage_def type_attribute_missing_def attribute_missing_refl
      type_qual_cmp_def TYPE_EQUAL_ANY_def)

lemma btype_cmp_refl: "wf_btype env b \<Longrightarrow> btype_cmp b b = Inr TYPE_EQUAL"
  by (cases "bt_primitive b") (auto simp: btype_cmp_def wf_btype_def)

lemma array_sizes_refl:
  "wf_type env (T_array t s v) \<Longrightarrow> array_sizes_match opts s v s v = Inr True"
  by (auto simp: array_sizes_match_def fold_val_i_def split: option.splits)

declare type_cmp_r.simps [simp del]

lemma type_cmp_r_refl: "wf_type env t \<Longrightarrow> type_cmp_r env membs opts t t = Inr TYPE_EQUAL"
proof (induction "size t" arbitrary: t rule: less_induct)
  case less
  obtain s where s: "type_skip_all t = Inr s" "wf_type env s" "concrete s"
    using less.prems by (rule type_skip_all_wf) blast
  have sz: "size s \<le> size t" by (rule type_skip_all_size [OF s(1)])
  note stages = cmp_stages_refl [OF less.prems]
  show ?case
  proof (cases s)
    case (T_btype b)
    then show ?thesis using s stages by (simp add: type_cmp_r.simps [of env membs opts t t] btype_cmp_refl [of env])
  next
    case (T_array u n v)
    then have "type_cmp_r env membs opts u u = Inr TYPE_EQUAL" using less.hyps [of u] s(2) sz by simp
    then show ?thesis using T_array s stages array_sizes_refl [of env u n v]
      by (simp add: type_cmp_r.simps [of env membs opts t t])
  next
    case (T_ptr u d)
    then have "type_cmp_r env membs opts u u = Inr TYPE_EQUAL" using less.hyps [of u] s(2) sz by simp
    then show ?thesis using T_ptr s stages by (simp add: type_cmp_r.simps [of env membs opts t t])
  next
    case (T_block u)
    then have "type_cmp_r env membs opts u u = Inr TYPE_EQUAL" using less.hyps [of u] s(2) sz by simp
    then show ?thesis using T_block s stages by (simp add: type_cmp_r.simps [of env membs opts t t])
  next
    case (T_func u fa)
    then have "type_cmp_r env membs opts u u = Inr TYPE_EQUAL" using less.hyps [of u] s(2) sz by simp
    then show ?thesis using T_func s stages by (simp add: type_cmp_r.simps [of env membs opts t t])
  qed (use s(3) in \<open>simp_all add: concrete_def\<close>)
qed

text \<open>
  A well-formed type, whatever typedefs, qualifiers and attributes it has, compares
  equal to itself, with and without tentative arrays.
\<close>

theorem type_cmp_reflexive:
  assumes "wf_type env t"
  shows "type_compare env membs opts t t = Inr TYPE_EQUAL"
  using assms by (simp add: type_cmp_r_refl void_ptr_fixup_def)

theorem type_cmp_reflexive_witness:
  "wf_type example_env example_tdef \<and>
   type_compare example_env (\<lambda>_. []) False example_tdef example_tdef = Inr TYPE_EQUAL"
proof -
  have wf: "wf_type example_env example_tdef" by (simp add: example_tdef_def example_int_def wf_btype_def)
  show ?thesis using type_cmp_reflexive [OF wf] wf by simp
qed

section \<open>Equal types have the same size\<close>

text \<open>The results that leave the representation of a value alone.\<close>

definition same_repr :: "type_cmp \<Rightarrow> bool" where
  "same_repr c \<longleftrightarrow> c \<notin> {TYPE_CONVERTIBLE_IMPLICIT, TYPE_CONVERTIBLE_EXPLICIT, TYPE_NOT_EQUAL}"

lemma not_equal_fixup_same:
  "not_equal_fixup env membs a b ret = Inr (c, sk) \<Longrightarrow> same_repr c \<Longrightarrow> c = ret"
  by (auto simp: not_equal_fixup_def same_repr_def elim!: bindE_InrE split: if_splits option.splits)

lemma pointer_stage_same: "same_repr (pointer_stage k (c, sk)) \<Longrightarrow> same_repr c"
  by (cases c) (auto simp: pointer_stage_def pointed_map_def same_repr_def Let_def split: if_splits)

lemma qual_stage_same: "same_repr (qual_stage p q c) \<Longrightarrow> same_repr c"
  by (auto simp: qual_stage_def same_repr_def TYPE_EQUAL_ANY_def split: if_splits)

lemma attr_stage_same: "attr_stage env a b c = Inr r \<Longrightarrow> same_repr r \<Longrightarrow> same_repr c"
  by (auto simp: attr_stage_def same_repr_def TYPE_EQUAL_ANY_def elim!: bindE_InrE split: if_splits)

lemma tdef_stage_same: "same_repr (tdef_stage a b c) \<Longrightarrow> same_repr c"
  by (auto simp: tdef_stage_def same_repr_def Let_def split: if_splits)

lemma cmp_stages_same:
  assumes "cmp_stages env membs oa ob a b ret = Inr c" and "same_repr c"
  shows "same_repr ret"
proof -
  obtain r sk r' where f: "not_equal_fixup env membs a b ret = Inr (r, sk)"
    and g: "attr_stage env oa ob (qual_stage (type_qual oa) (type_qual ob)
              (pointer_stage (kind_of a) (r, sk))) = Inr r'"
    and h: "c = tdef_stage oa ob r'"
    using assms(1) by (auto simp: cmp_stages_def elim!: bindE_InrE)
  have "same_repr r'" using assms(2) h tdef_stage_same by simp
  then have "same_repr r" using g attr_stage_same qual_stage_same pointer_stage_same by blast
  then show ?thesis using not_equal_fixup_same [OF f] by simp
qed

lemma cmp_other_kind_repr: "cmp_other_kind a b = Inr c \<Longrightarrow> \<not> same_repr c"
  by (auto simp: cmp_other_kind_def same_repr_def elim!: bindE_InrE split: if_splits)

lemma btype_cmp_same:
  assumes "btype_cmp a b = Inr c" "same_repr c" "wf_btype env a" "wf_btype env b"
  shows "btype_size env a = btype_size env b \<and> (bt_primitive a = type_void \<longleftrightarrow> bt_primitive b = type_void)"
  using assms
  by (cases "bt_primitive a")
    (auto simp: btype_cmp_def btype_size_def wf_btype_def same_repr_def split: if_splits option.splits)

lemma type_is_void_skip:
  "type_skip_all t = Inr s \<Longrightarrow> concrete s \<Longrightarrow>
     type_is_void (Some t) = Inr (\<exists>b. s = T_btype b \<and> bt_primitive b = type_void)"
  by (cases s) (auto simp: type_is_void_def type_is_primitive_def type_is_btype_def type_is_def concrete_def)

lemma array_sizes_same:
  "array_sizes_match False sa VLA_NO sb VLA_NO = Inr True \<Longrightarrow> sa = sb"
  by (auto simp: array_sizes_match_def fold_val_i_def split: option.splits)

lemma type_cmp_r_same_size:
  assumes "wf_type env a" "wf_type env b" "no_vla a" "no_vla b"
    and "type_cmp_r env membs False a b = Inr c" and "same_repr c"
  shows "type_size env a = type_size env b \<and> type_is_void (Some a) = type_is_void (Some b)"
  using assms
proof (induction "size a" arbitrary: a b c rule: less_induct)
  case less
  obtain s where s: "type_skip_all a = Inr s" "wf_type env s" "concrete s" "no_vla s \<longleftrightarrow> no_vla a"
      "\<And>env. type_size env a = type_size env s"
    using less.prems(1) by (rule type_skip_all_wf) blast
  obtain u where u: "type_skip_all b = Inr u" "wf_type env u" "concrete u" "no_vla u \<longleftrightarrow> no_vla b"
      "\<And>env. type_size env b = type_size env u"
    using less.prems(2) by (rule type_skip_all_wf) blast
  note void = type_is_void_skip [OF s(1,3)] type_is_void_skip [OF u(1,3)]
  note eq = less.prems(5) [unfolded type_cmp_r.simps [of env membs False a b] s(1) u(1) bindE_simps]
  have kinds: "kind_of s = kind_of u"
    using eq cmp_other_kind_repr less.prems(6) by (auto split: if_splits)
  show ?case
  proof (cases s)
    case (T_btype x)
    then obtain y where y: "u = T_btype y" using kinds by (cases u) auto
    then obtain r where "btype_cmp x y = Inr r" "same_repr r"
      using eq T_btype less.prems(6) by (auto elim!: bindE_InrE dest: cmp_stages_same)
    then show ?thesis using T_btype y s(2,5) u(2,5) void btype_cmp_same [of x y r env] by simp
  next
    case (T_array x n v)
    then obtain y n' v' where y: "u = T_array y n' v'" using kinds by (cases u) auto
    have v: "v = VLA_NO" "v' = VLA_NO" "no_vla x" "no_vla y"
      using less.prems(3,4) s(4) u(4) T_array y by auto
    have "\<exists>r. array_sizes_match False n VLA_NO n' VLA_NO = Inr True \<and>
        type_cmp_r env membs False x y = Inr r \<and> cmp_stages env membs a b s u r = Inr c"
      using eq T_array y v less.prems(6) by (auto simp: same_repr_def elim!: bindE_InrE split: if_splits)
    then obtain r where r: "n = n'" "type_cmp_r env membs False x y = Inr r" "same_repr r"
      using array_sizes_same cmp_stages_same less.prems(6) by blast
    have "size x < size a" using T_array type_skip_all_size [OF s(1)] by simp
    then have "type_size env x = type_size env y \<and> type_is_void (Some x) = type_is_void (Some y)"
      using less.hyps [of x y r] s(2) u(2) T_array y v r by simp
    then show ?thesis using T_array y s(5) u(5) void r(1)
      by (simp cong: if_cong option.case_cong)
  next
    case (T_ptr x d)
    then obtain y d' where "u = T_ptr y d'" using kinds by (cases u) auto
    then show ?thesis using T_ptr s(5) u(5) void by simp
  next
    case (T_block x)
    then obtain y where "u = T_block y" using kinds by (cases u) auto
    then show ?thesis using T_block s(5) u(5) void by simp
  next
    case (T_func x fa)
    then obtain y fa' where "u = T_func y fa'" using kinds by (cases u) auto
    then show ?thesis using T_func s(5) u(5) void by simp
  qed (use s(3) in \<open>simp_all add: concrete_def\<close>)
qed

lemma void_ptr_fixup_same: "void_ptr_fixup a b r = Inr c \<Longrightarrow> same_repr c \<Longrightarrow> c = r"
  by (auto simp: void_ptr_fixup_def same_repr_def elim!: bindE_InrE split: if_splits)

text \<open>
  C30: When two well-formed types without variable-length arrays compare as equal, as equal
  up to a typedef or as different in qualifiers only, they have the same size, or both
  have none for the same reason.
\<close>

theorem type_cmp_equal_same_size:
  assumes "wf_type env a" "wf_type env b" "no_vla a" "no_vla b"
    and "type_compare env membs False a b = Inr c"
    and "c \<notin> {TYPE_CONVERTIBLE_IMPLICIT, TYPE_CONVERTIBLE_EXPLICIT, TYPE_NOT_EQUAL}"
  shows "type_size env a = type_size env b"
  using assms type_cmp_r_same_size [OF assms(1-4)] void_ptr_fixup_same
  by (fastforce simp: same_repr_def elim!: bindE_InrE)

theorem type_cmp_equal_same_size_witness:
  "type_compare example_env (\<lambda>_. []) False example_tdef (T_array example_int (Some (Some 4)) VLA_NO)
     = Inr TYPE_QUAL_ADD \<and>
   type_size example_env example_tdef = type_size example_env (T_array example_int (Some (Some 4)) VLA_NO)"
proof -
  let ?b = "T_array example_int (Some (Some 4)) VLA_NO"
  note defs = example_tdef_def example_int_def wf_btype_def
  have wf: "wf_type example_env example_tdef" "wf_type example_env ?b" "no_vla example_tdef" "no_vla ?b"
    by (simp_all add: defs)
  have cmp: "type_compare example_env (\<lambda>_. []) False example_tdef ?b = Inr TYPE_QUAL_ADD"
    by code_simp
  show ?thesis using type_cmp_equal_same_size [OF wf cmp] cmp by simp
qed

end
