(* ===== verification/Ucc_Num.thy ===== *)
theory Ucc_Num
  imports Ucc_Type_Is "HOL-Library.Signed_Division"
begin

text \<open>
  Numbers and operators of the compiler: \<^verbatim>\<open>src/cc1/num.c\<close> and \<^verbatim>\<open>src/cc1/op.c\<close>.

  \<^verbatim>\<open>integral_t\<close> is the host's \<^verbatim>\<open>unsigned long long\<close>, a 64-bit word; reading it as
  \<^verbatim>\<open>sintegral_t\<close> is \<open>sint\<close>.  The host shifts a signed word as gcc documents it: a left
  shift moves the bits, a right shift copies the sign.  \<^verbatim>\<open>floating_t\<close> is the type variable
  \<open>'f\<close> and the host's arithmetic on it a record of operations.
\<close>

section \<open>Operators\<close>

datatype op_type =
    op_multiply | op_divide | op_modulus
  | op_plus | op_minus
  | op_xor | op_or | op_and
  | op_orsc | op_andsc
  | op_shiftl | op_shiftr
  | op_not | op_bnot
  | op_eq | op_ne
  | op_le | op_lt
  | op_ge | op_gt
  | op_signbit | op_no_signbit
  | op_unknown

fun op_to_str :: "op_type \<Rightarrow> string" where
  "op_to_str op_multiply = ''*''"
| "op_to_str op_divide = ''/''"
| "op_to_str op_plus = ''+''"
| "op_to_str op_minus = ''-''"
| "op_to_str op_modulus = ''%''"
| "op_to_str op_eq = ''==''"
| "op_to_str op_ne = ''!=''"
| "op_to_str op_le = ''<=''"
| "op_to_str op_lt = ''<''"
| "op_to_str op_ge = ''>=''"
| "op_to_str op_gt = ''>''"
| "op_to_str op_or = ''|''"
| "op_to_str op_xor = ''^''"
| "op_to_str op_and = ''&''"
| "op_to_str op_orsc = ''||''"
| "op_to_str op_andsc = ''&&''"
| "op_to_str op_not = ''!''"
| "op_to_str op_bnot = ''~''"
| "op_to_str op_shiftl = ''<<''"
| "op_to_str op_shiftr = ''>>''"
| "op_to_str op_signbit = ''SIGNBIT''"
| "op_to_str op_no_signbit = ''NOSIGNBIT''"
| "op_to_str op_unknown = ''unknown''"

definition op_can_compound :: "op_type \<Rightarrow> bool" where
  "op_can_compound o1 \<longleftrightarrow>
     o1 \<in> {op_plus, op_minus, op_multiply, op_divide, op_modulus, op_not, op_bnot, op_and, op_or,
           op_xor, op_shiftl, op_shiftr}"

definition op_can_float :: "op_type \<Rightarrow> bool" where
  "op_can_float o1 \<longleftrightarrow>
     o1 \<notin> {op_modulus, op_xor, op_or, op_and, op_shiftl, op_shiftr, op_bnot}"

definition op_is_commutative :: "op_type \<Rightarrow> bool outcome" where
  "op_is_commutative o1 =
     (if o1 = op_unknown then Inl (Assert_failed ''op_is_commutative'')
      else Inr (o1 \<in> {op_multiply, op_plus, op_xor, op_or, op_and, op_eq, op_ne, op_signbit,
                      op_no_signbit}))"

definition op_is_comparison :: "op_type \<Rightarrow> bool" where
  "op_is_comparison o1 \<longleftrightarrow> o1 \<in> {op_eq, op_ne, op_le, op_lt, op_ge, op_gt}"

definition op_is_shortcircuit :: "op_type \<Rightarrow> bool" where
  "op_is_shortcircuit o1 \<longleftrightarrow> o1 = op_andsc \<or> o1 = op_orsc"

definition op_returns_bool :: "op_type \<Rightarrow> bool" where
  "op_returns_bool o1 \<longleftrightarrow> o1 = op_not \<or> op_is_comparison o1 \<or> op_is_shortcircuit o1"

definition op_increases :: "op_type \<Rightarrow> bool outcome" where
  "op_increases o1 =
     (if o1 = op_unknown then Inl (Assert_failed ''op_increases'')
      else Inr (o1 \<in> {op_multiply, op_plus, op_or, op_shiftl}))"

section \<open>Numbers\<close>

datatype 'f numval = Val_i u64 | Val_f 'f

record 'f numeric =
  num_val :: "'f numval"
  num_suffix :: u32

abbreviation (input) VAL_UNSIGNED :: u32 where "VAL_UNSIGNED \<equiv> 1"
abbreviation (input) VAL_LONG :: u32 where "VAL_LONG \<equiv> 2"
abbreviation (input) VAL_LLONG :: u32 where "VAL_LLONG \<equiv> 4"
abbreviation (input) VAL_FLOAT :: u32 where "VAL_FLOAT \<equiv> 64"
abbreviation (input) VAL_DOUBLE :: u32 where "VAL_DOUBLE \<equiv> 128"
abbreviation (input) VAL_LDOUBLE :: u32 where "VAL_LDOUBLE \<equiv> 256"

definition VAL_FLOATING :: u32 where
  "VAL_FLOATING = VAL_FLOAT OR VAL_DOUBLE OR VAL_LDOUBLE"

definition K_FLOATING :: "'f numeric \<Rightarrow> bool" where
  "K_FLOATING n \<longleftrightarrow> num_suffix n AND VAL_FLOATING \<noteq> 0"

text \<open>Reading a member of the union \<^verbatim>\<open>val\<close> that was not the one written is left undefined.\<close>

definition val_i :: "'f numeric \<Rightarrow> u64 outcome" where
  "val_i n = (case num_val n of Val_i v \<Rightarrow> Inr v | Val_f f \<Rightarrow> Inl (Undefined ''val.i''))"

definition val_f :: "'f numeric \<Rightarrow> 'f outcome" where
  "val_f n = (case num_val n of Val_f f \<Rightarrow> Inr f | Val_i v \<Rightarrow> Inl (Undefined ''val.f''))"

text \<open>The host's arithmetic on \<^verbatim>\<open>floating_t\<close>.\<close>

record 'f float_ops =
  f_lt :: "'f \<Rightarrow> 'f \<Rightarrow> bool"
  f_le :: "'f \<Rightarrow> 'f \<Rightarrow> bool"
  f_eq :: "'f \<Rightarrow> 'f \<Rightarrow> bool"
  f_add :: "'f \<Rightarrow> 'f \<Rightarrow> 'f"
  f_sub :: "'f \<Rightarrow> 'f \<Rightarrow> 'f"
  f_mul :: "'f \<Rightarrow> 'f \<Rightarrow> 'f"
  f_div :: "'f \<Rightarrow> 'f \<Rightarrow> 'f"
  f_neg :: "'f \<Rightarrow> 'f"
  f_zero :: 'f
  f_one :: 'f
  f_nan :: 'f
  f_to_i :: "'f \<Rightarrow> u64"

definition cmp3 :: "('a \<Rightarrow> 'a \<Rightarrow> bool) \<Rightarrow> 'a \<Rightarrow> 'a \<Rightarrow> int" where
  "cmp3 lt a b = (if lt b a then 1 else if lt a b then -1 else 0)"

definition numeric_cmp :: "'f float_ops \<Rightarrow> 'f numeric \<Rightarrow> 'f numeric \<Rightarrow> int outcome" where
  "numeric_cmp F a b =
     (if num_suffix a AND VAL_FLOATING \<noteq> num_suffix b AND VAL_FLOATING
      then Inl (Assert_failed ''numeric_cmp'')
      else if num_suffix a AND VAL_FLOATING \<noteq> 0
      then bindE (val_f a) (\<lambda>fa. bindE (val_f b) (\<lambda>fb. Inr (cmp3 (f_lt F) fa fb)))
      else bindE (val_i a) (\<lambda>la. bindE (val_i b) (\<lambda>lb.
        if num_suffix a AND VAL_UNSIGNED \<noteq> 0 \<and> num_suffix b AND VAL_UNSIGNED \<noteq> 0
        then Inr (cmp3 (<) la lb)
        else Inr (cmp3 (<) (sint la) (sint lb)))))"

section \<open>Truncation\<close>

text \<open>
  The result of a truncation and, as second component, what is stored through
  \<^verbatim>\<open>signed_iv\<close> when that is not NULL.  The flag is \<^verbatim>\<open>-fcast-with-builtin-types\<close>; its
  branch goes through the host's types of 8, 16, 32 and 64 bits, the other through shifts.
\<close>

definition integral_truncate_bits :: "bool \<Rightarrow> u64 \<Rightarrow> u32 \<Rightarrow> u64 \<times> u64 outcome" where
  "integral_truncate_bits cast_w_builtin val bits =
     (let pos_mask = (if unat bits < 64 then NOT (push_bit (unat bits) (- 1)) else - 1);
          truncated = val AND pos_mask
      in if cast_w_builtin \<and> bits = 8
         then (ucast (ucast val :: u8), Inr (scast (ucast val :: u8)))
         else if cast_w_builtin \<and> bits = 16
         then (ucast (ucast val :: 16 word), Inr (scast (ucast val :: 16 word)))
         else if cast_w_builtin \<and> bits = 32
         then (ucast (ucast val :: u32), Inr (scast (ucast val :: u32)))
         else if cast_w_builtin \<and> bits = 64 then (val, Inr val)
         else let shamt = 64 - unat bits in
           (truncated,
            if unat bits = 0 \<or> 64 < unat bits then Inl (Undefined ''shift'')
            else Inr (signed_drop_bit shamt (push_bit shamt val))))"

definition integral_truncate :: "bool \<Rightarrow> u64 \<Rightarrow> u32 \<Rightarrow> u64 \<times> u64 outcome" where
  "integral_truncate b val bytes = integral_truncate_bits b val (bytes * 8)"

lemma drop_bit_1_decreases: "v \<noteq> 0 \<Longrightarrow> unat (drop_bit (Suc 0) v) < unat v" for v :: "'a::len word"
  using unat_gt_0 [of v] by (simp only: unat_drop_bit_div) simp

function high_bit_loop :: "u64 \<Rightarrow> int \<Rightarrow> int" where
  "high_bit_loop v r = (if v = 0 then r else high_bit_loop (drop_bit 1 v) (r + 1))"
  by pat_completeness auto
termination
  by (relation "measure (\<lambda>(v, r). unat v)") (simp_all add: drop_bit_1_decreases)

declare high_bit_loop.simps [simp del]

definition integral_high_bit :: "tenv \<Rightarrow> bool \<Rightarrow> u64 \<Rightarrow> ctype \<Rightarrow> int outcome" where
  "integral_high_bit env b val ty =
     bindE (type_is_signed env ty) (\<lambda>sg.
     bindE (if sg \<and> sint val < 0
            then bindE (type_size env ty) (\<lambda>sz. Inr (fst (integral_truncate b val sz)))
            else Inr val) (\<lambda>val.
     Inr (high_bit_loop val (-1))))"

section \<open>Properties\<close>

lemma truncate_shifts:
  fixes val :: u64
  assumes "0 < n" "n \<le> 64"
  shows "signed_drop_bit (64 - n) (push_bit (64 - n) val) = signed_take_bit (n - 1) val"
proof (rule bit_word_eqI)
  fix m :: nat
  assume "m < LENGTH(64)"
  then show "bit (signed_drop_bit (64 - n) (push_bit (64 - n) val)) m = bit (signed_take_bit (n - 1) val) m"
    using assms by (cases "m < n - 1"; cases "m = n - 1")
      (auto simp: bit_signed_drop_bit_iff bit_signed_take_bit_iff bit_push_bit_iff min_def)
qed

lemma truncate_mask:
  fixes val :: u64
  shows "val AND (if n < 64 then NOT (push_bit n (- 1)) else - 1) = take_bit n val"
  by (intro bit_word_eqI) (auto simp: bit_simps)

lemma truncate_builtin:
  fixes val :: u64
  shows "ucast (ucast val :: u8) = take_bit 8 val" "ucast (ucast val :: 16 word) = take_bit 16 val"
    "ucast (ucast val :: u32) = take_bit 32 val"
    "scast (ucast val :: u8) = signed_take_bit 7 val"
    "scast (ucast val :: 16 word) = signed_take_bit 15 val"
    "scast (ucast val :: u32) = signed_take_bit 31 val"
    "take_bit 64 val = val"
  by (intro bit_word_eqI; auto simp: bit_simps min_def)+

lemma signed_take_bit_63: "signed_take_bit 63 val = val" for val :: u64
  using truncate_shifts [of 64 val] by simp

text \<open>
  C34: For every width from 1 to 64 both ways of truncating, through the host's types and
  through masks and shifts, give the low bits of the value and its sign extension.
\<close>

theorem integral_truncate_bits_correct:
  assumes "0 < unat bits" "unat bits \<le> 64"
  shows "integral_truncate_bits cast_w_builtin val bits =
           (take_bit (unat bits) val, Inr (signed_take_bit (unat bits - 1) val))"
  using assms
  by (auto simp: integral_truncate_bits_def Let_def truncate_shifts truncate_mask truncate_builtin
      signed_take_bit_63)

theorem integral_truncate_bits_correct_witness:
  "integral_truncate_bits True 0x1ff 8 = (0xff, Inr (- 1)) \<and>
   integral_truncate_bits False 0x1ff 8 = (0xff, Inr (- 1))"
  using integral_truncate_bits_correct [of 8 True "0x1ff"] integral_truncate_bits_correct [of 8 False "0x1ff"]
  by simp

end
