(* ===== verification/Ucc_Const.thy ===== *)
theory Ucc_Const
  imports Ucc_Num
begin

text \<open>
  Constants: \<^verbatim>\<open>src/cc1/const.c\<close>.  The result of folding an expression is a \<^verbatim>\<open>consty\<close>; the
  functions that fold their argument first take the folded constant instead.  Expressions
  that a \<^verbatim>\<open>consty\<close> points to are numbers, a string literal is its label.  The signed
  multiplication and division of \<^verbatim>\<open>const_op_exec\<close> are undefined when they overflow, a shift
  is undefined when its count is not below 64.
\<close>

section \<open>Evaluating one operation\<close>

definition s64 :: "int \<Rightarrow> u64 outcome" where
  "s64 x = (if - (2 ^ 63) \<le> x \<and> x < 2 ^ 63 then Inr (of_int x) else Inl (Undefined ''signed overflow''))"

definition deref :: "'a option \<Rightarrow> 'a outcome" where
  "deref p = (case p of None \<Rightarrow> Inl Null_deref | Some x \<Rightarrow> Inr x)"

definition shift_count :: "u64 \<Rightarrow> nat outcome" where
  "shift_count r = (if unat r < 64 then Inr (unat r) else Inl (Undefined ''shift''))"

text \<open>The result before the wrap-around and whether the error is set.\<close>

definition const_op_result :: "bool \<Rightarrow> u64 \<Rightarrow> u64 option \<Rightarrow> op_type \<Rightarrow> (u64 \<times> bool) outcome" where
  "const_op_result is_signed lval rval op =
     (let ok = (\<lambda>v. Inr (v, False));
          s_u = (\<lambda>f g. bindE (deref rval) (\<lambda>r.
                   ok (of_bool (if is_signed then f (sint lval) (sint r) else g lval r))))
      in case op of
           op_multiply \<Rightarrow> bindE (deref rval) (\<lambda>r. bindE (s64 (sint lval * sint r)) ok)
         | op_eq \<Rightarrow> bindE (deref rval) (\<lambda>r. ok (of_bool (sint lval = sint r)))
         | op_ne \<Rightarrow> bindE (deref rval) (\<lambda>r. ok (of_bool (sint lval \<noteq> sint r)))
         | op_le \<Rightarrow> s_u (\<le>) (\<le>)
         | op_lt \<Rightarrow> s_u (<) (<)
         | op_ge \<Rightarrow> s_u (\<ge>) (\<ge>)
         | op_gt \<Rightarrow> s_u (>) (>)
         | op_shiftl \<Rightarrow> bindE (deref rval) (\<lambda>r. bindE (shift_count r) (\<lambda>n. ok (push_bit n lval)))
         | op_shiftr \<Rightarrow> bindE (deref rval) (\<lambda>r. bindE (shift_count r) (\<lambda>n.
             ok (if is_signed then signed_drop_bit n lval else drop_bit n lval)))
         | op_xor \<Rightarrow> bindE (deref rval) (\<lambda>r. ok (lval XOR r))
         | op_or \<Rightarrow> bindE (deref rval) (\<lambda>r. ok (lval OR r))
         | op_and \<Rightarrow> bindE (deref rval) (\<lambda>r. ok (lval AND r))
         | op_orsc \<Rightarrow> if lval \<noteq> 0 then ok 1 else bindE (deref rval) (\<lambda>r. ok (of_bool (r \<noteq> 0)))
         | op_andsc \<Rightarrow> if lval = 0 then ok 0 else bindE (deref rval) (\<lambda>r. ok (of_bool (r \<noteq> 0)))
         | op_modulus \<Rightarrow> bindE (deref rval) (\<lambda>r.
             if r = 0 then Inr (0, True)
             else if is_signed
             then bindE (s64 (sint lval sdiv sint r)) (\<lambda>_. ok (of_int (sint lval smod sint r)))
             else ok (lval mod r))
         | op_divide \<Rightarrow> bindE (deref rval) (\<lambda>r.
             if r = 0 then Inr (0, True)
             else if is_signed then bindE (s64 (sint lval sdiv sint r)) ok
             else ok (lval div r))
         | op_plus \<Rightarrow> ok (lval + (case rval of None \<Rightarrow> 0 | Some r \<Rightarrow> r))
         | op_minus \<Rightarrow> ok (case rval of None \<Rightarrow> - lval | Some r \<Rightarrow> lval - r)
         | op_not \<Rightarrow> ok (of_bool (lval = 0))
         | op_bnot \<Rightarrow> ok (NOT lval)
         | op_signbit \<Rightarrow> Inl (Ice ''unreachable'')
         | op_no_signbit \<Rightarrow> Inl (Ice ''unreachable'')
         | op_unknown \<Rightarrow> Inl (Ice ''unhandled type''))"

abbreviation NUMERIC_T_MAX :: u64 where "NUMERIC_T_MAX \<equiv> - 1"

definition wrap_around :: "op_type \<Rightarrow> u64 \<Rightarrow> u64 \<Rightarrow> u64 outcome" where
  "wrap_around op maxv result =
     (if maxv = NUMERIC_T_MAX then Inr result
      else if result > maxv then
        bindE (op_increases op) (\<lambda>inc.
          Inr (if inc then result - (maxv + 1) else result - NUMERIC_T_MAX + maxv))
      else Inr result)"

definition const_op_exec ::
    "tenv \<Rightarrow> u64 \<Rightarrow> u64 option \<Rightarrow> op_type \<Rightarrow> ctype \<Rightarrow> (u64 \<times> bool) outcome" where
  "const_op_exec env lval rval op arithty =
     bindE (type_is_signed env arithty) (\<lambda>is_signed.
     bindE (const_op_result is_signed lval rval op) (\<lambda>(result, err).
       if \<not> is_signed then
         bindE (type_max env arithty) (\<lambda>maxv.
         bindE (wrap_around op maxv result) (\<lambda>result. Inr (result, err)))
       else Inr (result, err)))"

definition const_op_exec_fp :: "'f float_ops \<Rightarrow> 'f \<Rightarrow> 'f option \<Rightarrow> op_type \<Rightarrow> 'f outcome" where
  "const_op_exec_fp F lv rv op =
     (let b = (\<lambda>c. Inr (if c then f_one F else f_zero F)) in
      case op of
        op_divide \<Rightarrow> bindE (deref rv) (\<lambda>r.
          if f_eq F lv (f_zero F) \<and> f_eq F r (f_zero F) then Inr (f_nan F) else Inr (f_div F lv r))
      | op_multiply \<Rightarrow> bindE (deref rv) (\<lambda>r. Inr (f_mul F lv r))
      | op_plus \<Rightarrow> Inr (case rv of None \<Rightarrow> lv | Some r \<Rightarrow> f_add F lv r)
      | op_minus \<Rightarrow> Inr (case rv of None \<Rightarrow> f_neg F lv | Some r \<Rightarrow> f_sub F lv r)
      | op_eq \<Rightarrow> bindE (deref rv) (\<lambda>r. b (f_eq F lv r))
      | op_ne \<Rightarrow> bindE (deref rv) (\<lambda>r. b (\<not> f_eq F lv r))
      | op_le \<Rightarrow> bindE (deref rv) (\<lambda>r. b (f_le F lv r))
      | op_lt \<Rightarrow> bindE (deref rv) (\<lambda>r. b (f_lt F lv r))
      | op_ge \<Rightarrow> bindE (deref rv) (\<lambda>r. b (f_le F r lv))
      | op_gt \<Rightarrow> bindE (deref rv) (\<lambda>r. b (f_lt F r lv))
      | op_not \<Rightarrow>
          if rv \<noteq> None then Inl (Assert_failed ''binary not?'') else b (f_eq F lv (f_zero F))
      | _ \<Rightarrow> Inl (Ice ''floating point''))"

section \<open>Folded constants\<close>

datatype addr_lbl = LBL_MEMADDR u64 | LBL_TRUE string | LBL_WEAK string

datatype 'f kbits =
    CONST_NO
  | CONST_NUM "'f numeric"
  | CONST_ADDR addr_lbl
  | CONST_STRK string
  | CONST_NEED_ADDR addr_lbl

record 'f consty =
  k_bits :: "'f kbits"
  k_offset :: u64
  k_nonstandard_const :: "nat option"
  k_nonconst :: "nat option"

definition CONST_AT_COMPILE_TIME :: "'f kbits \<Rightarrow> bool" where
  "CONST_AT_COMPILE_TIME t \<longleftrightarrow> (case t of CONST_NO \<Rightarrow> False | CONST_NEED_ADDR a \<Rightarrow> False | _ \<Rightarrow> True)"

text \<open>\<^verbatim>\<open>memset\<close> to zero: the kind is \<^verbatim>\<open>CONST_NO\<close>, which is 0.\<close>

definition CONST_FOLD_LEAF :: "'f consty" where
  "CONST_FOLD_LEAF = \<lparr>k_bits = CONST_NO, k_offset = 0, k_nonstandard_const = None, k_nonconst = None\<rparr>"

definition CONST_FOLD_NO :: "'f consty \<Rightarrow> nat \<Rightarrow> 'f consty" where
  "CONST_FOLD_NO k e =
     k\<lparr>k_bits := CONST_NO, k_nonconst := (case k_nonconst k of None \<Rightarrow> Some e | Some x \<Rightarrow> Some x)\<rparr>"

definition int_const :: "u64 \<Rightarrow> 'f kbits" where
  "int_const v = CONST_NUM \<lparr>num_val = Val_i v, num_suffix = 0\<rparr>"

definition const_fold_no ::
    "'f consty \<Rightarrow> 'f consty \<Rightarrow> nat option \<Rightarrow> 'f consty \<Rightarrow> nat option \<Rightarrow> 'f consty" where
  "const_fold_no k klhs lhs krhs rhs =
     k\<lparr>k_bits := CONST_NO,
       k_nonconst := (if CONST_AT_COMPILE_TIME (k_bits klhs)
                      then (if k_nonconst krhs \<noteq> None then k_nonconst krhs else rhs)
                      else (if k_nonconst klhs \<noteq> None then k_nonconst klhs else lhs))\<rparr>"

definition const_expr_zero :: "'f float_ops \<Rightarrow> 'f consty \<Rightarrow> bool \<Rightarrow> bool outcome" where
  "const_expr_zero F k zero =
     (case k_bits k of
        CONST_NUM n \<Rightarrow>
          if K_FLOATING n then bindE (val_f n) (\<lambda>f. Inr (f_eq F f (f_zero F) = zero))
          else bindE (val_i n) (\<lambda>i. Inr ((i = 0) = zero))
      | CONST_ADDR (LBL_MEMADDR m) \<Rightarrow> Inr (m = 0)
      | _ \<Rightarrow> Inr False)"

definition const_expr_and_non_zero :: "'f float_ops \<Rightarrow> 'f consty \<Rightarrow> bool outcome" where
  "const_expr_and_non_zero F k = const_expr_zero F k False"

definition const_expr_and_zero :: "'f float_ops \<Rightarrow> 'f consty \<Rightarrow> bool outcome" where
  "const_expr_and_zero F k = const_expr_zero F k True"

definition const_fold_integral_try :: "'f consty \<Rightarrow> 'f numeric option" where
  "const_fold_integral_try k =
     (case k_bits k of
        CONST_NUM n \<Rightarrow> if k_offset k \<noteq> 0 then None else if K_FLOATING n then None else Some n
      | _ \<Rightarrow> None)"

definition const_fold_integral :: "'f consty \<Rightarrow> 'f numeric outcome" where
  "const_fold_integral k =
     (case const_fold_integral_try k of
        None \<Rightarrow> Inl (Assert_failed ''not an integer constant'') | Some n \<Rightarrow> Inr n)"

definition const_fold_val_i :: "'f consty \<Rightarrow> u64 outcome" where
  "const_fold_val_i k = bindE (const_fold_integral k) val_i"

definition const_intify :: "'f consty \<Rightarrow> nat \<Rightarrow> 'f consty" where
  "const_intify k owner =
     (case k_bits k of
        CONST_NO \<Rightarrow> CONST_FOLD_NO k owner
      | CONST_NEED_ADDR (LBL_MEMADDR m) \<Rightarrow> CONST_FOLD_LEAF\<lparr>k_bits := int_const (m + k_offset k)\<rparr>
      | CONST_ADDR (LBL_MEMADDR m) \<Rightarrow> CONST_FOLD_LEAF\<lparr>k_bits := int_const (m + k_offset k)\<rparr>
      | _ \<Rightarrow> k)"

definition const_memify :: "'f consty \<Rightarrow> 'f consty outcome" where
  "const_memify k =
     (case k_bits k of
        CONST_NUM n \<Rightarrow> bindE (val_i n) (\<lambda>i.
          Inr (CONST_FOLD_LEAF\<lparr>k_bits := CONST_ADDR (LBL_MEMADDR (i + k_offset k))\<rparr>))
      | _ \<Rightarrow> Inr k)"

definition is_lvalue_pointerish :: "ctype \<Rightarrow> bool outcome" where
  "is_lvalue_pointerish t =
     bindE (type_is_ptr (Some t)) (\<lambda>p. if p \<noteq> None then Inr True else
     bindE (type_is_array (Some t)) (\<lambda>a. if a \<noteq> None then Inr True else
     bindE (type_is_func_or_block t) (\<lambda>f. Inr (f \<noteq> None))))"

definition const_ensure_num_or_memaddr ::
    "tenv \<Rightarrow> 'f consty \<Rightarrow> ctype \<Rightarrow> ctype \<Rightarrow> nat \<Rightarrow> bool \<Rightarrow> 'f consty outcome" where
  "const_ensure_num_or_memaddr env k from_ty to_ty owner set_nonstandard =
     bindE (is_lvalue_pointerish from_ty) (\<lambda>from_ptr.
     bindE (is_lvalue_pointerish to_ty) (\<lambda>to_ptr.
       if from_ptr = to_ptr then Inr k
       else bindE (if from_ptr then Inr (const_intify k owner) else const_memify k) (\<lambda>k.
         if from_ptr then
           bindE (type_size env from_ty) (\<lambda>fs. bindE (type_size env to_ty) (\<lambda>ts.
             if fs > ts \<and> set_nonstandard \<and> k_nonstandard_const k = None
             then Inr (k\<lparr>k_nonstandard_const := Some owner\<rparr>) else Inr k))
         else Inr k)))"

section \<open>Unsigned arithmetic\<close>

text \<open>What C says of an operation on two values of an unsigned type of \<open>n\<close> bits.\<close>

definition c_unsigned_op :: "nat \<Rightarrow> op_type \<Rightarrow> int \<Rightarrow> int \<Rightarrow> int" where
  "c_unsigned_op n op a b =
     (case op of
        op_plus \<Rightarrow> (a + b) mod 2 ^ n
      | op_minus \<Rightarrow> (a - b) mod 2 ^ n
      | op_multiply \<Rightarrow> (a * b) mod 2 ^ n
      | op_divide \<Rightarrow> a div b
      | op_modulus \<Rightarrow> a mod b
      | op_shiftl \<Rightarrow> (a * 2 ^ nat b) mod 2 ^ n
      | op_shiftr \<Rightarrow> a div 2 ^ nat b
      | op_and \<Rightarrow> a AND b
      | op_or \<Rightarrow> a OR b
      | op_xor \<Rightarrow> a XOR b
      | op_eq \<Rightarrow> of_bool (a = b)
      | op_ne \<Rightarrow> of_bool (a \<noteq> b)
      | op_le \<Rightarrow> of_bool (a \<le> b)
      | op_lt \<Rightarrow> of_bool (a < b)
      | op_ge \<Rightarrow> of_bool (a \<ge> b)
      | op_gt \<Rightarrow> of_bool (a > b)
      | op_andsc \<Rightarrow> of_bool (a \<noteq> 0 \<and> b \<noteq> 0)
      | op_orsc \<Rightarrow> of_bool (a \<noteq> 0 \<or> b \<noteq> 0)
      | _ \<Rightarrow> 0)"

text \<open>
  The operations \<^verbatim>\<open>const_op_exec\<close> evaluates exactly: a product or a left shift may overflow
  the type by one bit at most.
\<close>

definition exact_op :: "nat \<Rightarrow> op_type \<Rightarrow> int \<Rightarrow> int \<Rightarrow> bool" where
  "exact_op n op a b \<longleftrightarrow>
     (case op of
        op_multiply \<Rightarrow> a * b < 2 ^ 63 \<and> a * b < 2 * 2 ^ n
      | op_divide \<Rightarrow> b \<noteq> 0
      | op_modulus \<Rightarrow> b \<noteq> 0
      | op_shiftl \<Rightarrow> b < 64 \<and> (n = 64 \<or> a * 2 ^ nat b < 2 * 2 ^ n)
      | op_shiftr \<Rightarrow> b < 64
      | op_not \<Rightarrow> False
      | op_bnot \<Rightarrow> False
      | op_signbit \<Rightarrow> False
      | op_no_signbit \<Rightarrow> False
      | op_unknown \<Rightarrow> False
      | _ \<Rightarrow> True)"

lemma mod_shift_down: "m \<le> x \<Longrightarrow> x < 2 * m \<Longrightarrow> x mod m = x - m" for x :: int
  using mod_pos_pos_trivial [of "x - m" m] by simp

lemma mod_shift_up: "x < 0 \<Longrightarrow> - m \<le> x \<Longrightarrow> x mod m = x + m" for x :: int
  using mod_pos_pos_trivial [of "x + m" m] by simp

lemma wrap_small: "result \<le> m \<Longrightarrow> wrap_around op m result = Inr result"
  by (auto simp: wrap_around_def dest: leD)

lemma uint_exp: "n < 64 \<Longrightarrow> uint (2 ^ n :: u64) = 2 ^ n"
  by (simp add: uint_nat unat_2_power)

lemma uint_max: "n \<le> 64 \<Longrightarrow> uint (2 ^ n - 1 :: u64) = 2 ^ n - 1"
  by (simp flip: mask_eq_exp_minus_1 add: uint_mask_eq min_def)

lemma exp_le_32: "n \<le> 32 \<Longrightarrow> (2::int) ^ n \<le> 4294967296"
  using power_increasing [of n 32 "2::int"] by simp

lemma max_neq: "n \<le> 32 \<Longrightarrow> (2 ^ n - 1 :: u64) \<noteq> - 1"
proof -
  assume n: "n \<le> 32"
  then have "uint (2 ^ n - 1 :: u64) \<noteq> uint (- 1 :: u64)"
    using uint_max [of n] exp_le_32 [of n] by (simp add: unsigned_minus_1_eq_mask mask_eq_exp_minus_1)
  then show ?thesis by metis
qed

lemma wrap_64: "wrap_around op (2 ^ 64 - 1) w = Inr w"
  by (simp add: wrap_around_def)

lemma wrap_inc:
  assumes "n \<le> 32" "uint w < 2 * 2 ^ n" "op_increases op = Inr True"
  shows "\<exists>v. wrap_around op (2 ^ n - 1) w = Inr v \<and> uint v = uint w mod 2 ^ n"
proof (cases "w \<le> 2 ^ n - 1")
  case True
  then have "uint w < 2 ^ n" using uint_max [of n] assms(1) by (simp add: word_le_def)
  then show ?thesis using True by (simp add: wrap_small)
next
  case False
  then have ge: "2 ^ n \<le> uint w" using uint_max [of n] assms(1) by (simp add: word_le_def)
  have "wrap_around op (2 ^ n - 1) w = Inr (w - 2 ^ n)"
    using False assms(3) max_neq [OF assms(1)] by (auto simp: wrap_around_def not_le)
  moreover have "uint (w - 2 ^ n) = uint w - 2 ^ n"
    using ge uint_sub_lem [of "2 ^ n" w] uint_exp [of n] assms(1) by simp
  ultimately show ?thesis using mod_shift_down [OF ge assms(2)] by simp
qed

lemma wrap_minus:
  fixes l r :: u64
  assumes n: "n \<le> 32" and a: "uint l = a" "a < 2 ^ n" "0 \<le> a" and b: "uint r = b" "b < 2 ^ n" "0 \<le> b"
  shows "\<exists>v. wrap_around op_minus (2 ^ n - 1) (l - r) = Inr v \<and> uint v = (a - b) mod 2 ^ n"
proof (cases "b \<le> a")
  case True
  then have d: "uint (l - r) = a - b" using uint_sub_lem a(1) b(1) by blast
  then have "uint (l - r) \<le> 2 ^ n - 1" using a(2) b(3) by linarith
  then have "l - r \<le> 2 ^ n - 1" using n uint_max [of n] by (simp add: word_le_def)
  moreover have "(a - b) mod 2 ^ n = a - b" using True a(2) b(3) by (intro mod_pos_pos_trivial) linarith+
  ultimately show ?thesis using d by (simp add: wrap_small)
next
  case False
  note big = exp_le_32 [OF n]
  have "uint (l - r) = (a - b) mod 2 ^ 64" by (simp add: uint_word_ariths a(1) b(1))
  also have "\<dots> = a - b + 2 ^ 64" using False big a b by (intro mod_shift_up) simp_all
  finally have "uint (l - r) = a - b + 2 ^ 64" .
  then have "2 ^ n - 1 < uint (l - r)" using big a(3) b(2) by simp
  then have "2 ^ n - 1 < l - r" using uint_max [of n] n by (simp add: word_less_def)
  then have w: "wrap_around op_minus (2 ^ n - 1) (l - r) = Inr (l - r + 2 ^ n)"
    using max_neq [OF n] by (simp add: wrap_around_def op_increases_def)
  have "uint (l - r + 2 ^ n) = (a - b + 2 ^ n) mod 2 ^ 64"
    using uint_exp [of n] n by (simp add: uint_word_ariths a(1) b(1) mod_simps)
  also have "\<dots> = a - b + 2 ^ n" using False big a b by (intro mod_pos_pos_trivial) simp_all
  also have "\<dots> = (a - b) mod 2 ^ n" using False a b by (intro mod_shift_up [symmetric]) simp_all
  finally show ?thesis using w by simp
qed

lemma uint_drop: "uint (drop_bit n w) = uint w div 2 ^ n" for w :: u64
  using arg_cong [OF unat_drop_bit_div [of n w], of int] by (simp add: zdiv_int)

lemma sint_eq_uint_eq: "sint a = sint b \<longleftrightarrow> uint a = uint b" for a b :: u64
  by (metis word_eq_iff_signed word_uint_eq_iff)

lemma unat_uint_less: "unat w < 64 \<longleftrightarrow> uint w < 64" for w :: u64
  using of_nat_less_iff [of "unat w" 64, where 'a = int] by simp

lemma op_result_plain:
  assumes "exact_op n op (uint l) (uint r)" "op \<notin> {op_plus, op_minus, op_multiply, op_shiftl}"
  shows "\<exists>w. const_op_result False l (Some r) op = Inr (w, False) \<and>
     uint w = c_unsigned_op n op (uint l) (uint r)"
  using assms
  by (cases op)
   (simp_all add: const_op_result_def exact_op_def c_unsigned_op_def deref_def Let_def word_le_def word_less_def
     uint_div uint_mod unsigned_and_eq unsigned_or_eq unsigned_xor_eq uint_0_iff shift_count_def uint_drop
     sint_eq_uint_eq unat_uint_less)

lemma c_unsigned_op_bound:
  assumes "exact_op n op a b" "op \<notin> {op_plus, op_minus, op_multiply, op_shiftl}"
    and "0 \<le> a" "a < 2 ^ n" "0 \<le> b" "b < 2 ^ n" "0 < n"
  shows "c_unsigned_op n op a b \<le> 2 ^ n - 1"
proof -
  have one: "(2::int) \<le> 2 ^ n" using assms(7) self_le_power [of 2 n] by simp
  have dv: "0 < x \<Longrightarrow> a div x < 2 ^ n" for x
    using assms(3,4) int_div_less_self [of a x] zdiv_mono2 [of a 1 x] by simp
  have md: "b \<noteq> 0 \<Longrightarrow> a mod b < 2 ^ n" using assms(5,6) pos_mod_bound [of b a] by linarith
  have bits: "a AND b < 2 ^ n" "a OR b < 2 ^ n" "a XOR b < 2 ^ n"
    using assms(3-6) AND_upper1 [of a b] OR_upper [of a n b] XOR_upper [of a n b] by simp_all
  show ?thesis using assms(1,2,5) one dv [of b] dv [of "2 ^ nat b"] md bits
    by (cases op) (simp_all add: exact_op_def c_unsigned_op_def)
qed

lemma type_max_unsigned:
  assumes "type_size env ty = Inr sz" "type_is_signed env ty = Inr False"
    and "sz = 1 \<or> sz = 2 \<or> sz = 4 \<or> sz = 8"
  shows "type_max env ty = Inr (2 ^ (8 * unat sz) - 1)"
  using assms by (auto simp: type_max_def mask_eq_exp_minus_1)

lemma op_result_plus:
  assumes "n \<le> 32 \<or> n = 64" "uint l < 2 ^ n" "uint r < 2 ^ n"
  shows "\<exists>w v. const_op_result False l (Some r) op_plus = Inr (w, False) \<and>
     wrap_around op_plus (2 ^ n - 1) w = Inr v \<and> uint v = (uint l + uint r) mod 2 ^ n"
proof (cases "n = 64")
  case True
  then show ?thesis using wrap_64 by (simp add: const_op_result_def uint_word_ariths)
next
  case False
  then have n: "n \<le> 32" using assms(1) by simp
  have "uint (l + r) = uint l + uint r"
    using uint_add_lem [of l r] assms(2,3) exp_le_32 [OF n] by simp
  then show ?thesis using wrap_inc [OF n, of "l + r" op_plus] assms(2,3)
    by (simp add: const_op_result_def op_increases_def)
qed

lemma op_result_minus:
  assumes "n \<le> 32 \<or> n = 64" "uint l < 2 ^ n" "uint r < 2 ^ n"
  shows "\<exists>w v. const_op_result False l (Some r) op_minus = Inr (w, False) \<and>
     wrap_around op_minus (2 ^ n - 1) w = Inr v \<and> uint v = (uint l - uint r) mod 2 ^ n"
proof (cases "n = 64")
  case True
  then show ?thesis using wrap_64 by (simp add: const_op_result_def uint_word_ariths)
next
  case False
  then show ?thesis using wrap_minus [of n l "uint l" r "uint r"] assms
    by (simp add: const_op_result_def)
qed

lemma sint_small:
  fixes l :: u64
  assumes "uint l < 2 ^ 63"
  shows "sint l = uint l"
proof -
  have "- (2 ^ 63) \<le> uint l" by (rule order_trans [OF _ uint_ge_0]) simp
  then have "signed_take_bit 63 (uint l) = uint l" using assms by (rule signed_take_bit_int_eq_self)
  then show ?thesis by (simp add: sint_uint)
qed

lemma op_result_multiply:
  assumes "n \<le> 32 \<or> n = 64" "exact_op n op_multiply (uint l) (uint r)"
  shows "\<exists>w v. const_op_result False l (Some r) op_multiply = Inr (w, False) \<and>
     wrap_around op_multiply (2 ^ n - 1) w = Inr v \<and> uint v = (uint l * uint r) mod 2 ^ n"
proof -
  define a b where ab: "a = uint l" "b = uint r"
  have nn: "0 \<le> a" "0 \<le> b" "a * b < 2 ^ 63" using assms(2) by (simp_all add: ab exact_op_def)
  have m: "sint l * sint r = a * b"
  proof (cases "a = 0 \<or> b = 0")
    case True
    then show ?thesis by (auto simp: ab uint_0_iff)
  next
    case False
    then have "1 \<le> a" "1 \<le> b" using nn by linarith+
    then have "a < 2 ^ 63" "b < 2 ^ 63"
      using nn(3) mult_left_mono [of 1 b a] mult_right_mono [of 1 a b] by linarith+
    then show ?thesis by (simp add: sint_small ab)
  qed
  have "0 \<le> a * b" using nn by simp
  then have w: "const_op_result False l (Some r) op_multiply = Inr (of_int (a * b), False)"
    using m nn(3) by (simp add: const_op_result_def deref_def s64_def Let_def)
  have u: "uint (of_int (a * b) :: u64) = a * b"
    using \<open>0 \<le> a * b\<close> nn(3) by (simp add: uint_word_of_int_eq take_bit_int_eq_self del: of_int_mult)
  show ?thesis
  proof (cases "n = 64")
    case True
    then show ?thesis using w u wrap_64 nn \<open>0 \<le> a * b\<close> ab by (simp del: of_int_mult)
  next
    case False
    then have n: "n \<le> 32" using assms(1) by simp
    then show ?thesis using w u wrap_inc [OF n, of "of_int (a * b)" op_multiply] assms(2) ab
      by (simp add: exact_op_def op_increases_def del: of_int_mult)
  qed
qed

lemma op_result_shiftl:
  assumes "n \<le> 32 \<or> n = 64" "exact_op n op_shiftl (uint l) (uint r)"
  shows "\<exists>w v. const_op_result False l (Some r) op_shiftl = Inr (w, False) \<and>
     wrap_around op_shiftl (2 ^ n - 1) w = Inr v \<and> uint v = (uint l * 2 ^ nat (uint r)) mod 2 ^ n"
proof -
  have w: "const_op_result False l (Some r) op_shiftl = Inr (push_bit (unat r) l, False)"
    using assms(2) by (simp add: const_op_result_def deref_def Let_def shift_count_def exact_op_def unat_uint_less)
  have u: "uint (push_bit (unat r) l) = (uint l * 2 ^ nat (uint r)) mod 2 ^ 64"
    using uint_exp [of "unat r"] assms(2)
    by (simp add: push_bit_eq_mult uint_word_ariths exact_op_def unat_uint_less)
  show ?thesis
  proof (cases "n = 64")
    case True
    then show ?thesis using w u wrap_64 by simp
  next
    case False
    then have n: "n \<le> 32" using assms(1) by simp
    then have "uint (push_bit (unat r) l) = uint l * 2 ^ nat (uint r)"
      using u False assms(2) exp_le_32 [OF n] by (simp add: exact_op_def)
    then show ?thesis using w wrap_inc [OF n, of "push_bit (unat r) l" op_shiftl] False assms(2)
      by (simp add: exact_op_def op_increases_def)
  qed
qed

text \<open>
  C29: \<^verbatim>\<open>const_op_exec\<close> on an unsigned type of 1, 2, 4 or 8 bytes: whenever the operands are
  values of the type, a divisor is not zero, a shift count is below 64 and a product or a
  left shift exceeds the type by one bit at most, the result is the one C defines, reduced
  modulo the range of the type, and no error is reported.
\<close>

theorem const_op_exec_unsigned:
  assumes "type_size env ty = Inr sz" "type_is_signed env ty = Inr False"
    and "sz = 1 \<or> sz = 2 \<or> sz = 4 \<or> sz = 8"
    and "uint l < 2 ^ (8 * unat sz)" "uint r < 2 ^ (8 * unat sz)"
    and "exact_op (8 * unat sz) op (uint l) (uint r)"
  shows "\<exists>v. const_op_exec env l (Some r) op ty = Inr (v, False) \<and>
           uint v = c_unsigned_op (8 * unat sz) op (uint l) (uint r)"
proof -
  define n where "n = 8 * unat sz"
  have n: "n \<le> 32 \<or> n = 64" "0 < n" "n \<le> 64" using assms(3) by (auto simp: n_def)
  have lt: "uint l < 2 ^ n" "uint r < 2 ^ n" and ex: "exact_op n op (uint l) (uint r)"
    using assms(4-6) by (simp_all add: n_def)
  have mx: "type_max env ty = Inr (2 ^ n - 1)"
    unfolding n_def using assms(1-3) by (rule type_max_unsigned)
  have "\<exists>w v. const_op_result False l (Some r) op = Inr (w, False) \<and>
     wrap_around op (2 ^ n - 1) w = Inr v \<and> uint v = c_unsigned_op n op (uint l) (uint r)"
  proof (cases "op \<in> {op_plus, op_minus, op_multiply, op_shiftl}")
    case True
    then consider "op = op_plus" | "op = op_minus" | "op = op_multiply" | "op = op_shiftl" by auto
    then show ?thesis
    proof cases
      case 1
      show ?thesis using op_result_plus [OF n(1) lt] unfolding 1 c_unsigned_op_def op_type.case .
    next
      case 2
      show ?thesis using op_result_minus [OF n(1) lt] unfolding 2 c_unsigned_op_def op_type.case .
    next
      case 3
      show ?thesis using op_result_multiply [OF n(1) ex [unfolded 3]] unfolding 3 c_unsigned_op_def op_type.case .
    next
      case 4
      show ?thesis using op_result_shiftl [OF n(1) ex [unfolded 4]] unfolding 4 c_unsigned_op_def op_type.case .
    qed
  next
    case False
    obtain w where w: "const_op_result False l (Some r) op = Inr (w, False)"
        "uint w = c_unsigned_op n op (uint l) (uint r)"
      using op_result_plain [OF ex False] by blast
    then have "w \<le> 2 ^ n - 1"
      using c_unsigned_op_bound [OF ex False _ lt(1) _ lt(2) n(2)] uint_max [OF n(3)]
      by (simp add: word_le_def)
    then show ?thesis using w wrap_small by blast
  qed
  then show ?thesis using assms(2) mx by (auto simp: const_op_exec_def n_def)
qed

theorem const_op_exec_unsigned_witness:
  "\<exists>v. const_op_exec example_env 3 (Some 5) op_minus
         (T_btype \<lparr>bt_primitive = type_uint, bt_sue = None\<rparr>) = Inr (v, False) \<and> uint v = 4294967294"
proof -
  let ?ty = "T_btype \<lparr>bt_primitive = type_uint, bt_sue = None\<rparr>"
  have "type_size example_env ?ty = Inr 4" "type_is_signed example_env ?ty = Inr False" by code_simp+
  from const_op_exec_unsigned [OF this, of 3 5 op_minus] show ?thesis
    by (simp add: exact_op_def c_unsigned_op_def)
qed

text \<open>
  A product that exceeds an unsigned type by more than one bit is wrapped once only:
  \<^verbatim>\<open>0x80000000u * 8\<close> is 0 in C, and \<^verbatim>\<open>const_op_exec\<close> gives \<^verbatim>\<open>0x300000000\<close>, which is no value
  of \<^verbatim>\<open>unsigned int\<close>; a left shift goes the same way.
\<close>

lemma const_op_wraps_once:
  "const_op_exec example_env 0x80000000 (Some 8) op_multiply
     (T_btype \<lparr>bt_primitive = type_uint, bt_sue = None\<rparr>) = Inr (0x300000000, False) \<and>
   c_unsigned_op 32 op_multiply 0x80000000 8 = 0 \<and>
   const_op_exec example_env 0x80000000 (Some 3) op_shiftl
     (T_btype \<lparr>bt_primitive = type_uint, bt_sue = None\<rparr>) = Inr (0x300000000, False)"
proof (intro conjI)
  let ?ty = "T_btype \<lparr>bt_primitive = type_uint, bt_sue = None\<rparr>"
  show "const_op_exec example_env 0x80000000 (Some 8) op_multiply ?ty = Inr (0x300000000, False)"
    by code_simp
  show "c_unsigned_op 32 op_multiply 0x80000000 8 = 0" by (simp add: c_unsigned_op_def)
  show "const_op_exec example_env 0x80000000 (Some 3) op_shiftl ?ty = Inr (0x300000000, False)"
    by code_simp
qed

section \<open>Pointers and integers\<close>

text \<open>
  Casting an integer constant to a pointer and the pointer back to an integer gives the
  same integer, with the offset the constant had added and no offset left.
\<close>

theorem const_memify_intify:
  assumes "k_bits k = CONST_NUM n" "val_i n = Inr v"
  shows "\<exists>k'. const_memify k = Inr k' \<and>
           const_fold_val_i (const_intify k' owner) = Inr (v + k_offset k)"
  using assms
  by (auto simp: const_memify_def const_intify_def const_fold_val_i_def const_fold_integral_def
      const_fold_integral_try_def CONST_FOLD_LEAF_def int_const_def K_FLOATING_def val_i_def)

theorem const_memify_intify_witness:
  "\<exists>k'. const_memify (CONST_FOLD_LEAF\<lparr>k_bits := int_const 40, k_offset := 2\<rparr> :: bool consty) = Inr k' \<and>
     const_fold_val_i (const_intify k' 0) = Inr 42"
  using const_memify_intify
    [of "CONST_FOLD_LEAF\<lparr>k_bits := int_const 40, k_offset := 2\<rparr> :: bool consty"
      "\<lparr>num_val = Val_i 40, num_suffix = 0\<rparr>" 40 0]
  by (simp add: int_const_def val_i_def CONST_FOLD_LEAF_def)

text \<open>
  For an absolute address the question asked does not matter: the null pointer is
  reported as zero and as non-zero, and any other constant address as neither.
\<close>

theorem const_expr_zero_memaddr:
  "const_expr_and_non_zero F (k\<lparr>k_bits := CONST_ADDR (LBL_MEMADDR 0)\<rparr>) = Inr True \<and>
   (m = 0 \<or> const_expr_and_non_zero F (k\<lparr>k_bits := CONST_ADDR (LBL_MEMADDR m)\<rparr>) = Inr False)"
  by (simp add: const_expr_and_non_zero_def const_expr_zero_def)

end
