(* ===== verification/Ucc_Fold_Op.thy ===== *)
theory Ucc_Fold_Op
  imports Ucc_Const
begin

text \<open>
  Constant folding of operators and the usual arithmetic conversions, from
  \<^verbatim>\<open>src/cc1/ops/expr_op.c\<close>, with \<^verbatim>\<open>type_sign\<close> of \<^verbatim>\<open>src/cc1/type_nav.c\<close>.

  An operator expression is its number, its operator, the numbers and types of its
  operands and its type.  The constants its operands fold to are arguments.  Constant
  folding starts from a zeroed \<^verbatim>\<open>consty\<close>; warnings are not part of the result.
\<close>

section \<open>Definitions\<close>

record opexpr =
  oe_id :: nat
  oe_op :: op_type
  oe_lhs :: "nat \<times> ctype"
  oe_rhs :: "(nat \<times> ctype) option"
  oe_type :: ctype

record collapsed_consty =
  cc_lbl :: "string option"
  cc_offset :: u64
  cc_weak :: bool

datatype eval_truth = EVAL_FALSE | EVAL_TRUE | EVAL_UNKNOWN

definition const_op_num_fp ::
    "'f float_ops \<Rightarrow> bool \<Rightarrow> opexpr \<Rightarrow> 'f consty \<Rightarrow> 'f consty option \<Rightarrow> 'f consty outcome" where
  "const_op_num_fp F rounding_math e lhs rhs =
     (let num = (\<lambda>k. case k_bits k of CONST_NUM n \<Rightarrow> Inr n | _ \<Rightarrow> Inl (Assert_failed ''CONST_NUM'')) in
      bindE (num lhs) (\<lambda>ln.
      bindE (case rhs of None \<Rightarrow> Inr None | Some r \<Rightarrow> bindE (num r) (\<lambda>n. Inr (Some n))) (\<lambda>rn.
      if rounding_math \<and> rhs \<noteq> None then Inr CONST_FOLD_LEAF
      else
        bindE (val_f ln) (\<lambda>lf.
        bindE (case rn of None \<Rightarrow> Inr None | Some n \<Rightarrow> bindE (val_f n) (\<lambda>f. Inr (Some f))) (\<lambda>rf.
        bindE (const_op_exec_fp F lf rf (oe_op e)) (\<lambda>fp_r.
          let k = CONST_FOLD_LEAF\<lparr>k_nonstandard_const :=
                    (if oe_op e \<noteq> op_minus then Some (oe_id e) else None)\<rparr> in
          if op_returns_bool (oe_op e) then Inr (k\<lparr>k_bits := int_const (f_to_i F fp_r)\<rparr>)
          else bindE (type_get_type (oe_type e)) (\<lambda>ty.
            let fl = (\<lambda>s. Inr (k\<lparr>k_bits := CONST_NUM \<lparr>num_val = Val_f fp_r, num_suffix = s\<rparr>\<rparr>)) in
            case ty of
              None \<Rightarrow> Inl (Assert_failed ''no float type for float op?'')
            | Some b \<Rightarrow>
                if bt_primitive b = type_float then fl VAL_FLOAT
                else if bt_primitive b = type_double then fl VAL_DOUBLE
                else if bt_primitive b = type_ldouble then fl VAL_LDOUBLE
                else Inl (Ice ''bad float'')))))))) "

fun collapse_const :: "'f consty \<Rightarrow> collapsed_consty outcome" where
  "collapse_const k =
     (let lbl_part = (\<lambda>a. case a of
            LBL_TRUE l \<Rightarrow> \<lparr>cc_lbl = Some l, cc_offset = k_offset k, cc_weak = False\<rparr>
          | LBL_WEAK l \<Rightarrow> \<lparr>cc_lbl = Some l, cc_offset = k_offset k, cc_weak = True\<rparr>
          | LBL_MEMADDR m \<Rightarrow> \<lparr>cc_lbl = None, cc_offset = m + k_offset k, cc_weak = False\<rparr>)
      in case k_bits k of
           CONST_NO \<Rightarrow> Inl (Assert_failed ''collapse_const'')
         | CONST_NUM n \<Rightarrow> bindE (val_i n) (\<lambda>i.
             Inr \<lparr>cc_lbl = None, cc_offset = i + k_offset k, cc_weak = False\<rparr>)
         | CONST_STRK l \<Rightarrow> Inr \<lparr>cc_lbl = Some l, cc_offset = k_offset k, cc_weak = False\<rparr>
         | CONST_NEED_ADDR a \<Rightarrow> Inr (lbl_part a)
         | CONST_ADDR a \<Rightarrow> Inr (lbl_part a))"

declare collapse_const.simps [simp del]

definition collapsed_consty_to_truth :: "collapsed_consty \<Rightarrow> eval_truth" where
  "collapsed_consty_to_truth k =
     (if cc_weak k then EVAL_UNKNOWN
      else if cc_lbl k \<noteq> None \<or> cc_offset k \<noteq> 0 then EVAL_TRUE else EVAL_FALSE)"

definition eval_truth_to_consty :: "eval_truth \<Rightarrow> 'f consty \<Rightarrow> nat \<Rightarrow> 'f consty" where
  "eval_truth_to_consty t k e =
     (case t of
        EVAL_UNKNOWN \<Rightarrow> CONST_FOLD_NO k e
      | _ \<Rightarrow> k\<lparr>k_bits := int_const (of_bool (t = EVAL_TRUE))\<rparr>)"

definition eval_shortcircuit :: "op_type \<Rightarrow> eval_truth \<Rightarrow> eval_truth \<Rightarrow> eval_truth" where
  "eval_shortcircuit op lhs rhs =
     (if op = op_andsc then
        (case (lhs, rhs) of
           (EVAL_FALSE, _) \<Rightarrow> EVAL_FALSE
         | (EVAL_TRUE, r) \<Rightarrow> r
         | (EVAL_UNKNOWN, _) \<Rightarrow> EVAL_UNKNOWN)
      else
        (case (lhs, rhs) of
           (EVAL_FALSE, r) \<Rightarrow> r
         | (EVAL_TRUE, _) \<Rightarrow> EVAL_TRUE
         | (EVAL_UNKNOWN, _) \<Rightarrow> EVAL_UNKNOWN))"

definition lbl_count :: "collapsed_consty \<Rightarrow> collapsed_consty \<Rightarrow> nat" where
  "lbl_count l r = of_bool (cc_lbl l \<noteq> None) + of_bool (cc_lbl r \<noteq> None)"

text \<open>The scaling of the integer operand of a pointer addition or subtraction.\<close>

definition pointer_scale ::
    "tenv \<Rightarrow> opexpr \<Rightarrow> collapsed_consty \<Rightarrow> collapsed_consty \<Rightarrow> ctype
      \<Rightarrow> (collapsed_consty \<times> collapsed_consty) outcome" where
  "pointer_scale env e l r rhs_ty =
     (if lbl_count l r < 2 \<and> (oe_op e = op_plus \<or> oe_op e = op_minus) then
        bindE (type_is_ptr (Some (snd (oe_lhs e)))) (\<lambda>pl.
        bindE (case pl of Some p \<Rightarrow> Inr (Some (False, p))
               | None \<Rightarrow> bindE (type_is_ptr (Some rhs_ty)) (\<lambda>pr. Inr (map_option (Pair True) pr))) (\<lambda>ptr.
          case ptr of
            None \<Rightarrow> Inr (l, r)
          | Some (ptr_r, p) \<Rightarrow>
              bindE (type_size env p) (\<lambda>step.
                if cc_lbl (if ptr_r then l else r) \<noteq> None then Inl (Assert_failed ''lbl'')
                else if ptr_r then Inr (l\<lparr>cc_offset := cc_offset l * ucast step\<rparr>, r)
                else Inr (l, r\<lparr>cc_offset := cc_offset r * ucast step\<rparr>))))
      else Inr (l, r))"

text \<open>One label and a number.\<close>

definition fold_one_label ::
    "opexpr \<Rightarrow> 'f consty \<Rightarrow> 'f consty option \<Rightarrow> collapsed_consty \<Rightarrow> collapsed_consty \<Rightarrow> 'f consty outcome" where
  "fold_one_label e lhs rhs l r =
     (let num_left = (cc_lbl l = None);
          num_side = (if num_left then l else r);
          lbl_side = (if cc_lbl l \<noteq> None then l else r);
          no = Inr (CONST_FOLD_NO CONST_FOLD_LEAF (oe_id e))
      in case oe_op e of
           op_not \<Rightarrow>
             if rhs \<noteq> None then Inl (Assert_failed ''!rhs'')
             else if cc_weak lbl_side then no
             else Inr (CONST_FOLD_LEAF\<lparr>k_bits := int_const 0\<rparr>)
         | op_eq \<Rightarrow>
             if cc_offset num_side = 0 \<and> \<not> cc_weak lbl_side
             then Inr (CONST_FOLD_LEAF\<lparr>k_bits := int_const 0\<rparr>) else no
         | op_ne \<Rightarrow>
             if cc_offset num_side = 0 \<and> \<not> cc_weak lbl_side
             then Inr (CONST_FOLD_LEAF\<lparr>k_bits := int_const 1\<rparr>) else no
         | op_plus \<Rightarrow>
             (case rhs of None \<Rightarrow> no
              | Some rk \<Rightarrow> let k = (if num_left then rk else lhs) in
                  Inr (k\<lparr>k_offset := k_offset k + cc_offset num_side\<rparr>))
         | op_minus \<Rightarrow>
             (case rhs of None \<Rightarrow> no
              | Some rk \<Rightarrow> let k = (if num_left then rk else lhs) in
                  Inr (k\<lparr>k_offset := k_offset k - cc_offset num_side\<rparr>))
         | _ \<Rightarrow> no)"

text \<open>No label: \<^verbatim>\<open>const_op_exec\<close> and the suffix of the result.\<close>

definition fold_numbers ::
    "tenv \<Rightarrow> opexpr \<Rightarrow> bool \<Rightarrow> bool \<Rightarrow> collapsed_consty \<Rightarrow> collapsed_consty \<Rightarrow> 'f consty outcome" where
  "fold_numbers env e is_signed has_rhs l r =
     bindE (const_op_exec env (cc_offset l) (if has_rhs then Some (cc_offset r) else None)
              (oe_op e) (oe_type e)) (\<lambda>(int_r, err).
       if err then Inr (CONST_FOLD_NO CONST_FOLD_LEAF (oe_id e))
       else bindE (type_get_type (oe_type e)) (\<lambda>bt.
         let prim = (case bt of Some b \<Rightarrow> bt_primitive b | None \<Rightarrow> type_unknown);
             sfx = (if is_signed then 0 else VAL_UNSIGNED) OR
                   (if prim = type_long then VAL_LONG else if prim = type_llong then VAL_LLONG else 0)
         in Inr (CONST_FOLD_LEAF\<lparr>k_bits := CONST_NUM \<lparr>num_val = Val_i int_r, num_suffix = sfx\<rparr>\<rparr>)))"

text \<open>Two labels.\<close>

definition fold_two_labels ::
    "tenv \<Rightarrow> opexpr \<Rightarrow> collapsed_consty \<Rightarrow> collapsed_consty \<Rightarrow> 'f consty outcome" where
  "fold_two_labels env e l r =
     (let no = Inr (CONST_FOLD_NO CONST_FOLD_LEAF (oe_id e));
          same = (cc_lbl l = cc_lbl r);
          cmp = (if cc_weak l \<or> cc_weak r then no
                 else Inr (CONST_FOLD_LEAF\<lparr>k_bits := int_const (of_bool ((oe_op e = op_eq) = same))\<rparr>))
      in case oe_op e of
           op_not \<Rightarrow> Inl (Assert_failed ''binary not?'')
         | op_unknown \<Rightarrow> Inl (Assert_failed ''op_unknown'')
         | op_orsc \<Rightarrow> Inl (Assert_failed ''unreachable'')
         | op_andsc \<Rightarrow> Inl (Assert_failed ''unreachable'')
         | op_eq \<Rightarrow> cmp
         | op_ne \<Rightarrow> cmp
         | op_minus \<Rightarrow>
             if \<not> cc_weak l \<and> \<not> cc_weak r \<and> same then
               bindE (type_is_ptr (Some (snd (oe_lhs e)))) (\<lambda>tnext.
                 case tnext of
                   None \<Rightarrow> Inl (Assert_failed ''tnext'')
                 | Some t \<Rightarrow> bindE (type_size env t) (\<lambda>sz.
                     if sz = 0 then Inl (Undefined ''division by zero'')
                     else Inr (CONST_FOLD_LEAF\<lparr>
                       k_bits := int_const ((cc_offset l - cc_offset r) div ucast sz),
                       k_nonstandard_const := Some (oe_id e)\<rparr>)))
             else Inr CONST_FOLD_LEAF
         | _ \<Rightarrow> no)"

definition const_op_num_int ::
    "tenv \<Rightarrow> opexpr \<Rightarrow> 'f consty \<Rightarrow> 'f consty option \<Rightarrow> 'f consty outcome" where
  "const_op_num_int env e lhs rhs =
     bindE (type_is_signed env (snd (oe_lhs e))) (\<lambda>ls.
     bindE (if ls then Inr True
            else case oe_rhs e of Some (_, t) \<Rightarrow> type_is_signed env t | None \<Rightarrow> Inr False) (\<lambda>is_signed.
     bindE (collapse_const lhs) (\<lambda>l0.
     bindE (case (rhs, oe_rhs e) of
              (Some rk, Some (_, rt)) \<Rightarrow>
                bindE (collapse_const rk) (\<lambda>r0. pointer_scale env e l0 r0 rt)
            | (Some _, None) \<Rightarrow> Inl Null_deref
            | (None, _) \<Rightarrow> Inr (l0, \<lparr>cc_lbl = None, cc_offset = 0, cc_weak = False\<rparr>)) (\<lambda>(l, r).
       if oe_op e = op_andsc \<or> oe_op e = op_orsc then
         Inr (eval_truth_to_consty
                (eval_shortcircuit (oe_op e) (collapsed_consty_to_truth l) (collapsed_consty_to_truth r))
                CONST_FOLD_LEAF (oe_id e))
       else if lbl_count l r = 1 then fold_one_label e lhs rhs l r
       else if lbl_count l r = 0 then fold_numbers env e is_signed (rhs \<noteq> None) l r
       else fold_two_labels env e l r))))"

definition const_op_num ::
    "tenv \<Rightarrow> 'f float_ops \<Rightarrow> bool \<Rightarrow> bool \<Rightarrow> opexpr \<Rightarrow> 'f consty \<Rightarrow> 'f consty option \<Rightarrow> 'f consty outcome" where
  "const_op_num env F rounding_math fold_had_error e lhs rhs =
     bindE (type_is_floating (Some (snd (oe_lhs e)))) (\<lambda>fp0.
     bindE (case rhs of None \<Rightarrow> Inr fp0
            | Some _ \<Rightarrow> (case oe_rhs e of None \<Rightarrow> Inl Null_deref
                         | Some (_, t) \<Rightarrow> type_is_floating (Some t))) (\<lambda>fp1.
       if fp0 \<noteq> fp1 then
         (if fold_had_error then Inr CONST_FOLD_LEAF
          else Inl (Assert_failed ''one float and one non-float?''))
       else if fp0 then const_op_num_fp F rounding_math e lhs rhs
       else const_op_num_int env e lhs rhs))"

definition const_shortcircuit :: "opexpr \<Rightarrow> 'f consty \<Rightarrow> 'f consty \<Rightarrow> 'f consty \<Rightarrow> 'f consty outcome" where
  "const_shortcircuit e k lhs rhs =
     (if \<not> CONST_AT_COMPILE_TIME (k_bits lhs) then Inr k
      else if CONST_AT_COMPILE_TIME (k_bits rhs)
      then Inl (Assert_failed ''!CONST_AT_COMPILE_TIME(rhs->type)'')
      else bindE (collapse_const lhs) (\<lambda>clhs.
        Inr (eval_truth_to_consty
               (eval_shortcircuit (oe_op e) (collapsed_consty_to_truth clhs) EVAL_UNKNOWN) k (oe_id e))))"

definition fold_const_expr_op ::
    "tenv \<Rightarrow> 'f float_ops \<Rightarrow> bool \<Rightarrow> bool \<Rightarrow> opexpr \<Rightarrow> 'f consty \<Rightarrow> 'f consty \<Rightarrow> 'f consty outcome" where
  "fold_const_expr_op env F rounding_math fold_had_error e lhs rhs0 =
     (let rhs = (if oe_rhs e = None then CONST_FOLD_LEAF\<lparr>k_bits := int_const 0\<rparr> else rhs0) in
      if \<not> CONST_AT_COMPILE_TIME (k_bits lhs) \<or> \<not> CONST_AT_COMPILE_TIME (k_bits rhs) then
        (let k = const_fold_no CONST_FOLD_LEAF lhs (Some (fst (oe_lhs e))) rhs (map_option fst (oe_rhs e)) in
         if oe_op e = op_andsc \<or> oe_op e = op_orsc then
           bindE (const_shortcircuit e k lhs rhs) (\<lambda>k.
             Inr (if k_bits k \<noteq> CONST_NO then k\<lparr>k_nonconst := None\<rparr> else k))
         else Inr k)
      else
        bindE (const_op_num env F rounding_math fold_had_error e lhs
                 (if oe_rhs e = None then None else Some rhs)) (\<lambda>k.
          Inr (if k_nonstandard_const k = None
               then k\<lparr>k_nonstandard_const :=
                      (if k_nonstandard_const lhs \<noteq> None then k_nonstandard_const lhs
                       else k_nonstandard_const rhs)\<rparr>
               else k)))"

section \<open>Arithmetic conversions\<close>

definition type_nav_btype :: "type_primitive \<Rightarrow> ctype" where
  "type_nav_btype p = T_btype \<lparr>bt_primitive = p, bt_sue = None\<rparr>"

definition type_sign :: "tenv \<Rightarrow> ctype \<Rightarrow> bool \<Rightarrow> ctype outcome" where
  "type_sign env ty make_signed =
     bindE (type_get_primitive ty) (\<lambda>prim.
       if prim = type_unknown then Inl (Assert_failed ''prim != type_unknown'')
       else if type_intrank prim = -1 then Inl (Assert_failed ''type_intrank(prim) != -1'')
       else bindE (type_primitive_is_signed env prim True) (\<lambda>is_signed.
         Inr (type_nav_btype
           (if make_signed then
              (if is_signed then prim
               else if TYPE_PRIMITIVE_IS_CHAR prim then type_schar else TYPE_PRIMITIVE_TO_SIGNED prim)
            else if is_signed then
              (if TYPE_PRIMITIVE_IS_CHAR prim then type_uchar else TYPE_PRIMITIVE_TO_UNSIGNED prim)
            else prim))))"

text \<open>
  The part of \<^verbatim>\<open>op_required_promotion\<close> for two operands of arithmetic type that are both or
  neither floating: the type of the result, and the types the operands are cast to.
\<close>

definition usual_conversions ::
    "tenv \<Rightarrow> ctype \<Rightarrow> ctype \<Rightarrow> (ctype \<times> ctype option \<times> ctype option) outcome" where
  "usual_conversions env tlhs trhs =
     bindE (type_is_signed env tlhs) (\<lambda>ls. bindE (type_is_signed env trhs) (\<lambda>rs.
     bindE (type_get_primitive tlhs) (\<lambda>lp. bindE (type_get_primitive trhs) (\<lambda>rp.
       let l_unsigned = \<not> ls; r_unsigned = \<not> rs; l_rank = type_intrank lp; r_rank = type_intrank rp in
       if l_unsigned = r_unsigned then
         bindE (if l_rank = r_rank \<and> l_rank = -1 then
                  bindE (type_size env tlhs) (\<lambda>l_sz. bindE (type_size env trhs) (\<lambda>r_sz.
                    Inr (if l_sz > r_sz then Some True else if l_sz < r_sz then Some False else None)))
                else Inr (if l_rank > r_rank then Some True
                          else if l_rank < r_rank then Some False else None)) (\<lambda>larger_left.
           Inr (case larger_left of
                  None \<Rightarrow> (trhs, None, None)
                | Some True \<Rightarrow> (tlhs, None, Some tlhs)
                | Some False \<Rightarrow> (trhs, Some trhs, None)))
       else if (if l_unsigned then l_rank \<ge> r_rank else r_rank \<ge> l_rank) then
         Inr (if l_unsigned then (tlhs, None, Some tlhs) else (trhs, Some trhs, None))
       else
         bindE (type_size env tlhs) (\<lambda>l_sz. bindE (type_size env trhs) (\<lambda>r_sz.
           if (if l_unsigned then r_sz > l_sz else l_sz > r_sz) then
             Inr (if l_unsigned then (trhs, Some trhs, None) else (tlhs, None, Some tlhs))
           else bindE (type_sign env (if l_unsigned then trhs else tlhs) False) (\<lambda>t.
             Inr (t, Some t, Some t))))))))"

definition arith_promotion ::
    "tenv \<Rightarrow> op_type \<Rightarrow> ctype \<Rightarrow> ctype \<Rightarrow> (ctype \<times> ctype option \<times> ctype option) outcome" where
  "arith_promotion env op tlhs trhs =
     (if op = op_shiftl \<or> op = op_shiftr then
        bindE (type_get_primitive tlhs) (\<lambda>lp.
          if type_intrank lp < type_intrank type_int
          then Inr (type_nav_btype type_int, Some (type_nav_btype type_int), None)
          else Inr (tlhs, None, None))
      else if op = op_andsc \<or> op = op_orsc then Inr (type_nav_btype type_int, None, None)
      else bindE (usual_conversions env tlhs trhs) (\<lambda>(tlarger, cl, cr).
        Inr (if op_returns_bool op then type_nav_btype type_int else tlarger, cl, cr)))"

section \<open>Examples\<close>

definition example_ptr_expr :: "op_type \<Rightarrow> opexpr" where
  "example_ptr_expr op = \<lparr>oe_id = 0, oe_op = op, oe_lhs = (1, T_ptr example_int None),
     oe_rhs = Some (2, T_ptr example_int None),
     oe_type = T_btype \<lparr>bt_primitive = (if op = op_minus then type_long else type_int), bt_sue = None\<rparr>\<rparr>"

definition example_addr :: "u64 \<Rightarrow> bool consty" where
  "example_addr n = CONST_FOLD_LEAF\<lparr>k_bits := CONST_ADDR (LBL_TRUE ''a''), k_offset := n\<rparr>"

definition example_mem :: "u64 \<Rightarrow> bool consty" where
  "example_mem n = CONST_FOLD_LEAF\<lparr>k_bits := CONST_ADDR (LBL_MEMADDR n)\<rparr>"

lemmas example_fold_defs =
  example_ptr_expr_def example_addr_def example_mem_def example_int_def const_op_num_int_def collapse_const.simps
  pointer_scale_def lbl_count_def fold_two_labels_def fold_numbers_def type_is_ptr_def type_is_def
  type_skip_all_def CONST_FOLD_LEAF_def int_const_def btype_size_def type_primitive_size_def

section \<open>Address arithmetic\<close>

text \<open>The value of a constant for given addresses of the labels.\<close>

definition den :: "(string \<Rightarrow> u64) \<Rightarrow> collapsed_consty \<Rightarrow> u64" where
  "den addr c = (case cc_lbl c of None \<Rightarrow> 0 | Some l \<Rightarrow> addr l) + cc_offset c"

lemma collapse_offset:
  assumes "collapse_const k = Inr c"
  shows "collapse_const (k\<lparr>k_offset := k_offset k + d\<rparr>) = Inr (c\<lparr>cc_offset := cc_offset c + d\<rparr>)"
  using assms
  by (cases "k_bits k") (auto simp: collapse_const.simps Let_def elim!: bindE_InrE split: addr_lbl.splits)

text \<open>
  C33: Adding an integer constant to the address of an object, or subtracting one, is
  folded to the address C gives the sum, whatever addresses the linker chooses: the
  integer is scaled by the size of what the pointer points to.
\<close>

theorem fold_label_offset:
  assumes "collapse_const lhs = Inr l" "collapse_const rhs = Inr r"
    and "cc_lbl l = Some s" "cc_lbl r = None"
    and "oe_op e = op_plus \<or> oe_op e = op_minus" "oe_rhs e = Some (ri, rt)"
    and "type_is_signed env (snd (oe_lhs e)) = Inr True"
    and "type_is_ptr (Some (snd (oe_lhs e))) = Inr (Some p)" "type_size env p = Inr step"
  shows "\<exists>k c. const_op_num_int env e lhs (Some rhs) = Inr k \<and> collapse_const k = Inr c \<and>
           (\<forall>addr. den addr c = (if oe_op e = op_plus then den addr l + cc_offset r * ucast step
                                 else den addr l - cc_offset r * ucast step))"
proof -
  let ?r = "r\<lparr>cc_offset := cc_offset r * ucast step\<rparr>"
  have sc: "pointer_scale env e l r rt = Inr (l, ?r)"
    using assms by (simp add: pointer_scale_def lbl_count_def)
  let ?d = "if oe_op e = op_plus then cc_offset ?r else - cc_offset ?r"
  have "const_op_num_int env e lhs (Some rhs) = fold_one_label e lhs (Some rhs) l ?r"
    using assms sc by (auto simp: const_op_num_int_def lbl_count_def)
  also have "\<dots> = Inr (lhs\<lparr>k_offset := k_offset lhs + ?d\<rparr>)"
    using assms by (auto simp: fold_one_label_def Let_def)
  finally have k: "const_op_num_int env e lhs (Some rhs) = Inr (lhs\<lparr>k_offset := k_offset lhs + ?d\<rparr>)" .
  have "den addr (l\<lparr>cc_offset := cc_offset l + ?d\<rparr>) =
      (if oe_op e = op_plus then den addr l + cc_offset r * ucast step
       else den addr l - cc_offset r * ucast step)" for addr
    using assms(3) by (simp add: den_def)
  then show ?thesis using k collapse_offset [OF assms(1), of ?d] by blast
qed

theorem fold_label_offset_witness:
  "\<exists>k c. const_op_num_int example_env
       \<lparr>oe_id = 0, oe_op = op_plus, oe_lhs = (1, T_ptr example_int None),
        oe_rhs = Some (2, example_int), oe_type = T_ptr example_int None\<rparr>
       (example_addr 4) (Some (CONST_FOLD_LEAF\<lparr>k_bits := int_const 3\<rparr>)) = Inr k \<and>
     collapse_const k = Inr c \<and> (\<forall>addr. den addr c = addr ''a'' + 16)"
proof -
  let ?e = "\<lparr>oe_id = 0, oe_op = op_plus, oe_lhs = (1, T_ptr example_int None),
        oe_rhs = Some (2, example_int), oe_type = T_ptr example_int None\<rparr>"
  have l: "collapse_const (example_addr 4) = Inr \<lparr>cc_lbl = Some ''a'', cc_offset = 4, cc_weak = False\<rparr>"
    by (simp add: example_fold_defs)
  have r: "collapse_const (CONST_FOLD_LEAF\<lparr>k_bits := int_const 3\<rparr> :: bool consty) =
      Inr \<lparr>cc_lbl = None, cc_offset = 3, cc_weak = False\<rparr>"
    by (simp add: example_fold_defs val_i_def)
  have "type_size example_env example_int = Inr 4" by code_simp
  then show ?thesis
    using fold_label_offset [OF l r, of "''a''" ?e 2 example_int example_env example_int 4]
    by (simp add: type_is_ptr_def type_is_def type_skip_all_def den_def add.assoc)
qed

section \<open>Short circuits\<close>

definition truth_ok :: "eval_truth \<Rightarrow> bool \<Rightarrow> bool" where
  "truth_ok t b \<longleftrightarrow> (t = EVAL_TRUE \<longrightarrow> b) \<and> (t = EVAL_FALSE \<longrightarrow> \<not> b)"

text \<open>
  The table for \<^verbatim>\<open>&&\<close> and \<^verbatim>\<open>||\<close>: what it says of the result holds for all truth values
  of the operands that it was told of, and when it decides the result the left operand,
  which the program would have evaluated, was decided too.
\<close>

theorem eval_shortcircuit_sound:
  assumes "truth_ok lhs a" "truth_ok rhs b" "op = op_andsc \<or> op = op_orsc"
  shows "truth_ok (eval_shortcircuit op lhs rhs) (if op = op_andsc then a \<and> b else a \<or> b) \<and>
         (lhs = EVAL_UNKNOWN \<longrightarrow> eval_shortcircuit op lhs rhs = EVAL_UNKNOWN)"
  using assms by (cases lhs; cases rhs) (auto simp: truth_ok_def eval_shortcircuit_def)

theorem eval_shortcircuit_sound_witness:
  "truth_ok (eval_shortcircuit op_orsc EVAL_TRUE EVAL_UNKNOWN) True \<and>
   eval_shortcircuit op_orsc EVAL_TRUE EVAL_UNKNOWN = EVAL_TRUE"
  using eval_shortcircuit_sound [of EVAL_TRUE True EVAL_UNKNOWN False op_orsc]
  by (simp add: truth_ok_def eval_shortcircuit_def)

section \<open>Two pointers\<close>


section \<open>The usual arithmetic conversions\<close>

text \<open>C11 6.3.1.8 for integer operands after promotion.\<close>

fun iso_rank :: "type_primitive \<Rightarrow> nat" where
  "iso_rank type_int = 1" | "iso_rank type_uint = 1"
| "iso_rank type_long = 2" | "iso_rank type_ulong = 2"
| "iso_rank type_llong = 3" | "iso_rank type_ullong = 3"
| "iso_rank _ = 0"

definition iso_unsigned :: "type_primitive \<Rightarrow> bool" where
  "iso_unsigned p \<longleftrightarrow> p \<in> {type_uint, type_ulong, type_ullong}"

definition iso_width :: "bool \<Rightarrow> type_primitive \<Rightarrow> nat" where
  "iso_width is32 p =
     (if iso_rank p = 1 then 32 else if iso_rank p = 2 then (if is32 then 32 else 64) else 64)"

fun iso_to_unsigned :: "type_primitive \<Rightarrow> type_primitive" where
  "iso_to_unsigned type_int = type_uint"
| "iso_to_unsigned type_long = type_ulong"
| "iso_to_unsigned type_llong = type_ullong"
| "iso_to_unsigned p = p"

definition iso_common :: "bool \<Rightarrow> type_primitive \<Rightarrow> type_primitive \<Rightarrow> type_primitive" where
  "iso_common is32 p q =
     (if p = q then p
      else if iso_unsigned p = iso_unsigned q then (if iso_rank p < iso_rank q then q else p)
      else let u = (if iso_unsigned p then p else q); s = (if iso_unsigned p then q else p) in
        if iso_rank u \<ge> iso_rank s then u
        else if iso_width is32 s > iso_width is32 u then s
        else iso_to_unsigned s)"

definition promoted :: "type_primitive list" where
  "promoted = [type_int, type_uint, type_long, type_ulong, type_llong, type_ullong]"

lemma iso_common_self [simp]: "iso_common b p p = p"
  by (simp add: iso_common_def)

lemma promoted_facts:
  assumes "p \<in> set promoted"
  shows "type_is_signed env (type_nav_btype p) = Inr (\<not> iso_unsigned p)"
    and "type_get_primitive (type_nav_btype p) = Inr p"
    and "type_size env (type_nav_btype p) = Inr (if iso_width (IS_32_BIT env) p = 32 then 4 else 8)"
    and "type_intrank p = int (prim_val p)"
    and "\<not> iso_unsigned p \<Longrightarrow> type_sign env (type_nav_btype p) False = Inr (type_nav_btype (iso_to_unsigned p))"
  using assms
  by (auto simp: promoted_def type_nav_btype_def btype_is_signed_def type_primitive_is_signed_def
      type_get_primitive_def type_get_type_def type_skip_all_def type_intrank_def btype_size_def
      type_primitive_size_def iso_unsigned_def iso_width_def type_sign_def TYPE_PRIMITIVE_IS_CHAR_def
      TYPE_PRIMITIVE_TO_UNSIGNED_def prim_at_def all_primitives_def less_eq_type_primitive_def)

lemma iso_common_rank:
  assumes "p \<in> set promoted" "q \<in> set promoted"
  shows "iso_unsigned p = iso_unsigned q \<Longrightarrow>
           iso_common is32 p q = (if prim_val p > prim_val q then p else q)"
    and "iso_unsigned p \<Longrightarrow> \<not> iso_unsigned q \<Longrightarrow>
           iso_common is32 p q = (if prim_val p \<ge> prim_val q then p
             else if iso_width is32 q = 64 \<and> iso_width is32 p = 32 then q else iso_to_unsigned q)"
    and "iso_common is32 p q = iso_common is32 q p"
  using assms by (auto simp: promoted_def iso_common_def iso_unsigned_def iso_width_def)

text \<open>
  C32: For two promoted integer operands the conversions \<^verbatim>\<open>op_required_promotion\<close> asks for are
  those of the standard, on 32-bit and 64-bit targets: the result has the common type, and
  after the casts both operands have it.
\<close>

theorem usual_conversions_iso:
  assumes "p \<in> set promoted" "q \<in> set promoted"
  shows "\<exists>cl cr. usual_conversions env (type_nav_btype p) (type_nav_btype q) =
             Inr (type_nav_btype (iso_common (IS_32_BIT env) p q), cl, cr) \<and>
           case_option (type_nav_btype p) id cl = type_nav_btype (iso_common (IS_32_BIT env) p q) \<and>
           case_option (type_nav_btype q) id cr = type_nav_btype (iso_common (IS_32_BIT env) p q)"
proof -
  note facts = promoted_facts [OF assms(1)] promoted_facts [OF assms(2)]
  note same = iso_common_rank(1) [OF assms] and mixed = iso_common_rank(2) [OF assms]
    and mixed' = iso_common_rank(2) [OF assms(2,1)] and swap = iso_common_rank(3) [OF assms]
  have inj: "prim_val p = prim_val q \<Longrightarrow> p = q" by (rule prim_val_inject)
  have w: "iso_width b x = 32 \<or> iso_width b x = 64" for b x by (simp add: iso_width_def)
  show ?thesis
  proof (cases "iso_unsigned p"; cases "iso_unsigned q")
    assume "iso_unsigned p" "iso_unsigned q"
    then show ?thesis using inj
      by (cases rule: linorder_cases [of "prim_val p" "prim_val q"])
        (simp_all add: usual_conversions_def Let_def facts same)
  next
    assume "\<not> iso_unsigned p" "\<not> iso_unsigned q"
    then show ?thesis using inj
      by (cases rule: linorder_cases [of "prim_val p" "prim_val q"])
        (simp_all add: usual_conversions_def Let_def facts same)
  next
    assume "iso_unsigned p" "\<not> iso_unsigned q"
    then show ?thesis using w [of "IS_32_BIT env" p] w [of "IS_32_BIT env" q]
      by (cases "prim_val q \<le> prim_val p") (auto simp: usual_conversions_def Let_def facts mixed)
  next
    assume "\<not> iso_unsigned p" "iso_unsigned q"
    then show ?thesis using w [of "IS_32_BIT env" p] w [of "IS_32_BIT env" q]
      unfolding swap by (cases "prim_val p \<le> prim_val q") (auto simp: usual_conversions_def Let_def facts mixed')
  qed
qed

theorem usual_conversions_iso_witness:
  "\<exists>cl cr. usual_conversions example_env (type_nav_btype type_uint) (type_nav_btype type_long) =
       Inr (type_nav_btype type_long, cl, cr)"
  using usual_conversions_iso [of type_uint type_long example_env]
  by (auto simp: promoted_def iso_common_def iso_unsigned_def iso_width_def example_env_def
      IS_32_BIT_def platform_32bit_def platform_word_size_def)

end
