(* ===== verification/Ucc_Pack.thy ===== *)
theory Ucc_Pack
  imports Ucc_Prelude
begin

text \<open>
  Rounding sizes up to an alignment: \<^verbatim>\<open>src/cc1/pack.c\<close> and the packing helpers of
  \<^verbatim>\<open>src/cc1/fold_sue.c\<close>.  \<^verbatim>\<open>pack_t\<close> is the host's 64-bit \<^verbatim>\<open>unsigned long\<close>, an alignment is a
  32-bit \<^verbatim>\<open>unsigned\<close>: its negation is taken at 32 bits and then zero-extended.
\<close>

section \<open>Definitions\<close>

definition pack_to_align :: "u64 \<Rightarrow> u32 \<Rightarrow> u64 outcome" where
  "pack_to_align sz align =
     (if \<not> align > 0 then Inl (Assert_failed ''align > 0'')
      else Inr ((sz + ucast align - 1) AND ucast (- align)))"

text \<open>The variant under \<^verbatim>\<open>#ifdef SLOW\<close>.\<close>

definition pack_to_align_slow :: "u64 \<Rightarrow> u32 \<Rightarrow> u64 outcome" where
  "pack_to_align_slow sz align =
     (if \<not> align > 0 then Inl (Assert_failed ''align > 0'')
      else Inr (if sz mod ucast align \<noteq> 0 then sz + (ucast align - sz mod ucast align) else sz))"

definition pack_to_word :: "u32 \<Rightarrow> u64 \<Rightarrow> u64 outcome" where
  "pack_to_word pws sz = pack_to_align sz pws"

text \<open>The new offset, which is the end of the declaration, and its start.\<close>

definition pack_next :: "u64 \<Rightarrow> u32 \<Rightarrow> u32 \<Rightarrow> (u64 \<times> u64) outcome" where
  "pack_next poffset sz align =
     bindE (pack_to_align poffset align) (\<lambda>offset. Inr (offset + ucast sz, offset))"

definition struct_pack :: "u64 \<Rightarrow> u32 \<Rightarrow> u32 \<Rightarrow> (u64 \<times> u32) outcome" where
  "struct_pack poffset sz align =
     bindE (pack_next poffset sz align) (\<lambda>(offset, after_space). Inr (offset, ucast after_space))"

definition round_size_to_align :: "u32 \<Rightarrow> u32 \<Rightarrow> u32 outcome" where
  "round_size_to_align sz align = bindE (pack_to_align (ucast sz) align) (\<lambda>v. Inr (ucast v))"

section \<open>Rounding to a power of two\<close>

lemma pow2_align:
  fixes align :: u32
  assumes "unat align = 2 ^ k"
  shows "k < 32" "align = 2 ^ k"
proof -
  have "unat align < 2 ^ LENGTH(32)" by (rule unsigned_less)
  then have "(2::nat) ^ k < 2 ^ 32" using assms by simp
  then show k: "k < 32" using power_less_imp_less_exp [of 2 k 32] by simp
  then have "unat (2 ^ k :: u32) = 2 ^ k" by (intro unat_2_power) simp
  then show "align = 2 ^ k" using assms by (metis word_unat_eq_iff)
qed

lemma high_bits_zero: "unat x < 2 ^ 32 \<Longrightarrow> bit x i \<Longrightarrow> i < 32" for x :: u64
proof -
  assume "unat x < 2 ^ 32" "bit x i"
  then have "take_bit 32 x = x" by (simp add: take_bit_word_eq_self word_unat_eq_iff unsigned_take_bit_eq take_bit_nat_eq_self)
  then show ?thesis by (metis bit_take_bit_iff \<open>bit x i\<close>)
qed

lemma unat_mask_round:
  fixes x :: u64
  assumes "unat x < 2 ^ 32" "k < 32"
  shows "unat (x AND ucast (- (2 ^ k) :: u32)) = unat x div 2 ^ k * 2 ^ k"
proof -
  have "- (2 ^ k) = (NOT (mask k) :: u32)" by (simp add: minus_eq_not_minus_1 mask_eq_exp_minus_1)
  then have "x AND ucast (- (2 ^ k) :: u32) = push_bit k (drop_bit k x)"
    using high_bits_zero [OF assms(1)]
    by (intro bit_word_eqI) (auto simp: bit_simps)
  moreover have "unat (push_bit k (drop_bit k x)) = unat x div 2 ^ k * 2 ^ k"
  proof -
    have lt: "unat x div 2 ^ k * 2 ^ k < 2 ^ 64"
      by (rule le_less_trans [of _ "unat x"]) (use assms(1) in simp_all)
    have "unat (2 ^ k :: u64) = 2 ^ k" using assms(2) by (intro unat_2_power) simp
    then show ?thesis using lt
      by (simp add: push_bit_eq_mult unat_word_ariths unat_drop_bit_div)
  qed
  ultimately show ?thesis by simp
qed

lemma round_up_nat:
  fixes s a :: nat
  assumes "0 < a"
  shows "(s + a - 1) div a * a = (if s mod a \<noteq> 0 then s + (a - s mod a) else s)"
proof -
  have s: "s = s div a * a + s mod a" by simp
  have m: "s mod a < a" using assms by simp
  show ?thesis
  proof (cases "s mod a = 0")
    case True
    then have e: "s + a - 1 = s div a * a + (a - 1)" using s assms by linarith
    have "(s + a - 1) div a = s div a" unfolding e
      using assms div_mult_self3 [of a "s div a" "a - 1"] by (metis add.right_neutral diff_less div_less less_numeral_extra(1) neq0_conv)
    then show ?thesis using True by (metis s add.right_neutral)
  next
    case False
    then have e: "s + a - 1 = (s div a + 1) * a + (s mod a - 1)" using s by simp
    have "s mod a - 1 < a" using m by linarith
    then have d: "(s + a - 1) div a = s div a + 1"
      unfolding e using assms div_mult_self3 [of a "s div a + 1" "s mod a - 1"] by simp
    have "(s div a + 1) * a = s div a * a + a" by simp
    then have "(s div a + 1) * a = s + (a - s mod a)" using s m by linarith
    then show ?thesis unfolding d using False by simp
  qed
qed

lemma pack_to_align_value:
  assumes "unat align = 2 ^ k" "unat sz + unat align \<le> 2 ^ 32"
  shows "\<exists>v. pack_to_align sz align = Inr v \<and>
           unat v = (if unat sz mod 2 ^ k \<noteq> 0 then unat sz + (2 ^ k - unat sz mod 2 ^ k) else unat sz)"
proof -
  note k = pow2_align [OF assms(1)]
  have u: "unat (ucast align :: u64) = 2 ^ k" using assms(1) k(1) by (simp add: unsigned_ucast_eq)
  let ?x = "sz + ucast align - 1"
  have "unat (sz + ucast align) = unat sz + 2 ^ k"
    using u assms by (simp add: unat_word_ariths)
  moreover have "(1 :: u64) \<le> sz + ucast align"
    using calculation by (simp add: word_le_nat_alt Suc_le_eq)
  ultimately have x: "unat ?x = unat sz + 2 ^ k - 1" by (simp add: unat_sub)
  then have "unat ?x < 2 ^ 32" using assms by simp
  then have "unat (?x AND ucast (- align)) = unat ?x div 2 ^ k * 2 ^ k"
    unfolding k(2) by (intro unat_mask_round k(1))
  moreover have "0 < align" using assms(1) by (simp add: word_less_nat_alt)
  ultimately show ?thesis using x round_up_nat [of "2 ^ k" "unat sz"]
    by (simp add: pack_to_align_def)
qed

lemma pack_to_align_slow_value:
  assumes "unat align = 2 ^ k" "unat sz + unat align \<le> 2 ^ 32"
  shows "\<exists>v. pack_to_align_slow sz align = Inr v \<and>
           unat v = (if unat sz mod 2 ^ k \<noteq> 0 then unat sz + (2 ^ k - unat sz mod 2 ^ k) else unat sz)"
proof -
  note k = pow2_align [OF assms(1)]
  have u: "unat (ucast align :: u64) = 2 ^ k" using assms(1) k(1) by (simp add: unsigned_ucast_eq)
  have m: "unat (sz mod ucast align) = unat sz mod 2 ^ k" by (simp add: unat_mod u)
  have z: "sz mod ucast align = 0 \<longleftrightarrow> unat sz mod 2 ^ k = 0" using m by (metis unat_eq_zero)
  have lt: "unat sz mod 2 ^ k < 2 ^ k" by simp
  have s: "unat (ucast align - sz mod ucast align) = 2 ^ k - unat sz mod 2 ^ k"
    using lt m u by (simp add: unat_sub word_le_nat_alt)
  have "unat sz + (2 ^ k - unat sz mod 2 ^ k) < 2 ^ 64" using assms by simp
  then have "unat (sz + (ucast align - sz mod ucast align)) = unat sz + (2 ^ k - unat sz mod 2 ^ k)"
    using s by (simp add: unat_word_ariths)
  moreover have "0 < align" using assms(1) by (simp add: word_less_nat_alt)
  ultimately show ?thesis using z by (auto simp: pack_to_align_slow_def)
qed

text \<open>
  C35: For a power-of-two alignment and sizes that stay below 4 GiB the masking version
  computes what the division version under \<^verbatim>\<open>SLOW\<close> computes: the least multiple of the
  alignment that is not below the size.
\<close>

theorem pack_to_align_correct:
  assumes "unat align = 2 ^ k" "unat sz + unat align \<le> 2 ^ 32"
  shows "pack_to_align sz align = pack_to_align_slow sz align \<and>
         (\<exists>v. pack_to_align sz align = Inr v \<and> unat align dvd unat v \<and>
            unat sz \<le> unat v \<and> unat v < unat sz + unat align)"
proof -
  obtain v where v: "pack_to_align sz align = Inr v"
      "unat v = (if unat sz mod 2 ^ k \<noteq> 0 then unat sz + (2 ^ k - unat sz mod 2 ^ k) else unat sz)"
    using pack_to_align_value [OF assms] by blast
  have slow: "pack_to_align_slow sz align = Inr v"
    using pack_to_align_slow_value [OF assms] v(2) by (auto simp: word_unat_eq_iff)
  have m: "unat sz mod 2 ^ k < 2 ^ k" by simp
  have "unat sz \<le> unat v \<and> unat v < unat sz + 2 ^ k"
  proof (cases "unat sz mod 2 ^ k = 0")
    case False
    then have "unat v = unat sz + (2 ^ k - unat sz mod 2 ^ k)" using v(2) by simp
    then show ?thesis using m False by linarith
  qed (use v(2) in simp)
  moreover have "(2 ^ k :: nat) dvd unat v"
    using v(2) round_up_nat [of "2 ^ k" "unat sz"] by (metis dvd_triv_right zero_less_numeral zero_less_power)
  ultimately show ?thesis using v(1) slow assms(1) by simp
qed

theorem pack_to_align_correct_witness:
  "\<exists>v. pack_to_align 13 8 = Inr v \<and> unat (8 :: u32) dvd unat v \<and>
     unat (13 :: u64) \<le> unat v \<and> unat v < unat (13 :: u64) + unat (8 :: u32)"
  using pack_to_align_correct [of 8 3 13] by fastforce

text \<open>
  From 4 GiB on the mask is too short, since the negated alignment is zero-extended from
  32 bits: a size of exactly 4 GiB is rounded to 0, where the division version keeps it.
\<close>

theorem pack_to_align_4GiB:
  "pack_to_align 0x100000000 4 = Inr 0 \<and> pack_to_align_slow 0x100000000 4 = Inr 0x100000000"
  by (simp add: pack_to_align_def pack_to_align_slow_def)

end
