(* ===== verification/Ucc_Has.thy ===== *)
theory Ucc_Has
  imports Ucc_Prelude
begin

text \<open>
  The language standards of \<^verbatim>\<open>src/util/std.c\<close> and the feature tests of \<^verbatim>\<open>src/cpp2/has.c\<close>,
  with the tables of \<^verbatim>\<open>src/cpp2/feat.h\<close>, \<^verbatim>\<open>src/cc1/attributes.h\<close> and
  \<^verbatim>\<open>src/cc1/ops/__builtins.h\<close>.
\<close>

section \<open>Standards\<close>

datatype c_std = STD_C89 | STD_C90 | STD_C99 | STD_C11 | STD_C18 | STD_C2X

fun std_rank :: "c_std \<Rightarrow> nat" where
  "std_rank STD_C89 = 0"
| "std_rank STD_C90 = 1"
| "std_rank STD_C99 = 2"
| "std_rank STD_C11 = 3"
| "std_rank STD_C18 = 4"
| "std_rank STD_C2X = 5"

lemma std_rank_inject: "std_rank a = std_rank b \<longleftrightarrow> a = b"
  by (cases a; cases b) simp_all

text \<open>The enumerators are compared with \<^verbatim>\<open><\<close> and \<^verbatim>\<open><=\<close>.\<close>

instantiation c_std :: linorder
begin

definition less_eq_c_std :: "c_std \<Rightarrow> c_std \<Rightarrow> bool" where
  "less_eq_c_std a b \<longleftrightarrow> std_rank a \<le> std_rank b"

definition less_c_std :: "c_std \<Rightarrow> c_std \<Rightarrow> bool" where
  "less_c_std a b \<longleftrightarrow> std_rank a < std_rank b"

instance
  by standard (auto simp: less_eq_c_std_def less_c_std_def std_rank_inject)

end

text \<open>
  \<^verbatim>\<open>std_from_str\<close> returns 1, or 0 after a write to \<^verbatim>\<open>*penu\<close>; the result here is the
  standard and what is written to \<^verbatim>\<open>*gnu\<close>.  A spelling with a known prefix and an unknown
  year writes \<^verbatim>\<open>*gnu\<close> too, and is the second component on its own.
\<close>

definition std_year :: "string \<Rightarrow> c_std option" where
  "std_year s =
     (if s = ''99'' then Some STD_C99
      else if s = ''90'' then Some STD_C90
      else if s = ''89'' then Some STD_C89
      else if s = ''11'' then Some STD_C11
      else if s = ''17'' \<or> s = ''18'' then Some STD_C18
      else if s = ''2x'' then Some STD_C2X
      else None)"

definition std_from_str :: "string \<Rightarrow> c_std option \<times> bool option" where
  "std_from_str std =
     (if std = ''-ansi'' then (Some STD_C90, Some False)
      else if take 5 std \<noteq> ''-std='' then (None, None)
      else
        let s = drop 5 std in
        if take 3 s = ''gnu'' then (std_year (drop 3 s), Some True)
        else if take 1 s = ''c'' then (std_year (drop 1 s), Some False)
        else (None, None))"

section \<open>Feature tests\<close>

definition UCC_HAS_ATOMICS :: int where "UCC_HAS_ATOMICS = 0"

definition UCC_HAS_THREADS :: int where "UCC_HAS_THREADS = 0"

definition UCC_HAS_COMPLEX :: int where "UCC_HAS_COMPLEX = 0"

definition UCC_HAS_VLA :: int where "UCC_HAS_VLA = 1"

definition c_tbl :: "(c_std \<times> string \<times> int) list" where
  "c_tbl =
     [(STD_C11, ''c_alignas'', 1),
      (STD_C11, ''c_alignof'', 1),
      (STD_C11, ''c_generic_selections'', 1),
      (STD_C11, ''c_static_assert'', 1),
      (STD_C11, ''c_atomic'', UCC_HAS_ATOMICS),
      (STD_C11, ''c_thread_local'', UCC_HAS_THREADS),
      (STD_C11, ''c_complex'', UCC_HAS_COMPLEX),
      (STD_C99, ''c_vla'', UCC_HAS_VLA),
      (STD_C89, ''address_sanitizer'', 0),
      (STD_C89, ''enumerator_attributes'', 1),
      (STD_C89, ''blocks'', 1)]"

definition has_feat_ext :: "c_std \<Rightarrow> string \<Rightarrow> bool \<Rightarrow> int" where
  "has_feat_ext cpp_std nam as_ext =
     (case List.find (\<lambda>(std, n, has). strcmp n nam = 0) c_tbl of
        None \<Rightarrow> 0
      | Some (std, n, has) \<Rightarrow> if as_ext then has else of_bool (std \<le> cpp_std \<and> has \<noteq> 0))"

definition has_extension :: "c_std \<Rightarrow> string \<Rightarrow> int" where
  "has_extension cpp_std nam = has_feat_ext cpp_std nam True"

definition has_feature :: "c_std \<Rightarrow> string \<Rightarrow> int" where
  "has_feature cpp_std nam = has_feat_ext cpp_std nam False"

definition attribute_spellings :: "string list" where
  "attribute_spellings =
     [''format'', ''unused'', ''used'', ''warn_unused'', ''section'', ''enum_bitmask'', ''flag_enum'',
      ''noreturn'', ''noderef'', ''nonnull'', ''returns_nonnull'', ''packed'', ''sentinel'',
      ''aligned'', ''weak'', ''alias'', ''cleanup'', ''always_inline'', ''noinline'', ''flatten'',
      ''constructor'', ''destructor'', ''visibility'', ''stack_protect'', ''no_stack_protector'',
      ''no_sanitize'', ''fallthrough'', ''designated_init'', ''__ucc_debug'', ''__cdecl'',
      ''warn_unused_result'', ''cdecl'', ''stdcall'', ''fastcall'', ''no_sanitize_undefined'']"

definition has_attribute :: "string \<Rightarrow> int" where
  "has_attribute nam =
     of_bool (list_ex (\<lambda>s. strcmp nam s = 0 \<or> strcmp (''__'' @ s @ ''__'') nam = 0) attribute_spellings)"

definition builtin_names :: "string list" where
  "builtin_names =
     [''offsetof'', ''unreachable'', ''trap'', ''debugtrap'', ''types_compatible_p'', ''constant_p'',
      ''frame_address'', ''return_address'', ''extract_return_addr'', ''expect'', ''is_signed'',
      ''nan'', ''nanf'', ''nanl'', ''choose_expr'', ''has_attribute'', ''add_overflow'',
      ''sub_overflow'', ''mul_overflow'', ''va_start'', ''va_arg'', ''va_end'', ''va_copy'']"

definition has_builtin :: "string \<Rightarrow> int" where
  "has_builtin nam = of_bool (list_ex (\<lambda>x. strcmp (''__builtin_'' @ x) nam = 0) builtin_names)"

definition has_func :: "c_std \<Rightarrow> string \<Rightarrow> string \<Rightarrow> int" where
  "has_func cpp_std fn arg1 =
     (let f = (if take 6 fn = ''__has_'' then drop 6 fn else fn) in
      if strcmp ''feature'' f = 0 then has_feature cpp_std arg1
      else if strcmp ''extension'' f = 0 then has_extension cpp_std arg1
      else if strcmp ''attribute'' f = 0 then has_attribute arg1
      else if strcmp ''builtin'' f = 0 then has_builtin arg1
      else -1)"

section \<open>Lemmas\<close>

lemma c_tbl_nonneg: "list_all (\<lambda>(std, n, has). 0 \<le> has) c_tbl"
  by (simp add: c_tbl_def UCC_HAS_ATOMICS_def UCC_HAS_THREADS_def UCC_HAS_COMPLEX_def UCC_HAS_VLA_def)

lemma has_feat_ext_nonneg: "0 \<le> has_feat_ext s nam as_ext"
  using c_tbl_nonneg
  by (auto simp: has_feat_ext_def list_all_iff find_Some_iff set_conv_nth split: option.splits)

text \<open>
  Going to a later standard never takes a feature away, and a feature is always an extension.
\<close>

lemma has_feature_mono:
  assumes "s \<le> t" and "has_feature s nam \<noteq> 0"
  shows "has_feature t nam \<noteq> 0"
  using assms order_trans [of _ s t]
  by (auto simp: has_feature_def has_feat_ext_def split: option.splits)

lemma has_feature_extension: "has_feature s nam \<noteq> 0 \<Longrightarrow> has_extension s nam \<noteq> 0"
  by (auto simp: has_feature_def has_extension_def has_feat_ext_def split: option.splits)

lemma has_func_unknown:
  "has_func s fn arg = -1 \<longleftrightarrow>
     (if take 6 fn = ''__has_'' then drop 6 fn else fn) \<notin> {''feature'', ''extension'', ''attribute'', ''builtin''}"
proof -
  have "has_feature s arg \<noteq> -1" "has_extension s arg \<noteq> -1"
    using has_feat_ext_nonneg [of s arg] by (simp_all add: has_feature_def has_extension_def) (metis neg_0_le_iff_le not_one_le_zero)+
  moreover have "has_attribute arg \<noteq> -1" "has_builtin arg \<noteq> -1"
    by (simp_all add: has_attribute_def has_builtin_def)
  ultimately show ?thesis
    by (auto simp: has_func_def Let_def strcmp_eq_0)
qed

end
