(* ===== verification/Ucc_Macro.thy ===== *)
theory Ucc_Macro
  imports Ucc_Tokenise Ucc_Cpp_Expr Ucc_Has
begin

text \<open>
  Macros: the table of \<^verbatim>\<open>src/cpp2/macro.c\<close>, the use counts of \<^verbatim>\<open>src/cpp2/snapshot.c\<close> and
  the expansion of \<^verbatim>\<open>src/cpp2/eval.c\<close>.

  The table is the list of macros in the order of \<^verbatim>\<open>macros\<close>; a \<^verbatim>\<open>macro *\<close> is an index into
  it, since expansion neither adds nor removes a macro.  \<^verbatim>\<open>args\<close> is empty where the source
  has NULL.  The use counts and \<^verbatim>\<open>__COUNTER__\<close> are unbounded.

  The line under expansion is a block of characters that holds its terminator: a
  replacement that is shorter than the macro's name is made in place and leaves the old
  characters behind the new terminator, where the scanner may go on reading; a longer one
  is a new block.  Reading a string that has no terminator in its block fails.
\<close>

section \<open>The table\<close>

datatype macro_type = MACRO | FUNC | VARIADIC

record macro =
  m_nam :: string
  m_val :: "string option"
  m_type :: macro_type
  m_args :: "string list"
  m_blue :: int
  m_use_cnt :: int
  m_use_dump :: int
  m_include_depth :: int

definition DEFINED_STR :: string where "DEFINED_STR = ''defined''"

definition HAS_INCLUDE_STR :: string where "HAS_INCLUDE_STR = ''__has_include''"

definition VA_ARGS_STR :: string where "VA_ARGS_STR = ''__VA_ARGS__''"

fun macro_find :: "macro list \<Rightarrow> string \<Rightarrow> nat option" where
  "macro_find [] sp = None"
| "macro_find (m # ms) sp =
     (if strcmp (m_nam m) sp = 0 then Some 0 else map_option Suc (macro_find ms sp))"

text \<open>
  \<^verbatim>\<open>macro_add_nodup\<close> returns the new table and the index of the macro; a macro that is
  redefined keeps its place, its arguments and its counts.  The comparison of the old and
  new value only decides about a warning, but it reads \<open>val\<close>.
\<close>

definition macro_add_nodup ::
  "string \<Rightarrow> string option \<Rightarrow> int \<Rightarrow> macro list \<Rightarrow> (macro list \<times> nat) outcome" where
  "macro_add_nodup nam val depth ms =
     (if strcmp nam DEFINED_STR = 0 then Inl (Died ''defined can't be used as a macro name'')
      else
        case macro_find ms nam of
          Some i \<Rightarrow>
            if m_val (ms ! i) = None then Inl (Died ''redefining'')
            else if val = None then Inl Null_deref
            else Inr (ms[i := (ms ! i)\<lparr>m_val := val, m_type := MACRO, m_include_depth := depth\<rparr>], i)
        | None \<Rightarrow>
            Inr (ms @ [\<lparr>m_nam = nam, m_val = val, m_type = MACRO, m_args = [], m_blue = 0,
                        m_use_cnt = 0, m_use_dump = 0, m_include_depth = depth\<rparr>], length ms))"

definition macro_add :: "string \<Rightarrow> string option \<Rightarrow> int \<Rightarrow> macro list \<Rightarrow> (macro list \<times> nat) outcome" where
  "macro_add nam val depth ms = macro_add_nodup nam val depth ms"

definition macro_add_func ::
  "string \<Rightarrow> string option \<Rightarrow> string list \<Rightarrow> bool \<Rightarrow> int \<Rightarrow> macro list \<Rightarrow> (macro list \<times> nat) outcome" where
  "macro_add_func nam val args variadic depth ms =
     bindE (macro_add nam val depth ms) (\<lambda>(ms', i).
       Inr (ms'[i := (ms' ! i)\<lparr>m_args := args, m_type := (if variadic then VARIADIC else FUNC)\<rparr>], i))"

definition macro_remove :: "string \<Rightarrow> macro list \<Rightarrow> bool \<times> macro list" where
  "macro_remove nam ms =
     (case macro_find ms nam of
        Some i \<Rightarrow> (True, take i ms @ drop (Suc i) ms)
      | None \<Rightarrow> (False, ms))"

definition macro_use :: "nat \<Rightarrow> int \<Rightarrow> macro list \<Rightarrow> macro list" where
  "macro_use i adj ms =
     ms[i := (ms ! i)\<lparr>m_use_cnt := m_use_cnt (ms ! i) + adj, m_use_dump := m_use_dump (ms ! i) + adj\<rparr>]"

text \<open>\<^verbatim>\<open>m->blue++\<close> and \<^verbatim>\<open>m->blue--\<close>.\<close>

definition paint :: "nat \<Rightarrow> int \<Rightarrow> macro list \<Rightarrow> macro list" where
  "paint i change ms = ms[i := (ms ! i)\<lparr>m_blue := m_blue (ms ! i) + change\<rparr>]"

definition macro_dump_line :: "macro \<Rightarrow> string list" where
  "macro_dump_line m =
     (case m_val m of
        None \<Rightarrow> []
      | Some v \<Rightarrow>
        [''#define '' @ m_nam m @
         (case m_type m of
            MACRO \<Rightarrow> []
          | FUNC \<Rightarrow> ''('' @ str_join (m_args m) '', '' @ '')''
          | VARIADIC \<Rightarrow> ''('' @ str_join (m_args m) '', '' @ '', ...'' @ '')'') @
         '' '' @ v])"

definition macros_dump :: "macro list \<Rightarrow> string list" where
  "macros_dump ms = concat (map macro_dump_line ms)"

definition macros_unused :: "macro list \<Rightarrow> string list" where
  "macros_unused ms =
     map m_nam (filter (\<lambda>m. m_use_dump m = 0 \<and> take 1 (m_nam m) \<noteq> ''_'' \<and> m_include_depth m = 0) ms)"

section \<open>Use counts\<close>

text \<open>\<^verbatim>\<open>struct snapshot\<close> before and after \<^verbatim>\<open>snapshot_take_post\<close>.\<close>

definition snapshot_take :: "macro list \<Rightarrow> int list" where
  "snapshot_take ms = map m_use_cnt ms"

definition snapshot_restore_used :: "int list \<Rightarrow> macro list \<Rightarrow> macro list" where
  "snapshot_restore_used pre ms = map2 (\<lambda>c m. m\<lparr>m_use_cnt := c\<rparr>) pre ms @ drop (length pre) ms"

definition snapshot_alter_blue :: "int list \<Rightarrow> int list \<Rightarrow> int \<Rightarrow> macro list \<Rightarrow> macro list" where
  "snapshot_alter_blue pre post change ms =
     map2 (\<lambda>(a, b) m. if b \<noteq> a then m\<lparr>m_blue := m_blue m + change\<rparr> else m) (zip pre post) ms
     @ drop (length pre) ms"

definition snapshot_blue_used :: "int list \<Rightarrow> int list \<Rightarrow> macro list \<Rightarrow> macro list" where
  "snapshot_blue_used pre post ms = snapshot_alter_blue pre post 1 ms"

definition snapshot_unblue_used :: "int list \<Rightarrow> int list \<Rightarrow> macro list \<Rightarrow> macro list" where
  "snapshot_unblue_used pre post ms = snapshot_alter_blue pre post (-1) ms"

section \<open>Blocks of characters\<close>

abbreviation NUL :: char where "NUL \<equiv> CHR 0x00"

definition cstr_at :: "string \<Rightarrow> nat \<Rightarrow> string outcome" where
  "cstr_at buf pos =
     (if NUL \<in> set (drop pos buf) then Inr (takeWhile (\<lambda>c. c \<noteq> NUL) (drop pos buf))
      else Inl Out_of_bounds)"

text \<open>\<^verbatim>\<open>str_replace\<close> on the block that holds the line.\<close>

definition buf_replace :: "string \<Rightarrow> nat \<Rightarrow> nat \<Rightarrow> string \<Rightarrow> string outcome" where
  "buf_replace buf start stop replace =
     (let len_find = stop - start; len_replace = length replace in
      if len_replace < len_find then
        let b1 = take start buf @ replace @ drop (start + len_replace) buf in
        bindE (cstr_at b1 stop) (\<lambda>rest.
          Inr (take (start + len_replace) b1 @ rest @ [NUL]
               @ drop (start + len_replace + length rest + 1) b1))
      else
        let b1 = buf[start := NUL] in
        bindE (cstr_at b1 0) (\<lambda>before.
        bindE (cstr_at b1 stop) (\<lambda>rest.
          Inr (before @ replace @ rest @ [NUL]))))"

section \<open>Expansion\<close>

text \<open>What expansion reads of the rest of the program.\<close>

record cpp_env =
  current_fname :: string
  current_line :: int
  cpp_date :: string
  cpp_time :: string
  cpp_timestamp :: string
  cpp_basefile :: string
  cpp_std :: c_std

record mstate =
  macros :: "macro list"
  counter :: nat

text \<open>
  \<^verbatim>\<open>find_arg\<close> returns a pointer, and its callers compare it with the word they passed; the
  flag says that the word named an argument.
\<close>

definition find_arg :: "macro \<Rightarrow> string \<Rightarrow> string list \<Rightarrow> (bool \<times> string) outcome" where
  "find_arg m word args =
     (if strcmp word VA_ARGS_STR = 0 then
        Inr (True, if args \<noteq> [] then str_join (drop (length (m_args m)) args) '', '' else [])
      else
        (case List.find (\<lambda>i. strcmp (m_args m ! i) word = 0) [0..<length (m_args m)] of
           Some i \<Rightarrow> if i < length args then Inr (True, args ! i) else Inl Null_deref
         | None \<Rightarrow> Inr (False, word)))"

definition noeval_hash :: "macro \<Rightarrow> token list \<Rightarrow> string list \<Rightarrow> bool \<Rightarrow> string outcome" where
  "noeval_hash m ts args need_arg =
     (case ts of
        [] \<Rightarrow> Inl (Died ''nothing after # character'')
      | t # _ \<Rightarrow>
        if tk_tok t \<noteq> TOKEN_WORD then Inl (Died ''none-word'')
        else
          case tk_w t of
            None \<Rightarrow> Inl Null_deref
          | Some w \<Rightarrow>
            bindE (find_arg m w args) (\<lambda>(is_arg, word).
              if need_arg \<and> \<not> is_arg then Inl (Died ''non-argument'') else Inr word))"

text \<open>The loop over \<^verbatim>\<open>## b ## c\<close> behind a word: the pasted text and the tokens left.\<close>

function join_words :: "macro \<Rightarrow> string list \<Rightarrow> string \<Rightarrow> token list \<Rightarrow> (string \<times> token list) outcome" where
  "join_words m args word ts =
     (case ts of
        [] \<Rightarrow> Inr (word, [])
      | t # ts' \<Rightarrow>
        if tk_tok t = TOKEN_HASH_JOIN then
          bindE (noeval_hash m ts' args False) (\<lambda>neh. join_words m args (word @ neh) (tl ts'))
        else Inr (word, ts))"
  by pat_completeness auto
termination
  by (relation "measure (\<lambda>(m, args, word, ts). length ts)") auto

declare join_words.simps [simp del]

lemma join_words_length: "join_words m args word ts = Inr (w, rest) \<Longrightarrow> length rest \<le> length ts"
proof (induction m args word ts rule: join_words.induct)
  case (1 m args word ts)
  note eq = "1.prems" [unfolded join_words.simps [of m args word ts]]
  show ?case
  proof (cases ts)
    case (Cons t ts')
    then show ?thesis using eq "1.IH" [OF Cons]
      by (fastforce split: if_splits elim!: bindE_InrE)
  qed (use eq in simp)
qed

definition APPEND :: "string \<Rightarrow> bool \<Rightarrow> string \<Rightarrow> string" where
  "APPEND replace ws s = replace @ (if replace \<noteq> [] \<and> ws then '' '' else []) @ s"

text \<open>
  The arguments of a call after the checks on their number, trimmed.
\<close>

definition check_args :: "macro \<Rightarrow> string list \<Rightarrow> string list outcome" where
  "check_args m args =
     (let got = length args; expd = length (m_args m) in
      if (if m_type m = VARIADIC then got < expd else got \<noteq> expd) then
        if got = 0 \<and> expd = 1 then Inr [str_trim []]
        else Inl (Died ''wrong number of args to function macro'')
      else Inr (map str_trim args))"

text \<open>The conversion \<^verbatim>\<open>%d\<close>.\<close>

definition show_int :: "int \<Rightarrow> string" where
  "show_int n = (if n < 0 then ''-'' @ dec_digits (nat (- n)) else dec_digits (nat n))"

definition builtin_value :: "cpp_env \<Rightarrow> string \<Rightarrow> mstate \<Rightarrow> (string \<times> mstate) outcome" where
  "builtin_value env nam st =
     (if strcmp nam ''__FILE__'' = 0 then Inr (str_quote (current_fname env), st)
      else if strcmp nam ''__LINE__'' = 0 then Inr (show_int (current_line env), st)
      else if strcmp nam ''__COUNTER__'' = 0 then
        Inr (dec_digits (counter st), st\<lparr>counter := counter st + 1\<rparr>)
      else if strcmp nam ''__DATE__'' = 0 then Inr (cpp_date env, st)
      else if strcmp nam ''__TIME__'' = 0 then Inr (cpp_time env, st)
      else if strcmp nam ''__TIMESTAMP__'' = 0 then Inr (cpp_timestamp env, st)
      else if strcmp nam ''__BASE_FILE__'' = 0 then Inr (cpp_basefile env, st)
      else Inl (Ice ''invalid macro''))"

definition on_macros :: "(macro list \<Rightarrow> macro list) \<Rightarrow> mstate \<Rightarrow> mstate" where
  "on_macros f st = st\<lparr>macros := f (macros st)\<rparr>"

text \<open>
  The check behind an expanded macro: a quote there has to be closed, and the position of
  its end is not used.
\<close>

definition quote_check :: "string \<Rightarrow> unit outcome" where
  "quote_check s =
     (case s of
        [] \<Rightarrow> Inr ()
      | c # r \<Rightarrow>
        if c = CHR 0x22 \<or> c = CHR 0x27 then
          bindE (str_quotefin2 r c) (\<lambda>p.
            case p of None \<Rightarrow> Inl (Assert_failed ''no matching quote on line'') | Some _ \<Rightarrow> Inr ())
        else Inr ())"

text \<open>
  The mutually recursive functions of \<^verbatim>\<open>eval.c\<close>.  All of them come back to the loop of
  \<^verbatim>\<open>eval_expand_macros\<close>, which they take as the argument \<open>ex\<close>: a block, the position from
  which the loop goes on, and the state.  The recursion need not end (see below), so that the
  loop itself is bounded by fuel.
\<close>

type_synonym expander = "string \<Rightarrow> nat \<Rightarrow> mstate \<Rightarrow> (string \<times> mstate) outcome"

text \<open>
  What a word without \<^verbatim>\<open>#\<close> and \<^verbatim>\<open>##\<close> is replaced by: an argument is expanded first, and the
  use counts are put back so that what it used is not painted.
\<close>

definition word_text ::
  "expander \<Rightarrow> macro \<Rightarrow> string list \<Rightarrow> string option \<Rightarrow> mstate \<Rightarrow> (string \<times> mstate) outcome" where
  "word_text ex m args tw st =
     (case tw of
        None \<Rightarrow> Inl Null_deref
      | Some w \<Rightarrow>
        bindE (find_arg m w args) (\<lambda>(is_arg, word).
          if is_arg then
            bindE (ex (word @ [NUL]) 0 st) (\<lambda>(buf, st').
            bindE (cstr_at buf 0) (\<lambda>word'.
              Inr (word', on_macros (snapshot_restore_used (snapshot_take (macros st))) st')))
          else Inr (word, st)))"

text \<open>The loop of \<^verbatim>\<open>eval_func_macro\<close> over the tokens of the macro's value.\<close>

function func_loop ::
  "expander \<Rightarrow> macro \<Rightarrow> string list \<Rightarrow> string \<Rightarrow> token list \<Rightarrow> mstate \<Rightarrow> (string \<times> mstate) outcome"
where
  "func_loop ex m args replace ts st =
     (case ts of
        [] \<Rightarrow> Inr (replace, st)
      | t # ts' \<Rightarrow>
        if tk_tok t = TOKEN_HASH_QUOTE then
          bindE (noeval_hash m ts' args True) (\<lambda>w.
            func_loop ex m args (APPEND replace (tk_ws t) (str_quote w)) (tl ts') st)
        else if tk_tok t = TOKEN_HASH_JOIN then Inl (Died ''## with no prior argument'')
        else if tk_tok t = TOKEN_WORD then
          if ts' \<noteq> [] \<and> tk_tok (hd ts') = TOKEN_HASH_JOIN then
            bindE (noeval_hash m ts args False) (\<lambda>w.
            bindE (join_words m args w ts') (\<lambda>(word, rest).
              func_loop ex m args (APPEND replace (tk_ws t) word) rest st))
          else
            bindE (word_text ex m args (tk_w t) st) (\<lambda>(word, st').
              func_loop ex m args (APPEND replace (tk_ws t) word) ts' st')
        else
          bindE (token_str t) (\<lambda>s.
            func_loop ex m args (APPEND replace (tk_ws t) s) ts' st))"
  by pat_completeness auto
termination
  by (relation "measure (\<lambda>(ex, m, args, replace, ts, st). length ts)")
    (auto dest!: join_words_length)

declare func_loop.simps [simp del]

definition eval_func_macro ::
  "expander \<Rightarrow> cpp_env \<Rightarrow> macro \<Rightarrow> string \<Rightarrow> mstate \<Rightarrow> (string \<times> mstate) outcome" where
  "eval_func_macro ex env m args_str st =
     bindE (split_func_args args_str) (\<lambda>args.
       case m_val m of
         None \<Rightarrow>
           if length args \<noteq> 1 then Inl (Died ''arguments to builtin macro'')
           else
             let ret = has_func (cpp_std env) (m_nam m) (hd args) in
             if ret = -1 then Inl (Died ''unknown builtin macro'')
             else Inr (if ret \<noteq> 0 then ''1'' else ''0'', st)
       | Some v \<Rightarrow>
         bindE (check_args m args) (\<lambda>args'.
         bindE (tokenise v) (\<lambda>toks. func_loop ex m args' [] toks st)))"

text \<open>
  \<^verbatim>\<open>eval_macro_r\<close>: \<open>pos\<close> is \<^verbatim>\<open>*pat\<close>.  A function-like macro that is not called, and
  \<^verbatim>\<open>__has_include\<close>, leave \<^verbatim>\<open>*pat\<close> at the start of the word.
\<close>

definition eval_macro_r ::
  "expander \<Rightarrow> cpp_env \<Rightarrow> nat \<Rightarrow> string \<Rightarrow> nat \<Rightarrow> mstate \<Rightarrow> (string \<times> nat \<times> mstate) outcome" where
  "eval_macro_r ex env i buf pos st =
     (let m = macros st ! i in
      if m_type m = MACRO then
        bindE (case m_val m of Some v \<Rightarrow> Inr (v, st) | None \<Rightarrow> builtin_value env (m_nam m) st) (\<lambda>(val, st').
        bindE (buf_replace buf pos (pos + length (m_nam m)) val) (\<lambda>ret.
          Inr (ret, pos + length val, st')))
      else
        bindE (cstr_at buf (pos + length (m_nam m))) (\<lambda>s.
        let open_b = str_spc_skip s in
        if take 1 open_b \<noteq> ''('' then Inr (buf, pos, on_macros (macro_use i (-1)) st)
        else
          case strchr_nest open_b (CHR '')'') of
            None \<Rightarrow> Inl (Died ''unterminated function-macro'')
          | Some close_b \<Rightarrow>
            if strcmp (m_nam m) HAS_INCLUDE_STR = 0 then Inr (buf, pos, st)
            else
              let all_args = take (length open_b - length close_b - 1) (tl open_b);
                  close_pos = pos + length (m_nam m) + (length s - length close_b) in
              bindE (eval_func_macro ex env m all_args st) (\<lambda>(eval_d, st').
              bindE (buf_replace buf pos (close_pos + 1) eval_d) (\<lambda>ret.
                Inr (ret, pos + length eval_d, st')))))"

text \<open>
  \<^verbatim>\<open>eval_macro_double_eval\<close> expands the whole line again from its start, and keeps the
  offset \<^verbatim>\<open>*pat\<close> had before.
\<close>

definition eval_macro_double_eval ::
  "expander \<Rightarrow> cpp_env \<Rightarrow> nat \<Rightarrow> string \<Rightarrow> nat \<Rightarrow> mstate \<Rightarrow> (string \<times> nat \<times> mstate) outcome" where
  "eval_macro_double_eval ex env i buf pos st =
     (let pre = snapshot_take (macros st) in
      bindE (eval_macro_r ex env i buf pos st) (\<lambda>(buf1, pos1, st1).
        let post = snapshot_take (macros st1);
            st2 = on_macros (snapshot_blue_used pre post) st1 in
        bindE (ex buf1 0 st2) (\<lambda>(buf2, st3).
          Inr (buf2, pos1, on_macros (snapshot_unblue_used pre post) st3))))"

definition eval_macro ::
  "expander \<Rightarrow> cpp_env \<Rightarrow> nat \<Rightarrow> string \<Rightarrow> nat \<Rightarrow> mstate \<Rightarrow> (string \<times> nat \<times> mstate) outcome" where
  "eval_macro ex env i buf pos st =
     (if m_blue (macros st ! i) \<noteq> 0 then Inr (buf, pos + length (m_nam (macros st ! i)), st)
      else
        let st1 = on_macros (macro_use i 1) st; st2 = on_macros (paint i 1) st1 in
        bindE (eval_macro_double_eval ex env i buf pos st2) (\<lambda>(buf', pos', st').
          Inr (buf', pos', on_macros (paint i (-1)) st')))"

text \<open>One round of the loop of \<^verbatim>\<open>eval_expand_macros\<close>.\<close>

definition expand_step :: "expander \<Rightarrow> cpp_env \<Rightarrow> expander" where
  "expand_step ex env buf pos st =
     bindE (cstr_at buf pos) (\<lambda>s.
     if s = [] then Inr (buf, st)
     else
       bindE (word_find_any s) (\<lambda>r.
       case r of
         None \<Rightarrow> Inr (buf, st)
       | Some w \<Rightarrow>
         let line = pos + (length s - length w); e = word_end w; ende = line + (length w - length e) in
         if take 1 e = [CHR 0x22] \<and> line + 1 = ende \<and> hd w = CHR ''L'' then ex buf (ende + 1) st
         else
           case macro_find (macros st) (take (length w - length e) w) of
             Some i \<Rightarrow>
               bindE (eval_macro ex env i buf line st) (\<lambda>(buf', pos', st').
               bindE (cstr_at buf' pos') (\<lambda>s'.
               bindE (quote_check s') (\<lambda>_.
                 if s' = [] then Inr (buf', st') else ex buf' (pos' + 1) st')))
           | None \<Rightarrow> if e = [] then Inr (buf, st) else ex buf (ende + 1) st))"

primrec expand_loop :: "nat \<Rightarrow> cpp_env \<Rightarrow> expander" where
  "expand_loop 0 env = (\<lambda>buf pos st. Inl Out_of_fuel)"
| "expand_loop (Suc f) env = expand_step (expand_loop f env) env"

text \<open>\<^verbatim>\<open>eval_expand_macros\<close> on a line, with the line it returns.\<close>

definition eval_expand_macros :: "nat \<Rightarrow> cpp_env \<Rightarrow> string \<Rightarrow> mstate \<Rightarrow> (string \<times> mstate) outcome" where
  "eval_expand_macros f env line st =
     bindE (expand_loop f env (line @ [NUL]) 0 st) (\<lambda>(buf, st').
     bindE (cstr_at buf 0) (\<lambda>s. Inr (s, st')))"

section \<open>Expansion keeps the table\<close>

text \<open>
  A macro without its use counts.  Expansion changes nothing else of the table: whatever it
  paints blue on the way, it unpaints.
\<close>

definition core :: "macro \<Rightarrow> macro" where
  "core m = m\<lparr>m_use_cnt := 0, m_use_dump := 0\<rparr>"

definition same_core :: "mstate \<Rightarrow> mstate \<Rightarrow> bool" where
  "same_core st st' \<longleftrightarrow> map core (macros st') = map core (macros st)"

named_theorems core_simps \<open>how the operations on the table act on its core\<close>

lemma macros_on_macros [core_simps]: "macros (on_macros f st) = f (macros st)"
  by (simp add: on_macros_def)

lemma core_macro_use [core_simps]: "map core (macro_use i a ms) = map core ms"
  by (rule nth_equalityI; cases "i < length ms") (auto simp: macro_use_def core_def nth_list_update list_update_beyond)

lemma core_paint [core_simps]: "map core (paint i c ms) = paint i c (map core ms)"
  by (rule nth_equalityI; cases "i < length ms") (auto simp: paint_def core_def nth_list_update list_update_beyond)

lemma paint_paint [core_simps]: "paint i (-1) (paint i 1 ms) = ms"
  by (rule nth_equalityI; cases "i < length ms") (auto simp: paint_def nth_list_update list_update_beyond)

lemma length_alter_blue:
  "length pre = length ms \<Longrightarrow> length post = length ms \<Longrightarrow> length (snapshot_alter_blue pre post c ms) = length ms"
  by (simp add: snapshot_alter_blue_def)

lemma nth_alter_blue:
  "length pre = length ms \<Longrightarrow> length post = length ms \<Longrightarrow> i < length ms \<Longrightarrow>
   snapshot_alter_blue pre post c ms ! i =
     (if post ! i \<noteq> pre ! i then (ms ! i)\<lparr>m_blue := m_blue (ms ! i) + c\<rparr> else ms ! i)"
  by (simp add: snapshot_alter_blue_def nth_append)

lemma core_alter_blue:
  "length pre = length ms \<Longrightarrow> length post = length ms \<Longrightarrow>
   map core (snapshot_alter_blue pre post c ms) = snapshot_alter_blue pre post c (map core ms)"
  by (rule nth_equalityI) (auto simp: length_alter_blue nth_alter_blue core_def)

lemma unblue_blue:
  "length pre = length ms \<Longrightarrow> length post = length ms \<Longrightarrow>
   snapshot_alter_blue pre post (-1) (snapshot_alter_blue pre post 1 ms) = ms"
  by (rule nth_equalityI) (auto simp: length_alter_blue nth_alter_blue)

lemma core_restore_used:
  "length pre = length ms \<Longrightarrow> map core (snapshot_restore_used pre ms) = map core ms"
  by (rule nth_equalityI) (auto simp: snapshot_restore_used_def core_def nth_append)

lemma same_core_length: "same_core st st' \<Longrightarrow> length (macros st') = length (macros st)"
  unfolding same_core_def by (metis length_map)

lemma same_core_refl: "same_core st st"
  by (simp add: same_core_def)

lemma same_core_trans: "same_core a b \<Longrightarrow> same_core b c \<Longrightarrow> same_core a c"
  by (simp add: same_core_def)

lemma builtin_value_core: "builtin_value env nam st = Inr (v, st') \<Longrightarrow> same_core st st'"
  by (auto simp: builtin_value_def same_core_def split: if_splits)

locale frames =
  fixes ex :: expander
  assumes ex_frame: "ex buf pos st = Inr (buf', st') \<Longrightarrow> same_core st st'"
begin

lemma restore_frame:
  "same_core st st' \<Longrightarrow> same_core st (on_macros (snapshot_restore_used (snapshot_take (macros st))) st')"
  using same_core_length [of st st']
  by (simp add: same_core_def macros_on_macros core_restore_used snapshot_take_def)

lemma word_text_frame: "word_text ex m args tw st = Inr (w, st') \<Longrightarrow> same_core st st'"
  unfolding word_text_def
  by (auto simp: same_core_refl bindE_eq_Inr split: option.split_asm if_split_asm
      dest!: ex_frame intro: restore_frame)

lemma func_loop_frame: "func_loop ex m args replace ts st = Inr (r, st') \<Longrightarrow> same_core st st'"
proof (induction ts arbitrary: replace st rule: length_induct)
  case (1 ts)
  note eq = "1.prems" [unfolded func_loop.simps [of ex m args replace ts st]]
  have IH: "length rest < length ts \<Longrightarrow> func_loop ex m args rep rest s = Inr (r, st') \<Longrightarrow> same_core s st'"
    for rep rest s using "1.IH" by blast
  show ?case
  proof (cases ts)
    case (Cons t ts')
    consider (join) "tk_tok t = TOKEN_WORD" "ts' \<noteq> [] \<and> tk_tok (hd ts') = TOKEN_HASH_JOIN"
      | (word) "tk_tok t = TOKEN_WORD" "\<not> (ts' \<noteq> [] \<and> tk_tok (hd ts') = TOKEN_HASH_JOIN)"
      | (other) "tk_tok t \<noteq> TOKEN_WORD" by blast
    then show ?thesis
    proof cases
      case join
      then obtain w word rest where j: "join_words m args w ts' = Inr (word, rest)"
        and l: "func_loop ex m args (APPEND replace (tk_ws t) word) rest st = Inr (r, st')"
        using eq Cons by (auto simp: bindE_eq_Inr)
      show ?thesis using IH [OF _ l] join_words_length [OF j] Cons by simp
    next
      case word
      then obtain w s where wt: "word_text ex m args (tk_w t) st = Inr (w, s)"
        and l: "func_loop ex m args (APPEND replace (tk_ws t) w) ts' s = Inr (r, st')"
        using eq Cons by (auto simp: bindE_eq_Inr)
      show ?thesis using same_core_trans [OF word_text_frame [OF wt] IH [OF _ l]] Cons by simp
    next
      case other
      then show ?thesis using eq Cons by (auto simp: bindE_eq_Inr split: if_split_asm dest!: IH [rotated])
    qed
  qed (use eq in \<open>simp add: same_core_refl\<close>)
qed

lemma eval_func_macro_frame: "eval_func_macro ex env m args st = Inr (r, st') \<Longrightarrow> same_core st st'"
  by (auto simp: eval_func_macro_def Let_def same_core_refl elim!: bindE_InrE
      split: option.splits if_splits dest: func_loop_frame)

lemma eval_macro_r_frame:
  "eval_macro_r ex env i buf pos st = Inr (buf', pos', st') \<Longrightarrow> same_core st st'"
  by (auto simp: eval_macro_r_def Let_def elim!: bindE_InrE split: if_splits option.splits
      dest!: builtin_value_core eval_func_macro_frame)
    (auto simp: same_core_def core_simps)

lemma eval_macro_double_eval_frame:
  assumes "eval_macro_double_eval ex env i buf pos st = Inr (buf', pos', st')"
  shows "same_core st st'"
proof -
  from assms obtain buf1 pos1 st1 st3 where
    r: "same_core st st1" and
    e: "same_core (on_macros (snapshot_blue_used (snapshot_take (macros st)) (snapshot_take (macros st1))) st1) st3" and
    st': "st' = on_macros (snapshot_unblue_used (snapshot_take (macros st)) (snapshot_take (macros st1))) st3"
    by (auto simp: eval_macro_double_eval_def Let_def elim!: bindE_InrE dest!: ex_frame eval_macro_r_frame)
  have len: "length (macros st1) = length (macros st)" "length (macros st3) = length (macros st1)"
    using same_core_length [OF r] same_core_length [OF e]
    by (simp_all add: macros_on_macros snapshot_blue_used_def length_alter_blue snapshot_take_def)
  show ?thesis
    using r e len
    by (simp add: st' same_core_def macros_on_macros snapshot_blue_used_def snapshot_unblue_used_def
        core_alter_blue unblue_blue snapshot_take_def)
qed

lemma eval_macro_frame:
  assumes "eval_macro ex env i buf pos st = Inr (buf', pos', st')"
  shows "same_core st st'"
proof (cases "m_blue (macros st ! i) \<noteq> 0")
  case True
  then show ?thesis using assms by (simp add: eval_macro_def same_core_refl)
next
  case False
  with assms obtain s where
    "same_core (on_macros (paint i 1) (on_macros (macro_use i 1) st)) s"
    and "st' = on_macros (paint i (-1)) s"
    by (auto simp: eval_macro_def Let_def elim!: bindE_InrE dest!: eval_macro_double_eval_frame)
  then show ?thesis by (simp add: same_core_def core_simps)
qed

lemma expand_step_frame:
  "expand_step ex env buf pos st = Inr (buf', st') \<Longrightarrow> same_core st st'"
  unfolding expand_step_def Let_def
  by (auto simp: same_core_refl elim!: bindE_InrE split: if_split_asm option.split_asm
      dest!: ex_frame eval_macro_frame) (blast intro: same_core_trans)+

end

lemma frames_expand_loop: "frames (expand_loop f env)"
proof (induction f)
  case 0
  show ?case by unfold_locales simp
next
  case (Suc f)
  show ?case by unfold_locales (simp, rule frames.expand_step_frame [OF Suc.IH])
qed

interpretation expanding: frames "expand_loop f env" for f env
  by (rule frames_expand_loop)

end
