(* ===== verification/Ucc_Macro_Expand.thy ===== *)
theory Ucc_Macro_Expand
  imports Ucc_Macro
begin

text \<open>
  What macro expansion computes: more fuel never changes a result, a line without macros
  comes back as it is, an object-like macro is replaced by its value, and some expansions of
  the program go wrong or never end.
\<close>

section \<open>Fuel\<close>

text \<open>More fuel either gives the same result or gets further.\<close>

definition fuel_le :: "'a outcome \<Rightarrow> 'a outcome \<Rightarrow> bool" where
  "fuel_le r r' \<longleftrightarrow> r = Inl Out_of_fuel \<or> r' = r"

lemma fuel_le_refl [simp]: "fuel_le r r"
  by (simp add: fuel_le_def)

lemma fuel_le_out [simp]: "fuel_le (Inl Out_of_fuel) r"
  by (simp add: fuel_le_def)

lemma fuel_le_trans: "fuel_le a b \<Longrightarrow> fuel_le b c \<Longrightarrow> fuel_le a c"
  by (auto simp: fuel_le_def)

lemma fuel_le_bind: "fuel_le m m' \<Longrightarrow> (\<And>x. fuel_le (f x) (g x)) \<Longrightarrow> fuel_le (bindE m f) (bindE m' g)"
  by (cases m) (auto simp: fuel_le_def)

locale more_fuel =
  fixes ex ex' :: expander
  assumes ex_le: "fuel_le (ex buf pos st) (ex' buf pos st)"
begin

lemma word_text_le: "fuel_le (word_text ex m args tw st) (word_text ex' m args tw st)"
  by (auto simp: word_text_def split: option.splits intro!: fuel_le_bind ex_le)

lemma func_loop_le: "fuel_le (func_loop ex m args replace ts st) (func_loop ex' m args replace ts st)"
proof (induction ts arbitrary: replace st rule: length_induct)
  case (1 ts)
  have IH: "length rest < length ts \<Longrightarrow> fuel_le (func_loop ex m args rep rest s) (func_loop ex' m args rep rest s)"
    for rep rest s using "1.IH" by blast
  show ?case
  proof (cases ts)
    case Nil
    then show ?thesis by (simp add: func_loop.simps [of ex m args replace] func_loop.simps [of ex' m args replace])
  next
    case (Cons t ts')
    have join: "fuel_le
       (bindE (join_words m args w ts') (\<lambda>(word, rest). func_loop ex m args (APPEND replace (tk_ws t) word) rest st))
       (bindE (join_words m args w ts') (\<lambda>(word, rest). func_loop ex' m args (APPEND replace (tk_ws t) word) rest st))" for w
      using join_words_length Cons IH
      by (cases "join_words m args w ts'") (fastforce split: prod.split)+
    show ?thesis
      unfolding func_loop.simps [of ex m args replace ts] func_loop.simps [of ex' m args replace ts]
      by (auto simp: Cons intro!: fuel_le_bind word_text_le join IH)
  qed
qed

lemma eval_func_macro_le: "fuel_le (eval_func_macro ex env m args st) (eval_func_macro ex' env m args st)"
  by (auto simp: eval_func_macro_def Let_def split: option.split intro!: fuel_le_bind func_loop_le)

lemma eval_macro_r_le: "fuel_le (eval_macro_r ex env i buf pos st) (eval_macro_r ex' env i buf pos st)"
  by (auto simp: eval_macro_r_def Let_def split: option.split intro!: fuel_le_bind eval_func_macro_le)

lemma eval_macro_le: "fuel_le (eval_macro ex env i buf pos st) (eval_macro ex' env i buf pos st)"
  by (auto simp: eval_macro_def eval_macro_double_eval_def Let_def
      intro!: fuel_le_bind eval_macro_r_le ex_le)

lemma expand_step_le: "fuel_le (expand_step ex env buf pos st) (expand_step ex' env buf pos st)"
  unfolding expand_step_def Let_def
  by (auto split: option.split intro!: fuel_le_bind eval_macro_le ex_le)

end

lemma more_fuel_Suc: "more_fuel (expand_loop f env) (expand_loop (Suc f) env)"
proof (induction f)
  case 0
  show ?case by unfold_locales simp
next
  case (Suc f)
  show ?case
    by unfold_locales (simp only: expand_loop.simps(2) [of "Suc f"] expand_loop.simps(2) [of f]
        more_fuel.expand_step_le [OF Suc.IH [unfolded expand_loop.simps(2)]])
qed

lemma more_fuel_add: "more_fuel (expand_loop f env) (expand_loop (f + k) env)"
proof (induction k)
  case 0
  show ?case by unfold_locales simp
next
  case (Suc k)
  show ?case
    using fuel_le_trans [OF more_fuel.ex_le [OF Suc.IH] more_fuel.ex_le [OF more_fuel_Suc]]
    by unfold_locales simp
qed

interpretation refuel: more_fuel "expand_loop f env" "expand_loop (f + k) env" for f k env
  by (rule more_fuel_add)

section \<open>Lines without macros\<close>

lemma cstr_at_append:
  "length p = pos \<Longrightarrow> NUL \<notin> set s \<Longrightarrow> cstr_at (p @ s @ NUL # junk) pos = Inr s"
  by (simp add: cstr_at_def) (induction s, auto)

lemma cstr_at_drop:
  "NUL \<notin> set s \<Longrightarrow> pos \<le> length s \<Longrightarrow> cstr_at (s @ NUL # junk) pos = Inr (drop pos s)"
  using cstr_at_append [of "take pos s" pos "drop pos s" junk] 
  by (auto simp flip: append_assoc dest: in_set_dropD)

text \<open>The words of a text, as \<^verbatim>\<open>word_find_any\<close> and \<^verbatim>\<open>word_end\<close> cut them outside of quotes.\<close>

function words_of :: "string \<Rightarrow> string list" where
  "words_of s =
     (case dropWhile (\<lambda>c. \<not> iswordpart c) s of
        [] \<Rightarrow> []
      | c # r \<Rightarrow> (c # takeWhile iswordpart r) # words_of (dropWhile iswordpart r))"
  by pat_completeness auto
termination
proof (relation "measure length")
  fix s c r assume "dropWhile (\<lambda>c. \<not> iswordpart c) s = c # r"
  then have "Suc (length r) \<le> length s" using length_dropWhile_le [of "\<lambda>c. \<not> iswordpart c" s] by simp
  then show "(dropWhile iswordpart r, s) \<in> measure length"
    using length_dropWhile_le [of iswordpart r] by simp
qed simp

declare words_of.simps [simp del]

text \<open>Text without quotes, escapes and terminators.\<close>

definition plain :: "string \<Rightarrow> bool" where
  "plain s \<longleftrightarrow> list_all (\<lambda>c. c \<noteq> CHR 0x22 \<and> c \<noteq> CHR 0x27 \<and> c \<noteq> CHR 0x5C \<and> c \<noteq> NUL) s"

definition no_macro :: "macro list \<Rightarrow> string \<Rightarrow> bool" where
  "no_macro ms s \<longleftrightarrow> list_all (\<lambda>w. macro_find ms w = None) (words_of s)"

lemma plain_append [simp]: "plain (a @ b) \<longleftrightarrow> plain a \<and> plain b"
  by (simp add: plain_def)

lemma plain_Cons [simp]:
  "plain (c # s) \<longleftrightarrow> c \<noteq> CHR 0x22 \<and> c \<noteq> CHR 0x27 \<and> c \<noteq> CHR 0x5C \<and> c \<noteq> NUL \<and> plain s"
  by (simp add: plain_def)

lemma plain_Nil [simp]: "plain []"
  by (simp add: plain_def)

lemma plain_NUL: "plain s \<Longrightarrow> NUL \<notin> set s"
  by (induction s) auto

lemma plain_drop: "plain s \<Longrightarrow> plain (drop n s)"
  by (auto simp: plain_def list_all_iff dest: in_set_dropD)

lemma word_find_any_plain:
  "plain s \<Longrightarrow> word_find_any s =
     Inr (case dropWhile (\<lambda>c. \<not> iswordpart c) s of [] \<Rightarrow> None | c # r \<Rightarrow> Some (c # r))"
  by (induction s) auto

lemma quote_check_plain: "plain s \<Longrightarrow> quote_check s = Inr ()"
  by (cases s) (auto simp: quote_check_def)

lemma words_of_Nil [simp]: "words_of [] = []"
  by (simp add: words_of.simps)

lemma words_of_skip: "\<not> iswordpart c \<Longrightarrow> words_of (c # s) = words_of s"
  by (simp add: words_of.simps [of "c # s"] words_of.simps [of s])

lemma words_of_word: "iswordpart c \<Longrightarrow> words_of (c # r) = (c # takeWhile iswordpart r) # words_of (dropWhile iswordpart r)"
  by (simp add: words_of.simps [of "c # r"])

lemma words_of_append_skip: "\<not> iswordpart c \<Longrightarrow> words_of (x @ c # y) = words_of x @ words_of y"
proof (induction x rule: length_induct)
  case (1 x)
  show ?case
  proof (cases x)
    case Nil
    then show ?thesis using 1 by (simp add: words_of_skip)
  next
    case (Cons d r)
    show ?thesis
    proof (cases "iswordpart d")
      case True
      have "words_of (dropWhile iswordpart r @ c # y) = words_of (dropWhile iswordpart r) @ words_of y"
        using 1 Cons length_dropWhile_le [of iswordpart r] by simp
      moreover have "takeWhile iswordpart (r @ c # y) = takeWhile iswordpart r"
        "dropWhile iswordpart (r @ c # y) = dropWhile iswordpart r @ c # y"
        using "1.prems" by (simp_all add: takeWhile_tail dropWhile_append)
      ultimately show ?thesis using True Cons by (simp add: words_of_word)
    next
      case False
      then show ?thesis using 1 Cons by (simp add: words_of_skip)
    qed
  qed
qed

definition boundary :: "string \<Rightarrow> bool" where
  "boundary s \<longleftrightarrow> s = [] \<or> \<not> iswordpart (last s)"

lemma words_of_boundary: "boundary x \<Longrightarrow> words_of (x @ y) = words_of x @ words_of y"
proof (cases x rule: rev_cases)
  case (snoc x' c)
  then show "boundary x \<Longrightarrow> ?thesis"
    using words_of_append_skip [of c x' y] words_of_append_skip [of c x' "[]"] by (simp add: boundary_def)
qed simp

lemma no_macro_boundary: "boundary x \<Longrightarrow> no_macro ms (x @ y) \<longleftrightarrow> no_macro ms x \<and> no_macro ms y"
  by (simp add: no_macro_def words_of_boundary)

text \<open>One round at a position from which the next word is no macro.\<close>

lemma take_word: "take (length w - length (dropWhile P w)) w = takeWhile P w"
proof -
  have "length w = length (takeWhile P w) + length (dropWhile P w)"
    by (metis length_append takeWhile_dropWhile_id)
  then have "length w - length (dropWhile P w) = length (takeWhile P w)" by simp
  then show ?thesis by (simp add: takeWhile_eq_take [symmetric])
qed

lemma length_word: "length w - length (dropWhile P w) = length (takeWhile P w)"
  using arg_cong [OF take_word [of w P], of length] by simp

text \<open>
  The round of the loop at a position where plain text is left: with \<open>g\<close> the characters
  that are in no word and \<open>w\<close> the text from the next word on.
\<close>

lemma expand_step_plain:
  assumes c: "cstr_at buf pos = Inr (g @ w)" and "plain (g @ w)" and g: "list_all (\<lambda>c. \<not> iswordpart c) g"
    and w: "w \<noteq> []" "iswordpart (hd w)"
  shows "expand_step ex env buf pos st =
    (let line = pos + length g; ende = line + length (takeWhile iswordpart w) in
     case macro_find (macros st) (takeWhile iswordpart w) of
       Some i \<Rightarrow>
         bindE (eval_macro ex env i buf line st) (\<lambda>(buf', pos', st').
         bindE (cstr_at buf' pos') (\<lambda>s'.
         bindE (quote_check s') (\<lambda>_.
           if s' = [] then Inr (buf', st') else ex buf' (pos' + 1) st')))
     | None \<Rightarrow> if dropWhile iswordpart w = [] then Inr (buf, st) else ex buf (ende + 1) st)"
proof -
  have "dropWhile (\<lambda>c. \<not> iswordpart c) (g @ w) = w"
    using g w by (cases w) (auto simp: dropWhile_append list_all_iff)
  then have find_w: "word_find_any (g @ w) = Inr (Some w)"
    using assms by (cases w) (auto simp: word_find_any_plain)
  have "plain (dropWhile iswordpart w)"
    using \<open>plain (g @ w)\<close> by (auto simp: plain_def list_all_iff dest: set_dropWhileD)
  then have "take 1 (word_end w) \<noteq> [CHR 0x22]"
    by (cases "word_end w") (auto simp: word_end_def simp del: dropWhile_eq_Nil_conv)
  with w(1) show ?thesis
    by (simp add: expand_step_def c find_w word_end_def length_word takeWhile_eq_take [symmetric] Let_def
        cong: option.case_cong if_cong)
qed

lemma expand_step_no_word:
  assumes "cstr_at buf pos = Inr g" "plain g" "list_all (\<lambda>c. \<not> iswordpart c) g"
  shows "expand_step ex env buf pos st = Inr (buf, st)"
proof -
  have "dropWhile (\<lambda>c. \<not> iswordpart c) g = []" using assms(3) by (simp add: list_all_iff)
  then have "word_find_any g = Inr None" using assms(2) by (simp only: word_find_any_plain list.case)
  then show ?thesis using assms(1) by (simp add: expand_step_def)
qed

text \<open>Every text is a gap followed by nothing or by a word.\<close>

lemma gap_word_cases:
  obtains (gap) "list_all (\<lambda>c. \<not> iswordpart c) s"
  | (word) g w where "s = g @ w" "list_all (\<lambda>c. \<not> iswordpart c) g" "w \<noteq> []" "iswordpart (hd w)"
proof (cases "dropWhile (\<lambda>c. \<not> iswordpart c) s")
  case Nil
  then show ?thesis using gap by (simp add: list_all_iff)
next
  case (Cons c r)
  have "s = takeWhile (\<lambda>c. \<not> iswordpart c) s @ c # r" using Cons by (metis takeWhile_dropWhile_id)
  moreover have "iswordpart c" using Cons hd_dropWhile [of "\<lambda>c. \<not> iswordpart c" s] by simp
  moreover have "list_all (\<lambda>c. \<not> iswordpart c) (takeWhile (\<lambda>c. \<not> iswordpart c) s)"
    by (auto simp: list_all_iff dest: set_takeWhileD)
  ultimately show ?thesis using word by fastforce
qed

lemma words_of_gap: "list_all (\<lambda>c. \<not> iswordpart c) g \<Longrightarrow> words_of (g @ w) = words_of w"
  by (induction g) (simp_all add: words_of_skip)

lemma words_of_hd:
  assumes "w \<noteq> []" "iswordpart (hd w)"
  shows "words_of w = takeWhile iswordpart w # words_of (tl (dropWhile iswordpart w))"
proof -
  have "words_of (dropWhile iswordpart v) = words_of (tl (dropWhile iswordpart v))" for v
    using hd_dropWhile [of iswordpart v]
    by (cases "dropWhile iswordpart v") (auto simp: words_of_skip simp del: dropWhile_eq_Nil_conv)
  with assms show ?thesis by (cases w) (auto simp: words_of_word)
qed

lemma expand_no_macro:
  assumes "plain s" "no_macro (macros st) (drop pos s)" "pos \<le> length s" "length s - pos < f"
  shows "expand_loop f env (s @ NUL # junk) pos st = Inr (s @ NUL # junk, st)"
  using assms
proof (induction f arbitrary: pos)
  case (Suc f)
  have c: "cstr_at (s @ NUL # junk) pos = Inr (drop pos s)"
    using Suc.prems by (intro cstr_at_drop plain_NUL)
  show ?case
  proof (cases "drop pos s" rule: gap_word_cases)
    case gap
    then show ?thesis using c Suc.prems by (simp add: expand_step_no_word plain_drop)
  next
    case (word g w)
    define n where "n = pos + length g + length (takeWhile iswordpart w) + 1"
    have m: "macro_find (macros st) (takeWhile iswordpart w) = None"
      and m': "no_macro (macros st) (tl (dropWhile iswordpart w))"
      using Suc.prems(2) word by (simp_all add: no_macro_def words_of_gap words_of_hd)
    have sp: "drop pos s = g @ takeWhile iswordpart w @ dropWhile iswordpart w" using word by simp
    then have "drop n s = tl (dropWhile iswordpart w)"
      unfolding n_def by (metis (no_types, lifting) add.assoc append_assoc append_eq_conv_conj drop_Suc drop_drop
          length_append plus_1_eq_Suc add.commute tl_drop)
    moreover have "n \<le> length s" if "dropWhile iswordpart w \<noteq> []"
      using arg_cong [OF sp, of length] Suc.prems(3) that by (cases "dropWhile iswordpart w") (auto simp: n_def)
    ultimately have "dropWhile iswordpart w \<noteq> [] \<Longrightarrow>
        expand_loop f env (s @ NUL # junk) n st = Inr (s @ NUL # junk, st)"
      using m' Suc.prems by (intro Suc.IH) (auto simp: n_def)
    moreover have "plain (g @ w)" using plain_drop [OF Suc.prems(1), of pos] word by simp
    ultimately show ?thesis
      using c m word by (simp add: expand_step_plain n_def)
  qed
qed simp


section \<open>Object-like macros\<close>

lemma macro_find_Some: "macro_find ms n = Some i \<Longrightarrow> i < length ms \<and> m_nam (ms ! i) = n"
  by (induction ms arbitrary: i) (auto split: if_splits)

text \<open>Replacing a range by a text leaves the new text and a terminator in front of the block.\<close>

lemma buf_replace_text:
  assumes "NUL \<notin> set (pre @ old @ post)" "old \<noteq> []"
  shows "\<exists>junk'. buf_replace (pre @ old @ post @ NUL # junk) (length pre) (length pre + length old) new
           = Inr (pre @ new @ post @ NUL # junk')"
proof (cases "length new < length old")
  case True
  then obtain a b where old: "old = a @ b" "length a = length new" "b \<noteq> []"
    by (metis append_take_drop_id length_take min.strict_order_iff min.commute take_all_iff not_le drop_eq_Nil)
  have "cstr_at (pre @ new @ b @ post @ NUL # junk) (length pre + length old) = Inr post"
    using cstr_at_append [of "pre @ new @ b" "length pre + length old" post junk] assms old by simp
  with True old show ?thesis by (auto simp: buf_replace_def Let_def)
next
  case False
  obtain c old' where old: "old = c # old'" using assms by (cases old) auto
  have "cstr_at (pre @ NUL # old' @ post @ NUL # junk) 0 = Inr pre"
    using cstr_at_append [of "[]" 0 pre] assms by simp
  moreover have "cstr_at (pre @ NUL # old' @ post @ NUL # junk) (length pre + length old) = Inr post"
    using cstr_at_append [of "pre @ NUL # old'" "length pre + length old" post junk] assms old by simp
  ultimately show ?thesis using False by (auto simp: buf_replace_def Let_def old)
qed

definition object_macro :: "macro list \<Rightarrow> nat \<Rightarrow> string \<Rightarrow> bool" where
  "object_macro ms i v \<longleftrightarrow>
     i < length ms \<and> m_type (ms ! i) = MACRO \<and> m_val (ms ! i) = Some v \<and> m_blue (ms ! i) = 0"

lemma alter_blue_same: "snapshot_alter_blue (snapshot_take ms) (snapshot_take ms) c ms = ms"
  by (rule nth_equalityI) (auto simp: snapshot_take_def length_alter_blue nth_alter_blue)

lemma alter_blue_same': "length ms' = length ms \<Longrightarrow> snapshot_alter_blue (snapshot_take ms') (snapshot_take ms') c ms = ms"
  by (rule nth_equalityI) (auto simp: snapshot_take_def length_alter_blue nth_alter_blue)

lemma on_macros_id: "f (macros st) = macros st \<Longrightarrow> on_macros f st = st"
  by (simp add: on_macros_def)

lemma macro_find_core: "map core ms = map core ms' \<Longrightarrow> macro_find ms = macro_find ms'"
proof (induction ms arbitrary: ms')
  case (Cons m ms)
  then obtain m' ns where ms': "ms' = m' # ns" "core m = core m'" "map core ms = map core ns" by auto
  then have "m_nam m = m_nam m'" by (metis core_def macro.select_convs(1) macro.surjective macro.update_convs(6,7))
  then show ?case using Cons.IH [OF ms'(3)] ms'(1) by (auto simp: fun_eq_iff)
qed simp

lemma macro_find_paint: "macro_find (paint i c ms) = macro_find ms"
proof
  fix n show "macro_find (paint i c ms) n = macro_find ms n"
    unfolding paint_def
  proof (induction ms arbitrary: i)
    case (Cons m ms)
    then show ?case by (cases i) auto
  qed simp
qed

lemma macro_find_use: "macro_find (macro_use i c ms) = macro_find ms"
  by (rule macro_find_core) (simp add: core_macro_use)

text \<open>The expansion of an object-like macro whose value, put into the line, names no macro.\<close>

lemma eval_macro_object:
  assumes i: "object_macro (macros st) i v" "m_nam (macros st ! i) = nam" "nam \<noteq> []"
    and pl: "plain (pre @ nam @ post)" "plain v"
    and nm: "no_macro (macros st) (pre @ v @ post)"
    and f: "length (pre @ v @ post) < f"
  shows "\<exists>junk'. eval_macro (expand_loop f env) env i (pre @ nam @ post @ NUL # junk) (length pre) st =
           Inr (pre @ v @ post @ NUL # junk', length pre + length v, on_macros (macro_use i 1) st)"
proof -
  define st2 where "st2 = on_macros (paint i 1) (on_macros (macro_use i 1) st)"
  obtain junk' where rep: "buf_replace (pre @ nam @ post @ NUL # junk) (length pre) (length pre + length nam) v
      = Inr (pre @ v @ post @ NUL # junk')"
    using buf_replace_text [of pre nam post junk v] pl i plain_NUL [of "pre @ nam @ post"] by auto
  have m: "m_type (macros st2 ! i) = MACRO" "m_val (macros st2 ! i) = Some v" "m_nam (macros st2 ! i) = nam"
    using i by (simp_all add: st2_def object_macro_def macros_on_macros paint_def macro_use_def)
  have r: "eval_macro_r (expand_loop f env) env i (pre @ nam @ post @ NUL # junk) (length pre) st2 =
      Inr (pre @ v @ post @ NUL # junk', length pre + length v, st2)"
    by (simp add: eval_macro_r_def m rep)
  have "no_macro (macros st2) (drop 0 (pre @ v @ post))"
    using nm by (simp add: no_macro_def st2_def macros_on_macros macro_find_paint macro_find_use)
  then have "expand_loop f env ((pre @ v @ post) @ NUL # junk') 0 st2 = Inr ((pre @ v @ post) @ NUL # junk', st2)"
    using pl f by (intro expand_no_macro) auto
  then have d: "eval_macro_double_eval (expand_loop f env) env i (pre @ nam @ post @ NUL # junk) (length pre) st2 =
      Inr (pre @ v @ post @ NUL # junk', length pre + length v, st2)"
    by (simp add: eval_macro_double_eval_def r Let_def snapshot_blue_used_def snapshot_unblue_used_def
        on_macros_id alter_blue_same)
  have "on_macros (paint i (-1)) st2 = on_macros (macro_use i 1) st"
    by (simp add: st2_def on_macros_def paint_paint)
  then show ?thesis using i d by (simp add: eval_macro_def object_macro_def st2_def Let_def)
qed

text \<open>The text in front of the macro is passed over.\<close>

lemma expand_object:
  assumes i: "object_macro (macros st) i v" "macro_find (macros st) nam = Some i"
    and nam: "nam \<noteq> []" "list_all iswordpart nam"
    and pl: "plain (pre @ nam @ post)" "plain v"
    and b: "boundary pre" "post = [] \<or> \<not> iswordpart (hd post)"
    and nm: "no_macro (macros st) (pre @ v @ post)"
    and pos: "pos \<le> length pre" "no_macro (macros st) (drop pos pre)"
    and f: "length pre - pos + length (pre @ v @ post) + 1 < f"
  shows "\<exists>junk'. expand_loop f env (pre @ nam @ post @ NUL # junk) pos st =
           Inr (pre @ v @ post @ NUL # junk', on_macros (macro_use i 1) st)"
  using pos f
proof (induction f arbitrary: pos)
  case (Suc f)
  have c: "cstr_at (pre @ nam @ post @ NUL # junk) pos = Inr (drop pos pre @ nam @ post)"
    using cstr_at_drop [of "pre @ nam @ post" pos junk] plain_NUL pl(1) Suc.prems(1) by auto
  have tw: "takeWhile iswordpart (nam @ post) = nam" and hd_nam: "iswordpart (hd (nam @ post))"
    using nam b(2) by (cases post; auto simp: list_all_iff takeWhile_append)+
  have pld: "plain (drop pos pre @ nam @ post)" using pl(1) plain_drop by auto
  show ?case
  proof (cases "drop pos pre" rule: gap_word_cases)
    case gap
    obtain junk' where e: "eval_macro (expand_loop f env) env i (pre @ nam @ post @ NUL # junk) (length pre) st =
           Inr (pre @ v @ post @ NUL # junk', length pre + length v, on_macros (macro_use i 1) st)"
      using eval_macro_object [OF i(1) _ nam(1) pl nm, of f] macro_find_Some [OF i(2)] Suc.prems(3) by auto
    have post: "cstr_at (pre @ v @ post @ NUL # junk') (length pre + length v) = Inr post"
      using cstr_at_append [of "pre @ v" "length pre + length v" post junk'] pl plain_NUL by auto
    have rest: "expand_loop f env ((pre @ v @ post) @ NUL # junk') (length pre + length v + 1) (on_macros (macro_use i 1) st)
        = Inr ((pre @ v @ post) @ NUL # junk', on_macros (macro_use i 1) st)" if ne: "post \<noteq> []"
    proof (rule expand_no_macro)
      obtain d post' where p: "post = d # post'" "\<not> iswordpart d" using ne b(2) by (cases post) auto
      then show "no_macro (macros (on_macros (macro_use i 1) st)) (drop (length pre + length v + 1) (pre @ v @ post))"
        using nm no_macro_boundary [of "pre @ v @ [d]" "macros st" post']
        by (simp add: boundary_def no_macro_def macros_on_macros macro_find_use)
    qed (use pl Suc.prems ne in \<open>auto simp: Suc_le_eq\<close>)
    have "expand_loop (Suc f) env (pre @ nam @ post @ NUL # junk) pos st =
        Inr (pre @ v @ post @ NUL # junk', on_macros (macro_use i 1) st)"
      using gap c pld hd_nam nam(1) tw i(2) e post rest Suc.prems(1) pl(1)
      by (subst expand_loop.simps, subst expand_step_plain [where g = "drop pos pre" and w = "nam @ post"])
        (auto simp: quote_check_plain)
    then show ?thesis by blast
  next
    case (word g w)
    define n where "n = pos + length g + length (takeWhile iswordpart w) + 1"
    have "\<exists>d ds. dropWhile iswordpart w = d # ds"
    proof (rule ccontr)
      assume "\<nexists>d ds. dropWhile iswordpart w = d # ds"
      then have "list_all iswordpart w" by (cases "dropWhile iswordpart w") (auto simp: list_all_iff)
      moreover have "last pre = last w" "pre \<noteq> []" using word by (metis last_appendR last_drop drop_eq_Nil append_is_Nil_conv not_le) (use word in auto)
      ultimately show False using b(1) word by (auto simp: boundary_def list_all_iff)
    qed
    then obtain d ds where ds: "dropWhile iswordpart w = d # ds" by blast
    have nd: "\<not> iswordpart d" using ds hd_dropWhile [of iswordpart w] by simp
    have wn: "w = takeWhile iswordpart w @ d # ds" using ds takeWhile_dropWhile_id [of iswordpart w] by simp
    have "d \<in> set w" by (subst wn) simp
    then have tw': "takeWhile iswordpart (w @ nam @ post) = takeWhile iswordpart w"
      and dw': "dropWhile iswordpart (w @ nam @ post) \<noteq> []"
      using nd by (auto simp: takeWhile_append1)
    have m: "macro_find (macros st) (takeWhile iswordpart w) = None" and m': "no_macro (macros st) ds"
      using Suc.prems(2) word ds by (simp_all add: no_macro_def words_of_gap words_of_hd)
    have sp: "drop pos pre = (g @ takeWhile iswordpart w @ [d]) @ ds" by (subst word(1), subst wn) simp
    then have "drop (length (g @ takeWhile iswordpart w @ [d])) (drop pos pre) = ds" by simp
    then have dn: "drop n pre = ds" by (simp add: n_def ac_simps)
    have np: "n \<le> length pre" using arg_cong [OF sp, of length] Suc.prems(1) by (simp add: n_def)
    then have "length pre - n < length pre - pos" by (simp add: n_def)
    then have "length pre - n + length (pre @ v @ post) + 1 < f" using Suc.prems(3) by simp
    then obtain junk' where "expand_loop f env (pre @ nam @ post @ NUL # junk) n st =
           Inr (pre @ v @ post @ NUL # junk', on_macros (macro_use i 1) st)"
      using Suc.IH [of n] m' dn np by auto
    moreover have "expand_loop (Suc f) env (pre @ nam @ post @ NUL # junk) pos st =
        expand_loop f env (pre @ nam @ post @ NUL # junk) n st"
      using c pld word m tw' dw'
      by (subst expand_loop.simps, subst expand_step_plain [where g = g and w = "w @ nam @ post"]) (auto simp: n_def)
    ultimately show ?thesis by auto
  qed
qed simp


text \<open>
  C8: A line in which one object-like macro occurs, as a whole word and outside of quotes, is
  returned with the macro's value in the place of its name, when no word of the new line
  names a macro.  Nothing of the state changes but the use count, and the run ends: it needs
  no more rounds than the length of the text in front of the macro and of the new line.
\<close>

theorem object_macro_replaced:
  assumes "object_macro (macros st) i v" "macro_find (macros st) nam = Some i"
    and "nam \<noteq> []" "list_all iswordpart nam"
    and "plain (pre @ nam @ post)" "plain v"
    and "boundary pre" "post = [] \<or> \<not> iswordpart (hd post)"
    and "no_macro (macros st) (pre @ v @ post)"
    and "length pre + length (pre @ v @ post) + 1 < f"
  shows "eval_expand_macros f env (pre @ nam @ post) st = Inr (pre @ v @ post, on_macros (macro_use i 1) st)"
proof -
  have "no_macro (macros st) pre" using assms no_macro_boundary [of pre] by simp
  then obtain junk where "expand_loop f env (pre @ nam @ post @ NUL # []) 0 st =
           Inr (pre @ v @ post @ NUL # junk, on_macros (macro_use i 1) st)"
    using expand_object [OF assms(1-9), of 0 f env "[]"] assms(10) by auto
  moreover have "cstr_at ((pre @ v @ post) @ NUL # junk) 0 = Inr (pre @ v @ post)"
    using cstr_at_drop [of "pre @ v @ post" 0 junk] plain_NUL assms(5,6) by auto
  ultimately show ?thesis by (simp add: eval_expand_macros_def)
qed

text \<open>Tables and an environment for examples.\<close>

definition define_object :: "string \<Rightarrow> string \<Rightarrow> macro" where
  "define_object n v =
     \<lparr>m_nam = n, m_val = Some v, m_type = MACRO, m_args = [], m_blue = 0, m_use_cnt = 0,
      m_use_dump = 0, m_include_depth = 0\<rparr>"

definition define_function :: "string \<Rightarrow> string list \<Rightarrow> string \<Rightarrow> macro" where
  "define_function n args v = (define_object n v)\<lparr>m_type := FUNC, m_args := args\<rparr>"

definition example_cpp :: cpp_env where
  "example_cpp =
     \<lparr>current_fname = ''a.c'', current_line = 1, cpp_date = ''d'', cpp_time = ''t'',
      cpp_timestamp = ''ts'', cpp_basefile = ''a.c'', cpp_std = STD_C99\<rparr>"

definition table :: "macro list \<Rightarrow> mstate" where
  "table ms = \<lparr>macros = ms, counter = 0\<rparr>"

theorem object_macro_replaced_witness:
  "eval_expand_macros 30 example_cpp ''x = MAX + 1;'' (table [define_object ''MAX'' ''12'']) =
     Inr (''x = 12 + 1;'', on_macros (macro_use 0 1) (table [define_object ''MAX'' ''12'']))"
proof -
  let ?st = "table [define_object ''MAX'' ''12'']"
  have "object_macro (macros ?st) 0 ''12''" "macro_find (macros ?st) ''MAX'' = Some 0"
    "list_all iswordpart ''MAX''" "plain (''x = '' @ ''MAX'' @ '' + 1;'')" "plain ''12''"
    "boundary ''x = ''" "\<not> iswordpart (hd '' + 1;'')"
    "no_macro (macros ?st) (''x = '' @ ''12'' @ '' + 1;'')"
    by code_simp+
  then show ?thesis
    using object_macro_replaced [of ?st 0 "''12''" "''MAX''" "''x = ''" "'' + 1;''" 30 example_cpp] by simp
qed

section \<open>An expansion that never ends\<close>

text \<open>
  With \<^verbatim>\<open>#define m B\<close> and \<^verbatim>\<open>#define B m m\<close>: the second scan expands \<^verbatim>\<open>B\<close>, but the offset at
  which the first scan goes on is the one behind the \<^verbatim>\<open>B\<close>, so that it finds the last \<^verbatim>\<open>m\<close>
  when nothing is painted any more.
\<close>

definition loop_table :: "int \<Rightarrow> int \<Rightarrow> macro list" where
  "loop_table b c =
     [(define_object ''m'' ''B'')\<lparr>m_blue := b\<rparr>, (define_object ''B'' ''m m'')\<lparr>m_blue := c\<rparr>]"

definition loops :: "int \<Rightarrow> int \<Rightarrow> mstate \<Rightarrow> bool" where
  "loops b c st \<longleftrightarrow> map core (macros st) = loop_table b c"

definition ms_text :: "nat \<Rightarrow> string" where
  "ms_text k = concat (replicate k ''m '')"

lemma ms_text_simps [simp]: "ms_text 0 = []" "ms_text (Suc k) = ''m '' @ ms_text k"
  by (simp_all add: ms_text_def)

lemma ms_text_add: "ms_text (j + k) = ms_text j @ ms_text k"
  by (simp add: ms_text_def replicate_add)

lemma ms_text_snoc: "ms_text k @ ''m '' = ''m '' @ ms_text k"
  by (induction k) auto

lemma ms_text_mm: "ms_text k @ ''m m'' @ r = ms_text (Suc k) @ ''m'' @ r"
  using arg_cong [OF ms_text_snoc [of k], of "\<lambda>x. x @ ''m'' @ r"] by simp

lemma length_ms_text [simp]: "length (ms_text k) = 2 * k"
  by (induction k) auto

lemma plain_ms_text [simp]: "plain (ms_text k)"
  by (induction k) auto

lemma core_eqD:
  "core m = core m' \<Longrightarrow> m_nam m = m_nam m' \<and> m_val m = m_val m' \<and> m_type m = m_type m' \<and> m_blue m = m_blue m'"
  by (cases m; cases m') (simp add: core_def)

lemma loopsE:
  assumes "loops b bb st"
  obtains x y where "macros st = [x, y]"
    "m_nam x = ''m''" "m_val x = Some ''B''" "m_type x = MACRO" "m_blue x = b"
    "m_nam y = ''B''" "m_val y = Some ''m m''" "m_type y = MACRO" "m_blue y = bb"
proof -
  from assms obtain x y where xy: "macros st = [x, y]"
    and "core x = core ((define_object ''m'' ''B'')\<lparr>m_blue := b\<rparr>)" "core y = core ((define_object ''B'' ''m m'')\<lparr>m_blue := bb\<rparr>)"
    by (auto simp: loops_def loop_table_def core_def define_object_def)
  then show thesis using that [OF xy] by (auto dest!: core_eqD simp: define_object_def)
qed

lemma macro_find_loops:
  assumes "loops b bb st"
  shows "macro_find (macros st) ''m'' = Some 0" "macro_find (macros st) ''B'' = Some 1"
  using assms by (auto elim!: loopsE)

lemma iswordpart_loop [simp]: "iswordpart CHR ''m''" "iswordpart CHR ''B''" "\<not> iswordpart CHR '' ''"
  by code_simp+

text \<open>A round at a word \<open>c\<close> of one letter behind \<open>p\<close>.\<close>

lemma expand_step_letter:
  assumes "plain (c # post)" "iswordpart c" "post = [] \<or> \<not> iswordpart (hd post)"
    and "macro_find (macros st) [c] = Some i"
  shows "expand_step ex env (p @ c # post @ NUL # junk) (length p) st =
    bindE (eval_macro ex env i (p @ c # post @ NUL # junk) (length p) st) (\<lambda>(buf', pos', st').
         bindE (cstr_at buf' pos') (\<lambda>s'.
         bindE (quote_check s') (\<lambda>_.
           if s' = [] then Inr (buf', st') else ex buf' (pos' + 1) st')))"
proof -
  have "cstr_at (p @ (c # post) @ NUL # junk) (length p) = Inr ([] @ c # post)"
    using cstr_at_append [of p "length p" "c # post" junk] plain_NUL [OF assms(1)] by simp
  moreover have "takeWhile iswordpart (c # post) = [c]" using assms by (cases post) auto
  ultimately show ?thesis
    using assms by (subst expand_step_plain [where g = "[]" and w = "c # post"]) auto
qed

text \<open>The second scan while \<open>m\<close> is painted: every \<open>m\<close> is skipped.\<close>

lemma scan_painted:
  assumes "loops b bb st" "b \<noteq> 0" "buf = p @ ms_text k @ c # post @ NUL # junk" "plain (c # post)"
  shows "expand_loop (k + f) env buf (length p) st = expand_loop f env buf (length p + 2 * k) st"
  using assms(3)
proof (induction k arbitrary: p)
  case (Suc k)
  obtain x y where ms: "macros st = [x, y]" "m_blue x = b" "m_nam x = ''m''" using assms(1) by (rule loopsE)
  have e: "eval_macro (expand_loop (k + f) env) env 0 buf (length p) st = Inr (buf, length p + 1, st)"
    using ms assms(2) by (simp add: eval_macro_def)
  have c': "cstr_at buf (length p + 1) = Inr (CHR '' '' # ms_text k @ c # post)"
    using cstr_at_append [of "p @ ''m''" "length p + 1" "CHR '' '' # ms_text k @ c # post" junk]
      plain_NUL [of "CHR '' '' # ms_text k @ c # post"] assms(4) Suc.prems by simp
  have "expand_loop (Suc k + f) env buf (length p) st = expand_loop (k + f) env buf (length (p @ ''m '')) st"
    using Suc.prems assms(4) macro_find_loops [OF assms(1)] e c'
      expand_step_letter [of "CHR ''m''" "CHR '' '' # ms_text k @ c # post" st 0 "expand_loop (k + f) env" env p junk]
    by (simp add: quote_check_plain)
  also have "\<dots> = expand_loop f env buf (length (p @ ''m '') + 2 * k) st"
    using Suc.prems by (intro Suc.IH) simp
  finally show ?case by simp
qed simp


lemma loops_same_core: "same_core st st' \<Longrightarrow> loops b c st' \<longleftrightarrow> loops b c st"
  by (simp add: loops_def same_core_def)

lemma paint_loop_table:
  "paint 0 d (loop_table b c) = loop_table (b + d) c" "paint 1 d (loop_table b c) = loop_table b (c + d)"
  by (simp_all add: loop_table_def paint_def define_object_def)

lemma length_paint: "length (paint i c ms) = length ms" and length_macro_use: "length (macro_use i a ms) = length ms"
  by (simp_all add: paint_def macro_use_def)

lemma loops_paint:
  assumes "loops b c st"
  shows "loops (b + d) c (on_macros (paint 0 d) st)" "loops b (c + d) (on_macros (paint 1 d) st)"
    and "loops b c (on_macros (macro_use i a) st)"
  using assms unfolding loops_def macros_on_macros core_paint core_macro_use
  by (simp_all only: paint_loop_table)

text \<open>
  With \<open>m\<close> painted, a line that ends in \<open>m\<close> does not change, and one that ends in \<open>B\<close> ends
  in \<open>m m\<close> afterwards.
\<close>

lemma scan_painted_m:
  assumes "loops b c st" "b \<noteq> 0"
  shows "expand_loop (k + Suc f) env (ms_text k @ ''m'' @ NUL # junk) 0 st = Inr (ms_text k @ ''m'' @ NUL # junk, st)"
proof -
  obtain x y where ms: "macros st = [x, y]" "m_blue x = b" "m_nam x = ''m''" using assms(1) by (rule loopsE)
  have e: "eval_macro (expand_loop f env) env 0 (ms_text k @ ''m'' @ NUL # junk) (2 * k) st =
      Inr (ms_text k @ ''m'' @ NUL # junk, 2 * k + 1, st)"
    using ms assms(2) by (simp add: eval_macro_def)
  have "cstr_at (ms_text k @ ''m'' @ NUL # junk) (2 * k + 1) = Inr []"
    using cstr_at_append [of "ms_text k @ ''m''" "2 * k + 1" "[]" junk] by simp
  then show ?thesis
    using scan_painted [OF assms, of "ms_text k @ ''m'' @ NUL # junk" "[]" k "CHR ''m''" "[]" junk "Suc f" env]
      expand_step_letter [of "CHR ''m''" "[]" st 0 "expand_loop f env" env "ms_text k" junk]
      macro_find_loops [OF assms(1)] e
    by (simp add: quote_check_def)
qed

text \<open>The expansion of an object-like macro of one letter at the end of the line, up to the second scan.\<close>

lemma eval_object_letter:
  assumes "i < length (macros st)" "m_type (macros st ! i) = MACRO" "m_val (macros st ! i) = Some v"
    "m_nam (macros st ! i) = [c]" "m_blue (macros st ! i) = 0"
    and "plain (p @ [c])" "length v \<noteq> 0"
  defines "st2 \<equiv> on_macros (paint i 1) (on_macros (macro_use i 1) st)"
  shows "eval_macro ex env i (p @ c # NUL # []) (length p) st =
    bindE (ex (p @ v @ [NUL]) 0 st2) (\<lambda>(buf2, st3).
      Inr (buf2, length p + length v,
        on_macros (paint i (-1)) (on_macros (snapshot_unblue_used (snapshot_take (macros st2)) (snapshot_take (macros st2))) st3)))"
proof -
  have m: "m_type (macros st2 ! i) = MACRO" "m_val (macros st2 ! i) = Some v" "m_nam (macros st2 ! i) = [c]"
    using assms by (simp_all add: macros_on_macros paint_def macro_use_def)
  have c0: "cstr_at ((p @ c # NUL # [])[length p := NUL]) 0 = Inr p"
    using cstr_at_append [of "[]" 0 p "[NUL]"] plain_NUL [of p] assms(6) by simp
  have c1: "cstr_at ((p @ c # NUL # [])[length p := NUL]) (length p + 1) = Inr []"
    using cstr_at_append [of "p @ [NUL]" "length p + 1" "[]" "[]"] by simp
  have r: "eval_macro_r ex env i (p @ c # NUL # []) (length p) st2 = Inr (p @ v @ [NUL], length p + length v, st2)"
    using c0 c1 assms(7) by (simp add: eval_macro_r_def m buf_replace_def Let_def)
  show ?thesis
    using assms(5) unfolding st2_def [symmetric]
    by (cases "ex (p @ v @ [NUL]) 0 st2")
      (auto simp: eval_macro_def eval_macro_double_eval_def r Let_def snapshot_blue_used_def
        on_macros_id alter_blue_same simp flip: st2_def)
qed

lemma eval_object_out:
  assumes "i < length (macros st)" "m_type (macros st ! i) = MACRO" "m_val (macros st ! i) = Some v"
    "m_nam (macros st ! i) = [c]" "m_blue (macros st ! i) = 0"
    and "plain (p @ [c])" "length v \<noteq> 0"
    and "ex (p @ v @ [NUL]) 0 (on_macros (paint i 1) (on_macros (macro_use i 1) st)) = Inl e"
  shows "eval_macro ex env i (p @ c # NUL # []) (length p) st = Inl e"
  using assms(8) by (simp add: eval_object_letter [OF assms(1-7)])

lemma eval_object_scan:
  assumes "i < length (macros st)" "m_type (macros st ! i) = MACRO" "m_val (macros st ! i) = Some v"
    "m_nam (macros st ! i) = [c]" "m_blue (macros st ! i) = 0"
    and "plain (p @ [c])" "length v \<noteq> 0"
    and "ex (p @ v @ [NUL]) 0 (on_macros (paint i 1) (on_macros (macro_use i 1) st)) = Inr (buf2, st3)"
    and "length (macros st3) = length (macros st)"
  shows "eval_macro ex env i (p @ c # NUL # []) (length p) st =
    Inr (buf2, length p + length v, on_macros (paint i (-1)) st3)"
  using assms(8,9)
  by (simp add: eval_object_letter [OF assms(1-7)] snapshot_unblue_used_def on_macros_id
      alter_blue_same' macros_on_macros length_paint length_macro_use)

lemma scan_painted_B:
  assumes "loops b 0 st" "b \<noteq> 0"
  shows "\<exists>st'. expand_loop (k + Suc (Suc k + Suc f)) env (ms_text k @ ''B'' @ [NUL]) 0 st =
           Inr (ms_text (Suc k) @ ''m'' @ [NUL], st') \<and> loops b 0 st'"
proof -
  let ?ex = "expand_loop (Suc k + Suc f) env"
  let ?st2 = "on_macros (paint 1 1) (on_macros (macro_use 1 1) st)"
  obtain x y where ms: "macros st = [x, y]" "m_nam y = ''B''" "m_val y = Some ''m m''" "m_type y = MACRO"
    "m_blue y = 0" using assms(1) by (rule loopsE)
  have l2: "loops b 1 ?st2" using loops_paint(2) [OF loops_paint(3) [OF assms(1)], of 1 1 1] by simp
  have ex: "?ex (ms_text k @ ''m m'' @ [NUL]) 0 ?st2 = Inr (ms_text (Suc k) @ ''m'' @ [NUL], ?st2)"
    unfolding ms_text_mm by (rule scan_painted_m [OF l2 assms(2)])
  have e: "eval_macro ?ex env 1 (ms_text k @ CHR ''B'' # NUL # []) (length (ms_text k)) st =
      Inr (ms_text (Suc k) @ ''m'' @ [NUL], length (ms_text k) + 3, on_macros (paint 1 (-1)) ?st2)"
    using eval_object_scan [of 1 st "''m m''" "CHR ''B''" "ms_text k" ?ex] ms ex
    by (simp add: macros_on_macros length_paint length_macro_use)
  have "loops b 0 (on_macros (paint 1 (-1)) ?st2)" using loops_paint(2) [OF l2, of "-1"] by simp
  moreover have "cstr_at (ms_text (Suc k) @ ''m'' @ [NUL]) (length (ms_text k) + 3) = Inr []"
    using cstr_at_append [of "ms_text (Suc k) @ ''m''" "length (ms_text k) + 3" "[]" "[]"] by simp
  ultimately show ?thesis
    using scan_painted [OF assms, of "ms_text k @ ''B'' @ [NUL]" "[]" k "CHR ''B''" "[]" "[]" "Suc (Suc k + Suc f)" env]
      expand_step_letter [of "CHR ''B''" "[]" st 1 ?ex env "ms_text k" "[]"] macro_find_loops [OF assms(1)] e
    by (simp add: quote_check_def)
qed

lemma expand_diverges:
  assumes "loops 0 0 st"
  shows "expand_loop f env (ms_text k @ ''m'' @ [NUL]) (2 * k) st = Inl Out_of_fuel"
  using assms
proof (induction f arbitrary: k st)
  case (Suc f)
  let ?st2 = "on_macros (paint 0 1) (on_macros (macro_use 0 1) st)"
  obtain x y where ms: "macros st = [x, y]" "m_nam x = ''m''" "m_val x = Some ''B''" "m_type x = MACRO"
    "m_blue x = 0" using Suc.prems by (rule loopsE)
  have l2: "loops 1 0 ?st2" using loops_paint(1) [OF loops_paint(3) [OF Suc.prems], of 1 0 1] by simp
  then obtain st3 where st3: "loops 1 0 st3" and
    "expand_loop (f + (k + Suc (Suc k + Suc 0))) env (ms_text k @ ''B'' @ [NUL]) 0 ?st2 =
       Inr (ms_text (Suc k) @ ''m'' @ [NUL], st3)"
    using scan_painted_B [OF l2, of k f env] by (auto simp: ac_simps)
  with refuel.ex_le [of f env "ms_text k @ ''B'' @ [NUL]" 0 ?st2 "k + Suc (Suc k + Suc 0)"]
  have "expand_loop f env (ms_text k @ ''B'' @ [NUL]) 0 ?st2 \<in>
      {Inl Out_of_fuel, Inr (ms_text (Suc k) @ ''m'' @ [NUL], st3)}"
    by (auto simp: fuel_le_def)
  then consider (out) "expand_loop f env (ms_text k @ ''B'' @ [NUL]) 0 ?st2 = Inl Out_of_fuel"
    | (go) "expand_loop f env (ms_text k @ ''B'' @ [NUL]) 0 ?st2 = Inr (ms_text (Suc k) @ ''m'' @ [NUL], st3)"
    by blast
  then show ?case
  proof cases
    case out
    have "eval_macro (expand_loop f env) env 0 (ms_text k @ CHR ''m'' # NUL # []) (length (ms_text k)) st = Inl Out_of_fuel"
      using eval_object_out [of 0 st "''B''" "CHR ''m''" "ms_text k" "expand_loop f env"] ms out by simp
    then show ?thesis
      using expand_step_letter [of "CHR ''m''" "[]" st 0 "expand_loop f env" env "ms_text k" "[]"]
        macro_find_loops [OF Suc.prems] by simp
  next
    case go
    have l3: "loops 0 0 (on_macros (paint 0 (-1)) st3)" using loops_paint(1) [OF st3, of "-1"] by simp
    have "length (macros st3) = 2" using st3 by (auto elim!: loopsE)
    then have e: "eval_macro (expand_loop f env) env 0 (ms_text k @ CHR ''m'' # NUL # []) (length (ms_text k)) st =
        Inr (ms_text (Suc k) @ ''m'' @ [NUL], length (ms_text k) + 1, on_macros (paint 0 (-1)) st3)"
      using eval_object_scan [of 0 st "''B''" "CHR ''m''" "ms_text k" "expand_loop f env"] ms go by simp
    have "ms_text (Suc k) @ ''m'' @ [NUL] = (ms_text k @ ''m'') @ '' m'' @ NUL # []"
      using ms_text_mm [of k "[NUL]"] by simp
    then have "cstr_at (ms_text (Suc k) @ ''m'' @ [NUL]) (length (ms_text k) + 1) = Inr '' m''"
      using cstr_at_append [of "ms_text k @ ''m''" "length (ms_text k) + 1" "'' m''" "[]"] by simp
    then show ?thesis
      using expand_step_letter [of "CHR ''m''" "[]" st 0 "expand_loop f env" env "ms_text k" "[]"]
        macro_find_loops [OF Suc.prems] e Suc.IH [OF l3, of "Suc k"] by (simp add: quote_check_def)
  qed
qed simp

text \<open>
  C40: With \<^verbatim>\<open>#define m B\<close> and \<^verbatim>\<open>#define B m m\<close>, the expansion of the line \<^verbatim>\<open>m\<close> never ends:
  no number of rounds is enough.  C expands the line to \<^verbatim>\<open>m m\<close>.
\<close>

theorem expansion_never_ends:
  "eval_expand_macros f env ''m'' (table [define_object ''m'' ''B'', define_object ''B'' ''m m'']) = Inl Out_of_fuel"
proof -
  have "loops 0 0 (table [define_object ''m'' ''B'', define_object ''B'' ''m m''])"
    by (simp add: loops_def loop_table_def table_def core_def define_object_def)
  from expand_diverges [OF this, of f env 0] show ?thesis by (simp add: eval_expand_macros_def)
qed

section \<open>Expansions that go wrong\<close>

text \<open>
  A function-like macro that is not called leaves the position at the start of its name, and
  the scan goes on at the next character, in the middle of the word.
\<close>

lemma uncalled_macro_tail_expanded:
  "eval_expand_macros 20 example_cpp ''FOO;'' (table [define_function ''FOO'' [] ''1'', define_object ''OO'' ''2'']) =
     Inr (''F2;'', table [define_function ''FOO'' [] ''1'', (define_object ''OO'' ''2'')\<lparr>m_use_cnt := 1, m_use_dump := 1\<rparr>])"
  by code_simp

text \<open>
  The scan goes on inside a literal that follows a word or the prefix \<^verbatim>\<open>L\<close> directly, and a
  macro that it finds there ends the program.
\<close>

lemma wide_string_scanned:
  "eval_expand_macros 20 example_cpp (''L'' @ [CHR 0x22] @ ''b'' @ [CHR 0x22]) (table [define_object ''b'' ''2'']) =
     Inl (Assert_failed ''no matching quote on line'')"
  by code_simp

lemma adjacent_literal_scanned:
  "eval_expand_macros 20 example_cpp (''case'' @ [CHR 0x27] @ ''a'' @ [CHR 0x27] @ '':'') (table [define_object ''a'' ''2'']) =
     Inl (Assert_failed ''no matching quote on line'')"
  by code_simp

text \<open>A second scan that shortens the line leaves the position behind the terminator.\<close>

lemma position_behind_terminator:
  "eval_macro (expand_loop 20 example_cpp) example_cpp 1 (''LONG x'' @ [NUL]) 0
     (table [define_object ''EMPTY'' [], define_object ''LONG'' ''EMPTY'']) =
   Inr ('' x'' @ [NUL] @ ''TY x''  @ [NUL], 5,
     table [(define_object ''EMPTY'' [])\<lparr>m_use_cnt := 1, m_use_dump := 1\<rparr>,
            (define_object ''LONG'' ''EMPTY'')\<lparr>m_use_cnt := 1, m_use_dump := 1\<rparr>])"
  by code_simp

section \<open>The table\<close>

text \<open>
  C9: Expanding the macros of a line leaves the macro table as it was but for the use counts:
  no macro appears, disappears, or changes its name, value, kind or parameters, and every
  blue mark set during the expansion is taken off again.
\<close>

theorem expand_keeps_table:
  assumes "eval_expand_macros f env line st = Inr (s, st')"
  shows "map core (macros st') = map core (macros st)"
  using assms
  by (auto simp: eval_expand_macros_def elim!: bindE_InrE dest!: expanding.ex_frame simp: same_core_def)


theorem expand_keeps_table_witness:
  "map core (macros (table [(define_function ''F'' [''x''] ''x + y'')\<lparr>m_use_cnt := 1, m_use_dump := 1\<rparr>, (define_object ''y'' ''F(1)'')\<lparr>m_use_cnt := 1, m_use_dump := 1\<rparr>])) =
   map core (macros (table [define_function ''F'' [''x''] ''x + y'', define_object ''y'' ''F(1)'']))"
  by (rule expand_keeps_table [of 30 example_cpp "''y''" _ "''1 + y''"]) code_simp

end
