(* ===== verification/Ucc_Directive.thy ===== *)
theory Ucc_Directive
  imports Ucc_Macro_Expand Ucc_Math
begin

text \<open>
  Directives: \<^verbatim>\<open>src/cpp2/directive.c\<close> and the operators \<^verbatim>\<open>defined\<close> and \<^verbatim>\<open>__has_include\<close> of
  \<^verbatim>\<open>src/cpp2/eval.c\<close>.

  The state holds the stack of conditionals (\<^verbatim>\<open>if_stack\<close> up to \<^verbatim>\<open>if_idx\<close>, without the
  positions that only messages print), \<^verbatim>\<open>noop\<close>, \<^verbatim>\<open>if_elif_chosen\<close>, the macros, the current
  file name and line, and the lines printed so far.  \<^verbatim>\<open>if_elif_chosen = if_eval(...)\<close> stores a
  truth value in the enumeration, whose first two values are \<^verbatim>\<open>NO_TRUTH\<close> and \<^verbatim>\<open>GOT_TRUTH\<close>.
  Finding and opening an included file is left to the caller.
\<close>

section \<open>State\<close>

datatype if_elif_state = NO_TRUTH | GOT_TRUTH | LAST_ELSE

record ifent =
  ie_chosen :: if_elif_state
  ie_noop :: bool

definition N_IFSTACK :: nat where "N_IFSTACK = 64"

record dstate =
  if_stack :: "ifent list"
  noop :: bool
  if_elif_chosen :: if_elif_state
  mst :: mstate
  cpp :: cpp_env
  no_output :: bool
  printed :: "string list"

text \<open>
  What directives use of the other files: the options of \<^verbatim>\<open>main.c\<close>, whether
  \<^verbatim>\<open>preproc_in_include()\<close>, the answer of \<^verbatim>\<open>include_fopen\<close> for the name and kind of an include,
  and the bound on the rounds of macro expansion.
\<close>

record dconf =
  option_line_info :: bool
  in_include :: bool
  include_exists :: "string \<Rightarrow> bool \<Rightarrow> bool outcome"
  fuel :: nat

definition parse_should_noop :: "dstate \<Rightarrow> bool" where
  "parse_should_noop st \<longleftrightarrow> noop st \<or> list_ex ie_noop (if_stack st)"

definition emit :: "string \<Rightarrow> dstate \<Rightarrow> dstate" where
  "emit s st = st\<lparr>printed := printed st @ [s]\<rparr>"

definition directive_sync :: "dstate \<Rightarrow> dstate" where
  "directive_sync st = (if \<not> no_output st then emit [] st else st)"

section \<open>Definitions\<close>

fun set_no_ws :: "token list \<Rightarrow> token list" where
  "set_no_ws [] = []"
| "set_no_ws (t # ts) = t\<lparr>tk_ws := False\<rparr> # ts"

text \<open>The parameters of a function-like macro, from the token behind the parenthesis on.\<close>

fun define_params :: "token list \<Rightarrow> string list \<Rightarrow> (string list \<times> bool \<times> token list) outcome" where
  "define_params [] args = Inr (args, False, [])"
| "define_params (t # ts) args =
     (if tk_tok t = TOKEN_CLOSE_PAREN then Inr (args, False, ts)
      else if tk_tok t = TOKEN_ELIPSIS then
        (case ts of
           [] \<Rightarrow> Inl Null_deref
         | u # us \<Rightarrow>
           if tk_tok u \<noteq> TOKEN_CLOSE_PAREN then Inl (Died ''expected: close paren'') else Inr (args, True, us))
      else if tk_tok t = TOKEN_WORD then
        bindE (token_str t) (\<lambda>a.
        case ts of
          [] \<Rightarrow> Inl Null_deref
        | u # us \<Rightarrow>
          if tk_tok u = TOKEN_COMMA then define_params us (args @ [a])
          else if tk_tok u = TOKEN_CLOSE_PAREN then Inr (args @ [a], False, us)
          else if tk_tok u = TOKEN_ELIPSIS then Inl (Died ''GNU-variadic macros aren't supported'')
          else Inl (Died ''expected: comma or close paren''))
      else Inl (Died ''unexpected token''))"

definition with_macros :: "macro list \<Rightarrow> dstate \<Rightarrow> dstate" where
  "with_macros ms st = st\<lparr>mst := (mst st)\<lparr>macros := ms\<rparr>\<rparr>"

definition handle_define :: "dconf \<Rightarrow> token list \<Rightarrow> dstate \<Rightarrow> dstate outcome" where
  "handle_define cf tokens st =
     (case tokens of
        [] \<Rightarrow> Inl Null_deref
      | t # ts \<Rightarrow>
        if tk_tok t \<noteq> TOKEN_WORD then Inl (Died ''word expected'')
        else if parse_should_noop st then Inr st
        else
          case tk_w t of
            None \<Rightarrow> Inl Null_deref
          | Some name \<Rightarrow>
            if ts \<noteq> [] \<and> tk_tok (hd ts) = TOKEN_OPEN_PAREN \<and> \<not> tk_ws (hd ts) then
              bindE (define_params (tl ts) []) (\<lambda>(args, variadic, rest).
              bindE (tokens_join (set_no_ws rest)) (\<lambda>val.
              bindE (macro_add_func name (Some val) args variadic (of_bool (in_include cf)) (macros (mst st)))
                (\<lambda>(ms, _). Inr (with_macros ms st))))
            else
              bindE (tokens_join (set_no_ws ts)) (\<lambda>val.
              bindE (macro_add name (Some val) (of_bool (in_include cf)) (macros (mst st)))
                (\<lambda>(ms, _). Inr (with_macros ms st))))"

definition SINGLE_TOKEN :: "token list \<Rightarrow> string outcome" where
  "SINGLE_TOKEN tokens =
     bindE (tokens_skip_whitespace tokens) (\<lambda>ts.
     bindE (tokens_count_skip_spc ts) (\<lambda>n.
       if n \<noteq> 1 then Inl (Died ''single token expected'')
       else
         case ts of
           [] \<Rightarrow> Inl Null_deref
         | t # _ \<Rightarrow>
           if tk_tok t \<noteq> TOKEN_WORD then Inl (Died ''single token expected'')
           else case tk_w t of None \<Rightarrow> Inl Null_deref | Some w \<Rightarrow> Inr w))"

definition handle_undef :: "token list \<Rightarrow> dstate \<Rightarrow> dstate outcome" where
  "handle_undef tokens st =
     bindE (SINGLE_TOKEN tokens) (\<lambda>nam.
       if parse_should_noop st then Inr st
       else Inr (with_macros (snd (macro_remove nam (macros (mst st)))) st))"

text \<open>\<^verbatim>\<open>handle_error_warning\<close>: a warning goes to the error stream, an error ends the run.\<close>

definition handle_warning :: "token list \<Rightarrow> dstate \<Rightarrow> dstate outcome" where
  "handle_warning tokens st =
     (if parse_should_noop st then Inr st else bindE (tokens_join tokens) (\<lambda>_. Inr st))"

definition handle_error :: "token list \<Rightarrow> dstate \<Rightarrow> dstate outcome" where
  "handle_error tokens st =
     (if parse_should_noop st then Inr st
      else bindE (tokens_join tokens) (\<lambda>s. Inl (Died (''#error:'' @ s))))"

text \<open>
  \<^verbatim>\<open>include_parse\<close>: the name, and whether it was in angle brackets; macros are expanded at
  most once.
\<close>

definition include_name :: "string \<Rightarrow> (string \<times> bool) option outcome" where
  "include_name arg =
     (case str_spc_skip arg of
        [] \<Rightarrow> Inr None
      | c # r \<Rightarrow>
        if c = CHR ''<'' \<or> c = CHR 0x22 then
          bindE (str_quotefin2 r (if c = CHR ''<'' then CHR ''>'' else CHR 0x22)) (\<lambda>fin.
            case fin of
              None \<Rightarrow> Inl (Died ''unterminated #include directive'')
            | Some e \<Rightarrow> Inr (Some (take (length r - length e) r, c = CHR ''<'')))
        else Inr None)"

definition include_parse :: "dconf \<Rightarrow> cpp_env \<Rightarrow> string \<Rightarrow> mstate \<Rightarrow> ((string \<times> bool) \<times> mstate) outcome" where
  "include_parse cf env arg ms =
     bindE (include_name arg) (\<lambda>r.
       case r of
         Some n \<Rightarrow> Inr (n, ms)
       | None \<Rightarrow>
         bindE (eval_expand_macros (fuel cf) env (str_spc_skip arg) ms) (\<lambda>(expanded, ms').
         bindE (include_name (str_trim expanded)) (\<lambda>r'.
           case r' of
             Some n \<Rightarrow> Inr (n, ms')
           | None \<Rightarrow> Inl (Died ''bad include start''))))"

text \<open>
  \<^verbatim>\<open>eval_expand\<close> of \<^verbatim>\<open>eval.c\<close>: every occurrence of \<open>from\<close> with its operand becomes the digit
  that \<open>ev\<close> answers.  Each round makes the text shorter, so that its length bounds the rounds.
\<close>

definition eval_expand_round ::
  "string \<Rightarrow> (string \<Rightarrow> mstate \<Rightarrow> (bool \<times> mstate) outcome) \<Rightarrow> bool \<Rightarrow> string \<Rightarrow> mstate
     \<Rightarrow> (string \<times> mstate) option outcome" where
  "eval_expand_round frm ev paren_optional w ms =
     bindE (word_find w frm) (\<lambda>r.
       case r of
         None \<Rightarrow> Inr None
       | Some entry \<Rightarrow>
         let entry_end = str_spc_skip (word_end entry); got_paren = (take 1 entry_end = ''('') in
         if \<not> got_paren \<and> \<not> paren_optional then Inl (Died ''open paren expected'')
         else
           bindE (if got_paren then
                    (case strchr_nest entry_end (CHR '')'') of
                       None \<Rightarrow> Inl (Died ''close paren expected'')
                     | Some e \<Rightarrow> Inr (e, 1))
                  else Inr (word_end entry_end, 0)) (\<lambda>(def_end, closing).
           let operand = (let s = drop (of_bool got_paren) entry_end in take (length s - length def_end) s) in
           bindE (ev operand ms) (\<lambda>(b, ms').
             let pos = length w - length entry in
             Inr (Some (str_replace w pos (length w - length def_end + closing) (if b then ''1'' else ''0''), ms')))))"

primrec eval_expand_loop ::
  "nat \<Rightarrow> string \<Rightarrow> (string \<Rightarrow> mstate \<Rightarrow> (bool \<times> mstate) outcome) \<Rightarrow> bool \<Rightarrow> string \<Rightarrow> mstate
     \<Rightarrow> (string \<times> mstate) outcome" where
  "eval_expand_loop 0 frm ev paren_optional w ms = Inl Out_of_fuel"
| "eval_expand_loop (Suc n) frm ev paren_optional w ms =
     bindE (eval_expand_round frm ev paren_optional w ms) (\<lambda>r.
       case r of
         None \<Rightarrow> Inr (w, ms)
       | Some (w', ms') \<Rightarrow> eval_expand_loop n frm ev paren_optional w' ms')"

definition eval_expand ::
  "string \<Rightarrow> (string \<Rightarrow> mstate \<Rightarrow> (bool \<times> mstate) outcome) \<Rightarrow> bool \<Rightarrow> string \<Rightarrow> mstate
     \<Rightarrow> (string \<times> mstate) outcome" where
  "eval_expand frm ev paren_optional w ms = eval_expand_loop (Suc (length w)) frm ev paren_optional w ms"

text \<open>\<^verbatim>\<open>word_find_any\<close> may return NULL, and \<^verbatim>\<open>word_end\<close> reads through it.\<close>

definition defined_macro_find :: "string \<Rightarrow> mstate \<Rightarrow> (bool \<times> mstate) outcome" where
  "defined_macro_find ident ms =
     bindE (word_find_any ident) (\<lambda>r.
       case r of
         None \<Rightarrow> Inl Null_deref
       | Some w \<Rightarrow>
         Inr (macro_find (macros ms) (take (length w - length (word_end w)) w) \<noteq> None, ms))"

definition eval_expand_defined :: "string \<Rightarrow> mstate \<Rightarrow> (string \<times> mstate) outcome" where
  "eval_expand_defined w ms = eval_expand DEFINED_STR defined_macro_find True w ms"

definition has_include :: "dconf \<Rightarrow> cpp_env \<Rightarrow> string \<Rightarrow> mstate \<Rightarrow> (bool \<times> mstate) outcome" where
  "has_include cf env arg ms =
     bindE (include_parse cf env arg ms) (\<lambda>((fname, angle), ms').
     bindE (include_exists cf fname angle) (\<lambda>b. Inr (b, ms')))"

definition eval_expand_has_include :: "dconf \<Rightarrow> cpp_env \<Rightarrow> string \<Rightarrow> mstate \<Rightarrow> (string \<times> mstate) outcome" where
  "eval_expand_has_include cf env w ms = eval_expand HAS_INCLUDE_STR (has_include cf env) False w ms"

section \<open>Conditionals\<close>

definition if_push :: "bool \<Rightarrow> dstate \<Rightarrow> dstate outcome" where
  "if_push is_true st =
     (let stk = if_stack st @ [\<lparr>ie_chosen = if_elif_chosen st, ie_noop = noop st\<rparr>] in
      if length stk = N_IFSTACK then Inl (Died ''ifdef stack exceeded'')
      else Inr (st\<lparr>if_stack := stk, noop := \<not> is_true,
                  if_elif_chosen := (if is_true then GOT_TRUTH else NO_TRUTH)\<rparr>))"

definition if_pop :: "dstate \<Rightarrow> dstate outcome" where
  "if_pop st =
     (if if_stack st = [] then Inl (Ice ''if_idx == 0 on if_pop()'')
      else
        let e = last (if_stack st) in
        Inr (st\<lparr>if_stack := butlast (if_stack st), noop := ie_noop e, if_elif_chosen := ie_chosen e\<rparr>))"

definition handle_somedef :: "token list \<Rightarrow> bool \<Rightarrow> dstate \<Rightarrow> dstate outcome" where
  "handle_somedef tokens revd st =
     bindE (SINGLE_TOKEN tokens) (\<lambda>w.
       if noop st then if_push False st
       else if_push (revd \<noteq> (macro_find (macros (mst st)) w \<noteq> None)) st)"

definition handle_ifdef :: "token list \<Rightarrow> dstate \<Rightarrow> dstate outcome" where
  "handle_ifdef tokens st = handle_somedef tokens False st"

definition handle_ifndef :: "token list \<Rightarrow> dstate \<Rightarrow> dstate outcome" where
  "handle_ifndef tokens st = handle_somedef tokens True st"

primrec if_eval_loop :: "nat \<Rightarrow> dconf \<Rightarrow> cpp_env \<Rightarrow> string \<Rightarrow> mstate \<Rightarrow> (string \<times> mstate) outcome" where
  "if_eval_loop 0 cf env w ms = Inl Out_of_fuel"
| "if_eval_loop (Suc n) cf env w ms =
     bindE (eval_expand_defined w ms) (\<lambda>(w1, ms1).
     bindE (eval_expand_has_include cf env w1 ms1) (\<lambda>(w2, ms2).
     bindE (eval_expand_macros (fuel cf) env w2 ms2) (\<lambda>(w3, ms3).
     bindE (word_find w3 DEFINED_STR) (\<lambda>r.
       if r \<noteq> None then if_eval_loop n cf env w3 ms3 else Inr (w3, ms3)))))"

definition if_eval :: "dconf \<Rightarrow> token list \<Rightarrow> dstate \<Rightarrow> (bool \<times> dstate) outcome" where
  "if_eval cf tokens st =
     bindE (tokens_join tokens) (\<lambda>w.
     bindE (if_eval_loop (fuel cf) cf (cpp st) w (mst st)) (\<lambda>(w', ms).
     bindE (expr_parse w') (\<lambda>e.
     bindE (expr_eval e False False) (\<lambda>(r, had_ident).
       Inr (r \<noteq> 0, st\<lparr>mst := ms\<rparr>)))))"

definition handle_if :: "dconf \<Rightarrow> token list \<Rightarrow> dstate \<Rightarrow> dstate outcome" where
  "handle_if cf tokens st =
     (if noop st then if_push False st
      else bindE (if_eval cf tokens st) (\<lambda>(is_true, st'). if_push is_true st'))"

definition got_else :: "string \<Rightarrow> dstate \<Rightarrow> unit outcome" where
  "got_else type st = (if if_stack st = [] then Inl (Died (type @ '' unexpected'')) else Inr ())"

definition handle_elif :: "dconf \<Rightarrow> token list \<Rightarrow> dstate \<Rightarrow> dstate outcome" where
  "handle_elif cf tokens st =
     bindE (got_else ''elif'' st) (\<lambda>_.
       case if_elif_chosen st of
         GOT_TRUTH \<Rightarrow> Inr (st\<lparr>noop := True\<rparr>)
       | NO_TRUTH \<Rightarrow>
         bindE (if_eval cf tokens st) (\<lambda>(b, st').
           Inr (st'\<lparr>if_elif_chosen := (if b then GOT_TRUTH else NO_TRUTH), noop := \<not> b\<rparr>))
       | LAST_ELSE \<Rightarrow> Inl (Died ''#else already encountered (now at #elif)''))"

text \<open>\<^verbatim>\<open>NO_TOKEN\<close> only warns, but counts the tokens first.\<close>

definition handle_else :: "token list \<Rightarrow> dstate \<Rightarrow> dstate outcome" where
  "handle_else tokens st =
     bindE (tokens_count_skip_spc tokens) (\<lambda>_.
     bindE (got_else ''else'' st) (\<lambda>_.
       case if_elif_chosen st of
         GOT_TRUTH \<Rightarrow> Inr (st\<lparr>noop := True, if_elif_chosen := LAST_ELSE\<rparr>)
       | NO_TRUTH \<Rightarrow> Inr (st\<lparr>noop := False, if_elif_chosen := LAST_ELSE\<rparr>)
       | LAST_ELSE \<Rightarrow> Inl (Died ''#else already encountered (now at #else)'')))"

definition handle_endif :: "token list \<Rightarrow> dstate \<Rightarrow> dstate outcome" where
  "handle_endif tokens st =
     bindE (tokens_count_skip_spc tokens) (\<lambda>_.
       if if_stack st = [] then Inl (Died ''endif unexpected'') else if_pop st)"

definition handle_pragma :: "token list \<Rightarrow> dstate \<Rightarrow> dstate outcome" where
  "handle_pragma tokens st = bindE (tokens_join tokens) (\<lambda>out. Inr (emit (''#pragma '' @ out) st))"

section \<open>Line directives\<close>

text \<open>\<^verbatim>\<open>strtol\<close> with base 0 from a character that is no space, and \<^verbatim>\<open>atoi\<close>.\<close>

definition strtol_signed :: "string \<Rightarrow> int \<times> string" where
  "strtol_signed s =
     (case s of
        [] \<Rightarrow> (0, s)
      | c # r \<Rightarrow>
        if c = CHR ''-'' \<and> r \<noteq> [] \<and> isdigit (hd r) then (let (n, e) = strtol0 r in (- n, e))
        else if c = CHR ''+'' \<and> r \<noteq> [] \<and> isdigit (hd r) then strtol0 r
        else if isdigit c then strtol0 s
        else (0, s))"

definition atoi :: "string \<Rightarrow> int outcome" where
  "atoi s =
     (let digits = (if take 1 s = ''+'' then tl s else s);
          n = int (digits_value 10 0 (takeWhile isdigit digits)) in
      if n < 2 ^ 31 then Inr n else Inl (Undefined ''atoi''))"

definition c_int :: "int \<Rightarrow> int" where
  "c_int n = sint (of_int n :: 32 word)"

text \<open>
  The flags of a line marker: the numbers of the bits that are set, taken off from below.
\<close>

definition LINEINFO_START_OF_FILE :: u32 where "LINEINFO_START_OF_FILE = 2"

definition LINEINFO_RETURN_TO_FILE :: u32 where "LINEINFO_RETURN_TO_FILE = 4"

definition LINEINFO_SYSHEADER :: u32 where "LINEINFO_SYSHEADER = 8"

fun line_flags :: "nat \<Rightarrow> u32 \<Rightarrow> string" where
  "line_flags 0 bits = []"
| "line_flags (Suc n) bits =
     (if bits = 0 then []
      else let (b, rest) = extractbottombit bits in '' '' @ show_int (log2i b) @ line_flags n rest)"

definition line_info_text :: "int \<Rightarrow> string \<Rightarrow> u32 \<Rightarrow> string" where
  "line_info_text n fname bits =
     ''# '' @ show_int n @ '' '' @ [CHR 0x22] @ fname @ [CHR 0x22] @ line_flags 32 bits"

definition preproc_emit_line_info :: "dconf \<Rightarrow> int \<Rightarrow> string \<Rightarrow> u32 \<Rightarrow> dstate \<Rightarrow> dstate" where
  "preproc_emit_line_info cf lineno fname bits st =
     (if no_output st \<or> \<not> option_line_info cf then st else emit (line_info_text lineno fname bits) st)"

text \<open>
  The result says whether the line was a line directive.  It is taken also in a group that is
  skipped.
\<close>

definition handle_line_directive :: "dconf \<Rightarrow> string \<Rightarrow> dstate \<Rightarrow> (bool \<times> dstate) outcome" where
  "handle_line_directive cf line st =
     (let l0 = str_spc_skip line; is_line = (take 4 l0 = ''line'') in
      if is_line \<and> length l0 - length (word_end l0) \<noteq> 4 then Inr (False, st)
      else
        let l1 = str_spc_skip (if is_line then drop 4 l0 else l0);
            (n64, endp) = strtol_signed l1; n = c_int n64 in
        if length endp = length l1 then
          (if is_line then Inl (Died ''invalid #line directive'') else Inr (False, st))
        else if n < 0 then Inl (Died ''#line directive with a negative argument'')
        else
          let l2 = str_spc_skip endp; number = take (length l1 - length endp) l1 in
          bindE (if take 1 l2 = [CHR 0x22] then
                   (let fname = tl l2 in
                    if fname = [] \<or> CHR 0x22 \<notin> set fname
                    then Inl (Died ''#line directive has unterminated double-quote'')
                    else Inr (takeWhile (\<lambda>c. c \<noteq> CHR 0x22) fname))
                 else Inr (current_fname (cpp st))) (\<lambda>fname.
          bindE (atoi number) (\<lambda>shown.
            let st' = preproc_emit_line_info cf shown fname 0 st in
            Inr (True, st'\<lparr>cpp := (cpp st')\<lparr>current_fname := fname, current_line := n - 1\<rparr>\<rparr>))))"

section \<open>Dispatch\<close>

definition is_word :: "token \<Rightarrow> string \<Rightarrow> bool" where
  "is_word t s \<longleftrightarrow> tk_w t = Some s"

text \<open>The handlers, from the tokens of a line on.\<close>

definition directive_dispatch :: "dconf \<Rightarrow> token list \<Rightarrow> dstate \<Rightarrow> dstate outcome" where
  "directive_dispatch cf tokens st =
     (case tokens of
        [] \<Rightarrow> Inr st
      | t # ts \<Rightarrow>
        if tk_tok t \<noteq> TOKEN_WORD then
          (if parse_should_noop st then Inr st else Inl (Died ''invalid preproc token''))
        else
          let st = directive_sync st in
          if is_word t ''ifdef'' then handle_ifdef ts st
          else if is_word t ''ifndef'' then handle_ifndef ts st
          else if is_word t ''if'' then handle_if cf ts st
          else if is_word t ''elif'' then handle_elif cf ts st
          else if is_word t ''else'' then handle_else ts st
          else if is_word t ''endif'' then handle_endif ts st
          else if parse_should_noop st then Inr st
          else if is_word t ''define'' then handle_define cf ts st
          else if is_word t ''undef'' then handle_undef ts st
          else if is_word t ''warning'' then handle_warning ts st
          else if is_word t ''error'' then handle_error ts st
          else if is_word t ''pragma'' then handle_pragma ts st
          else Inl (Died ''unrecognised preproc command''))"

text \<open>
  \<^verbatim>\<open>parse_directive\<close>: the second component is the text behind \<^verbatim>\<open>include\<close> when the line is an
  include that is not skipped; \<^verbatim>\<open>handle_include\<close> is left to the caller.
\<close>

definition parse_directive :: "dconf \<Rightarrow> string \<Rightarrow> dstate \<Rightarrow> (dstate \<times> string option) outcome" where
  "parse_directive cf line st =
     bindE (handle_line_directive cf line st) (\<lambda>(done, st).
       if done then Inr (st, None)
       else
         let start = str_spc_skip line in
         if \<not> parse_should_noop st \<and> take (length start - length (word_end start)) start = ''include'' then
           Inr (directive_sync st, Some (drop 7 start))
         else
           bindE (tokenise line) (\<lambda>tokens.
           bindE (directive_dispatch cf tokens st) (\<lambda>st'. Inr (st', None))))"

definition parse_internal_directive :: "dconf \<Rightarrow> string \<Rightarrow> dstate \<Rightarrow> (dstate \<times> string option) outcome" where
  "parse_internal_directive cf line st =
     bindE (parse_directive cf line (st\<lparr>no_output := True\<rparr>)) (\<lambda>(st', inc). Inr (st'\<lparr>no_output := False\<rparr>, inc))"

definition parse_end_validate :: "dstate \<Rightarrow> unit outcome" where
  "parse_end_validate st = (if if_stack st \<noteq> [] then Inl (Died ''endif expected'') else Inr ())"

end
