(* ===== verification/Ucc_Include.thy ===== *)
theory Ucc_Include
  imports Ucc_Dynmap Ucc_Str
begin

text \<open>
  Files of the preprocessor: reading lines (\<^verbatim>\<open>fline\<close> of \<^verbatim>\<open>src/util/io.c\<close>), names of
  directories and files (\<^verbatim>\<open>src/util/util.c\<close>), the search for included files
  (\<^verbatim>\<open>src/cpp2/include.c\<close>) and the recorded dependencies (\<^verbatim>\<open>src/cpp2/deps.c\<close>).  What the
  system answers to \<^verbatim>\<open>fopen\<close> is the argument \<open>fs\<close>; an open file is the text that is left to
  read.
\<close>

section \<open>Lines and names\<close>

text \<open>The line, whether a newline ended it, and the rest of the file.\<close>

definition fline :: "string \<Rightarrow> (string \<times> bool \<times> string) option" where
  "fline f =
     (if f = [] then None
      else
        let line = takeWhile (\<lambda>c. c \<noteq> CHR 0x0A) f; rest = dropWhile (\<lambda>c. c \<noteq> CHR 0x0A) f in
        Some (line, rest \<noteq> [], drop 1 rest))"

text \<open>\<^verbatim>\<open>strrchr\<close>: the offset of the last occurrence.\<close>

fun strrchr :: "string \<Rightarrow> char \<Rightarrow> nat option" where
  "strrchr [] c = None"
| "strrchr (d # s) c =
     (case strrchr s c of
        Some i \<Rightarrow> Some (Suc i)
      | None \<Rightarrow> if d = c then Some 0 else None)"

definition udirname :: "string \<Rightarrow> string" where
  "udirname f = (case strrchr f (CHR ''/'') of Some i \<Rightarrow> take i f | None \<Rightarrow> ''./'')"

text \<open>\<^verbatim>\<open>ext_replace\<close> allocates \<^verbatim>\<open>strlen(ext) + strlen(str)\<close> characters, without the terminator.\<close>

definition ext_replace :: "string \<Rightarrow> string \<Rightarrow> string outcome" where
  "ext_replace str ext =
     (case strrchr str (CHR ''.'') of
        None \<Rightarrow> Inr str
      | Some dot \<Rightarrow>
        let size = length ext + length str; res = take dot str @ ''.'' @ ext in
        if length str + 1 \<le> size \<and> length res + 1 \<le> size then Inr res else Inl Out_of_bounds)"

section \<open>Searching\<close>

datatype fopen_result = Opened string | No_entry | Fopen_error

record include_dirs =
  inc_dirs :: "string list"
  inc_dirs_sys :: "string list"

definition include_add_dir :: "string \<Rightarrow> bool \<Rightarrow> include_dirs \<Rightarrow> include_dirs" where
  "include_add_dir d sysh dirs =
     (if sysh then dirs\<lparr>inc_dirs_sys := inc_dirs_sys dirs @ [d]\<rparr>
      else dirs\<lparr>inc_dirs := inc_dirs dirs @ [d]\<rparr>)"

definition wrapped_fopen :: "(string \<Rightarrow> fopen_result) \<Rightarrow> string \<Rightarrow> string option outcome" where
  "wrapped_fopen fs fnam =
     (let base = (case strrchr fnam (CHR ''/'') of Some i \<Rightarrow> drop (i + 1) fnam | None \<Rightarrow> fnam) in
      if base = [] then Inl (Died ''empty filename'')
      else
        case fs fnam of
          Opened f \<Rightarrow> Inr (Some f)
        | No_entry \<Rightarrow> Inr None
        | Fopen_error \<Rightarrow> Inl (Died ''open''))"

fun include_search :: "(string \<Rightarrow> fopen_result) \<Rightarrow> string \<Rightarrow> string list \<Rightarrow> (string \<times> string) option outcome" where
  "include_search fs fname [] = Inr None"
| "include_search fs fname (d # ds) =
     bindE (wrapped_fopen fs (d @ ''/'' @ fname)) (\<lambda>f.
       case f of
         Some text \<Rightarrow> Inr (Some (d @ ''/'' @ fname, text))
       | None \<Rightarrow> include_search fs fname ds)"

text \<open>The final path, whether the file is a system header, and its text.\<close>

definition include_fopen ::
  "(string \<Rightarrow> fopen_result) \<Rightarrow> include_dirs \<Rightarrow> string \<Rightarrow> string \<Rightarrow> bool
     \<Rightarrow> (string \<times> bool \<times> string) option outcome" where
  "include_fopen fs dirs curdir fname is_angle =
     (let dirs_search =
        bindE (include_search fs fname (inc_dirs dirs)) (\<lambda>r.
          case r of
            Some (path, f) \<Rightarrow> Inr (Some (path, False, f))
          | None \<Rightarrow>
            bindE (include_search fs fname (inc_dirs_sys dirs)) (\<lambda>r'.
              Inr (map_option (\<lambda>(path, f). (path, True, f)) r')))
      in
      if take 1 fname = ''/'' then
        bindE (wrapped_fopen fs fname) (\<lambda>r. Inr (map_option (\<lambda>f. (fname, False, f)) r))
      else if \<not> is_angle then
        bindE (wrapped_fopen fs (curdir @ ''/'' @ fname)) (\<lambda>r.
          case r of
            Some f \<Rightarrow> Inr (Some (curdir @ ''/'' @ fname, False, f))
          | None \<Rightarrow> dirs_search)
      else dirs_search)"

section \<open>Dependencies\<close>

type_synonym depset = "(string, unit) dynmap option"

definition deps_add :: "depset \<Rightarrow> string \<Rightarrow> depset outcome" where
  "deps_add depset d =
     bindE (dynmap_nochk_exists depset (Some d)) (\<lambda>b.
       if b then Inr depset
       else
         let m = (case depset of None \<Rightarrow> strmap_new | Some m \<Rightarrow> m) in
         bindE (dynmap_nochk_set m (Some d) None) (\<lambda>(m', _). Inr (Some m')))"

definition LINE_MAX :: nat where "LINE_MAX = 75"

text \<open>The name of the object file; the extension is looked for behind the last slash.\<close>

definition deps_object :: "string \<Rightarrow> string" where
  "deps_object file =
     (let start = (case strrchr file (CHR ''/'') of Some i \<Rightarrow> i | None \<Rightarrow> 0) in
      case strrchr (drop start file) (CHR ''.'') of
        Some e \<Rightarrow>
          if start + e + 1 < length file then take (start + e + 1) file @ ''o'' else file @ ''o''
      | None \<Rightarrow> file @ ''.o'')"

fun deps_wrap :: "nat \<Rightarrow> string list \<Rightarrow> string" where
  "deps_wrap len [] = [CHR 0x0A]"
| "deps_wrap len (k # ks) =
     (let this_len = 1 + length k; len' = len + this_len in
      if len' \<ge> LINE_MAX then '' '' @ [CHR 0x5C, CHR 0x0A] @ '' '' @ k @ deps_wrap this_len ks
      else '' '' @ k @ deps_wrap len' ks)"

definition deps_keys :: "depset \<Rightarrow> string list" where
  "deps_keys depset = (case depset of None \<Rightarrow> [] | Some m \<Rightarrow> map fst (dm_entries m))"

definition deps_dump :: "depset \<Rightarrow> string \<Rightarrow> string" where
  "deps_dump depset file =
     (let obj = deps_object file in
      obj @ '': '' @ file @ deps_wrap (length obj + length file + 2) (deps_keys depset))"

section \<open>Lemmas\<close>

text \<open>Reading a file line by line loses nothing: the lines and newlines make up its text.\<close>

function flines :: "string \<Rightarrow> (string \<times> bool) list" where
  "flines f = (case fline f of None \<Rightarrow> [] | Some (line, newline, rest) \<Rightarrow> (line, newline) # flines rest)"
  by pat_completeness auto
termination
proof (relation "measure length")
  fix f x line y newline rest
  assume "fline f = Some x" "(line, y) = x" "(newline, rest) = y"
  then have "f \<noteq> []" "rest = drop 1 (dropWhile (\<lambda>c. c \<noteq> CHR 0x0A) f)"
    by (auto simp: fline_def Let_def split: if_splits)
  then show "(rest, f) \<in> measure length"
    using length_dropWhile_le [of "\<lambda>c. c \<noteq> CHR 0x0A" f] by (cases f) auto
qed simp

declare flines.simps [simp del]

lemma flines_text: "concat (map (\<lambda>(line, nl). line @ (if nl then [CHR 0x0A] else [])) (flines f)) = f"
proof (induction f rule: flines.induct)
  case (1 f)
  show ?case
  proof (cases "fline f")
    case None
    then show ?thesis by (simp add: flines.simps [of f]) (simp add: fline_def Let_def split: if_splits)
  next
    case (Some x)
    obtain line newline rest where x: "x = (line, newline, rest)" by (cases x) auto
    from Some x have f: "f \<noteq> []" "line = takeWhile (\<lambda>c. c \<noteq> CHR 0x0A) f"
      "newline = (dropWhile (\<lambda>c. c \<noteq> CHR 0x0A) f \<noteq> [])" "rest = drop 1 (dropWhile (\<lambda>c. c \<noteq> CHR 0x0A) f)"
      by (auto simp: fline_def Let_def split: if_splits)
    have "(if newline then [CHR 0x0A] else []) @ rest = dropWhile (\<lambda>c. c \<noteq> CHR 0x0A) f"
      unfolding f using hd_dropWhile [of "\<lambda>c. c \<noteq> CHR 0x0A" f]
      by (cases "dropWhile (\<lambda>c. c \<noteq> CHR 0x0A) f") (auto simp del: dropWhile_eq_Nil_conv)
    then have "line @ (if newline then [CHR 0x0A] else []) @ rest = f" by (simp add: f(2))
    moreover have "concat (map (\<lambda>(line, nl). line @ (if nl then [CHR 0x0A] else [])) (flines rest)) = rest"
      using 1 Some x by simp
    ultimately show ?thesis by (simp add: flines.simps [of f] Some x)
  qed
qed

lemma strrchr_Some: "strrchr s c = Some i \<Longrightarrow> i < length s \<and> s ! i = c \<and> c \<notin> set (drop (Suc i) s)"
proof (induction s arbitrary: i)
  case (Cons d s)
  show ?case
  proof (cases "strrchr s c")
    case None
    moreover have "strrchr s c = None \<Longrightarrow> c \<notin> set s"
      by (induction s) (auto split: option.splits if_splits)
    ultimately show ?thesis using Cons.prems by (auto split: if_splits)
  next
    case (Some j)
    then show ?thesis using Cons by auto
  qed
qed simp

text \<open>The extension is replaced, but for a name that ends in a dot the buffer is too small.\<close>

lemma ext_replace_overflow: "ext_replace ''a.'' ''o'' = Inl Out_of_bounds"
  by code_simp

lemma ext_replace_fits:
  assumes "strrchr str (CHR ''.'') = Some dot" "dot + 1 < length str" "ext \<noteq> []"
  shows "ext_replace str ext = Inr (take dot str @ ''.'' @ ext)"
  using assms by (cases ext) (auto simp: ext_replace_def Let_def)

section \<open>What the dependency list holds\<close>

definition deps_inv :: "depset \<Rightarrow> bool" where
  "deps_inv depset = (case depset of None \<Rightarrow> True | Some m \<Rightarrow> strmap_inv m)"

definition deps_holds :: "depset \<Rightarrow> string \<Rightarrow> bool" where
  "deps_holds depset d = (case depset of None \<Rightarrow> False | Some m \<Rightarrow> dm_lookup m d \<noteq> None)"

lemma deps_holds_keys:
  assumes "deps_inv depset"
  shows "deps_holds depset d \<longleftrightarrow> d \<in> set (deps_keys depset)"
proof (cases depset)
  case (Some m)
  then have m: "strmap_inv m" using assms by (simp add: deps_inv_def)
  then have "dm_lookup m d = Some v \<longleftrightarrow> (d, v) \<in> set (dm_entries m)" for v
    using dm_lookup_entries [OF strmap_ok [OF m]] strmap_same [OF m] by (auto simp: strmap_inv_def)
  then have "(\<exists>v. dm_lookup m d = Some v) \<longleftrightarrow> d \<in> fst ` set (dm_entries m)" by force
  then show ?thesis by (simp add: Some deps_holds_def deps_keys_def)
qed (simp add: deps_holds_def deps_keys_def)

lemma deps_add_ok:
  assumes "deps_inv depset"
  shows "\<exists>depset'. deps_add depset d = Inr depset' \<and> deps_inv depset' \<and>
           (\<forall>k. deps_holds depset' k \<longleftrightarrow> k = d \<or> deps_holds depset k)"
proof (cases "deps_holds depset d")
  case True
  then show ?thesis using assms
    by (auto simp: deps_add_def deps_holds_def exists_spec split: option.splits)
next
  case False
  define m where "m = (case depset of None \<Rightarrow> strmap_new | Some m \<Rightarrow> m)"
  have m: "strmap_inv m" using assms by (auto simp: m_def deps_inv_def strmap_new_inv split: option.split)
  have e: "dynmap_nochk_exists depset (Some d) = Inr False"
    using False by (cases depset) (auto simp: deps_holds_def exists_spec dynmap_nochk_exists_def [of None])
  obtain m' r where s: "dynmap_nochk_set m (Some d) None = Inr (m', r)" "strmap_inv m'"
    "dm_lookup m' = (dm_lookup m)(d \<mapsto> None)"
    using strmap.put_ok [OF m, of d None] by blast
  have "dm_lookup m k \<noteq> None \<longleftrightarrow> deps_holds depset k" for k
    by (cases depset) (auto simp: m_def deps_holds_def strmap_new_def new_spec)
  then show ?thesis using e s by (auto simp: deps_add_def m_def [symmetric] deps_inv_def deps_holds_def Let_def)
qed

fun deps_add_all :: "depset \<Rightarrow> string list \<Rightarrow> depset outcome" where
  "deps_add_all depset [] = Inr depset"
| "deps_add_all depset (d # ds) = bindE (deps_add depset d) (\<lambda>depset'. deps_add_all depset' ds)"

lemma deps_add_all_ok:
  "deps_inv depset \<Longrightarrow> \<exists>depset'. deps_add_all depset ds = Inr depset' \<and> deps_inv depset' \<and>
     (\<forall>k. deps_holds depset' k \<longleftrightarrow> k \<in> set ds \<or> deps_holds depset k)"
proof (induction ds arbitrary: depset)
  case (Cons d ds)
  obtain ds1 where d1: "deps_add depset d = Inr ds1" "deps_inv ds1" "\<forall>k. deps_holds ds1 k \<longleftrightarrow> k = d \<or> deps_holds depset k"
    using deps_add_ok [OF Cons.prems] by blast
  show ?case using Cons.IH [OF d1(2)] d1 by auto
qed auto

text \<open>
  Recording the names of the included files never fails, and the dependency list that is
  then printed names exactly the files that were recorded.
\<close>

theorem deps_complete:
  "\<exists>depset. deps_add_all None ds = Inr depset \<and> set (deps_keys depset) = set ds"
  using deps_add_all_ok [of None ds] deps_holds_keys by (fastforce simp: deps_inv_def deps_holds_def)

section \<open>The order of the search\<close>

text \<open>A name in quotes that exists in the current directory is taken from there.\<close>

lemma include_local_first:
  assumes "take 1 fname \<noteq> ''/''" "fs (curdir @ ''/'' @ fname) = Opened f"
    and "strrchr (curdir @ ''/'' @ fname) (CHR ''/'') = Some i" "drop (i + 1) (curdir @ ''/'' @ fname) \<noteq> []"
  shows "include_fopen fs dirs curdir fname False = Inr (Some (curdir @ ''/'' @ fname, False, f))"
  using assms by (simp add: include_fopen_def wrapped_fopen_def)

lemma include_search_first:
  assumes "include_search fs fname ds = Inr (Some (path, f))"
  shows "\<exists>pre d post. ds = pre @ d # post \<and> path = d @ ''/'' @ fname \<and> fs path = Opened f \<and>
           (\<forall>e \<in> set pre. fs (e @ ''/'' @ fname) = No_entry)"
  using assms
proof (induction ds)
  case (Cons d ds)
  show ?case
  proof (cases "fs (d @ ''/'' @ fname)")
    case (Opened g)
    then show ?thesis using Cons.prems
      by (intro exI [of _ "[]"] exI [of _ d] exI [of _ ds]) (auto simp: wrapped_fopen_def Let_def split: if_splits option.splits)
  next
    case No_entry
    then have "include_search fs fname ds = Inr (Some (path, f))"
      using Cons.prems by (auto simp: wrapped_fopen_def Let_def split: if_splits option.splits)
    then obtain pre d' post where "ds = pre @ d' # post" "path = d' @ ''/'' @ fname" "fs path = Opened f"
      "\<forall>e \<in> set pre. fs (e @ ''/'' @ fname) = No_entry" using Cons.IH by blast
    then show ?thesis using No_entry by (intro exI [of _ "d # pre"] exI [of _ d'] exI [of _ post]) auto
  next
    case Fopen_error
    then show ?thesis using Cons.prems by (auto simp: wrapped_fopen_def Let_def split: if_splits)
  qed
qed simp

end
