(* ===== verification/Ucc_Preproc.thy ===== *)
theory Ucc_Preproc
  imports Ucc_Directive Ucc_Include Ucc_Path
begin

text \<open>
  The preprocessor's main loop, \<^verbatim>\<open>src/cpp2/preproc.c\<close>: the stack of open files, trigraphs and
  digraphs, the splicing of lines, the state machine that takes out comments, the dispatch of
  a line, and \<^verbatim>\<open>handle_include\<close> of \<^verbatim>\<open>src/cpp2/directive.c\<close>.  Files are texts; a file that
  is open is the text that is left to read.
\<close>

section \<open>Trigraphs and digraphs\<close>

definition trigraph_map :: "(char \<times> char) list" where
  "trigraph_map =
     [(CHR ''('', CHR ''[''), (CHR '')'', CHR '']''), (CHR ''<'', CHR ''{''), (CHR ''>'', CHR ''}''),
      (CHR ''='', CHR ''#''), (CHR ''/'', CHR 0x5C), (CHR 0x27, CHR ''^''), (CHR ''!'', CHR ''|''),
      (CHR ''-'', CHR ''~'')]"

text \<open>
  The scan goes on one character behind the first question mark, whether it was replaced or
  not; the two characters behind a replaced one are gone.
\<close>

fun expand_trigraphs :: "string \<Rightarrow> string" where
  "expand_trigraphs (p # q # c # r) =
     (if p = CHR ''?'' \<and> q = CHR ''?'' then
        (case map_of trigraph_map c of
           Some t \<Rightarrow> t # expand_trigraphs r
         | None \<Rightarrow> p # expand_trigraphs (q # c # r))
      else p # expand_trigraphs (q # c # r))"
| "expand_trigraphs s = s"

definition digraph_map :: "(string \<times> char) list" where
  "digraph_map =
     [(''<:'', CHR ''[''), ('':>'', CHR '']''), (''<%'', CHR ''{''), (''%>'', CHR ''}''), (''%:'', CHR ''#'')]"

text \<open>All occurrences of one digraph; no replacement starts a digraph again.\<close>

fun replace_digraph :: "string \<Rightarrow> char \<Rightarrow> string \<Rightarrow> string" where
  "replace_digraph frm t (a # b # r) =
     (if [a, b] = frm then t # replace_digraph frm t r else a # replace_digraph frm t (b # r))"
| "replace_digraph frm t s = s"

definition expand_digraphs :: "string \<Rightarrow> string" where
  "expand_digraphs line = foldl (\<lambda>l (frm, t). replace_digraph frm t l) line digraph_map"

section \<open>Comments\<close>

datatype strip_in_block = NOT_IN_BLOCK | IN_BLOCK_BEGIN | IN_BLOCK_END | IN_BLOCK_FULL

datatype strip_comments = STRIP_ALL | STRIP_EXCEPT_DIRECTIVE | STRIP_NONE

definition in_block :: "strip_in_block \<Rightarrow> bool" where
  "in_block b \<longleftrightarrow> b = IN_BLOCK_FULL \<or> b = IN_BLOCK_BEGIN"

text \<open>
  The loop of \<^verbatim>\<open>strip_comment\<close> from a position on: the text it leaves there and the state at
  the end.  An unclosed quote skips to the end of the line.
\<close>

function strip_loop ::
  "c_std \<Rightarrow> strip_comments \<Rightarrow> bool \<Rightarrow> strip_in_block \<Rightarrow> string \<Rightarrow> (string \<times> strip_in_block) outcome" where
  "strip_loop std mode is_directive b s =
     (case s of
        [] \<Rightarrow> Inr ([], b)
      | c # r \<Rightarrow>
        if in_block b then
          let clear_comments = (mode = STRIP_ALL) in
          if c = CHR ''*'' \<and> take 1 r = ''/'' then
            if clear_comments then
              bindE (strip_loop std mode is_directive IN_BLOCK_END (tl r)) (\<lambda>(o', b'). Inr (''  '' @ o', b'))
            else
              bindE (strip_loop std mode is_directive IN_BLOCK_END r) (\<lambda>(o', b'). Inr (c # o', b'))
          else
            bindE (strip_loop std mode is_directive b r) (\<lambda>(o', b').
              Inr ((if clear_comments then CHR '' '' else c) # o', b'))
        else if c = CHR 0x22 \<or> c = CHR 0x27 then
          bindE (str_quotefin2 r c) (\<lambda>e.
            case e of
              None \<Rightarrow> Inr (s, b)
            | Some e' \<Rightarrow>
              bindE (strip_loop std mode is_directive b (tl e')) (\<lambda>(o', b').
                Inr (c # take (length r - length e' + 1) r @ o', b')))
        else if c = CHR ''/'' \<and> STD_C99 \<le> std \<and> take 1 r = ''/'' then
          (if mode = STRIP_ALL \<or> mode = STRIP_EXCEPT_DIRECTIVE \<and> is_directive then Inr ([], b)
           else Inr (''/*'' @ tl r @ ''*/'', b))
        else if c = CHR ''/'' \<and> take 1 r = ''*'' then
          if mode = STRIP_ALL \<or> mode = STRIP_EXCEPT_DIRECTIVE \<and> is_directive then
            bindE (strip_loop std mode is_directive IN_BLOCK_BEGIN (tl r)) (\<lambda>(o', b'). Inr (''  '' @ o', b'))
          else
            bindE (strip_loop std mode is_directive IN_BLOCK_BEGIN r) (\<lambda>(o', b'). Inr (c # o', b'))
        else bindE (strip_loop std mode is_directive b r) (\<lambda>(o', b'). Inr (c # o', b')))"
  by pat_completeness auto
termination
  by (relation "measure (\<lambda>(std, mode, d, b, s). length s)")
    (auto dest!: str_quotefin2_suffix simp: less_Suc_eq_le)

declare strip_loop.simps [simp del]

definition strip_start :: "strip_in_block \<Rightarrow> strip_in_block" where
  "strip_start b =
     (if b = IN_BLOCK_BEGIN then IN_BLOCK_FULL else if b = IN_BLOCK_END then NOT_IN_BLOCK else b)"

definition strip_comment ::
  "c_std \<Rightarrow> strip_comments \<Rightarrow> strip_in_block \<Rightarrow> string \<Rightarrow> (string \<times> strip_in_block) outcome" where
  "strip_comment std mode b line =
     strip_loop std mode (take 1 (str_spc_skip line) = ''#'') (strip_start b) line"

section \<open>The stack of files\<close>

record file_stack_ent =
  fs_file :: string
  fs_fname :: string
  fs_line_no :: int
  fs_is_sysh :: bool


text \<open>The options, the search path, and the files of the system.\<close>

record pconf =
  option_trigraphs :: bool
  option_digraphs :: bool
  strip_mode :: strip_comments
  missing_header_error :: bool
  line_info :: bool
  rounds :: nat
  fs :: "string \<Rightarrow> fopen_result"
  dirs :: include_dirs

text \<open>
  The state: \<open>files\<close> is \<^verbatim>\<open>file_stack\<close> up to \<^verbatim>\<open>file_stack_idx\<close>, the current file last.  The
  current line and file name are part of \<open>ds\<close>.
\<close>

record pstate =
  files :: "file_stack_ent list"
  cd_stack :: "string list"
  strip_block :: strip_in_block
  n_nls :: nat
  depset :: depset
  ds :: dstate

definition dconf_of :: "pconf \<Rightarrow> pstate \<Rightarrow> dconf" where
  "dconf_of pc ps =
     \<lparr>option_line_info = line_info pc, in_include = length (files ps) > 1,
      include_exists = (\<lambda>fname angle.
        if cd_stack ps = [] then Inl Null_deref
        else bindE (include_fopen (fs pc) (dirs pc) (last (cd_stack ps)) fname angle) (\<lambda>r. Inr (r \<noteq> None))),
      fuel = rounds pc\<rparr>"

definition set_cpp :: "string \<Rightarrow> int \<Rightarrow> pstate \<Rightarrow> pstate" where
  "set_cpp fname line ps =
     ps\<lparr>ds := (ds ps)\<lparr>cpp := (cpp (ds ps))\<lparr>current_fname := fname, current_line := line\<rparr>\<rparr>\<rparr>"

definition preproc_emit_line_info_top :: "pconf \<Rightarrow> u32 \<Rightarrow> pstate \<Rightarrow> pstate" where
  "preproc_emit_line_info_top pc bits ps =
     (let top = last (files ps) in
      ps\<lparr>ds := preproc_emit_line_info (dconf_of pc ps) (fs_line_no top) (fs_fname top)
                (bits OR (if fs_is_sysh top then LINEINFO_SYSHEADER else 0)) (ds ps)\<rparr>)"

definition FILE_STACK_SIZE :: nat where "FILE_STACK_SIZE = 64"

definition preproc_push :: "pconf \<Rightarrow> string \<Rightarrow> string \<Rightarrow> bool \<Rightarrow> pstate \<Rightarrow> pstate outcome" where
  "preproc_push pc f fname is_sysh ps =
     (let saved = (if files ps = [] then []
                   else butlast (files ps) @ [(last (files ps))\<lparr>fs_line_no := current_line (cpp (ds ps))\<rparr>]) in
      if length saved = FILE_STACK_SIZE then Inl (Died ''too many includes'')
      else
        let ps1 = set_cpp fname 1 (ps\<lparr>files := saved @ [\<lparr>fs_file = f, fs_fname = fname, fs_line_no = 1,
                                                        fs_is_sysh = is_sysh\<rparr>]\<rparr>) in
        Inr (preproc_emit_line_info_top pc LINEINFO_START_OF_FILE ps1))"

definition preproc_pop :: "pconf \<Rightarrow> pstate \<Rightarrow> pstate outcome" where
  "preproc_pop pc ps =
     (if length (files ps) \<le> 1 then Inl (Ice ''file stack idx = 0 on pop()'')
      else
        let rest = butlast (files ps); top = last rest in
        Inr (preproc_emit_line_info_top pc LINEINFO_RETURN_TO_FILE
               (set_cpp (fs_fname top) (fs_line_no top) (ps\<lparr>files := rest\<rparr>))))"

text \<open>
  \<^verbatim>\<open>read_line\<close>: at the end of an included file it goes back to the file that included it.
\<close>

lemma preproc_pop_files: "preproc_pop pc ps = Inr ps' \<Longrightarrow> files ps' = butlast (files ps) \<and> length (files ps) > 1"
  by (auto simp: preproc_pop_def preproc_emit_line_info_top_def set_cpp_def Let_def split: if_splits)

function read_line :: "pconf \<Rightarrow> pstate \<Rightarrow> (string option \<times> pstate) outcome" where
  "read_line pc ps =
     (if files ps = [] then Inl (Ice ''file stack idx = 0 on read()'')
      else
        case fline (fs_file (last (files ps))) of
          Some (line, newline, rest) \<Rightarrow>
            let ps1 = ps\<lparr>files := butlast (files ps) @ [(last (files ps))\<lparr>fs_file := rest\<rparr>]\<rparr> in
            Inr (Some line, set_cpp (current_fname (cpp (ds ps))) (current_line (cpp (ds ps)) + 1) ps1)
        | None \<Rightarrow>
            if length (files ps) > 1 then
              bindE (preproc_pop pc (ps\<lparr>cd_stack := butlast (cd_stack ps)\<rparr>)) (\<lambda>ps1. read_line pc ps1)
            else Inr (None, ps))"
  by pat_completeness auto
termination
  by (relation "measure (\<lambda>(pc, ps). length (files ps))") (auto dest: preproc_pop_files)

declare read_line.simps [simp del]

text \<open>The text that is left to read bounds the number of lines that can be spliced.\<close>

definition text_left :: "pstate \<Rightarrow> nat" where
  "text_left ps = sum_list (map (length \<circ> fs_file) (files ps))"

lemma fline_shorter: "fline f = Some (line, nl, rest) \<Longrightarrow> length rest < length f"
  using length_dropWhile_le [of "\<lambda>c. c \<noteq> CHR 0x0A" f]
  by (cases f) (auto simp: fline_def Let_def split: if_splits)

lemma sum_butlast: "xs \<noteq> [] \<Longrightarrow> sum_list (map g xs) = sum_list (map g (butlast xs)) + (g (last xs) :: nat)"
  by (cases xs rule: rev_cases) auto

lemma read_line_shorter:
  "read_line pc ps = Inr (Some line, ps') \<Longrightarrow> text_left ps' < text_left ps"
proof (induction pc ps rule: read_line.induct)
  case (1 pc ps)
  note eq = "1.prems" [unfolded read_line.simps [of pc ps]]
  then have ne: "files ps \<noteq> []" by auto
  show ?case
  proof (cases "fline (fs_file (last (files ps)))")
    case None
    then obtain ps1 where ps1: "length (files ps) > 1" "preproc_pop pc (ps\<lparr>cd_stack := butlast (cd_stack ps)\<rparr>) = Inr ps1"
      "read_line pc ps1 = Inr (Some line, ps')"
      using eq ne by (auto split: if_splits elim!: bindE_InrE)
    have "text_left ps' < text_left ps1" using "1.IH" [OF ne None ps1] .
    moreover have "text_left ps1 \<le> text_left ps"
      using preproc_pop_files [OF ps1(2)] sum_butlast [OF ne, of "length \<circ> fs_file"] by (simp add: text_left_def)
    ultimately show ?thesis by simp
  next
    case (Some x)
    obtain l nl rest where x: "x = (l, nl, rest)" by (cases x) auto
    then have "text_left ps' = sum_list (map (length \<circ> fs_file) (butlast (files ps))) + length rest"
      using eq ne Some by (auto simp: text_left_def set_cpp_def Let_def)
    then show ?thesis
      using sum_butlast [OF ne, of "length \<circ> fs_file"] fline_shorter [OF Some [unfolded x]]
      by (simp add: text_left_def)
  qed
qed

text \<open>
  \<^verbatim>\<open>splice_lines\<close>: the line, \<^verbatim>\<open>*peof\<close>, and the state.  \<open>splice_at line\<close> is the position of a
  backslash with nothing but white space behind it.
\<close>

definition splice_at :: "string \<Rightarrow> nat option" where
  "splice_at line =
     (case strrchr line (CHR 0x5C) of
        None \<Rightarrow> None
      | Some i \<Rightarrow> if str_spc_skip (drop (i + 1) line) = [] then Some i else None)"

function splice_lines :: "pconf \<Rightarrow> pstate \<Rightarrow> (string option \<times> bool \<times> pstate) outcome" where
  "splice_lines pc ps =
     (if n_nls ps > 0 then Inr (Some [], False, ps\<lparr>n_nls := n_nls ps - 1\<rparr>)
      else
        bindE (read_line pc ps) (\<lambda>(r, ps1).
          case r of
            None \<Rightarrow> Inr (None, True, ps1)
          | Some l \<Rightarrow>
            let line = (if option_trigraphs pc then expand_trigraphs l else l) in
            case splice_at line of
              None \<Rightarrow> Inr (Some line, False, ps1)
            | Some i \<Rightarrow>
              bindE (splice_lines pc ps1) (\<lambda>(next, eof, ps2).
                case next of
                  Some n \<Rightarrow> Inr (Some (take i line @ n), eof, ps2\<lparr>n_nls := n_nls ps2 + 1\<rparr>)
                | None \<Rightarrow> Inr (Some (take i line), True, ps2))))"
  by pat_completeness auto
termination
  by (relation "measure (\<lambda>(pc, ps). text_left ps)") (auto dest: read_line_shorter)

declare splice_lines.simps [simp del]

section \<open>A line\<close>

definition handle_include :: "pconf \<Rightarrow> string \<Rightarrow> pstate \<Rightarrow> pstate outcome" where
  "handle_include pc include_arg ps =
     bindE (include_parse (dconf_of pc ps) (cpp (ds ps)) include_arg (mst (ds ps))) (\<lambda>((fname, is_angle), ms).
     let ps1 = ps\<lparr>ds := (ds ps)\<lparr>mst := ms\<rparr>\<rparr> in
     if cd_stack ps = [] then Inl Null_deref
     else
       bindE (include_fopen (fs pc) (dirs pc) (last (cd_stack ps)) fname is_angle) (\<lambda>r.
         case r of
           None \<Rightarrow>
             if missing_header_error pc then Inl (Died ''can't find include file'')
             else bindE (deps_add (depset ps1) fname) (\<lambda>d. Inr (ps1\<lparr>depset := d\<rparr>))
         | Some (final_path, is_sysh, f) \<Rightarrow>
             bindE (canonicalise_path final_path) (\<lambda>path.
             bindE (if \<not> is_angle then deps_add (depset ps1) path else Inr (depset ps1)) (\<lambda>d.
             bindE (preproc_push pc f path is_sysh (ps1\<lparr>depset := d\<rparr>)) (\<lambda>ps2.
               Inr (ps2\<lparr>cd_stack := cd_stack ps2 @ [udirname path]\<rparr>))))))"

text \<open>\<^verbatim>\<open>filter_macros\<close>; a directive leaves no line to print.\<close>

definition filter_macros :: "pconf \<Rightarrow> string \<Rightarrow> pstate \<Rightarrow> (string option \<times> pstate) outcome" where
  "filter_macros pc line ps =
     (if take 1 (str_spc_skip line) = ''#'' then
        bindE (parse_directive (dconf_of pc ps) (tl (str_spc_skip line)) (ds ps)) (\<lambda>(st, inc).
          case inc of
            None \<Rightarrow> Inr (None, ps\<lparr>ds := st\<rparr>)
          | Some arg \<Rightarrow> bindE (handle_include pc arg (ps\<lparr>ds := st\<rparr>)) (\<lambda>ps'. Inr (None, ps')))
      else if parse_should_noop (ds ps) then Inr (Some [], ps)
      else
        bindE (eval_expand_macros (rounds pc) (cpp (ds ps)) line (mst (ds ps))) (\<lambda>(l, ms).
          Inr (Some l, ps\<lparr>ds := (ds ps)\<lparr>mst := ms\<rparr>\<rparr>)))"

definition puts :: "string option \<Rightarrow> pstate \<Rightarrow> pstate" where
  "puts line ps =
     (case line of
        None \<Rightarrow> ps
      | Some l \<Rightarrow> if no_output (ds ps) then ps else ps\<lparr>ds := emit l (ds ps)\<rparr>)"

text \<open>The body of the loop of \<^verbatim>\<open>preprocess\<close> for one spliced line.\<close>

definition preproc_line :: "pconf \<Rightarrow> string \<Rightarrow> pstate \<Rightarrow> pstate outcome" where
  "preproc_line pc line0 ps =
     (let line = (if option_digraphs pc then expand_digraphs line0 else line0) in
      bindE (strip_comment (cpp_std (cpp (ds ps))) (strip_mode pc) (strip_block ps) line) (\<lambda>(line1, b).
      let ps1 = ps\<lparr>strip_block := b\<rparr> in
      bindE (if b = IN_BLOCK_FULL then Inr (Some line1, ps1) else filter_macros pc line1 ps1) (\<lambda>(out, ps2).
        Inr (puts out ps2))))"

primrec preprocess_loop :: "nat \<Rightarrow> pconf \<Rightarrow> pstate \<Rightarrow> pstate outcome" where
  "preprocess_loop 0 pc ps = Inl Out_of_fuel"
| "preprocess_loop (Suc n) pc ps =
     bindE (splice_lines pc ps) (\<lambda>(r, eof, ps1).
       case r of
         None \<Rightarrow> Inr ps1
       | Some line \<Rightarrow>
         bindE (preproc_line pc line ps1) (\<lambda>ps2. if eof then Inr ps2 else preprocess_loop n pc ps2))"

definition preprocess :: "nat \<Rightarrow> pconf \<Rightarrow> string \<Rightarrow> pstate \<Rightarrow> pstate outcome" where
  "preprocess n pc input ps =
     bindE (preproc_push pc input (current_fname (cpp (ds ps))) False ps) (\<lambda>ps1.
     bindE (preprocess_loop n pc ps1) (\<lambda>ps2.
       if in_block (strip_block ps2) then Inl (Died ''no terminating block comment'')
       else bindE (parse_end_validate (ds ps2)) (\<lambda>_. Inr ps2)))"

section \<open>What stripping comments does\<close>

text \<open>The closing quote does not depend on what follows it.\<close>

lemma str_quotefin2_prefix:
  "str_quotefin2 r q = Inr (Some e) \<Longrightarrow>
   \<exists>p u. r = p @ q # u \<and> e = q # u \<and> (\<forall>v. str_quotefin2 (p @ q # v) q = Inr (Some (q # v)))"
proof (induction r q rule: str_quotefin2.induct)
  case (2 c s q)
  show ?case
  proof (cases "c = CHR 0x5C")
    case True
    then obtain d s' where s: "s = d # s'" using "2.prems" by (cases s) auto
    then obtain p u where "s' = p @ q # u" "e = q # u" "\<forall>v. str_quotefin2 (p @ q # v) q = Inr (Some (q # v))"
      using True "2.IH"(1) [OF True s] "2.prems" by auto
    then show ?thesis using True s by (intro exI [of _ "c # d # p"] exI [of _ u]) simp
  next
    case False
    show ?thesis
    proof (cases "c = q")
      case True
      then show ?thesis using False "2.prems" by (intro exI [of _ "[]"] exI [of _ s]) auto
    next
      case cq: False
      then obtain p u where "s = p @ q # u" "e = q # u" "\<forall>v. str_quotefin2 (p @ q # v) q = Inr (Some (q # v))"
        using False "2.IH"(2) [OF False cq] "2.prems" by auto
      then show ?thesis using False cq by (intro exI [of _ "c # p"] exI [of _ u]) simp
    qed
  qed
qed simp

text \<open>
  The five ways a round goes with \<^verbatim>\<open>STRIP_ALL\<close>, as rules for what is left of the text.
\<close>

inductive stripped :: "c_std \<Rightarrow> bool \<Rightarrow> string \<Rightarrow> string \<Rightarrow> bool" for std where
  nil: "stripped std b [] []"
| block: "stripped std True r o' \<Longrightarrow> stripped std True (c # r) (CHR '' '' # o')"
| close: "stripped std False r o' \<Longrightarrow> stripped std True (c # d # r) (CHR '' '' # CHR '' '' # o')"
| unclosed: "c = CHR 0x22 \<or> c = CHR 0x27 \<Longrightarrow> str_quotefin2 r c = Inr None \<Longrightarrow> stripped std False (c # r) (c # r)"
| quote: "c = CHR 0x22 \<or> c = CHR 0x27 \<Longrightarrow> stripped std False u o' \<Longrightarrow>
    (\<forall>v. str_quotefin2 (p @ c # v) c = Inr (Some (c # v))) \<Longrightarrow>
    stripped std False (c # p @ c # u) (c # p @ c # o')"
| cut: "stripped std False r []"
| start: "stripped std True r o' \<Longrightarrow> stripped std False (CHR ''/'' # CHR ''*'' # r) (CHR '' '' # CHR '' '' # o')"
| keep: "stripped std False r o' \<Longrightarrow> c \<noteq> CHR 0x22 \<Longrightarrow> c \<noteq> CHR 0x27 \<Longrightarrow>
    \<not> (c = CHR ''/'' \<and> STD_C99 \<le> std \<and> take 1 r = ''/'') \<Longrightarrow> \<not> (c = CHR ''/'' \<and> take 1 r = ''*'') \<Longrightarrow>
    stripped std False (c # r) (c # o')"

lemma take_1_eq: "take (Suc 0) r = [d] \<longleftrightarrow> (\<exists>r'. r = d # r')"
  by (cases r) auto

lemma strip_loop_stripped:
  "strip_loop std STRIP_ALL d b s = Inr (o', b') \<Longrightarrow> stripped std (in_block b) s o'"
proof (induction s arbitrary: b o' b' rule: length_induct)
  case (1 s)
  note eq = "1.prems" [unfolded strip_loop.simps [of std STRIP_ALL d b s]]
  have IH: "stripped std (in_block b2) t o2"
    if "length t < length s" "strip_loop std STRIP_ALL d b2 t = Inr (o2, b3)" for t b2 o2 b3
    using "1.IH" that by blast
  show ?case
  proof (cases s)
    case Nil
    then show ?thesis using eq by (simp add: stripped.nil)
  next
    case (Cons c r)
    show ?thesis
    proof (cases "in_block b")
      case True
      then show ?thesis using eq Cons
        by (auto simp: bindE_eq_Inr take_1_eq in_block_def [of IN_BLOCK_END] split: if_split_asm
            dest!: IH [rotated] intro: stripped.intros)
    next
      case False
      consider (q) "c = CHR 0x22 \<or> c = CHR 0x27" | (n) "\<not> (c = CHR 0x22 \<or> c = CHR 0x27)" by blast
      then show ?thesis
      proof cases
        case q
        show ?thesis
        proof (cases "str_quotefin2 r c")
          case (Inl e)
          then show ?thesis using eq Cons False q by simp
        next
          case (Inr e)
          show ?thesis
          proof (cases e)
            case None
            then show ?thesis using eq Cons False q Inr by (auto intro: stripped.unclosed)
          next
            case (Some e')
            obtain p u where pu: "r = p @ c # u" "e' = c # u" "\<forall>v. str_quotefin2 (p @ c # v) c = Inr (Some (c # v))"
              using str_quotefin2_prefix [of r c e'] Inr Some by auto
            then obtain o2 b2 where "strip_loop std STRIP_ALL d b u = Inr (o2, b2)" "o' = c # p @ c # o2"
              using eq Cons False q Inr Some by (auto simp: bindE_eq_Inr)
            then show ?thesis using IH [of u b o2 b2] False q pu Cons by (auto intro: stripped.quote)
          qed
        qed
      next
        case n
        then show ?thesis using eq Cons False
          by (auto simp: bindE_eq_Inr take_1_eq in_block_def [of IN_BLOCK_BEGIN] split: if_split_asm
              dest!: IH [rotated] intro: stripped.intros)
      qed
    qed
  qed
qed


lemma stripped_columns:
  "stripped std b s o' \<Longrightarrow> length o' \<le> length s \<and> (\<forall>i < length o'. o' ! i = s ! i \<or> o' ! i = CHR '' '')"
proof (induction rule: stripped.induct)
  case (quote c u o' p)
  then show ?case by (auto simp: nth_Cons nth_append less_Suc_eq_le split: nat.split)
qed (auto simp: nth_Cons less_Suc_eq_0_disj split: nat.split)

lemma stripped_hd: "stripped std b s o' \<Longrightarrow> take 1 o' = [] \<or> take 1 o' = take 1 s \<or> take 1 o' = '' ''"
  by (induction rule: stripped.induct) auto

text \<open>Stripped text holds no comment: stripping it again changes nothing.\<close>

lemma strip_again:
  "stripped std bl s o' \<Longrightarrow> \<not> in_block b \<Longrightarrow> strip_loop std STRIP_ALL d b o' = Inr (o', b)"
proof (induction rule: stripped.induct)
  case (quote c u o' p)
  then show ?case by (subst strip_loop.simps) auto
next
  case (keep r o' c)
  then have "take 1 o' \<noteq> ''/'' \<or> take 1 r = ''/''" "take 1 o' \<noteq> ''*'' \<or> take 1 r = ''*''"
    using stripped_hd [OF keep(1)] by auto
  then show ?case using keep by (subst strip_loop.simps) auto
qed (simp_all add: strip_loop.simps)

text \<open>
  With \<^verbatim>\<open>STRIP_ALL\<close>, stripping the comments of a line keeps every character that stays in its
  column: the result is no longer than the line, and differs from it only by spaces.
\<close>

theorem strip_comment_columns:
  assumes "strip_comment std STRIP_ALL b line = Inr (out, b')"
  shows "length out \<le> length line \<and> (\<forall>i < length out. out ! i = line ! i \<or> out ! i = CHR '' '')"
  using assms by (auto simp: strip_comment_def dest!: strip_loop_stripped stripped_columns)

theorem strip_comment_columns_witness:
  "length ''a    b'' \<le> length ''a/**/b'' \<and> ''a    b'' ! 1 = CHR '' ''"
  using strip_comment_columns [of STD_C99 NOT_IN_BLOCK "''a/**/b''" "''a    b''" IN_BLOCK_END]
  by (simp add: strip_comment_def strip_loop.simps strip_start_def in_block_def)



text \<open>
  Without \<^verbatim>\<open>STRIP_ALL\<close> the opening \<^verbatim>\<open>/*\<close> is not stepped over: in \<^verbatim>\<open>/*/\<close> its star closes the
  comment again, and the slash that ends a comment is read once more, so that a comment that
  follows directly is taken for a line comment.
\<close>

lemma strip_none_short_comment:
  "strip_comment STD_C99 STRIP_NONE NOT_IN_BLOCK ''/*/ x'' = Inr (''/*/ x'', IN_BLOCK_END)"
  by code_simp

lemma strip_none_adjacent_comments:
  "strip_comment STD_C99 STRIP_NONE NOT_IN_BLOCK ''/*a*//*b*/'' = Inr (''/*a*/**b*/*/'', IN_BLOCK_END)"
  by code_simp

text \<open>Digraphs are replaced inside of string literals too.\<close>

lemma digraph_in_string: "expand_digraphs ([CHR 0x22] @ ''<:'' @ [CHR 0x22]) = [CHR 0x22] @ ''['' @ [CHR 0x22]"
  by code_simp

end
