(* ===== verification/Ucc_Groups.thy ===== *)
theory Ucc_Groups
  imports Ucc_Preproc
begin

text \<open>
  The conditionals of the preprocessor select the groups that C selects.  A text with properly
  nested conditionals is a tree; its meaning processes the lines of the selected groups only.
  The stack machine of \<^verbatim>\<open>src/cpp2/directive.c\<close>, run over the lines of the tree, computes that
  meaning, provided that the groups it skips hold no condition it looks at nevertheless.
\<close>

section \<open>Conditional groups\<close>

text \<open>
  A sequence of lines with properly nested conditionals: text, a directive that is no
  conditional, or a conditional with its lines.
\<close>

datatype items =
    Done
  | Plain string items
  | Direct string items
  | Cond string items rest items
and rest =
    Endif string
  | Else string items string
  | Elif string items rest

primrec lines :: "items \<Rightarrow> string list" and rlines :: "rest \<Rightarrow> string list" where
  "lines Done = []"
| "lines (Plain s r) = s # lines r"
| "lines (Direct l r) = l # lines r"
| "lines (Cond l b e r) = l # lines b @ rlines e @ lines r"
| "rlines (Endif l) = [l]"
| "rlines (Else l b e) = l # lines b @ [e]"
| "rlines (Elif l b k) = l # lines b @ rlines k"

primrec depth :: "items \<Rightarrow> nat" and rdepth :: "rest \<Rightarrow> nat" where
  "depth Done = 0"
| "depth (Plain s r) = depth r"
| "depth (Direct l r) = depth r"
| "depth (Cond l b e r) = max (Suc (max (depth b) (rdepth e))) (depth r)"
| "rdepth (Endif l) = 0"
| "rdepth (Else l b e) = depth b"
| "rdepth (Elif l b k) = max (depth b) (rdepth k)"

text \<open>
  The word and the tokens of a directive line that is neither a line directive nor an
  include.
\<close>

definition dir_line :: "string \<Rightarrow> (string \<times> bool \<times> token list) option" where
  "dir_line l =
     (if take 1 (str_spc_skip l) = ''#'' then
        let d = tl (str_spc_skip l); s = str_spc_skip d in
        if s = [] \<or> \<not> isalpha (hd s) \<or> take 4 s = ''line'' \<or> take (length s - length (word_end s)) s = ''include''
        then None
        else
          case tokenise d of
            Inr (t # ts) \<Rightarrow>
              if tk_tok t = TOKEN_WORD \<and> list_all (\<lambda>t. tk_w t \<noteq> None \<or> tk_tok t \<noteq> TOKEN_WORD) ts
              then map_option (\<lambda>w. (w, tk_ws t, ts)) (tk_w t) else None
          | _ \<Rightarrow> None
      else None)"

definition dir_is :: "string \<Rightarrow> string list \<Rightarrow> bool" where
  "dir_is l ws = (case dir_line l of None \<Rightarrow> False | Some (w, _, ts) \<Rightarrow> w \<in> set ws)"

abbreviation if_words :: "string list" where "if_words \<equiv> [''ifdef'', ''ifndef'', ''if'']"

abbreviation cond_words :: "string list" where
  "cond_words \<equiv> [''ifdef'', ''ifndef'', ''if'', ''elif'', ''else'', ''endif'']"

primrec well_formed :: "items \<Rightarrow> bool" and rest_well_formed :: "rest \<Rightarrow> bool" where
  "well_formed Done = True"
| "well_formed (Plain s r) = (take 1 (str_spc_skip s) \<noteq> ''#'' \<and> well_formed r)"
| "well_formed (Direct l r) = (dir_line l \<noteq> None \<and> \<not> dir_is l cond_words \<and> well_formed r)"
| "well_formed (Cond l b e r) = (dir_is l if_words \<and> well_formed b \<and> rest_well_formed e \<and> well_formed r)"
| "rest_well_formed (Endif l) = dir_is l [''endif'']"
| "rest_well_formed (Else l b e) = (dir_is l [''else''] \<and> well_formed b \<and> dir_is e [''endif''])"
| "rest_well_formed (Elif l b k) = (dir_is l [''elif''] \<and> well_formed b \<and> rest_well_formed k)"

definition dir_tokens :: "string \<Rightarrow> token list" where
  "dir_tokens l = (case dir_line l of None \<Rightarrow> [] | Some (_, _, ts) \<Rightarrow> ts)"

text \<open>
  What C says: of a conditional, the first group whose condition holds is processed, and
  nothing happens for the lines of the others; the conditions behind the selected group are
  not evaluated.  Each line that is not text of a selected group leaves an empty line.
\<close>

definition put_line :: "string \<Rightarrow> dstate \<Rightarrow> dstate" where
  "put_line l st = (if no_output st then st else emit l st)"

definition text_line :: "dconf \<Rightarrow> string \<Rightarrow> dstate \<Rightarrow> dstate outcome" where
  "text_line cf l st =
     bindE (eval_expand_macros (fuel cf) (cpp st) l (mst st)) (\<lambda>(s, ms). Inr (put_line s (st\<lparr>mst := ms\<rparr>)))"

definition cond_value :: "dconf \<Rightarrow> string \<Rightarrow> dstate \<Rightarrow> (bool \<times> dstate) outcome" where
  "cond_value cf l st =
     (if dir_is l [''ifdef''] then
        bindE (SINGLE_TOKEN (dir_tokens l)) (\<lambda>w. Inr (macro_find (macros (mst st)) w \<noteq> None, st))
      else if dir_is l [''ifndef''] then
        bindE (SINGLE_TOKEN (dir_tokens l)) (\<lambda>w. Inr (macro_find (macros (mst st)) w = None, st))
      else if_eval cf (dir_tokens l) st)"

definition direct_line :: "dconf \<Rightarrow> string \<Rightarrow> dstate \<Rightarrow> dstate outcome" where
  "direct_line cf l st =
     (case dir_line l of
        None \<Rightarrow> Inr st
      | Some (w, ws, ts) \<Rightarrow> directive_dispatch cf (\<lparr>tk_tok = TOKEN_WORD, tk_w = Some w, tk_ws = ws\<rparr> # ts) st)"

definition blanks :: "nat \<Rightarrow> dstate \<Rightarrow> dstate" where
  "blanks n st = (directive_sync ^^ n) st"

primrec selected :: "dconf \<Rightarrow> items \<Rightarrow> dstate \<Rightarrow> dstate outcome"
  and rest_selected :: "dconf \<Rightarrow> rest \<Rightarrow> dstate \<Rightarrow> dstate outcome" where
  "selected cf Done = Inr"
| "selected cf (Plain s r) = (\<lambda>st. bindE (text_line cf s st) (selected cf r))"
| "selected cf (Direct l r) = (\<lambda>st. bindE (direct_line cf l st) (selected cf r))"
| "selected cf (Cond l b e r) = (\<lambda>st.
     bindE (cond_value cf l (blanks 1 st)) (\<lambda>(v, st1).
     bindE (if v then bindE (selected cf b st1) (\<lambda>st2. Inr (blanks (length (rlines e)) st2))
            else rest_selected cf e (blanks (length (lines b)) st1)) (selected cf r)))"
| "rest_selected cf (Endif l) = (\<lambda>st. Inr (blanks 1 st))"
| "rest_selected cf (Else l b e) = (\<lambda>st. bindE (selected cf b (blanks 1 st)) (\<lambda>st1. Inr (blanks 1 st1)))"
| "rest_selected cf (Elif l b k) = (\<lambda>st.
     bindE (if_eval cf (dir_tokens l) (blanks 1 st)) (\<lambda>(v, st1).
       if v then bindE (selected cf b st1) (\<lambda>st2. Inr (blanks (length (rlines k)) st2))
       else rest_selected cf k (blanks (length (lines b)) st1)))"

text \<open>
  Groups the program skips without looking at a condition: it evaluates the \<^verbatim>\<open>#elif\<close> of a
  conditional inside a skipped group, and the \<^verbatim>\<open>#if\<close> inside an inner \<^verbatim>\<open>#else\<close> or a taken
  \<^verbatim>\<open>#ifdef\<close> there, because \<^verbatim>\<open>noop\<close> is off then (\<open>nz\<close> is \<^verbatim>\<open>noop\<close>).
\<close>

primrec skippable :: "bool \<Rightarrow> items \<Rightarrow> bool" and rest_skippable :: "rest \<Rightarrow> bool" where
  "skippable nz Done = True"
| "skippable nz (Plain s r) = skippable nz r"
| "skippable nz (Direct l r) = skippable nz r"
| "skippable nz (Cond l b e r) =
     ((if dir_is l [''if''] then nz else \<not> isl (SINGLE_TOKEN (dir_tokens l)))
      \<and> skippable nz b \<and> rest_skippable e \<and> skippable nz r)"
| "rest_skippable (Endif l) = True"
| "rest_skippable (Else l b e) = skippable False b"
| "rest_skippable (Elif l b k) = False"

primrec groups_ok :: "items \<Rightarrow> bool" and rest_groups_ok :: "rest \<Rightarrow> bool" where
  "groups_ok Done = True"
| "groups_ok (Plain s r) = groups_ok r"
| "groups_ok (Direct l r) = groups_ok r"
| "groups_ok (Cond l b e r) = (groups_ok b \<and> skippable True b \<and> rest_groups_ok e \<and> groups_ok r)"
| "rest_groups_ok (Endif l) = True"
| "rest_groups_ok (Else l b e) = (groups_ok b \<and> skippable True b)"
| "rest_groups_ok (Elif l b k) = (groups_ok b \<and> skippable True b \<and> rest_groups_ok k)"

text \<open>The lines through the program, on the state of the directives and on all of it.\<close>

definition group_line :: "dconf \<Rightarrow> string \<Rightarrow> dstate \<Rightarrow> dstate outcome" where
  "group_line cf l st =
     (if dir_line l \<noteq> None then direct_line cf l st
      else if parse_should_noop st then Inr (blanks 1 st)
      else text_line cf l st)"

primrec group_lines :: "dconf \<Rightarrow> string list \<Rightarrow> dstate \<Rightarrow> dstate outcome" where
  "group_lines cf [] = Inr"
| "group_lines cf (l # ls) = (\<lambda>st. bindE (group_line cf l st) (group_lines cf ls))"

primrec filter_lines :: "pconf \<Rightarrow> string list \<Rightarrow> pstate \<Rightarrow> pstate outcome" where
  "filter_lines pc [] = Inr"
| "filter_lines pc (l # ls) = (\<lambda>ps.
     bindE (filter_macros pc l ps) (\<lambda>(out, ps'). filter_lines pc ls (puts out ps')))"

lemma group_lines_append: "group_lines cf (xs @ ys) = (\<lambda>st. bindE (group_lines cf xs st) (group_lines cf ys))"
  by (induction xs) (auto simp: bindE_assoc)

section \<open>The steps\<close>

definition inner :: "bool \<Rightarrow> if_elif_state \<Rightarrow> dstate \<Rightarrow> dstate" where
  "inner n c st =
     st\<lparr>if_stack := if_stack st @ [\<lparr>ie_chosen = if_elif_chosen st, ie_noop = noop st\<rparr>],
        noop := n, if_elif_chosen := c\<rparr>"

named_theorems inner_simps \<open>the state inside of a conditional\<close>

lemma inner_sel [simp, inner_simps]:
  "if_stack (inner n c st) = if_stack st @ [\<lparr>ie_chosen = if_elif_chosen st, ie_noop = noop st\<rparr>]"
  "noop (inner n c st) = n" "if_elif_chosen (inner n c st) = c" "mst (inner n c st) = mst st"
  "cpp (inner n c st) = cpp st" "no_output (inner n c st) = no_output st"
  by (simp_all add: inner_def)

lemma inner_upd [simp]:
  "(inner n c st)\<lparr>noop := m\<rparr> = inner m c st" "(inner n c st)\<lparr>if_elif_chosen := d\<rparr> = inner n d st"
  "(inner n c st)\<lparr>mst := ms\<rparr> = inner n c (st\<lparr>mst := ms\<rparr>)"
  "(inner n c st)\<lparr>printed := p\<rparr> = inner n c (st\<lparr>printed := p\<rparr>)"
  "printed (inner n c st) = printed st"
  by (simp_all add: inner_def)

lemma sync_sel [simp]:
  "if_stack (directive_sync st) = if_stack st" "noop (directive_sync st) = noop st"
  "if_elif_chosen (directive_sync st) = if_elif_chosen st" "mst (directive_sync st) = mst st"
  "cpp (directive_sync st) = cpp st" "no_output (directive_sync st) = no_output st"
  "parse_should_noop (directive_sync st) = parse_should_noop st"
  by (simp_all add: directive_sync_def emit_def parse_should_noop_def)

lemma sync_inner: "directive_sync (inner n c st) = inner n c (directive_sync st)"
  by (simp add: directive_sync_def emit_def inner_def)

lemma blanks_0 [simp]: "blanks 0 st = st"
  by (simp add: blanks_def)

lemma blanks_Suc: "blanks (Suc n) st = blanks n (directive_sync st)"
  by (simp add: blanks_def funpow_swap1)

lemma blanks_1: "blanks (Suc 0) st = directive_sync st"
  by (simp add: blanks_Suc)

lemma blanks_add: "blanks m (blanks n st) = blanks (n + m) st"
  by (simp add: blanks_def add.commute [of n] funpow_add)

lemma blanks_sel [simp]:
  "if_stack (blanks n st) = if_stack st" "noop (blanks n st) = noop st"
  "if_elif_chosen (blanks n st) = if_elif_chosen st" "mst (blanks n st) = mst st"
  "cpp (blanks n st) = cpp st" "no_output (blanks n st) = no_output st"
  "parse_should_noop (blanks n st) = parse_should_noop st"
  by (induction n arbitrary: st) (simp_all add: blanks_Suc)

lemma blanks_inner: "blanks k (inner n c st) = inner n c (blanks k st)"
  by (induction k arbitrary: st) (simp_all add: blanks_Suc sync_inner)

lemma should_noop_inner [simp]: "parse_should_noop (inner n c st) \<longleftrightarrow> n \<or> parse_should_noop st"
  by (auto simp: parse_should_noop_def)

lemma if_push_inner:
  "Suc (length (if_stack st)) < N_IFSTACK \<Longrightarrow> if_push b st = Inr (inner (\<not> b) (if b then GOT_TRUTH else NO_TRUTH) st)"
  by (simp add: if_push_def inner_def)

lemma if_pop_inner: "if_pop (inner n c st) = Inr st"
  by (simp add: if_pop_def inner_def)

lemma if_eval_inner:
  "if_eval cf ts (inner n c st) = bindE (if_eval cf ts st) (\<lambda>(b, s). Inr (b, inner n c s))"
  by (auto simp: if_eval_def bindE_assoc intro!: bindE_cong)

lemma if_eval_sel:
  "if_eval cf ts st = Inr (b, s) \<Longrightarrow> if_stack s = if_stack st \<and> noop s = noop st \<and>
     if_elif_chosen s = if_elif_chosen st \<and> no_output s = no_output st"
  by (auto simp: if_eval_def elim!: bindE_InrE)

text \<open>What a conditional directive does, by its word.\<close>

lemma group_line_dir:
  assumes "dir_line l = Some (w, ws, ts)"
  shows "group_line cf l st =
    (if w = ''ifdef'' then handle_ifdef ts (blanks 1 st)
     else if w = ''ifndef'' then handle_ifndef ts (blanks 1 st)
     else if w = ''if'' then handle_if cf ts (blanks 1 st)
     else if w = ''elif'' then handle_elif cf ts (blanks 1 st)
     else if w = ''else'' then handle_else ts (blanks 1 st)
     else if w = ''endif'' then handle_endif ts (blanks 1 st)
     else if parse_should_noop st then Inr (blanks 1 st)
     else direct_line cf l st)"
  using assms by (simp add: group_line_def direct_line_def directive_dispatch_def is_word_def Let_def blanks_1)

lemma dir_line_count: "dir_line l = Some (w, ws, ts) \<Longrightarrow> \<exists>n. tokens_count_skip_spc ts = Inr n"
proof -
  have "list_all (\<lambda>t. tk_w t \<noteq> None \<or> tk_tok t \<noteq> TOKEN_WORD) ts \<Longrightarrow> \<exists>n. tokens_count_skip_spc ts = Inr n" for ts
    by (induction ts) (auto simp: token_is_space_def)
  then show "dir_line l = Some (w, ws, ts) \<Longrightarrow> ?thesis"
    by (auto simp: dir_line_def Let_def split: if_splits sum.splits list.splits)
qed

lemma dir_isE:
  assumes "dir_is l ws"
  obtains w b ts where "dir_line l = Some (w, b, ts)" "w \<in> set ws" "dir_tokens l = ts"
  using assms by (auto simp: dir_is_def dir_tokens_def split: option.splits)

lemma dir_is_line: "dir_line l = Some (w, b, ts) \<Longrightarrow> dir_is l ws \<longleftrightarrow> w \<in> set ws"
  by (simp add: dir_is_def)

lemma endif_line: "dir_is l [''endif''] \<Longrightarrow> group_line cf l (inner n c st) = Inr (blanks 1 st)"
  by (erule dir_isE) (auto simp: group_line_dir handle_endif_def blanks_inner if_pop_inner dest: dir_line_count)

lemma else_line:
  "dir_is l [''else''] \<Longrightarrow> c \<noteq> LAST_ELSE \<Longrightarrow>
   group_line cf l (inner n c st) = Inr (inner (c = GOT_TRUTH) LAST_ELSE (blanks 1 st))"
  by (erule dir_isE, cases c)
    (auto simp: group_line_dir handle_else_def got_else_def blanks_inner dest: dir_line_count)

lemma elif_line_taken:
  "dir_is l [''elif''] \<Longrightarrow> group_line cf l (inner n GOT_TRUTH st) = Inr (inner True GOT_TRUTH (blanks 1 st))"
  by (erule dir_isE) (auto simp: group_line_dir handle_elif_def got_else_def blanks_inner)

lemma elif_line_open:
  "dir_is l [''elif''] \<Longrightarrow> group_line cf l (inner n NO_TRUTH st) =
     bindE (if_eval cf (dir_tokens l) (blanks 1 st)) (\<lambda>(b, s).
       Inr (inner (\<not> b) (if b then GOT_TRUTH else NO_TRUTH) s))"
  by (erule dir_isE)
    (auto simp: group_line_dir handle_elif_def got_else_def blanks_inner if_eval_inner bindE_assoc
      intro!: bindE_cong)

lemma if_line_active:
  assumes "dir_is l if_words" "\<not> parse_should_noop st" "Suc (length (if_stack st)) < N_IFSTACK"
  shows "group_line cf l st =
     bindE (cond_value cf l (blanks 1 st)) (\<lambda>(b, s). Inr (inner (\<not> b) (if b then GOT_TRUTH else NO_TRUTH) s))"
proof -
  have "\<not> noop st" using assms(2) by (simp add: parse_should_noop_def)
  then show ?thesis using assms(1,3)
    by (elim dir_isE)
      (auto simp: group_line_dir handle_ifdef_def handle_ifndef_def handle_somedef_def handle_if_def
        cond_value_def dir_is_line if_push_inner bindE_assoc dest: if_eval_sel intro!: bindE_cong)
qed

lemma if_line_skipped:
  assumes "dir_is l if_words" "parse_should_noop st" "Suc (length (if_stack st)) < N_IFSTACK"
    and "if dir_is l [''if''] then noop st else \<not> isl (SINGLE_TOKEN (dir_tokens l))"
  shows "\<exists>b. (noop st \<longrightarrow> \<not> b) \<and>
    group_line cf l st = Inr (inner (\<not> b) (if b then GOT_TRUTH else NO_TRUTH) (blanks 1 st))"
proof -
  obtain w ws ts where l: "dir_line l = Some (w, ws, ts)" "w \<in> set if_words" "dir_tokens l = ts"
    using assms(1) by (rule dir_isE)
  have push: "if_push b (blanks 1 st) = Inr (inner (\<not> b) (if b then GOT_TRUTH else NO_TRUTH) (blanks 1 st))" for b
    using assms(3) by (simp add: if_push_inner)
  show ?thesis
  proof (cases "w = ''if''")
    case True
    then show ?thesis using l assms(4) push [of False]
      by (intro exI [of _ False]) (simp add: group_line_dir dir_is_line handle_if_def)
  next
    case False
    then obtain n where n: "SINGLE_TOKEN ts = Inr n" using l assms(4)
      by (cases "SINGLE_TOKEN ts") (auto simp: dir_is_line)
    define b where "b = (\<not> noop st \<and> ((w = ''ifndef'') \<noteq> (macro_find (macros (mst st)) n \<noteq> None)))"
    have "group_line cf l st = handle_somedef ts (w = ''ifndef'') (blanks 1 st)"
      using l False by (auto simp: group_line_dir handle_ifdef_def handle_ifndef_def)
    also have "\<dots> = if_push b (blanks 1 st)" by (cases "noop st") (simp_all add: handle_somedef_def n b_def)
    finally show ?thesis using push [of b] b_def by (intro exI [of _ b]) simp
  qed
qed


lemma text_line_noop: "dir_line s = None \<Longrightarrow> parse_should_noop st \<Longrightarrow> group_line cf s st = Inr (blanks 1 st)"
  by (simp add: group_line_def)

lemma direct_line_noop:
  "dir_line l \<noteq> None \<Longrightarrow> \<not> dir_is l cond_words \<Longrightarrow> parse_should_noop st \<Longrightarrow> group_line cf l st = Inr (blanks 1 st)"
  by (auto simp: group_line_dir dir_is_line)

lemma dir_line_plain: "take 1 (str_spc_skip s) \<noteq> ''#'' \<Longrightarrow> dir_line s = None"
  by (simp add: dir_line_def)

lemma skippable_mono: "skippable False b \<Longrightarrow> skippable True b"
  by (induction b rule: items.induct [where ?P2.0 = "\<lambda>_. True"]) (auto split: if_splits)

section \<open>Skipped groups\<close>

lemma skip_groups:
  "well_formed b \<Longrightarrow> skippable (noop st) b \<Longrightarrow> parse_should_noop st \<Longrightarrow>
   length (if_stack st) + depth b < N_IFSTACK - 1 \<Longrightarrow>
   group_lines cf (lines b) st = Inr (blanks (length (lines b)) st)"
  "rest_well_formed e \<Longrightarrow> rest_skippable e \<Longrightarrow> parse_should_noop st' \<Longrightarrow> c \<noteq> LAST_ELSE \<Longrightarrow>
   length (if_stack st') + 1 + rdepth e < N_IFSTACK - 1 \<Longrightarrow>
   group_lines cf (rlines e) (inner n c st') = Inr (blanks (length (rlines e)) st')"
proof (induction b and e arbitrary: st and st' n c)
  case (Plain s r)
  then show ?case by (simp add: text_line_noop dir_line_plain blanks_add)
next
  case (Direct l r)
  then show ?case by (simp add: direct_line_noop blanks_add)
next
  case (Cond l b e r)
  obtain v where v: "noop st \<longrightarrow> \<not> v"
    "group_line cf l st = Inr (inner (\<not> v) (if v then GOT_TRUTH else NO_TRUTH) (blanks 1 st))"
    using if_line_skipped [of l st cf] Cond.prems by (auto simp: N_IFSTACK_def)
  let ?c = "if v then GOT_TRUTH else NO_TRUTH"
  have "skippable (\<not> v) b" using v(1) Cond.prems(2) skippable_mono by (cases "noop st"; cases v) auto
  then have b: "group_lines cf (lines b) (inner (\<not> v) ?c (blanks 1 st)) =
      Inr (inner (\<not> v) ?c (blanks (1 + length (lines b)) st))"
    using Cond.IH(1) [of "inner (\<not> v) ?c (blanks 1 st)"] Cond.prems by (simp add: blanks_inner blanks_add)
  have e: "group_lines cf (rlines e) (inner (\<not> v) ?c (blanks (1 + length (lines b)) st)) =
      Inr (blanks (1 + length (lines b) + length (rlines e)) st)"
    using Cond.IH(2) [of "blanks (1 + length (lines b)) st" ?c "\<not> v"] Cond.prems by (simp add: blanks_add)
  have "group_lines cf (lines r) (blanks (1 + length (lines b) + length (rlines e)) st) =
      Inr (blanks (1 + length (lines b) + length (rlines e) + length (lines r)) st)"
    using Cond.IH(3) [of "blanks (1 + length (lines b) + length (rlines e)) st"] Cond.prems by (simp add: blanks_add)
  with v(2) b e show ?case by (simp add: group_lines_append add.assoc)
next
  case (Else l b e)
  have "group_lines cf (lines b) (inner (c = GOT_TRUTH) LAST_ELSE (blanks 1 st')) =
      Inr (inner (c = GOT_TRUTH) LAST_ELSE (blanks (1 + length (lines b)) st'))"
    using Else.IH [of "inner (c = GOT_TRUTH) LAST_ELSE (blanks 1 st')"] Else.prems skippable_mono
    by (cases "c = GOT_TRUTH") (simp_all add: blanks_inner blanks_add)
  then show ?case using Else.prems by (simp add: else_line endif_line group_lines_append blanks_add)
qed (simp_all add: endif_line)


section \<open>Selected groups\<close>

text \<open>Processing selected lines does not look at the stack of conditionals.\<close>

lemma text_line_inner: "text_line cf s (inner n c st) = bindE (text_line cf s st) (\<lambda>s. Inr (inner n c s))"
  by (auto simp: text_line_def bindE_assoc put_line_def emit_def intro!: bindE_cong)

lemma direct_line_inner:
  assumes "\<not> parse_should_noop st" "\<not> dir_is l cond_words"
  shows "direct_line cf l (inner False c st) = bindE (direct_line cf l st) (\<lambda>s. Inr (inner False c s))"
proof (cases "dir_line l")
  case (Some x)
  obtain w ws ts where x: "x = (w, ws, ts)" by (cases x) auto
  have p: "\<not> parse_should_noop (directive_sync st)" using assms(1) by simp
  have w: "w \<notin> set cond_words" using assms(2) Some x by (simp add: dir_is_line)
  have h: "handle_define cf ts (inner False c s) = bindE (handle_define cf ts s) (\<lambda>s. Inr (inner False c s))"
    "handle_undef ts (inner False c s) = bindE (handle_undef ts s) (\<lambda>s. Inr (inner False c s))"
    "handle_warning ts (inner False c s) = bindE (handle_warning ts s) (\<lambda>s. Inr (inner False c s))"
    "handle_error ts (inner False c s) = bindE (handle_error ts s) (\<lambda>s. Inr (inner False c s))"
    "handle_pragma ts (inner False c s) = bindE (handle_pragma ts s) (\<lambda>s. Inr (inner False c s))"
    if "\<not> parse_should_noop s" for s
    using that
    by (auto simp: handle_define_def handle_undef_def handle_warning_def handle_error_def handle_pragma_def
        with_macros_def emit_def bindE_assoc split: list.split option.split intro!: bindE_cong)
  show ?thesis
    using w p h [OF p] by (simp add: direct_line_def Some x directive_dispatch_def is_word_def Let_def sync_inner)
qed (simp add: direct_line_def)

definition same_ctl :: "dstate \<Rightarrow> dstate \<Rightarrow> bool" where
  "same_ctl st s \<longleftrightarrow> if_stack s = if_stack st \<and> noop s = noop st \<and> if_elif_chosen s = if_elif_chosen st"

lemma same_ctl_refl: "same_ctl st st" and same_ctl_blanks: "same_ctl st (blanks n st)"
  by (simp_all add: same_ctl_def)

lemma same_ctl_trans: "same_ctl a b \<Longrightarrow> same_ctl b c \<Longrightarrow> same_ctl a c"
  by (simp add: same_ctl_def)

lemma same_ctl_noop: "same_ctl a b \<Longrightarrow> parse_should_noop b = parse_should_noop a"
  by (simp add: same_ctl_def parse_should_noop_def)

lemma if_eval_ctl: "if_eval cf ts st = Inr (b, s) \<Longrightarrow> same_ctl st s"
  by (auto simp: same_ctl_def dest: if_eval_sel)

lemma cond_value_ctl: "cond_value cf l st = Inr (b, s) \<Longrightarrow> same_ctl st s"
  by (auto simp: cond_value_def bindE_eq_Inr same_ctl_refl split: if_split_asm dest: if_eval_ctl)

lemma text_line_ctl: "text_line cf l st = Inr s \<Longrightarrow> same_ctl st s"
  by (auto simp: text_line_def put_line_def emit_def same_ctl_def elim!: bindE_InrE split: if_split_asm)

lemma handlers_ctl:
  "handle_define cf ts st = Inr s \<Longrightarrow> same_ctl st s" "handle_undef ts st = Inr s \<Longrightarrow> same_ctl st s"
  "handle_warning ts st = Inr s \<Longrightarrow> same_ctl st s" "handle_error ts st = Inr s \<Longrightarrow> same_ctl st s"
  "handle_pragma ts st = Inr s \<Longrightarrow> same_ctl st s"
  by (auto simp: handle_define_def handle_undef_def handle_warning_def handle_error_def handle_pragma_def
      with_macros_def emit_def same_ctl_def elim!: bindE_InrE split: list.split_asm option.split_asm if_split_asm)

lemma direct_line_ctl:
  assumes "\<not> dir_is l cond_words" "direct_line cf l st = Inr s"
  shows "same_ctl st s"
proof (cases "dir_line l")
  case (Some x)
  obtain w ws ts where x: "x = (w, ws, ts)" by (cases x) auto
  have "w \<notin> set cond_words" using assms(1) Some x by (simp add: dir_is_line)
  then have "same_ctl (directive_sync st) s \<or> s = directive_sync st"
    using assms(2) by (auto simp: direct_line_def Some x directive_dispatch_def is_word_def Let_def
        split: if_split_asm dest: handlers_ctl)
  then show ?thesis using same_ctl_trans [OF same_ctl_blanks [of st 1]] by (auto simp: blanks_1 same_ctl_refl)
qed (use assms in \<open>simp add: direct_line_def same_ctl_refl\<close>)

lemma selected_ctl:
  "well_formed b \<Longrightarrow> selected cf b st = Inr s \<Longrightarrow> same_ctl st s"
  "rest_well_formed e \<Longrightarrow> rest_selected cf e st = Inr s \<Longrightarrow> same_ctl st s"
proof (induction b and e arbitrary: st s and st s)
  case (Plain x r)
  then show ?case by (auto elim!: bindE_InrE dest!: text_line_ctl intro: same_ctl_trans)
next
  case (Direct l r)
  then show ?case by (auto elim!: bindE_InrE dest!: direct_line_ctl intro: same_ctl_trans)
next
  case (Cond l b e r)
  from Cond.prems(2) obtain v s1 s2 where s: "cond_value cf l (blanks 1 st) = Inr (v, s1)"
    "(if v then bindE (selected cf b s1) (\<lambda>st2. Inr (blanks (length (rlines e)) st2))
      else rest_selected cf e (blanks (length (lines b)) s1)) = Inr s2" "selected cf r s2 = Inr s"
    by (auto elim!: bindE_InrE)
  have "same_ctl s1 s2"
  proof (cases v)
    case True
    then show ?thesis using s(2) Cond.IH(1) Cond.prems(1) same_ctl_trans [OF _ same_ctl_blanks]
      by (auto elim!: bindE_InrE)
  next
    case False
    then have "same_ctl (blanks (length (lines b)) s1) s2" using s(2) Cond.IH(2) Cond.prems(1) by simp
    then show ?thesis by (rule same_ctl_trans [OF same_ctl_blanks])
  qed
  then show ?case
    using same_ctl_trans [OF same_ctl_blanks cond_value_ctl [OF s(1)]] Cond.IH(3) [OF _ s(3)] Cond.prems(1)
    by (auto intro: same_ctl_trans)
next
  case (Else l b e)
  then show ?case using same_ctl_trans same_ctl_blanks by (auto elim!: bindE_InrE) blast
next
  case (Elif l b k)
  from Elif.prems(2) obtain v s1 where s: "if_eval cf (dir_tokens l) (blanks 1 st) = Inr (v, s1)"
    "(if v then bindE (selected cf b s1) (\<lambda>st2. Inr (blanks (length (rlines k)) st2))
      else rest_selected cf k (blanks (length (lines b)) s1)) = Inr s"
    by (auto elim!: bindE_InrE)
  have "same_ctl s1 s"
  proof (cases v)
    case True
    then show ?thesis using s(2) Elif.IH(1) Elif.prems(1) same_ctl_trans [OF _ same_ctl_blanks]
      by (auto elim!: bindE_InrE)
  next
    case False
    then have "same_ctl (blanks (length (lines b)) s1) s" using s(2) Elif.IH(2) Elif.prems(1) by simp
    then show ?thesis by (rule same_ctl_trans [OF same_ctl_blanks])
  qed
  then show ?case using same_ctl_trans [OF same_ctl_blanks if_eval_ctl [OF s(1)]] same_ctl_trans by blast
qed (auto simp: same_ctl_refl same_ctl_blanks)

lemma rest_taken:
  "rest_well_formed e \<Longrightarrow> rest_groups_ok e \<Longrightarrow> \<not> parse_should_noop st \<Longrightarrow>
   length (if_stack st) + 1 + rdepth e < N_IFSTACK - 1 \<Longrightarrow>
   group_lines cf (rlines e) (inner n GOT_TRUTH st) = Inr (blanks (length (rlines e)) st)"
proof (induction e arbitrary: st n rule: rest.induct [where ?P1.0 = "\<lambda>_. True"])
  case (Else l b e)
  have "group_lines cf (lines b) (inner True LAST_ELSE (blanks 1 st)) = Inr (inner True LAST_ELSE (blanks (1 + length (lines b)) st))"
    using skip_groups(1) [of b "inner True LAST_ELSE (blanks 1 st)" cf] Else.prems by (simp add: blanks_inner blanks_add)
  then show ?case using Else.prems by (simp add: else_line endif_line group_lines_append blanks_add)
next
  case (Elif l b k)
  have "group_lines cf (lines b) (inner True GOT_TRUTH (blanks 1 st)) = Inr (inner True GOT_TRUTH (blanks (1 + length (lines b)) st))"
    using skip_groups(1) [of b "inner True GOT_TRUTH (blanks 1 st)" cf] Elif.prems by (simp add: blanks_inner blanks_add)
  then show ?case
    using Elif.prems Elif.IH [of "blanks (1 + length (lines b)) st" True]
    by (simp add: elif_line_taken group_lines_append blanks_add)
qed (simp_all add: endif_line)


lemma cond_value_inner:
  "cond_value cf l (inner n c st) = bindE (cond_value cf l st) (\<lambda>(b, s). Inr (b, inner n c s))"
  by (auto simp: cond_value_def if_eval_inner bindE_assoc intro!: bindE_cong)

lemma selected_inner:
  "well_formed b \<Longrightarrow> \<not> parse_should_noop st \<Longrightarrow>
   selected cf b (inner False c st) = bindE (selected cf b st) (\<lambda>s. Inr (inner False c s))"
  "rest_well_formed e \<Longrightarrow> \<not> parse_should_noop st \<Longrightarrow>
   rest_selected cf e (inner False c st) = bindE (rest_selected cf e st) (\<lambda>s. Inr (inner False c s))"
proof (induction b and e arbitrary: st and st)
  case (Plain s r)
  then show ?case
    by (auto simp: text_line_inner bindE_assoc dest!: text_line_ctl same_ctl_noop intro!: bindE_cong)
next
  case (Direct l r)
  then show ?case
    by (auto simp: direct_line_inner bindE_assoc dest!: direct_line_ctl same_ctl_noop intro!: bindE_cong)
next
  case (Cond l b e r)
  have 1: "selected cf b (inner False c s) = bindE (selected cf b s) (\<lambda>s. Inr (inner False c s))"
    and 2: "rest_selected cf e (inner False c s) = bindE (rest_selected cf e s) (\<lambda>s. Inr (inner False c s))"
    and 3: "selected cf r (inner False c s) = bindE (selected cf r s) (\<lambda>s. Inr (inner False c s))"
    if "\<not> parse_should_noop s" for s
    using Cond.IH Cond.prems that by auto
  have ctl: "\<not> parse_should_noop s" if "cond_value cf l (blanks (Suc 0) st) = Inr (v, s)" for v s
    using same_ctl_noop [OF cond_value_ctl [OF that]] Cond.prems by simp
  show ?case
  proof (cases "cond_value cf l (blanks (Suc 0) st)")
    case (Inr x)
    obtain v s where x: "x = (v, s)" by (cases x)
    define body where "body = (if v then bindE (selected cf b s) (\<lambda>st2. Inr (blanks (length (rlines e)) st2))
            else rest_selected cf e (blanks (length (lines b)) s))"
    have s: "\<not> parse_should_noop s" using ctl Inr x by simp
    have "(if v then bindE (selected cf b (inner False c s)) (\<lambda>st2. Inr (blanks (length (rlines e)) st2))
            else rest_selected cf e (blanks (length (lines b)) (inner False c s))) =
          bindE body (\<lambda>s. Inr (inner False c s))"
      using 1 [OF s] 2 [of "blanks (length (lines b)) s"] s
      by (simp add: body_def bindE_assoc blanks_inner)
    moreover have "\<not> parse_should_noop s2" if "body = Inr s2" for s2
    proof (cases v)
      case True
      then show ?thesis using that s Cond.prems(1)
        by (auto simp: body_def elim!: bindE_InrE dest!: selected_ctl(1) [rotated] same_ctl_noop)
    next
      case False
      then show ?thesis using that s Cond.prems(1)
        by (auto simp: body_def dest!: selected_ctl(2) [rotated] same_ctl_noop)
    qed
    ultimately show ?thesis using Inr x 3
      by (simp add: cond_value_inner blanks_inner body_def [symmetric] bindE_assoc cong: bindE_cong)
  qed (simp add: cond_value_inner blanks_inner)
next
  case (Endif l)
  then show ?case by (simp add: blanks_inner)
next
  case (Else l b e)
  then show ?case by (simp add: blanks_inner bindE_assoc)
next
  case (Elif l b k)
  have 1: "selected cf b (inner False c s) = bindE (selected cf b s) (\<lambda>s. Inr (inner False c s))"
    and 2: "rest_selected cf k (inner False c s) = bindE (rest_selected cf k s) (\<lambda>s. Inr (inner False c s))"
    if "\<not> parse_should_noop s" for s
    using Elif.IH Elif.prems that by auto
  show ?case
  proof (cases "if_eval cf (dir_tokens l) (blanks (Suc 0) st)")
    case (Inr x)
    obtain v s where x: "x = (v, s)" by (cases x)
    have s: "\<not> parse_should_noop s" using same_ctl_noop [OF if_eval_ctl] Inr x Elif.prems by fastforce
    show ?thesis using Inr x 1 [OF s] 2 [of "blanks (length (lines b)) s"] s
      by (simp add: if_eval_inner blanks_inner bindE_assoc)
  qed (simp add: if_eval_inner blanks_inner)
qed simp


lemma groups_selected:
  "well_formed b \<Longrightarrow> groups_ok b \<Longrightarrow> \<not> parse_should_noop st \<Longrightarrow>
   length (if_stack st) + depth b < N_IFSTACK - 1 \<Longrightarrow> group_lines cf (lines b) st = selected cf b st"
  "rest_well_formed e \<Longrightarrow> rest_groups_ok e \<Longrightarrow> \<not> parse_should_noop st \<Longrightarrow>
   length (if_stack st) + 1 + rdepth e < N_IFSTACK - 1 \<Longrightarrow>
   group_lines cf (rlines e) (inner True NO_TRUTH st) = rest_selected cf e st"
proof (induction b and e arbitrary: st and st)
  case (Plain s r)
  have "group_lines cf (lines r) s1 = selected cf r s1" if "text_line cf s st = Inr s1" for s1
    using text_line_ctl [OF that] same_ctl_noop [OF text_line_ctl [OF that]] Plain by (simp add: same_ctl_def)
  then show ?case using Plain.prems
    by (simp add: group_line_def dir_line_plain cong: bindE_cong)
next
  case (Direct l r)
  have "group_lines cf (lines r) s1 = selected cf r s1" if "direct_line cf l st = Inr s1" for s1
    using direct_line_ctl [OF _ that] same_ctl_noop [OF direct_line_ctl [OF _ that]] Direct
    by (simp add: same_ctl_def)
  then show ?case using Direct.prems by (simp add: group_line_def cong: bindE_cong)
next
  case (Cond l b e r)
  have r: "group_lines cf (lines r) s = selected cf r s" if "same_ctl st s" for s
    using Cond.IH(3) Cond.prems that same_ctl_noop [OF that] by (simp add: same_ctl_def)
  have body: "bindE (group_lines cf (lines b) (inner (\<not> v) (if v then GOT_TRUTH else NO_TRUTH) s)) (group_lines cf (rlines e))
      = (if v then bindE (selected cf b s) (\<lambda>st2. Inr (blanks (length (rlines e)) st2))
         else rest_selected cf e (blanks (length (lines b)) s))"
    if s: "same_ctl st s" for v s
  proof (cases v)
    case True
    have "group_lines cf (lines b) (inner False GOT_TRUTH s) = bindE (selected cf b s) (\<lambda>s. Inr (inner False GOT_TRUTH s))"
      using Cond.IH(1) [of "inner False GOT_TRUTH s"] Cond.prems s same_ctl_noop [OF s] selected_inner(1)
      by (simp add: same_ctl_def)
    moreover have "group_lines cf (rlines e) (inner False GOT_TRUTH s2) = Inr (blanks (length (rlines e)) s2)"
      if "selected cf b s = Inr s2" for s2
      using rest_taken [of e s2] Cond.prems same_ctl_trans [OF s selected_ctl(1) [OF _ that]]
        same_ctl_noop [of st s2] by (simp add: same_ctl_def)
    ultimately show ?thesis using True by (simp add: bindE_assoc cong: bindE_cong)
  next
    case False
    have "group_lines cf (lines b) (inner True NO_TRUTH s) = Inr (inner True NO_TRUTH (blanks (length (lines b)) s))"
      using skip_groups(1) [of b "inner True NO_TRUTH s" cf] Cond.prems s by (simp add: blanks_inner same_ctl_def)
    then show ?thesis
      using False Cond.IH(2) [of "blanks (length (lines b)) s"] Cond.prems s same_ctl_noop [OF s]
      by (simp add: same_ctl_def)
  qed
  have after: "same_ctl st s2" if as: "(if v then bindE (selected cf b s) (\<lambda>st2. Inr (blanks (length (rlines e)) st2))
         else rest_selected cf e (blanks (length (lines b)) s)) = Inr s2" "same_ctl st s" for v s s2
  proof (cases v)
    case True
    then obtain s3 where "selected cf b s = Inr s3" "s2 = blanks (length (rlines e)) s3"
      using as(1) by (auto elim!: bindE_InrE)
    then show ?thesis using selected_ctl(1) [of b cf s s3] Cond.prems(1) as(2) by (simp add: same_ctl_def)
  next
    case False
    then have "same_ctl (blanks (length (lines b)) s) s2" using as(1) selected_ctl(2) [of e cf] Cond.prems(1) by simp
    then show ?thesis using as(2) by (simp add: same_ctl_def)
  qed
  show ?case
  proof (cases "cond_value cf l (blanks (Suc 0) st)")
    case (Inl f)
    then show ?thesis using Cond.prems by (simp add: if_line_active)
  next
    case (Inr x)
    obtain v s where x: "x = (v, s)" by (cases x)
    have s: "same_ctl st s" using same_ctl_trans [OF same_ctl_blanks cond_value_ctl] Inr x by blast
    have "group_lines cf (lines (Cond l b e r)) st =
        bindE (bindE (group_lines cf (lines b) (inner (\<not> v) (if v then GOT_TRUTH else NO_TRUTH) s)) (group_lines cf (rlines e)))
          (group_lines cf (lines r))"
      using Cond.prems Inr x by (simp add: if_line_active group_lines_append bindE_assoc)
    then show ?thesis unfolding body [OF s] using Inr x r after [OF _ s] by (simp cong: bindE_cong)
  qed
next
  case (Endif l)
  then show ?case by (simp add: endif_line)
next
  case (Else l b e)
  have "group_lines cf (lines b) (inner False LAST_ELSE (blanks 1 st)) =
      bindE (selected cf b (blanks 1 st)) (\<lambda>s. Inr (inner False LAST_ELSE s))"
    using Else.IH [of "inner False LAST_ELSE (blanks 1 st)"] Else.prems selected_inner(1) by simp
  then show ?case using Else.prems by (simp add: else_line endif_line group_lines_append bindE_assoc)
next
  case (Elif l b k)
  show ?case
  proof (cases "if_eval cf (dir_tokens l) (blanks (Suc 0) st)")
    case (Inl f)
    then show ?thesis using Elif.prems by (simp add: elif_line_open)
  next
    case (Inr x)
    obtain v s where x: "x = (v, s)" by (cases x)
    have s: "same_ctl st s" using same_ctl_trans [OF same_ctl_blanks if_eval_ctl] Inr x by blast
    show ?thesis
    proof (cases v)
      case True
      have "group_lines cf (lines b) (inner False GOT_TRUTH s) = bindE (selected cf b s) (\<lambda>s. Inr (inner False GOT_TRUTH s))"
        using Elif.IH(1) [of "inner False GOT_TRUTH s"] Elif.prems s same_ctl_noop [OF s] selected_inner(1)
        by (simp add: same_ctl_def)
      moreover have "group_lines cf (rlines k) (inner False GOT_TRUTH s2) = Inr (blanks (length (rlines k)) s2)"
        if "selected cf b s = Inr s2" for s2
        using rest_taken [of k s2] Elif.prems same_ctl_trans [OF s selected_ctl(1) [OF _ that]]
          same_ctl_noop [of st s2] by (simp add: same_ctl_def)
      ultimately show ?thesis using True Inr x Elif.prems
        by (simp add: elif_line_open group_lines_append bindE_assoc cong: bindE_cong)
    next
      case False
      have "group_lines cf (lines b) (inner True NO_TRUTH s) = Inr (inner True NO_TRUTH (blanks (length (lines b)) s))"
        using skip_groups(1) [of b "inner True NO_TRUTH s" cf] Elif.prems s by (simp add: blanks_inner same_ctl_def)
      then show ?thesis
        using False Inr x Elif.IH(2) [of "blanks (length (lines b)) s"] Elif.prems s same_ctl_noop [OF s]
        by (simp add: elif_line_open group_lines_append same_ctl_def)
    qed
  qed
qed simp


section \<open>The whole line\<close>

definition line_ok :: "string \<Rightarrow> bool" where
  "line_ok l \<longleftrightarrow> dir_line l \<noteq> None \<or> take 1 (str_spc_skip l) \<noteq> ''#''"

lemma lines_ok:
  "well_formed b \<Longrightarrow> list_all line_ok (lines b)"
  "rest_well_formed e \<Longrightarrow> list_all line_ok (rlines e)"
  by (induction b and e) (auto simp: line_ok_def dir_is_def split: option.splits)

lemma spc_skip_skip: "str_spc_skip (str_spc_skip s) = str_spc_skip s"
  by (simp add: str_spc_skip_def)

lemma parse_directive_dir:
  assumes "dir_line l = Some (w, ws, ts)"
  shows "parse_directive cf (tl (str_spc_skip l)) st =
    bindE (directive_dispatch cf (\<lparr>tk_tok = TOKEN_WORD, tk_w = Some w, tk_ws = ws\<rparr> # ts) st) (\<lambda>st'. Inr (st', None))"
proof -
  define d where "d = tl (str_spc_skip l)"
  define s where "s = str_spc_skip d"
  from assms obtain t where t: "tokenise d = Inr (t # ts)" "tk_tok t = TOKEN_WORD" "tk_w t = Some w" "tk_ws t = ws"
    and s: "s \<noteq> []" "isalpha (hd s)" "take 4 s \<noteq> ''line''" "take (length s - length (word_end s)) s \<noteq> ''include''"
    by (auto simp: dir_line_def Let_def d_def s_def split: if_split_asm sum.split_asm list.split_asm)
  have "strtol_signed s = (0, s)"
    using s(1,2) by (cases s) (auto simp: strtol_signed_def isalpha_def isupper_def islower_def isdigit_def char_code_def)
  then have "handle_line_directive cf d st = Inr (False, st)"
    using s(3) unfolding handle_line_directive_def Let_def s_def [symmetric]
    by (simp add: spc_skip_skip s_def)
  moreover have "t = \<lparr>tk_tok = TOKEN_WORD, tk_w = Some w, tk_ws = ws\<rparr>" using t by simp
  ultimately show ?thesis
    using t(1) s(4) unfolding d_def [symmetric] by (simp add: parse_directive_def Let_def s_def [symmetric])
qed

lemma dconf_of_ds [simp]: "dconf_of pc (ps\<lparr>ds := st\<rparr>) = dconf_of pc ps"
  by (auto simp: dconf_of_def fun_eq_iff)

lemma filter_line:
  assumes "line_ok l"
  shows "bindE (filter_macros pc l ps) (\<lambda>(out, ps'). k (puts out ps')) =
    bindE (group_line (dconf_of pc ps) l (ds ps)) (\<lambda>st. k (ps\<lparr>ds := st\<rparr>))"
proof (cases "dir_line l")
  case None
  then have "take 1 (str_spc_skip l) \<noteq> ''#''" using assms by (simp add: line_ok_def)
  then show ?thesis
    by (auto simp: filter_macros_def group_line_def None text_line_def puts_def put_line_def blanks_1
        directive_sync_def bindE_assoc dconf_of_def intro!: bindE_cong arg_cong [where f = k])
next
  case (Some x)
  obtain w ws ts where x: "x = (w, ws, ts)" by (cases x)
  have "take 1 (str_spc_skip l) = ''#''" using Some by (auto simp: dir_line_def split: if_split_asm)
  then show ?thesis using Some x
    by (simp add: filter_macros_def parse_directive_dir group_line_def direct_line_def bindE_assoc puts_def)
qed

lemma filter_lines_groups:
  "list_all line_ok ls \<Longrightarrow>
   filter_lines pc ls ps = bindE (group_lines (dconf_of pc ps) ls (ds ps)) (\<lambda>st. Inr (ps\<lparr>ds := st\<rparr>))"
proof (induction ls arbitrary: ps)
  case (Cons l ls)
  have "filter_lines pc (l # ls) ps =
      bindE (group_line (dconf_of pc ps) l (ds ps)) (\<lambda>st. filter_lines pc ls (ps\<lparr>ds := st\<rparr>))"
    unfolding filter_lines.simps using Cons.prems by (intro filter_line) simp
  also have "\<dots> = bindE (group_line (dconf_of pc ps) l (ds ps)) (\<lambda>st.
      bindE (group_lines (dconf_of pc ps) ls st) (\<lambda>st. Inr (ps\<lparr>ds := st\<rparr>)))"
    using Cons by simp
  finally show ?case by (simp add: bindE_assoc)
qed simp


definition example_dstate :: "macro list \<Rightarrow> dstate" where
  "example_dstate ms =
     \<lparr>if_stack = [], noop = False, if_elif_chosen = NO_TRUTH, mst = table ms, cpp = example_cpp,
      no_output = False, printed = []\<rparr>"

definition example_pstate :: "macro list \<Rightarrow> pstate" where
  "example_pstate ms =
     \<lparr>files = [], cd_stack = [], strip_block = NOT_IN_BLOCK, n_nls = 0, depset = None, ds = example_dstate ms\<rparr>"

definition example_pconf :: pconf where
  "example_pconf =
     \<lparr>option_trigraphs = False, option_digraphs = False, strip_mode = STRIP_ALL,
      missing_header_error = True, line_info = False, rounds = 30, fs = (\<lambda>_. No_entry),
      dirs = \<lparr>inc_dirs = [], inc_dirs_sys = []\<rparr>\<rparr>"

definition example_groups :: items where
  "example_groups =
     Cond ''#ifdef A'' (Plain ''yes'' Done)
       (Elif ''#elif B'' (Direct ''#define C 1'' Done) (Else ''#else'' (Plain ''no A'' Done) ''#endif''))
       (Plain ''end'' Done)"


section \<open>Where the program departs from C\<close>

definition example_dconf :: dconf where
  "example_dconf = dconf_of example_pconf (example_pstate [])"

text \<open>The condition of an \<^verbatim>\<open>#elif\<close> inside a skipped group is evaluated, and can end the run.\<close>

lemma elif_evaluated_in_skipped_group:
  "group_lines example_dconf [''#if 0'', ''#ifdef A'', ''#elif 1/0''] (example_dstate []) = Inl (Died ''division by zero'')"
  by code_simp

text \<open>A line directive in a skipped group changes the line number.\<close>

lemma line_directive_in_skipped_group:
  "map_sum id (\<lambda>(st, inc). current_line (cpp st)) (parse_directive example_dconf ''line 5'' (inner True NO_TRUTH (example_dstate []))) = Inr 4"
  by code_simp

text \<open>A \<^verbatim>\<open>#define\<close> without a name, and \<^verbatim>\<open>defined\<close> without an operand, read through NULL.\<close>

lemma define_without_name: "parse_directive example_dconf ''define'' (example_dstate []) = Inl Null_deref"
  by code_simp

lemma defined_without_operand: "parse_directive example_dconf ''if defined'' (example_dstate []) = Inl Null_deref"
  by code_simp

text \<open>A parameter list that the end of the line cuts off behind a comma is accepted.\<close>

lemma unclosed_parameters_accepted:
  "map_sum id (\<lambda>(st, inc). macros (mst st)) (parse_directive example_dconf ''define F(a,'' (example_dstate [])) =
     Inr [define_function ''F'' [''a''] []]"
  by code_simp

end
