(* ===== verification/Ucc_Layout.thy ===== *)
theory Ucc_Layout
  imports Ucc_Pack Ucc_Type_Is Ucc_Math
begin

text \<open>
  The layout of structs and unions and the values of enumerators: \<^verbatim>\<open>src/cc1/fold_sue.c\<close> with
  the helpers of \<^verbatim>\<open>src/cc1/decl.c\<close> and \<^verbatim>\<open>src/cc1/fold.c\<close> it calls.

  A member is the declaration after it has been folded: its type, the width of a bit-field as
  a number, the alignment its own attributes resolve to (0 for none) and its attributes.
  Nested structs and unions have been laid out before; their size is part of the environment.
  Messages that do not end the program set the flag \<open>ly_error\<close>, as they set \<^verbatim>\<open>fold_had_error\<close>;
  \<^verbatim>\<open>contains_const\<close> is left out.
\<close>

section \<open>Members\<close>

record member =
  mb_spel :: "string option"
  mb_ref :: ctype
  mb_field_width :: "u32 option"
  mb_align_resolved :: u32
  mb_attr :: "attribute list"

text \<open>What the layout stores in a declaration.\<close>

record placement =
  struct_offset :: u32
  struct_offset_bitfield :: u32
  first_bitfield :: bool
  bitfield_master_ty :: "ctype option"

definition no_placement :: placement where
  "no_placement =
     \<lparr>struct_offset = 0, struct_offset_bitfield = 0, first_bitfield = False, bitfield_master_ty = None\<rparr>"

definition is_func :: "ctype \<Rightarrow> bool outcome" where
  "is_func t = bindE (type_is (Some t) K_func) (\<lambda>r. Inr (r \<noteq> None))"

definition decl_size :: "tenv \<Rightarrow> member \<Rightarrow> u32 outcome" where
  "decl_size env d =
     bindE (type_is_void (Some (mb_ref d))) (\<lambda>void.
       if void then Inl (Died ''void'')
       else bindE (is_func (mb_ref d)) (\<lambda>func.
         if \<not> func \<and> mb_field_width d \<noteq> None then Inl (Died ''can't take size of a bitfield'')
         else type_size env (mb_ref d)))"

text \<open>\<^verbatim>\<open>type_nav_MAX_FOR\<close> of \<^verbatim>\<open>type_nav.c\<close>.\<close>

definition type_nav_MAX_FOR :: "tenv \<Rightarrow> u32 \<Rightarrow> bool \<Rightarrow> ctype outcome" where
  "type_nav_MAX_FOR env sz is_signed =
     bindE (type_primitive_not_less_than_size env sz is_signed) (\<lambda>p.
       if p = type_unknown then Inl (Assert_failed ''no type max'')
       else Inr (T_btype \<lparr>bt_primitive = p, bt_sue = None\<rparr>))"

definition decl_type_for_bitfield :: "tenv \<Rightarrow> member \<Rightarrow> ctype outcome" where
  "decl_type_for_bitfield env d =
     bindE (is_func (mb_ref d)) (\<lambda>func.
       if func then Inl (Assert_failed ''!type_is(d->ref, type_func)'')
       else
         case mb_field_width d of
           None \<Rightarrow> Inr (mb_ref d)
         | Some bits \<Rightarrow>
           bindE (type_is_signed env (mb_ref d)) (\<lambda>is_signed.
             type_nav_MAX_FOR env (bits div 8 + (if bits mod 8 \<noteq> 0 then 1 else 0)) is_signed))"

definition decl_size_align_inc_bitfield :: "tenv \<Rightarrow> member \<Rightarrow> (u32 \<times> u32) outcome" where
  "decl_size_align_inc_bitfield env d =
     bindE (decl_type_for_bitfield env d) (\<lambda>ty.
     bindE (type_size env ty) (\<lambda>sz.
     bindE (type_align env ty) (\<lambda>align. Inr (sz, align))))"

text \<open>\<^verbatim>\<open>decl_align\<close>: a member has no other declaration.\<close>

definition decl_align1 :: "tenv \<Rightarrow> member \<Rightarrow> u32 outcome" where
  "decl_align1 env d =
     bindE (is_func (mb_ref d)) (\<lambda>func.
       let al = (if \<not> func then mb_align_resolved d else 0) in
       if al \<noteq> 0 then Inr al else type_align env (mb_ref d))"

definition decl_align :: "tenv \<Rightarrow> member \<Rightarrow> u32 outcome" where
  "decl_align env d = bindE (decl_align1 env d) (\<lambda>cur. Inr (if cur > 0 then cur else 0))"

definition attribute_present :: "tenv \<Rightarrow> member \<Rightarrow> attr_kind \<Rightarrow> attribute option outcome" where
  "attribute_present env d k =
     (case attr_present (mb_attr d) k of
        Some a \<Rightarrow> Inr (Some a)
      | None \<Rightarrow> type_attr_present env (mb_ref d) k)"

section \<open>The state of the layout\<close>

record bitfield_state =
  master_ty :: "ctype option"
  current_off :: u32
  first_off :: u32
  current_limit :: u32

record layout =
  ly_offset :: u64
  ly_realign_next :: bool
  ly_bitfield :: bitfield_state
  ly_align_max :: u32
  ly_sz_max :: u32
  ly_flexarr :: bool
  ly_error :: bool
  ly_placed :: "(member \<times> placement) list"

definition layout_init :: layout where
  "layout_init =
     \<lparr>ly_offset = 0, ly_realign_next = False,
      ly_bitfield = \<lparr>master_ty = None, current_off = 0, first_off = 0, current_limit = 0\<rparr>,
      ly_align_max = 1, ly_sz_max = 0, ly_flexarr = False, ly_error = False, ly_placed = []\<rparr>"

text \<open>The fields of \<^verbatim>\<open>struct_union_enum_st\<close> that the layout reads.\<close>

record sue_decl =
  sd_primitive :: type_primitive
  sd_attr :: "attribute list"
  sd_self :: nat

text \<open>Options, and which structs are anonymous.\<close>

record layout_opts =
  lo_tag_anon_struct_ext :: bool
  lo_anon :: "nat \<Rightarrow> bool"

section \<open>Bit-fields\<close>

definition struct_pack_finish_bitfield :: "tenv \<Rightarrow> u64 \<Rightarrow> bitfield_state \<Rightarrow> u64 outcome" where
  "struct_pack_finish_bitfield env offset bf =
     (case master_ty bf of
        None \<Rightarrow> Inr offset
      | Some ty \<Rightarrow>
        bindE (type_size env ty) (\<lambda>n.
          if n = 0 then Inl (Undefined ''modulo by zero'')
          else if offset mod ucast n \<noteq> 0 then Inr (offset + (ucast n - offset mod ucast n))
          else Inr offset))"

text \<open>
  The end of \<^verbatim>\<open>fold_sue_calc_fieldwidth\<close>: the field is put at the current bit offset, which then
  moves on.  The results are the new size and alignment of \<^verbatim>\<open>pack_state\<close>, the placement, and
  the layout with its offset and bit-field state.
\<close>

definition fieldwidth_advance ::
  "tenv \<Rightarrow> u32 \<Rightarrow> u32 \<Rightarrow> u32 \<Rightarrow> placement \<Rightarrow> layout \<Rightarrow> bitfield_state \<Rightarrow> (u32 \<times> u32 \<times> placement \<times> layout) outcome"
where
  "fieldwidth_advance env bits sz align pl ly bf =
     (let pl' = pl\<lparr>struct_offset_bitfield := current_off bf\<rparr>; off = current_off bf + bits in
      if off = current_limit bf then
        bindE (struct_pack_finish_bitfield env (ly_offset ly) (bf\<lparr>current_off := 0\<rparr>)) (\<lambda>o'.
          Inr (sz, align, pl', ly\<lparr>ly_offset := o', ly_bitfield := bf\<lparr>current_off := 0\<rparr>\<rparr>))
      else Inr (sz, align, pl', ly\<lparr>ly_bitfield := bf\<lparr>current_off := off\<rparr>\<rparr>))"

definition fold_sue_calc_fieldwidth ::
  "tenv \<Rightarrow> member \<Rightarrow> u32 \<Rightarrow> layout \<Rightarrow> (u32 \<times> u32 \<times> placement \<times> layout) outcome" where
  "fold_sue_calc_fieldwidth env d bits ly =
     (let bf = ly_bitfield ly in
      if bits = 0 then
        fieldwidth_advance env bits 0 0 (no_placement\<lparr>struct_offset := ucast (ly_offset ly)\<rparr>)
          (ly\<lparr>ly_realign_next := True\<rparr>) bf
      else if ly_realign_next ly \<or> current_off bf = 0 \<or> current_off bf + bits > current_limit bf then
        bindE (if ly_realign_next ly \<or> current_off bf \<noteq> 0
               then bindE (struct_pack_finish_bitfield env (ly_offset ly) (bf\<lparr>current_off := 0\<rparr>)) (\<lambda>o'.
                      Inr (o', bf\<lparr>current_off := 0\<rparr>))
               else Inr (ly_offset ly, bf)) (\<lambda>(o1, bf1).
        bindE (type_size env (mb_ref d)) (\<lambda>tsz.
        bindE (decl_size_align_inc_bitfield env d) (\<lambda>(sz0, al0).
        bindE (round_size_to_align sz0 al0) (\<lambda>sz.
        bindE (struct_pack o1 sz al0) (\<lambda>(o2, start).
        bindE (type_align env (mb_ref d)) (\<lambda>al.
          fieldwidth_advance env bits sz al
            (no_placement\<lparr>struct_offset := start, first_bitfield := True, bitfield_master_ty := Some (mb_ref d)\<rparr>)
            (ly\<lparr>ly_offset := o2, ly_realign_next := False\<rparr>)
            (bf1\<lparr>master_ty := Some (mb_ref d), current_limit := 8 * tsz, first_off := start\<rparr>)))))))
      else
        fieldwidth_advance env bits 0 0
          (no_placement\<lparr>struct_offset := first_off bf, bitfield_master_ty := master_ty bf\<rparr>) ly bf)"

section \<open>Other members\<close>

definition populate_size_align :: "tenv \<Rightarrow> member \<Rightarrow> (u32 \<times> u32) outcome" where
  "populate_size_align env d =
     bindE (type_is_incomplete_array (mb_ref d)) (\<lambda>flex.
     bindE (if \<not> flex then decl_size env d else Inr 0) (\<lambda>sz.
     bindE (decl_align env d) (\<lambda>align. Inr (sz, align))))"

text \<open>\<open>is_last\<close> says that no member follows.\<close>

definition fold_sue_calc_normal ::
  "tenv \<Rightarrow> sue_decl \<Rightarrow> bool \<Rightarrow> member \<Rightarrow> layout \<Rightarrow> (u32 \<times> u32 \<times> layout) outcome" where
  "fold_sue_calc_normal env sue is_last d ly =
     bindE (populate_size_align env d) (\<lambda>(sz, align).
     bindE (type_is_incomplete_array (mb_ref d)) (\<lambda>flex.
       if flex then
         if \<not> is_last then Inl (Died ''flexible array not at end of struct'')
         else if sd_primitive sue \<noteq> type_struct then Inl (Died ''flexible array in a union'')
         else Inr (0, align, ly\<lparr>ly_flexarr := True\<rparr>)
       else Inr (sz, align, ly)))"

definition fold_sue_apply_normal_offset :: "u32 \<Rightarrow> u32 \<Rightarrow> layout \<Rightarrow> (placement \<times> layout) outcome" where
  "fold_sue_apply_normal_offset sz align ly =
     bindE (struct_pack (ly_offset ly) sz align) (\<lambda>(o', start).
       Inr (no_placement\<lparr>struct_offset := start\<rparr>,
            ly\<lparr>ly_offset := o', ly_bitfield := (ly_bitfield ly)\<lparr>current_off := 0\<rparr>\<rparr>))"

definition fold_sue_calc_substrut :: "tenv \<Rightarrow> sue_decl \<Rightarrow> nat \<Rightarrow> member \<Rightarrow> (u32 \<times> u32) outcome" where
  "fold_sue_calc_substrut env sue sub d =
     (if sub = sd_self sue then Inl (Assert_failed ''nested'') else populate_size_align env d)"

text \<open>\<^verbatim>\<open>fold_sue_check_unnamed\<close>: whether the member is dropped.\<close>

definition fold_sue_check_unnamed ::
  "layout_opts \<Rightarrow> member \<Rightarrow> nat option \<Rightarrow> bool outcome" where
  "fold_sue_check_unnamed lo d sub =
     (case sub of
        Some s \<Rightarrow>
          if mb_spel d = None \<and> mb_field_width d = None then
            if lo_tag_anon_struct_ext lo then Inr False
            else bindE (type_is_tdef (mb_ref d)) (\<lambda>td. Inr (\<not> lo_anon lo s \<or> td \<noteq> None))
          else Inr False
      | None \<Rightarrow> Inr False)"

text \<open>One round of the loop of \<^verbatim>\<open>fold_sue\<close>.\<close>

definition fold_sue_member ::
  "tenv \<Rightarrow> layout_opts \<Rightarrow> sue_decl \<Rightarrow> bool \<Rightarrow> bool \<Rightarrow> member \<Rightarrow> layout \<Rightarrow> layout outcome" where
  "fold_sue_member env lo sue packed is_last d ly =
     bindE (type_is_s_or_u env (Some (mb_ref d))) (\<lambda>sub.
     bindE (type_is_variably_modified (mb_ref d)) (\<lambda>vm.
     if vm then Inr (ly\<lparr>ly_error := True\<rparr>)
     else
       bindE (fold_sue_check_unnamed lo d sub) (\<lambda>dropped.
       if dropped then Inr ly
       else
         bindE (type_is_complete env (mb_ref d)) (\<lambda>complete.
         bindE (if complete then Inr True else type_is_incomplete_array (mb_ref d)) (\<lambda>ok.
         if \<not> ok then Inr (ly\<lparr>ly_error := True\<rparr>)
         else
           bindE (case sub of
                    Some s \<Rightarrow>
                      bindE (fold_sue_calc_substrut env sue s d) (\<lambda>(sz, align). Inr (sz, align, no_placement, ly))
                  | None \<Rightarrow>
                    (case mb_field_width d of
                       Some bits \<Rightarrow> fold_sue_calc_fieldwidth env d bits ly
                     | None \<Rightarrow>
                       bindE (fold_sue_calc_normal env sue is_last d ly) (\<lambda>(sz, align, ly').
                         Inr (sz, align, no_placement, ly')))) (\<lambda>(sz, align0, pl0, ly1).
           bindE (attribute_present env d attr_packed) (\<lambda>dp.
           let align = (if packed \<or> dp \<noteq> None then 1 else align0) in
           bindE (if sd_primitive sue = type_struct \<and> mb_field_width d = None
                  then fold_sue_apply_normal_offset sz align ly1
                  else Inr (pl0, ly1)) (\<lambda>(pl, ly2).
             Inr (ly2\<lparr>ly_align_max := max (ly_align_max ly2) align, ly_sz_max := max (ly_sz_max ly2) sz,
                      ly_placed := ly_placed ly2 @ [(d, pl)]\<rparr>)))))))))"

fun fold_sue_members ::
  "tenv \<Rightarrow> layout_opts \<Rightarrow> sue_decl \<Rightarrow> bool \<Rightarrow> member list \<Rightarrow> layout \<Rightarrow> layout outcome" where
  "fold_sue_members env lo sue packed [] ly = Inr ly"
| "fold_sue_members env lo sue packed (d # ds) ly =
     bindE (fold_sue_member env lo sue packed (ds = []) d ly) (fold_sue_members env lo sue packed ds)"

text \<open>
  \<^verbatim>\<open>fold_get_max_align_attribute\<close> with \<^verbatim>\<open>check_valid_align_within_min\<close>: the alignment and whether
  an error was reported.  Alignments are compared as \<^verbatim>\<open>int\<close>.
\<close>

definition check_valid_align_within_min :: "u32 \<Rightarrow> u32 \<Rightarrow> bool" where
  "check_valid_align_within_min al minimum \<longleftrightarrow>
     (if al AND (al - 1) \<noteq> 0 then True else if al = 0 then False else sint al < sint minimum)"

fun max_align_attribute :: "attribute list \<Rightarrow> u32 \<Rightarrow> u32 \<Rightarrow> bool \<Rightarrow> (u32 \<times> bool) outcome" where
  "max_align_attribute [] minimum mx err = Inr (mx, err)"
| "max_align_attribute (a # as) minimum mx err =
     (if at_kind a \<noteq> attr_aligned then max_align_attribute as minimum mx err
      else
        case at_align a of
          None \<Rightarrow> max_align_attribute as minimum mx err
        | Some None \<Rightarrow> Inl (Died ''aligned attribute not reducible to integer constant'')
        | Some (Some v) \<Rightarrow>
          let al = (ucast v :: u32) in
          max_align_attribute as minimum (if sint al > sint mx then al else mx)
            (err \<or> check_valid_align_within_min al minimum))"

definition fold_get_max_align_attribute :: "attribute list \<Rightarrow> u32 \<Rightarrow> (u32 \<times> bool) outcome" where
  "fold_get_max_align_attribute attribs minimum = max_align_attribute attribs minimum minimum False"

text \<open>\<^verbatim>\<open>fold_sue\<close> for a struct or a union: size, alignment, and the final state.\<close>

definition fold_sue ::
  "tenv \<Rightarrow> layout_opts \<Rightarrow> sue_decl \<Rightarrow> member list \<Rightarrow> (u32 \<times> u32 \<times> layout) outcome" where
  "fold_sue env lo sue ds =
     bindE (fold_sue_members env lo sue (attr_present (sd_attr sue) attr_packed \<noteq> None) ds layout_init) (\<lambda>ly.
     let align = ly_align_max ly in
     bindE (pack_to_align (if sd_primitive sue = type_struct then ly_offset ly else ucast (ly_sz_max ly)) align) (\<lambda>sz.
     bindE (round_size_to_align (ucast sz) align) (\<lambda>sz1.
     bindE (fold_get_max_align_attribute (sd_attr sue) align) (\<lambda>(align1, err).
     bindE (round_size_to_align sz1 align1) (\<lambda>sz2.
       Inr (sz2, align1, ly\<lparr>ly_error := ly_error ly \<or> err\<rparr>))))))"

section \<open>Structs without bit-fields\<close>

text \<open>
  The layout C asks for: every member at the next multiple of its alignment.
\<close>

definition round_up :: "nat \<Rightarrow> nat \<Rightarrow> nat" where
  "round_up s a = (if s mod a \<noteq> 0 then s + (a - s mod a) else s)"

fun place :: "nat \<Rightarrow> (nat \<times> nat) list \<Rightarrow> nat list" where
  "place o' [] = []"
| "place o' ((sz, al) # r) = round_up o' al # place (round_up o' al + sz) r"

fun place_end :: "nat \<Rightarrow> (nat \<times> nat) list \<Rightarrow> nat" where
  "place_end o' [] = o'"
| "place_end o' ((sz, al) # r) = place_end (round_up o' al + sz) r"

definition max_align :: "(nat \<times> nat) list \<Rightarrow> nat" where
  "max_align dims = foldl max 1 (map snd dims)"

lemma round_up_props:
  assumes "0 < a"
  shows "a dvd round_up s a" "s \<le> round_up s a" "round_up s a < s + a"
proof -
  have "round_up s a = (s + a - 1) div a * a" using round_up_nat [OF assms, of s] by (simp add: round_up_def)
  then show "a dvd round_up s a" by (metis dvd_triv_right)
  have "s mod a < a" using assms by simp
  then show "s \<le> round_up s a" "round_up s a < s + a"
    unfolding round_up_def using assms by (simp_all only: split: if_split) linarith+
qed

lemma round_up_dvd [simp]: "a dvd s \<Longrightarrow> round_up s a = s"
  by (auto simp: round_up_def)

lemma place_length [simp]: "length (place o' dims) = length dims"
  by (induction o' dims rule: place.induct) simp_all

lemma place_end_ge: "list_all (\<lambda>(sz, al). 0 < al) dims \<Longrightarrow> o' \<le> place_end o' dims"
proof (induction o' dims rule: place_end.induct)
  case (2 o' sz al r)
  then show ?case using round_up_props [of al o'] by simp
qed simp

lemma place_end_bound:
  "list_all (\<lambda>(sz, al). 0 < al) dims \<Longrightarrow> place_end o' dims \<le> o' + sum_list (map (\<lambda>(sz, al). sz + al) dims)"
proof (induction o' dims rule: place_end.induct)
  case (2 o' sz al r)
  then show ?case using round_up_props [of al o'] by simp
qed simp

text \<open>Members are aligned, start behind \<open>o'\<close>, and end before the next one and the end.\<close>

lemma place_ok:
  assumes "list_all (\<lambda>(sz, al). 0 < al) dims" "i < length dims"
  shows "snd (dims ! i) dvd place o' dims ! i \<and> o' \<le> place o' dims ! i \<and>
    place o' dims ! i + fst (dims ! i) \<le> (if Suc i < length dims then place o' dims ! Suc i else place_end o' dims)"
  using assms
proof (induction o' dims arbitrary: i rule: place.induct)
  case (2 o' sz al r)
  have al: "0 < al" "list_all (\<lambda>(sz, al). 0 < al) r" using "2.prems"(1) by simp_all
  note ru = round_up_props [OF al(1), of o']
  show ?case
  proof (cases i)
    case 0
    have "round_up o' al + sz \<le> place (round_up o' al + sz) r ! 0" if "r \<noteq> []"
      using "2.IH" [OF al(2), of 0] that by simp
    then show ?thesis using 0 ru by (cases r) auto
  next
    case (Suc j)
    then show ?thesis using "2.IH" [OF al(2), of j] "2.prems"(2) ru by (auto split: if_splits)
  qed
qed simp

section \<open>The program computes it\<close>

text \<open>A member that is no bit-field, no flexible array, and not left out.\<close>

definition ordinary :: "tenv \<Rightarrow> layout_opts \<Rightarrow> sue_decl \<Rightarrow> member \<Rightarrow> bool" where
  "ordinary env lo sue d \<longleftrightarrow>
     mb_field_width d = None \<and>
     (case type_is_s_or_u env (Some (mb_ref d)) of
        Inl _ \<Rightarrow> False
      | Inr sub \<Rightarrow> sub \<noteq> Some (sd_self sue) \<and> fold_sue_check_unnamed lo d sub = Inr False) \<and>
     type_is_variably_modified (mb_ref d) = Inr False \<and>
     type_is_complete env (mb_ref d) = Inr True \<and>
     type_is_incomplete_array (mb_ref d) = Inr False"

text \<open>Its size and alignment; \<^verbatim>\<open>packed\<close> makes the alignment 1.\<close>

definition member_dims :: "tenv \<Rightarrow> bool \<Rightarrow> member \<Rightarrow> (u32 \<times> u32) outcome" where
  "member_dims env packed d =
     bindE (decl_size env d) (\<lambda>sz.
     bindE (decl_align env d) (\<lambda>al.
     bindE (attribute_present env d attr_packed) (\<lambda>dp.
       Inr (sz, if packed \<or> dp \<noteq> None then 1 else al))))"

lemma fold_sue_member_ordinary:
  assumes "ordinary env lo sue d" "sd_primitive sue = type_struct"
  shows "fold_sue_member env lo sue packed is_last d ly =
    bindE (member_dims env packed d) (\<lambda>(sz, al).
    bindE (fold_sue_apply_normal_offset sz al ly) (\<lambda>(pl, ly2).
      Inr (ly2\<lparr>ly_align_max := max (ly_align_max ly2) al, ly_sz_max := max (ly_sz_max ly2) sz,
               ly_placed := ly_placed ly2 @ [(d, pl)]\<rparr>)))"
proof -
  obtain sub where sub: "type_is_s_or_u env (Some (mb_ref d)) = Inr sub" "sub \<noteq> Some (sd_self sue)"
    "fold_sue_check_unnamed lo d sub = Inr False"
    using assms(1) by (auto simp: ordinary_def split: sum.splits)
  note o = assms(1) [unfolded ordinary_def]
  have p: "populate_size_align env d = bindE (decl_size env d) (\<lambda>sz. bindE (decl_align env d) (\<lambda>al. Inr (sz, al)))"
    using o by (simp add: populate_size_align_def)
  have "(case sub of
            Some s \<Rightarrow> bindE (fold_sue_calc_substrut env sue s d) (\<lambda>(sz, align). Inr (sz, align, no_placement, ly))
          | None \<Rightarrow> (case mb_field_width d of
                Some bits \<Rightarrow> fold_sue_calc_fieldwidth env d bits ly
              | None \<Rightarrow> bindE (fold_sue_calc_normal env sue is_last d ly) (\<lambda>(sz, align, ly'). Inr (sz, align, no_placement, ly'))))
      = bindE (decl_size env d) (\<lambda>sz. bindE (decl_align env d) (\<lambda>al. Inr (sz, al, no_placement, ly)))"
    using sub(2) o by (cases sub) (auto simp: fold_sue_calc_substrut_def fold_sue_calc_normal_def p bindE_assoc)
  note dims = this
  have s: "fold_sue_member env lo sue packed is_last d ly =
    bindE (bindE (decl_size env d) (\<lambda>sz. bindE (decl_align env d) (\<lambda>al. Inr (sz, al, no_placement, ly))))
      (\<lambda>(sz, align0, pl0, ly1).
           bindE (attribute_present env d attr_packed) (\<lambda>dp.
           let align = (if packed \<or> dp \<noteq> None then 1 else align0) in
           bindE (fold_sue_apply_normal_offset sz align ly1) (\<lambda>(pl, ly2).
             Inr (ly2\<lparr>ly_align_max := max (ly_align_max ly2) align, ly_sz_max := max (ly_sz_max ly2) sz,
                      ly_placed := ly_placed ly2 @ [(d, pl)]\<rparr>))))"
    unfolding fold_sue_member_def sub(1) bindE_simps dims using o sub(3) assms(2) by simp
  show ?thesis
    unfolding s member_dims_def by (simp only: bindE_assoc bindE_simps prod.case Let_def)
qed

lemma struct_pack_value:
  assumes "unat al = 2 ^ k" "unat o' + 2 ^ k + unat sz < 2 ^ 32"
  shows "\<exists>o2 start. struct_pack o' sz al = Inr (o2, start) \<and> unat start = round_up (unat o') (2 ^ k) \<and>
           unat o2 = round_up (unat o') (2 ^ k) + unat sz"
proof -
  obtain v where v: "pack_to_align o' al = Inr v" "unat v = round_up (unat o') (2 ^ k)"
    using pack_to_align_value [OF assms(1), of o'] assms by (auto simp: round_up_def)
  have lt: "unat v + unat sz < 2 ^ 32" using v(2) round_up_props(3) [of "2 ^ k" "unat o'"] assms(2) by simp
  have "unat (v + ucast sz) = unat v + unat sz"
    using lt unsigned_less [of sz, where 'a = nat]
    by (simp add: unat_word_ariths unsigned_ucast_eq take_bit_nat_eq_self)
  moreover have "unat (ucast v :: u32) = unat v"
    using lt by (simp add: unsigned_ucast_eq take_bit_nat_eq_self)
  ultimately show ?thesis using v by (simp add: struct_pack_def pack_next_def)
qed


text \<open>All members of a struct in turn.\<close>

lemma member_step:
  assumes "ordinary env lo sue d" "sd_primitive sue = type_struct" "member_dims env packed d = Inr (sz, al)"
    "unat al = 2 ^ k" "unat (ly_offset ly) + 2 ^ k + unat sz < 2 ^ 31"
  shows "\<exists>ly' start. fold_sue_member env lo sue packed is_last d ly = Inr ly' \<and>
    unat start = round_up (unat (ly_offset ly)) (unat al) \<and>
    unat (ly_offset ly') = round_up (unat (ly_offset ly)) (unat al) + unat sz \<and>
    ly_align_max ly' = max (ly_align_max ly) al \<and>
    ly_placed ly' = ly_placed ly @ [(d, no_placement\<lparr>struct_offset := start\<rparr>)]"
proof -
  obtain o2 start where sp: "struct_pack (ly_offset ly) sz al = Inr (o2, start)"
    "unat start = round_up (unat (ly_offset ly)) (2 ^ k)"
    "unat o2 = round_up (unat (ly_offset ly)) (2 ^ k) + unat sz"
    using struct_pack_value [OF assms(4), of "ly_offset ly" sz] assms(5) by auto
  show ?thesis
    unfolding fold_sue_member_ordinary [OF assms(1,2)] assms(3) assms(4)
    unfolding bindE_simps prod.case fold_sue_apply_normal_offset_def sp(1)
    by (intro exI [of _ start] exI conjI) (rule refl, simp_all add: sp(2,3))
qed

abbreviation nat_dims :: "(u32 \<times> u32) list \<Rightarrow> (nat \<times> nat) list" where
  "nat_dims dims \<equiv> map (\<lambda>(sz, al). (unat sz, unat al)) dims"

definition pow2 :: "u32 \<Rightarrow> bool" where
  "pow2 al \<longleftrightarrow> unat al \<in> (\<lambda>k. 2 ^ k) ` {..< 32}"

definition space :: "(u32 \<times> u32) list \<Rightarrow> nat" where
  "space dims = sum_list (map (\<lambda>(sz, al). unat sz + unat al) dims)"

lemma pow2E: "pow2 al \<Longrightarrow> (\<And>k. unat al = 2 ^ k \<Longrightarrow> P) \<Longrightarrow> P"
  by (auto simp: pow2_def)

lemma pow2_one: "pow2 1"
  unfolding pow2_def by (rule image_eqI [of _ _ 0]) simp_all

lemma pow2_pos: "pow2 al \<Longrightarrow> 0 < unat al"
  by (auto elim!: pow2E)

lemma fold_sue_members_ordinary:
  assumes "list_all (ordinary env lo sue) ds" "sd_primitive sue = type_struct"
    "list_all2 (\<lambda>d dim. member_dims env packed d = Inr dim) ds dims"
    "list_all (\<lambda>(sz, al). pow2 al) dims"
    "unat (ly_offset ly) + space dims < 2 ^ 31"
  shows "\<exists>ly'. fold_sue_members env lo sue packed ds ly = Inr ly' \<and>
    unat (ly_offset ly') = place_end (unat (ly_offset ly)) (nat_dims dims) \<and>
    ly_align_max ly' = foldl max (ly_align_max ly) (map snd dims) \<and>
    map fst (ly_placed ly') = map fst (ly_placed ly) @ ds \<and>
    map (\<lambda>(d, pl). unat (struct_offset pl)) (ly_placed ly') =
      map (\<lambda>(d, pl). unat (struct_offset pl)) (ly_placed ly) @ place (unat (ly_offset ly)) (nat_dims dims)"
  using assms(1,3,4,5)
proof (induction ds arbitrary: dims ly)
  case (Cons d ds)
  obtain sz al dims' where dims: "dims = (sz, al) # dims'" "member_dims env packed d = Inr (sz, al)"
    "list_all2 (\<lambda>d dim. member_dims env packed d = Inr dim) ds dims'"
    using Cons.prems(2) by (auto simp: list_all2_Cons1)
  have pal: "pow2 al" using Cons.prems(3) dims(1) by simp
  then obtain k where k: "unat al = 2 ^ k" by (rule pow2E)
  have sp: "space dims = unat sz + unat al + space dims'" by (simp add: dims(1) space_def)
  obtain ly1 start where ly1: "fold_sue_member env lo sue packed (ds = []) d ly = Inr ly1"
    "unat start = round_up (unat (ly_offset ly)) (unat al)"
    "unat (ly_offset ly1) = round_up (unat (ly_offset ly)) (unat al) + unat sz"
    "ly_align_max ly1 = max (ly_align_max ly) al"
    "ly_placed ly1 = ly_placed ly @ [(d, no_placement\<lparr>struct_offset := start\<rparr>)]"
    using member_step [OF _ assms(2) dims(2) k, of lo ly "ds = []"] Cons.prems(1,4) sp k by auto
  have "unat (ly_offset ly1) + space dims' < 2 ^ 31"
    using Cons.prems(4) sp ly1(3) round_up_props(3) [OF pow2_pos [OF pal], of "unat (ly_offset ly)"] by simp
  then show ?case
    using Cons.IH [OF _ dims(3), of ly1] Cons.prems(1,3) dims(1) ly1 by auto
qed (use assms(4) in auto)

lemma foldl_max_pow2: "pow2 m \<Longrightarrow> list_all pow2 as \<Longrightarrow> pow2 (foldl max m as)"
  by (induction as arbitrary: m) (auto simp: max_def)

lemma foldl_max_ge: "x \<in> insert m (set as) \<Longrightarrow> x \<le> foldl max m as" for m :: "'a :: linorder"
proof (induction as arbitrary: m x)
  case (Cons a as)
  show ?case
  proof (cases "x \<in> set as")
    case True
    then show ?thesis using Cons.IH [of x "max m a"] by simp
  next
    case False
    then have "x \<le> max m a" using Cons.prems by auto
    then show ?thesis using Cons.IH [of "max m a" "max m a"] by (metis foldl_Cons insertI1 order_trans)
  qed
qed simp

lemma foldl_max_mem: "foldl max m as \<in> insert m (set as)" for m :: "'a :: linorder"
  by (induction as arbitrary: m) (auto simp: max_def)

lemma round_size_to_align_value:
  assumes "pow2 al" "unat sz + unat al < 2 ^ 32"
  shows "\<exists>v. round_size_to_align sz al = Inr v \<and> unat v = round_up (unat sz) (unat al)"
proof -
  obtain k where k: "unat al = 2 ^ k" using assms(1) by (rule pow2E)
  have u: "unat (ucast sz :: u64) = unat sz"
    using unsigned_less [of sz, where 'a = nat] by (simp add: unsigned_ucast_eq take_bit_nat_eq_self)
  obtain v where v: "pack_to_align (ucast sz) al = Inr v" "unat v = round_up (unat sz) (unat al)"
    using pack_to_align_value [OF k, of "ucast sz"] assms(2) k u by (auto simp: round_up_def)
  have "unat v < 2 ^ 32" using v(2) assms(2) round_up_props(3) [OF pow2_pos [OF assms(1)], of "unat sz"] by simp
  then have "unat (ucast v :: u32) = unat v" by (simp add: unsigned_ucast_eq take_bit_nat_eq_self)
  then show ?thesis using v by (simp add: round_size_to_align_def)
qed


lemma max_align_attribute_none:
  "list_all (\<lambda>a. at_kind a \<noteq> attr_aligned) as \<Longrightarrow> max_align_attribute as mn mx err = Inr (mx, err)"
  by (induction as) simp_all

lemma space_mem: "dim \<in> set dims \<Longrightarrow> unat (snd dim) \<le> space dims"
  by (induction dims) (auto simp: space_def)

text \<open>The size of the struct is the end of the last member, rounded up to the greatest alignment.\<close>

lemma fold_sue_ordinary:
  assumes "sd_primitive sue = type_struct"
    "list_all (\<lambda>a. at_kind a \<noteq> attr_aligned) (sd_attr sue)"
    "list_all (ordinary env lo sue) ds"
    "list_all2 (\<lambda>d dim. member_dims env (attr_present (sd_attr sue) attr_packed \<noteq> None) d = Inr dim) ds dims"
    "list_all (\<lambda>(sz, al). pow2 al) dims"
    "space dims < 2 ^ 30"
  shows "\<exists>size ly. fold_sue env lo sue ds = Inr (size, foldl max 1 (map snd dims), ly) \<and>
    map fst (ly_placed ly) = ds \<and>
    map (\<lambda>(d, pl). unat (struct_offset pl)) (ly_placed ly) = place 0 (nat_dims dims) \<and>
    unat size = round_up (place_end 0 (nat_dims dims)) (unat (foldl max 1 (map snd dims)))"
proof -
  let ?n = "nat_dims dims" let ?packed = "attr_present (sd_attr sue) attr_packed \<noteq> None"
  obtain ly where ly: "fold_sue_members env lo sue ?packed ds layout_init = Inr ly"
    "unat (ly_offset ly) = place_end 0 ?n" "ly_align_max ly = foldl max 1 (map snd dims)"
    "map fst (ly_placed ly) = ds"
    "map (\<lambda>(d, pl). unat (struct_offset pl)) (ly_placed ly) = place 0 ?n"
    using fold_sue_members_ordinary [OF assms(3,1,4,5), of layout_init] assms(6) by (auto simp: layout_init_def)
  let ?a = "foldl max 1 (map snd dims)"
  have pos: "list_all (\<lambda>(sz, al). 0 < al) ?n"
    using assms(5) pow2_pos by (fastforce simp: list_all_iff)
  have a: "pow2 ?a" using assms(5) by (intro foldl_max_pow2) (auto simp: list_all_iff pow2_one)
  have "place_end 0 ?n \<le> space dims"
    using place_end_bound [OF pos, of 0] by (simp add: space_def split_def comp_def)
  moreover have "unat ?a < 2 ^ 30"
    using foldl_max_mem [of 1 "map snd dims"] space_mem [of _ dims] assms(6) by fastforce
  ultimately have lt: "place_end 0 ?n + 2 * unat ?a < 2 ^ 32" using assms(6) by simp
  obtain k where k: "unat ?a = 2 ^ k" using a by (rule pow2E)
  let ?s = "round_up (place_end 0 ?n) (unat ?a)"
  note ru = round_up_props [OF pow2_pos [OF a], of "place_end 0 ?n"]
  obtain v where v: "pack_to_align (ly_offset ly) ?a = Inr v" "unat v = ?s"
    using pack_to_align_value [OF k, of "ly_offset ly"] lt ly(2) k by (auto simp: round_up_def)
  then have u: "unat (ucast v :: u32) = ?s"
    using lt ru(3) by (simp add: unsigned_ucast_eq take_bit_nat_eq_self)
  moreover have "?s + unat ?a < 2 ^ 32" using lt ru(3) by simp
  ultimately obtain s1 where s1: "round_size_to_align (ucast v) ?a = Inr s1" "unat s1 = ?s"
    using round_size_to_align_value [OF a, of "ucast v"] ru(1) by auto
  obtain s2 where s2: "round_size_to_align s1 ?a = Inr s2" "unat s2 = ?s"
    using round_size_to_align_value [OF a, of s1] ru(1) s1(2) \<open>?s + unat ?a < 2 ^ 32\<close> by auto
  have "fold_sue env lo sue ds = Inr (s2, ?a, ly)"
    unfolding fold_sue_def ly(1) bindE_simps
    by (simp add: ly(3) assms(1) v(1) s1(1) s2(1) fold_get_max_align_attribute_def max_align_attribute_none [OF assms(2)])
  then show ?thesis using ly(4,5) s2(2) by blast
qed

text \<open>
  C11: The layout of a struct without bit-fields and without an \<^verbatim>\<open>aligned\<close> attribute of its own,
  whose members have power-of-two alignments and together stay below 1 GiB: every member is
  at a multiple of its alignment (1 under \<^verbatim>\<open>packed\<close>), ends no later than the next one starts,
  the last one ends within the size, the struct's alignment is the greatest of the members'
  and divides the size.
\<close>

theorem struct_layout_correct:
  assumes "sd_primitive sue = type_struct"
    "list_all (\<lambda>a. at_kind a \<noteq> attr_aligned) (sd_attr sue)"
    "list_all (ordinary env lo sue) ds"
    "list_all2 (\<lambda>d dim. member_dims env (attr_present (sd_attr sue) attr_packed \<noteq> None) d = Inr dim) ds dims"
    "list_all (\<lambda>(sz, al). pow2 al) dims"
    "space dims < 2 ^ 30"
  shows "\<exists>size align ly. fold_sue env lo sue ds = Inr (size, align, ly) \<and>
    map fst (ly_placed ly) = ds \<and>
    align \<in> insert 1 (set (map snd dims)) \<and> (\<forall>al \<in> insert 1 (set (map snd dims)). al \<le> align) \<and>
    unat align dvd unat size \<and>
    (\<forall>i < length ds. let off = \<lambda>j. unat (struct_offset (snd (ly_placed ly ! j))) in
       unat (snd (dims ! i)) dvd off i \<and>
       off i + unat (fst (dims ! i)) \<le> (if Suc i < length ds then off (Suc i) else unat size))"
proof -
  let ?a = "foldl max 1 (map snd dims)" let ?n = "nat_dims dims"
  obtain size ly where f: "fold_sue env lo sue ds = Inr (size, ?a, ly)" "map fst (ly_placed ly) = ds"
    "map (\<lambda>(d, pl). unat (struct_offset pl)) (ly_placed ly) = place 0 ?n"
    "unat size = round_up (place_end 0 ?n) (unat ?a)"
    using fold_sue_ordinary [OF assms] by blast
  have len: "length dims = length ds" using assms(4) by (simp add: list_all2_lengthD)
  have pos: "list_all (\<lambda>(sz, al). 0 < al) ?n" using assms(5) pow2_pos by (fastforce simp: list_all_iff)
  have a: "pow2 ?a" using assms(5) by (intro foldl_max_pow2) (auto simp: list_all_iff pow2_one)
  note ru = round_up_props [OF pow2_pos [OF a], of "place_end 0 ?n"]
  have off: "unat (struct_offset (snd (ly_placed ly ! j))) = place 0 ?n ! j" if "j < length ds" for j
    using that arg_cong [OF f(2), of length] by (simp flip: f(3) add: case_prod_beta)
  have "unat (snd (dims ! i)) dvd unat (struct_offset (snd (ly_placed ly ! i))) \<and>
     unat (struct_offset (snd (ly_placed ly ! i))) + unat (fst (dims ! i))
       \<le> (if Suc i < length ds then unat (struct_offset (snd (ly_placed ly ! Suc i))) else unat size)"
    if i: "i < length ds" for i
    using place_ok [OF pos, of i 0] i len off ru(2) f(4) by (auto simp: split_def)
  then show ?thesis
    using f ru(1) foldl_max_mem [of 1 "map snd dims"] foldl_max_ge [of _ 1 "map snd dims"]
    by (intro exI [of _ size] exI [of _ ?a] exI [of _ ly] conjI ballI allI impI) (simp_all only: Let_def)
qed


text \<open>The witness: \<^verbatim>\<open>struct { char a; int b; char c; }\<close>.\<close>

definition example_member :: "string \<Rightarrow> type_primitive \<Rightarrow> u32 option \<Rightarrow> member" where
  "example_member sp p w =
     \<lparr>mb_spel = Some sp, mb_ref = T_btype \<lparr>bt_primitive = p, bt_sue = None\<rparr>, mb_field_width = w,
      mb_align_resolved = 0, mb_attr = []\<rparr>"

definition example_sue :: "type_primitive \<Rightarrow> sue_decl" where
  "example_sue p = \<lparr>sd_primitive = p, sd_attr = [], sd_self = 0\<rparr>"

definition example_lo :: layout_opts where
  "example_lo = \<lparr>lo_tag_anon_struct_ext = False, lo_anon = (\<lambda>_. False)\<rparr>"

text \<open>Facts that evaluate the layout of members of arithmetic type.\<close>

lemma type_is_variably_modified_btype: "type_is_variably_modified (T_btype b) = Inr False"
  unfolding type_is_variably_modified_def type_is_variably_modified_vla_def
  by (subst variably_loop.simps) (simp add: type_is_def type_next_def type_skip_all_def)

lemma type_align_btype: "bt_sue b = None \<Longrightarrow> type_align env (T_btype b) = btype_align env b"
  unfolding type_align_def
  by (subst type_align_with_attr.simps)
     (simp add: type_is_s_or_u_def type_is_s_or_u_or_e_def type_is_btype_def type_is_def type_skip_all_def)

lemma type_is_complete_btype:
  "bt_sue b = None \<Longrightarrow> bt_primitive b \<notin> {type_void, type_struct, type_union, type_enum} \<Longrightarrow>
   type_is_complete env (T_btype b) = Inr True"
  by (subst type_is_complete.simps) (auto simp: type_skip_all_def split: type_primitive.splits)

lemma narrow_int: "type_nav_MAX_FOR example_env 1 True = Inr (T_btype \<lparr>bt_primitive = type_schar, bt_sue = None\<rparr>)"
  by code_simp

lemma prim_sizes:
  "type_primitive_size env type_schar = Inr 1" "type_primitive_size env type_int = Inr 4"
  "type_primitive_size env type_nchar = Inr 1"
  by (simp_all add: type_primitive_size_def)

lemma ucast_minus_one: "ucast (- 1 :: u32) = (0xFFFFFFFF :: u64)"
  by code_simp

lemmas layout_calc = narrow_int prim_sizes type_is_variably_modified_btype type_align_btype
  type_is_complete_btype type_is_s_or_u_def type_is_s_or_u_or_e_def type_is_btype_def type_is_def
  type_skip_all_def type_is_incomplete_array_def type_is_void_def type_is_primitive_def
  btype_size_def btype_align_def is_func_def decl_size_def decl_align_def decl_align1_def
  attribute_present_def

theorem struct_layout_correct_witness:
  "\<exists>size align ly. fold_sue example_env example_lo (example_sue type_struct)
     [example_member ''a'' type_nchar None, example_member ''b'' type_int None, example_member ''c'' type_nchar None]
     = Inr (size, align, ly) \<and> unat align dvd unat size"
proof -
  let ?ds = "[example_member ''a'' type_nchar None, example_member ''b'' type_int None,
    example_member ''c'' type_nchar None]"
  let ?dims = "[(1, 1), (4, 4), (1, 1)]"
  have "list_all (ordinary example_env example_lo (example_sue type_struct)) ?ds"
    by (simp add: ordinary_def layout_calc example_member_def fold_sue_check_unnamed_def)
  moreover have "list_all2 (\<lambda>d dim. member_dims example_env
      (attr_present (sd_attr (example_sue type_struct)) attr_packed \<noteq> None) d = Inr dim) ?ds ?dims"
    by (simp add: member_dims_def layout_calc example_member_def example_sue_def attr_present_def)
  moreover have "list_all (\<lambda>(sz, al). pow2 al) ?dims"
    using pow2_one by (simp add: pow2_def) (rule image_eqI [of _ _ 2], simp_all)
  moreover have "space ?dims < 2 ^ 30" by (simp add: space_def)
  moreover have "sd_primitive (example_sue type_struct) = type_struct"
    "list_all (\<lambda>a. at_kind a \<noteq> attr_aligned) (sd_attr (example_sue type_struct))" by (simp_all add: example_sue_def)
  ultimately show ?thesis
    using struct_layout_correct [of "example_sue type_struct" example_env example_lo ?ds ?dims] by blast
qed


section \<open>Bit-fields overlap\<close>

text \<open>
  The storage of a group of bit-fields is sized from its first field alone.  In
  \<^verbatim>\<open>struct { int a : 3; int b : 20; char c; }\<close> it is one byte: \<^verbatim>\<open>b\<close> takes the bits 3 to 22 from
  offset 0, and \<^verbatim>\<open>c\<close> is put at offset 1, on top of the bits 8 to 15 of \<^verbatim>\<open>b\<close>.
\<close>

lemmas layout_eval = layout_calc ucast_minus_one fold_sue_def fold_sue_member_def fold_sue_calc_fieldwidth_def
  fieldwidth_advance_def decl_size_align_inc_bitfield_def decl_type_for_bitfield_def
  fold_sue_calc_normal_def populate_size_align_def fold_sue_check_unnamed_def
  fold_sue_apply_normal_offset_def struct_pack_def pack_next_def pack_to_align_def round_size_to_align_def
  fold_get_max_align_attribute_def attr_present_def btype_is_signed_def type_primitive_is_signed_def
  example_member_def example_sue_def example_lo_def layout_init_def no_placement_def Let_def

lemma bitfield_member_overlaps:
  "\<exists>ly. fold_sue example_env example_lo (example_sue type_struct)
     [example_member ''a'' type_int (Some 3), example_member ''b'' type_int (Some 20), example_member ''c'' type_nchar None]
     = Inr (4, 4, ly) \<and>
   map (\<lambda>(d, pl). (struct_offset pl, struct_offset_bitfield pl)) (ly_placed ly) = [(0, 0), (0, 3), (1, 0)]"
  by (simp add: layout_eval)

text \<open>
  In a union the bit-fields are laid out behind each other: in \<^verbatim>\<open>union { int a : 3; int b : 4; }\<close>
  the second one is at bit 3, where C puts both at bit 0.
\<close>

lemma union_bitfields_in_sequence:
  "\<exists>sz ly. fold_sue example_env example_lo (example_sue type_union)
     [example_member ''a'' type_int (Some 3), example_member ''b'' type_int (Some 4)] = Inr (sz, 4, ly) \<and>
   map (\<lambda>(d, pl). (struct_offset pl, struct_offset_bitfield pl)) (ly_placed ly) = [(0, 0), (0, 3)]"
  by (simp add: layout_eval)

section \<open>Enumerations\<close>

text \<open>
  An enumerator without a value (\<^verbatim>\<open>(expr * )-1\<close>), with a constant and whether the constant is
  unsigned, or with an expression that \<^verbatim>\<open>fold_check_expr\<close> rejects.
\<close>

datatype enum_init = No_init | Const_init u64 bool | Bad_init

record enum_state =
  en_defval :: u32
  en_max :: u64
  en_min :: u64
  en_signed :: bool
  en_error :: bool
  en_values :: "u64 list"

abbreviation (input) UCC_INT_MAX :: u64 where "UCC_INT_MAX \<equiv> 2147483647"

text \<open>The end of a round: \<open>next_default\<close> says that the next enumerator has no value.\<close>

definition fold_enum_value :: "bool \<Rightarrow> bool \<Rightarrow> u64 \<Rightarrow> bool \<Rightarrow> enum_state \<Rightarrow> enum_state" where
  "fold_enum_value has_bitmask next_default v negative st =
     (let st = (if v = UCC_INT_MAX \<and> next_default then st\<lparr>en_error := True\<rparr> else st);
          st = (if negative
                then (if sint v < sint (en_min st) then st\<lparr>en_min := v\<rparr> else st)
                else (if v > en_max st then st\<lparr>en_max := v\<rparr> else st))
      in st\<lparr>en_signed := en_signed st \<or> negative,
            en_defval := (if has_bitmask then ucast (push_bit 1 v) else ucast (v + 1)),
            en_values := en_values st @ [v]\<rparr>)"

fun fold_enum_members :: "bool \<Rightarrow> enum_init list \<Rightarrow> enum_state \<Rightarrow> enum_state" where
  "fold_enum_members has_bitmask [] st = st"
| "fold_enum_members has_bitmask (m # ms) st =
     (let next_default = (case ms of n # _ \<Rightarrow> n = No_init | [] \<Rightarrow> False) in
      fold_enum_members has_bitmask ms
        (case m of
           No_init \<Rightarrow> fold_enum_value has_bitmask next_default (scast (en_defval st)) False st
         | Const_init v is_unsigned \<Rightarrow>
             fold_enum_value has_bitmask next_default v (\<not> is_unsigned \<and> sint v < 0) st
         | Bad_init \<Rightarrow> st\<lparr>en_error := True\<rparr>))"

definition fold_enum ::
  "tenv \<Rightarrow> bool \<Rightarrow> sue_decl \<Rightarrow> enum_init list \<Rightarrow> (u32 \<times> u32 \<times> enum_state) outcome" where
  "fold_enum env short_enums en ms =
     (let has_bitmask = (attr_present (sd_attr en) attr_enum_bitmask \<noteq> None);
          st = fold_enum_members has_bitmask ms
                 \<lparr>en_defval = (if has_bitmask then 1 else 0), en_max = 0, en_min = 0, en_signed = False,
                  en_error = False, en_values = []\<rparr> in
      bindE (if short_enums then
               let bits = (word_of_int (max (log2ll (round2 (- en_min st + 1)))
                                            (log2ll (round2 (en_max st + 1)))) :: u32);
                   bits = (ucast (round2 (ucast bits)) :: u32);
                   bits = (if bits < 8 then 8 else bits) in
               type_nav_MAX_FOR env (bits div 8) (en_signed st)
             else Inr (T_btype \<lparr>bt_primitive = type_int, bt_sue = None\<rparr>)) (\<lambda>contained_ty.
      bindE (type_size env contained_ty) (\<lambda>sz.
      bindE (type_align env contained_ty) (\<lambda>align.
      bindE (round_size_to_align sz align) (\<lambda>size. Inr (size, align, st))))))"

text \<open>An enumerator without a value is one more than the one before, as long as that fits an \<^verbatim>\<open>int\<close>.\<close>

lemma enum_default_next:
  assumes "unat v < 2 ^ 31 - 1"
  shows "en_values (fold_enum_members False [Const_init v u, No_init] st) = en_values st @ [v, v + 1]"
proof -
  have "unat (v + 1) < 2 ^ 31" using assms by (simp add: unat_word_ariths)
  then have "uint (v + 1) < 2 ^ 31" by (metis of_nat_unat of_nat_less_numeral_power_cancel_iff)
  then have "signed_take_bit 31 (uint (v + 1)) = uint (v + 1)"
    by (intro signed_take_bit_int_eq_self order_trans [OF _ unsigned_greater_eq]) simp_all
  then have "sint (ucast (v + 1) :: u32) = uint (v + 1)" by (simp add: signed_ucast_eq)
  then have "scast (ucast (v + 1) :: u32) = v + 1" by (metis of_int_sint word_of_int_uint)
  then show ?thesis by (simp add: fold_enum_value_def Let_def)
qed

text \<open>
  Under \<^verbatim>\<open>-fshort-enums\<close> the sign takes no bit: \<^verbatim>\<open>enum { A = -1, B = 200 }\<close> gets one byte, of
  type \<^verbatim>\<open>signed char\<close>.
\<close>

lemma short_enum_sign:
  "\<exists>st. fold_enum example_env True (example_sue type_enum) [Const_init (-1) False, Const_init 200 False] = Inr (1, 1, st)"
proof -
  have l: "log2ll (round2 2) = 1" "log2ll (round2 201) = 8" "round2 8 = 8" by code_simp+
  show ?thesis
    by (simp add: fold_enum_def Let_def fold_enum_value_def example_sue_def attr_present_def l layout_calc
      round_size_to_align_def pack_to_align_def ucast_minus_one)
qed

end
