(* ===== verification/Ucc_Cstring.thy ===== *)
theory Ucc_Cstring
  imports Ucc_Escape
begin

text \<open>
  String literals: \<^verbatim>\<open>src/cc1/str.c\<close>.  A literal is read raw, with its escapes replaced by
  \<open>cstring_escape\<close>, joined with its neighbours by \<open>cstring_append\<close>, and printed for the
  assembler by \<open>str_add_escape\<close>.  The array behind a literal is a list of bytes or of 32-bit
  characters, one longer than \<^verbatim>\<open>count\<close> where the code keeps a terminator behind the end;
  reading outside it is an error.
\<close>

section \<open>Definitions\<close>

datatype cstring_type = CSTRING_RAW | CSTRING_ASCII | CSTRING_WIDE

datatype cbits = Ascii "char list" | Wides "u32 list"

record cstring =
  cs_type :: cstring_type
  cs_bits :: cbits
  cs_count :: nat

abbreviation (input) NUL :: char where "NUL \<equiv> CHR 0x00"

text \<open>\<^verbatim>\<open>cstring_init\<close> and \<^verbatim>\<open>cstring_new\<close>: \<open>start\<close> is the first \<^verbatim>\<open>len\<close> characters.\<close>

definition cstring_new :: "cstring_type \<Rightarrow> string \<Rightarrow> bool \<Rightarrow> cstring" where
  "cstring_new t start include_nul =
     \<lparr>cs_type = t, cs_bits = Ascii (start @ [NUL]), cs_count = length start + (if include_nul then 1 else 0)\<rparr>"

definition ascii_of :: "cstring \<Rightarrow> char list outcome" where
  "ascii_of c = (case cs_bits c of Ascii a \<Rightarrow> Inr a | Wides w \<Rightarrow> Inl (Undefined ''bits.ascii''))"

definition wides_of :: "cstring \<Rightarrow> u32 list outcome" where
  "wides_of c = (case cs_bits c of Wides w \<Rightarrow> Inr w | Ascii a \<Rightarrow> Inl (Undefined ''bits.wides''))"

definition at_index :: "'a list \<Rightarrow> nat \<Rightarrow> 'a outcome" where
  "at_index xs i = (if i < length xs then Inr (xs ! i) else Inl Out_of_bounds)"

definition cstring_char_at :: "cstring \<Rightarrow> nat \<Rightarrow> int outcome" where
  "cstring_char_at c i =
     (if cs_type c = CSTRING_WIDE
      then bindE (wides_of c) (\<lambda>w. bindE (at_index w i) (\<lambda>v. Inr (sint v)))
      else bindE (ascii_of c) (\<lambda>a. bindE (at_index a i) (\<lambda>v. Inr (char_sval v))))"

text \<open>Storing an \<^verbatim>\<open>int\<close> in a \<^verbatim>\<open>char\<close>.\<close>

definition char_of_int :: "int \<Rightarrow> char" where
  "char_of_int v = char_of (nat (v mod 256))"

definition cstring_widen :: "cstring \<Rightarrow> cstring outcome" where
  "cstring_widen c =
     (if cs_type c = CSTRING_WIDE then Inl (Assert_failed ''CSTRING_RAW || CSTRING_ASCII'')
      else bindE (ascii_of c) (\<lambda>a.
        if length a < cs_count c + 1 then Inl Out_of_bounds
        else Inr (c\<lparr>cs_type := CSTRING_WIDE,
                   cs_bits := Wides (map (\<lambda>x. of_int (char_sval x)) (take (cs_count c + 1) a))\<rparr>)))"

definition cstring_asciify :: "cstring \<Rightarrow> cstring outcome" where
  "cstring_asciify c =
     (if cs_type c \<noteq> CSTRING_WIDE then Inl (Assert_failed ''CSTRING_WIDE'')
      else bindE (wides_of c) (\<lambda>w.
        if length w < cs_count c + 1 then Inl Out_of_bounds
        else Inr (c\<lparr>cs_type := CSTRING_ASCII,
                   cs_bits := Ascii (map (\<lambda>x. char_of_int (sint x)) (take (cs_count c + 1) w))\<rparr>)))"

text \<open>
  The loop of \<^verbatim>\<open>cstring_escape\<close>: position, the characters written so far, and the warnings and
  errors for which \<^verbatim>\<open>handle_escape_warn_err\<close> is called.
\<close>

function escape_string_loop ::
  "bool \<Rightarrow> char list \<Rightarrow> nat \<Rightarrow> nat \<Rightarrow> int list \<Rightarrow> (errno \<times> errno) list \<Rightarrow> (int list \<times> (errno \<times> errno) list) outcome"
where
  "escape_string_loop is_wide a count i out msgs =
     (if \<not> i < count then Inr (out, msgs)
      else bindE (at_index a i) (\<lambda>ch.
        if \<not> length out + 1 \<le> count then Inl (Assert_failed ''iout <= cstr->count'')
        else if ch = CHR 0x5C then
          (let start = takeWhile (\<lambda>x. x \<noteq> NUL) (drop (i + 1) a) in
           bindE (escape_char_1 start is_wide E_none E_none) (\<lambda>(add, end, warn, err).
             escape_string_loop is_wide a count (i + 1 + (length start - length end))
               (out @ [add]) (msgs @ [(warn, err)])))
        else escape_string_loop is_wide a count (i + 1) (out @ [char_sval ch]) msgs))"
  by pat_completeness auto
termination
  by (relation "measure (\<lambda>(is_wide, a, count, i, out, msgs). count - i)") auto

declare escape_string_loop.simps [simp del]

definition cstring_escape :: "bool \<Rightarrow> cstring \<Rightarrow> (cstring \<times> (errno \<times> errno) list) outcome" where
  "cstring_escape is_wide c =
     (if cs_type c \<noteq> CSTRING_RAW then Inl (Assert_failed ''cstr->type == CSTRING_RAW'')
      else bindE (ascii_of c) (\<lambda>a.
        bindE (escape_string_loop is_wide a (cs_count c) 0 [] []) (\<lambda>(out, msgs).
          let rest = cs_count c + 1 - length out in
          Inr (\<lparr>cs_type = (if is_wide then CSTRING_WIDE else CSTRING_ASCII),
                cs_bits = (if is_wide then Wides (map of_int out @ replicate rest 0)
                           else Ascii (map char_of_int out @ replicate rest NUL)),
                cs_count = length out\<rparr>, msgs))))"

definition cstring_detach :: "cstring \<Rightarrow> char list outcome" where
  "cstring_detach c =
     (if cs_type c = CSTRING_WIDE then Inl (Assert_failed ''cstr->type != CSTRING_WIDE'') else ascii_of c)"

definition cstring_converting_detach :: "cstring \<Rightarrow> char list outcome" where
  "cstring_converting_detach c =
     bindE (if cs_type c = CSTRING_WIDE then cstring_asciify c else Inr c) cstring_detach"

text \<open>Whether \<^verbatim>\<open>cstring_eq\<close> returns 0, which stands for equal.\<close>

definition cstring_eq :: "cstring \<Rightarrow> cstring \<Rightarrow> bool outcome" where
  "cstring_eq a b =
     (if cs_type a \<noteq> cs_type b \<or> cs_count a \<noteq> cs_count b then Inr False
      else if cs_type a = CSTRING_WIDE then
        bindE (wides_of a) (\<lambda>x. bindE (wides_of b) (\<lambda>y.
          if length x < cs_count a \<or> length y < cs_count a then Inl Out_of_bounds
          else Inr (take (cs_count a) x = take (cs_count a) y)))
      else
        bindE (ascii_of a) (\<lambda>x. bindE (ascii_of b) (\<lambda>y.
          if length x < cs_count a \<or> length y < cs_count a then Inl Out_of_bounds
          else Inr (take (cs_count a) x = take (cs_count a) y))))"

fun hash_loop :: "cstring \<Rightarrow> nat \<Rightarrow> nat \<Rightarrow> u32 \<Rightarrow> u32 outcome" where
  "hash_loop c i 0 hash = Inr hash"
| "hash_loop c i (Suc n) hash =
     bindE (cstring_char_at c i) (\<lambda>v. hash_loop c (i + 1) n ((push_bit 5 hash + hash) + of_int v))"

definition cstring_hash :: "cstring \<Rightarrow> u32 outcome" where
  "cstring_hash c = hash_loop c 0 (cs_count c) 5381"

text \<open>\<^verbatim>\<open>cstring_append\<close>: \<^verbatim>\<open>memcpy\<close> of \<^verbatim>\<open>addend->count + 1\<close> characters into the enlarged array.\<close>

definition copy_into :: "'a list \<Rightarrow> nat \<Rightarrow> 'a list \<Rightarrow> 'a list outcome" where
  "copy_into xs off ys =
     (if off + length ys \<le> length xs then Inr (take off xs @ ys @ drop (off + length ys) xs) else Inl Out_of_bounds)"

text \<open>The enlarged array: what \<^verbatim>\<open>realloc\<close> adds is not written by it; \<open>fill\<close> stands for it.\<close>

definition grow :: "'a \<Rightarrow> 'a list \<Rightarrow> nat \<Rightarrow> 'a list" where
  "grow fill xs n = take n xs @ replicate (n - length xs) fill"

definition append_arrays :: "'a \<Rightarrow> 'a list \<Rightarrow> nat \<Rightarrow> 'a list \<Rightarrow> nat \<Rightarrow> bool \<Rightarrow> 'a list outcome" where
  "append_arrays fill xs count ys add_count last_is_nul =
     (if length ys < add_count + 1 then Inl Out_of_bounds
      else copy_into (grow fill xs (count + add_count + 1)) (count - (if last_is_nul then 1 else 0))
             (take (add_count + 1) ys))"

definition cstring_append :: "cstring \<Rightarrow> cstring \<Rightarrow> cstring outcome" where
  "cstring_append out addend =
     (if cs_count out = 0 then Inl Out_of_bounds
      else
        bindE (cstring_char_at out (cs_count out - 1)) (\<lambda>l.
        let last_is_nul = (l = 0) in
        bindE (if cs_type addend \<noteq> cs_type out then
                 if cs_type addend = CSTRING_WIDE then bindE (cstring_widen out) (\<lambda>o'. Inr (o', addend))
                 else if cs_type out = CSTRING_WIDE then bindE (cstring_widen addend) (\<lambda>a'. Inr (out, a'))
                 else Inl (Assert_failed ''CSTRING_WIDE'')
               else Inr (out, addend)) (\<lambda>(o1, a1).
        bindE (if cs_type o1 = CSTRING_WIDE then
                 bindE (wides_of o1) (\<lambda>x. bindE (wides_of a1) (\<lambda>y.
                 bindE (append_arrays 0 x (cs_count o1) y (cs_count a1) last_is_nul) (\<lambda>z. Inr (Wides z))))
               else
                 bindE (ascii_of o1) (\<lambda>x. bindE (ascii_of a1) (\<lambda>y.
                 bindE (append_arrays NUL x (cs_count o1) y (cs_count a1) last_is_nul) (\<lambda>z. Inr (Ascii z))))) (\<lambda>b.
          Inr (o1\<lparr>cs_bits := b,
                  cs_count := cs_count o1 + cs_count a1 - (if last_is_nul then 1 else 0)\<rparr>)))))"

section \<open>Printing\<close>

text \<open>\<^verbatim>\<open>isprint\<close> in the C locale; its argument is an \<^verbatim>\<open>int\<close>.\<close>

definition isprint :: "int \<Rightarrow> bool" where
  "isprint v \<longleftrightarrow> 32 \<le> v \<and> v < 127"

text \<open>\<^verbatim>\<open>%03o\<close> of an \<^verbatim>\<open>unsigned char\<close>.\<close>

definition octal3 :: "nat \<Rightarrow> string" where
  "octal3 n = [char_of (48 + n div 64), char_of (48 + n div 8 mod 8), char_of (48 + n mod 8)]"

definition print_char :: "int \<Rightarrow> string" where
  "print_char v =
     (if v = 92 \<or> v = 34 then [CHR 0x5C, char_of_int v]
      else if \<not> isprint v then CHR 0x5C # octal3 (nat (v mod 256))
      else [char_of_int v])"

fun add_escape_loop :: "cstring \<Rightarrow> nat \<Rightarrow> nat \<Rightarrow> string outcome" where
  "add_escape_loop c i 0 = Inr []"
| "add_escape_loop c i (Suc n) =
     bindE (cstring_char_at c i) (\<lambda>v. bindE (add_escape_loop c (i + 1) n) (\<lambda>r. Inr (print_char v @ r)))"

definition str_add_escape :: "cstring \<Rightarrow> string outcome" where
  "str_add_escape c = add_escape_loop c 0 (cs_count c)"

text \<open>The size of the buffer that \<^verbatim>\<open>str_add_escape\<close> allocates for it, without the terminator.\<close>

definition print_size :: "int \<Rightarrow> nat" where
  "print_size v = (if v = 92 \<or> v = 34 then 3 else if \<not> isprint v then 4 else 1)"

section \<open>Printing and reading back\<close>

abbreviation print_byte :: "char \<Rightarrow> string" where
  "print_byte b \<equiv> print_char (char_sval b)"

abbreviation print_bytes :: "char list \<Rightarrow> string" where
  "print_bytes bs \<equiv> concat (map print_byte bs)"

lemma char_of_int_sval [simp]: "char_of_int (char_sval b) = b"
proof -
  have "char_sval b mod 256 = int (char_code b)"
    using char_code_bound [of b] by (simp add: char_sval_def)
  then show ?thesis by (simp add: char_of_int_def char_code_def)
qed

lemma char_of_int_code [simp]: "char_of_int (int (char_code b)) = b"
  using char_code_bound [of b] by (simp add: char_of_int_def char_code_def)

lemma char_sval_mod: "nat (char_sval b mod 256) = char_code b"
  using char_code_bound [of b] by (simp add: char_sval_def)

lemma char_code_char_of [simp]: "n < 256 \<Longrightarrow> char_code (char_of n) = n"
  by (simp add: char_code_def)

lemma octal_digit:
  assumes "d < 8"
  shows "isodigit (char_of (48 + d))" "digit_val (char_of (48 + d)) = d"
    "char_of (48 + d) \<noteq> CHR ''_''" "char_of (48 + d) \<noteq> NUL"
proof -
  have c: "char_code (char_of (48 + d)) = 48 + d" using assms by simp
  then show "isodigit (char_of (48 + d))" "digit_val (char_of (48 + d)) = d"
    using assms by (simp_all add: isodigit_def digit_val_def isdigit_def)
  have "char_code (CHR ''_'') = 95" "char_code NUL = 0" by (simp_all add: char_code_def)
  then show "char_of (48 + d) \<noteq> CHR ''_''" "char_of (48 + d) \<noteq> NUL" using c assms by fastforce+
qed

lemma octal_read:
  assumes "n < 256" "take 1 r \<noteq> ''_''"
  shows "char_seq_to_ullong (octal3 n @ r) True OCT = (of_nat n, r, False)"
proof -
  let ?a = "n div 64" and ?b = "n div 8 mod 8" and ?c = "n mod 8"
  have d: "?a < 8" "?b < 8" "?c < 8" using assms(1) by auto
  have r: "dropWhile (\<lambda>d. d = CHR ''_'') r = r" using assms(2) by (cases r) auto
  have e: "n div 64 = n div 8 div 8" by (simp add: div_mult2_eq [symmetric])
  have n: "(?a * 8 + ?b) * 8 + ?c = n" unfolding e by (metis div_mult_mod_eq)
  have k1: "inc_and_chk 0 8 (of_nat ?a) = (of_nat ?a, False)"
    using inc_and_chk_fits [of 0 8 ?a] d by simp
  have k2: "inc_and_chk (of_nat ?a) 8 (of_nat ?b) = (of_nat (?a * 8 + ?b), False)"
    using inc_and_chk_fits [of ?a 8 ?b] d by simp
  have k3: "inc_and_chk (of_nat (?a * 8 + ?b)) 8 (of_nat ?c) = (of_nat n, False)"
    using inc_and_chk_fits [of "?a * 8 + ?b" 8 ?c] d unfolding n using assms(1) by simp
  show ?thesis
    unfolding char_seq_to_ullong_def read_ap_num_def octal3_def
    by (simp add: octal_digit d k1 k2 k3 r del: of_nat_add of_nat_mult)
qed

lemma octal_escape:
  assumes "n < 256" "take 1 r \<noteq> ''_''"
  shows "escape_char_1 (octal3 n @ r) False E_none E_none = Inr (int n, r, E_none, E_none)"
proof -
  obtain e es where o: "octal3 n @ r = e # es" "isodigit e"
    using octal_digit(1) [of "n div 64"] assms(1) by (simp add: octal3_def)
  have x: "e \<noteq> CHR ''x''" using o(2) by (auto simp: isodigit_def char_code_def)
  have u: "unat (of_nat n :: u64) = n" using assms(1) by (simp add: unat_of_nat64)
  have "sint (ucast (of_nat n :: u64) :: u32) = int n"
    using assms(1) by (simp add: unsigned_of_nat take_bit_nat_eq_self signed_of_nat signed_take_bit_int_eq_self)
  moreover have "\<not> (0xff :: u64) < of_nat n" using u assms(1) by (simp add: word_less_nat_alt)
  moreover have "length (octal3 n @ r) \<noteq> length r" by (simp add: octal3_def)
  ultimately show ?thesis
    using octal_read [OF assms] o x by (simp add: escape_char_1_def Let_def)
qed

lemma print_byte_cases:
  obtains (quote) "b = CHR 0x5C \<or> b = CHR 0x22" "isprint (char_sval b)" "print_byte b = [CHR 0x5C, b]"
    | (octal) "\<not> isprint (char_sval b)" "print_byte b = CHR 0x5C # octal3 (char_code b)"
    | (plain) "isprint (char_sval b)" "print_byte b = [b]" "b \<noteq> CHR 0x5C" "b \<noteq> NUL"
proof -
  have q: "char_sval (CHR 0x5C) = 92" "char_sval (CHR 0x22) = 34" "char_sval NUL = 0"
    by (simp_all add: char_sval_def char_code_def)
  have inj: "char_sval b = char_sval c \<Longrightarrow> b = c" for c by (metis char_of_int_sval)
  consider "char_sval b = 92 \<or> char_sval b = 34" | "\<not> isprint (char_sval b)" "char_sval b \<noteq> 92" "char_sval b \<noteq> 34"
    | "isprint (char_sval b)" "char_sval b \<noteq> 92" "char_sval b \<noteq> 34" by blast
  then show thesis
  proof cases
    case 1
    then have "b = CHR 0x5C \<or> b = CHR 0x22" using inj q by metis
    then show thesis using 1 by (intro quote) (auto simp: print_char_def isprint_def)
  next
    case 2
    then show thesis by (intro octal) (auto simp: print_char_def char_sval_mod)
  next
    case 3
    then show thesis using q by (intro plain) (auto simp: print_char_def isprint_def)
  qed
qed

lemma octal3_no_nul: "NUL \<notin> set (octal3 (char_code b))"
proof -
  have "char_code b div 64 < 8" using char_code_bound [of b] by simp
  then show ?thesis
    using octal_digit(4) [of "char_code b div 64"] octal_digit(4) [of "char_code b div 8 mod 8"]
      octal_digit(4) [of "char_code b mod 8"]
    by (auto simp: octal3_def)
qed

lemma print_no_nul: "NUL \<notin> set (print_bytes bs)"
proof -
  have "NUL \<notin> set (print_byte b)" for b
    by (cases b rule: print_byte_cases) (use octal3_no_nul in auto)
  then show ?thesis by auto
qed

text \<open>No byte that is printed as an octal escape stands before an underscore.\<close>

fun no_sep :: "char list \<Rightarrow> bool" where
  "no_sep (b # c # r) \<longleftrightarrow> \<not> (\<not> isprint (char_sval b) \<and> c = CHR ''_'') \<and> no_sep (c # r)"
| "no_sep _ \<longleftrightarrow> True"

lemma print_hd_sep: "take 1 (print_bytes bs) = ''_'' \<Longrightarrow> bs \<noteq> [] \<and> hd bs = CHR ''_''"
  by (cases bs) (auto simp: print_char_def octal3_def split: if_splits)

definition read_value :: "char \<Rightarrow> int" where
  "read_value b = (if isprint (char_sval b) then char_sval b else int (char_code b))"

lemma char_of_int_read_value [simp]: "char_of_int (read_value b) = b"
  by (simp add: read_value_def)

lemma escape_string_step:
  assumes a: "a = pre @ print_byte b @ r @ [NUL]" and n: "NUL \<notin> set r" "count = length a - 1"
    and out: "length out \<le> length pre" and sep: "isprint (char_sval b) \<or> take 1 r \<noteq> ''_''"
  shows "\<exists>m. set m \<subseteq> {(E_none, E_none)} \<and>
    escape_string_loop False a count (length pre) out msgs =
    escape_string_loop False a count (length pre + length (print_byte b)) (out @ [read_value b]) (msgs @ m)"
proof -
  have i: "length pre < count" using a n(2) by (cases b rule: print_byte_cases) auto
  have at: "at_index a (length pre) = Inr (hd (print_byte b))"
    by (cases b rule: print_byte_cases) (auto simp: a at_index_def nth_append)
  have np: "NUL \<notin> set (tl (print_byte b) @ r)"
    using print_no_nul [of "[b]"] n(1) by (cases "print_byte b") auto
  have d: "drop (length pre + 1) a = (tl (print_byte b) @ r) @ [NUL]"
    by (cases b rule: print_byte_cases) (auto simp: a)
  have tw: "takeWhile (\<lambda>x. x \<noteq> NUL) (drop (length pre + 1) a) = tl (print_byte b) @ r"
    unfolding d using np by (subst takeWhile_append2) auto
  note step = escape_string_loop.simps [of False a count "length pre" out msgs, unfolded tw at]
  show ?thesis
  proof (cases b rule: print_byte_cases)
    case quote
    have "escape_char_1 (b # r) False E_none E_none = Inr (read_value b, r, E_none, E_none)"
      using quote(1) by (auto simp: escape_char_1_def Let_def isodigit_def escape_char1_def escapechars_def
        read_value_def isprint_def char_sval_def char_code_def)
    then show ?thesis using i out quote
      by (subst step) (auto simp: Let_def intro!: exI [of _ "[(E_none, E_none)]"])
  next
    case octal
    have "escape_char_1 (octal3 (char_code b) @ r) False E_none E_none = Inr (read_value b, r, E_none, E_none)"
      using octal sep octal_escape [OF char_code_bound] by (auto simp: read_value_def)
    then show ?thesis using i out octal
      by (subst step) (auto simp: Let_def numeral_eq_Suc intro!: exI [of _ "[(E_none, E_none)]"])
  next
    case plain
    then show ?thesis using i out
      by (subst step) (auto simp: read_value_def intro!: exI [of _ "[]"])
  qed
qed

lemma escape_string_printed:
  assumes "a = pre @ print_bytes bs @ [NUL]" "count = length a - 1" "length out \<le> length pre" "no_sep bs"
  shows "\<exists>m. set m \<subseteq> {(E_none, E_none)} \<and>
    escape_string_loop False a count (length pre) out msgs = Inr (out @ map read_value bs, msgs @ m)"
  using assms
proof (induction bs arbitrary: pre out msgs)
  case Nil
  then show ?case by (subst escape_string_loop.simps) (auto intro!: exI [of _ "[]"])
next
  case (Cons b bs)
  have sep: "isprint (char_sval b) \<or> take 1 (print_bytes bs) \<noteq> ''_''"
    using Cons.prems(4) print_hd_sep [of bs] by (cases bs) auto
  obtain m1 where m1: "set m1 \<subseteq> {(E_none, E_none)}"
    "escape_string_loop False a count (length pre) out msgs =
      escape_string_loop False a count (length (pre @ print_byte b)) (out @ [read_value b]) (msgs @ m1)"
    using escape_string_step [OF _ print_no_nul Cons.prems(2,3) sep] Cons.prems(1) by auto
  have "1 \<le> length (print_byte b)" by (cases b rule: print_byte_cases) auto
  then have le: "length (out @ [read_value b]) \<le> length (pre @ print_byte b)" using Cons.prems(3) by simp
  have "no_sep bs" using Cons.prems(4) by (cases bs) auto
  then obtain m2 where "set m2 \<subseteq> {(E_none, E_none)}"
    "escape_string_loop False a count (length (pre @ print_byte b)) (out @ [read_value b]) (msgs @ m1)
      = Inr ((out @ [read_value b]) @ map read_value bs, (msgs @ m1) @ m2)"
    using Cons.IH [OF _ Cons.prems(2) le, of "msgs @ m1"] Cons.prems(1) by auto
  then show ?case using m1 by (intro exI [of _ "m1 @ m2"]) auto
qed

lemma add_escape_loop_ascii:
  "cs_type c \<noteq> CSTRING_WIDE \<Longrightarrow> cs_bits c = Ascii a \<Longrightarrow> i + n \<le> length a \<Longrightarrow>
   add_escape_loop c i n = Inr (print_bytes (take n (drop i a)))"
  by (induction n arbitrary: i)
     (auto simp: cstring_char_at_def ascii_of_def at_index_def take_Suc_conv_app_nth take_Cons' drop_Suc
       Cons_nth_drop_Suc [symmetric])

text \<open>
  C17: Printing a literal for the assembler and reading the text back as a literal gives the same
  bytes, without a warning or an error, provided that no byte printed in octal stands before an
  underscore.
\<close>

theorem str_add_escape_round_trip:
  assumes "cs_type c \<noteq> CSTRING_WIDE" "cs_bits c = Ascii a" "cs_count c \<le> length a"
    "no_sep (take (cs_count c) a)"
  shows "\<exists>s d b msgs. str_add_escape c = Inr s \<and>
    cstring_escape False (cstring_new CSTRING_RAW s False) = Inr (d, msgs) \<and>
    set msgs \<subseteq> {(E_none, E_none)} \<and> cs_type d = CSTRING_ASCII \<and> cs_count d = cs_count c \<and>
    cs_bits d = Ascii b \<and> take (cs_count c) b = take (cs_count c) a"
proof -
  let ?bs = "take (cs_count c) a" let ?s = "print_bytes ?bs"
  have s: "str_add_escape c = Inr ?s"
    using add_escape_loop_ascii [OF assms(1,2), of 0 "cs_count c"] assms(3) by (simp add: str_add_escape_def)
  obtain m where m: "set m \<subseteq> {(E_none, E_none)}"
    "escape_string_loop False (?s @ [NUL]) (length ?s) 0 [] [] = Inr (map read_value ?bs, m)"
    using escape_string_printed [of "?s @ [NUL]" "[]" ?bs "length ?s" "[]" "[]"] assms(4) by auto
  have e: "cstring_escape False (cstring_new CSTRING_RAW ?s False) =
    Inr (\<lparr>cs_type = CSTRING_ASCII, cs_bits = Ascii (?bs @ replicate (length ?s + 1 - cs_count c) NUL),
          cs_count = cs_count c\<rparr>, m)"
    using m(2) assms(3) by (simp add: cstring_escape_def cstring_new_def ascii_of_def comp_def Let_def min_def)
  have "take (cs_count c) (?bs @ replicate (length ?s + 1 - cs_count c) NUL) = ?bs" using assms(3) by simp
  then show ?thesis using s e m(1) by fastforce
qed

text \<open>The bytes \<^verbatim>\<open>a\<close>, 1, a quote and 255.\<close>

theorem str_add_escape_round_trip_witness:
  "\<exists>s d b msgs. str_add_escape (cstring_new CSTRING_ASCII [CHR ''a'', CHR 0x01, CHR 0x22, CHR 0xFF] True) = Inr s \<and>
    cstring_escape False (cstring_new CSTRING_RAW s False) = Inr (d, msgs) \<and> cs_count d = 5 \<and>
    cs_bits d = Ascii b \<and> take 5 b = [CHR ''a'', CHR 0x01, CHR 0x22, CHR 0xFF, NUL]"
proof -
  let ?a = "[CHR ''a'', CHR 0x01, CHR 0x22, CHR 0xFF, NUL]"
  have n: "no_sep ?a" by simp
  show ?thesis
    using str_add_escape_round_trip [of "cstring_new CSTRING_ASCII [CHR ''a'', CHR 0x01, CHR 0x22, CHR 0xFF] True" ?a] n
    by (force simp: cstring_new_def numeral_eq_Suc)
qed

text \<open>
  The digits of an escape may be separated by underscores, and an underscore behind the last digit
  is skipped as well: the literal \<^verbatim>\<open>"\1_a"\<close> has the two characters 1 and \<^verbatim>\<open>a\<close>.
\<close>

lemma escape_eats_underscore:
  "\<exists>d. cstring_escape False (cstring_new CSTRING_RAW [CHR 0x5C, CHR ''1'', CHR ''_'', CHR ''a''] False)
     = Inr (d, [(E_none, E_none)]) \<and> cs_count d = 2"
proof -
  have "escape_char_1 ''1_a'' False E_none E_none = Inr (1, ''a'', E_none, E_none)" by code_simp
  then show ?thesis
    by (simp add: cstring_escape_def cstring_new_def ascii_of_def escape_string_loop.simps at_index_def)
qed

text \<open>The text always fits the buffer that was sized for it.\<close>

lemma str_add_escape_fits: "length (print_char v) \<le> print_size v"
  by (simp add: print_char_def print_size_def octal3_def)

text \<open>Joining two literals of bytes: the terminator of the first is dropped.\<close>

lemma cstring_append_ascii:
  assumes "cs_type o' = CSTRING_ASCII" "cs_bits o' = Ascii x" "0 < cs_count o'" "cs_count o' \<le> length x"
    "x ! (cs_count o' - 1) = NUL"
    "cs_type a = CSTRING_ASCII" "cs_bits a = Ascii y" "cs_count a < length y"
  shows "\<exists>d z. cstring_append o' a = Inr d \<and> cs_type d = CSTRING_ASCII \<and> cs_bits d = Ascii z \<and>
    cs_count d = cs_count o' - 1 + cs_count a \<and>
    take (cs_count d) z = take (cs_count o' - 1) x @ take (cs_count a) y"
proof -
  let ?n = "cs_count o'" and ?m = "cs_count a"
  let ?g = "grow NUL x (?n + ?m + 1)"
  have l: "cstring_char_at o' (?n - 1) = Inr 0"
    using assms by (simp add: cstring_char_at_def ascii_of_def at_index_def char_sval_def char_code_def)
  have g: "length ?g = ?n + ?m + 1" "take (?n - 1) ?g = take (?n - 1) x"
    using assms(3,4) by (auto simp: grow_def min_def)
  let ?z = "take (?n - 1) x @ take (?m + 1) y @ drop (?n - 1 + (?m + 1)) ?g"
  have z: "append_arrays NUL x ?n y ?m True = Inr ?z"
    using assms(3,8) g by (simp add: append_arrays_def copy_into_def)
  have "take (?n - 1 + ?m) ?z = take (?n - 1) x @ take ?m y"
    using assms(3,4,8) by simp
  moreover have "cstring_append o' a = Inr (o'\<lparr>cs_bits := Ascii ?z, cs_count := ?n + ?m - 1\<rparr>)"
    using assms z l by (simp add: cstring_append_def Let_def ascii_of_def)
  ultimately show ?thesis using assms(1,3) by (auto simp: add.commute)
qed

end
