(* ===== verification/Ucc_Tokconv.thy ===== *)
theory Ucc_Tokconv
  imports Ucc_Num
begin

text \<open>
  The tokens of the compiler (\<^verbatim>\<open>src/cc1/tokenise.h\<close>), the table of keywords of
  \<^verbatim>\<open>src/cc1/tokenise.c\<close>, and the tables of \<^verbatim>\<open>src/cc1/tokconv.c\<close> from tokens to types, operators and
  text.  The source reads the global \<^verbatim>\<open>curtok\<close>; here the token is an argument.

  \<^verbatim>\<open>enum token\<close> is split by use: the words that \<^verbatim>\<open>eat_curtok_to_identifier\<close> turns into text, the
  operators that \<^verbatim>\<open>TOK_AND_EQ\<close> declares together with their assignment, and the others.
\<close>

section \<open>Tokens\<close>

datatype (plugins only: code size) kw_token =
    token_do | token_if | token_else | token_while | token_for | token_break | token_continue |
    token_return | token_switch | token_case | token_default | token_goto | token__Generic |
    token_sizeof | token_typeof | token___auto_type | token__Static_assert | token_asm |
    token_attribute | token___extension | token___label | token_void | token_char | token_short |
    token_int | token_long | token_float | token_double | token__Bool | token___builtin_va_list |
    token_inline | token__Noreturn | token_const | token_volatile | token_restrict |
    token_signed | token_unsigned | token_auto | token_static | token_extern | token_register |
    token__Alignof | token___alignof | token__Alignas | token_typedef | token_struct |
    token_union | token_enum

datatype op_token =
    token_plus | token_minus | token_multiply | token_divide | token_modulus | token_not |
    token_bnot | token_and | token_or | token_xor | token_shiftl | token_shiftr

datatype (plugins only: code size) ctoken = Kw kw_token | Op op_token | Op_assign op_token |
    token_identifier | token_integer | token_floater | token_character | token_elipsis |
    token_string | token_open_paren | token_open_block | token_open_square | token_close_paren |
    token_close_block | token_close_square | token_comma | token_semicolon | token_colon |
    token_question | token_increment | token_decrement | token_assign | token_dot | token_ptr |
    token_eq | token_le | token_lt | token_ge | token_gt | token_ne | token_andsc | token_orsc |
    token_eof | token_unknown

text \<open>Keyword modes: a keyword is recognised if its mode and the current one have a bit in common.\<close>

abbreviation (input) KW_ALL :: u32 where "KW_ALL \<equiv> 1"
abbreviation (input) KW_C99 :: u32 where "KW_C99 \<equiv> 2"
abbreviation (input) KW_EXT :: u32 where "KW_EXT \<equiv> 4"

definition keyword_table :: "(string \<times> kw_token \<times> u32) list" where
  "keyword_table =
     [(''if'', token_if, KW_ALL), (''else'', token_else, KW_ALL),
      (''switch'', token_switch, KW_ALL), (''case'', token_case, KW_ALL),
      (''default'', token_default, KW_ALL), (''break'', token_break, KW_ALL),
      (''return'', token_return, KW_ALL), (''continue'', token_continue, KW_ALL),
      (''goto'', token_goto, KW_ALL), (''do'', token_do, KW_ALL),
      (''while'', token_while, KW_ALL), (''for'', token_for, KW_ALL),
      (''void'', token_void, KW_ALL), (''char'', token_char, KW_ALL),
      (''int'', token_int, KW_ALL), (''short'', token_short, KW_ALL),
      (''long'', token_long, KW_ALL), (''float'', token_float, KW_ALL),
      (''double'', token_double, KW_ALL), (''auto'', token_auto, KW_ALL),
      (''static'', token_static, KW_ALL), (''extern'', token_extern, KW_ALL),
      (''register'', token_register, KW_ALL), (''asm'', token_asm, KW_EXT),
      (''__asm'', token_asm, KW_ALL), (''__asm__'', token_asm, KW_ALL),
      (''inline'', token_inline, KW_EXT OR KW_C99), (''__inline'', token_inline, KW_ALL),
      (''__inline__'', token_inline, KW_ALL), (''const'', token_const, KW_ALL),
      (''__const'', token_const, KW_ALL), (''__const__'', token_const, KW_ALL),
      (''volatile'', token_volatile, KW_ALL), (''__volatile'', token_volatile, KW_ALL),
      (''__volatile__'', token_volatile, KW_ALL), (''restrict'', token_restrict, KW_C99),
      (''__restrict'', token_restrict, KW_ALL), (''__restrict__'', token_restrict, KW_ALL),
      (''signed'', token_signed, KW_ALL), (''__signed'', token_signed, KW_ALL),
      (''__signed__'', token_signed, KW_ALL), (''unsigned'', token_unsigned, KW_ALL),
      (''__unsigned'', token_unsigned, KW_ALL), (''__unsigned__'', token_unsigned, KW_ALL),
      (''typedef'', token_typedef, KW_ALL), (''struct'', token_struct, KW_ALL),
      (''union'', token_union, KW_ALL), (''enum'', token_enum, KW_ALL),
      (''_Bool'', token__Bool, KW_ALL), (''_Noreturn'', token__Noreturn, KW_ALL),
      (''_Alignof'', token__Alignof, KW_ALL), (''__alignof'', token___alignof, KW_ALL),
      (''__alignof__'', token___alignof, KW_ALL), (''_Alignas'', token__Alignas, KW_ALL),
      (''__alignas'', token__Alignas, KW_ALL), (''__alignas__'', token__Alignas, KW_ALL),
      (''sizeof'', token_sizeof, KW_ALL), (''typeof'', token_typeof, KW_EXT),
      (''__typeof'', token_typeof, KW_ALL), (''__typeof__'', token_typeof, KW_ALL),
      (''_Generic'', token__Generic, KW_ALL), (''_Static_assert'', token__Static_assert, KW_ALL),
      (''__builtin_va_list'', token___builtin_va_list, KW_ALL),
      (''__auto_type'', token___auto_type, KW_ALL),
      (''__extension__'', token___extension, KW_ALL), (''__attribute'', token_attribute, KW_ALL),
      (''__attribute__'', token_attribute, KW_ALL), (''__label__'', token___label, KW_ALL)]"

text \<open>The first entry of the table with this spelling that the mode allows.\<close>

definition find_keyword :: "u32 \<Rightarrow> string \<Rightarrow> kw_token option" where
  "find_keyword mode s =
     map_option (\<lambda>(_, t, _). t) (List.find (\<lambda>(k, _, m). m AND mode \<noteq> 0 \<and> k = s) keyword_table)"

section \<open>tokconv.c\<close>

fun curtok_to_type_primitive :: "ctoken \<Rightarrow> type_primitive" where
  "curtok_to_type_primitive (Kw token_void) = type_void"
| "curtok_to_type_primitive (Kw token__Bool) = type__Bool"
| "curtok_to_type_primitive (Kw token_char) = type_nchar"
| "curtok_to_type_primitive (Kw token_short) = type_short"
| "curtok_to_type_primitive (Kw token_int) = type_int"
| "curtok_to_type_primitive (Kw token_long) = type_long"
| "curtok_to_type_primitive (Kw token_float) = type_float"
| "curtok_to_type_primitive (Kw token_double) = type_double"
| "curtok_to_type_primitive _ = type_unknown"

fun curtok_to_type_qualifier :: "ctoken \<Rightarrow> qual" where
  "curtok_to_type_qualifier (Kw token_const) = qual_const"
| "curtok_to_type_qualifier (Kw token_volatile) = qual_volatile"
| "curtok_to_type_qualifier (Kw token_restrict) = qual_restrict"
| "curtok_to_type_qualifier _ = qual_none"

datatype decl_storage =
    store_default | store_auto | store_static | store_extern | store_register | store_typedef | store_inline

text \<open>\<^verbatim>\<open>(enum decl_storage)-1\<close> is \<open>None\<close>.\<close>

fun curtok_to_decl_storage :: "ctoken \<Rightarrow> decl_storage option" where
  "curtok_to_decl_storage (Kw token_auto) = Some store_auto"
| "curtok_to_decl_storage (Kw token_extern) = Some store_extern"
| "curtok_to_decl_storage (Kw token_static) = Some store_static"
| "curtok_to_decl_storage (Kw token_typedef) = Some store_typedef"
| "curtok_to_decl_storage (Kw token_register) = Some store_register"
| "curtok_to_decl_storage _ = None"

fun curtok_to_op :: "ctoken \<Rightarrow> op_type" where
  "curtok_to_op (Op token_multiply) = op_multiply"
| "curtok_to_op (Op token_divide) = op_divide"
| "curtok_to_op (Op token_plus) = op_plus"
| "curtok_to_op (Op token_minus) = op_minus"
| "curtok_to_op (Op token_modulus) = op_modulus"
| "curtok_to_op token_eq = op_eq"
| "curtok_to_op token_ne = op_ne"
| "curtok_to_op token_le = op_le"
| "curtok_to_op token_lt = op_lt"
| "curtok_to_op token_ge = op_ge"
| "curtok_to_op token_gt = op_gt"
| "curtok_to_op (Op token_xor) = op_xor"
| "curtok_to_op (Op token_or) = op_or"
| "curtok_to_op (Op token_and) = op_and"
| "curtok_to_op token_orsc = op_orsc"
| "curtok_to_op token_andsc = op_andsc"
| "curtok_to_op (Op token_not) = op_not"
| "curtok_to_op (Op token_bnot) = op_bnot"
| "curtok_to_op (Op token_shiftl) = op_shiftl"
| "curtok_to_op (Op token_shiftr) = op_shiftr"
| "curtok_to_op _ = op_unknown"

definition curtok_is_type_primitive :: "ctoken \<Rightarrow> bool" where
  "curtok_is_type_primitive t \<longleftrightarrow> curtok_to_type_primitive t \<noteq> type_unknown"

definition curtok_is_type_qual :: "ctoken \<Rightarrow> bool" where
  "curtok_is_type_qual t \<longleftrightarrow> curtok_to_type_qualifier t \<noteq> qual_none"

definition curtok_is_decl_store :: "ctoken \<Rightarrow> bool" where
  "curtok_is_decl_store t \<longleftrightarrow> curtok_to_decl_storage t \<noteq> None"

fun curtok_to_compound_op :: "ctoken \<Rightarrow> op_type" where
  "curtok_to_compound_op (Op_assign token_plus) = op_plus"
| "curtok_to_compound_op (Op_assign token_minus) = op_minus"
| "curtok_to_compound_op (Op_assign token_multiply) = op_multiply"
| "curtok_to_compound_op (Op_assign token_divide) = op_divide"
| "curtok_to_compound_op (Op_assign token_modulus) = op_modulus"
| "curtok_to_compound_op (Op_assign token_not) = op_not"
| "curtok_to_compound_op (Op_assign token_bnot) = op_bnot"
| "curtok_to_compound_op (Op_assign token_and) = op_and"
| "curtok_to_compound_op (Op_assign token_or) = op_or"
| "curtok_to_compound_op (Op_assign token_xor) = op_xor"
| "curtok_to_compound_op (Op_assign token_shiftl) = op_shiftl"
| "curtok_to_compound_op (Op_assign token_shiftr) = op_shiftr"
| "curtok_to_compound_op _ = op_unknown"

definition curtok_is_compound_assignment :: "ctoken \<Rightarrow> bool" where
  "curtok_is_compound_assignment t \<longleftrightarrow> curtok_to_compound_op t \<noteq> op_unknown"

text \<open>
  \<^verbatim>\<open>curtok_to_xequal\<close> of \<^verbatim>\<open>tokenise.c\<close>: the token for an operator followed by \<^verbatim>\<open>=\<close>.  Its cases are
  the operators that \<^verbatim>\<open>TOK_AND_EQ\<close> declares.
\<close>

fun curtok_to_xequal :: "ctoken \<Rightarrow> ctoken" where
  "curtok_to_xequal (Op t) = Op_assign t"
| "curtok_to_xequal _ = token_unknown"

definition curtok_is_xequal :: "ctoken \<Rightarrow> bool" where
  "curtok_is_xequal t \<longleftrightarrow> curtok_to_xequal t \<noteq> token_unknown"

text \<open>\<^verbatim>\<open>token_to_str\<close>; \<open>None\<close> is \<^verbatim>\<open>NULL\<close>.\<close>

definition quoted :: "string \<Rightarrow> string" where
  "quoted s = CHR 0x27 # s @ [CHR 0x27]"

fun kw_to_str :: "kw_token \<Rightarrow> string" where
  "kw_to_str token_do = ''do''"
| "kw_to_str token_if = ''if''"
| "kw_to_str token_else = ''else''"
| "kw_to_str token_while = ''while''"
| "kw_to_str token_for = ''for''"
| "kw_to_str token_break = ''break''"
| "kw_to_str token_continue = ''continue''"
| "kw_to_str token_return = ''return''"
| "kw_to_str token_switch = ''switch''"
| "kw_to_str token_case = ''case''"
| "kw_to_str token_default = ''default''"
| "kw_to_str token_goto = ''goto''"
| "kw_to_str token__Generic = ''_Generic''"
| "kw_to_str token_sizeof = ''sizeof''"
| "kw_to_str token_typeof = ''typeof''"
| "kw_to_str token___auto_type = ''__auto_type''"
| "kw_to_str token__Static_assert = ''_Static_assert''"
| "kw_to_str token_asm = ''asm''"
| "kw_to_str token_attribute = ''__attribute__''"
| "kw_to_str token___extension = ''__extension__''"
| "kw_to_str token___label = ''__label__''"
| "kw_to_str token_void = ''void''"
| "kw_to_str token_char = ''char''"
| "kw_to_str token_short = ''short''"
| "kw_to_str token_int = ''int''"
| "kw_to_str token_long = ''long''"
| "kw_to_str token_float = ''float''"
| "kw_to_str token_double = ''double''"
| "kw_to_str token__Bool = ''_Bool''"
| "kw_to_str token___builtin_va_list = ''__builtin_va_list''"
| "kw_to_str token_inline = ''inline''"
| "kw_to_str token__Noreturn = ''_Noreturn''"
| "kw_to_str token_const = ''const''"
| "kw_to_str token_volatile = ''volatile''"
| "kw_to_str token_restrict = ''restrict''"
| "kw_to_str token_signed = ''signed''"
| "kw_to_str token_unsigned = ''unsigned''"
| "kw_to_str token_auto = ''auto''"
| "kw_to_str token_static = ''static''"
| "kw_to_str token_extern = ''extern''"
| "kw_to_str token_register = ''register''"
| "kw_to_str token__Alignof = ''_Alignof''"
| "kw_to_str token___alignof = ''__alignof''"
| "kw_to_str token__Alignas = ''_Alignas''"
| "kw_to_str token_typedef = ''typedef''"
| "kw_to_str token_struct = ''struct''"
| "kw_to_str token_union = ''union''"
| "kw_to_str token_enum = ''enum''"

fun op_spelling :: "op_token \<Rightarrow> string" where
  "op_spelling token_plus = ''+''"
| "op_spelling token_minus = ''-''"
| "op_spelling token_multiply = ''*''"
| "op_spelling token_divide = ''/''"
| "op_spelling token_modulus = ''%''"
| "op_spelling token_not = ''!''"
| "op_spelling token_bnot = ''~''"
| "op_spelling token_and = ''&''"
| "op_spelling token_or = ''|''"
| "op_spelling token_xor = ''^''"
| "op_spelling token_shiftl = ''<<''"
| "op_spelling token_shiftr = ''>>''"

fun token_to_str :: "ctoken \<Rightarrow> string option" where
  "token_to_str (Kw k) = Some (kw_to_str k)"
| "token_to_str (Op t) = Some (quoted (op_spelling t))"
| "token_to_str (Op_assign t) = Some (quoted (op_spelling t @ ''=''))"
| "token_to_str token_identifier = Some ''identifier''"
| "token_to_str token_integer = Some ''integer-literal''"
| "token_to_str token_floater = Some ''float-literal''"
| "token_to_str token_character = Some ''character''"
| "token_to_str token_elipsis = Some (quoted ''...'')"
| "token_to_str token_string = Some ''string''"
| "token_to_str token_open_paren = Some (quoted ''('')"
| "token_to_str token_open_block = Some (quoted ''{'')"
| "token_to_str token_open_square = Some (quoted ''['')"
| "token_to_str token_close_paren = Some (quoted '')'')"
| "token_to_str token_close_block = Some (quoted ''}'')"
| "token_to_str token_close_square = Some (quoted '']'')"
| "token_to_str token_comma = Some (quoted '','')"
| "token_to_str token_semicolon = Some (quoted '';'')"
| "token_to_str token_colon = Some (quoted '':'')"
| "token_to_str token_question = Some (quoted ''?'')"
| "token_to_str token_increment = Some (quoted ''++'')"
| "token_to_str token_decrement = Some (quoted ''--'')"
| "token_to_str token_assign = Some (quoted ''='')"
| "token_to_str token_dot = Some (quoted ''.'')"
| "token_to_str token_ptr = Some (quoted ''->'')"
| "token_to_str token_eq = Some (quoted ''=='')"
| "token_to_str token_le = Some (quoted ''<='')"
| "token_to_str token_lt = Some (quoted ''<'')"
| "token_to_str token_ge = Some (quoted ''>='')"
| "token_to_str token_gt = Some (quoted ''>'')"
| "token_to_str token_ne = Some (quoted ''!='')"
| "token_to_str token_andsc = Some (quoted ''&&'')"
| "token_to_str token_orsc = Some (quoted ''||'')"
| "token_to_str token_eof = Some ''eof''"
| "token_to_str token_unknown = None"

end
