(* ===== verification/Ucc_Lexer.thy ===== *)
theory Ucc_Lexer
  imports Ucc_Tokconv Ucc_Cstring Ucc_Str
begin

text \<open>
  The tokeniser of the compiler: \<^verbatim>\<open>src/cc1/tokenise.c\<close>, with \<^verbatim>\<open>src/cc1/pragma.c\<close> and the part of
  \<^verbatim>\<open>src/cc1/tokconv.c\<close> that moves from token to token.

  The globals of the source are the fields of one record.  \<^verbatim>\<open>buffer\<close> and \<^verbatim>\<open>bufferpos\<close> are a line and
  an offset into it; \<^verbatim>\<open>in_func\<close> is the list of lines it will return.  A character that is read is
  an \<^verbatim>\<open>int\<close> that may be \<^verbatim>\<open>EOF\<close>; as \<^verbatim>\<open>char\<close> is signed, so is the byte 255, and both are \<open>None\<close>.
  Warnings, the ownership of strings, and the list kept for \<^verbatim>\<open>-fshow-line\<close> are left out.
\<close>

section \<open>State\<close>

record loc =
  loc_line :: int
  loc_chr :: int

record fnam_stack =
  fs_fnam :: string
  fs_lno :: int
  fs_sysh :: bool

definition FNAME_STACK_N :: nat where
  "FNAME_STACK_N = 32"

record 'f lexer =
  in_lines :: "string list"
  buffer :: "(string \<times> nat) option"
  buffereof :: bool
  parse_finished :: bool
  ungetch :: "char option"
  in_comment :: bool
  curtok :: ctoken
  curtok_save :: ctoken
  currentval :: "'f numeric"
  currentspelling :: "string option"
  currentstring :: "cstring option"
  parse_had_error :: bool
  keyword_mode :: u32
  fname_stack :: "fnam_stack list"
  current_fname :: "string option"
  cc1_first_fname :: "string option"
  in_sysh :: bool
  loc_now :: loc
  loc_tok :: loc
  current_line_str :: "string option"
  ucc_namespace :: "string option"
  cc1_error_limit :: int

text \<open>
  The host's floating point: \<^verbatim>\<open>ucc_strtold\<close> with the number of characters it takes, the
  conversion from integers, and the product with a power of ten.
\<close>

record 'f lex_env =
  le_strtold :: "string \<Rightarrow> 'f \<times> nat"
  le_of_i :: "u64 \<Rightarrow> 'f"
  le_scale10 :: "'f \<Rightarrow> int \<Rightarrow> 'f"
  track_initial_fnam :: bool

abbreviation (input) VAL_OCTAL :: u32 where "VAL_OCTAL \<equiv> 8"
abbreviation (input) VAL_HEX :: u32 where "VAL_HEX \<equiv> 16"
abbreviation (input) VAL_BIN :: u32 where "VAL_BIN \<equiv> 32"

definition set_chr :: "int \<Rightarrow> loc \<Rightarrow> loc" where
  "set_chr c l = l\<lparr>loc_chr := c\<rparr>"

section \<open>pragma.c\<close>

definition handle_pragma_ucc :: "string \<Rightarrow> ('f, 's) lexer_scheme \<Rightarrow> ('f, 's) lexer_scheme" where
  "handle_pragma_ucc pragma lx =
     (if take 10 pragma = ''namespace '' then lx\<lparr>ucc_namespace := Some (drop 10 pragma)\<rparr> else lx)"

definition pragma_handle :: "string \<Rightarrow> ('f, 's) lexer_scheme \<Rightarrow> ('f, 's) lexer_scheme" where
  "pragma_handle pragma lx =
     (if take 4 pragma = ''STDC'' then lx
      else if take 3 pragma = ''ucc'' then handle_pragma_ucc (str_spc_skip (drop 3 pragma)) lx
      else lx)"

section \<open>Line directives\<close>

definition set_current_fname :: "string \<Rightarrow> ('f, 's) lexer_scheme \<Rightarrow> ('f, 's) lexer_scheme" where
  "set_current_fname fnam lx = lx\<lparr>current_fname := Some fnam\<rparr>"

definition update_stack :: "int \<Rightarrow> bool \<Rightarrow> ('f, 's) lexer_scheme \<Rightarrow> ('f, 's) lexer_scheme outcome" where
  "update_stack lno sysh lx =
     (if fname_stack lx = [] then Inl Out_of_bounds
      else
        let stk = fname_stack lx; i = length stk - 1 in
        Inr (lx\<lparr>fname_stack := stk[i := (stk ! i)\<lparr>fs_lno := lno, fs_sysh := sysh\<rparr>], in_sysh := sysh\<rparr>))"

definition push_fname :: "string \<Rightarrow> int \<Rightarrow> bool \<Rightarrow> ('f, 's) lexer_scheme \<Rightarrow> ('f, 's) lexer_scheme outcome" where
  "push_fname fn lno sysh lx =
     (let lx = (set_current_fname fn lx)\<lparr>in_sysh := sysh\<rparr> in
      if length (fname_stack lx) < FNAME_STACK_N then
        update_stack lno sysh
          (lx\<lparr>fname_stack := fname_stack lx @ [\<lparr>fs_fnam = fn, fs_lno = 0, fs_sysh = False\<rparr>]\<rparr>)
      else Inr lx)"

definition pop_fname :: "('f, 's) lexer_scheme \<Rightarrow> ('f, 's) lexer_scheme" where
  "pop_fname lx =
     (case fname_stack lx of
        [] \<Rightarrow> lx
      | _ \<Rightarrow>
        let stk = butlast (fname_stack lx); lx = lx\<lparr>fname_stack := stk\<rparr> in
        if stk = [] then lx
        else (set_current_fname (fs_fnam (last stk)) lx)\<lparr>in_sysh := fs_sysh (last stk)\<rparr>)"

primrec pop_fnames :: "nat \<Rightarrow> ('f, 's) lexer_scheme \<Rightarrow> ('f, 's) lexer_scheme" where
  "pop_fnames 0 lx = lx"
| "pop_fnames (Suc n) lx = pop_fnames n (pop_fname lx)"

text \<open>The flags behind the file name; \<open>n\<close> bounds the number of pieces.\<close>

record marker_flags =
  fl_sof :: bool
  fl_rtf :: bool
  fl_sysh :: bool

primrec read_flags :: "nat \<Rightarrow> string option \<Rightarrow> marker_flags \<Rightarrow> marker_flags" where
  "read_flags 0 state fl = fl"
| "read_flags (Suc n) state fl =
     (case str_split None (CHR '' '') state of
        (None, _) \<Rightarrow> fl
      | (Some tok, state') \<Rightarrow>
        read_flags n state'
          (if tok = ''1'' then fl\<lparr>fl_sof := True\<rparr>
           else if tok = ''2'' then fl\<lparr>fl_rtf := True\<rparr>
           else if tok = ''3'' then fl\<lparr>fl_sysh := True\<rparr>
           else fl))"

text \<open>The index of the last entry of the stack with this name.\<close>

primrec find_fname :: "string \<Rightarrow> nat \<Rightarrow> fnam_stack list \<Rightarrow> nat option" where
  "find_fname fnam 0 stk = None"
| "find_fname fnam (Suc i) stk = (if fs_fnam (stk ! i) = fnam then Some i else find_fname fnam i stk)"

text \<open>\<open>top\<close> is the pointer to the entry that was on top at the call, as an index.\<close>

definition handle_line_file_directive :: "string \<Rightarrow> int \<Rightarrow> string \<Rightarrow> ('f, 's) lexer_scheme \<Rightarrow> ('f, 's) lexer_scheme outcome" where
  "handle_line_file_directive fnam lno flags lx =
     (let cnt = length (fname_stack lx);
          top = (if cnt > 0 then Some (cnt - 1) else None);
          fl = read_flags (Suc (length flags)) (Some flags) \<lparr>fl_sof = False, fl_rtf = False, fl_sysh = False\<rparr>;
          lx = (if cc1_first_fname lx = None then lx\<lparr>cc1_first_fname := Some fnam\<rparr> else lx)
      in
      bindE
        (if fl_sof fl \<or> \<not> fl_rtf fl \<and> (case top of None \<Rightarrow> True | Some t \<Rightarrow> fs_fnam (fname_stack lx ! t) \<noteq> fnam)
         then bindE (push_fname fnam lno (fl_sysh fl) lx) (\<lambda>lx. Inr (lx, top))
         else if fl_rtf fl then
           let lx = (case find_fname fnam cnt (fname_stack lx) of
                       Some i \<Rightarrow> pop_fnames (cnt - i - 1) lx
                     | None \<Rightarrow> lx)
           in Inr (lx, case top of None \<Rightarrow> None
                       | Some t \<Rightarrow> if t \<ge> length (fname_stack lx) then None else Some t)
         else Inr (lx, top))
        (\<lambda>(lx, top).
          case top of
            None \<Rightarrow> Inr lx
          | Some t \<Rightarrow>
            if fl_sof fl then Inr lx
            else if \<not> fl_rtf fl \<and> \<not> fl_sysh fl \<and> t \<noteq> 0 \<and> fs_lno (hd (fname_stack lx)) = lno
                \<and> fs_fnam (hd (fname_stack lx)) = fnam
            then Inr (pop_fnames (length (fname_stack lx) - 1) lx)
            else if fs_fnam (fname_stack lx ! t) = fnam then update_stack lno (fl_sysh fl) lx
            else Inr lx))"

text \<open>\<^verbatim>\<open>strtol\<close> with base 0: the value and what follows it.\<close>

definition strtol0 :: "string \<Rightarrow> int \<times> string" where
  "strtol0 s =
     (let t = dropWhile isspace s;
          neg = (take 1 t = ''-'');
          u = (if take 1 t \<in> {''+'', ''-''} then drop 1 t else t);
          hex = (take 2 u \<in> {''0x'', ''0X''} \<and> length u > 2 \<and> isxdigit (u ! 2));
          b = (if hex then 16 else if take 1 u = ''0'' then 8 else 10);
          digit = (if hex then isxdigit else if take 1 u = ''0'' then isodigit else isdigit);
          v = (if hex then drop 2 u else u);
          ds = takeWhile digit v;
          n = int (digits_value b 0 ds)
      in if ds = [] then (0, s)
         else (if neg then max (- (2 ^ 63)) (- n) else min (2 ^ 63 - 1) n, dropWhile digit v))"

definition parse_line_directive :: "string \<Rightarrow> ('f, 's) lexer_scheme \<Rightarrow> ('f, 's) lexer_scheme outcome" where
  "parse_line_directive l lx =
     (let l = str_spc_skip (drop 1 l) in
      if take 6 l = ''pragma'' then Inr (pragma_handle (str_spc_skip (drop 6 l)) lx)
      else
        let l = (if take 4 l = ''line'' then drop 4 l else l); (v, ep) = strtol0 l;
            lno = sint (word_of_int v :: u32) in
        if ep = l then Inr lx
        else if lno < 0 then Inr lx
        else
          let lx = lx\<lparr>loc_now := (loc_now lx)\<lparr>loc_line := lno - 1\<rparr>\<rparr>; ep = str_spc_skip ep in
          if take 1 ep = [CHR 0x22] then
            bindE (str_quotefin (drop 1 ep)) (\<lambda>p.
              case p of
                None \<Rightarrow> Inr lx
              | Some p \<Rightarrow>
                handle_line_file_directive (take (length (drop 1 ep) - length p) (drop 1 ep)) lno
                  (str_spc_skip (drop 1 p)) lx)
          else Inr lx)"

section \<open>Lines and characters\<close>

primrec read_line_loop :: "string list \<Rightarrow> ('f, 's) lexer_scheme \<Rightarrow> (string option \<times> ('f, 's) lexer_scheme) outcome" where
  "read_line_loop [] lx = Inr (None, lx\<lparr>buffereof := True, in_lines := []\<rparr>)"
| "read_line_loop (l # ls) lx =
     (let lx = lx\<lparr>in_lines := ls\<rparr> in
      if \<not> in_comment lx \<and> take 1 l = ''#'' then bindE (parse_line_directive l lx) (read_line_loop ls)
      else
        let now = \<lparr>loc_line = loc_line (loc_now lx) + 1, loc_chr = 0\<rparr>;
            stk = fname_stack lx
        in Inr (Some l, lx\<lparr>loc_now := now, loc_tok := now,
             fname_stack := (if stk = [] then []
               else stk[length stk - 1 := (last stk)\<lparr>fs_lno := loc_line now\<rparr>])\<rparr>))"

definition tokenise_read_line :: "('f, 's) lexer_scheme \<Rightarrow> (string option \<times> ('f, 's) lexer_scheme) outcome" where
  "tokenise_read_line lx = (if buffereof lx then Inr (None, lx) else read_line_loop (in_lines lx) lx)"

definition tokenise_next_line :: "('f, 's) lexer_scheme \<Rightarrow> ('f, 's) lexer_scheme outcome" where
  "tokenise_next_line lx =
     bindE (tokenise_read_line lx) (\<lambda>(new, lx).
       Inr (case new of
              Some l \<Rightarrow> lx\<lparr>current_line_str := Some l, buffer := Some (l, 0)\<rparr>
            | None \<Rightarrow> lx\<lparr>buffer := None\<rparr>))"

text \<open>The text from \<^verbatim>\<open>bufferpos\<close> on, and \<^verbatim>\<open>*bufferpos\<close>.\<close>

definition buf_rest :: "('f, 's) lexer_scheme \<Rightarrow> string outcome" where
  "buf_rest lx =
     (case buffer lx of
        None \<Rightarrow> Inl Null_deref
      | Some (s, p) \<Rightarrow> if p \<le> length s then Inr (drop p s) else Inl Out_of_bounds)"

definition first_char :: "string \<Rightarrow> char" where
  "first_char s = (case s of [] \<Rightarrow> NUL | c # _ \<Rightarrow> c)"

definition buf_char :: "('f, 's) lexer_scheme \<Rightarrow> char outcome" where
  "buf_char lx = bindE (buf_rest lx) (\<lambda>s. Inr (first_char s))"

definition as_int :: "char \<Rightarrow> char option" where
  "as_int c = (if c = CHR 0xFF then None else Some c)"

text \<open>\<^verbatim>\<open>update_bufferpos(bufferpos + n)\<close>; \<open>n\<close> may be negative.\<close>

definition update_bufferpos :: "int \<Rightarrow> ('f, 's) lexer_scheme \<Rightarrow> ('f, 's) lexer_scheme" where
  "update_bufferpos n lx =
     lx\<lparr>loc_now := (loc_now lx)\<lparr>loc_chr := loc_chr (loc_now lx) + n\<rparr>,
        buffer := map_option (\<lambda>(s, p). (s, nat (int p + n))) (buffer lx)\<rparr>"

text \<open>The loop of \<^verbatim>\<open>rawnextchar\<close> that reads lines until one has a character left; \<open>n\<close> bounds the rounds.\<close>

primrec fill_buffer :: "nat \<Rightarrow> ('f, 's) lexer_scheme \<Rightarrow> ('f, 's) lexer_scheme outcome" where
  "fill_buffer 0 lx = Inl Out_of_fuel"
| "fill_buffer (Suc n) lx =
     bindE (case buffer lx of None \<Rightarrow> Inr True | Some _ \<Rightarrow> bindE (buf_char lx) (\<lambda>c. Inr (c = NUL))) (\<lambda>empty.
       if \<not> empty then Inr lx
       else bindE (tokenise_next_line lx) (\<lambda>lx. if buffereof lx then Inr lx else fill_buffer n lx))"

definition rawnextchar :: "('f, 's) lexer_scheme \<Rightarrow> (char option \<times> ('f, 's) lexer_scheme) outcome" where
  "rawnextchar lx =
     (if buffereof lx then Inr (None, lx)
      else bindE (fill_buffer (length (in_lines lx) + 2) lx) (\<lambda>lx.
        if buffereof lx then Inr (None, lx)
        else bindE (buf_char lx) (\<lambda>c. Inr (as_int c, update_bufferpos 1 lx))))"

text \<open>\<^verbatim>\<open>isspace\<close> holds of a form feed already.\<close>

definition char_is_cspace :: "char option \<Rightarrow> bool" where
  "char_is_cspace c \<longleftrightarrow> (case c of None \<Rightarrow> False | Some c \<Rightarrow> isspace c \<or> c = CHR 0x0C)"

text \<open>How many characters are left to read.\<close>

definition remaining :: "('f, 's) lexer_scheme \<Rightarrow> nat" where
  "remaining lx =
     sum_list (map (\<lambda>l. length l + 1) (in_lines lx)) +
     (case buffer lx of None \<Rightarrow> 0 | Some (s, p) \<Rightarrow> length s + 1 - p)"

primrec nextchar_loop :: "nat \<Rightarrow> ('f, 's) lexer_scheme \<Rightarrow> (char option \<times> ('f, 's) lexer_scheme) outcome" where
  "nextchar_loop 0 lx = Inl Out_of_fuel"
| "nextchar_loop (Suc n) lx =
     bindE (rawnextchar lx) (\<lambda>(c, lx). if char_is_cspace c then nextchar_loop n lx else Inr (c, lx))"

definition nextchar :: "('f, 's) lexer_scheme \<Rightarrow> (char option \<times> ('f, 's) lexer_scheme) outcome" where
  "nextchar lx = nextchar_loop (Suc (remaining lx)) lx"

definition skipchar :: "('f, 's) lexer_scheme \<Rightarrow> ('f, 's) lexer_scheme outcome" where
  "skipchar lx = bindE (nextchar lx) (\<lambda>(_, lx). Inr lx)"

definition peeknextchar :: "('f, 's) lexer_scheme \<Rightarrow> (char option \<times> ('f, 's) lexer_scheme) outcome" where
  "peeknextchar lx =
     bindE (case buffer lx of None \<Rightarrow> tokenise_next_line lx | Some _ \<Rightarrow> Inr lx) (\<lambda>lx.
       if buffereof lx then Inr (None, lx) else bindE (buf_char lx) (\<lambda>c. Inr (as_int c, lx)))"

section \<open>Numbers\<close>

text \<open>What \<^verbatim>\<open>tolower\<close> gives for a character that may be \<^verbatim>\<open>EOF\<close>.\<close>

abbreviation (input) lower :: "char option \<Rightarrow> char option" where
  "lower c \<equiv> map_option tolower c"

definition opt_is :: "(char \<Rightarrow> bool) \<Rightarrow> char option \<Rightarrow> bool" where
  "opt_is P c \<longleftrightarrow> (case c of None \<Rightarrow> False | Some c \<Rightarrow> P c)"

definition skip_to_end_of_num :: "('f, 's) lexer_scheme \<Rightarrow> ('f, 's) lexer_scheme outcome" where
  "skip_to_end_of_num lx =
     bindE (buf_rest lx) (\<lambda>s.
       Inr (update_bufferpos (int (length (takeWhile (\<lambda>c. isalnum c \<or> c = CHR ''.'') s))) lx))"

fun base_suffix :: "base \<Rightarrow> u32" where
  "base_suffix BIN = VAL_BIN"
| "base_suffix HEX = VAL_HEX"
| "base_suffix OCT = VAL_OCTAL"
| "base_suffix DEC = 0"

definition read_integer :: "base \<Rightarrow> ('f, 's) lexer_scheme \<Rightarrow> ('f, 's) lexer_scheme outcome" where
  "read_integer mode lx =
     bindE (buf_rest lx) (\<lambda>s.
       case char_seq_to_ullong s False mode of (v, end, overflow) \<Rightarrow>
         let num = (if overflow then \<lparr>num_val = Val_i (-1), num_suffix = VAL_LLONG OR VAL_UNSIGNED\<rparr>
                    else \<lparr>num_val = Val_i v, num_suffix = base_suffix mode\<rparr>);
             lx = lx\<lparr>currentval := num\<rparr>
         in if length end = length s then Inr (lx\<lparr>parse_had_error := True\<rparr>)
            else Inr (update_bufferpos (int (length s - length end)) lx))"

definition read_suffix_float_exp :: "'f lex_env \<Rightarrow> ('f, 's) lexer_scheme \<Rightarrow> ('f, 's) lexer_scheme outcome" where
  "read_suffix_float_exp env lx =
     bindE (nextchar lx) (\<lambda>(c, lx).
     if lower c \<noteq> Some (CHR ''e'') then Inl (Assert_failed ''tolower(just_read) == e'')
     else
       bindE (if K_FLOATING (currentval lx) then Inr lx
              else bindE (val_i (currentval lx)) (\<lambda>i.
                Inr (lx\<lparr>currentval := \<lparr>num_val = Val_f (le_of_i env i), num_suffix = VAL_DOUBLE\<rparr>\<rparr>))) (\<lambda>lx.
       let mantissa = currentval lx in
       bindE (peeknextchar lx) (\<lambda>(s, lx).
       bindE (if s = Some (CHR ''+'') \<or> s = Some (CHR ''-'') then skipchar lx else Inr lx) (\<lambda>lx.
       bindE (peeknextchar lx) (\<lambda>(d, lx).
       if \<not> opt_is isdigit d then skip_to_end_of_num (lx\<lparr>parse_had_error := True\<rparr>)
       else
         bindE (read_integer DEC lx) (\<lambda>lx.
         bindE (val_i (currentval lx)) (\<lambda>e.
         bindE (val_f mantissa) (\<lambda>f.
           Inr (lx\<lparr>currentval := mantissa\<lparr>num_val :=
             Val_f (le_scale10 env f ((if s = Some (CHR ''-'') then - 1 else 1) * sint e))\<rparr>\<rparr>)))))))))"

definition read_suffix_float :: "'f lex_env \<Rightarrow> ('f, 's) lexer_scheme \<Rightarrow> ('f, 's) lexer_scheme outcome" where
  "read_suffix_float env lx =
     bindE (peeknextchar lx) (\<lambda>(c, lx).
     bindE (if lower c = Some (CHR ''e'') then read_suffix_float_exp env lx else Inr lx) (\<lambda>lx.
     bindE (peeknextchar lx) (\<lambda>(c, lx).
     bindE (if lower c = Some (CHR ''f'') then bindE (skipchar lx) (\<lambda>lx. Inr (lx, VAL_FLOAT))
            else if lower c = Some (CHR ''l'') then bindE (skipchar lx) (\<lambda>lx. Inr (lx, VAL_LDOUBLE))
            else Inr (lx, VAL_DOUBLE)) (\<lambda>(lx, sf).
       Inr (lx\<lparr>currentval := (currentval lx)\<lparr>num_suffix := sf AND VAL_FLOATING\<rparr>\<rparr>)))))"

text \<open>
  The loop of \<^verbatim>\<open>read_suffix_int\<close>.  A suffix has at most one \<^verbatim>\<open>U\<close> and one \<^verbatim>\<open>L\<close> or \<^verbatim>\<open>LL\<close>, so it runs
  three times at most; \<^verbatim>\<open>c\<close> is a \<^verbatim>\<open>char\<close>.
\<close>

primrec suffix_int_loop :: "nat \<Rightarrow> u32 \<Rightarrow> ('f, 's) lexer_scheme \<Rightarrow> (u32 \<times> ('f, 's) lexer_scheme) outcome" where
  "suffix_int_loop 0 suff lx = Inl Out_of_fuel"
| "suffix_int_loop (Suc n) suff lx =
     bindE (peeknextchar lx) (\<lambda>(c, lx).
       if c = Some (CHR ''U'') \<or> c = Some (CHR ''u'') then
         if suff AND VAL_UNSIGNED \<noteq> 0 then Inl (Died ''duplicate U suffix'')
         else bindE (skipchar lx) (suffix_int_loop n (suff OR VAL_UNSIGNED))
       else if c = Some (CHR ''L'') \<or> c = Some (CHR ''l'') then
         if suff AND (VAL_LLONG OR VAL_LONG) \<noteq> 0 then Inl (Died ''already have a L/LL suffix'')
         else
           bindE (skipchar lx) (\<lambda>lx.
           bindE (peeknextchar lx) (\<lambda>(d, lx).
             if d = c then bindE (skipchar lx) (suffix_int_loop n (suff OR VAL_LLONG))
             else suffix_int_loop n (suff OR VAL_LONG) lx))
       else Inr (suff, lx))"

definition read_suffix_int :: "('f, 's) lexer_scheme \<Rightarrow> ('f, 's) lexer_scheme outcome" where
  "read_suffix_int lx =
     bindE (suffix_int_loop 3 0 lx) (\<lambda>(suff, lx).
       Inr (lx\<lparr>currentval := (currentval lx)\<lparr>num_suffix := num_suffix (currentval lx) OR suff\<rparr>\<rparr>))"

definition read_suffix :: "'f lex_env \<Rightarrow> ('f, 's) lexer_scheme \<Rightarrow> ('f, 's) lexer_scheme outcome" where
  "read_suffix env lx =
     bindE (if num_suffix (currentval lx) AND (VAL_HEX OR VAL_BIN) = 0
            then bindE (peeknextchar lx) (\<lambda>(c, lx). Inr (lower c = Some (CHR ''e''), lx))
            else Inr (False, lx)) (\<lambda>(e, lx).
     bindE (if K_FLOATING (currentval lx) \<or> e then read_suffix_float env lx else read_suffix_int lx) (\<lambda>lx.
     bindE (peeknextchar lx) (\<lambda>(c, lx).
       if opt_is isalpha c \<or> c = Some (CHR ''.'') then skip_to_end_of_num (lx\<lparr>parse_had_error := True\<rparr>)
       else Inr lx)))"

text \<open>
  The start of \<^verbatim>\<open>read_number\<close>, when the first character is a zero: base, whether the number is
  just that zero, and the buffer moved to the first digit.
\<close>

definition read_prefix :: "('f, 's) lexer_scheme \<Rightarrow> (base \<times> bool \<times> ('f, 's) lexer_scheme) outcome" where
  "read_prefix lx =
     bindE (buf_char lx) (\<lambda>next.
       if tolower next = CHR ''x'' then Inr (HEX, False, update_bufferpos 1 lx)
       else if tolower next = CHR ''b'' then Inr (BIN, False, update_bufferpos 1 lx)
       else if isodigit next then Inr (OCT, False, lx)
       else if isdigit next then Inl (Died ''invalid oct character'')
       else Inr (OCT, True, update_bufferpos (- 1) lx))"

text \<open>
  The floating-point branch of \<^verbatim>\<open>read_number\<close>; \<open>start\<close> is the text from \<^verbatim>\<open>num_start\<close> on and \<open>back\<close> the
  distance from there to \<^verbatim>\<open>bufferpos\<close>.
\<close>

definition read_floating :: "'f lex_env \<Rightarrow> base \<Rightarrow> bool \<Rightarrow> string \<Rightarrow> int \<Rightarrow> ('f, 's) lexer_scheme \<Rightarrow> ('f, 's) lexer_scheme outcome" where
  "read_floating env mode just_zero start back lx =
     (case le_strtold env start of (f, n) \<Rightarrow>
        let lx = update_bufferpos (int n - back)
                   (lx\<lparr>currentval := \<lparr>num_val = Val_f f, num_suffix = VAL_FLOATING\<rparr>\<rparr>);
            bad = skip_to_end_of_num (lx\<lparr>parse_had_error := True\<rparr>)
        in case mode of
             DEC \<Rightarrow> Inr lx
           | HEX \<Rightarrow>
             if take 2 start \<noteq> ''0x'' then Inl (Assert_failed ''!strncmp(num_start, 0x, 2)'')
             else
               let p = dropWhile (\<lambda>c. isxdigit c \<or> c = CHR ''.'') (drop 2 start) in
               if tolower (first_char p) \<noteq> CHR ''p'' then bad else Inr lx
           | OCT \<Rightarrow> if just_zero then Inr lx else bad
           | BIN \<Rightarrow> bad)"

definition read_number :: "'f lex_env \<Rightarrow> char \<Rightarrow> ('f, 's) lexer_scheme \<Rightarrow> ('f, 's) lexer_scheme outcome" where
  "read_number env first lx =
     (case buffer lx of
        None \<Rightarrow> Inl Null_deref
      | Some (line, pos) \<Rightarrow>
        let start = drop (pos - 1) line in
        bindE (if first = CHR ''0'' then read_prefix lx else Inr (DEC, False, update_bufferpos (- 1) lx))
          (\<lambda>(mode, just_zero, lx).
        bindE (buf_rest lx) (\<lambda>s.
          let p = dropWhile (if mode = HEX then isxdigit else isdigit) s in
          bindE (if first_char p = CHR ''.'' \<or> mode = HEX \<and> first_char p = CHR ''p''
                 then read_floating env mode just_zero start (int (length start) - int (length s)) lx
                 else if just_zero then
                   Inr (update_bufferpos (int (length s - length p))
                     (lx\<lparr>currentval := \<lparr>num_val = Val_i 0, num_suffix = VAL_OCTAL\<rparr>\<rparr>))
                 else read_integer mode lx) (\<lambda>lx.
          bindE (read_suffix env lx) (\<lambda>lx.
            Inr (lx\<lparr>curtok := (if K_FLOATING (currentval lx) then token_floater else token_integer)\<rparr>))))))"

section \<open>Strings and characters\<close>

definition handle_escape_warn_err :: "errno \<Rightarrow> errno \<Rightarrow> ('f, 's) lexer_scheme \<Rightarrow> ('f, 's) lexer_scheme outcome" where
  "handle_escape_warn_err warn err lx =
     (if err \<notin> {E_none, EILSEQ, ERANGE} then Inl (Assert_failed ''unhandled escape error'')
      else if warn \<notin> {E_none, E2BIG, EINVAL} then Inl (Assert_failed ''unhandled escape warning'')
      else Inr (if err \<noteq> E_none \<or> warn = EINVAL then lx\<lparr>parse_had_error := True\<rparr> else lx))"

primrec handle_escapes :: "(errno \<times> errno) list \<Rightarrow> ('f, 's) lexer_scheme \<Rightarrow> ('f, 's) lexer_scheme outcome" where
  "handle_escapes [] lx = Inr lx"
| "handle_escapes (m # ms) lx = bindE (handle_escape_warn_err (fst m) (snd m) lx) (handle_escapes ms)"

text \<open>Without a closing quote the code goes on with one byte of an empty string, its terminator.\<close>

definition read_string :: "bool \<Rightarrow> ('f, 's) lexer_scheme \<Rightarrow> (cstring \<times> ('f, 's) lexer_scheme) outcome" where
  "read_string is_wide lx =
     bindE (buf_rest lx) (\<lambda>s.
     bindE (str_quotefin s) (\<lambda>end.
     let (chars, lx) = (case end of
           Some e \<Rightarrow> (take (length s - length e) s, lx)
         | None \<Rightarrow> ([NUL], lx\<lparr>parse_had_error := True\<rparr>));
         lx = update_bufferpos (int (length chars) + 1) lx
     in
     bindE (cstring_escape is_wide (cstring_new CSTRING_RAW chars True)) (\<lambda>(ret, msgs).
     bindE (handle_escapes msgs lx) (\<lambda>lx. Inr (ret, lx)))))"

definition ungetchar :: "char option \<Rightarrow> ('f, 's) lexer_scheme \<Rightarrow> ('f, 's) lexer_scheme outcome" where
  "ungetchar ch lx = (if ungetch lx \<noteq> None then Inl (Ice ''ungetch'') else Inr (lx\<lparr>ungetch := ch\<rparr>))"

primrec read_string_loop :: "nat \<Rightarrow> bool \<Rightarrow> cstring \<Rightarrow> ('f, 's) lexer_scheme \<Rightarrow> (cstring \<times> ('f, 's) lexer_scheme) outcome" where
  "read_string_loop 0 is_wide cstr lx = Inl Out_of_fuel"
| "read_string_loop (Suc n) is_wide cstr lx =
     bindE (nextchar lx) (\<lambda>(c, lx).
     bindE (if c = Some (CHR ''L'') then bindE (buf_char lx) (\<lambda>d. Inr (d = CHR 0x22)) else Inr False) (\<lambda>l.
       if c = Some (CHR 0x22) \<or> l then
         let lx = (if l then lx\<lparr>buffer := map_option (\<lambda>(s, p). (s, p + 1)) (buffer lx)\<rparr> else lx);
             is_wide = (is_wide \<or> l) in
         bindE (read_string is_wide lx) (\<lambda>(appendstr, lx).
         bindE (cstring_append cstr appendstr) (\<lambda>cstr. read_string_loop n is_wide cstr lx))
       else bindE (ungetchar c lx) (\<lambda>lx. Inr (cstr, lx))))"

definition read_string_multiple :: "bool \<Rightarrow> ('f, 's) lexer_scheme \<Rightarrow> ('f, 's) lexer_scheme outcome" where
  "read_string_multiple is_wide lx =
     bindE (read_string is_wide lx) (\<lambda>(cstr, lx).
     let lx = lx\<lparr>curtok := token_string\<rparr> in
     bindE (read_string_loop (Suc (remaining lx)) is_wide cstr lx) (\<lambda>(cstr, lx).
       Inr (lx\<lparr>currentstring := Some cstr\<rparr>)))"

definition read_char :: "bool \<Rightarrow> ('f, 's) lexer_scheme \<Rightarrow> ('f, 's) lexer_scheme outcome" where
  "read_char is_wide lx =
     bindE (buf_rest lx) (\<lambda>begin.
     bindE (char_quotefin begin) (\<lambda>end.
     bindE
       (case end of
          None \<Rightarrow> Inr (0, False, lx\<lparr>parse_had_error := True\<rparr>)
        | Some e \<Rightarrow>
          bindE (escape_char begin (Some e) is_wide E_none E_none) (\<lambda>(ch, endesc, multi, warn, err).
            let lx = (if length endesc \<noteq> length e then lx\<lparr>parse_had_error := True\<rparr> else lx) in
            if \<not> multi \<and> length begin = length e then Inr (ch, multi, lx\<lparr>parse_had_error := True\<rparr>)
            else bindE (handle_escape_warn_err warn err lx) (\<lambda>lx. Inr (ch, multi, lx)))) (\<lambda>(ch, multi, lx).
     let lx = (case end of
           Some e \<Rightarrow> update_bufferpos (int (length begin - length e) + 1) lx
         | None \<Rightarrow> lx);
         v = (if is_wide \<or> multi then ch else char_sval (char_of_int ch))
     in Inr (lx\<lparr>currentval := \<lparr>num_val = Val_i (of_int v), num_suffix = 0\<rparr>,
                curtok := (if is_wide then token_integer else token_character)\<rparr>))))"

section \<open>Tokens\<close>

text \<open>
  \<open>nt\<close> is \<^verbatim>\<open>nexttoken\<close>, for the calls it makes of itself.  First \<^verbatim>\<open>eat2\<close> and \<^verbatim>\<open>token_get_current_str\<close> of
  \<^verbatim>\<open>tokconv.c\<close>, which it uses for \<^verbatim>\<open>_Pragma\<close>.
\<close>

type_synonym ('f, 's) scanner = "('f, 's) lexer_scheme \<Rightarrow> ('f, 's) lexer_scheme outcome"

definition eat2 :: "('f, 's) scanner \<Rightarrow> ctoken \<Rightarrow> nat \<Rightarrow> ('f, 's) lexer_scheme \<Rightarrow> (bool \<times> ('f, 's) lexer_scheme) outcome" where
  "eat2 nt t die lx =
     (if t \<noteq> curtok lx then
        let lx = lx\<lparr>parse_had_error := True\<rparr> in
        if die = 2 then Inl (Assert_failed ''invalid token parse state'')
        else if die \<noteq> 0 \<or> cc1_error_limit lx - 1 \<le> 0 then Inl (Died ''expecting token'')
        else Inr (False, lx\<lparr>cc1_error_limit := cc1_error_limit lx - 1\<rparr>)
      else if curtok_save lx \<noteq> token_unknown then
        Inr (True, lx\<lparr>curtok := curtok_save lx, curtok_save := token_unknown\<rparr>)
      else bindE (nt lx) (\<lambda>lx. Inr (True, lx)))"

definition eat :: "('f, 's) scanner \<Rightarrow> ctoken \<Rightarrow> ('f, 's) lexer_scheme \<Rightarrow> (bool \<times> ('f, 's) lexer_scheme) outcome" where
  "eat nt t lx = eat2 nt t 0 lx"

definition token_get_current_str :: "('f, 's) lexer_scheme \<Rightarrow> cstring option \<times> ('f, 's) lexer_scheme" where
  "token_get_current_str lx = (currentstring lx, lx\<lparr>currentstring := None\<rparr>)"

definition lex_pragma :: "('f, 's) scanner \<Rightarrow> ('f, 's) scanner" where
  "lex_pragma nt lx =
     bindE (nt lx) (\<lambda>lx.
     bindE (eat nt token_open_paren lx) (\<lambda>(_, lx).
     case token_get_current_str lx of (pragma, lx) \<Rightarrow>
     bindE (nt lx) (\<lambda>lx.
     bindE (eat nt token_close_paren lx) (\<lambda>(_, lx).
       case pragma of
         Some p \<Rightarrow>
           bindE (cstring_converting_detach p) (\<lambda>s. Inr (pragma_handle (takeWhile (\<lambda>c. c \<noteq> NUL) s) lx))
       | None \<Rightarrow> Inr (lx\<lparr>parse_had_error := True\<rparr>)))))"

definition word_char :: "char \<Rightarrow> bool" where
  "word_char c \<longleftrightarrow> isalnum c \<or> c = CHR ''_'' \<or> c = CHR ''$''"

definition lex_word :: "('f, 's) scanner \<Rightarrow> ('f, 's) scanner" where
  "lex_word nt lx =
     (case buffer lx of
        None \<Rightarrow> Inl Null_deref
      | Some (line, pos) \<Rightarrow>
        let run = takeWhile word_char (drop pos line);
            word = take (length run + 1) (drop (pos - 1) line);
            lx = update_bufferpos (int (length run)) lx
        in case find_keyword (keyword_mode lx) word of
             Some k \<Rightarrow> Inr (lx\<lparr>curtok := Kw k\<rparr>)
           | None \<Rightarrow>
             if word = ''_Pragma'' then lex_pragma nt lx
             else Inr (lx\<lparr>currentspelling := Some word, curtok := token_identifier\<rparr>))"

definition lex_dot :: "('f, 's) scanner" where
  "lex_dot lx =
     (let lx = lx\<lparr>curtok := token_dot\<rparr> in
      bindE (peeknextchar lx) (\<lambda>(c, lx).
        if c \<noteq> Some (CHR ''.'') then Inr lx
        else bindE (skipchar lx) (\<lambda>lx.
          bindE (peeknextchar lx) (\<lambda>(c, lx).
            if c \<noteq> Some (CHR ''.'') then Inr lx
            else bindE (skipchar lx) (\<lambda>lx. Inr (lx\<lparr>curtok := token_elipsis\<rparr>))))))"

text \<open>The token for the next character, which is then read, or else \<open>t\<close>.\<close>

definition choose_next :: "(char \<times> ctoken) list \<Rightarrow> ctoken \<Rightarrow> ('f, 's) scanner" where
  "choose_next alts t lx =
     bindE (peeknextchar lx) (\<lambda>(c, lx).
       case Option.bind c (map_of alts) of
         Some u \<Rightarrow> bindE (skipchar lx) (\<lambda>lx. Inr (lx\<lparr>curtok := u\<rparr>))
       | None \<Rightarrow> Inr (lx\<lparr>curtok := t\<rparr>))"

text \<open>The cases of the \<^verbatim>\<open>switch\<close> that do not read a literal or a comment.\<close>

definition punctuation :: "(char \<times> (char \<times> ctoken) list \<times> ctoken) list" where
  "punctuation =
     [(CHR ''('', [], token_open_paren), (CHR '')'', [], token_close_paren),
      (CHR ''+'', [(CHR ''+'', token_increment)], Op token_plus),
      (CHR ''-'', [(CHR ''-'', token_decrement), (CHR ''>'', token_ptr)], Op token_minus),
      (CHR ''*'', [], Op token_multiply), (CHR ''/'', [], Op token_divide),
      (CHR ''%'', [], Op token_modulus),
      (CHR ''<'', [(CHR ''='', token_le), (CHR ''<'', Op token_shiftl)], token_lt),
      (CHR ''>'', [(CHR ''='', token_ge), (CHR ''>'', Op token_shiftr)], token_gt),
      (CHR ''='', [(CHR ''='', token_eq)], token_assign),
      (CHR ''!'', [(CHR ''='', token_ne)], Op token_not),
      (CHR ''&'', [(CHR ''&'', token_andsc)], Op token_and),
      (CHR ''|'', [(CHR ''|'', token_orsc)], Op token_or),
      (CHR '','', [], token_comma), (CHR '':'', [], token_colon), (CHR ''?'', [], token_question),
      (CHR '';'', [], token_semicolon), (CHR '']'', [], token_close_square),
      (CHR ''['', [], token_open_square), (CHR ''}'', [], token_close_block),
      (CHR ''{'', [], token_open_block), (CHR ''~'', [], Op token_bnot), (CHR ''^'', [], Op token_xor)]"

definition lex_punctuation :: "char \<Rightarrow> ('f, 's) scanner" where
  "lex_punctuation c lx =
     (case map_of punctuation c of
        None \<Rightarrow> Inl (Died ''unknown character'')
      | Some (alts, t) \<Rightarrow> if alts = [] then Inr (lx\<lparr>curtok := t\<rparr>) else choose_next alts t lx)"

text \<open>An operator and \<^verbatim>\<open>=\<close> are an assignment.\<close>

definition lex_xequal :: "('f, 's) scanner" where
  "lex_xequal lx =
     (if \<not> curtok_is_xequal (curtok lx) then Inr lx
      else bindE (peeknextchar lx) (\<lambda>(c, lx).
        if c \<noteq> Some (CHR ''='') then Inr lx
        else bindE (skipchar lx) (\<lambda>lx. Inr (lx\<lparr>curtok := curtok_to_xequal (curtok lx)\<rparr>))))"

text \<open>
  The loop that looks for the end of a comment.  At the end of the input \<^verbatim>\<open>rawnextchar\<close> returns
  \<^verbatim>\<open>EOF\<close> for ever and the loop does not end; \<open>n\<close> bounds the rounds.
\<close>

primrec skip_comment :: "nat \<Rightarrow> ('f, 's) scanner" where
  "skip_comment 0 lx = Inl Out_of_fuel"
| "skip_comment (Suc n) lx =
     bindE (rawnextchar lx) (\<lambda>(c, lx).
     bindE (if c = Some (CHR ''*'') then bindE (buf_char lx) (\<lambda>d. Inr (d = CHR ''/'')) else Inr False) (\<lambda>fin.
       if fin then bindE (rawnextchar lx) (\<lambda>(_, lx). Inr (lx\<lparr>in_comment := False\<rparr>))
       else skip_comment n lx))"

text \<open>What follows when the first character has been read.\<close>

definition lex_slash :: "('f, 's) scanner \<Rightarrow> ('f, 's) scanner" where
  "lex_slash nt lx =
     bindE (peeknextchar lx) (\<lambda>(c, lx).
       if c = Some (CHR ''*'') then
         let lx = lx\<lparr>in_comment := True\<rparr> in bindE (skip_comment (Suc (remaining lx)) lx) nt
       else if c = Some (CHR ''/'') then bindE (tokenise_next_line lx) nt
       else lex_xequal (lx\<lparr>curtok := Op token_divide\<rparr>))"

definition lex_from :: "'f lex_env \<Rightarrow> ('f, 's) scanner \<Rightarrow> char \<Rightarrow> ('f, 's) scanner" where
  "lex_from env nt c lx =
     bindE (if c = CHR ''.'' then bindE (peeknextchar lx) (\<lambda>(d, lx). Inr (opt_is isdigit d, lx))
            else Inr (False, lx)) (\<lambda>(num, lx).
     if isdigit c \<or> num then read_number env c lx
     else if c = CHR ''.'' then lex_dot lx
     else
       bindE (if c = CHR ''L'' then peeknextchar lx else Inr (None, lx)) (\<lambda>(l, lx).
       if l = Some (CHR 0x22) then bindE (skipchar lx) (read_string_multiple True)
       else if l = Some (CHR 0x27) then bindE (skipchar lx) (read_char True)
       else if isalpha c \<or> c = CHR ''_'' \<or> c = CHR ''$'' then lex_word nt lx
       else if c = CHR 0x22 then read_string_multiple False lx
       else if c = CHR 0x27 then read_char False lx
       else if c = CHR ''/'' then lex_slash nt lx
       else bindE (lex_punctuation c lx) lex_xequal))"

definition nexttoken_step :: "'f lex_env \<Rightarrow> ('f, 's) scanner \<Rightarrow> ('f, 's) scanner" where
  "nexttoken_step env nt lx =
     (let lx = (if curtok lx = token_string
                then lx\<lparr>loc_tok := set_chr (loc_chr (loc_now lx) - 1) (loc_now lx)\<rparr> else lx) in
      if buffereof lx then Inr (lx\<lparr>parse_finished := True, curtok := token_eof\<rparr>)
      else
        bindE (case ungetch lx of
                 Some c \<Rightarrow> Inr (Some c, lx\<lparr>ungetch := None\<rparr>)
               | None \<Rightarrow>
                 bindE (nextchar lx) (\<lambda>(c, lx).
                   Inr (c, lx\<lparr>loc_tok := set_chr (loc_chr (loc_now lx) - 1) (loc_tok lx)\<rparr>))) (\<lambda>(c, lx).
          case c of
            None \<Rightarrow> Inr (lx\<lparr>curtok := token_eof\<rparr>)
          | Some c \<Rightarrow> lex_from env nt c lx))"

primrec nexttoken_n :: "'f lex_env \<Rightarrow> nat \<Rightarrow> ('f, 's) scanner" where
  "nexttoken_n env 0 lx = Inl Out_of_fuel"
| "nexttoken_n env (Suc n) lx = nexttoken_step env (nexttoken_n env n) lx"

text \<open>Every call of itself is behind a character that has been read.\<close>

definition nexttoken :: "'f lex_env \<Rightarrow> ('f, 's) scanner" where
  "nexttoken env lx = nexttoken_n env (remaining lx + 2) lx"

section \<open>The interface of the parser\<close>

definition tokenise_set_input :: "'f lex_env \<Rightarrow> string list \<Rightarrow> string \<Rightarrow> ('f, 's) scanner" where
  "tokenise_set_input env lines nam lx =
     (let lx = lx\<lparr>in_lines := lines\<rparr> in
      bindE (if track_initial_fnam env then push_fname nam 1 False lx else Inr (set_current_fname nam lx)) (\<lambda>lx.
        nexttoken env (lx\<lparr>current_line_str := None, loc_now := (loc_now lx)\<lparr>loc_line := 0\<rparr>,
          buffereof := False, parse_finished := False\<rparr>)))"

definition tokenise_set_mode :: "u32 \<Rightarrow> ('f, 's) lexer_scheme \<Rightarrow> ('f, 's) lexer_scheme" where
  "tokenise_set_mode m lx = lx\<lparr>keyword_mode := m OR KW_ALL\<rparr>"

definition token_accept_identifier :: "'f lex_env \<Rightarrow> ('f, 's) lexer_scheme \<Rightarrow> (string option \<times> ('f, 's) lexer_scheme) outcome" where
  "token_accept_identifier env lx =
     (if curtok lx \<noteq> token_identifier then Inr (None, lx)
      else
        let sp = currentspelling lx in
        bindE (nexttoken env (lx\<lparr>currentspelling := None\<rparr>)) (\<lambda>lx. Inr (sp, lx)))"

definition token_eat_identifier ::
  "'f lex_env \<Rightarrow> string option \<Rightarrow> ('f, 's) lexer_scheme \<Rightarrow> (string option \<times> ('f, 's) lexer_scheme) outcome" where
  "token_eat_identifier env fallback lx =
     (if curtok lx = token_identifier then
        bindE (token_accept_identifier env lx) (\<lambda>(ret, lx).
          if ret = None then Inl (Assert_failed ''ret'') else Inr (ret, lx))
      else bindE (eat (nexttoken env) token_identifier lx) (\<lambda>(_, lx). Inr (fallback, lx)))"

definition accept :: "'f lex_env \<Rightarrow> ctoken \<Rightarrow> ('f, 's) lexer_scheme \<Rightarrow> (bool \<times> ('f, 's) lexer_scheme) outcome" where
  "accept env t lx =
     (if t = curtok lx then bindE (eat (nexttoken env) t lx) (\<lambda>(_, lx). Inr (True, lx)) else Inr (False, lx))"

definition uneat :: "ctoken \<Rightarrow> ('f, 's) scanner" where
  "uneat t lx =
     (if curtok_save lx \<noteq> token_unknown then Inl (Assert_failed ''curtok regurgitate buffer full'')
      else Inr (lx\<lparr>curtok_save := curtok lx, curtok := t\<rparr>))"

definition curtok_in_list :: "ctoken list \<Rightarrow> ('f, 's) lexer_scheme \<Rightarrow> bool" where
  "curtok_in_list ts lx \<longleftrightarrow> curtok lx \<in> set ts"

text \<open>The text of the token and whether it was allocated.\<close>

definition eat_curtok_to_identifier ::
  "'f lex_env \<Rightarrow> ('f, 's) lexer_scheme \<Rightarrow> (string option \<times> bool \<times> ('f, 's) lexer_scheme) outcome" where
  "eat_curtok_to_identifier env lx =
     (case curtok lx of
        Kw k \<Rightarrow> bindE (nexttoken env lx) (\<lambda>lx'. Inr (token_to_str (curtok lx), False, lx'))
      | token_identifier \<Rightarrow> bindE (token_eat_identifier env None lx) (\<lambda>(s, lx). Inr (s, True, lx))
      | _ \<Rightarrow> Inr (None, False, lx))"

text \<open>
  \<^verbatim>\<open>tok_at_label\<close>: a line that ends behind the identifier is joined with the next one, from where
  the scan stopped on.  After \<^verbatim>\<open>realloc\<close> the code takes the difference to the old \<^verbatim>\<open>bufferpos\<close>; the
  model is the case in which the block has not moved.
\<close>

primrec tok_at_label_n :: "nat \<Rightarrow> ('f, 's) lexer_scheme \<Rightarrow> (bool \<times> ('f, 's) lexer_scheme) outcome" where
  "tok_at_label_n 0 lx = Inl Out_of_fuel"
| "tok_at_label_n (Suc n) lx =
     (if curtok lx \<noteq> token_identifier then Inr (False, lx)
      else
        bindE (buf_rest lx) (\<lambda>s.
        let hash = (take 1 s = ''#''); r = (if hash then s else dropWhile isspace s) in
        bindE (if hash then parse_line_directive s lx else Inr lx) (\<lambda>lx.
        if \<not> hash \<and> r \<noteq> [] then Inr (take 1 r = '':'', lx)
        else
          bindE (tokenise_read_line lx) (\<lambda>(new, lx).
            case new of
              None \<Rightarrow> Inr (False, lx)
            | Some l \<Rightarrow>
              let skip = (if hash then 0 else length s) in
              tok_at_label_n n (update_bufferpos (int skip)
                (lx\<lparr>buffer := map_option (\<lambda>(b, p). (take (p + skip) b @ l, p)) (buffer lx)\<rparr>))))))"

definition tok_at_label :: "('f, 's) lexer_scheme \<Rightarrow> (bool \<times> ('f, 's) lexer_scheme) outcome" where
  "tok_at_label lx = tok_at_label_n (length (in_lines lx) + 2) lx"

end
