(* ===== verification/Ucc_Lexer_Scan.thy ===== *)
theory Ucc_Lexer_Scan
  imports Ucc_Lexer
begin

text \<open>
  What the tokeniser reads: the text of every token, as \<^verbatim>\<open>token_to_str\<close> of \<^verbatim>\<open>tokconv.c\<close> writes it,
  is read back as that token.
\<close>

section \<open>Characters\<close>

text \<open>The state at position \<open>p\<close> of a line, with nothing pushed back and no error so far.\<close>

definition reading :: "string \<Rightarrow> nat \<Rightarrow> ('f, 's) lexer_scheme \<Rightarrow> bool" where
  "reading line p lx \<longleftrightarrow>
     buffer lx = Some (line, p) \<and> p \<le> length line \<and> \<not> buffereof lx \<and> ungetch lx = None"

text \<open>What scanning a token leaves alone.\<close>

definition same_input :: "('f, 's) lexer_scheme \<Rightarrow> ('f, 's) lexer_scheme \<Rightarrow> bool" where
  "same_input lx lx' \<longleftrightarrow>
     keyword_mode lx' = keyword_mode lx \<and> in_lines lx' = in_lines lx \<and>
     parse_had_error lx' = parse_had_error lx \<and> in_comment lx' = in_comment lx \<and>
     curtok_save lx' = curtok_save lx"

lemma same_input_refl [simp]: "same_input lx lx"
  by (simp add: same_input_def)

lemma same_input_trans: "same_input a b \<Longrightarrow> same_input b c \<Longrightarrow> same_input a c"
  by (simp add: same_input_def)

lemma buf_rest_reading: "reading line p lx \<Longrightarrow> buf_rest lx = Inr (drop p line)"
  by (simp add: reading_def buf_rest_def)

lemma buf_char_reading: "reading line p lx \<Longrightarrow> buf_char lx = Inr (first_char (drop p line))"
  by (simp add: buf_char_def buf_rest_reading)

lemma peek_reading: "reading line p lx \<Longrightarrow> peeknextchar lx = Inr (as_int (first_char (drop p line)), lx)"
  using buf_char_reading [of line p lx] by (simp add: peeknextchar_def reading_def)

lemma reading_update:
  "reading line p lx \<Longrightarrow> p + n \<le> length line \<Longrightarrow> reading line (p + n) (update_bufferpos (int n) lx)"
  by (simp add: reading_def update_bufferpos_def nat_int_add)

lemma same_input_update [simp]: "same_input lx (update_bufferpos n lx)"
  by (simp add: same_input_def update_bufferpos_def)

lemma rawnextchar_reading:
  assumes "reading line p lx" "drop p line = c # r" "c \<noteq> NUL"
  shows "rawnextchar lx = Inr (as_int c, update_bufferpos 1 lx)"
proof -
  have b: "buffer lx = Some (line, p)" "\<not> buffereof lx" using assms(1) by (simp_all add: reading_def)
  have c: "buf_char lx = Inr c" using buf_char_reading [OF assms(1)] assms(2) by (simp add: first_char_def)
  show ?thesis by (simp add: rawnextchar_def b c assms(3))
qed

lemma isspace_props: "isspace c \<Longrightarrow> c \<noteq> NUL \<and> c \<noteq> CHR 0xFF"
  by (auto simp: isspace_def char_code_def)

definition plain :: "char \<Rightarrow> bool" where
  "plain c \<longleftrightarrow> \<not> isspace c \<and> c \<noteq> NUL \<and> c \<noteq> CHR 0xFF"

lemma as_int_plain: "plain c \<Longrightarrow> as_int c = Some c"
  by (simp add: plain_def as_int_def)

lemma cspace_plain: "plain c \<Longrightarrow> \<not> char_is_cspace (Some c)"
  by (auto simp: plain_def char_is_cspace_def isspace_def char_code_def)

lemma nextchar_loop_reading:
  assumes "reading line p lx" "drop p line = sp @ c # r" "list_all isspace sp" "plain c" "length sp < n"
  shows "nextchar_loop n lx = Inr (Some c, update_bufferpos (int (length sp + 1)) lx)"
  using assms
proof (induction sp arbitrary: p lx n)
  case Nil
  then obtain m where "n = Suc m" by (cases n) auto
  then show ?case
    using Nil rawnextchar_reading [OF Nil.prems(1), of c r] cspace_plain [OF Nil.prems(4)]
      as_int_plain [OF Nil.prems(4)] by (simp add: plain_def)
next
  case (Cons s sp)
  then obtain m where m: "n = Suc m" by (cases n) auto
  have s: "s \<noteq> NUL" "as_int s = Some s" "char_is_cspace (Some s)"
    using Cons.prems(3) isspace_props [of s] by (auto simp: as_int_def char_is_cspace_def)
  have p: "p + 1 \<le> length line" "drop (p + 1) line = sp @ c # r"
    using Cons.prems(1,2) by (auto simp: reading_def drop_Suc simp flip: tl_drop) (metis drop_all list.distinct(1) not_less_eq_eq)
  have "nextchar_loop m (update_bufferpos 1 lx) =
      Inr (Some c, update_bufferpos (int (length sp + 1)) (update_bufferpos 1 lx))"
    using Cons.IH [OF _ p(2)] reading_update [OF Cons.prems(1) p(1)] Cons.prems(3-5) m by simp
  moreover have "update_bufferpos (int (length sp + 1)) (update_bufferpos 1 lx) =
      update_bufferpos (int (length (s # sp) + 1)) lx"
    using Cons.prems(1) by (simp add: update_bufferpos_def reading_def nat_add_distrib add.commute)
  ultimately show ?case
    using rawnextchar_reading [OF Cons.prems(1), of s "sp @ c # r"] Cons.prems(2) m s by simp
qed

lemma nextchar_reading:
  assumes "reading line p lx" "drop p line = sp @ c # r" "list_all isspace sp" "plain c"
  shows "nextchar lx = Inr (Some c, update_bufferpos (int (length sp + 1)) lx)"
proof -
  have "length sp + 1 \<le> length line - p" using arg_cong [OF assms(2), of length] by simp
  then have "length sp < Suc (remaining lx)" using assms(1) by (simp add: remaining_def reading_def)
  then show ?thesis unfolding nextchar_def by (rule nextchar_loop_reading [OF assms])
qed

lemma skipchar_reading:
  "reading line p lx \<Longrightarrow> drop p line = c # r \<Longrightarrow> plain c \<Longrightarrow> skipchar lx = Inr (update_bufferpos 1 lx)"
  using nextchar_reading [of line p lx "[]" c r] by (simp add: skipchar_def)


section \<open>Punctuation\<close>

lemma next_text:
  assumes "drop p line = a @ b" shows "drop (p + length a) line = b"
  using assms by (metis add.commute append_eq_conv_conj drop_drop)

text \<open>A scanner reads \<open>t\<close> and then stands at \<open>p\<close>.\<close>

definition scans :: "('f, 's) lexer_scheme outcome \<Rightarrow> ('f, 's) lexer_scheme \<Rightarrow> string \<Rightarrow> nat \<Rightarrow> ctoken \<Rightarrow> bool" where
  "scans res lx line p t \<longleftrightarrow>
     (\<exists>lx'. res = Inr lx' \<and> reading line p lx' \<and> same_input lx lx' \<and> curtok lx' = t)"

lemma scansI: "res = Inr lx' \<Longrightarrow> reading line p lx' \<Longrightarrow> same_input lx lx' \<Longrightarrow> curtok lx' = t \<Longrightarrow> scans res lx line p t"
  by (auto simp: scans_def)

lemma scansE:
  assumes "scans res lx line p t"
  obtains lx' where "res = Inr lx'" "reading line p lx'" "same_input lx lx'" "curtok lx' = t"
  using assms by (auto simp: scans_def)

lemma reading_simps [simp]:
  "reading line p (lx\<lparr>curtok := t\<rparr>) = reading line p lx"
  "reading line p (lx\<lparr>loc_tok := l\<rparr>) = reading line p lx"
  "reading line p (lx\<lparr>currentval := n\<rparr>) = reading line p lx"
  "reading line p (lx\<lparr>currentspelling := s\<rparr>) = reading line p lx"
  by (simp_all add: reading_def)

lemma same_input_simps [simp]:
  "same_input lx0 (lx\<lparr>curtok := t\<rparr>) = same_input lx0 lx"
  "same_input lx0 (lx\<lparr>loc_tok := l\<rparr>) = same_input lx0 lx"
  "same_input lx0 (lx\<lparr>currentval := n\<rparr>) = same_input lx0 lx"
  "same_input lx0 (lx\<lparr>currentspelling := s\<rparr>) = same_input lx0 lx"
  "same_input lx0 (update_bufferpos k lx) = same_input lx0 lx"
  by (simp_all add: same_input_def update_bufferpos_def)

lemma update_bufferpos_keeps [simp]:
  "curtok (update_bufferpos k lx) = curtok lx" "currentval (update_bufferpos k lx) = currentval lx"
  "currentspelling (update_bufferpos k lx) = currentspelling lx"
  "keyword_mode (update_bufferpos k lx) = keyword_mode lx"
  by (simp_all add: update_bufferpos_def)

text \<open>Reading one of several tokens by the next character.\<close>

lemma choose_next_default:
  assumes "reading line p lx" "drop p line = c # r" "map_of alts c = None"
  shows "scans (choose_next alts t lx) lx line p t"
proof -
  have "Option.bind (as_int c) (map_of alts) = None" using assms(3) by (simp add: as_int_def)
  then show ?thesis
    using assms(1) peek_reading [OF assms(1)] assms(2)
    by (intro scansI [of _ "lx\<lparr>curtok := t\<rparr>"]) (simp_all add: choose_next_def first_char_def)
qed

lemma choose_next_alt:
  assumes "reading line p lx" "drop p line = c # r" "map_of alts c = Some u" "plain c"
  shows "scans (choose_next alts t lx) lx line (p + 1) u"
proof -
  have "p + 1 \<le> length line" using arg_cong [OF assms(2), of length] by simp
  then have "reading line (p + 1) (update_bufferpos 1 lx)" using reading_update [OF assms(1), of 1] by simp
  then show ?thesis
    using peek_reading [OF assms(1)] assms(2,3) as_int_plain [OF assms(4)] skipchar_reading [OF assms(1,2,4)]
    by (intro scansI [of _ "(update_bufferpos 1 lx)\<lparr>curtok := u\<rparr>"]) (simp_all add: choose_next_def first_char_def)
qed

lemma lex_xequal_stay:
  assumes "reading line p lx" "drop p line = c # r" "c \<noteq> CHR ''=''"
  shows "scans (lex_xequal lx) lx line p (curtok lx)"
  using assms peek_reading [OF assms(1)]
  by (intro scansI [of _ lx]) (auto simp: lex_xequal_def first_char_def as_int_def)

lemma plain_eq: "plain (CHR ''='')"
  by (simp add: plain_def isspace_def char_code_def)

lemma lex_xequal_assign:
  assumes "reading line p lx" "drop p line = CHR ''='' # r" "curtok lx = Op t"
  shows "scans (lex_xequal lx) lx line (p + 1) (Op_assign t)"
proof -
  have "p + 1 \<le> length line" using arg_cong [OF assms(2), of length] by simp
  then have "reading line (p + 1) (update_bufferpos 1 lx)" using reading_update [OF assms(1), of 1] by simp
  then show ?thesis
    using peek_reading [OF assms(1)] assms(2,3) skipchar_reading [OF assms(1,2) plain_eq]
    by (intro scansI [of _ "(update_bufferpos 1 lx)\<lparr>curtok := Op_assign t\<rparr>"])
       (simp_all add: lex_xequal_def first_char_def as_int_def curtok_is_xequal_def)
qed

lemma scans_bind:
  assumes "scans res lx line p t"
    "\<And>lx'. reading line p lx' \<Longrightarrow> curtok lx' = t \<Longrightarrow> scans (f lx') lx' line q u"
  shows "scans (bindE res f) lx line q u"
proof -
  obtain lx' where lx': "res = Inr lx'" "reading line p lx'" "same_input lx lx'" "curtok lx' = t"
    using assms(1) by (rule scansE)
  obtain lx2 where "f lx' = Inr lx2" "reading line q lx2" "same_input lx' lx2" "curtok lx2 = u"
    using assms(2) [OF lx'(2,4)] by (rule scansE)
  then show ?thesis using lx' by (intro scansI) (auto intro: same_input_trans)
qed


text \<open>How the table of punctuation reads \<open>c\<close> and the characters \<open>rest\<close> as \<open>t\<close>, when a space follows.\<close>

definition punct_ok :: "char \<Rightarrow> string \<Rightarrow> ctoken \<Rightarrow> bool" where
  "punct_ok c rest t \<longleftrightarrow>
     (case map_of punctuation c of
        None \<Rightarrow> False
      | Some (alts, u) \<Rightarrow>
        (case rest of
           [] \<Rightarrow> t = u \<and> map_of alts (CHR '' '') = None
         | [d] \<Rightarrow>
           (case map_of alts d of
              Some v \<Rightarrow> t = v \<and> plain d
            | None \<Rightarrow> d = CHR ''='' \<and> (case u of Op x \<Rightarrow> t = Op_assign x | _ \<Rightarrow> False))
         | [d, e] \<Rightarrow> plain d \<and> e = CHR ''='' \<and>
             (case map_of alts d of Some (Op x) \<Rightarrow> t = Op_assign x | _ \<Rightarrow> False)
         | _ \<Rightarrow> False))"

lemma lex_punctuation_default:
  assumes "map_of punctuation c = Some (alts, u)" "reading line p lx" "drop p line = e # r" "map_of alts e = None"
  shows "scans (lex_punctuation c lx) lx line p u"
  using assms(2) choose_next_default [OF assms(2-4), of u]
  by (auto simp: lex_punctuation_def assms(1) intro: scansI [of _ "lx\<lparr>curtok := u\<rparr>"])

lemma lex_punctuation_alt:
  assumes "map_of punctuation c = Some (alts, u)" "reading line p lx" "drop p line = d # r"
    "map_of alts d = Some v" "plain d"
  shows "scans (lex_punctuation c lx) lx line (p + 1) v"
  using choose_next_alt [OF assms(2-5), of u] assms(4) by (auto simp: lex_punctuation_def assms(1))

lemma punctuation_read:
  assumes "punct_ok c rest t" "reading line p lx" "drop p line = rest @ CHR '' '' # r"
  shows "scans (bindE (lex_punctuation c lx) lex_xequal) lx line (p + length rest) t"
proof -
  obtain alts u where m: "map_of punctuation c = Some (alts, u)"
    using assms(1) by (auto simp: punct_ok_def split: option.splits)
  have nxt: "drop (p + 1) line = b" if "drop p line = a # b" for a b using next_text [of p line "[a]" b] that by simp
  have stay: "scans (lex_xequal lx') lx' line q t'"
    if "reading line q lx'" "drop q line = CHR '' '' # r" "curtok lx' = t'" for lx' q t'
    using lex_xequal_stay [OF that(1,2)] that(3) by simp
  have eq: "scans (lex_xequal lx') lx' line (q + 1) (Op_assign x)"
    if "reading line q lx'" "drop q line = CHR ''='' # r'" "curtok lx' = Op x" for lx' q r' x
    using lex_xequal_assign [OF that] .
  show ?thesis
  proof (cases rest)
    case Nil
    then have "t = u" "map_of alts (CHR '' '') = None" using assms(1) m by (simp_all add: punct_ok_def)
    then show ?thesis
      using lex_punctuation_default [OF m assms(2)] assms(3) Nil stay
      by (intro scans_bind [where p = p and t = u]) auto
  next
    case (Cons d rest')
    show ?thesis
    proof (cases rest')
      case Nil
      note n = nxt [of d "CHR '' '' # r"]
      show ?thesis
      proof (cases "map_of alts d")
        case None
        then obtain x where "u = Op x" "t = Op_assign x" "d = CHR ''=''"
          using assms(1) m Cons Nil by (auto simp: punct_ok_def split: ctoken.splits)
        then show ?thesis
          using lex_punctuation_default [OF m assms(2) _ None] eq assms(3) Cons Nil
          by (intro scans_bind [where p = p and t = u]) auto
      next
        case (Some v)
        then have "t = v" "plain d" using assms(1) m Cons Nil by (auto simp: punct_ok_def)
        then show ?thesis
          using lex_punctuation_alt [OF m assms(2) _ Some] stay n assms(3) Cons Nil
          by (intro scans_bind [where p = "p + 1" and t = v]) auto
      qed
    next
      case (Cons e rest'')
      then obtain x where x: "map_of alts d = Some (Op x)" "t = Op_assign x" "plain d" "e = CHR ''=''" "rest'' = []"
        using assms(1) m \<open>rest = d # rest'\<close>
        by (auto simp: punct_ok_def split: list.splits option.splits ctoken.splits)
      then show ?thesis
        using lex_punctuation_alt [OF m assms(2) _ x(1)] eq nxt [of d "CHR ''='' # CHR '' '' # r"]
          assms(3) Cons \<open>rest = d # rest'\<close>
        by (intro scans_bind [where p = "p + 1" and t = "Op x"]) auto
    qed
  qed
qed


lemma as_int_space: "as_int (CHR '' '') = Some (CHR '' '')"
  by (simp add: as_int_def)

lemma lex_dot_one:
  assumes "reading line p lx" "drop p line = CHR '' '' # r"
  shows "scans (lex_dot lx) lx line p token_dot"
  using peek_reading [of line p "lx\<lparr>curtok := token_dot\<rparr>"] assms
  by (intro scansI [of _ "lx\<lparr>curtok := token_dot\<rparr>"]) (simp_all add: lex_dot_def first_char_def as_int_def)

lemma plain_dot: "plain (CHR ''.'')"
  by (simp add: plain_def isspace_def char_code_def)

lemma lex_dot_three:
  assumes "reading line p lx" "drop p line = CHR ''.'' # CHR ''.'' # r"
  shows "scans (lex_dot lx) lx line (p + 2) token_elipsis"
proof -
  let ?l0 = "lx\<lparr>curtok := token_dot\<rparr>" let ?l1 = "update_bufferpos 1 ?l0" let ?l2 = "update_bufferpos 1 ?l1"
  have d: "drop (p + 1) line = CHR ''.'' # r" using next_text [of p line "''.''"] assms(2) by simp
  have le: "p + 2 \<le> length line" using arg_cong [OF assms(2), of length] by simp
  have r0: "reading line p ?l0" using assms(1) by simp
  have r1: "reading line (p + 1) ?l1" using reading_update [OF r0, of 1] le by simp
  have r2: "reading line (p + 2) ?l2" using reading_update [OF r1, of 1] le by simp
  show ?thesis
    using peek_reading [OF r0] peek_reading [OF r1] skipchar_reading [OF r0 assms(2) plain_dot]
      skipchar_reading [OF r1 d plain_dot] r2 assms(2) d
    by (intro scansI [of _ "?l2\<lparr>curtok := token_elipsis\<rparr>"]) (simp_all add: lex_dot_def first_char_def as_int_def)
qed

lemma lex_slash_op:
  assumes "reading line p lx" "drop p line = CHR '' '' # r"
  shows "scans (lex_slash nt lx) lx line p (Op token_divide)"
proof -
  let ?l = "lx\<lparr>curtok := Op token_divide\<rparr>"
  have "scans (lex_xequal ?l) ?l line p (Op token_divide)"
    using lex_xequal_stay [of line p ?l] assms by simp
  then have "scans (lex_xequal ?l) lx line p (Op token_divide)" by (simp add: scans_def same_input_def)
  then show ?thesis
    using peek_reading [OF assms(1)] assms(2) by (simp add: lex_slash_def first_char_def as_int_def)
qed

lemma lex_slash_assign:
  assumes "reading line p lx" "drop p line = CHR ''='' # r"
  shows "scans (lex_slash nt lx) lx line (p + 1) (Op_assign token_divide)"
proof -
  let ?l = "lx\<lparr>curtok := Op token_divide\<rparr>"
  have "scans (lex_xequal ?l) ?l line (p + 1) (Op_assign token_divide)"
    using lex_xequal_assign [of line p ?l] assms by simp
  then have "scans (lex_xequal ?l) lx line (p + 1) (Op_assign token_divide)" by (simp add: scans_def same_input_def)
  then show ?thesis
    using peek_reading [OF assms(1)] assms(2) by (simp add: lex_slash_def first_char_def as_int_def)
qed

section \<open>Words and numbers\<close>

definition word_start :: "char \<Rightarrow> bool" where
  "word_start c \<longleftrightarrow> isalpha c \<or> c = CHR ''_'' \<or> c = CHR ''$''"

definition is_word :: "string \<Rightarrow> bool" where
  "is_word w \<longleftrightarrow> w \<noteq> [] \<and> word_start (hd w) \<and> list_all word_char w"

lemma space_not_word: "\<not> word_char (CHR '' '')"
  by (simp add: word_char_def isalnum_def isalpha_def isupper_def islower_def isdigit_def char_code_def)

lemma lex_word_read:
  assumes "reading line (p + 1) lx" "drop p line = w @ CHR '' '' # r" "is_word w" "w \<noteq> ''_Pragma''"
  shows "\<exists>lx'. lex_word nt lx = Inr lx' \<and> reading line (p + length w) lx' \<and> same_input lx lx' \<and>
    (case find_keyword (keyword_mode lx) w of
       Some k \<Rightarrow> curtok lx' = Kw k
     | None \<Rightarrow> curtok lx' = token_identifier \<and> currentspelling lx' = Some w)"
proof -
  obtain c cs where w: "w = c # cs" using assms(3) by (cases w) (auto simp: is_word_def)
  have d: "drop (p + 1) line = cs @ CHR '' '' # r" using next_text [of p line "[c]"] assms(2) w by simp
  have run: "takeWhile word_char (drop (p + 1) line) = cs"
    unfolding d using assms(3) w space_not_word by (simp add: is_word_def list_all_iff takeWhile_append)
  have le: "p + 1 + length cs \<le> length line" using arg_cong [OF assms(2), of length] w by simp
  have word: "take (length cs + 1) (drop p line) = w" using assms(2) w by simp
  have "reading line (p + 1 + length cs) (update_bufferpos (int (length cs)) lx)"
    using reading_update [OF assms(1) le] .
  then have "reading line (p + length w) (update_bufferpos (int (length cs)) lx)" using w by simp
  moreover have "buffer lx = Some (line, p + 1)" using assms(1) by (simp add: reading_def)
  ultimately show ?thesis
    using run word assms(4) by (cases "find_keyword (keyword_mode lx) w") (auto simp: lex_word_def Let_def)
qed


text \<open>A decimal number without leading zero that fits 64 bits.\<close>

definition is_number :: "string \<Rightarrow> bool" where
  "is_number ds \<longleftrightarrow> ds \<noteq> [] \<and> hd ds \<noteq> CHR ''0'' \<and> list_all isdigit ds \<and> digits_value 10 0 ds < 2 ^ 64"

lemma space_props:
  "\<not> isdigit (CHR '' '')" "\<not> isalpha (CHR '' '')" "tolower (CHR '' '') = CHR '' ''"
  by (simp_all add: isdigit_def isalpha_def isupper_def islower_def char_code_def tolower_def)

lemma read_integer_dec:
  assumes "reading line p lx" "drop p line = ds @ CHR '' '' # r" "is_number ds"
  shows "read_integer DEC lx =
    Inr (update_bufferpos (int (length ds))
      (lx\<lparr>currentval := \<lparr>num_val = Val_i (of_nat (digits_value 10 0 ds)), num_suffix = 0\<rparr>\<rparr>))"
proof -
  have "char_seq_to_ullong (ds @ CHR '' '' # r) False DEC = (of_nat (digits_value (base_radix DEC) 0 ds), CHR '' '' # r, False)"
    using assms(3) by (intro char_seq_exact)
      (auto simp: is_number_def stops_def base_digit_def base_radix_def space_props)
  moreover have "base_radix DEC = 10" by (simp add: base_radix_def)
  ultimately show ?thesis
    using buf_rest_reading [OF assms(1)] assms(2,3) by (simp add: read_integer_def is_number_def Let_def)
qed

lemma read_suffix_none:
  assumes "reading line p lx" "drop p line = CHR '' '' # r" "num_suffix (currentval lx) = 0"
  shows "read_suffix env lx = Inr lx"
proof -
  have pk: "peeknextchar lx = Inr (Some (CHR '' ''), lx)"
    using peek_reading [OF assms(1)] assms(2) by (simp add: first_char_def as_int_def)
  have "suffix_int_loop 3 0 lx = Inr (0, lx)" by (simp add: numeral_3_eq_3 pk)
  then have "read_suffix_int lx = Inr lx" by (simp add: read_suffix_int_def)
  then show ?thesis
    using assms(3) by (simp add: read_suffix_def pk K_FLOATING_def space_props opt_is_def)
qed

lemma lex_number_read:
  assumes "reading line (p + 1) lx" "drop p line = ds @ CHR '' '' # r" "is_number ds"
  shows "\<exists>lx'. read_number env (hd ds) lx = Inr lx' \<and> reading line (p + length ds) lx' \<and> same_input lx lx' \<and>
    curtok lx' = token_integer \<and>
    currentval lx' = \<lparr>num_val = Val_i (of_nat (digits_value 10 0 ds)), num_suffix = 0\<rparr>"
proof -
  let ?l0 = "update_bufferpos (- 1) lx"
  let ?num = "\<lparr>num_val = Val_i (of_nat (digits_value 10 0 ds)), num_suffix = 0\<rparr>"
  let ?l1 = "update_bufferpos (int (length ds)) (?l0\<lparr>currentval := ?num\<rparr>)"
  have b: "buffer lx = Some (line, p + 1)" using assms(1) by (simp add: reading_def)
  have r0: "reading line p ?l0" using assms(1) by (simp add: reading_def update_bufferpos_def)
  have le: "p + length ds \<le> length line" using arg_cong [OF assms(2), of length] by simp
  have r1: "reading line (p + length ds) ?l1"
    using reading_update [of line p "?l0\<lparr>currentval := ?num\<rparr>"] r0 le by simp
  have d1: "drop (p + length ds) line = CHR '' '' # r" using next_text [OF assms(2)] .
  have dw: "dropWhile isdigit (drop p line) = CHR '' '' # r"
    using assms(2,3) space_props by (simp add: is_number_def list_all_iff dropWhile_append1 dropWhile_append)
  have f: "hd ds \<noteq> CHR ''0''" using assms(3) by (simp add: is_number_def)
  have sf: "read_suffix env ?l1 = Inr ?l1" using read_suffix_none [OF r1 d1] by simp
  show ?thesis
    using r1 read_integer_dec [OF r0 assms(2,3)] sf
    by (intro exI [of _ "?l1\<lparr>curtok := token_integer\<rparr>"])
       (simp add: read_number_def b f buf_rest_reading [OF r0] dw first_char_def K_FLOATING_def Let_def)
qed


section \<open>Tokens and their text\<close>

text \<open>What \<^verbatim>\<open>token_to_str\<close> writes, without the quotes around punctuation.\<close>

definition token_text :: "ctoken \<Rightarrow> string" where
  "token_text t =
     (case token_to_str t of
        Some (c # s) \<Rightarrow> if c = CHR 0x27 then butlast s else c # s
      | _ \<Rightarrow> [])"

text \<open>Tokens that have one text: no literals, no end of file, and not \<^verbatim>\<open>!=\<close> as an assignment.\<close>

definition punct_tokens :: "ctoken list" where
  "punct_tokens =
     [token_open_paren, token_open_block, token_open_square, token_close_paren, token_close_block,
      token_close_square, token_comma, token_semicolon, token_colon, token_question, token_increment,
      token_decrement, token_assign, token_ptr, token_eq, token_le, token_lt, token_ge, token_gt, token_ne,
      token_andsc, token_orsc, Op token_plus, Op token_minus, Op token_multiply, Op token_modulus, Op token_not,
      Op token_bnot, Op token_and, Op token_or, Op token_xor, Op token_shiftl, Op token_shiftr,
      Op_assign token_plus, Op_assign token_minus, Op_assign token_multiply, Op_assign token_modulus,
      Op_assign token_bnot, Op_assign token_and, Op_assign token_or, Op_assign token_xor,
      Op_assign token_shiftl, Op_assign token_shiftr]"

definition other_tokens :: "ctoken list" where
  "other_tokens = [token_dot, token_elipsis, Op token_divide, Op_assign token_divide]"

text \<open>Characters with which no literal, word, number or comment starts.\<close>

definition op_start :: "char \<Rightarrow> bool" where
  "op_start c \<longleftrightarrow> plain c \<and> \<not> isdigit c \<and> \<not> isalpha c \<and> c \<notin> set [CHR ''.'', CHR ''_'', CHR ''$'', CHR 0x22, CHR 0x27, CHR ''/'']"

lemma punct_tokens_ok:
  "list_all (\<lambda>t. case token_text t of c # rest \<Rightarrow> op_start c \<and> punct_ok c rest t | [] \<Rightarrow> False) punct_tokens"
  by code_simp

datatype lexeme = Fixed ctoken | Name string | Number string

fun lexeme_text :: "lexeme \<Rightarrow> string" where
  "lexeme_text (Fixed t) = token_text t"
| "lexeme_text (Name w) = w"
| "lexeme_text (Number ds) = ds"

fun lexeme_ok :: "u32 \<Rightarrow> lexeme \<Rightarrow> bool" where
  "lexeme_ok mode (Fixed (Kw k)) \<longleftrightarrow> find_keyword mode (kw_to_str k) = Some k"
| "lexeme_ok mode (Fixed t) \<longleftrightarrow> t \<in> set (punct_tokens @ other_tokens)"
| "lexeme_ok mode (Name w) \<longleftrightarrow> is_word w \<and> find_keyword mode w = None \<and> w \<noteq> ''_Pragma''"
| "lexeme_ok mode (Number ds) \<longleftrightarrow> is_number ds"

text \<open>The token and its value.\<close>

fun lexeme_read :: "lexeme \<Rightarrow> ('f, 's) lexer_scheme \<Rightarrow> bool" where
  "lexeme_read (Fixed t) lx \<longleftrightarrow> curtok lx = t"
| "lexeme_read (Name w) lx \<longleftrightarrow> curtok lx = token_identifier \<and> currentspelling lx = Some w"
| "lexeme_read (Number ds) lx \<longleftrightarrow> curtok lx = token_integer \<and>
     currentval lx = \<lparr>num_val = Val_i (of_nat (digits_value 10 0 ds)), num_suffix = 0\<rparr>"

lemma kw_word: "is_word (kw_to_str k) \<and> token_text (Kw k) = kw_to_str k \<and> kw_to_str k \<noteq> ''_Pragma''"
  by (induct k) code_simp+

lemma word_start_props:
  assumes "word_start c" shows "plain c" "\<not> isdigit c" "c \<noteq> CHR ''.''" "c \<noteq> CHR ''#''"
  using assms by (auto simp: word_start_def plain_def isalpha_def isupper_def islower_def isdigit_def isspace_def char_code_def)

text \<open>The first character has been read; \<open>nt\<close> is not called.\<close>

lemma lex_from_word:
  assumes "reading line (p + 1) lx" "drop p line = w @ CHR '' '' # r" "is_word w" "w \<noteq> ''_Pragma''"
  shows "lex_from env nt (hd w) lx = lex_word nt lx"
proof -
  obtain c cs where w: "w = c # cs" using assms(3) by (cases w) (auto simp: is_word_def)
  have c: "word_start c" using assms(3) w by (simp add: is_word_def)
  note pr = word_start_props [OF c]
  have d: "drop (p + 1) line = cs @ CHR '' '' # r" using next_text [of p line "[c]"] assms(2) w by simp
  have fc: "first_char (drop (p + 1) line) \<notin> {CHR 0x22, CHR 0x27}"
    unfolding d using assms(3) w
    by (cases cs) (auto simp: first_char_def is_word_def word_char_def isalnum_def isalpha_def isupper_def islower_def isdigit_def char_code_def)
  then have "as_int (first_char (drop (p + 1) line)) \<notin> {Some (CHR 0x22), Some (CHR 0x27)}" by (simp add: as_int_def)
  then show ?thesis
    using w c pr peek_reading [OF assms(1)] by (auto simp: lex_from_def word_start_def)
qed


lemma lex_from_op:
  assumes "op_start c" shows "lex_from env nt c lx = bindE (lex_punctuation c lx) lex_xequal"
proof -
  have "isalpha (CHR ''L'')" by (simp add: isalpha_def isupper_def islower_def char_code_def)
  then have c: "c \<noteq> CHR ''L''" "\<not> isdigit c" "\<not> isalpha c" "c \<noteq> CHR ''.''" "c \<noteq> CHR ''_''" "c \<noteq> CHR ''$''"
    "c \<noteq> CHR 0x22" "c \<noteq> CHR 0x27" "c \<noteq> CHR ''/''"
    using assms by (auto simp: op_start_def)
  show ?thesis unfolding lex_from_def by (simp only: c if_False bindE_simps prod.case simp_thms option.simps)
qed

lemma lex_from_other:
  assumes "reading line (p + 1) lx" "drop p line = token_text t @ CHR '' '' # r" "t \<in> set other_tokens"
  shows "scans (lex_from env nt (hd (token_text t)) lx) lx line (p + length (token_text t)) t"
proof -
  have tx: "token_text token_dot = ''.''" "token_text token_elipsis = ''...''"
    "token_text (Op token_divide) = ''/''" "token_text (Op_assign token_divide) = ''/=''" by code_simp+
  note nxt = next_text [of p line "[a]" for a, simplified]
  have nd: "\<not> isdigit (CHR '' '')" "\<not> isdigit (CHR ''.'')" "\<not> isdigit (CHR ''/'')" "\<not> isalpha (CHR ''/'')"
    by (simp_all add: isdigit_def isalpha_def isupper_def islower_def char_code_def)
  consider "t = token_dot" | "t = token_elipsis" | "t = Op token_divide" | "t = Op_assign token_divide"
    using assms(3) by (auto simp: other_tokens_def)
  then show ?thesis
  proof cases
    case 1
    then have d: "drop (p + 1) line = CHR '' '' # r" using assms(2) tx nxt by simp
    then show ?thesis
      using lex_dot_one [OF assms(1) d] peek_reading [OF assms(1)] 1 tx nd
      by (simp add: lex_from_def opt_is_def first_char_def as_int_def)
  next
    case 2
    then have d: "drop (p + 1) line = CHR ''.'' # CHR ''.'' # CHR '' '' # r" using assms(2) tx nxt by simp
    then show ?thesis
      using lex_dot_three [OF assms(1) d] peek_reading [OF assms(1)] 2 tx nd
      by (simp add: lex_from_def opt_is_def first_char_def as_int_def numeral_3_eq_3)
  next
    case 3
    then have d: "drop (p + 1) line = CHR '' '' # r" using assms(2) tx nxt by simp
    then show ?thesis using lex_slash_op [OF assms(1) d] 3 tx nd by (simp add: lex_from_def)
  next
    case 4
    then have d: "drop (p + 1) line = CHR ''='' # CHR '' '' # r" using assms(2) tx nxt by simp
    then show ?thesis using lex_slash_assign [OF assms(1) d] 4 tx nd by (simp add: lex_from_def)
  qed
qed

lemma isdigit_plain: "isdigit c \<Longrightarrow> plain c"
  by (auto simp: plain_def isdigit_def isspace_def char_code_def)

text \<open>The first character of a lexeme, and what is read when it has been taken.\<close>

lemma hash_not_punct: "\<not> punct_ok (CHR ''#'') rest t"
  by (simp add: punct_ok_def punctuation_def)

lemma hash_not_digit: "isdigit c \<Longrightarrow> c \<noteq> CHR ''#''"
  by (auto simp: isdigit_def char_code_def)

lemma lexeme_hd:
  assumes "lexeme_ok mode x" shows "\<exists>c cs. lexeme_text x = c # cs \<and> plain c \<and> c \<noteq> CHR ''#''"
proof (cases x)
  case (Fixed t)
  consider k where "t = Kw k" | "t \<in> set punct_tokens" | "t \<in> set other_tokens"
    using assms Fixed by (cases t) auto
  then show ?thesis
  proof cases
    case 1
    then show ?thesis using Fixed kw_word [of k] word_start_props(1,4) [of "hd (kw_to_str k)"]
      by (cases "kw_to_str k") (auto simp: is_word_def)
  next
    case 2
    then show ?thesis using Fixed punct_tokens_ok by (cases "token_text t") (auto simp: list_all_iff op_start_def hash_not_punct)
  next
    case 3
    have "list_all (\<lambda>t. \<exists>c cs. token_text t = c # cs \<and> plain c \<and> c \<noteq> CHR ''#'') other_tokens"
      by (simp add: other_tokens_def token_text_def quoted_def plain_def isspace_def char_code_def)
    then show ?thesis using 3 Fixed by (auto simp: list_all_iff)
  qed
next
  case (Name w)
  then show ?thesis using assms word_start_props(1,4) by (cases w) (auto simp: is_word_def)
next
  case (Number ds)
  then show ?thesis using assms isdigit_plain hash_not_digit by (cases ds) (auto simp: is_number_def)
qed

lemma lex_from_lexeme:
  assumes "lexeme_ok (keyword_mode lx) x" "reading line (p + 1) lx" "drop p line = lexeme_text x @ CHR '' '' # r"
  shows "\<exists>lx'. lex_from env nt (hd (lexeme_text x)) lx = Inr lx' \<and> same_input lx lx' \<and>
    reading line (p + length (lexeme_text x)) lx' \<and> lexeme_read x lx'"
proof (cases x)
  case (Fixed t)
  consider k where "t = Kw k" | "t \<in> set punct_tokens" "\<nexists>k. t = Kw k" | "t \<in> set other_tokens" "\<nexists>k. t = Kw k"
    using assms(1) Fixed by (cases t) auto
  then show ?thesis
  proof cases
    case 1
    note w = kw_word [of k]
    have k: "find_keyword (keyword_mode lx) (kw_to_str k) = Some k" using assms(1) Fixed 1 by simp
    show ?thesis
      using lex_word_read [OF assms(2), of "kw_to_str k" r nt] lex_from_word [OF assms(2), of "kw_to_str k" r env nt]
        assms(3) w k Fixed 1 by auto
  next
    case 2
    then obtain c rest where t: "token_text t = c # rest" "op_start c" "punct_ok c rest t"
      using punct_tokens_ok by (cases "token_text t") (auto simp: list_all_iff)
    have "drop (p + 1) line = rest @ CHR '' '' # r" using next_text [of p line "[c]"] assms(3) Fixed t(1) by simp
    then have "scans (lex_from env nt c lx) lx line (p + 1 + length rest) t"
      using punctuation_read [OF t(3) assms(2)] lex_from_op [OF t(2), of env nt lx] by simp
    then show ?thesis using Fixed t(1) by (auto simp: scans_def)
  next
    case 3
    then show ?thesis using lex_from_other [OF assms(2), of t r env nt] assms(3) Fixed by (auto simp: scans_def)
  qed
next
  case (Name w)
  then show ?thesis
    using lex_word_read [OF assms(2), of w r nt] lex_from_word [OF assms(2), of w r env nt] assms(1,3) by auto
next
  case (Number ds)
  then have "isdigit (hd ds)" "hd ds \<noteq> CHR ''.''"
    using assms(1) by (cases ds; auto simp: is_number_def isdigit_def char_code_def)+
  then have "lex_from env nt (hd ds) lx = read_number env (hd ds) lx" by (simp add: lex_from_def)
  then show ?thesis using lex_number_read [OF assms(2), of ds r env] assms(1,3) Number by auto
qed

text \<open>The state in which \<^verbatim>\<open>nexttoken\<close> reads its first character.\<close>

definition start_token :: "('f, 's) lexer_scheme \<Rightarrow> ('f, 's) lexer_scheme" where
  "start_token lx =
     (if curtok lx = token_string then lx\<lparr>loc_tok := set_chr (loc_chr (loc_now lx) - 1) (loc_now lx)\<rparr> else lx)"

lemma start_token_simps [simp]:
  "buffereof (start_token lx) = buffereof lx" "ungetch (start_token lx) = ungetch lx"
  "keyword_mode (start_token lx) = keyword_mode lx" "in_lines (start_token lx) = in_lines lx"
  "buffer (start_token lx) = buffer lx" "parse_had_error (start_token lx) = parse_had_error lx"
  "curtok_save (start_token lx) = curtok_save lx" "in_comment (start_token lx) = in_comment lx"
  "same_input lx0 (start_token lx) = same_input lx0 lx" "reading line p (start_token lx) = reading line p lx"
  by (simp_all add: start_token_def)

lemma nexttoken_core:
  assumes "nextchar (start_token lx) = Inr (Some c, l1)" "\<not> buffereof lx" "ungetch lx = None"
    "lexeme_ok (keyword_mode l1) x" "reading line (p + 1) l1" "drop p line = lexeme_text x @ CHR '' '' # r"
    "c = hd (lexeme_text x)"
  shows "\<exists>lx'. nexttoken env lx = Inr lx' \<and> same_input l1 lx' \<and>
    reading line (p + length (lexeme_text x)) lx' \<and> lexeme_read x lx'"
proof -
  define l2 where "l2 = l1\<lparr>loc_tok := set_chr (loc_chr (loc_now l1) - 1) (loc_tok l1)\<rparr>"
  have l2: "reading line (p + 1) l2" "keyword_mode l2 = keyword_mode l1" "same_input l1 l2"
    using assms(5) by (simp_all add: l2_def)
  obtain lx' where lx': "lex_from env (nexttoken_n env (Suc (remaining lx))) c l2 = Inr lx'" "same_input l2 lx'"
    "reading line (p + length (lexeme_text x)) lx'" "lexeme_read x lx'"
    using lex_from_lexeme [of l2 x line p r env] assms(4,6,7) l2 by auto
  have "nexttoken env lx = nexttoken_step env (nexttoken_n env (Suc (remaining lx))) lx"
    by (simp add: nexttoken_def)
  also have "\<dots> = Inr lx'"
    unfolding nexttoken_step_def start_token_def [symmetric] Let_def
    using assms(1-3) lx'(1) by (simp add: l2_def)
  finally show ?thesis using lx' l2(3) same_input_trans by blast
qed

lemma nexttoken_lexeme:
  assumes "lexeme_ok (keyword_mode lx) x" "reading line p lx"
    "drop p line = sp @ lexeme_text x @ CHR '' '' # r" "list_all isspace sp"
  shows "\<exists>lx'. nexttoken env lx = Inr lx' \<and> same_input lx lx' \<and>
    reading line (p + length sp + length (lexeme_text x)) lx' \<and> lexeme_read x lx'"
proof -
  obtain c cs where c: "lexeme_text x = c # cs" "plain c" using lexeme_hd [OF assms(1)] by blast
  let ?l1 = "update_bufferpos (int (length sp + 1)) (start_token lx)"
  have n: "nextchar (start_token lx) = Inr (Some c, ?l1)"
    using nextchar_reading [of line p "start_token lx" sp c] assms(2-4) c by simp
  have "p + (length sp + 1) \<le> length line" using arg_cong [OF assms(3), of length] c(1) by simp
  then have r1: "reading line (p + length sp + 1) ?l1"
    using reading_update [of line p "start_token lx" "length sp + 1"] assms(2) by simp
  have d: "drop (p + length sp) line = lexeme_text x @ CHR '' '' # r" using next_text [OF assms(3)] by simp
  have e: "\<not> buffereof lx" "ungetch lx = None" using assms(2) by (simp_all add: reading_def)
  obtain lx' where "nexttoken env lx = Inr lx'" "same_input ?l1 lx'"
    "reading line (p + length sp + length (lexeme_text x)) lx'" "lexeme_read x lx'"
    using nexttoken_core [OF n e _ r1 d, of env] assms(1) c(1) by auto
  moreover have "same_input lx ?l1" by simp
  ultimately show ?thesis using same_input_trans by blast
qed

section \<open>A whole line\<close>

lemma read_line_end: "in_lines lx = [] \<Longrightarrow> \<not> buffereof lx \<Longrightarrow>
  tokenise_next_line lx = Inr (lx\<lparr>buffereof := True, buffer := None\<rparr>)"
  by (simp add: tokenise_next_line_def tokenise_read_line_def)

lemma rawnextchar_end:
  assumes "reading line (length line) lx" "in_lines lx = []"
  shows "\<exists>lx'. rawnextchar lx = Inr (None, lx') \<and> buffereof lx' \<and> parse_had_error lx' = parse_had_error lx \<and>
    curtok_save lx' = curtok_save lx"
proof -
  have b: "buffer lx = Some (line, length line)" "\<not> buffereof lx" "buf_char lx = Inr NUL"
    using assms(1) buf_char_reading [OF assms(1)] by (simp_all add: reading_def first_char_def)
  show ?thesis using assms(2) by (simp add: rawnextchar_def b read_line_end numeral_2_eq_2)
qed

lemma nextchar_loop_end:
  assumes "reading line p lx" "drop p line = sp" "list_all isspace sp" "in_lines lx = []" "length sp < n"
  shows "\<exists>lx'. nextchar_loop n lx = Inr (None, lx') \<and> parse_had_error lx' = parse_had_error lx \<and>
    curtok_save lx' = curtok_save lx"
  using assms
proof (induction sp arbitrary: p lx n)
  case Nil
  then obtain m where "n = Suc m" by (cases n) auto
  moreover have "p = length line" using Nil.prems(1,2) by (simp add: reading_def)
  ultimately show ?case using rawnextchar_end [of line lx] Nil.prems by (auto simp: char_is_cspace_def)
next
  case (Cons s sp)
  then obtain m where m: "n = Suc m" by (cases n) auto
  have s: "s \<noteq> NUL" "as_int s = Some s" "char_is_cspace (Some s)"
    using Cons.prems(3) isspace_props [of s] by (auto simp: as_int_def char_is_cspace_def)
  have p: "p + 1 \<le> length line" using arg_cong [OF Cons.prems(2), of length] by simp
  have d: "drop (p + 1) line = sp" using next_text [of p line "[s]" sp] Cons.prems(2) by simp
  have "\<exists>lx'. nextchar_loop m (update_bufferpos 1 lx) = Inr (None, lx') \<and>
      parse_had_error lx' = parse_had_error lx \<and> curtok_save lx' = curtok_save lx"
    using Cons.IH [OF reading_update [OF Cons.prems(1) p] d] Cons.prems(3-5) m by (simp add: update_bufferpos_def)
  then show ?case using rawnextchar_reading [OF Cons.prems(1,2)] m s by auto
qed

lemma nexttoken_end:
  assumes "reading line p lx" "drop p line = sp" "list_all isspace sp" "in_lines lx = []"
  shows "\<exists>lx'. nexttoken env lx = Inr lx' \<and> curtok lx' = token_eof \<and> parse_had_error lx' = parse_had_error lx \<and>
    curtok_save lx' = curtok_save lx"
proof -
  have "length sp < Suc (remaining (start_token lx))"
    using assms(1,2) by (auto simp: remaining_def reading_def)
  then obtain l1 where "nextchar (start_token lx) = Inr (None, l1)" "parse_had_error l1 = parse_had_error lx"
    "curtok_save l1 = curtok_save lx"
    unfolding nextchar_def using nextchar_loop_end [of line p "start_token lx" sp] assms
    by (auto simp del: nextchar_loop.simps)
  moreover have "\<not> buffereof lx" "ungetch lx = None" using assms(1) by (simp_all add: reading_def)
  ultimately show ?thesis
    by (simp add: nexttoken_def) (simp add: nexttoken_step_def start_token_def [symmetric] Let_def)
qed


text \<open>
  The tokens that come one after the other, up to the end of the input.  \<^verbatim>\<open>token_accept_identifier\<close>
  takes the spelling of an identifier away before it moves on.
\<close>

fun taken :: "lexeme \<Rightarrow> ('f, 's) lexer_scheme \<Rightarrow> ('f, 's) lexer_scheme" where
  "taken (Name w) lx = lx\<lparr>currentspelling := None\<rparr>"
| "taken _ lx = lx"

lemma taken_simps [simp]:
  "reading line p (taken x lx) = reading line p lx" "same_input lx0 (taken x lx) = same_input lx0 lx"
  "keyword_mode (taken x lx) = keyword_mode lx" "in_lines (taken x lx) = in_lines lx"
  "parse_had_error (taken x lx) = parse_had_error lx" "curtok_save (taken x lx) = curtok_save lx"
  by (cases x; simp add: reading_def same_input_def)+

fun tokens_read :: "'f lex_env \<Rightarrow> lexeme list \<Rightarrow> ('f, 's) lexer_scheme \<Rightarrow> bool" where
  "tokens_read env [] lx \<longleftrightarrow>
     curtok lx = token_eof \<and> \<not> parse_had_error lx \<and> curtok_save lx = token_unknown"
| "tokens_read env (x # xs) lx \<longleftrightarrow>
     lexeme_read x lx \<and> curtok_save lx = token_unknown \<and>
     (case nexttoken env (taken x lx) of Inl _ \<Rightarrow> False | Inr lx' \<Rightarrow> tokens_read env xs lx')"

definition print_line :: "lexeme list \<Rightarrow> string" where
  "print_line xs = concat (map (\<lambda>x. lexeme_text x @ '' '') xs)"

lemma tokens_read_line:
  assumes "list_all (lexeme_ok (keyword_mode lx)) xs" "reading line p lx" "drop p line = CHR '' '' # print_line xs"
    "in_lines lx = []" "\<not> parse_had_error lx" "curtok_save lx = token_unknown"
  shows "case nexttoken env lx of Inl _ \<Rightarrow> False | Inr lx' \<Rightarrow> tokens_read env xs lx'"
  using assms
proof (induction xs arbitrary: p lx)
  case Nil
  have "isspace (CHR '' '')" by (simp add: isspace_def char_code_def)
  then show ?case using nexttoken_end [OF Nil.prems(2,3) _ Nil.prems(4), of env] Nil.prems(5,6) by (auto simp: print_line_def)
next
  case (Cons x xs)
  have sp: "isspace (CHR '' '')" by (simp add: isspace_def char_code_def)
  have d: "drop p line = '' '' @ lexeme_text x @ CHR '' '' # print_line xs"
    using Cons.prems(3) by (simp add: print_line_def)
  obtain lx' where lx': "nexttoken env lx = Inr lx'" "same_input lx lx'"
    "reading line (p + length '' '' + length (lexeme_text x)) lx'" "lexeme_read x lx'"
    using nexttoken_lexeme [OF _ Cons.prems(2) d, of env] Cons.prems(1) sp by auto
  have "drop (p + length '' '' + length (lexeme_text x)) line = CHR '' '' # print_line xs"
    using next_text [of p line "'' '' @ lexeme_text x"] d by (simp add: add.assoc)
  then have "case nexttoken env (taken x lx') of Inl _ \<Rightarrow> False | Inr l \<Rightarrow> tokens_read env xs l"
    using Cons.IH [of "taken x lx'"] lx'(3) Cons.prems(1,4-6) lx'(2) by (simp add: same_input_def)
  then show ?case using lx' Cons.prems(6) by (simp add: same_input_def)
qed

text \<open>The first line is loaded when the first character is asked for.\<close>

lemma first_nextchar:
  assumes "in_lines lx = [line]" "buffer lx = None" "\<not> buffereof lx" "\<not> in_comment lx" "ungetch lx = None"
    "line = c # r" "plain c" "c \<noteq> CHR ''#''"
  shows "\<exists>l1. nextchar lx = Inr (Some c, l1) \<and> reading line 1 l1 \<and> in_lines l1 = [] \<and>
    keyword_mode l1 = keyword_mode lx \<and> parse_had_error l1 = parse_had_error lx \<and>
    curtok_save l1 = curtok_save lx"
proof -
  obtain l0 where l0: "tokenise_next_line lx = Inr l0" "reading line 0 l0" "in_lines l0 = []"
    "keyword_mode l0 = keyword_mode lx" "parse_had_error l0 = parse_had_error lx" "curtok_save l0 = curtok_save lx"
    using assms by (auto simp: tokenise_next_line_def tokenise_read_line_def reading_def Let_def)
  have e: "\<not> buffereof l0" "buffer l0 = Some (line, 0)" "buf_char l0 = Inr c"
    using l0(2) buf_char_reading [OF l0(2)] assms(6) by (simp_all add: reading_def first_char_def)
  have "c \<noteq> NUL" using assms(7) by (simp add: plain_def)
  then have "rawnextchar lx = Inr (Some c, update_bufferpos 1 l0)"
    using assms(1-3) l0(1) e as_int_plain [OF assms(7)]
    by (simp add: rawnextchar_def numeral_3_eq_3)
  moreover have "reading line 1 (update_bufferpos 1 l0)" using reading_update [OF l0(2), of 1] assms(6) by simp
  ultimately show ?thesis
    using l0 cspace_plain [OF assms(7)] by (simp add: nextchar_def update_bufferpos_def)
qed


lemma set_input_start:
  "\<exists>l0. tokenise_set_input env lines nam lx = nexttoken env l0 \<and> in_lines l0 = lines \<and> \<not> buffereof l0 \<and>
     buffer l0 = buffer lx \<and> in_comment l0 = in_comment lx \<and> ungetch l0 = ungetch lx \<and>
     keyword_mode l0 = keyword_mode lx \<and> parse_had_error l0 = parse_had_error lx \<and>
     curtok_save l0 = curtok_save lx"
proof -
  let ?l = "lx\<lparr>in_lines := lines\<rparr>"
  obtain l where l: "(if track_initial_fnam env then push_fname nam 1 False ?l else Inr (set_current_fname nam ?l)) = Inr l"
    "in_lines l = lines" "buffer l = buffer lx" "in_comment l = in_comment lx" "ungetch l = ungetch lx"
    "keyword_mode l = keyword_mode lx" "parse_had_error l = parse_had_error lx" "curtok_save l = curtok_save lx"
    by (cases "track_initial_fnam env"; cases "length (fname_stack lx) < FNAME_STACK_N")
       (simp_all add: push_fname_def update_stack_def set_current_fname_def Let_def)
  show ?thesis unfolding tokenise_set_input_def Let_def l(1) bindE_simps using l(2-8) by fastforce
qed

lemma set_input_tokens_read:
  assumes "list_all (lexeme_ok (keyword_mode lx)) xs" "xs \<noteq> []"
    "buffer lx = None" "ungetch lx = None" "\<not> in_comment lx" "\<not> parse_had_error lx" "curtok_save lx = token_unknown"
  shows "\<exists>lx'. tokenise_set_input env [print_line xs] nam lx = Inr lx' \<and> tokens_read env xs lx'"
proof -
  obtain x ys where xs: "xs = x # ys" using assms(2) by (cases xs) auto
  let ?line = "print_line xs"
  obtain l0 where l0: "tokenise_set_input env [?line] nam lx = nexttoken env l0" "in_lines l0 = [?line]"
    "buffer l0 = None" "\<not> buffereof l0" "\<not> in_comment l0" "ungetch l0 = None"
    "keyword_mode l0 = keyword_mode lx" "\<not> parse_had_error l0"
    "curtok_save l0 = token_unknown"
    using set_input_start [of env "[?line]" nam lx] assms(3-7) by auto
  have ok: "lexeme_ok (keyword_mode lx) x" using assms(1) xs by simp
  obtain c cs where c: "lexeme_text x = c # cs" "plain c" "c \<noteq> CHR ''#''" using lexeme_hd [OF ok] by blast
  have line: "?line = lexeme_text x @ CHR '' '' # print_line ys" by (simp add: xs print_line_def)
  obtain l1 where l1: "nextchar (start_token l0) = Inr (Some c, l1)" "reading ?line 1 l1" "in_lines l1 = []"
    "keyword_mode l1 = keyword_mode lx" "\<not> parse_had_error l1"
    "curtok_save l1 = token_unknown"
    using first_nextchar [of "start_token l0" ?line c] l0(2-9) c line by auto
  have core: "lexeme_ok (keyword_mode l1) x" "reading ?line (0 + 1) l1"
    "drop 0 ?line = lexeme_text x @ CHR '' '' # print_line ys" "c = hd (lexeme_text x)"
    using ok l1(2,4) line c(1) by simp_all
  obtain lx' where lx': "nexttoken env l0 = Inr lx'" "same_input l1 lx'"
    "reading ?line (length (lexeme_text x)) lx'" "lexeme_read x lx'"
    using nexttoken_core [OF l1(1) l0(4,6) core, of env] by (simp only: add_0) blast
  have "drop (length (lexeme_text x)) ?line = CHR '' '' # print_line ys" unfolding line by simp
  then have "case nexttoken env (taken x lx') of Inl _ \<Rightarrow> False | Inr l \<Rightarrow> tokens_read env ys l"
    using tokens_read_line [of "taken x lx'" ys ?line _ env] lx'(3) assms(1) xs lx'(2) l1(3-6) by (simp add: same_input_def)
  then show ?thesis using l0(1) lx'(1,2,4) l1(6) xs by (simp add: same_input_def)
qed


text \<open>\<^verbatim>\<open>int x1 <<= 42 ...\<close>, from the state in which the program starts.\<close>

definition lexer_init :: "'f lexer" where
  "lexer_init =
     \<lparr>in_lines = [], buffer = None, buffereof = False, parse_finished = False, ungetch = None,
      in_comment = False, curtok = token_unknown, curtok_save = token_unknown,
      currentval = \<lparr>num_val = Val_i 0, num_suffix = 0\<rparr>, currentspelling = None, currentstring = None,
      parse_had_error = False, keyword_mode = KW_ALL, fname_stack = [], current_fname = None,
      cc1_first_fname = None, in_sysh = False, loc_now = \<lparr>loc_line = 0, loc_chr = 0\<rparr>,
      loc_tok = \<lparr>loc_line = 0, loc_chr = 0\<rparr>, current_line_str = None, ucc_namespace = None,
      cc1_error_limit = 16\<rparr>"

definition example_lex_env :: "nat lex_env" where
  "example_lex_env =
     \<lparr>le_strtold = (\<lambda>s. (0, length (takeWhile (\<lambda>c. isdigit c \<or> c = CHR ''.'') s))), le_of_i = unat,
      le_scale10 = (\<lambda>f e. f * 10 ^ nat e), track_initial_fnam = True\<rparr>"



section \<open>Where the tokeniser departs from C\<close>

text \<open>A comment that is not closed before the end of the input: the loop never ends.\<close>

lemma skip_comment_at_eof: "buffereof lx \<Longrightarrow> skip_comment n lx = Inl Out_of_fuel"
  by (induction n) (simp_all add: rawnextchar_def)

text \<open>The first token of a line.\<close>

definition first_token :: "string \<Rightarrow> nat lexer outcome" where
  "first_token line = tokenise_set_input example_lex_env [line] ''a.c'' lexer_init"

text \<open>\<^verbatim>\<open>09.5\<close> is a decimal floating constant, but stops the program.\<close>

lemma octal_float_dies: "first_token ''09.5'' = Inl (Died ''invalid oct character'')"
  by code_simp

text \<open>\<^verbatim>\<open>07.5\<close> is one as well, and is an error.\<close>

lemma octal_float_error: "case first_token ''07.5'' of Inl _ \<Rightarrow> False | Inr lx \<Rightarrow> parse_had_error lx"
  by code_simp

text \<open>With an upper-case \<^verbatim>\<open>X\<close>, a hexadecimal floating constant fails an assertion.\<close>

lemma upper_hex_float_asserts: "\<exists>s. first_token ''0X1.8p0'' = Inl (Assert_failed s)"
proof -
  have "first_token ''0X1.8p0'' = Inl (Assert_failed ''!strncmp(num_start, 0x, 2)'')" by code_simp
  then show ?thesis by blast
qed

text \<open>A string without a closing quote at the end of its line: the position moves behind the terminator.\<close>

lemma open_quote_overread: "first_token [CHR 0x22] = Inl Out_of_bounds"
  by code_simp

text \<open>The byte 255 is taken for the end of the file.\<close>

lemma byte_255_is_eof:
  "case first_token [CHR 0xFF, CHR ''a''] of Inl _ \<Rightarrow> False | Inr lx \<Rightarrow> curtok lx = token_eof \<and> \<not> buffereof lx"
  by code_simp

text \<open>\<^verbatim>\<open>a..b\<close> is read as \<^verbatim>\<open>a.b\<close>: the second dot is lost.\<close>

lemma two_dots_are_one:
  "case first_token ''..b'' of Inl _ \<Rightarrow> False | Inr lx \<Rightarrow> curtok lx = token_dot \<and> buf_rest lx = Inr ''b''"
  by code_simp

text \<open>\<^verbatim>\<open>/*/\<close> is taken for a whole comment.\<close>

lemma slash_star_slash_closes:
  "case first_token ''/*/ b */'' of Inl _ \<Rightarrow> False | Inr lx \<Rightarrow> currentspelling lx = Some ''b''"
  by code_simp

end
