(* ===== verification/Ucc_Parse_Expr.thy ===== *)
theory Ucc_Parse_Expr
  imports Ucc_Lexer
begin

text \<open>
  The parser of expressions, \<^verbatim>\<open>src/cc1/parse_expr.c\<close>, on the state of the tokeniser.

  An expression is the tree that the \<^verbatim>\<open>expr_new_*\<close> functions build, without positions and before it
  is folded; \<^verbatim>\<open>e->in_parens\<close> is a node of its own.  What the other parsers of the program return is
  a type parameter of the tree, and the parsers themselves are arguments: \<^verbatim>\<open>parse_type\<close>,
  \<^verbatim>\<open>parse_init\<close>, \<^verbatim>\<open>parse_stmt_block\<close>, \<^verbatim>\<open>builtin_parse\<close> and, for the blocks of the language extension,
  \<^verbatim>\<open>parse_block\<close>.  Recursive calls go through a record of parsers with one less unit of fuel.
\<close>

section \<open>Expressions\<close>

datatype what_of = what_sizeof | what_typeof | what_alignof

datatype ('f, 'x) pexpr =
    E_numeric "'f numeric"
  | E_str "cstring option"
  | E_identifier string
  | E_parens "('f, 'x) pexpr"
  | E_op op_type "('f, 'x) pexpr" "('f, 'x) pexpr option"
  | E_array_sum "('f, 'x) pexpr" "('f, 'x) pexpr"
  | E_deref "('f, 'x) pexpr"
  | E_addr "('f, 'x) pexpr"
  | E_addr_lbl "string option" bool
  | E_assign "('f, 'x) pexpr" "('f, 'x) pexpr"
  | E_assign_compound "('f, 'x) pexpr" "('f, 'x) pexpr" op_type bool
  | E_if "('f, 'x) pexpr" "('f, 'x) pexpr option" "('f, 'x) pexpr"
  | E_comma "('f, 'x) pexpr" "('f, 'x) pexpr"
  | E_funcall "('f, 'x) pexpr" "('f, 'x) pexpr list"
  | E_builtin 'x "('f, 'x) pexpr"
  | E_struct "('f, 'x) pexpr" bool "('f, 'x) pexpr"
  | E_sizeof_expr "('f, 'x) pexpr" what_of
  | E_sizeof_type ctype what_of
  | E_cast "('f, 'x) pexpr" ctype
  | E_compound_lit ctype 'x bool
  | E_stmt 'x
  | E_Generic "('f, 'x) pexpr" "(ctype option \<times> ('f, 'x) pexpr) list"
  | E_block 'x

definition expr_new_val :: "u64 \<Rightarrow> ('f, 'x) pexpr" where
  "expr_new_val v = E_numeric \<lparr>num_val = Val_i v, num_suffix = 0\<rparr>"

text \<open>\<^verbatim>\<open>e->in_parens = 1\<close>, and what is below the flag.\<close>

fun set_in_parens :: "('f, 'x) pexpr \<Rightarrow> ('f, 'x) pexpr" where
  "set_in_parens (E_parens e) = E_parens e"
| "set_in_parens e = E_parens e"

fun unparen :: "('f, 'x) pexpr \<Rightarrow> ('f, 'x) pexpr" where
  "unparen (E_parens e) = e"
| "unparen e = e"

record ('f, 's, 'x) parse_ctx =
  pc_env :: "'f lex_env"
  pc_parse_type :: "('f, 's) lexer_scheme \<Rightarrow> (ctype option \<times> ('f, 's) lexer_scheme) outcome"
  pc_parse_init :: "bool \<Rightarrow> ('f, 's) lexer_scheme \<Rightarrow> ('x \<times> ('f, 's) lexer_scheme) outcome"
  pc_parse_stmt_block :: "('f, 's) lexer_scheme \<Rightarrow> ('x \<times> ('f, 's) lexer_scheme) outcome"
  pc_parse_block :: "('f, 's) lexer_scheme \<Rightarrow> ('x \<times> ('f, 's) lexer_scheme) outcome"
  pc_builtin_parse :: "string \<Rightarrow> ('f, 's) lexer_scheme \<Rightarrow> ('x option \<times> ('f, 's) lexer_scheme) outcome"

type_synonym ('f, 's, 'x) eparser = "('f, 's) lexer_scheme \<Rightarrow> (('f, 'x) pexpr \<times> ('f, 's) lexer_scheme) outcome"

record ('f, 's, 'x) rec_parsers =
  rp_exp :: "bool \<Rightarrow> ('f, 's, 'x) eparser"
  rp_assignment :: "bool \<Rightarrow> ('f, 's, 'x) eparser"
  rp_conditional :: "bool \<Rightarrow> ('f, 's, 'x) eparser"
  rp_unary :: "bool \<Rightarrow> ('f, 's, 'x) eparser"

text \<open>\<^verbatim>\<open>EAT(t)\<close>, and \<^verbatim>\<open>accept\<close>.\<close>

definition EAT :: "('f, 's, 'x) parse_ctx \<Rightarrow> ctoken \<Rightarrow> ('f, 's) lexer_scheme \<Rightarrow> ('f, 's) lexer_scheme outcome" where
  "EAT C t lx = bindE (eat (nexttoken (pc_env C)) t lx) (\<lambda>(_, lx). Inr lx)"

abbreviation acc :: "('f, 's, 'x) parse_ctx \<Rightarrow> ctoken \<Rightarrow> ('f, 's) lexer_scheme \<Rightarrow> (bool \<times> ('f, 's) lexer_scheme) outcome" where
  "acc C \<equiv> accept (pc_env C)"

section \<open>Primary and postfix expressions\<close>

definition parse_expr_identifier :: "('f, 's, 'x) parse_ctx \<Rightarrow> ('f, 's, 'x) eparser" where
  "parse_expr_identifier C lx =
     (if curtok lx = token_identifier then
        bindE (token_accept_identifier (pc_env C) lx) (\<lambda>(sp, lx).
          case sp of None \<Rightarrow> Inl Null_deref | Some sp \<Rightarrow> Inr (E_identifier sp, lx))
      else Inr (E_identifier ''?'', lx\<lparr>parse_had_error := True\<rparr>))"

primrec generic_labels ::
  "('f, 's, 'x) parse_ctx \<Rightarrow> ('f, 's, 'x) rec_parsers \<Rightarrow> nat \<Rightarrow> bool \<Rightarrow> (ctype option \<times> ('f, 'x) pexpr) list \<Rightarrow> ('f, 's) lexer_scheme \<Rightarrow>
   ((ctype option \<times> ('f, 'x) pexpr) list \<times> ('f, 's) lexer_scheme) outcome" where
  "generic_labels C rc 0 sc lbls lx = Inl Out_of_fuel"
| "generic_labels C rc (Suc n) sc lbls lx =
     bindE (EAT C token_comma lx) (\<lambda>lx.
     bindE (acc C (Kw token_default) lx) (\<lambda>(dflt, lx).
     bindE (if dflt then Inr (None, lx)
            else bindE (pc_parse_type C lx) (\<lambda>(r, lx).
              if r = None then Inl (Died ''type expected for _Generic'') else Inr (r, lx))) (\<lambda>(r, lx).
     bindE (EAT C token_colon lx) (\<lambda>lx.
     bindE (rp_assignment rc sc lx) (\<lambda>(e, lx).
     bindE (acc C token_close_paren lx) (\<lambda>(fin, lx).
       if fin then Inr (lbls @ [(r, e)], lx) else generic_labels C rc n sc (lbls @ [(r, e)]) lx))))))"

definition parse_expr__Generic ::
  "('f, 's, 'x) parse_ctx \<Rightarrow> ('f, 's, 'x) rec_parsers \<Rightarrow> nat \<Rightarrow> bool \<Rightarrow> ('f, 's, 'x) eparser" where
  "parse_expr__Generic C rc n sc lx =
     bindE (EAT C (Kw token__Generic) lx) (\<lambda>lx.
     bindE (EAT C token_open_paren lx) (\<lambda>lx.
     bindE (rp_assignment rc sc lx) (\<lambda>(test, lx).
     bindE (generic_labels C rc n sc [] lx) (\<lambda>(lbls, lx). Inr (E_Generic test lbls, lx)))))"

definition parse_expr_primary ::
  "('f, 's, 'x) parse_ctx \<Rightarrow> ('f, 's, 'x) rec_parsers \<Rightarrow> nat \<Rightarrow> bool \<Rightarrow> ('f, 's, 'x) eparser" where
  "parse_expr_primary C rc n sc lx =
     (if curtok lx \<in> {token_integer, token_character, token_floater} then
        bindE (EAT C (curtok lx) lx) (\<lambda>lx'. Inr (E_numeric (currentval lx), lx'))
      else if curtok lx = token_string then
        (case token_get_current_str lx of (str, lx) \<Rightarrow>
           bindE (EAT C token_string lx) (\<lambda>lx. Inr (E_str str, lx)))
      else if curtok lx = Kw token__Generic then parse_expr__Generic C rc n sc lx
      else if curtok lx = Op token_xor then
        bindE (EAT C (Op token_xor) lx) (\<lambda>lx. bindE (pc_parse_block C lx) (\<lambda>(b, lx). Inr (E_block b, lx)))
      else
        bindE (acc C token_open_paren lx) (\<lambda>(paren, lx).
        if paren then
          bindE (pc_parse_type C lx) (\<lambda>(r, lx).
            case r of
              Some r \<Rightarrow>
                bindE (EAT C token_close_paren lx) (\<lambda>lx.
                  if curtok lx = token_open_block then
                    bindE (pc_parse_init C sc lx) (\<lambda>(i, lx). Inr (E_compound_lit r i (sc), lx))
                  else bindE (rp_unary rc sc lx) (\<lambda>(e, lx). Inr (E_cast e r, lx)))
            | None \<Rightarrow>
              bindE (if curtok lx = token_open_block
                     then bindE (pc_parse_stmt_block C lx) (\<lambda>(s, lx). Inr (E_stmt s, lx))
                     else bindE (rp_exp rc sc lx) (\<lambda>(e, lx). Inr (set_in_parens e, lx))) (\<lambda>(e, lx).
              bindE (EAT C token_close_paren lx) (\<lambda>lx. Inr (e, lx))))
        else
          bindE (acc C (Kw token_asm) lx) (\<lambda>(is_asm, lx).
            if is_asm then Inr (E_identifier ''__asm__'', lx)
            else if curtok lx \<noteq> token_identifier then Inl (Died ''expression expected'')
            else parse_expr_identifier C lx)))"

text \<open>The arguments of a call; \<open>n\<close> bounds their number.\<close>

primrec funcargs_loop ::
  "('f, 's, 'x) parse_ctx \<Rightarrow> ('f, 's, 'x) rec_parsers \<Rightarrow> nat \<Rightarrow> bool \<Rightarrow> ('f, 'x) pexpr list \<Rightarrow> ('f, 's) lexer_scheme \<Rightarrow>
   (('f, 'x) pexpr list \<times> ('f, 's) lexer_scheme) outcome" where
  "funcargs_loop C rc 0 sc args lx = Inl Out_of_fuel"
| "funcargs_loop C rc (Suc n) sc args lx =
     bindE (rp_assignment rc sc lx) (\<lambda>(arg, lx).
     bindE (acc C token_comma lx) (\<lambda>(more, lx).
       if more then funcargs_loop C rc n sc (args @ [arg]) lx else Inr (args @ [arg], lx)))"

definition parse_funcargs ::
  "('f, 's, 'x) parse_ctx \<Rightarrow> ('f, 's, 'x) rec_parsers \<Rightarrow> nat \<Rightarrow> bool \<Rightarrow> ('f, 's) lexer_scheme \<Rightarrow> (('f, 'x) pexpr list \<times> ('f, 's) lexer_scheme) outcome"
where
  "parse_funcargs C rc n sc lx =
     (if curtok lx = token_close_paren then Inr ([], lx) else funcargs_loop C rc n sc [] lx)"

text \<open>
  One round of the loop of \<^verbatim>\<open>parse_expr_postfix_with\<close>: the larger expression, or \<open>None\<close> when the
  current token does not continue it.
\<close>

definition postfix_step ::
  "('f, 's, 'x) parse_ctx \<Rightarrow> ('f, 's, 'x) rec_parsers \<Rightarrow> nat \<Rightarrow> bool \<Rightarrow> ('f, 'x) pexpr \<Rightarrow> ('f, 's) lexer_scheme \<Rightarrow>
   (('f, 'x) pexpr option \<times> ('f, 's) lexer_scheme) outcome" where
  "postfix_step C rc n sc e lx =
     bindE (acc C token_open_square lx) (\<lambda>(sq, lx).
     if sq then
       bindE (rp_exp rc sc lx) (\<lambda>(i, lx).
       bindE (EAT C token_close_square lx) (\<lambda>lx. Inr (Some (E_deref (E_array_sum e i)), lx)))
     else
       bindE (acc C token_open_paren lx) (\<lambda>(par, lx).
       if par then
         bindE (case unparen e of E_identifier sp \<Rightarrow> pc_builtin_parse C sp lx | _ \<Rightarrow> Inr (None, lx)) (\<lambda>(b, lx).
         bindE (case b of
                  Some b \<Rightarrow> Inr (E_builtin b e, lx)
                | None \<Rightarrow> bindE (parse_funcargs C rc n sc lx) (\<lambda>(args, lx). Inr (E_funcall e args, lx))) (\<lambda>(call, lx).
         bindE (EAT C token_close_paren lx) (\<lambda>lx. Inr (Some call, lx))))
       else
         bindE (acc C token_dot lx) (\<lambda>(dot, lx).
         bindE (if dot then Inr (False, lx) else acc C token_ptr lx) (\<lambda>(ptr, lx).
         if dot \<or> ptr then
           bindE (parse_expr_identifier C lx) (\<lambda>(m, lx). Inr (Some (E_struct e dot m), lx))
         else
           bindE (acc C token_increment lx) (\<lambda>(inc, lx).
           bindE (if inc then Inr (False, lx) else acc C token_decrement lx) (\<lambda>(dec, lx).
             if inc \<or> dec then
               Inr (Some (E_assign_compound e (expr_new_val 1) (if inc then op_plus else op_minus) True), lx)
             else Inr (None, lx)))))))"

primrec parse_expr_postfix_with ::
  "('f, 's, 'x) parse_ctx \<Rightarrow> ('f, 's, 'x) rec_parsers \<Rightarrow> nat \<Rightarrow> bool \<Rightarrow> nat \<Rightarrow> ('f, 'x) pexpr \<Rightarrow> ('f, 's, 'x) eparser" where
  "parse_expr_postfix_with C rc n sc 0 e lx = Inl Out_of_fuel"
| "parse_expr_postfix_with C rc n sc (Suc m) e lx =
     bindE (postfix_step C rc n sc e lx) (\<lambda>(e', lx).
       case e' of None \<Rightarrow> Inr (e, lx) | Some e' \<Rightarrow> parse_expr_postfix_with C rc n sc m e' lx)"

definition parse_expr_postfix ::
  "('f, 's, 'x) parse_ctx \<Rightarrow> ('f, 's, 'x) rec_parsers \<Rightarrow> nat \<Rightarrow> bool \<Rightarrow> ('f, 's, 'x) eparser" where
  "parse_expr_postfix C rc n sc lx =
     bindE (parse_expr_primary C rc n sc lx) (\<lambda>(e, lx). parse_expr_postfix_with C rc n sc n e lx)"

section \<open>Unary expressions\<close>

definition what_token :: "ctoken \<Rightarrow> what_of option" where
  "what_token t =
     (if t = Kw token__Alignof \<or> t = Kw token___alignof then Some what_alignof
      else if t = Kw token_typeof then Some what_typeof
      else if t = Kw token_sizeof then Some what_sizeof
      else None)"

definition parse_expr_sizeof_typeof_alignof ::
  "('f, 's, 'x) parse_ctx \<Rightarrow> ('f, 's, 'x) rec_parsers \<Rightarrow> nat \<Rightarrow> ('f, 's, 'x) eparser" where
  "parse_expr_sizeof_typeof_alignof C rc n lx =
     (case what_token (curtok lx) of
        None \<Rightarrow> Inl (Assert_failed ''unreachable sizeof parse'')
      | Some what \<Rightarrow>
        bindE (EAT C (curtok lx) lx) (\<lambda>lx.
        bindE (acc C token_open_paren lx) (\<lambda>(paren, lx).
        if paren then
          bindE (pc_parse_type C lx) (\<lambda>(ty, lx).
            case ty of
              Some ty \<Rightarrow>
                bindE (EAT C token_close_paren lx) (\<lambda>lx.
                  if curtok lx = token_open_block then
                    bindE (pc_parse_init C False lx) (\<lambda>(i, lx).
                    bindE (parse_expr_postfix_with C rc n False n (E_compound_lit ty i False) lx) (\<lambda>(e, lx).
                      Inr (E_sizeof_expr e what, lx)))
                  else Inr (E_sizeof_type ty what, lx))
            | None \<Rightarrow>
              if what = what_typeof then
                bindE (rp_exp rc False lx) (\<lambda>(e, lx).
                bindE (EAT C token_close_paren lx) (\<lambda>lx. Inr (E_sizeof_expr e what, lx)))
              else
                bindE (uneat token_open_paren lx) (\<lambda>lx.
                bindE (rp_unary rc False lx) (\<lambda>(e, lx). Inr (E_sizeof_expr e what, lx))))
        else if what = what_typeof then Inl (Died ''open paren expected after typeof'')
        else bindE (rp_unary rc False lx) (\<lambda>(e, lx). Inr (E_sizeof_expr e what, lx)))))"

definition parse_expr_unary ::
  "('f, 's, 'x) parse_ctx \<Rightarrow> ('f, 's, 'x) rec_parsers \<Rightarrow> nat \<Rightarrow> bool \<Rightarrow> ('f, 's, 'x) eparser" where
  "parse_expr_unary C rc n sc lx =
     bindE (acc C token_increment lx) (\<lambda>(inc, lx).
     bindE (if inc then Inr (False, lx) else acc C token_decrement lx) (\<lambda>(dec, lx).
     if inc \<or> dec then
       bindE (rp_unary rc sc lx) (\<lambda>(e, lx).
         Inr (E_assign_compound e (expr_new_val 1) (if inc then op_plus else op_minus) False, lx))
     else if curtok lx = token_andsc then
       bindE (EAT C token_andsc lx) (\<lambda>lx.
       bindE (token_eat_identifier (pc_env C) (Some ''?'') lx) (\<lambda>(s, lx). Inr (E_addr_lbl s (sc), lx)))
     else if curtok lx = Op token_and then
       bindE (EAT C (Op token_and) lx) (\<lambda>lx. bindE (rp_unary rc sc lx) (\<lambda>(e, lx). Inr (E_addr e, lx)))
     else if curtok lx = Op token_multiply then
       bindE (EAT C (Op token_multiply) lx) (\<lambda>lx. bindE (rp_unary rc sc lx) (\<lambda>(e, lx). Inr (E_deref e, lx)))
     else if curtok lx \<in> {Op token_plus, Op token_minus, Op token_bnot, Op token_not} then
       bindE (EAT C (curtok lx) lx) (\<lambda>lx'.
       bindE (rp_unary rc sc lx') (\<lambda>(e, lx''). Inr (E_op (curtok_to_op (curtok lx)) e None, lx'')))
     else if curtok lx \<in> {Kw token_sizeof, Kw token__Alignof, Kw token___alignof} then
       parse_expr_sizeof_typeof_alignof C rc n lx
     else if curtok lx = Kw token___extension then
       bindE (EAT C (Kw token___extension) lx) (rp_unary rc sc)
     else parse_expr_postfix C rc n sc lx))"

section \<open>Binary operators\<close>

text \<open>The loop of \<^verbatim>\<open>parse_expr_generic\<close>; \<open>m\<close> bounds the number of operators.\<close>

primrec generic_loop ::
  "('f, 's, 'x) parse_ctx \<Rightarrow> ('f, 's, 'x) eparser \<Rightarrow> ctoken list \<Rightarrow> nat \<Rightarrow> ('f, 'x) pexpr \<Rightarrow> ('f, 's, 'x) eparser" where
  "generic_loop C higher ts 0 e lx = Inl Out_of_fuel"
| "generic_loop C higher ts (Suc m) e lx =
     (if curtok_in_list ts lx then
        bindE (EAT C (curtok lx) lx) (\<lambda>lx'.
        bindE (higher lx') (\<lambda>(rhs, lx'').
          generic_loop C higher ts m (E_op (curtok_to_op (curtok lx)) e (Some rhs)) lx''))
      else Inr (e, lx))"

definition parse_expr_generic ::
  "('f, 's, 'x) parse_ctx \<Rightarrow> nat \<Rightarrow> ('f, 's, 'x) eparser \<Rightarrow> ctoken list \<Rightarrow> ('f, 's, 'x) eparser" where
  "parse_expr_generic C m higher ts lx = bindE (higher lx) (\<lambda>(e, lx). generic_loop C higher ts m e lx)"

text \<open>The levels that \<^verbatim>\<open>PARSE_DEFINE\<close> declares, from the multiplicative operators up to \<^verbatim>\<open>||\<close>.\<close>

definition binary_levels :: "ctoken list list" where
  "binary_levels =
     [[Op token_multiply, Op token_divide, Op token_modulus],
      [Op token_plus, Op token_minus],
      [Op token_shiftl, Op token_shiftr],
      [token_lt, token_gt, token_le, token_ge],
      [token_eq, token_ne],
      [Op token_and],
      [Op token_xor],
      [Op token_or],
      [token_andsc],
      [token_orsc]]"

text \<open>\<open>parse_binary 1\<close> is \<^verbatim>\<open>parse_expr_multi\<close>, \<open>parse_binary 10\<close> is \<^verbatim>\<open>parse_expr_logical_or\<close>.\<close>

primrec parse_binary ::
  "('f, 's, 'x) parse_ctx \<Rightarrow> ('f, 's, 'x) rec_parsers \<Rightarrow> nat \<Rightarrow> bool \<Rightarrow> nat \<Rightarrow> ('f, 's, 'x) eparser" where
  "parse_binary C rc n sc 0 = parse_expr_unary C rc n sc"
| "parse_binary C rc n sc (Suc k) = parse_expr_generic C n (parse_binary C rc n sc k) (binary_levels ! k)"

definition parse_expr_logical_or ::
  "('f, 's, 'x) parse_ctx \<Rightarrow> ('f, 's, 'x) rec_parsers \<Rightarrow> nat \<Rightarrow> bool \<Rightarrow> ('f, 's, 'x) eparser" where
  "parse_expr_logical_or C rc n sc = parse_binary C rc n sc 10"

section \<open>Conditionals, assignments and commas\<close>

definition parse_expr_conditional ::
  "('f, 's, 'x) parse_ctx \<Rightarrow> ('f, 's, 'x) rec_parsers \<Rightarrow> nat \<Rightarrow> bool \<Rightarrow> ('f, 's, 'x) eparser" where
  "parse_expr_conditional C rc n sc lx =
     bindE (parse_expr_logical_or C rc n sc lx) (\<lambda>(e, lx).
     bindE (acc C token_question lx) (\<lambda>(q, lx).
     if \<not> q then Inr (e, lx)
     else
       bindE (acc C token_colon lx) (\<lambda>(colon, lx).
       bindE (if colon then Inr (None, lx)
              else
                bindE (rp_exp rc sc lx) (\<lambda>(l, lx).
                bindE (EAT C token_colon lx) (\<lambda>lx. Inr (Some l, lx)))) (\<lambda>(l, lx).
       bindE (rp_conditional rc sc lx) (\<lambda>(r, lx). Inr (E_if e l r, lx))))))"

definition parse_expr_assignment ::
  "('f, 's, 'x) parse_ctx \<Rightarrow> ('f, 's, 'x) rec_parsers \<Rightarrow> nat \<Rightarrow> bool \<Rightarrow> ('f, 's, 'x) eparser" where
  "parse_expr_assignment C rc n sc lx =
     bindE (parse_expr_conditional C rc n sc lx) (\<lambda>(e, lx).
     bindE (acc C token_assign lx) (\<lambda>(assign, lx).
     if assign then bindE (rp_assignment rc sc lx) (\<lambda>(r, lx). Inr (E_assign e r, lx))
     else if curtok_is_compound_assignment (curtok lx) then
       bindE (EAT C (curtok lx) lx) (\<lambda>lx'.
       bindE (rp_assignment rc sc lx') (\<lambda>(r, lx'').
         Inr (E_assign_compound e r (curtok_to_compound_op (curtok lx)) False, lx'')))
     else Inr (e, lx)))"

definition parse_expr_exp ::
  "('f, 's, 'x) parse_ctx \<Rightarrow> ('f, 's, 'x) rec_parsers \<Rightarrow> nat \<Rightarrow> bool \<Rightarrow> ('f, 's, 'x) eparser" where
  "parse_expr_exp C rc n sc lx =
     bindE (parse_expr_assignment C rc n sc lx) (\<lambda>(e, lx).
     bindE (acc C token_comma lx) (\<lambda>(comma, lx).
       if comma then bindE (rp_exp rc sc lx) (\<lambda>(r, lx). Inr (E_comma e r, lx)) else Inr (e, lx)))"

text \<open>The parsers with a given depth of recursion.\<close>

primrec parsers :: "('f, 's, 'x) parse_ctx \<Rightarrow> nat \<Rightarrow> ('f, 's, 'x) rec_parsers" where
  "parsers C 0 =
     \<lparr>rp_exp = (\<lambda>_ _. Inl Out_of_fuel), rp_assignment = (\<lambda>_ _. Inl Out_of_fuel),
      rp_conditional = (\<lambda>_ _. Inl Out_of_fuel), rp_unary = (\<lambda>_ _. Inl Out_of_fuel)\<rparr>"
| "parsers C (Suc n) =
     \<lparr>rp_exp = parse_expr_exp C (parsers C n) n, rp_assignment = parse_expr_assignment C (parsers C n) n,
      rp_conditional = parse_expr_conditional C (parsers C n) n, rp_unary = parse_expr_unary C (parsers C n) n\<rparr>"

section \<open>String literals for attributes and asm\<close>

definition parse_asciz_str :: "('f, 's) lexer_scheme \<Rightarrow> cstring option \<times> ('f, 's) lexer_scheme" where
  "parse_asciz_str lx =
     (case token_get_current_str lx of (cstr, lx) \<Rightarrow>
        (case cstr of
           None \<Rightarrow> (None, lx\<lparr>parse_had_error := True\<rparr>)
         | Some c \<Rightarrow>
           if cs_type c = CSTRING_WIDE then (None, lx\<lparr>parse_had_error := True\<rparr>) else (Some c, lx)))"

end
