(* ===== verification/Ucc_Parse_Gram.thy ===== *)
theory Ucc_Parse_Gram
  imports Ucc_Parse_Expr Ucc_Lexer_Scan
begin

text \<open>
  The grammar of C expressions, and that the parser of \<^verbatim>\<open>parse_expr.c\<close> follows it: the text of an
  expression, read by the tokeniser, is parsed to the tree that the grammar gives it, with its
  precedence and associativity, and the parser stops in front of what follows.
\<close>

section \<open>The grammar\<close>

text \<open>
  \<open>N_bin 0\<close> are the cast expressions, \<open>N_bin 1\<close> the multiplicative ones, and so on up to \<open>N_bin 10\<close>,
  which are those with \<^verbatim>\<open>||\<close>.
\<close>

datatype nonterm = N_exp | N_assign | N_cond | N_bin nat | N_unary | N_postfix | N_primary

text \<open>The text of types, the names that are types, and the names with a parser of their own.\<close>

record gram_names =
  gn_types :: "ctype \<Rightarrow> lexeme list \<Rightarrow> bool"
  gn_typedefs :: "string set"
  gn_builtins :: "string set"

definition number_value :: "string \<Rightarrow> 'f numeric" where
  "number_value ds = \<lparr>num_val = Val_i (of_nat (digits_value 10 0 ds)), num_suffix = 0\<rparr>"

definition callable :: "gram_names \<Rightarrow> ('f, 'x) pexpr \<Rightarrow> bool" where
  "callable G e \<longleftrightarrow> (case unparen e of E_identifier sp \<Rightarrow> sp \<notin> gn_builtins G | _ \<Rightarrow> True)"

inductive gram :: "gram_names \<Rightarrow> nonterm \<Rightarrow> ('f, 'x) pexpr \<Rightarrow> lexeme list \<Rightarrow> bool"
  and gram_args :: "gram_names \<Rightarrow> ('f, 'x) pexpr list \<Rightarrow> lexeme list \<Rightarrow> bool"
  for G :: gram_names
where
  g_number: "gram G N_primary (E_numeric (number_value ds)) [Number ds]"
| g_name: "w \<notin> gn_typedefs G \<Longrightarrow> gram G N_primary (E_identifier w) [Name w]"
| g_parens: "gram G N_exp e s \<Longrightarrow>
    gram G N_primary (set_in_parens e) (Fixed token_open_paren # s @ [Fixed token_close_paren])"
| g_primary: "gram G N_primary e s \<Longrightarrow> gram G N_postfix e s"
| g_index: "gram G N_postfix e s \<Longrightarrow> gram G N_exp i u \<Longrightarrow>
    gram G N_postfix (E_deref (E_array_sum e i)) (s @ Fixed token_open_square # u @ [Fixed token_close_square])"
| g_call0: "gram G N_postfix e s \<Longrightarrow> callable G e \<Longrightarrow>
    gram G N_postfix (E_funcall e []) (s @ [Fixed token_open_paren, Fixed token_close_paren])"
| g_call: "gram G N_postfix e s \<Longrightarrow> callable G e \<Longrightarrow> gram_args G as u \<Longrightarrow>
    gram G N_postfix (E_funcall e as) (s @ Fixed token_open_paren # u @ [Fixed token_close_paren])"
| g_member: "gram G N_postfix e s \<Longrightarrow> t = token_dot \<or> t = token_ptr \<Longrightarrow>
    gram G N_postfix (E_struct e (t = token_dot) (E_identifier w)) (s @ [Fixed t, Name w])"
| g_post: "gram G N_postfix e s \<Longrightarrow> t = token_increment \<or> t = token_decrement \<Longrightarrow>
    gram G N_postfix (E_assign_compound e (expr_new_val 1) (if t = token_increment then op_plus else op_minus) True)
      (s @ [Fixed t])"
| g_arg: "gram G N_assign a s \<Longrightarrow> gram_args G [a] s"
| g_args: "gram G N_assign a s \<Longrightarrow> gram_args G as u \<Longrightarrow> gram_args G (a # as) (s @ Fixed token_comma # u)"
| g_postfix: "gram G N_postfix e s \<Longrightarrow> gram G N_unary e s"
| g_pre: "gram G N_unary e s \<Longrightarrow> t = token_increment \<or> t = token_decrement \<Longrightarrow>
    gram G N_unary (E_assign_compound e (expr_new_val 1) (if t = token_increment then op_plus else op_minus) False)
      (Fixed t # s)"
| g_addr: "gram G (N_bin 0) e s \<Longrightarrow> gram G N_unary (E_addr e) (Fixed (Op token_and) # s)"
| g_deref: "gram G (N_bin 0) e s \<Longrightarrow> gram G N_unary (E_deref e) (Fixed (Op token_multiply) # s)"
| g_op: "gram G (N_bin 0) e s \<Longrightarrow> t \<in> {Op token_plus, Op token_minus, Op token_bnot, Op token_not} \<Longrightarrow>
    gram G N_unary (E_op (curtok_to_op t) e None) (Fixed t # s)"
| g_sizeof_expr: "gram G N_unary e s \<Longrightarrow> what_token t = Some what \<Longrightarrow> what \<noteq> what_typeof \<Longrightarrow>
    gram G N_unary (E_sizeof_expr e what) (Fixed t # s)"
| g_sizeof_type: "gn_types G T s \<Longrightarrow> what_token t = Some what \<Longrightarrow> what \<noteq> what_typeof \<Longrightarrow>
    gram G N_unary (E_sizeof_type T what) (Fixed t # Fixed token_open_paren # s @ [Fixed token_close_paren])"
| g_unary: "gram G N_unary e s \<Longrightarrow> gram G (N_bin 0) e s"
| g_cast: "gn_types G T s \<Longrightarrow> gram G (N_bin 0) e u \<Longrightarrow>
    gram G (N_bin 0) (E_cast e T) (Fixed token_open_paren # s @ Fixed token_close_paren # u)"
| g_lift: "gram G (N_bin k) e s \<Longrightarrow> k < 10 \<Longrightarrow> gram G (N_bin (Suc k)) e s"
| g_binary: "gram G (N_bin (Suc k)) a s \<Longrightarrow> k < 10 \<Longrightarrow> t \<in> set (binary_levels ! k) \<Longrightarrow> gram G (N_bin k) b u \<Longrightarrow>
    gram G (N_bin (Suc k)) (E_op (curtok_to_op t) a (Some b)) (s @ Fixed t # u)"
| g_or: "gram G (N_bin 10) e s \<Longrightarrow> gram G N_cond e s"
| g_if: "gram G (N_bin 10) c s \<Longrightarrow> gram G N_exp a u \<Longrightarrow> gram G N_cond b w \<Longrightarrow>
    gram G N_cond (E_if c (Some a) b) (s @ Fixed token_question # u @ Fixed token_colon # w)"
| g_elvis: "gram G (N_bin 10) c s \<Longrightarrow> gram G N_cond b w \<Longrightarrow>
    gram G N_cond (E_if c None b) (s @ Fixed token_question # Fixed token_colon # w)"
| g_cond: "gram G N_cond e s \<Longrightarrow> gram G N_assign e s"
| g_assign: "gram G N_cond a s \<Longrightarrow> gram G N_assign b u \<Longrightarrow>
    gram G N_assign (E_assign a b) (s @ Fixed token_assign # u)"
| g_compound: "gram G N_cond a s \<Longrightarrow> curtok_is_compound_assignment t \<Longrightarrow> gram G N_assign b u \<Longrightarrow>
    gram G N_assign (E_assign_compound a b (curtok_to_compound_op t) False) (s @ Fixed t # u)"
| g_exp: "gram G N_assign e s \<Longrightarrow> gram G N_exp e s"
| g_comma: "gram G N_assign a s \<Longrightarrow> gram G N_exp b u \<Longrightarrow> gram G N_exp (E_comma a b) (s @ Fixed token_comma # u)"

text \<open>The tokens that would continue an expression, and those with which one starts.\<close>

definition postfix_tokens :: "ctoken list" where
  "postfix_tokens =
     [token_open_square, token_open_paren, token_dot, token_ptr, token_increment, token_decrement, token_open_block]"

definition compound_tokens :: "ctoken list" where
  "compound_tokens =
     map Op_assign [token_plus, token_minus, token_multiply, token_divide, token_modulus, token_not, token_bnot,
       token_and, token_or, token_xor, token_shiftl, token_shiftr]"

definition binary_conts :: "nat \<Rightarrow> ctoken list" where
  "binary_conts k = postfix_tokens @ concat (take k binary_levels)"

definition assign_tokens :: "ctoken list" where
  "assign_tokens = token_assign # compound_tokens"

fun conts :: "nonterm \<Rightarrow> ctoken list" where
  "conts N_primary = []"
| "conts N_postfix = postfix_tokens"
| "conts N_unary = postfix_tokens"
| "conts (N_bin k) = binary_conts k"
| "conts N_cond = token_question # binary_conts 10"
| "conts N_assign = assign_tokens @ token_question # binary_conts 10"
| "conts N_exp = token_comma # assign_tokens @ token_question # binary_conts 10"

fun lexeme_token :: "lexeme \<Rightarrow> ctoken" where
  "lexeme_token (Fixed t) = t"
| "lexeme_token (Name w) = token_identifier"
| "lexeme_token (Number ds) = token_integer"

definition head_token :: "lexeme list \<Rightarrow> ctoken" where
  "head_token xs = (case xs of [] \<Rightarrow> token_eof | x # _ \<Rightarrow> lexeme_token x)"

definition follow :: "nonterm \<Rightarrow> lexeme list \<Rightarrow> bool" where
  "follow N rest \<longleftrightarrow> head_token rest \<notin> set (conts N)"

definition prefix_tokens :: "ctoken list" where
  "prefix_tokens =
     [token_increment, token_decrement, Op token_and, Op token_multiply, Op token_plus, Op token_minus,
      Op token_bnot, Op token_not, Kw token_sizeof, Kw token__Alignof, Kw token___alignof]"

fun starts_expr :: "gram_names \<Rightarrow> lexeme \<Rightarrow> bool" where
  "starts_expr G (Fixed t) \<longleftrightarrow> t = token_open_paren \<or> t \<in> set prefix_tokens"
| "starts_expr G (Name w) \<longleftrightarrow> w \<notin> gn_typedefs G"
| "starts_expr G (Number ds) \<longleftrightarrow> True"

text \<open>
  What the expression parser relies on: \<^verbatim>\<open>parse_type\<close> reads the text of a type up to the closing
  parenthesis and returns \<^verbatim>\<open>NULL\<close>, with nothing read, where an expression starts; \<^verbatim>\<open>builtin_parse\<close>
  returns \<^verbatim>\<open>NULL\<close> for a name that is not in its table.
\<close>

abbreviation reads :: "('f, 's, 'x) parse_ctx \<Rightarrow> lexeme list \<Rightarrow> ('f, 's) lexer_scheme \<Rightarrow> bool" where
  "reads C \<equiv> tokens_read (pc_env C)"

definition reads_types :: "('f, 's, 'x) parse_ctx \<Rightarrow> gram_names \<Rightarrow> bool" where
  "reads_types C G \<longleftrightarrow>
     (\<forall>T s rest lx. gn_types G T s \<longrightarrow> reads C (s @ Fixed token_close_paren # rest) lx \<longrightarrow>
        (\<exists>lx'. pc_parse_type C lx = Inr (Some T, lx') \<and>
               reads C (Fixed token_close_paren # rest) lx')) \<and>
     (\<forall>x xs lx. starts_expr G x \<longrightarrow> reads C (x # xs) lx \<longrightarrow> pc_parse_type C lx = Inr (None, lx))"

definition leaves_names :: "('f, 's, 'x) parse_ctx \<Rightarrow> gram_names \<Rightarrow> bool" where
  "leaves_names C G \<longleftrightarrow> (\<forall>sp lx. sp \<notin> gn_builtins G \<longrightarrow> pc_builtin_parse C sp lx = Inr (None, lx))"

section \<open>Enough fuel\<close>

definition settles :: "(nat \<Rightarrow> 'a) \<Rightarrow> 'a \<Rightarrow> bool" where
  "settles f v \<longleftrightarrow> (\<exists>k. \<forall>n \<ge> k. f n = v)"

definition settles2 :: "(nat \<Rightarrow> nat \<Rightarrow> 'a) \<Rightarrow> 'a \<Rightarrow> bool" where
  "settles2 f v \<longleftrightarrow> (\<exists>k. \<forall>n \<ge> k. \<forall>m \<ge> k. f n m = v)"

lemma settles_const [simp, intro]: "settles (\<lambda>_. v) v"
  by (simp add: settles_def)

lemma settles_bind:
  assumes "settles f (Inr a)" "settles (\<lambda>n. g n a) v"
  shows "settles (\<lambda>n. bindE (f n) (g n)) v"
proof -
  obtain k k' where "\<forall>n \<ge> k. f n = Inr a" "\<forall>n \<ge> k'. g n a = v" using assms by (auto simp: settles_def)
  then show ?thesis by (auto simp: settles_def intro!: exI [of _ "max k k'"])
qed

lemma settles_shift:
  assumes "settles g v" "\<And>n. f (Suc n) = g n"
  shows "settles f v"
proof -
  obtain k where k: "\<forall>n \<ge> k. g n = v" using assms by (auto simp: settles_def)
  have "f n = v" if "n \<ge> Suc k" for n using assms(2) k that by (cases n) auto
  then show ?thesis by (auto simp: settles_def)
qed

lemma settles2_diag: "settles2 f v \<Longrightarrow> settles (\<lambda>n. f n n) v"
  by (auto simp: settles_def settles2_def)

lemma settles2_bind:
  assumes "settles f (Inr a)" "settles2 (\<lambda>n m. g n m a) v"
  shows "settles2 (\<lambda>n m. bindE (f n) (g n m)) v"
proof -
  obtain k k' where "\<forall>n \<ge> k. f n = Inr a" "\<forall>n \<ge> k'. \<forall>m \<ge> k'. g n m a = v"
    using assms by (auto simp: settles_def settles2_def)
  then show ?thesis by (auto simp: settles2_def intro!: exI [of _ "max k k'"])
qed

text \<open>One round of a loop whose body settles.\<close>

lemma settles2_round:
  assumes "settles f (Inr a)" "settles2 g v" "\<And>n m. f n = Inr a \<Longrightarrow> l n (Suc m) = g n m"
  shows "settles2 l v"
proof -
  obtain k k' where k: "\<forall>n \<ge> k. f n = Inr a" "\<forall>n \<ge> k'. \<forall>m \<ge> k'. g n m = v"
    using assms by (auto simp: settles_def settles2_def)
  have "l n m = v" if "n \<ge> max k (Suc k')" "m \<ge> max k (Suc k')" for n m
    using assms(3) k that by (cases m) auto
  then show ?thesis unfolding settles2_def by (intro exI [of _ "max k (Suc k')"]) blast
qed

section \<open>The tokens in front of the parser\<close>

text \<open>The tokens to come, the first of which may have been given back with \<^verbatim>\<open>uneat\<close>.\<close>

definition ahead :: "'f lex_env \<Rightarrow> lexeme list \<Rightarrow> ('f, 's) lexer_scheme \<Rightarrow> bool" where
  "ahead env xs lx \<longleftrightarrow>
     tokens_read env xs lx \<or>
     (\<exists>t ys lx0. xs = Fixed t # ys \<and> tokens_read env ys lx0 \<and> curtok lx0 \<noteq> token_unknown \<and>
        lx = lx0\<lparr>curtok_save := curtok lx0, curtok := t\<rparr>)"

abbreviation sees :: "('f, 's, 'x) parse_ctx \<Rightarrow> lexeme list \<Rightarrow> ('f, 's) lexer_scheme \<Rightarrow> bool" where
  "sees C \<equiv> ahead (pc_env C)"

lemma tokens_read_ahead [intro]: "tokens_read env xs lx \<Longrightarrow> ahead env xs lx"
  by (simp add: ahead_def)

lemma tokens_read_curtok: "tokens_read env xs lx \<Longrightarrow> curtok lx = head_token xs"
proof (cases xs)
  case (Cons x ys)
  then show "tokens_read env xs lx \<Longrightarrow> curtok lx = head_token xs" by (cases x) (simp_all add: head_token_def)
qed (simp add: head_token_def)

lemma ahead_curtok: "ahead env xs lx \<Longrightarrow> curtok lx = head_token xs"
  by (auto simp: ahead_def tokens_read_curtok) (simp add: head_token_def)

lemma head_token_simps [simp]:
  "head_token [] = token_eof" "head_token (x # xs) = lexeme_token x"
  "s \<noteq> [] \<Longrightarrow> head_token (s @ xs) = head_token s"
  by (auto simp: head_token_def split: list.splits)

lemma ahead_EAT:
  assumes "sees C (Fixed t # xs) lx"
  obtains lx' where "EAT C t lx = Inr lx'" "reads C xs lx'"
proof -
  consider "reads C (Fixed t # xs) lx"
    | lx0 where "reads C xs lx0" "curtok lx0 \<noteq> token_unknown" "lx = lx0\<lparr>curtok_save := curtok lx0, curtok := t\<rparr>"
    using assms by (auto simp: ahead_def)
  then show ?thesis
  proof cases
    case 1
    then show ?thesis using that by (auto simp: EAT_def eat_def eat2_def split: sum.splits)
  next
    case 2
    have "curtok_save lx0 = token_unknown" using 2(1) by (cases xs) auto
    then have "lx0\<lparr>curtok_save := token_unknown\<rparr> = lx0" by simp
    then show ?thesis using that [of lx0] 2 by (simp add: EAT_def eat_def eat2_def)
  qed
qed

lemma acc_yes:
  assumes "sees C (Fixed t # xs) lx"
  obtains lx' where "acc C t lx = Inr (True, lx')" "reads C xs lx'"
proof -
  obtain lx' where lx': "EAT C t lx = Inr lx'" "reads C xs lx'" using assms by (rule ahead_EAT)
  then have "acc C t lx = Inr (True, lx')"
    using ahead_curtok [OF assms]
    by (cases "eat (nexttoken (pc_env C)) t lx") (auto simp: accept_def EAT_def)
  then show ?thesis using that lx'(2) by blast
qed

lemma acc_no: "sees C xs lx \<Longrightarrow> head_token xs \<noteq> t \<Longrightarrow> acc C t lx = Inr (False, lx)"
  by (auto simp: accept_def dest: ahead_curtok)

lemma name_read:
  assumes "sees C (Name w # xs) lx"
  obtains lx' where "parse_expr_identifier C lx = Inr (E_identifier w, lx')" "reads C xs lx'"
  using assms that
  by (auto simp: ahead_def parse_expr_identifier_def token_accept_identifier_def Let_def split: sum.splits)

lemma number_read:
  assumes "sees C (Number ds # xs) lx"
  obtains lx' where "EAT C token_integer lx = Inr lx'" "currentval lx = number_value ds" "reads C xs lx'"
  using assms that by (auto simp: ahead_def EAT_def eat_def eat2_def number_value_def split: sum.splits)

lemma settles_then:
  assumes "settles f (Inr (a, b))" "g a b = v"
  shows "settles (\<lambda>n. bindE (f n) (\<lambda>(a, b). g a b)) v"
  using assms by (intro settles_bind) auto

section \<open>How an expression starts\<close>

lemma what_token_prefix: "what_token t = Some w \<Longrightarrow> w \<noteq> what_typeof \<Longrightarrow> t \<in> {Kw token_sizeof, Kw token__Alignof, Kw token___alignof}"
  by (auto simp: what_token_def split: if_splits)

lemma gram_head_aux:
  fixes e :: "('f, 'x) pexpr" and as :: "('f, 'x) pexpr list"
  shows "gram G N e s \<Longrightarrow> s \<noteq> [] \<and> starts_expr G (hd s) \<and>
     (N \<in> {N_primary, N_postfix} \<longrightarrow> head_token s \<notin> set prefix_tokens) \<and>
     (N \<in> {N_primary, N_postfix, N_unary} \<longrightarrow> hd s = Fixed token_open_paren \<longrightarrow> tl s \<noteq> [] \<and> starts_expr G (hd (tl s)))"
  "gram_args G as u \<Longrightarrow> u \<noteq> [] \<and> starts_expr G (hd u)"
  by (induction N e s and as u rule: gram_gram_args.inducts) (auto simp: prefix_tokens_def dest!: what_token_prefix)

lemmas gram_head = gram_head_aux(1)

lemmas gram_args_head = gram_head_aux(2)

section \<open>What the parsers do\<close>

fun parser :: "('f, 's, 'x) parse_ctx \<Rightarrow> nonterm \<Rightarrow> nat \<Rightarrow> bool \<Rightarrow> ('f, 's, 'x) eparser" where
  "parser C N_exp n = parse_expr_exp C (parsers C n) n"
| "parser C N_assign n = parse_expr_assignment C (parsers C n) n"
| "parser C N_cond n = parse_expr_conditional C (parsers C n) n"
| "parser C (N_bin k) n = (\<lambda>sc. parse_binary C (parsers C n) n sc k)"
| "parser C N_unary n = parse_expr_unary C (parsers C n) n"
| "parser C N_postfix n = parse_expr_postfix C (parsers C n) n"
| "parser C N_primary n = parse_expr_primary C (parsers C n) n"

definition parses :: "('f, 's, 'x) parse_ctx \<Rightarrow> nonterm \<Rightarrow> ('f, 'x) pexpr \<Rightarrow> lexeme list \<Rightarrow> bool" where
  "parses C N e s \<longleftrightarrow>
     (\<forall>sc rest lx. sees C (s @ rest) lx \<longrightarrow> follow N rest \<longrightarrow>
        (\<exists>lx'. reads C rest lx' \<and> settles (\<lambda>n. parser C N n sc lx) (Inr (e, lx'))))"

lemma parses_expr_intro:
  assumes "\<And>sc rest lx. sees C (s @ rest) lx \<Longrightarrow> follow N rest \<Longrightarrow>
    \<exists>lx'. reads C rest lx' \<and> settles (\<lambda>n. parser C N n sc lx) (Inr (e, lx'))"
  shows "parses C N e s"
  using assms by (simp add: parses_def)

lemma parses_expr_elim:
  assumes "parses C N e s" "sees C (s @ rest) lx" "follow N rest"
  obtains lx' where "reads C rest lx'" "settles (\<lambda>n. parser C N n sc lx) (Inr (e, lx'))"
  using assms unfolding parses_def by blast

lemma rec_settles:
  "settles (\<lambda>n. parser C N_exp n sc lx) v \<Longrightarrow> settles (\<lambda>n. rp_exp (parsers C n) sc lx) v"
  "settles (\<lambda>n. parser C N_assign n sc lx) v \<Longrightarrow> settles (\<lambda>n. rp_assignment (parsers C n) sc lx) v"
  "settles (\<lambda>n. parser C N_cond n sc lx) v \<Longrightarrow> settles (\<lambda>n. rp_conditional (parsers C n) sc lx) v"
  "settles (\<lambda>n. parser C N_unary n sc lx) v \<Longrightarrow> settles (\<lambda>n. rp_unary (parsers C n) sc lx) v"
  "settles (\<lambda>n. parser C (N_bin 0) n sc lx) v \<Longrightarrow> settles (\<lambda>n. rp_unary (parsers C n) sc lx) v"
  by (erule settles_shift; simp)+

subsection \<open>Primary expressions\<close>

lemma primary_number: "parses C N_primary (E_numeric (number_value ds)) [Number ds]"
proof (rule parses_expr_intro)
  fix sc rest lx assume a: "sees C ([Number ds] @ rest) lx"
  obtain lx' where "EAT C token_integer lx = Inr lx'" "currentval lx = number_value ds" "reads C rest lx'"
    using number_read [of C ds rest lx] a by auto
  then show "\<exists>lx'. reads C rest lx' \<and>
      settles (\<lambda>n. parser C N_primary n sc lx) (Inr (E_numeric (number_value ds), lx'))"
    using ahead_curtok [OF a] by (auto simp: parse_expr_primary_def)
qed

lemma primary_name: "parses C N_primary (E_identifier w) [Name w]"
proof (rule parses_expr_intro)
  fix sc rest lx assume a: "sees C ([Name w] @ rest) lx"
  obtain lx' where "parse_expr_identifier C lx = Inr (E_identifier w, lx')" "reads C rest lx'"
    using name_read [of C w rest lx] a by auto
  then show "\<exists>lx'. reads C rest lx' \<and>
      settles (\<lambda>n. parser C N_primary n sc lx) (Inr (E_identifier w, lx'))"
    using ahead_curtok [OF a] by (auto simp: parse_expr_primary_def acc_no [OF a])
qed

lemma primary_parens:
  assumes "reads_types C G" "gram G N_exp e s" "parses C N_exp e s"
  shows "parses C N_primary (set_in_parens e) (Fixed token_open_paren # s @ [Fixed token_close_paren])"
proof (rule parses_expr_intro)
  fix sc rest lx
  assume a: "sees C ((Fixed token_open_paren # s @ [Fixed token_close_paren]) @ rest) lx"
  obtain x xs where s: "s = x # xs" "starts_expr G x" using gram_head [OF assms(2)] by (cases s) auto
  obtain l1 where l1: "acc C token_open_paren lx = Inr (True, l1)"
    "reads C (s @ Fixed token_close_paren # rest) l1"
    using acc_yes [of C token_open_paren "s @ Fixed token_close_paren # rest" lx] a by auto
  have ty: "pc_parse_type C l1 = Inr (None, l1)" using assms(1) l1(2) s by (auto simp: reads_types_def)
  have nb: "curtok l1 \<noteq> token_open_block"
    using tokens_read_curtok [OF l1(2)] s by (cases x) (auto simp: prefix_tokens_def)
  have f: "follow N_exp (Fixed token_close_paren # rest)"
    by (simp add: follow_def assign_tokens_def compound_tokens_def binary_conts_def postfix_tokens_def binary_levels_def)
  obtain l2 where l2: "reads C (Fixed token_close_paren # rest) l2"
    "settles (\<lambda>n. parser C N_exp n sc l1) (Inr (e, l2))"
    using parses_expr_elim [OF assms(3) tokens_read_ahead [OF l1(2)] f] by blast
  obtain l3 where l3: "EAT C token_close_paren l2 = Inr l3" "reads C rest l3"
    using ahead_EAT [OF tokens_read_ahead [OF l2(1)]] by blast
  have "settles (\<lambda>n. parser C N_primary n sc lx) (Inr (set_in_parens e, l3))"
    using ahead_curtok [OF a] nb l3(1)
    by (simp add: parse_expr_primary_def l1(1) ty)
       (rule settles_then [OF settles_then [OF rec_settles(1) [OF l2(2)] refl]], simp)
  then show "\<exists>lx'. reads C rest lx' \<and>
      settles (\<lambda>n. parser C N_primary n sc lx) (Inr (set_in_parens e, lx'))"
    using l3(2) by blast
qed

lemma settles2_final:
  assumes "\<And>n m. l n (Suc m) = v" shows "settles2 l v"
  unfolding settles2_def by (rule exI [of _ "Suc 0"]) (metis assms Suc_le_D)

subsection \<open>Postfix expressions\<close>

text \<open>
  The loop does not know whether an operator follows: where the loop goes on from behind the text of
  \<open>e\<close> is where the parser gets.
\<close>

definition parses_postfix :: "('f, 's, 'x) parse_ctx \<Rightarrow> ('f, 'x) pexpr \<Rightarrow> lexeme list \<Rightarrow> bool" where
  "parses_postfix C e s \<longleftrightarrow>
     (\<forall>sc rest lx. sees C (s @ rest) lx \<longrightarrow>
        (\<exists>lx'. reads C rest lx' \<and>
          (\<forall>v. settles2 (\<lambda>n m. parse_expr_postfix_with C (parsers C n) n sc m e lx') v \<longrightarrow>
               settles2 (\<lambda>n m. bindE (parse_expr_primary C (parsers C n) n sc lx)
                 (\<lambda>(e, lx). parse_expr_postfix_with C (parsers C n) n sc m e lx)) v)))"

lemma postfix_primary:
  assumes "parses C N_primary e s" shows "parses_postfix C e s"
  unfolding parses_postfix_def
proof (intro allI impI)
  fix sc rest lx assume a: "sees C (s @ rest) lx"
  obtain lx' where lx': "reads C rest lx'" "settles (\<lambda>n. parser C N_primary n sc lx) (Inr (e, lx'))"
    using parses_expr_elim [OF assms a] by (auto simp: follow_def)
  show "\<exists>lx'. reads C rest lx' \<and>
      (\<forall>v. settles2 (\<lambda>n m. parse_expr_postfix_with C (parsers C n) n sc m e lx') v \<longrightarrow>
           settles2 (\<lambda>n m. bindE (parse_expr_primary C (parsers C n) n sc lx)
             (\<lambda>(e, lx). parse_expr_postfix_with C (parsers C n) n sc m e lx)) v)"
    using lx'(2) by (intro exI [of _ lx'] conjI lx'(1) allI impI settles2_bind [where a = "(e, lx')"]) simp_all
qed

text \<open>One more postfix operator, whose text is \<open>u\<close>.\<close>

lemma postfix_extend:
  assumes "parses_postfix C e s"
    and step: "\<And>sc rest lx. reads C (u @ rest) lx \<Longrightarrow>
      \<exists>lx'. reads C rest lx' \<and>
        settles (\<lambda>n. postfix_step C (parsers C n) n sc e lx) (Inr (Some e', lx'))"
  shows "parses_postfix C e' (s @ u)"
  unfolding parses_postfix_def
proof (intro allI impI)
  fix sc rest lx assume a: "sees C ((s @ u) @ rest) lx"
  let ?loop = "\<lambda>e lx n m. parse_expr_postfix_with C (parsers C n) n sc m e lx"
  let ?all = "\<lambda>n m. bindE (parse_expr_primary C (parsers C n) n sc lx) (\<lambda>(e, lx). ?loop e lx n m)"
  obtain l1 where l1: "reads C (u @ rest) l1" "\<And>v. settles2 (?loop e l1) v \<Longrightarrow> settles2 ?all v"
    using assms(1) a unfolding parses_postfix_def append_assoc by blast
  obtain l2 where l2: "reads C rest l2"
    "settles (\<lambda>n. postfix_step C (parsers C n) n sc e l1) (Inr (Some e', l2))" using step [OF l1(1)] by blast
  have "settles2 (?loop e' l2) v \<Longrightarrow> settles2 (?loop e l1) v" for v
    by (rule settles2_round [OF l2(2)]) simp_all
  then show "\<exists>lx'. reads C rest lx' \<and> (\<forall>v. settles2 (?loop e' lx') v \<longrightarrow> settles2 ?all v)"
    using l1(2) l2(1) by blast
qed

lemma postfix_step_none:
  assumes "sees C rest lx" "follow N_postfix rest"
  shows "postfix_step C rc n sc e lx = Inr (None, lx)"
  using assms(2) by (simp add: postfix_step_def follow_def postfix_tokens_def acc_no [OF assms(1)])

lemma postfix_stop:
  assumes "parses_postfix C e s" shows "parses C N_postfix e s"
proof (rule parses_expr_intro)
  fix sc rest lx assume a: "sees C (s @ rest) lx" "follow N_postfix rest"
  obtain l1 where l1: "reads C rest l1"
    "\<And>v. settles2 (\<lambda>n m. parse_expr_postfix_with C (parsers C n) n sc m e l1) v \<Longrightarrow>
      settles2 (\<lambda>n m. bindE (parse_expr_primary C (parsers C n) n sc lx)
        (\<lambda>(e, lx). parse_expr_postfix_with C (parsers C n) n sc m e lx)) v"
    using assms a(1) unfolding parses_postfix_def by blast
  have "settles2 (\<lambda>n m. parse_expr_postfix_with C (parsers C n) n sc m e l1) (Inr (e, l1))"
    using postfix_step_none [OF tokens_read_ahead [OF l1(1)] a(2)]
    by (intro settles2_final) simp
  then have "settles (\<lambda>n. parser C N_postfix n sc lx) (Inr (e, l1))"
    using settles2_diag [OF l1(2)] by (simp add: parse_expr_postfix_def)
  then show "\<exists>lx'. reads C rest lx' \<and> settles (\<lambda>n. parser C N_postfix n sc lx) (Inr (e, lx'))"
    using l1(1) by blast
qed

text \<open>What follows the operand of an operator does not continue it.\<close>

lemma follow_closing:
  "t \<in> {token_close_square, token_close_paren, token_colon} \<Longrightarrow> follow N (Fixed t # rest)"
  by (cases N) (auto simp: follow_def assign_tokens_def compound_tokens_def binary_conts_def postfix_tokens_def
      binary_levels_def dest!: in_set_takeD)

lemma postfix_index:
  assumes "parses_postfix C e s" "parses C N_exp i u"
  shows "parses_postfix C (E_deref (E_array_sum e i)) (s @ Fixed token_open_square # u @ [Fixed token_close_square])"
proof (rule postfix_extend [OF assms(1)])
  fix sc rest lx
  assume "reads C ((Fixed token_open_square # u @ [Fixed token_close_square]) @ rest) lx"
  then have a: "sees C (Fixed token_open_square # u @ Fixed token_close_square # rest) lx" by auto
  obtain l1 where l1: "acc C token_open_square lx = Inr (True, l1)"
    "reads C (u @ Fixed token_close_square # rest) l1" using acc_yes [OF a] .
  obtain l2 where l2: "reads C (Fixed token_close_square # rest) l2"
    "settles (\<lambda>n. parser C N_exp n sc l1) (Inr (i, l2))"
    using parses_expr_elim [OF assms(2) tokens_read_ahead [OF l1(2)]] follow_closing by blast
  obtain l3 where l3: "EAT C token_close_square l2 = Inr l3" "reads C rest l3"
    using ahead_EAT [OF tokens_read_ahead [OF l2(1)]] by blast
  have "settles (\<lambda>n. postfix_step C (parsers C n) n sc e lx) (Inr (Some (E_deref (E_array_sum e i)), l3))"
    unfolding postfix_step_def l1(1) by (simp, rule settles_then [OF rec_settles(1) [OF l2(2)]], simp add: l3(1))
  then show "\<exists>lx'. reads C rest lx' \<and>
      settles (\<lambda>n. postfix_step C (parsers C n) n sc e lx) (Inr (Some (E_deref (E_array_sum e i)), lx'))"
    using l3(2) by blast
qed

lemma postfix_member:
  assumes "parses_postfix C e s" "t = token_dot \<or> t = token_ptr"
  shows "parses_postfix C (E_struct e (t = token_dot) (E_identifier w)) (s @ [Fixed t, Name w])"
proof (rule postfix_extend [OF assms(1)])
  fix sc rest lx assume "reads C ([Fixed t, Name w] @ rest) lx"
  then have a: "sees C (Fixed t # Name w # rest) lx" by auto
  obtain l1 where l1: "acc C t lx = Inr (True, l1)" "reads C (Name w # rest) l1" using acc_yes [OF a] .
  obtain l2 where l2: "parse_expr_identifier C l1 = Inr (E_identifier w, l2)" "reads C rest l2"
    using name_read [OF tokens_read_ahead [OF l1(2)]] by blast
  have "postfix_step C rc n sc e lx = Inr (Some (E_struct e (t = token_dot) (E_identifier w)), l2)" for rc n
    using assms(2) l1(1) l2(1) by (auto simp: postfix_step_def acc_no [OF a])
  then show "\<exists>lx'. reads C rest lx' \<and>
      settles (\<lambda>n. postfix_step C (parsers C n) n sc e lx) (Inr (Some (E_struct e (t = token_dot) (E_identifier w)), lx'))"
    using l2(2) by auto
qed

lemma postfix_incdec:
  assumes "parses_postfix C e s" "t = token_increment \<or> t = token_decrement"
  shows "parses_postfix C
    (E_assign_compound e (expr_new_val 1) (if t = token_increment then op_plus else op_minus) True) (s @ [Fixed t])"
proof (rule postfix_extend [OF assms(1)])
  fix sc rest lx assume "reads C ([Fixed t] @ rest) lx"
  then have a: "sees C (Fixed t # rest) lx" by auto
  obtain l1 where l1: "acc C t lx = Inr (True, l1)" "reads C rest l1" using acc_yes [OF a] .
  let ?e = "E_assign_compound e (expr_new_val 1) (if t = token_increment then op_plus else op_minus) True"
  have "postfix_step C rc n sc e lx = Inr (Some ?e, l1)" for rc n
    using assms(2) l1(1) by (auto simp: postfix_step_def acc_no [OF a])
  then show "\<exists>lx'. reads C rest lx' \<and>
      settles (\<lambda>n. postfix_step C (parsers C n) n sc e lx) (Inr (Some ?e, lx'))"
    using l1(2) by auto
qed

lemma settles2_const: "settles2 (\<lambda>_ _. v) v"
  by (simp add: settles2_def)

definition parses_args :: "('f, 's, 'x) parse_ctx \<Rightarrow> ('f, 'x) pexpr list \<Rightarrow> lexeme list \<Rightarrow> bool" where
  "parses_args C as s \<longleftrightarrow>
     (\<forall>sc rest lx done. sees C (s @ rest) lx \<longrightarrow> follow N_exp rest \<longrightarrow>
        (\<exists>lx'. reads C rest lx' \<and>
          settles2 (\<lambda>n m. funcargs_loop C (parsers C n) m sc done lx) (Inr (done @ as, lx'))))"

lemma follow_exp_assign: "follow N_exp rest \<Longrightarrow> follow N_assign rest \<and> head_token rest \<noteq> token_comma"
  by (simp add: follow_def)

lemma follow_assign_comma: "follow N_assign (Fixed token_comma # rest)"
  by (simp add: follow_def assign_tokens_def compound_tokens_def binary_conts_def postfix_tokens_def binary_levels_def)

lemma args_one:
  assumes "parses C N_assign a s" shows "parses_args C [a] s"
  unfolding parses_args_def
proof (intro allI impI)
  fix sc rest lx "done" assume h: "sees C (s @ rest) lx" "follow N_exp rest"
  obtain l1 where l1: "reads C rest l1" "settles (\<lambda>n. parser C N_assign n sc lx) (Inr (a, l1))"
    using parses_expr_elim [OF assms h(1)] follow_exp_assign [OF h(2)] by blast
  have "acc C token_comma l1 = Inr (False, l1)"
    using acc_no [OF tokens_read_ahead [OF l1(1)]] follow_exp_assign [OF h(2)] by simp
  then have "settles2 (\<lambda>n m. funcargs_loop C (parsers C n) m sc done lx) (Inr (done @ [a], l1))"
    by (intro settles2_round [OF rec_settles(2) [OF l1(2)] settles2_const]) simp
  then show "\<exists>lx'. reads C rest lx' \<and>
      settles2 (\<lambda>n m. funcargs_loop C (parsers C n) m sc done lx) (Inr (done @ [a], lx'))"
    using l1(1) by blast
qed

lemma args_more:
  assumes "parses C N_assign a s" "parses_args C as u" shows "parses_args C (a # as) (s @ Fixed token_comma # u)"
  unfolding parses_args_def
proof (intro allI impI)
  fix sc rest lx "done"
  assume h: "sees C ((s @ Fixed token_comma # u) @ rest) lx" "follow N_exp rest"
  have h1: "sees C (s @ Fixed token_comma # u @ rest) lx" using h(1) by simp
  obtain l1 where l1: "reads C (Fixed token_comma # u @ rest) l1"
    "settles (\<lambda>n. parser C N_assign n sc lx) (Inr (a, l1))"
    using parses_expr_elim [OF assms(1) h1 follow_assign_comma] .
  obtain l2 where l2: "acc C token_comma l1 = Inr (True, l2)" "reads C (u @ rest) l2"
    using acc_yes [OF tokens_read_ahead [OF l1(1)]] .
  obtain l3 where l3: "reads C rest l3"
    "settles2 (\<lambda>n m. funcargs_loop C (parsers C n) m sc (done @ [a]) l2) (Inr ((done @ [a]) @ as, l3))"
    using assms(2) tokens_read_ahead [OF l2(2)] h(2) unfolding parses_args_def by blast
  have "settles2 (\<lambda>n m. funcargs_loop C (parsers C n) m sc done lx) (Inr ((done @ [a]) @ as, l3))"
    by (rule settles2_round [OF rec_settles(2) [OF l1(2)] l3(2)]) (simp add: l2(1))
  then show "\<exists>lx'. reads C rest lx' \<and>
      settles2 (\<lambda>n m. funcargs_loop C (parsers C n) m sc done lx) (Inr (done @ a # as, lx'))"
    using l3(1) by auto
qed

text \<open>A call; \<^verbatim>\<open>builtin_parse\<close> leaves the name alone.\<close>

lemma builtin_none:
  assumes "leaves_names C G" "callable G e"
  shows "(case unparen e of E_identifier sp \<Rightarrow> pc_builtin_parse C sp lx | _ \<Rightarrow> Inr (None, lx)) = Inr (None, lx)"
  using assms by (auto simp: leaves_names_def callable_def split: pexpr.splits)

lemma postfix_call0:
  assumes "leaves_names C G" "parses_postfix C e s" "callable G e"
  shows "parses_postfix C (E_funcall e []) (s @ [Fixed token_open_paren, Fixed token_close_paren])"
proof (rule postfix_extend [OF assms(2)])
  fix sc rest lx
  assume "reads C ([Fixed token_open_paren, Fixed token_close_paren] @ rest) lx"
  then have a: "sees C (Fixed token_open_paren # Fixed token_close_paren # rest) lx" by auto
  obtain l1 where l1: "acc C token_open_paren lx = Inr (True, l1)"
    "reads C (Fixed token_close_paren # rest) l1" using acc_yes [OF a] .
  obtain l2 where l2: "EAT C token_close_paren l1 = Inr l2" "reads C rest l2"
    using ahead_EAT [OF tokens_read_ahead [OF l1(2)]] .
  have "postfix_step C rc n sc e lx = Inr (Some (E_funcall e []), l2)" for rc n
    using l1(1) l2(1) tokens_read_curtok [OF l1(2)]
    by (simp add: postfix_step_def acc_no [OF a] builtin_none [OF assms(1,3)] parse_funcargs_def)
  then show "\<exists>lx'. reads C rest lx' \<and>
      settles (\<lambda>n. postfix_step C (parsers C n) n sc e lx) (Inr (Some (E_funcall e []), lx'))"
    using l2(2) by auto
qed

lemma starts_not_close: "starts_expr G x \<Longrightarrow> lexeme_token x \<noteq> token_close_paren"
  by (cases x) (auto simp: prefix_tokens_def)

lemma postfix_call:
  assumes "leaves_names C G" "parses_postfix C e s" "callable G e" "gram_args G as u" "parses_args C as u"
  shows "parses_postfix C (E_funcall e as) (s @ Fixed token_open_paren # u @ [Fixed token_close_paren])"
proof (rule postfix_extend [OF assms(2)])
  fix sc rest lx
  assume "reads C ((Fixed token_open_paren # u @ [Fixed token_close_paren]) @ rest) lx"
  then have a: "sees C (Fixed token_open_paren # u @ Fixed token_close_paren # rest) lx" by auto
  obtain l1 where l1: "acc C token_open_paren lx = Inr (True, l1)"
    "reads C (u @ Fixed token_close_paren # rest) l1" using acc_yes [OF a] .
  have nc: "curtok l1 \<noteq> token_close_paren"
    using tokens_read_curtok [OF l1(2)] gram_args_head [OF assms(4)] starts_not_close by (cases u) auto
  have f: "follow N_exp (Fixed token_close_paren # rest)" by (rule follow_closing) simp
  obtain l2 where l2: "reads C (Fixed token_close_paren # rest) l2"
    "settles2 (\<lambda>n m. funcargs_loop C (parsers C n) m sc [] l1) (Inr ([] @ as, l2))"
    using assms(5) tokens_read_ahead [OF l1(2)] f unfolding parses_args_def by blast
  have args: "settles (\<lambda>n. parse_funcargs C (parsers C n) n sc l1) (Inr (as, l2))"
    using settles2_diag [OF l2(2)] nc by (simp add: parse_funcargs_def)
  obtain l3 where l3: "EAT C token_close_paren l2 = Inr l3" "reads C rest l3"
    using ahead_EAT [OF tokens_read_ahead [OF l2(1)]] .
  have "settles (\<lambda>n. postfix_step C (parsers C n) n sc e lx) (Inr (Some (E_funcall e as), l3))"
    using l1(1) by (simp add: postfix_step_def acc_no [OF a] builtin_none [OF assms(1,3)])
      (rule settles_then [OF settles_then [OF args refl]], simp add: l3(1))
  then show "\<exists>lx'. reads C rest lx' \<and>
      settles (\<lambda>n. postfix_step C (parsers C n) n sc e lx) (Inr (Some (E_funcall e as), lx'))"
    using l3(2) by blast
qed

subsection \<open>Unary expressions and casts\<close>

lemma take_fixed:
  assumes "sees C (Fixed t # xs) lx"
  obtains lx' where "EAT C t lx = Inr lx'" "acc C t lx = Inr (True, lx')" "reads C xs lx'" "curtok lx = t"
proof -
  obtain l1 where l1: "EAT C t lx = Inr l1" "reads C xs l1" using ahead_EAT [OF assms] .
  then have "acc C t lx = Inr (True, l1)"
    using ahead_curtok [OF assms] by (cases "eat (nexttoken (pc_env C)) t lx") (auto simp: accept_def EAT_def)
  then show ?thesis using that l1 ahead_curtok [OF assms] by simp
qed

lemma parses_bin0: "parses C (N_bin 0) e s \<longleftrightarrow> parses C N_unary e s"
  by (simp add: parses_def follow_def binary_conts_def)

lemma unary_default:
  assumes "sees C xs lx" "head_token xs \<in> {token_open_paren, token_identifier, token_integer}"
  shows "parse_expr_unary C rc n sc lx = parse_expr_postfix C rc n sc lx"
  using assms(2) ahead_curtok [OF assms(1)] by (auto simp: parse_expr_unary_def acc_no [OF assms(1)])

lemma gram_head_narrow:
  assumes "gram G N e s" "N \<in> {N_primary, N_postfix}"
  shows "head_token s \<in> {token_open_paren, token_identifier, token_integer}"
proof -
  obtain x xs where s: "s = x # xs" "starts_expr G x" "lexeme_token x \<notin> set prefix_tokens"
    using gram_head [OF assms(1)] assms(2) by (cases s) auto
  then show ?thesis by (cases x) auto
qed

lemma unary_postfix:
  assumes "gram G N_postfix e s" "parses C N_postfix e s" shows "parses C N_unary e s"
proof (rule parses_expr_intro)
  fix sc rest lx assume a: "sees C (s @ rest) lx" "follow N_unary rest"
  have h: "head_token (s @ rest) \<in> {token_open_paren, token_identifier, token_integer}"
    using gram_head_narrow [OF assms(1)] gram_head [OF assms(1)] by simp
  have "follow N_postfix rest" using a(2) by (simp add: follow_def)
  then show "\<exists>lx'. reads C rest lx' \<and> settles (\<lambda>n. parser C N_unary n sc lx) (Inr (e, lx'))"
    using parses_expr_elim [OF assms(2) a(1)] by (auto simp: unary_default [OF a(1) h])
qed

text \<open>A token in front of an operand.\<close>

lemma unary_prefix:
  assumes "parses C N_unary e s"
    and step: "\<And>rc n sc lx l1 xs. sees C (Fixed t # xs) lx \<Longrightarrow> curtok lx = t \<Longrightarrow>
      EAT C t lx = Inr l1 \<Longrightarrow> acc C t lx = Inr (True, l1) \<Longrightarrow>
      parse_expr_unary C rc n sc lx = bindE (rp_unary rc sc l1) (\<lambda>(e, l). Inr (f e, l))"
  shows "parses C N_unary (f e) (Fixed t # s)"
proof (rule parses_expr_intro)
  fix sc rest lx assume "sees C ((Fixed t # s) @ rest) lx" and f: "follow N_unary rest"
  then have a: "sees C (Fixed t # s @ rest) lx" by simp
  obtain l1 where l1: "EAT C t lx = Inr l1" "acc C t lx = Inr (True, l1)" "reads C (s @ rest) l1"
    "curtok lx = t" using take_fixed [OF a] .
  obtain l2 where l2: "reads C rest l2" "settles (\<lambda>n. parser C N_unary n sc l1) (Inr (e, l2))"
    using parses_expr_elim [OF assms(1) tokens_read_ahead [OF l1(3)] f] .
  have "settles (\<lambda>n. parser C N_unary n sc lx) (Inr (f e, l2))"
    by (simp add: step [OF a l1(4,1,2)]) (rule settles_then [OF rec_settles(4) [OF l2(2)] refl])
  then show "\<exists>lx'. reads C rest lx' \<and> settles (\<lambda>n. parser C N_unary n sc lx) (Inr (f e, lx'))"
    using l2(1) by blast
qed

lemma unary_pre:
  assumes "parses C N_unary e s" "t = token_increment \<or> t = token_decrement"
  shows "parses C N_unary
    (E_assign_compound e (expr_new_val 1) (if t = token_increment then op_plus else op_minus) False) (Fixed t # s)"
  using assms(2) by (intro unary_prefix [OF assms(1)]) (auto simp: parse_expr_unary_def acc_no)

lemma unary_addr: "parses C N_unary e s \<Longrightarrow> parses C N_unary (E_addr e) (Fixed (Op token_and) # s)"
  by (erule unary_prefix) (simp add: parse_expr_unary_def acc_no)

lemma unary_deref: "parses C N_unary e s \<Longrightarrow> parses C N_unary (E_deref e) (Fixed (Op token_multiply) # s)"
  by (erule unary_prefix) (simp add: parse_expr_unary_def acc_no)

lemma unary_op:
  assumes "parses C N_unary e s" "t \<in> {Op token_plus, Op token_minus, Op token_bnot, Op token_not}"
  shows "parses C N_unary (E_op (curtok_to_op t) e None) (Fixed t # s)"
  using assms(2) by (intro unary_prefix [OF assms(1)]) (auto simp: parse_expr_unary_def acc_no)

lemma sizeof_start:
  assumes "sees C (Fixed t # xs) lx" "what_token t = Some what" "what \<noteq> what_typeof"
  shows "parse_expr_unary C rc n sc lx = parse_expr_sizeof_typeof_alignof C rc n lx"
  using what_token_prefix [OF assms(2,3)] ahead_curtok [OF assms(1)]
  by (auto simp: parse_expr_unary_def acc_no [OF assms(1)])

text \<open>An operand in parentheses: the parenthesis is given back.\<close>

lemma sizeof_operand:
  assumes "reads_types C G" "gram G N_unary e s" "reads C (s @ rest) l1"
  shows "\<exists>l2. sees C (s @ rest) l2 \<and>
    (if head_token s = token_open_paren
     then \<exists>l'. acc C token_open_paren l1 = Inr (True, l') \<and> pc_parse_type C l' = Inr (None, l') \<and>
       uneat token_open_paren l' = Inr l2
     else l2 = l1 \<and> acc C token_open_paren l1 = Inr (False, l1))"
proof (cases "head_token s = token_open_paren")
  case True
  obtain x xs where s: "s = x # xs" using gram_head [OF assms(2)] by (cases s) auto
  have x: "x = Fixed token_open_paren" using True s by (cases x) auto
  obtain y ys where xs: "xs = y # ys" "starts_expr G y" using gram_head [OF assms(2)] s x by (cases xs) auto
  have a: "sees C (Fixed token_open_paren # xs @ rest) l1" using assms(3) s x by auto
  obtain l' where l': "acc C token_open_paren l1 = Inr (True, l')" "reads C (xs @ rest) l'"
    using acc_yes [OF a] .
  have ty: "pc_parse_type C l' = Inr (None, l')" using assms(1) l'(2) xs by (auto simp: reads_types_def)
  have "curtok l' \<noteq> token_unknown" using tokens_read_curtok [OF l'(2)] xs by (cases y) (auto simp: prefix_tokens_def)
  moreover have "curtok_save l' = token_unknown" using l'(2) xs by simp
  ultimately show ?thesis using l' ty True s x by (auto simp: ahead_def uneat_def)
next
  case False
  then have "head_token (s @ rest) \<noteq> token_open_paren" using gram_head [OF assms(2)] by simp
  then show ?thesis using acc_no [OF tokens_read_ahead [OF assms(3)]] False assms(3) by auto
qed

lemma unary_sizeof_expr:
  assumes "reads_types C G" "gram G N_unary e s" "parses C N_unary e s" "what_token t = Some what" "what \<noteq> what_typeof"
  shows "parses C N_unary (E_sizeof_expr e what) (Fixed t # s)"
proof (rule parses_expr_intro)
  fix sc rest lx assume "sees C ((Fixed t # s) @ rest) lx" and f: "follow N_unary rest"
  then have a: "sees C (Fixed t # s @ rest) lx" by simp
  obtain l1 where l1: "EAT C t lx = Inr l1" "reads C (s @ rest) l1" "curtok lx = t"
    using take_fixed [OF a] by blast
  obtain l2 where l2: "sees C (s @ rest) l2"
    "if head_token s = token_open_paren
     then \<exists>l'. acc C token_open_paren l1 = Inr (True, l') \<and> pc_parse_type C l' = Inr (None, l') \<and>
       uneat token_open_paren l' = Inr l2
     else l2 = l1 \<and> acc C token_open_paren l1 = Inr (False, l1)"
    using sizeof_operand [OF assms(1,2) l1(2)] by blast
  obtain l3 where l3: "reads C rest l3" "settles (\<lambda>n. parser C N_unary n False l2) (Inr (e, l3))"
    using parses_expr_elim [OF assms(3) l2(1) f] .
  have "parse_expr_sizeof_typeof_alignof C rc n lx =
      bindE (rp_unary rc False l2) (\<lambda>(e, lx). Inr (E_sizeof_expr e what, lx))" for rc n
    using l1 l2(2) assms(4,5) by (auto simp: parse_expr_sizeof_typeof_alignof_def split: if_splits)
  then have "settles (\<lambda>n. parser C N_unary n sc lx) (Inr (E_sizeof_expr e what, l3))"
    by (simp add: sizeof_start [OF a assms(4,5)]) (rule settles_then [OF rec_settles(4) [OF l3(2)] refl])
  then show "\<exists>lx'. reads C rest lx' \<and>
      settles (\<lambda>n. parser C N_unary n sc lx) (Inr (E_sizeof_expr e what, lx'))" using l3(1) by blast
qed

text \<open>A type in parentheses, up to what follows the closing one.\<close>

lemma paren_type:
  assumes "reads_types C G" "gn_types G T s"
    "sees C (Fixed token_open_paren # s @ Fixed token_close_paren # rest) lx"
  obtains l1 l2 l3 where "acc C token_open_paren lx = Inr (True, l1)" "pc_parse_type C l1 = Inr (Some T, l2)"
    "EAT C token_close_paren l2 = Inr l3" "reads C rest l3"
proof -
  obtain l1 where l1: "acc C token_open_paren lx = Inr (True, l1)"
    "reads C (s @ Fixed token_close_paren # rest) l1" using acc_yes [OF assms(3)] .
  obtain l2 where l2: "pc_parse_type C l1 = Inr (Some T, l2)" "reads C (Fixed token_close_paren # rest) l2"
    using assms(1,2) l1(2) unfolding reads_types_def by blast
  obtain l3 where "EAT C token_close_paren l2 = Inr l3" "reads C rest l3"
    using ahead_EAT [OF tokens_read_ahead [OF l2(2)]] .
  then show ?thesis using that l1 l2 by blast
qed

lemma unary_sizeof_type:
  assumes "reads_types C G" "gn_types G T s" "what_token t = Some what" "what \<noteq> what_typeof"
  shows "parses C N_unary (E_sizeof_type T what) (Fixed t # Fixed token_open_paren # s @ [Fixed token_close_paren])"
proof (rule parses_expr_intro)
  fix sc rest lx
  assume "sees C ((Fixed t # Fixed token_open_paren # s @ [Fixed token_close_paren]) @ rest) lx"
    and f: "follow N_unary rest"
  then have a: "sees C (Fixed t # Fixed token_open_paren # s @ Fixed token_close_paren # rest) lx" by simp
  obtain l0 where l0: "EAT C t lx = Inr l0" "curtok lx = t"
    "reads C (Fixed token_open_paren # s @ Fixed token_close_paren # rest) l0"
    using take_fixed [OF a] by blast
  obtain l1 l2 l3 where l: "acc C token_open_paren l0 = Inr (True, l1)" "pc_parse_type C l1 = Inr (Some T, l2)"
    "EAT C token_close_paren l2 = Inr l3" "reads C rest l3"
    using paren_type [OF assms(1,2) tokens_read_ahead [OF l0(3)]] .
  have "curtok l3 \<noteq> token_open_block"
    using f tokens_read_curtok [OF l(4)] by (auto simp: follow_def postfix_tokens_def)
  then have "parse_expr_sizeof_typeof_alignof C rc n lx = Inr (E_sizeof_type T what, l3)" for rc n
    using l0 l assms(3) by (simp add: parse_expr_sizeof_typeof_alignof_def)
  then show "\<exists>lx'. reads C rest lx' \<and>
      settles (\<lambda>n. parser C N_unary n sc lx) (Inr (E_sizeof_type T what, lx'))"
    using l(4) by (auto simp: sizeof_start [OF a assms(3,4)])
qed

lemma unary_cast:
  assumes "reads_types C G" "gn_types G T s" "gram G (N_bin 0) e u" "parses C N_unary e u"
  shows "parses C N_unary (E_cast e T) (Fixed token_open_paren # s @ Fixed token_close_paren # u)"
proof (rule parses_expr_intro)
  fix sc rest lx
  assume "sees C ((Fixed token_open_paren # s @ Fixed token_close_paren # u) @ rest) lx"
    and f: "follow N_unary rest"
  then have a: "sees C (Fixed token_open_paren # s @ Fixed token_close_paren # u @ rest) lx" by simp
  obtain l1 l2 l3 where l: "acc C token_open_paren lx = Inr (True, l1)" "pc_parse_type C l1 = Inr (Some T, l2)"
    "EAT C token_close_paren l2 = Inr l3" "reads C (u @ rest) l3"
    using paren_type [OF assms(1,2) a] .
  have nb: "curtok l3 \<noteq> token_open_block"
    using gram_head [OF assms(3)] tokens_read_curtok [OF l(4)]
    by (cases u; cases "hd u") (auto simp: prefix_tokens_def)
  obtain l4 where l4: "reads C rest l4" "settles (\<lambda>n. parser C N_unary n sc l3) (Inr (e, l4))"
    using parses_expr_elim [OF assms(4) tokens_read_ahead [OF l(4)] f] .
  have c: "curtok lx = token_open_paren" using ahead_curtok [OF a] by simp
  have pr: "settles (\<lambda>n. parse_expr_primary C (parsers C n) n sc lx) (Inr (E_cast e T, l4))"
    by (simp add: parse_expr_primary_def c l nb) (rule settles_then [OF rec_settles(4) [OF l4(2)] refl])
  have fp: "follow N_postfix rest" using f by (simp add: follow_def)
  have "settles2 (\<lambda>n m. parse_expr_postfix_with C (parsers C n) n sc m (E_cast e T) l4) (Inr (E_cast e T, l4))"
    using postfix_step_none [OF tokens_read_ahead [OF l4(1)] fp] by (intro settles2_final) simp
  then have "settles (\<lambda>n. parse_expr_postfix C (parsers C n) n sc lx) (Inr (E_cast e T, l4))"
    unfolding parse_expr_postfix_def
    using settles2_diag by (intro settles_bind [OF pr]) fastforce
  then have "settles (\<lambda>n. parser C N_unary n sc lx) (Inr (E_cast e T, l4))" by (simp add: unary_default [OF a])
  then show "\<exists>lx'. reads C rest lx' \<and> settles (\<lambda>n. parser C N_unary n sc lx) (Inr (E_cast e T, lx'))"
    using l4(1) by blast
qed

subsection \<open>Binary operators\<close>

definition parses_binary :: "('f, 's, 'x) parse_ctx \<Rightarrow> nat \<Rightarrow> ('f, 'x) pexpr \<Rightarrow> lexeme list \<Rightarrow> bool" where
  "parses_binary C k e s \<longleftrightarrow>
     (\<forall>sc rest lx. sees C (s @ rest) lx \<longrightarrow> follow (N_bin k) rest \<longrightarrow>
        (\<exists>lx'. reads C rest lx' \<and>
          (\<forall>v. settles2 (\<lambda>n m. generic_loop C (parser C (N_bin k) n sc) (binary_levels ! k) m e lx') v \<longrightarrow>
               settles2 (\<lambda>n m. bindE (parser C (N_bin k) n sc lx)
                 (\<lambda>(e, lx). generic_loop C (parser C (N_bin k) n sc) (binary_levels ! k) m e lx)) v)))"

lemma binary_first:
  assumes "parses C (N_bin k) e s" shows "parses_binary C k e s"
  unfolding parses_binary_def
proof (intro allI impI)
  fix sc rest lx assume a: "sees C (s @ rest) lx" "follow (N_bin k) rest"
  let ?loop = "\<lambda>e lx n m. generic_loop C (parser C (N_bin k) n sc) (binary_levels ! k) m e lx"
  obtain lx' where lx': "reads C rest lx'" "settles (\<lambda>n. parser C (N_bin k) n sc lx) (Inr (e, lx'))"
    using parses_expr_elim [OF assms a] .
  show "\<exists>lx'. reads C rest lx' \<and> (\<forall>v. settles2 (?loop e lx') v \<longrightarrow>
      settles2 (\<lambda>n m. bindE (parser C (N_bin k) n sc lx) (\<lambda>(e, lx). ?loop e lx n m)) v)"
    using lx'(2) by (intro exI [of _ lx'] conjI lx'(1) allI impI settles2_bind [where a = "(e, lx')"]) simp_all
qed

text \<open>The operators of a level do not continue an operand of it.\<close>

lemma level_follow:
  assumes "k < 10" "t \<in> set (binary_levels ! k)" shows "follow (N_bin k) (Fixed t # rest)"
proof -
  have "list_all (\<lambda>k. list_all (\<lambda>t. t \<notin> set (binary_conts k)) (binary_levels ! k)) [0..<10]" by code_simp
  then show ?thesis using assms by (simp add: list_all_iff follow_def)
qed

lemma binary_next:
  assumes "parses_binary C k a s" "parses C (N_bin k) b u" "k < 10" "t \<in> set (binary_levels ! k)"
  shows "parses_binary C k (E_op (curtok_to_op t) a (Some b)) (s @ Fixed t # u)"
  unfolding parses_binary_def
proof (intro allI impI)
  fix sc rest lx assume h: "sees C ((s @ Fixed t # u) @ rest) lx" "follow (N_bin k) rest"
  let ?loop = "\<lambda>e lx n m. generic_loop C (parser C (N_bin k) n sc) (binary_levels ! k) m e lx"
  let ?all = "\<lambda>n m. bindE (parser C (N_bin k) n sc lx) (\<lambda>(e, lx). ?loop e lx n m)"
  have h1: "sees C (s @ Fixed t # u @ rest) lx" using h(1) by simp
  obtain l1 where l1: "reads C (Fixed t # u @ rest) l1" "\<And>v. settles2 (?loop a l1) v \<Longrightarrow> settles2 ?all v"
    using assms(1) h1 level_follow [OF assms(3,4)] unfolding parses_binary_def by blast
  obtain l2 where l2: "EAT C t l1 = Inr l2" "reads C (u @ rest) l2" "curtok l1 = t"
    using take_fixed [OF tokens_read_ahead [OF l1(1)]] by blast
  obtain l3 where l3: "reads C rest l3" "settles (\<lambda>n. parser C (N_bin k) n sc l2) (Inr (b, l3))"
    using parses_expr_elim [OF assms(2) tokens_read_ahead [OF l2(2)] h(2)] .
  have "settles2 (?loop (E_op (curtok_to_op t) a (Some b)) l3) v \<Longrightarrow> settles2 (?loop a l1) v" for v
    by (rule settles2_round [OF l3(2)]) (use assms(4) l2 in \<open>simp_all add: curtok_in_list_def\<close>)
  then show "\<exists>lx'. reads C rest lx' \<and>
      (\<forall>v. settles2 (?loop (E_op (curtok_to_op t) a (Some b)) lx') v \<longrightarrow> settles2 ?all v)"
    using l1(2) l3(1) by blast
qed

lemma binary_conts_Suc:
  assumes "k < 10" shows "set (binary_conts (Suc k)) = set (binary_conts k) \<union> set (binary_levels ! k)"
proof -
  have "length binary_levels = 10" by code_simp
  then show ?thesis using assms by (simp add: binary_conts_def take_Suc_conv_app_nth Un_assoc)
qed

lemma binary_stop:
  assumes "parses_binary C k e s" "k < 10" shows "parses C (N_bin (Suc k)) e s"
proof (rule parses_expr_intro)
  fix sc rest lx assume a: "sees C (s @ rest) lx" and f: "follow (N_bin (Suc k)) rest"
  let ?loop = "\<lambda>e lx n m. generic_loop C (parser C (N_bin k) n sc) (binary_levels ! k) m e lx"
  let ?all = "\<lambda>n m. bindE (parser C (N_bin k) n sc lx) (\<lambda>(e, lx). ?loop e lx n m)"
  have fk: "follow (N_bin k) rest" "head_token rest \<notin> set (binary_levels ! k)"
    using f binary_conts_Suc [OF assms(2)] by (simp_all add: follow_def)
  obtain l1 where l1: "reads C rest l1" "\<And>v. settles2 (?loop e l1) v \<Longrightarrow> settles2 ?all v"
    using assms(1) a fk(1) unfolding parses_binary_def by blast
  have "settles2 (?loop e l1) (Inr (e, l1))"
    using fk(2) tokens_read_curtok [OF l1(1)] by (intro settles2_final) (simp add: curtok_in_list_def)
  then have "settles (\<lambda>n. parser C (N_bin (Suc k)) n sc lx) (Inr (e, l1))"
    using settles2_diag [OF l1(2)] by (simp add: parse_expr_generic_def)
  then show "\<exists>lx'. reads C rest lx' \<and> settles (\<lambda>n. parser C (N_bin (Suc k)) n sc lx) (Inr (e, lx'))"
    using l1(1) by blast
qed

subsection \<open>Conditionals, assignments and commas\<close>

lemma or_parser: "parser C (N_bin 10) n sc lx = parse_expr_logical_or C (parsers C n) n sc lx"
  by (simp add: parse_expr_logical_or_def)

lemma follow_cond: "follow N_cond rest \<longleftrightarrow> follow (N_bin 10) rest \<and> head_token rest \<noteq> token_question"
  by (auto simp: follow_def)

lemma follow_assign: "follow N_assign rest \<longleftrightarrow> follow N_cond rest \<and> head_token rest \<notin> set assign_tokens"
  by (auto simp: follow_def)

lemma follow_exp: "follow N_exp rest \<longleftrightarrow> follow N_assign rest \<and> head_token rest \<noteq> token_comma"
  by (auto simp: follow_def)

lemma compound_tokens: "curtok_is_compound_assignment t \<longleftrightarrow> t \<in> set compound_tokens"
proof (cases t)
  case (Op_assign x)
  then show ?thesis by (cases x) (simp_all add: curtok_is_compound_assignment_def compound_tokens_def)
qed (auto simp: curtok_is_compound_assignment_def compound_tokens_def)

lemma follow_fixed:
  "follow (N_bin 10) (Fixed token_question # rest)"
  "t \<in> set assign_tokens \<Longrightarrow> follow N_cond (Fixed t # rest)"
  "follow N_assign (Fixed token_comma # rest)"
proof -
  have "list_all (\<lambda>t. t \<notin> set (token_question # binary_conts 10)) assign_tokens"
    "token_question \<notin> set (binary_conts 10)" by code_simp+
  then show "follow (N_bin 10) (Fixed token_question # rest)"
    "t \<in> set assign_tokens \<Longrightarrow> follow N_cond (Fixed t # rest)" by (auto simp: follow_def list_all_iff)
qed (rule follow_assign_comma)

lemma cond_or:
  assumes "parses C (N_bin 10) e s" shows "parses C N_cond e s"
proof (rule parses_expr_intro)
  fix sc rest lx assume a: "sees C (s @ rest) lx" and f: "follow N_cond rest"
  obtain l1 where l1: "reads C rest l1" "settles (\<lambda>n. parser C (N_bin 10) n sc lx) (Inr (e, l1))"
    using parses_expr_elim [OF assms a] f follow_cond by blast
  have "acc C token_question l1 = Inr (False, l1)" using acc_no [OF tokens_read_ahead [OF l1(1)]] f follow_cond by blast
  then have "settles (\<lambda>n. parser C N_cond n sc lx) (Inr (e, l1))"
    unfolding parser.simps parse_expr_conditional_def by (intro settles_bind [OF l1(2) [unfolded or_parser]]) simp
  then show "\<exists>lx'. reads C rest lx' \<and> settles (\<lambda>n. parser C N_cond n sc lx) (Inr (e, lx'))"
    using l1(1) by blast
qed

lemma cond_if:
  assumes "parses C (N_bin 10) c s" "gram G N_exp a u" "parses C N_exp a u" "parses C N_cond b w"
  shows "parses C N_cond (E_if c (Some a) b) (s @ Fixed token_question # u @ Fixed token_colon # w)"
proof (rule parses_expr_intro)
  fix sc rest lx
  assume "sees C ((s @ Fixed token_question # u @ Fixed token_colon # w) @ rest) lx" and f: "follow N_cond rest"
  then have h: "sees C (s @ Fixed token_question # u @ Fixed token_colon # w @ rest) lx" by simp
  obtain l1 where l1: "reads C (Fixed token_question # u @ Fixed token_colon # w @ rest) l1"
    "settles (\<lambda>n. parser C (N_bin 10) n sc lx) (Inr (c, l1))" using parses_expr_elim [OF assms(1) h follow_fixed(1)] .
  obtain l2 where l2: "acc C token_question l1 = Inr (True, l2)" "reads C (u @ Fixed token_colon # w @ rest) l2"
    using acc_yes [OF tokens_read_ahead [OF l1(1)]] .
  have "head_token (u @ Fixed token_colon # w @ rest) \<noteq> token_colon"
    using gram_head [OF assms(2)] by (cases u; cases "hd u") (auto simp: prefix_tokens_def)
  then have nc: "acc C token_colon l2 = Inr (False, l2)" using acc_no [OF tokens_read_ahead [OF l2(2)]] by blast
  have fc: "follow N_exp (Fixed token_colon # w @ rest)" by (rule follow_closing) simp
  obtain l3 where l3: "reads C (Fixed token_colon # w @ rest) l3" "settles (\<lambda>n. parser C N_exp n sc l2) (Inr (a, l3))"
    using parses_expr_elim [OF assms(3) tokens_read_ahead [OF l2(2)] fc] .
  obtain l4 where l4: "EAT C token_colon l3 = Inr l4" "reads C (w @ rest) l4"
    using ahead_EAT [OF tokens_read_ahead [OF l3(1)]] .
  obtain l5 where l5: "reads C rest l5" "settles (\<lambda>n. parser C N_cond n sc l4) (Inr (b, l5))"
    using parses_expr_elim [OF assms(4) tokens_read_ahead [OF l4(2)] f] .
  have mid: "settles (\<lambda>n. bindE (rp_exp (parsers C n) sc l2)
      (\<lambda>(l, lx). bindE (EAT C token_colon lx) (\<lambda>lx. Inr (Some l, lx)))) (Inr (Some a, l4))"
    by (rule settles_then [OF rec_settles(1) [OF l3(2)]]) (simp add: l4(1))
  have "settles (\<lambda>n. parser C N_cond n sc lx) (Inr (E_if c (Some a) b, l5))"
    unfolding parser.simps parse_expr_conditional_def
    by (rule settles_bind [OF l1(2) [unfolded or_parser]])
       (simp add: l2(1) nc, rule settles_bind [OF mid], simp,
        rule settles_then [OF rec_settles(3) [OF l5(2)] refl])
  then show "\<exists>lx'. reads C rest lx' \<and> settles (\<lambda>n. parser C N_cond n sc lx) (Inr (E_if c (Some a) b, lx'))"
    using l5(1) by blast
qed

lemma cond_elvis:
  assumes "parses C (N_bin 10) c s" "parses C N_cond b w"
  shows "parses C N_cond (E_if c None b) (s @ Fixed token_question # Fixed token_colon # w)"
proof (rule parses_expr_intro)
  fix sc rest lx
  assume "sees C ((s @ Fixed token_question # Fixed token_colon # w) @ rest) lx" and f: "follow N_cond rest"
  then have h: "sees C (s @ Fixed token_question # Fixed token_colon # w @ rest) lx" by simp
  obtain l1 where l1: "reads C (Fixed token_question # Fixed token_colon # w @ rest) l1"
    "settles (\<lambda>n. parser C (N_bin 10) n sc lx) (Inr (c, l1))" using parses_expr_elim [OF assms(1) h follow_fixed(1)] .
  obtain l2 where l2: "acc C token_question l1 = Inr (True, l2)" "reads C (Fixed token_colon # w @ rest) l2"
    using acc_yes [OF tokens_read_ahead [OF l1(1)]] .
  obtain l3 where l3: "acc C token_colon l2 = Inr (True, l3)" "reads C (w @ rest) l3"
    using acc_yes [OF tokens_read_ahead [OF l2(2)]] .
  obtain l4 where l4: "reads C rest l4" "settles (\<lambda>n. parser C N_cond n sc l3) (Inr (b, l4))"
    using parses_expr_elim [OF assms(2) tokens_read_ahead [OF l3(2)] f] .
  have "settles (\<lambda>n. parser C N_cond n sc lx) (Inr (E_if c None b, l4))"
    unfolding parser.simps parse_expr_conditional_def
    by (rule settles_bind [OF l1(2) [unfolded or_parser]])
       (simp add: l2(1) l3(1), rule settles_then [OF rec_settles(3) [OF l4(2)] refl])
  then show "\<exists>lx'. reads C rest lx' \<and> settles (\<lambda>n. parser C N_cond n sc lx) (Inr (E_if c None b, lx'))"
    using l4(1) by blast
qed

lemma assign_cond:
  assumes "parses C N_cond e s" shows "parses C N_assign e s"
proof (rule parses_expr_intro)
  fix sc rest lx assume a: "sees C (s @ rest) lx" and f: "follow N_assign rest"
  obtain l1 where l1: "reads C rest l1" "settles (\<lambda>n. parser C N_cond n sc lx) (Inr (e, l1))"
    using parses_expr_elim [OF assms a] f follow_assign by blast
  have "acc C token_assign l1 = Inr (False, l1)" "\<not> curtok_is_compound_assignment (curtok l1)"
    using acc_no [OF tokens_read_ahead [OF l1(1)]] f tokens_read_curtok [OF l1(1)]
    by (auto simp: follow_assign assign_tokens_def compound_tokens)
  then have "settles (\<lambda>n. parser C N_assign n sc lx) (Inr (e, l1))"
    unfolding parser.simps parse_expr_assignment_def by (intro settles_bind [OF l1(2) [unfolded parser.simps]]) simp
  then show "\<exists>lx'. reads C rest lx' \<and> settles (\<lambda>n. parser C N_assign n sc lx) (Inr (e, lx'))"
    using l1(1) by blast
qed

text \<open>An assignment operator \<open>t\<close>, whose node is \<open>mk\<close>.\<close>

lemma assign_op:
  assumes "parses C N_cond a s" "parses C N_assign b u" "t \<in> set assign_tokens"
    and step: "\<And>rc n e lx l1 xs. sees C (Fixed t # xs) lx \<Longrightarrow> curtok lx = t \<Longrightarrow>
      EAT C t lx = Inr l1 \<Longrightarrow> acc C t lx = Inr (True, l1) \<Longrightarrow>
      bindE (acc C token_assign lx) (\<lambda>(assign, lx).
        if assign then bindE (rc lx) (\<lambda>(r, lx). Inr (E_assign e r, lx))
        else if curtok_is_compound_assignment (curtok lx) then
          bindE (EAT C (curtok lx) lx) (\<lambda>lx'. bindE (rc lx') (\<lambda>(r, lx'').
            Inr (E_assign_compound e r (curtok_to_compound_op (curtok lx)) False, lx'')))
        else Inr (e, lx)) = bindE (rc l1) (\<lambda>(r, lx). Inr (mk e r, lx))"
  shows "parses C N_assign (mk a b) (s @ Fixed t # u)"
proof (rule parses_expr_intro)
  fix sc rest lx assume "sees C ((s @ Fixed t # u) @ rest) lx" and f: "follow N_assign rest"
  then have h: "sees C (s @ Fixed t # u @ rest) lx" by simp
  obtain l1 where l1: "reads C (Fixed t # u @ rest) l1" "settles (\<lambda>n. parser C N_cond n sc lx) (Inr (a, l1))"
    using parses_expr_elim [OF assms(1) h follow_fixed(2) [OF assms(3)]] .
  obtain l2 where l2: "EAT C t l1 = Inr l2" "acc C t l1 = Inr (True, l2)" "reads C (u @ rest) l2" "curtok l1 = t"
    using take_fixed [OF tokens_read_ahead [OF l1(1)]] .
  obtain l3 where l3: "reads C rest l3" "settles (\<lambda>n. parser C N_assign n sc l2) (Inr (b, l3))"
    using parses_expr_elim [OF assms(2) tokens_read_ahead [OF l2(3)] f] .
  have "settles (\<lambda>n. parser C N_assign n sc lx) (Inr (mk a b, l3))"
    unfolding parser.simps parse_expr_assignment_def
    by (rule settles_bind [OF l1(2) [unfolded parser.simps]])
       (simp only: prod.case step [OF tokens_read_ahead [OF l1(1)] l2(4,1,2)],
        rule settles_then [OF rec_settles(2) [OF l3(2)] refl])
  then show "\<exists>lx'. reads C rest lx' \<and> settles (\<lambda>n. parser C N_assign n sc lx) (Inr (mk a b, lx'))"
    using l3(1) by blast
qed

lemma assign_simple:
  "parses C N_cond a s \<Longrightarrow> parses C N_assign b u \<Longrightarrow> parses C N_assign (E_assign a b) (s @ Fixed token_assign # u)"
  by (rule assign_op) (simp_all add: assign_tokens_def)

lemma assign_compound:
  assumes "parses C N_cond a s" "parses C N_assign b u" "curtok_is_compound_assignment t"
  shows "parses C N_assign (E_assign_compound a b (curtok_to_compound_op t) False) (s @ Fixed t # u)"
proof -
  have "t \<noteq> token_assign" "t \<in> set assign_tokens"
    using assms(3) by (auto simp: curtok_is_compound_assignment_def assign_tokens_def compound_tokens)
       (simp add: compound_tokens [symmetric] curtok_is_compound_assignment_def)
  then show ?thesis
    using assms(3) by (intro assign_op [OF assms(1,2)]) (simp_all add: acc_no)
qed

lemma exp_assign:
  assumes "parses C N_assign e s" shows "parses C N_exp e s"
proof (rule parses_expr_intro)
  fix sc rest lx assume a: "sees C (s @ rest) lx" and f: "follow N_exp rest"
  obtain l1 where l1: "reads C rest l1" "settles (\<lambda>n. parser C N_assign n sc lx) (Inr (e, l1))"
    using parses_expr_elim [OF assms a] f follow_exp by blast
  have "acc C token_comma l1 = Inr (False, l1)"
    using acc_no [OF tokens_read_ahead [OF l1(1)]] f by (auto simp: follow_exp)
  then have "settles (\<lambda>n. parser C N_exp n sc lx) (Inr (e, l1))"
    unfolding parser.simps parse_expr_exp_def by (intro settles_bind [OF l1(2) [unfolded parser.simps]]) simp
  then show "\<exists>lx'. reads C rest lx' \<and> settles (\<lambda>n. parser C N_exp n sc lx) (Inr (e, lx'))"
    using l1(1) by blast
qed

lemma exp_comma:
  assumes "parses C N_assign a s" "parses C N_exp b u" shows "parses C N_exp (E_comma a b) (s @ Fixed token_comma # u)"
proof (rule parses_expr_intro)
  fix sc rest lx assume "sees C ((s @ Fixed token_comma # u) @ rest) lx" and f: "follow N_exp rest"
  then have h: "sees C (s @ Fixed token_comma # u @ rest) lx" by simp
  obtain l1 where l1: "reads C (Fixed token_comma # u @ rest) l1"
    "settles (\<lambda>n. parser C N_assign n sc lx) (Inr (a, l1))" using parses_expr_elim [OF assms(1) h follow_fixed(3)] .
  obtain l2 where l2: "acc C token_comma l1 = Inr (True, l2)" "reads C (u @ rest) l2"
    using acc_yes [OF tokens_read_ahead [OF l1(1)]] .
  obtain l3 where l3: "reads C rest l3" "settles (\<lambda>n. parser C N_exp n sc l2) (Inr (b, l3))"
    using parses_expr_elim [OF assms(2) tokens_read_ahead [OF l2(2)] f] .
  have "settles (\<lambda>n. parser C N_exp n sc lx) (Inr (E_comma a b, l3))"
    unfolding parser.simps parse_expr_exp_def
    by (rule settles_bind [OF l1(2) [unfolded parser.simps]])
       (simp add: l2(1), rule settles_then [OF rec_settles(1) [OF l3(2)] refl])
  then show "\<exists>lx'. reads C rest lx' \<and> settles (\<lambda>n. parser C N_exp n sc lx) (Inr (E_comma a b, lx'))"
    using l3(1) by blast
qed

section \<open>The parser follows the grammar\<close>

text \<open>What the induction shows: for the two left-recursive kinds, where their loops go on.\<close>

fun follows_gram :: "('f, 's, 'x) parse_ctx \<Rightarrow> nonterm \<Rightarrow> ('f, 'x) pexpr \<Rightarrow> lexeme list \<Rightarrow> bool" where
  "follows_gram C N_postfix e s = parses_postfix C e s"
| "follows_gram C (N_bin (Suc k)) e s = parses_binary C k e s"
| "follows_gram C N e s = parses C N e s"

lemma follows_gram_parses:
  assumes "gram G N e s" "follows_gram C N e s" shows "parses C N e s"
proof -
  have "k < 10" if "N = N_bin (Suc k)" for k using assms(1) that by (cases rule: gram.cases) auto
  then show ?thesis using assms(2) postfix_stop binary_stop by (cases "(C, N, e, s)" rule: follows_gram.cases) auto
qed

lemmas parse_rules = primary_number primary_name postfix_primary postfix_index postfix_member
  args_one args_more unary_addr unary_deref unary_op assign_cond assign_simple assign_compound exp_assign exp_comma

lemma gram_follows:
  fixes e :: "('f, 'x) pexpr" and as :: "('f, 'x) pexpr list"
  assumes "reads_types C G" "leaves_names C G"
  shows "gram G N e s \<Longrightarrow> follows_gram C N e s" "gram_args G as u \<Longrightarrow> parses_args C as u"
proof (induction N e s and as u rule: gram_gram_args.inducts)
  case (g_lift k e s)
  then show ?case using follows_gram_parses [of G "N_bin k" e s C] binary_first by simp
next
  case (g_binary k a s t b u)
  then show ?case using follows_gram_parses [of G "N_bin k" b u C] binary_next by simp
next
  case (g_postfix e s)
  then show ?case using unary_postfix [OF _ postfix_stop] by simp
next
  case (g_post e s t)
  then show ?case using postfix_incdec [of C e s t] by simp
next
  case (g_pre e s t)
  then show ?case using unary_pre [of C e s t] by simp
next
  case (g_or e s)
  then show ?case using follows_gram_parses [of G "N_bin 10" e s C] cond_or by simp
next
  case (g_if c s a u b w)
  then show ?case using follows_gram_parses [of G "N_bin 10" c s C] cond_if by simp
next
  case (g_elvis c s b w)
  then show ?case using follows_gram_parses [of G "N_bin 10" c s C] cond_elvis by simp
qed (auto simp: parses_bin0
      intro: parse_rules primary_parens [OF assms(1)] postfix_call0 [OF assms(2)] postfix_call [OF assms(2)]
        unary_sizeof_expr [OF assms(1)] unary_sizeof_type [OF assms(1)] unary_cast [OF assms(1)])


text \<open>
  \<^verbatim>\<open>a = b - c * (int)d[1] - 2 ? sizeof(int) : f(x, -y);\<close> with a \<^verbatim>\<open>parse_type\<close> that knows \<^verbatim>\<open>int\<close>.
\<close>

definition int_type :: ctype where
  "int_type = T_btype \<lparr>bt_primitive = type_int, bt_sue = None\<rparr>"

definition example_names :: gram_names where
  "example_names =
     \<lparr>gn_types = (\<lambda>T s. T = int_type \<and> s = [Fixed (Kw token_int)]), gn_typedefs = {}, gn_builtins = {}\<rparr>"

definition example_ctx :: "(nat, unit, unit) parse_ctx" where
  "example_ctx =
     \<lparr>pc_env = example_lex_env,
      pc_parse_type =
        (\<lambda>lx. if curtok lx = Kw token_int then bindE (eat (nexttoken example_lex_env) (Kw token_int) lx) (\<lambda>(_, lx). Inr (Some int_type, lx))
              else Inr (None, lx)),
      pc_parse_init = (\<lambda>_ _. Inl (Died ''init'')), pc_parse_stmt_block = (\<lambda>_. Inl (Died ''block'')),
      pc_parse_block = (\<lambda>_. Inl (Died ''block'')), pc_builtin_parse = (\<lambda>_ lx. Inr (None, lx))\<rparr>"

definition example_expr :: "(nat, unit) pexpr" where
  "example_expr =
     E_assign (E_identifier ''a'')
       (E_if
         (E_op op_minus
           (E_op op_minus (E_identifier ''b'')
             (Some (E_op op_multiply (E_identifier ''c'')
               (Some (E_cast (E_deref (E_array_sum (E_identifier ''d'') (E_numeric (number_value ''1'')))) int_type)))))
           (Some (E_numeric (number_value ''2''))))
         (Some (E_sizeof_type int_type what_sizeof))
         (E_funcall (E_identifier ''f'') [E_identifier ''x'', E_op op_minus (E_identifier ''y'') None]))"

definition example_text :: "lexeme list" where
  "example_text =
     [Name ''a'', Fixed token_assign, Name ''b'', Fixed (Op token_minus), Name ''c'', Fixed (Op token_multiply),
      Fixed token_open_paren, Fixed (Kw token_int), Fixed token_close_paren, Name ''d'', Fixed token_open_square,
      Number ''1'', Fixed token_close_square, Fixed (Op token_minus), Number ''2'', Fixed token_question,
      Fixed (Kw token_sizeof), Fixed token_open_paren, Fixed (Kw token_int), Fixed token_close_paren,
      Fixed token_colon, Name ''f'', Fixed token_open_paren, Name ''x'', Fixed token_comma, Fixed (Op token_minus),
      Name ''y'', Fixed token_close_paren]"

lemma gram_level: "gram G (N_bin j) e s \<Longrightarrow> j \<le> k \<Longrightarrow> k \<le> 10 \<Longrightarrow> gram G (N_bin k) e s"
proof (induction k)
  case (Suc k)
  then show ?case by (cases "j = Suc k") (auto intro: g_lift)
qed simp

lemma gram_postfix_level: "gram G N_postfix e s \<Longrightarrow> k \<le> 10 \<Longrightarrow> gram G (N_bin k) e s"
  by (rule gram_level [of _ 0]) (auto intro: g_unary g_postfix)

lemma gram_cast_up:
  assumes "gram G (N_bin 0) e s"
  shows "gram G N_cond e s" "gram G N_assign e s" "gram G N_exp e s"
  using assms by (auto intro: g_exp g_cond g_or gram_level [of _ 0])

lemma example_gram: "gram example_names N_exp example_expr example_text"
proof -
  let ?G = example_names
  have n: "gram ?G N_postfix (E_identifier w) [Name w]" for w by (intro g_primary g_name) (simp add: example_names_def)
  have num: "gram ?G N_postfix (E_numeric (number_value ds)) [Number ds]" for ds by (auto intro: g_primary g_number)
  have ty: "gn_types ?G int_type [Fixed (Kw token_int)]" by (simp add: example_names_def)
  note up = gram_postfix_level and up0 = gram_postfix_level [OF _ le0]
  let ?d = "E_deref (E_array_sum (E_identifier ''d'') (E_numeric (number_value ''1'')))"
  let ?dt = "[Name ''d'', Fixed token_open_square, Number ''1'', Fixed token_close_square]"
  have "gram ?G N_postfix ?d ?dt" using g_index [OF n [of "''d''"] gram_cast_up(3) [OF up0 [OF num [of "''1''"]]]] by simp
  then have cast: "gram ?G (N_bin 0) (E_cast ?d int_type)
      (Fixed token_open_paren # [Fixed (Kw token_int)] @ Fixed token_close_paren # ?dt)"
    by (intro g_cast ty up) simp_all
  let ?m = "E_op op_multiply (E_identifier ''c'') (Some (E_cast ?d int_type))"
  have mul: "gram ?G (N_bin (Suc 0)) ?m ([Name ''c''] @ Fixed (Op token_multiply) #
      Fixed token_open_paren # [Fixed (Kw token_int)] @ Fixed token_close_paren # ?dt)"
    using g_binary [OF up [OF n] _ _ cast, of "Op token_multiply"] by (simp add: binary_levels_def)
  let ?s1 = "E_op op_minus (E_identifier ''b'') (Some ?m)"
  note sub1 = g_binary [OF up [OF n [of "''b''"]] _ _ mul, of "Op token_minus", simplified binary_levels_def, simplified]
  note sub2 = g_binary [OF sub1 _ _ up [OF num [of "''2''"]], of "Op token_minus", simplified binary_levels_def, simplified]
  have sz: "gram ?G (N_bin 0) (E_sizeof_type int_type what_sizeof)
      (Fixed (Kw token_sizeof) # Fixed token_open_paren # [Fixed (Kw token_int)] @ [Fixed token_close_paren])"
    by (intro g_unary g_sizeof_type ty) (simp_all add: what_token_def)
  have neg: "gram ?G (N_bin 0) (E_op (curtok_to_op (Op token_minus)) (E_identifier ''y'') None) (Fixed (Op token_minus) # [Name ''y''])"
    by (intro g_unary g_op up n) simp_all
  have args: "gram_args ?G [E_identifier ''x'', E_op op_minus (E_identifier ''y'') None]
      ([Name ''x''] @ Fixed token_comma # Fixed (Op token_minus) # [Name ''y''])"
    using gram_cast_up(2) [OF neg] gram_cast_up(2) [OF up0 [OF n [of "''x''"]]] by (intro g_args g_arg) simp_all
  have call: "gram ?G N_postfix (E_funcall (E_identifier ''f'') [E_identifier ''x'', E_op op_minus (E_identifier ''y'') None])
     ([Name ''f''] @ Fixed token_open_paren # ([Name ''x''] @ Fixed token_comma # Fixed (Op token_minus) # [Name ''y'']) @ [Fixed token_close_paren])"
    by (rule g_call [OF n _ args]) (simp add: callable_def example_names_def)
  note cond = g_if [OF gram_level [OF sub2] gram_cast_up(3) [OF sz] gram_cast_up(1) [OF up0 [OF call]], simplified]
  show ?thesis unfolding example_expr_def example_text_def
    using g_exp [OF g_assign [OF gram_cast_up(1) [OF up0 [OF n [of "''a''"]]] g_cond [OF cond]]] by simp
qed

lemma example_reads: "reads_types example_ctx example_names" "leaves_names example_ctx example_names"
proof -
  have env: "pc_env example_ctx = example_lex_env" by (simp add: example_ctx_def)
  have other: "pc_parse_type example_ctx lx = Inr (None, lx)"
    if "starts_expr example_names x" "tokens_read example_lex_env (x # xs) lx" for x xs lx
  proof -
    have "curtok lx \<noteq> Kw token_int"
      using tokens_read_curtok [OF that(2)] that(1) by (cases x) (auto simp: prefix_tokens_def)
    then show ?thesis by (simp add: example_ctx_def)
  qed
  have int: "\<exists>lx'. pc_parse_type example_ctx lx = Inr (Some int_type, lx') \<and> tokens_read example_lex_env xs lx'"
    if "tokens_read example_lex_env (Fixed (Kw token_int) # xs) lx" for xs lx
    using that by (auto simp: example_ctx_def eat_def eat2_def split: sum.splits)
  have "\<exists>lx'. pc_parse_type example_ctx lx = Inr (Some T, lx') \<and>
      tokens_read example_lex_env (Fixed token_close_paren # rest) lx'"
    if "gn_types example_names T s" "tokens_read example_lex_env (s @ Fixed token_close_paren # rest) lx" for T s rest lx
  proof -
    have "T = int_type" "s = [Fixed (Kw token_int)]" using that(1) by (simp_all add: example_names_def)
    then show ?thesis using that(2) int by (simp del: tokens_read.simps)
  qed
  then show "reads_types example_ctx example_names" unfolding reads_types_def env using other by blast
  show "leaves_names example_ctx example_names" by (simp add: leaves_names_def example_ctx_def)
qed


end
