(* ===== verification/Ucc_Sym.thy ===== *)
theory Ucc_Sym
  imports Ucc_Layout
begin

text \<open>
  Symbol tables: \<^verbatim>\<open>src/cc1/sym.c\<close> and \<^verbatim>\<open>src/cc1/sym.h\<close>, with \<^verbatim>\<open>label_new\<close> of \<^verbatim>\<open>label.c\<close> and the search
  for enumerators of \<^verbatim>\<open>sue.c\<close>.

  Tables, declarations, symbols and labels are allocated and never freed; a pointer to one is its
  index in the heap.  Positions and the flags that other parts keep in a table are left out.  The
  dictionaries of labels are maps, as \<^verbatim>\<open>Ucc_Dynmap\<close> shows them to behave.  Walks up the parents
  carry fuel, of which the number of tables is enough.
\<close>

section \<open>The heap\<close>

record symtable =
  st_parent :: "nat option"
  st_children :: "nat list"
  st_internal_nest :: bool
  st_are_params :: bool
  st_transparent :: bool
  st_in_func :: "nat option"
  st_sues :: "nat list"
  st_decls :: "nat list"
  st_labels :: "(string \<rightharpoonup> nat) option"

datatype sym_type = sym_global | sym_local | sym_arg

record csym =
  sy_type :: sym_type
  sy_decl :: nat
  sy_vals :: "nat list"
  sy_val_single :: "nat option"

record sdecl =
  dcl_sym :: "nat option"
  dcl_addressed :: bool
  dcl_typedef :: bool
  dcl_member :: member

abbreviation dcl_spel :: "sdecl \<Rightarrow> string option" where
  "dcl_spel d \<equiv> mb_spel (dcl_member d)"

record label =
  lb_spel :: string
  lb_complete :: bool
  lb_scope :: nat

text \<open>A struct, union or enum; the spellings are those of its enumerators.\<close>

record tag =
  tg_primitive :: type_primitive
  tg_enumerators :: "string list"

record symheap =
  sh_tabs :: "symtable list"
  sh_decls :: "sdecl list"
  sh_syms :: "csym list"
  sh_labels :: "label list"
  sh_tags :: "tag list"

definition tab :: "symheap \<Rightarrow> nat \<Rightarrow> symtable outcome" where
  "tab h t = (if t < length (sh_tabs h) then Inr (sh_tabs h ! t) else Inl Out_of_bounds)"

definition put_tab :: "nat \<Rightarrow> symtable \<Rightarrow> symheap \<Rightarrow> symheap" where
  "put_tab t s h = h\<lparr>sh_tabs := (sh_tabs h)[t := s]\<rparr>"

definition decl_at :: "symheap \<Rightarrow> nat \<Rightarrow> sdecl outcome" where
  "decl_at h d = (if d < length (sh_decls h) then Inr (sh_decls h ! d) else Inl Out_of_bounds)"

definition empty_tab :: symtable where
  "empty_tab =
     \<lparr>st_parent = None, st_children = [], st_internal_nest = False, st_are_params = False,
      st_transparent = False, st_in_func = None, st_sues = [], st_decls = [], st_labels = None\<rparr>"

section \<open>Building tables\<close>

primrec add_target :: "nat \<Rightarrow> symheap \<Rightarrow> nat \<Rightarrow> nat outcome" where
  "add_target 0 h t = Inl Out_of_fuel"
| "add_target (Suc n) h t =
     bindE (tab h t) (\<lambda>s.
       if \<not> st_transparent s then Inr t
       else case st_parent s of None \<Rightarrow> Inl Null_deref | Some p \<Rightarrow> add_target n h p)"

definition symtab_add_target :: "symheap \<Rightarrow> nat \<Rightarrow> nat outcome" where
  "symtab_add_target h t = add_target (Suc (length (sh_tabs h))) h t"

definition symtab_add_to_scope2 :: "nat \<Rightarrow> nat \<Rightarrow> bool \<Rightarrow> symheap \<Rightarrow> symheap outcome" where
  "symtab_add_to_scope2 t d prepend h =
     bindE (symtab_add_target h t) (\<lambda>t.
     bindE (tab h t) (\<lambda>s.
       Inr (put_tab t (s\<lparr>st_decls := (if prepend then d # st_decls s else st_decls s @ [d])\<rparr>) h)))"

definition symtab_add_to_scope :: "nat \<Rightarrow> nat \<Rightarrow> symheap \<Rightarrow> symheap outcome" where
  "symtab_add_to_scope t d h = symtab_add_to_scope2 t d False h"

definition symtab_insert_before :: "nat \<Rightarrow> nat \<Rightarrow> nat \<Rightarrow> symheap \<Rightarrow> symheap outcome" where
  "symtab_insert_before t at to_insert h =
     bindE (symtab_add_target h t) (\<lambda>t.
     bindE (tab h t) (\<lambda>s.
       let pre = takeWhile (\<lambda>d. d \<noteq> at) (st_decls s) in
       if length pre = length (st_decls s) then Inl (Assert_failed ''can't find insert location'')
       else Inr (put_tab t (s\<lparr>st_decls := pre @ to_insert # drop (length pre) (st_decls s)\<rparr>) h)))"

definition symtab_add_sue :: "nat \<Rightarrow> nat \<Rightarrow> symheap \<Rightarrow> symheap outcome" where
  "symtab_add_sue t sue h =
     bindE (symtab_add_target h t) (\<lambda>t.
     bindE (tab h t) (\<lambda>s. Inr (put_tab t (s\<lparr>st_sues := st_sues s @ [sue]\<rparr>) h)))"

definition sym_new :: "nat \<Rightarrow> sym_type \<Rightarrow> symheap \<Rightarrow> (nat \<times> symheap) outcome" where
  "sym_new d ty h =
     bindE (decl_at h d) (\<lambda>dc.
       if dcl_sym dc \<noteq> None then Inl (Assert_failed ''already has a sym'')
       else
         let s = length (sh_syms h) in
         Inr (s, h\<lparr>sh_syms := sh_syms h @ [\<lparr>sy_type = ty, sy_decl = d, sy_vals = [], sy_val_single = None\<rparr>],
                   sh_decls := (sh_decls h)[d := dc\<lparr>dcl_sym := Some s\<rparr>]\<rparr>))"

definition sym_new_and_prepend_decl :: "nat \<Rightarrow> nat \<Rightarrow> sym_type \<Rightarrow> symheap \<Rightarrow> (nat \<times> symheap) outcome" where
  "sym_new_and_prepend_decl t d ty h =
     bindE (sym_new d ty h) (\<lambda>(s, h). bindE (symtab_add_to_scope2 t d True h) (\<lambda>h. Inr (s, h)))"

definition symtab_rm_parent :: "nat \<Rightarrow> symheap \<Rightarrow> symheap outcome" where
  "symtab_rm_parent child h =
     bindE (tab h child) (\<lambda>c.
       case st_parent c of
         None \<Rightarrow> Inl Null_deref
       | Some p \<Rightarrow>
         bindE (tab h p) (\<lambda>s.
           Inr (put_tab child (c\<lparr>st_parent := None\<rparr>)
                 (put_tab p (s\<lparr>st_children := remove1 child (st_children s)\<rparr>) h))))"

definition symtab_set_parent :: "nat \<Rightarrow> nat \<Rightarrow> symheap \<Rightarrow> symheap outcome" where
  "symtab_set_parent child parent h =
     bindE (tab h child) (\<lambda>c.
     bindE (if st_parent c \<noteq> None then symtab_rm_parent child h else Inr h) (\<lambda>h.
     bindE (tab h child) (\<lambda>c.
     let h = put_tab child (c\<lparr>st_parent := Some parent\<rparr>) h in
     bindE (tab h parent) (\<lambda>s. Inr (put_tab parent (s\<lparr>st_children := st_children s @ [child]\<rparr>) h)))))"

definition symtab_new :: "nat option \<Rightarrow> symheap \<Rightarrow> (nat \<times> symheap) outcome" where
  "symtab_new parent h =
     (let p = length (sh_tabs h); h = h\<lparr>sh_tabs := sh_tabs h @ [empty_tab]\<rparr> in
      case parent of
        None \<Rightarrow> Inl (Assert_failed ''no parent for symtable'')
      | Some par \<Rightarrow> bindE (symtab_set_parent p par h) (\<lambda>h. Inr (p, h)))"

definition symtab_new_transparent :: "nat option \<Rightarrow> symheap \<Rightarrow> (nat \<times> symheap) outcome" where
  "symtab_new_transparent parent h =
     bindE (symtab_new parent h) (\<lambda>(p, h).
     bindE (tab h p) (\<lambda>s. Inr (p, put_tab p (s\<lparr>st_transparent := True\<rparr>) h)))"

definition symtabg_new :: "symheap \<Rightarrow> nat \<times> symheap" where
  "symtabg_new h = (length (sh_tabs h), h\<lparr>sh_tabs := sh_tabs h @ [empty_tab]\<rparr>)"

section \<open>Walking the tables\<close>

primrec root_n :: "nat \<Rightarrow> symheap \<Rightarrow> nat \<Rightarrow> nat outcome" where
  "root_n 0 h t = Inl Out_of_fuel"
| "root_n (Suc n) h t =
     bindE (tab h t) (\<lambda>s. case st_parent s of None \<Rightarrow> Inr t | Some p \<Rightarrow> root_n n h p)"

definition symtab_root :: "symheap \<Rightarrow> nat \<Rightarrow> nat outcome" where
  "symtab_root h t = root_n (Suc (length (sh_tabs h))) h t"

primrec func_root_n :: "nat \<Rightarrow> symheap \<Rightarrow> nat \<Rightarrow> nat outcome" where
  "func_root_n 0 h t = Inl Out_of_fuel"
| "func_root_n (Suc n) h t =
     bindE (tab h t) (\<lambda>s.
       case st_parent s of
         None \<Rightarrow> Inr t
       | Some p \<Rightarrow> bindE (tab h p) (\<lambda>sp. if st_parent sp = None then Inr t else func_root_n n h p))"

definition symtab_func_root :: "symheap \<Rightarrow> nat \<Rightarrow> nat outcome" where
  "symtab_func_root h t = func_root_n (Suc (length (sh_tabs h))) h t"

primrec nested_internal_n :: "nat \<Rightarrow> symheap \<Rightarrow> nat \<Rightarrow> nat option \<Rightarrow> bool outcome" where
  "nested_internal_n 0 h parent nest = Inl Out_of_fuel"
| "nested_internal_n (Suc n) h parent nest =
     (case nest of
        None \<Rightarrow> Inr False
      | Some t \<Rightarrow>
        bindE (tab h t) (\<lambda>s.
          if \<not> st_internal_nest s then Inr False
          else if st_parent s = Some parent then Inr True
          else nested_internal_n n h parent (st_parent s)))"

definition symtab_nested_internal :: "symheap \<Rightarrow> nat \<Rightarrow> nat option \<Rightarrow> bool outcome" where
  "symtab_nested_internal h parent nest = nested_internal_n (length (sh_tabs h) + 2) h parent nest"

text \<open>\<^verbatim>\<open>sue_member_find\<close> on an enum, and the enums of one table.\<close>

definition enum_member_find :: "tag \<Rightarrow> string \<Rightarrow> nat option" where
  "enum_member_find g spel =
     (let i = length (takeWhile (\<lambda>s. s \<noteq> spel) (tg_enumerators g)) in
      if i < length (tg_enumerators g) then Some i else None)"

primrec enum_member_search_nodescend :: "symheap \<Rightarrow> nat list \<Rightarrow> string \<Rightarrow> (nat \<times> nat) option outcome" where
  "enum_member_search_nodescend h [] spel = Inr None"
| "enum_member_search_nodescend h (e # es) spel =
     (if length (sh_tags h) \<le> e then Inl Out_of_bounds
      else if tg_primitive (sh_tags h ! e) = type_enum then
        (case enum_member_find (sh_tags h ! e) spel of
           Some m \<Rightarrow> Inr (Some (e, m))
         | None \<Rightarrow> enum_member_search_nodescend h es spel)
      else enum_member_search_nodescend h es spel)"

text \<open>What a name stands for, and the table that owns it.\<close>

datatype symtab_entry = Ent_decl nat nat | Ent_enum nat nat nat

text \<open>The declarations of one table, from the last on.\<close>

primrec decl_search :: "symheap \<Rightarrow> nat list \<Rightarrow> string \<Rightarrow> nat option \<Rightarrow> nat option outcome" where
  "decl_search h [] spel excl = Inr None"
| "decl_search h (d # ds) spel excl =
     bindE (decl_at h d) (\<lambda>dc.
       if Some d \<noteq> excl \<and> dcl_spel dc = Some spel then Inr (Some d) else decl_search h ds spel excl)"

primrec search_n :: "nat \<Rightarrow> symheap \<Rightarrow> nat option \<Rightarrow> string \<Rightarrow> nat option \<Rightarrow> symtab_entry option outcome" where
  "search_n 0 h t spel excl = Inl Out_of_fuel"
| "search_n (Suc n) h t spel excl =
     (case t of
        None \<Rightarrow> Inr None
      | Some t \<Rightarrow>
        bindE (tab h t) (\<lambda>s.
        bindE (decl_search h (rev (st_decls s)) spel excl) (\<lambda>d.
          case d of
            Some d \<Rightarrow> Inr (Some (Ent_decl d t))
          | None \<Rightarrow>
            bindE (enum_member_search_nodescend h (st_sues s) spel) (\<lambda>m.
              case m of
                Some (e, i) \<Rightarrow> Inr (Some (Ent_enum e i t))
              | None \<Rightarrow> search_n n h (st_parent s) spel excl))))"

definition symtab_search :: "symheap \<Rightarrow> nat option \<Rightarrow> string \<Rightarrow> nat option \<Rightarrow> symtab_entry option outcome" where
  "symtab_search h t spel excl = search_n (length (sh_tabs h) + 2) h t spel excl"

definition symtab_is_transparent :: "symheap \<Rightarrow> nat \<Rightarrow> bool outcome" where
  "symtab_is_transparent h t =
     bindE (tab h t) (\<lambda>s.
       if st_transparent s then Inr True
       else case st_parent s of None \<Rightarrow> Inr False | Some p \<Rightarrow> bindE (tab h p) (\<lambda>sp. Inr (st_are_params sp)))"

section \<open>Labels\<close>

definition label_init :: "nat \<Rightarrow> symheap \<Rightarrow> symheap outcome" where
  "label_init t h =
     bindE (tab h t) (\<lambda>s.
       if st_labels s \<noteq> None then Inr h else Inr (put_tab t (s\<lparr>st_labels := Some Map.empty\<rparr>) h))"

definition label_new :: "string \<Rightarrow> bool \<Rightarrow> nat \<Rightarrow> symheap \<Rightarrow> nat \<times> symheap" where
  "label_new spel complete scope h =
     (length (sh_labels h),
      h\<lparr>sh_labels := sh_labels h @ [\<lparr>lb_spel = spel, lb_complete = complete, lb_scope = scope\<rparr>]\<rparr>)"

definition label_set :: "nat \<Rightarrow> string \<Rightarrow> nat \<Rightarrow> symheap \<Rightarrow> symheap outcome" where
  "label_set t spel l h =
     bindE (tab h t) (\<lambda>s.
       case st_labels s of
         None \<Rightarrow> Inl Null_deref
       | Some m \<Rightarrow>
         if m spel \<noteq> None then Inl (Assert_failed ''!prev'')
         else Inr (put_tab t (s\<lparr>st_labels := Some (m(spel \<mapsto> l))\<rparr>) h))"

definition symtab_label_add_local :: "nat \<Rightarrow> string \<Rightarrow> symheap \<Rightarrow> (bool \<times> symheap) outcome" where
  "symtab_label_add_local t spel h =
     bindE (label_init t h) (\<lambda>h.
     bindE (tab h t) (\<lambda>s.
       if Option.bind (st_labels s) (\<lambda>m. m spel) \<noteq> None then Inr (False, h)
       else case label_new spel False t h of (l, h) \<Rightarrow> bindE (label_set t spel l h) (\<lambda>h. Inr (True, h))))"

definition symtab_label_add :: "nat \<Rightarrow> nat \<Rightarrow> symheap \<Rightarrow> symheap outcome" where
  "symtab_label_add t l h =
     bindE (symtab_func_root h t) (\<lambda>t.
     bindE (label_init t h) (\<lambda>h.
     bindE (symtab_func_root h t) (\<lambda>t'.
       if l < length (sh_labels h) then label_set t' (lb_spel (sh_labels h ! l)) l h else Inl Out_of_bounds)))"

primrec label_find_n :: "nat \<Rightarrow> symheap \<Rightarrow> nat option \<Rightarrow> string \<Rightarrow> nat option outcome" where
  "label_find_n 0 h t spel = Inl Out_of_fuel"
| "label_find_n (Suc n) h t spel =
     (case t of
        None \<Rightarrow> Inr None
      | Some t \<Rightarrow>
        bindE (tab h t) (\<lambda>s.
          case Option.bind (st_labels s) (\<lambda>m. m spel) of
            Some l \<Rightarrow> Inr (Some l)
          | None \<Rightarrow> label_find_n n h (st_parent s) spel))"

definition symtab_label_find_or_new :: "nat \<Rightarrow> string \<Rightarrow> symheap \<Rightarrow> (nat \<times> symheap) outcome" where
  "symtab_label_find_or_new t spel h =
     bindE (symtab_func_root h t) (\<lambda>func_root.
     bindE (label_find_n (length (sh_tabs h) + 2) h (Some t) spel) (\<lambda>lbl.
       case lbl of
         Some l \<Rightarrow> Inr (l, h)
       | None \<Rightarrow>
         case label_new spel False t h of (l, h) \<Rightarrow> bindE (symtab_label_add func_root l h) (\<lambda>h. Inr (l, h))))"

section \<open>Symbols\<close>

definition sym_outval :: "csym \<Rightarrow> nat option" where
  "sym_outval s =
     (case sy_type s of
        sym_local \<Rightarrow> if sy_vals s = [] then None else Some (last (sy_vals s))
      | _ \<Rightarrow> sy_val_single s)"

definition sym_setoutval :: "nat option \<Rightarrow> csym \<Rightarrow> csym outcome" where
  "sym_setoutval v s =
     (case sy_type s of
        sym_global \<Rightarrow>
          if (v = None) = (sy_val_single s = None) then Inl (Assert_failed ''!v ^ !s->out.val_single'')
          else Inr (s\<lparr>sy_val_single := v\<rparr>)
      | sym_arg \<Rightarrow> Inr (s\<lparr>sy_val_single := v\<rparr>)
      | sym_local \<Rightarrow>
          (case v of
             None \<Rightarrow> if sy_vals s = [] then Inl (Assert_failed ''empty array'') else Inr (s\<lparr>sy_vals := butlast (sy_vals s)\<rparr>)
           | Some v \<Rightarrow> Inr (s\<lparr>sy_vals := sy_vals s @ [v]\<rparr>)))"

primrec decls_bytes :: "tenv \<Rightarrow> u32 \<Rightarrow> bool \<Rightarrow> symheap \<Rightarrow> nat list \<Rightarrow> (u32 \<times> bool) outcome" where
  "decls_bytes env vla_cost array_only h [] = Inr (0, False)"
| "decls_bytes env vla_cost array_only h (d # ds) =
     bindE (decl_at h d) (\<lambda>dc.
     bindE (if array_only then bindE (type_is_array (Some (mb_ref (dcl_member dc)))) (\<lambda>a. Inr (a = None)) else Inr False) (\<lambda>skip.
     bindE (if skip then Inr 0
            else bindE (type_is_variably_modified (mb_ref (dcl_member dc))) (\<lambda>vm.
              if vm then Inr vla_cost else decl_size env (dcl_member dc))) (\<lambda>n.
     bindE (decls_bytes env vla_cost array_only h ds) (\<lambda>(total, addr).
       Inr (n + total, dcl_addressed dc \<or> addr)))))"

text \<open>The sum over a tree of tables; \<open>n\<close> bounds its height.\<close>

fun symtab_decl_bytes :: "nat \<Rightarrow> tenv \<Rightarrow> u32 \<Rightarrow> bool \<Rightarrow> symheap \<Rightarrow> nat list \<Rightarrow> (u32 \<times> bool) outcome" where
  "symtab_decl_bytes n env vla_cost array_only h [] = Inr (0, False)"
| "symtab_decl_bytes 0 env vla_cost array_only h (t # ts) = Inl Out_of_fuel"
| "symtab_decl_bytes (Suc n) env vla_cost array_only h (t # ts) =
     bindE (tab h t) (\<lambda>s.
     bindE (decls_bytes env vla_cost array_only h (st_decls s)) (\<lambda>(a, addr).
     bindE (symtab_decl_bytes n env vla_cost array_only h (st_children s)) (\<lambda>(b, addr').
     bindE (symtab_decl_bytes (Suc n) env vla_cost array_only h ts) (\<lambda>(c, addr'').
       Inr (a + b + c, addr \<or> addr' \<or> addr'')))))"

section \<open>Scoping\<close>

text \<open>
  A parent is older than its children, the indices are valid, and a transparent table is empty
  and has a parent.
\<close>

definition wf_tab :: "symheap \<Rightarrow> nat \<Rightarrow> bool" where
  "wf_tab h t \<longleftrightarrow>
     (let s = sh_tabs h ! t in
      (case st_parent s of None \<Rightarrow> \<not> st_transparent s | Some p \<Rightarrow> p < t) \<and>
      list_all (\<lambda>d. d < length (sh_decls h)) (st_decls s) \<and>
      list_all (\<lambda>e. e < length (sh_tags h)) (st_sues s) \<and>
      (st_transparent s \<longrightarrow> st_decls s = [] \<and> st_sues s = []))"

definition wf_heap :: "symheap \<Rightarrow> bool" where
  "wf_heap h \<longleftrightarrow> list_all (wf_tab h) [0..<length (sh_tabs h)]"

text \<open>What one table declares a name as, and what the name means inside it.\<close>

definition frame :: "symheap \<Rightarrow> nat \<Rightarrow> string \<Rightarrow> symtab_entry option" where
  "frame h t w =
     (case find (\<lambda>d. dcl_spel (sh_decls h ! d) = Some w) (rev (st_decls (sh_tabs h ! t))) of
        Some d \<Rightarrow> Some (Ent_decl d t)
      | None \<Rightarrow>
        (case find (\<lambda>e. tg_primitive (sh_tags h ! e) = type_enum \<and> w \<in> set (tg_enumerators (sh_tags h ! e)))
                (st_sues (sh_tabs h ! t)) of
           Some e \<Rightarrow> Some (Ent_enum e (length (takeWhile (\<lambda>s. s \<noteq> w) (tg_enumerators (sh_tags h ! e)))) t)
         | None \<Rightarrow> None))"

function meaning :: "symheap \<Rightarrow> nat \<Rightarrow> string \<Rightarrow> symtab_entry option" where
  "meaning h t w =
     (case frame h t w of
        Some e \<Rightarrow> Some e
      | None \<Rightarrow> (case st_parent (sh_tabs h ! t) of Some p \<Rightarrow> if p < t then meaning h p w else None | None \<Rightarrow> None))"
  by pat_completeness auto
termination by (relation "measure (\<lambda>(h, t, w). t)") auto

declare meaning.simps [simp del]

lemma wf_heapD: "wf_heap h \<Longrightarrow> t < length (sh_tabs h) \<Longrightarrow> wf_tab h t"
  by (simp add: wf_heap_def list_all_iff)

lemma wf_parent: "wf_heap h \<Longrightarrow> t < length (sh_tabs h) \<Longrightarrow> st_parent (sh_tabs h ! t) = Some p \<Longrightarrow> p < t"
  using wf_heapD [of h t] by (simp add: wf_tab_def Let_def)

lemma decl_search_find:
  "list_all (\<lambda>d. d < length (sh_decls h)) ds \<Longrightarrow>
   decl_search h ds w None = Inr (find (\<lambda>d. dcl_spel (sh_decls h ! d) = Some w) ds)"
  by (induction ds) (simp_all add: decl_at_def)

lemma takeWhile_in: "length (takeWhile (\<lambda>s. s \<noteq> w) xs) < length xs \<longleftrightarrow> w \<in> set xs"
  by (induction xs) auto

lemma enum_search_find:
  "list_all (\<lambda>e. e < length (sh_tags h)) es \<Longrightarrow>
   enum_member_search_nodescend h es w =
     Inr (map_option (\<lambda>e. (e, length (takeWhile (\<lambda>s. s \<noteq> w) (tg_enumerators (sh_tags h ! e)))))
       (find (\<lambda>e. tg_primitive (sh_tags h ! e) = type_enum \<and> w \<in> set (tg_enumerators (sh_tags h ! e))) es))"
  by (induction es) (auto simp: enum_member_find_def Let_def takeWhile_in)

lemma search_n_meaning:
  assumes "wf_heap h" "t < length (sh_tabs h)" "t + 2 \<le> n"
  shows "search_n n h (Some t) w None = Inr (meaning h t w)"
  using assms(2,3)
proof (induction t arbitrary: n rule: less_induct)
  case (less t)
  obtain m where n: "n = Suc m" "m \<noteq> 0" using less.prems(2) by (cases n) auto
  let ?s = "sh_tabs h ! t"
  have w: "list_all (\<lambda>d. d < length (sh_decls h)) (rev (st_decls ?s))" "list_all (\<lambda>e. e < length (sh_tags h)) (st_sues ?s)"
    using wf_heapD [OF assms(1) less.prems(1)] by (simp_all add: wf_tab_def Let_def list_all_iff)
  have up: "search_n m h (st_parent ?s) w None =
      Inr (case st_parent ?s of Some p \<Rightarrow> if p < t then meaning h p w else None | None \<Rightarrow> None)"
  proof (cases "st_parent ?s")
    case None
    then show ?thesis using n by (cases m) auto
  next
    case (Some p)
    then have "p < t" using wf_parent [OF assms(1) less.prems(1)] by simp
    then show ?thesis using less.IH [of p m] less.prems n Some by simp
  qed
  show ?case
    using less.prems(1) n up
    by (simp add: tab_def decl_search_find [OF w(1)] enum_search_find [OF w(2)] meaning.simps [of h t] frame_def
        split: option.split)
qed

lemma symtab_search_meaning:
  "wf_heap h \<Longrightarrow> t < length (sh_tabs h) \<Longrightarrow> symtab_search h (Some t) w None = Inr (meaning h t w)"
  unfolding symtab_search_def by (rule search_n_meaning) auto

text \<open>The table \<open>t\<close> is \<open>a\<close> or inside it.\<close>

function within :: "symheap \<Rightarrow> nat \<Rightarrow> nat \<Rightarrow> bool" where
  "within h t a \<longleftrightarrow>
     t = a \<or> (case st_parent (sh_tabs h ! t) of Some p \<Rightarrow> if p < t then within h p a else False | None \<Rightarrow> False)"
  by pat_completeness auto
termination by (relation "measure (\<lambda>(h, t, a). t)") auto

declare within.simps [simp del]

lemma within_self [simp]: "within h t t"
  by (simp add: within.simps)

lemma within_le: "within h t v \<Longrightarrow> v \<le> t"
proof (induction t rule: less_induct)
  case (less t)
  have "v \<le> p" if "p < t" "within h p v" for p using less.IH that .
  then show ?case using less.prems unfolding within.simps [of h t] by (fastforce split: option.splits if_splits)
qed

text \<open>Tables with the same parents and frames give names the same meaning.\<close>

lemma meaning_cong:
  assumes "\<And>v. within h u v \<Longrightarrow> frame h' v w = frame h v w \<and> st_parent (sh_tabs h' ! v) = st_parent (sh_tabs h ! v)"
  shows "meaning h' u w = meaning h u w"
  using assms
proof (induction u rule: less_induct)
  case (less u)
  have here: "frame h' u w = frame h u w" "st_parent (sh_tabs h' ! u) = st_parent (sh_tabs h ! u)"
    using less.prems [of u] by simp_all
  have "meaning h' p w = meaning h p w" if "st_parent (sh_tabs h ! u) = Some p" "p < u" for p
    by (rule less.IH [OF that(2)]) (rule less.prems, simp add: within.simps [of h u] that)
  then show ?case using here by (simp add: meaning.simps [of h' u] meaning.simps [of h u] split: option.split)
qed

text \<open>A transparent table passes on to the table that declarations are added to.\<close>

lemma add_target_props:
  assumes "wf_heap h" "t < length (sh_tabs h)" "t < n"
  shows "\<exists>a. add_target n h t = Inr a \<and> a \<le> t \<and> \<not> st_transparent (sh_tabs h ! a) \<and>
    (\<forall>v. within h t v \<longrightarrow> a < v \<longrightarrow> st_transparent (sh_tabs h ! v)) \<and> within h t a"
  using assms(2,3)
proof (induction t arbitrary: n rule: less_induct)
  case (less t)
  obtain m where n: "n = Suc m" using less.prems(2) by (cases n) auto
  show ?case
  proof (cases "st_transparent (sh_tabs h ! t)")
    case False
    then show ?thesis using n less.prems(1) within_le [of h t] by (fastforce simp: tab_def intro!: exI [of _ t])
  next
    case True
    then obtain p where p: "st_parent (sh_tabs h ! t) = Some p" "p < t"
      using wf_heapD [OF assms(1) less.prems(1)] by (auto simp: wf_tab_def Let_def split: option.splits)
    then obtain a where "add_target m h p = Inr a" "a \<le> p" "\<not> st_transparent (sh_tabs h ! a)"
      "\<And>v. within h p v \<Longrightarrow> a < v \<Longrightarrow> st_transparent (sh_tabs h ! v)" "within h p a"
      using less.IH [of p m] less.prems n by auto
    then show ?thesis using True n p less.prems(1)
      by (intro exI [of _ a]) (auto simp: tab_def within.simps [of h t])
  qed
qed

lemma symtab_add_target_props:
  assumes "wf_heap h" "t < length (sh_tabs h)"
  obtains a where "symtab_add_target h t = Inr a" "a \<le> t" "\<not> st_transparent (sh_tabs h ! a)" "within h t a"
    "\<And>v. within h t v \<Longrightarrow> a < v \<Longrightarrow> st_transparent (sh_tabs h ! v)"
  using add_target_props [OF assms, of "Suc (length (sh_tabs h))"] assms(2) unfolding symtab_add_target_def by auto

lemma frame_transparent:
  "wf_heap h \<Longrightarrow> t < length (sh_tabs h) \<Longrightarrow> st_transparent (sh_tabs h ! t) \<Longrightarrow> frame h t w = None"
  using wf_heapD [of h t] by (simp add: wf_tab_def Let_def frame_def)

lemma meaning_target:
  assumes "wf_heap h" "t < length (sh_tabs h)" "within h t a"
    "\<And>v. within h t v \<Longrightarrow> a < v \<Longrightarrow> st_transparent (sh_tabs h ! v)"
  shows "meaning h t w = meaning h a w"
  using assms(2-4)
proof (induction t rule: less_induct)
  case (less t)
  show ?case
  proof (cases "t = a")
    case False
    then obtain p where p: "st_parent (sh_tabs h ! t) = Some p" "p < t" "within h p a"
      using less.prems(2) by (subst (asm) within.simps) (auto split: option.splits if_splits)
    have "a \<le> p" using within_le [OF p(3)] .
    then have "st_transparent (sh_tabs h ! t)" using less.prems(3) [of t] p(2) by simp
    moreover have "meaning h p w = meaning h a w"
      using less.IH [OF p(2)] p less.prems by (simp add: within.simps [of h t])
    ultimately show ?thesis
      using frame_transparent [OF assms(1) less.prems(1)] p by (simp add: meaning.simps [of h t])
  qed simp
qed

lemma put_tab_simps [simp]:
  "length (sh_tabs (put_tab t s h)) = length (sh_tabs h)" "sh_decls (put_tab t s h) = sh_decls h"
  "sh_tags (put_tab t s h) = sh_tags h" "sh_labels (put_tab t s h) = sh_labels h"
  "u \<noteq> t \<Longrightarrow> sh_tabs (put_tab t s h) ! u = sh_tabs h ! u"
  "t < length (sh_tabs h) \<Longrightarrow> sh_tabs (put_tab t s h) ! t = s"
  by (simp_all add: put_tab_def)

lemma wf_put_tab:
  assumes "wf_heap h" "t < length (sh_tabs h)" "wf_tab (put_tab t s h) t"
  shows "wf_heap (put_tab t s h)"
proof -
  have "wf_tab (put_tab t s h) u" if "u < length (sh_tabs h)" for u
    using assms(3) wf_heapD [OF assms(1) that] by (cases "u = t") (simp_all add: wf_tab_def)
  then show ?thesis by (simp add: wf_heap_def list_all_iff)
qed

lemma frame_put_tab_other: "u \<noteq> t \<Longrightarrow> frame (put_tab t s h) u w = frame h u w"
  by (simp add: frame_def cong: option.case_cong)

text \<open>A declaration at the end of a table is what the table says of its name, and of no other.\<close>

lemma frame_add_decl:
  assumes "a < length (sh_tabs h)" "dcl_spel (sh_decls h ! d) = Some w"
  shows "frame (put_tab a ((sh_tabs h ! a)\<lparr>st_decls := st_decls (sh_tabs h ! a) @ [d]\<rparr>) h) a w' =
    (if w' = w then Some (Ent_decl d a) else frame h a w')"
  using assms by (auto simp: frame_def cong: option.case_cong)

lemma add_decl_scoping:
  assumes "wf_heap h" "t < length (sh_tabs h)" "d < length (sh_decls h)" "dcl_spel (sh_decls h ! d) = Some w"
  shows "\<exists>a h'. symtab_add_target h t = Inr a \<and> symtab_add_to_scope t d h = Inr h' \<and> wf_heap h' \<and>
    length (sh_tabs h') = length (sh_tabs h) \<and> meaning h' t w = Some (Ent_decl d a) \<and>
    (\<forall>u w'. w' \<noteq> w \<or> \<not> within h u a \<longrightarrow> meaning h' u w' = meaning h u w')"
proof -
  obtain a where a: "symtab_add_target h t = Inr a" "a \<le> t" "\<not> st_transparent (sh_tabs h ! a)" "within h t a"
    "\<And>v. within h t v \<Longrightarrow> a < v \<Longrightarrow> st_transparent (sh_tabs h ! v)"
    by (rule symtab_add_target_props [OF assms(1,2)]) blast
  let ?s = "(sh_tabs h ! a)\<lparr>st_decls := st_decls (sh_tabs h ! a) @ [d]\<rparr>" let ?h = "put_tab a ?s h"
  have al: "a < length (sh_tabs h)" using a(2) assms(2) by simp
  have add: "symtab_add_to_scope t d h = Inr ?h"
    using a(1) al by (simp add: symtab_add_to_scope_def symtab_add_to_scope2_def tab_def)
  have wf: "wf_heap ?h"
    using wf_heapD [OF assms(1) al] a(3) assms(3) al
    by (intro wf_put_tab [OF assms(1) al]) (simp add: wf_tab_def Let_def split: option.splits)
  have par: "st_parent (sh_tabs ?h ! v) = st_parent (sh_tabs h ! v)" for v using al by (cases "v = a") simp_all
  have wth: "within ?h u v = within h u v" for u v
  proof (induction u rule: less_induct)
    case (less u)
    then show ?case by (simp add: within.simps [of ?h u] within.simps [of h u] par split: option.split)
  qed
  have tr: "st_transparent (sh_tabs ?h ! v) = st_transparent (sh_tabs h ! v)" for v using al by (cases "v = a") simp_all
  have "meaning ?h t w = meaning ?h a w"
    using a(4,5) assms(2) by (intro meaning_target [OF wf]) (simp_all add: wth tr)
  then have now: "meaning ?h t w = Some (Ent_decl d a)"
    using frame_add_decl [OF al assms(4), of w] by (simp add: meaning.simps [of ?h a])
  have "meaning ?h u w' = meaning h u w'" if "w' \<noteq> w \<or> \<not> within h u a" for u w'
  proof (rule meaning_cong)
    fix v assume v: "within h u v"
    have "frame ?h v w' = frame h v w'"
      using that v frame_add_decl [OF al assms(4), of w'] by (cases "v = a") (auto simp: frame_put_tab_other)
    then show "frame ?h v w' = frame h v w' \<and> st_parent (sh_tabs ?h ! v) = st_parent (sh_tabs h ! v)" by (simp add: par)
  qed
  then show ?thesis using a(1) add wf now by auto
qed

lemma new_scope_meaning:
  assumes "wf_heap h" "p < length (sh_tabs h)"
  shows "\<exists>h'. symtab_new (Some p) h = Inr (length (sh_tabs h), h') \<and> wf_heap h' \<and>
    length (sh_tabs h') = Suc (length (sh_tabs h)) \<and>
    meaning h' (length (sh_tabs h)) w = meaning h p w \<and> (\<forall>u < length (sh_tabs h). meaning h' u w = meaning h u w)"
proof -
  let ?n = "length (sh_tabs h)"
  let ?s = "(sh_tabs h ! p)\<lparr>st_children := st_children (sh_tabs h ! p) @ [?n]\<rparr>"
  let ?h = "h\<lparr>sh_tabs := (sh_tabs h)[p := ?s] @ [empty_tab\<lparr>st_parent := Some p\<rparr>]\<rparr>"
  have new: "symtab_new (Some p) h = Inr (?n, ?h)"
    using assms(2)
    by (simp add: symtab_new_def symtab_set_parent_def tab_def put_tab_def Let_def nth_append empty_tab_def
        list_update_append)
  have old: "sh_tabs ?h ! u = (if u = p then ?s else sh_tabs h ! u)" if "u < ?n" for u
    using that assms(2) by (simp add: nth_append)
  have top: "sh_tabs ?h ! ?n = empty_tab\<lparr>st_parent := Some p\<rparr>" by (simp add: nth_append)
  have fr: "frame ?h u v = frame h u v" "st_parent (sh_tabs ?h ! u) = st_parent (sh_tabs h ! u)" if "u < ?n" for u v
    using old [OF that] by (simp_all add: frame_def cong: option.case_cong)
  have "wf_tab ?h u" if "u < Suc ?n" for u
  proof (cases "u = ?n")
    case True
    then show ?thesis using assms(2) top by (simp add: wf_tab_def empty_tab_def)
  next
    case False
    then have "u < ?n" using that by simp
    then show ?thesis using wf_heapD [OF assms(1), of u] old [of u]
      by (cases "u = p") (auto simp: wf_tab_def Let_def split: option.splits)
  qed
  then have wf: "wf_heap ?h" by (simp add: wf_heap_def list_all_iff)
  have m: "meaning ?h u w = meaning h u w" if "u < ?n" for u
  proof (rule meaning_cong)
    fix v assume "within h u v"
    then have "v < ?n" using within_le [of h u v] that by simp
    then show "frame ?h v w = frame h v w \<and> st_parent (sh_tabs ?h ! v) = st_parent (sh_tabs h ! v)" using fr by blast
  qed
  have "st_decls empty_tab = []" "st_sues empty_tab = []" by (simp_all add: empty_tab_def)
  then have "frame ?h ?n w = None" using top by (simp add: frame_def)
  then have "meaning ?h ?n w = meaning h p w"
    using m [OF assms(2)] top assms(2) by (simp add: meaning.simps [of ?h ?n])
  then show ?thesis using new wf m by auto
qed


text \<open>
  C14: Block scope.  A declaration added to a table is what its name means there, found in the
  table that is not transparent; names other than its own, and tables outside, are not affected; the
  table stays well formed.  A new table gives every name the meaning it has in its parent.
\<close>

theorem scoping:
  assumes "wf_heap h" "t < length (sh_tabs h)" "d < length (sh_decls h)" "dcl_spel (sh_decls h ! d) = Some w"
  shows "(\<exists>a h'. symtab_add_target h t = Inr a \<and> symtab_add_to_scope t d h = Inr h' \<and> wf_heap h' \<and>
      symtab_search h' (Some t) w None = Inr (Some (Ent_decl d a)) \<and>
      (\<forall>u < length (sh_tabs h). \<forall>w'. w' \<noteq> w \<or> \<not> within h u a \<longrightarrow>
        symtab_search h' (Some u) w' None = symtab_search h (Some u) w' None)) \<and>
    (\<forall>w'. \<exists>n h'. symtab_new (Some t) h = Inr (n, h') \<and> wf_heap h' \<and>
      symtab_search h' (Some n) w' None = symtab_search h (Some t) w' None \<and>
      (\<forall>u < length (sh_tabs h). symtab_search h' (Some u) w' None = symtab_search h (Some u) w' None))"
proof -
  obtain a h' where a: "symtab_add_target h t = Inr a" "symtab_add_to_scope t d h = Inr h'" "wf_heap h'"
    "length (sh_tabs h') = length (sh_tabs h)" "meaning h' t w = Some (Ent_decl d a)"
    "\<forall>u w'. w' \<noteq> w \<or> \<not> within h u a \<longrightarrow> meaning h' u w' = meaning h u w'"
    using add_decl_scoping [OF assms] by blast
  note s = symtab_search_meaning [OF assms(1)] symtab_search_meaning [OF a(3)]
  have "\<exists>n h'. symtab_new (Some t) h = Inr (n, h') \<and> wf_heap h' \<and>
      symtab_search h' (Some n) w' None = symtab_search h (Some t) w' None \<and>
      (\<forall>u < length (sh_tabs h). symtab_search h' (Some u) w' None = symtab_search h (Some u) w' None)" for w'
    using new_scope_meaning [OF assms(1,2), of w'] assms(2)
    by (auto simp: symtab_search_meaning [OF assms(1)] symtab_search_meaning)
  then show ?thesis using a assms(2) by (auto simp: s)
qed

section \<open>Labels of a function\<close>

text \<open>The label that a name stands for in a table: that of the nearest table that has one.\<close>

function label_of :: "symheap \<Rightarrow> nat \<Rightarrow> string \<Rightarrow> nat option" where
  "label_of h t w =
     (case Option.bind (st_labels (sh_tabs h ! t)) (\<lambda>m. m w) of
        Some l \<Rightarrow> Some l
      | None \<Rightarrow> (case st_parent (sh_tabs h ! t) of Some p \<Rightarrow> if p < t then label_of h p w else None | None \<Rightarrow> None))"
  by pat_completeness auto
termination by (relation "measure (\<lambda>(h, t, w). t)") auto

declare label_of.simps [simp del]

lemma label_find_n_label_of:
  assumes "wf_heap h" "t < length (sh_tabs h)" "t + 2 \<le> n"
  shows "label_find_n n h (Some t) w = Inr (label_of h t w)"
  using assms(2,3)
proof (induction t arbitrary: n rule: less_induct)
  case (less t)
  obtain m where n: "n = Suc m" "m \<noteq> 0" using less.prems(2) by (cases n) auto
  have "label_find_n m h (st_parent (sh_tabs h ! t)) w =
      Inr (case st_parent (sh_tabs h ! t) of Some p \<Rightarrow> if p < t then label_of h p w else None | None \<Rightarrow> None)"
  proof (cases "st_parent (sh_tabs h ! t)")
    case None
    then show ?thesis using n by (cases m) auto
  next
    case (Some p)
    then have "p < t" using wf_parent [OF assms(1) less.prems(1)] by simp
    then show ?thesis using less.IH [of p m] less.prems n Some by simp
  qed
  then show ?case using less.prems(1) n by (simp add: tab_def label_of.simps [of h t] split: option.split)
qed

text \<open>The outermost table of a function.\<close>

lemma func_root_props:
  assumes "wf_heap h" "t < length (sh_tabs h)" "t < n"
  shows "\<exists>r. func_root_n n h t = Inr r \<and> r \<le> t \<and> within h t r \<and> func_root_n (Suc r) h r = Inr r"
  using assms(2,3)
proof (induction t arbitrary: n rule: less_induct)
  case (less t)
  obtain m where n: "n = Suc m" using less.prems(2) by (cases n) auto
  show ?case
  proof (cases "\<exists>p q. st_parent (sh_tabs h ! t) = Some p \<and> st_parent (sh_tabs h ! p) = Some q")
    case True
    then obtain p where p: "st_parent (sh_tabs h ! t) = Some p" "st_parent (sh_tabs h ! p) \<noteq> None" by blast
    have lt: "p < t" using wf_parent [OF assms(1) less.prems(1) p(1)] .
    then obtain r where "func_root_n m h p = Inr r" "r \<le> p" "within h p r" "func_root_n (Suc r) h r = Inr r"
      using less.IH [OF lt, of m] less.prems n by auto
    then show ?thesis using p lt less.prems(1) n
      by (intro exI [of _ r]) (auto simp: tab_def within.simps [of h t])
  next
    case False
    have "p < length (sh_tabs h)" if "st_parent (sh_tabs h ! t) = Some p" for p
      using wf_parent [OF assms(1) less.prems(1) that] less.prems(1) by simp
    then have "func_root_n (Suc k) h t = Inr t" for k
      using False less.prems(1) by (auto simp: tab_def split: option.splits)
    then show ?thesis using n by auto
  qed
qed

lemma func_root_fuel:
  assumes "wf_heap h" "t < length (sh_tabs h)" "t < n" "t < m"
  shows "func_root_n n h t = func_root_n m h t"
  using assms(2-4)
proof (induction t arbitrary: n m rule: less_induct)
  case (less t)
  obtain n' m' where e: "n = Suc n'" "m = Suc m'" using less.prems by (cases n; cases m) auto
  have "func_root_n n' h p = func_root_n m' h p" if "st_parent (sh_tabs h ! t) = Some p" for p
    using wf_parent [OF assms(1) less.prems(1) that] less.IH [of p n' m'] less.prems e by simp
  then show ?case using less.prems(1) by (simp add: e tab_def split: option.splits)
qed

lemma symtab_func_root_props:
  assumes "wf_heap h" "t < length (sh_tabs h)"
  obtains r where "symtab_func_root h t = Inr r" "r \<le> t" "within h t r" "symtab_func_root h r = Inr r"
proof -
  let ?n = "Suc (length (sh_tabs h))"
  obtain r where r: "func_root_n ?n h t = Inr r" "r \<le> t" "within h t r" "func_root_n (Suc r) h r = Inr r"
    using func_root_props [OF assms, of ?n] assms(2) by auto
  moreover have "func_root_n ?n h r = func_root_n (Suc r) h r"
    using r(2) assms(2) by (intro func_root_fuel [OF assms(1)]) auto
  ultimately show ?thesis using that unfolding symtab_func_root_def by metis
qed

text \<open>Heaps with the same tree of tables.\<close>

definition same_tree :: "symheap \<Rightarrow> symheap \<Rightarrow> bool" where
  "same_tree h h' \<longleftrightarrow> map st_parent (sh_tabs h') = map st_parent (sh_tabs h)"

lemma same_tree_parent:
  assumes "same_tree h h'"
  shows "length (sh_tabs h') = length (sh_tabs h)"
    "t < length (sh_tabs h) \<Longrightarrow> st_parent (sh_tabs h' ! t) = st_parent (sh_tabs h ! t)"
proof -
  show l: "length (sh_tabs h') = length (sh_tabs h)"
    using arg_cong [OF assms [unfolded same_tree_def], of length] by simp
  show "t < length (sh_tabs h) \<Longrightarrow> st_parent (sh_tabs h' ! t) = st_parent (sh_tabs h ! t)"
    using arg_cong [OF assms [unfolded same_tree_def], of "\<lambda>xs. xs ! t"] l by simp
qed

lemma same_tree_func_root:
  assumes "same_tree h h'" shows "func_root_n n h' t = func_root_n n h t"
proof (induction n arbitrary: t)
  case (Suc n)
  note par = same_tree_parent [OF assms]
  have "(case st_parent (sh_tabs h ! t) of None \<Rightarrow> Inr t
      | Some p \<Rightarrow> bindE (tab h' p) (\<lambda>sp. if st_parent sp = None then Inr t else func_root_n n h' p)) =
    (case st_parent (sh_tabs h ! t) of None \<Rightarrow> Inr t
      | Some p \<Rightarrow> bindE (tab h p) (\<lambda>sp. if st_parent sp = None then Inr t else func_root_n n h p))"
    using Suc par by (simp add: tab_def split: option.split)
  then show ?case using par by (simp add: tab_def)
qed simp

lemma same_tree_symtab_func_root: "same_tree h h' \<Longrightarrow> symtab_func_root h' t = symtab_func_root h t"
  by (simp add: symtab_func_root_def same_tree_func_root same_tree_parent(1) del: func_root_n.simps)

lemma same_tree_put_tab:
  "t < length (sh_tabs h) \<Longrightarrow> st_parent s = st_parent (sh_tabs h ! t) \<Longrightarrow> same_tree h (put_tab t s h)"
  unfolding same_tree_def put_tab_def by (intro nth_equalityI) (auto simp: nth_list_update)

lemma label_of_none_within:
  "label_of h t w = None \<Longrightarrow> within h t r \<Longrightarrow> Option.bind (st_labels (sh_tabs h ! r)) (\<lambda>m. m w) = None"
proof (induction t rule: less_induct)
  case (less t)
  have up: "Option.bind (st_labels (sh_tabs h ! r)) (\<lambda>m. m w) = None" if "p < t" "label_of h p w = None" "within h p r" for p
    using less.IH that .
  show ?case using less.prems up unfolding label_of.simps [of h t] within.simps [of h t]
    by (auto split: option.splits if_splits)
qed

text \<open>A label added to the table \<open>r\<close> is found from everywhere inside, unless a nearer one is.\<close>

lemma label_of_added:
  assumes "u < length (sh_tabs h)" "r < length (sh_tabs h)" "st_labels (sh_tabs h ! r) = Some m" "within h u r" "label_of h u w = None"
    "st_parent s = st_parent (sh_tabs h ! r)" "st_labels s = Some (m(w \<mapsto> l))"
  shows "label_of (put_tab r s h) u w = Some l"
  using assms(1,4,5)
proof (induction u rule: less_induct)
  case (less u)
  show ?case
  proof (cases "u = r")
    case True
    then show ?thesis using assms(2,7) by (simp add: label_of.simps [of _ r])
  next
    case False
    then obtain p where p: "st_parent (sh_tabs h ! u) = Some p" "p < u" "within h p r"
      using less.prems(2) unfolding within.simps [of h u] by (auto split: option.splits if_splits)
    have none: "Option.bind (st_labels (sh_tabs h ! u)) (\<lambda>m. m w) = None" "label_of h p w = None"
      using less.prems(3) p unfolding label_of.simps [of h u] by (auto split: option.splits)
    then have "label_of (put_tab r s h) p w = Some l" using less.IH [OF p(2)] p less.prems(1) by simp
    then show ?thesis using False none(1) p by (simp add: label_of.simps [of _ u])
  qed
qed


lemma label_init_props:
  assumes "r < length (sh_tabs h)" "wf_heap h"
  obtains h' m where "label_init r h = Inr h'" "wf_heap h'" "same_tree h h'" "sh_labels h' = sh_labels h"
    "st_labels (sh_tabs h' ! r) = Some m" "\<And>w. Option.bind (st_labels (sh_tabs h ! r)) (\<lambda>m. m w) = m w"
    "\<And>u w. u < length (sh_tabs h) \<Longrightarrow> label_of h' u w = label_of h u w" "\<And>u v. within h' u v = within h u v"
proof (cases "st_labels (sh_tabs h ! r)")
  case (Some m)
  then show ?thesis using that [of h m] assms by (simp add: label_init_def tab_def same_tree_def)
next
  case None
  let ?s = "(sh_tabs h ! r)\<lparr>st_labels := Some Map.empty\<rparr>" let ?h = "put_tab r ?s h"
  have tree: "same_tree h ?h" using assms(1) by (intro same_tree_put_tab) simp_all
  have par: "st_parent (sh_tabs ?h ! v) = st_parent (sh_tabs h ! v)" for v using assms(1) by (cases "v = r") simp_all
  have lb: "Option.bind (st_labels (sh_tabs ?h ! v)) (\<lambda>m. m w) = Option.bind (st_labels (sh_tabs h ! v)) (\<lambda>m. m w)" for v w
    using assms(1) None by (cases "v = r") simp_all
  have lo: "label_of ?h u w = label_of h u w" for u w
  proof (induction u rule: less_induct)
    case (less u)
    then show ?case by (simp add: label_of.simps [of ?h u] label_of.simps [of h u] par lb split: option.split)
  qed
  have wi: "within ?h u v = within h u v" for u v
  proof (induction u rule: less_induct)
    case (less u)
    then show ?case by (simp add: within.simps [of ?h u] within.simps [of h u] par split: option.split)
  qed
  have "wf_heap ?h"
    using wf_heapD [OF assms(2,1)] assms by (intro wf_put_tab) (simp_all add: wf_tab_def Let_def split: option.splits)
  then show ?thesis using that [of ?h Map.empty] None assms(1) tree lo wi by (simp add: label_init_def tab_def)
qed

lemma sh_labels_irrelevant:
  "label_of (sh_labels_update f h) u w = label_of h u w" "within (sh_labels_update f h) u v = within h u v"
  "wf_heap (sh_labels_update f h) = wf_heap h"
proof -
  show "label_of (sh_labels_update f h) u w = label_of h u w"
  proof (induction u rule: less_induct)
    case (less u)
    then show ?case by (simp add: label_of.simps [of "sh_labels_update f h" u] label_of.simps [of h u] split: option.split)
  qed
  show "within (sh_labels_update f h) u v = within h u v"
  proof (induction u rule: less_induct)
    case (less u)
    then show ?case by (simp add: within.simps [of "sh_labels_update f h" u] within.simps [of h u] split: option.split)
  qed
  show "wf_heap (sh_labels_update f h) = wf_heap h" by (simp add: wf_heap_def wf_tab_def list_all_iff)
qed

text \<open>The first use of a label makes it, in the outermost table of the function.\<close>

lemma label_new_added:
  assumes "wf_heap h" "t < length (sh_tabs h)" "label_of h t w = None" "symtab_func_root h t = Inr r"
  obtains h' where "symtab_label_find_or_new t w h = Inr (length (sh_labels h), h')" "wf_heap h'" "same_tree h h'"
    "lb_spel (sh_labels h' ! length (sh_labels h)) = w"
    "\<And>u. u < length (sh_tabs h) \<Longrightarrow> within h u r \<Longrightarrow> label_of h u w = None \<Longrightarrow> label_of h' u w = Some (length (sh_labels h))"
proof -
  let ?l = "length (sh_labels h)"
  let ?h1 = "h\<lparr>sh_labels := sh_labels h @ [\<lparr>lb_spel = w, lb_complete = False, lb_scope = t\<rparr>]\<rparr>"
  obtain r' where r': "symtab_func_root h t = Inr r'" "r' \<le> t" "within h t r'" "symtab_func_root h r' = Inr r'"
    by (rule symtab_func_root_props [OF assms(1,2)])
  then have r: "r' = r" "r < length (sh_tabs h)" "within h t r" "symtab_func_root h r = Inr r" using assms(2,4) by simp_all
  have tree1: "same_tree h ?h1" by (simp add: same_tree_def)
  note same = sh_labels_irrelevant [where h = h]
  obtain h2 m where h2: "label_init r ?h1 = Inr h2" "wf_heap h2" "same_tree ?h1 h2" "sh_labels h2 = sh_labels ?h1"
    "st_labels (sh_tabs h2 ! r) = Some m" "\<And>w. Option.bind (st_labels (sh_tabs ?h1 ! r)) (\<lambda>m. m w) = m w"
    "\<And>u w. u < length (sh_tabs ?h1) \<Longrightarrow> label_of h2 u w = label_of ?h1 u w" "\<And>u v. within h2 u v = within ?h1 u v"
    using label_init_props [of r ?h1] r(2) assms(1) by (auto simp: same)
  have m: "m w = None" using label_of_none_within [OF assms(3) r(3)] h2(6) [of w] by simp
  let ?s = "(sh_tabs h2 ! r)\<lparr>st_labels := Some (m(w \<mapsto> ?l))\<rparr>" let ?h = "put_tab r ?s h2"
  have rl: "r < length (sh_tabs h2)" using r(2) same_tree_parent(1) [OF h2(3)] by simp
  have fr: "symtab_func_root ?h1 r = Inr r" "symtab_func_root h2 r = Inr r"
    using r(4) same_tree_symtab_func_root [OF tree1] same_tree_symtab_func_root [OF h2(3)] by simp_all
  have "symtab_label_add r ?l ?h1 = Inr ?h"
    using fr h2(1,4,5) m rl by (simp add: symtab_label_add_def label_set_def tab_def)
  then have call: "symtab_label_find_or_new t w h = Inr (?l, ?h)"
    using label_find_n_label_of [OF assms(1,2), of "length (sh_tabs h) + 2" w] assms(2-4)
    by (simp add: symtab_label_find_or_new_def label_new_def del: label_find_n.simps)
  have wf: "wf_heap ?h"
    using wf_heapD [OF h2(2) rl] rl h2(2)
    by (intro wf_put_tab) (simp_all add: wf_tab_def Let_def split: option.splits)
  have tree2: "same_tree h2 ?h" using rl by (intro same_tree_put_tab) simp_all
  have tree: "same_tree h ?h" using tree1 tree2 h2(3) by (simp add: same_tree_def)
  have found: "label_of ?h u w = Some ?l" if "u < length (sh_tabs h)" "within h u r" "label_of h u w = None" for u
    using that h2(7) [of u w] h2(8) [of u r] rl r(2) same_tree_parent(1) [OF h2(3)]
    by (intro label_of_added [where m = m]) (simp_all add: same h2(5))
  have "lb_spel (sh_labels ?h ! ?l) = w" by (simp add: h2(4))
  then show ?thesis using that call wf tree found by blast
qed



text \<open>\<^verbatim>\<open>x\<close> at file scope, a function, its block, and a transparent table of a statement in it.\<close>

definition example_decl :: sdecl where
  "example_decl =
     \<lparr>dcl_sym = None, dcl_addressed = False, dcl_typedef = False,
      dcl_member = \<lparr>mb_spel = Some ''x'', mb_ref = T_btype \<lparr>bt_primitive = type_int, bt_sue = None\<rparr>,
        mb_field_width = None, mb_align_resolved = 0, mb_attr = []\<rparr>\<rparr>"

definition example_symheap :: symheap where
  "example_symheap =
     \<lparr>sh_tabs = [empty_tab\<lparr>st_decls := [0], st_children := [1]\<rparr>,
        empty_tab\<lparr>st_parent := Some 0, st_children := [2], st_are_params := True\<rparr>,
        empty_tab\<lparr>st_parent := Some 1, st_children := [3]\<rparr>,
        empty_tab\<lparr>st_parent := Some 2, st_transparent := True\<rparr>],
      sh_decls = [example_decl, example_decl], sh_syms = [], sh_labels = [], sh_tags = []\<rparr>"

lemma example_symheap_wf: "wf_heap example_symheap"
  by code_simp

theorem scoping_witness:
  "\<exists>a h'. symtab_add_target example_symheap 3 = Inr a \<and> symtab_add_to_scope 3 1 example_symheap = Inr h' \<and> wf_heap h' \<and>
     symtab_search h' (Some 3) ''x'' None = Inr (Some (Ent_decl 1 a))"
  using scoping [of example_symheap 3 1 "''x''", OF example_symheap_wf]
  by (auto simp: example_symheap_def example_decl_def)


end
