(* ===== verification/Ucc_Parse_Stmt.thy ===== *)
theory Ucc_Parse_Stmt
  imports Ucc_Parse_Expr Ucc_Sym
begin

text \<open>
  The parser of statements, \<^verbatim>\<open>src/cc1/parse_stmt.c\<close>, with the tests of \<^verbatim>\<open>src/cc1/parse_type.c\<close> for the
  start of a declaration.

  The state is that of the tokeniser, extended by the symbol tables, the flag for errors of folding
  and the static assertions.  The parent of a \<^verbatim>\<open>break\<close>, \<^verbatim>\<open>continue\<close>, \<^verbatim>\<open>case\<close> or \<^verbatim>\<open>default\<close> points to a loop
  or switch around it; such a pointer is the number of loops and switches around that statement.  The parsers of declarations and attributes and the folding of expressions and declarations are
  arguments.  Recursive calls go through a record, with one less unit of fuel.
\<close>

section \<open>State and statements\<close>

record ('f, 'x) pstate = "'f lexer" +
  ps_heap :: symheap
  ps_fold_error :: bool
  ps_asserts :: "(nat \<times> ('f, 'x) pexpr \<times> cstring option) list"

datatype ('f, 'x) cstmt =
    S_noop bool
  | S_break "nat option"
  | S_continue "nat option"
  | S_return "('f, 'x) pexpr option"
  | S_goto string
  | S_goto_expr "('f, 'x) pexpr"
  | S_if nat "nat option" "('f, 'x) pexpr" "('f, 'x) cstmt" "('f, 'x) cstmt option"
  | S_switch nat nat "nat option" "('f, 'x) pexpr" "('f, 'x) cstmt"
  | S_while nat nat "nat option" "('f, 'x) pexpr" "('f, 'x) cstmt"
  | S_do nat "('f, 'x) cstmt" "('f, 'x) pexpr"
  | S_for nat nat "('f, 'x) pexpr option" "('f, 'x) pexpr option" "('f, 'x) pexpr option" "('f, 'x) cstmt"
  | S_case "nat option" "('f, 'x) pexpr" "('f, 'x) cstmt"
  | S_case_range "nat option" "('f, 'x) pexpr" "('f, 'x) pexpr" "('f, 'x) cstmt"
  | S_default "nat option" "('f, 'x) cstmt"
  | S_label string bool "('f, 'x) cstmt"
  | S_expr "('f, 'x) pexpr"
  | S_code nat "('f, 'x) cstmt list"

record stmt_ctx =
  continue_target :: "nat option"
  break_target :: "nat option"
  switch_target :: "nat option"
  sc_scope :: nat
  sc_depth :: nat
  parsing_unbraced_if :: bool

type_synonym ('f, 'x, 'a) presult = "('a \<times> ('f, 'x) pstate) outcome"

text \<open>
  The other parsers and the folder: expressions in a scope, \<^verbatim>\<open>parse_decl\<close> with a name,
  \<^verbatim>\<open>parse_decl_group\<close> (whether a declaration was read, and which), \<^verbatim>\<open>parse_attr\<close>, \<^verbatim>\<open>FOLD_EXPR\<close>,
  \<^verbatim>\<open>fold_expr_nodecay\<close>, the checks of \<^verbatim>\<open>flow_fold\<close>, \<^verbatim>\<open>fold_stmt\<close> on an expression, and
  \<^verbatim>\<open>fold_shadow_dup_check_block_decls\<close>.
\<close>

record ('f, 'x) stmt_env =
  se_expr :: "nat \<Rightarrow> ('f, ('f, 'x, unit) pstate_ext, 'x) parse_ctx"
  se_std_c99 :: bool
  se_parse_decl :: "nat \<Rightarrow> ('f, 'x) pstate \<Rightarrow> ('f, 'x, string) presult"
  se_decl_group :: "bool \<Rightarrow> bool \<Rightarrow> nat \<Rightarrow> ('f, 'x) pstate \<Rightarrow> ('f, 'x, bool \<times> nat list) presult"
  se_parse_attr :: "nat \<Rightarrow> ('f, 'x) pstate \<Rightarrow> ('f, 'x, attribute list) presult"
  se_fold_expr :: "('f, 'x) pexpr \<Rightarrow> nat \<Rightarrow> ('f, 'x) pstate \<Rightarrow> ('f, 'x, ('f, 'x) pexpr) presult"
  se_fold_nodecay :: "('f, 'x) pexpr \<Rightarrow> nat \<Rightarrow> ('f, 'x) pstate \<Rightarrow> ('f, 'x, ('f, 'x) pexpr) presult"
  se_flow_check :: "nat \<Rightarrow> ('f, 'x) pstate \<Rightarrow> ('f, 'x) pstate outcome"
  se_fold_stmt :: "('f, 'x) pexpr \<Rightarrow> nat \<Rightarrow> ('f, 'x) pstate \<Rightarrow> ('f, 'x, ('f, 'x) pexpr) presult"
  se_dup_check :: "nat \<Rightarrow> ('f, 'x) pstate \<Rightarrow> ('f, 'x) pstate outcome"

type_synonym ('f, 'x) sparser = "stmt_ctx \<Rightarrow> ('f, 'x) pstate \<Rightarrow> ('f, 'x, ('f, 'x) cstmt) presult"

record ('f, 'x) rec_stmts =
  rs_stmt :: "('f, 'x) sparser"
  rs_decls :: "bool \<Rightarrow> attribute list \<Rightarrow> ('f, 'x) sparser"

definition on_heap :: "(symheap \<Rightarrow> ('a \<times> symheap) outcome) \<Rightarrow> ('f, 'x) pstate \<Rightarrow> ('f, 'x, 'a) presult" where
  "on_heap f lx = bindE (f (ps_heap lx)) (\<lambda>(a, h). Inr (a, lx\<lparr>ps_heap := h\<rparr>))"

abbreviation (input) eats :: "('f, 'x) stmt_env \<Rightarrow> ctoken \<Rightarrow> ('f, 'x) pstate \<Rightarrow> ('f, 'x) pstate outcome" where
  "eats E \<equiv> EAT (se_expr E 0)"

abbreviation (input) takes :: "('f, 'x) stmt_env \<Rightarrow> ctoken \<Rightarrow> ('f, 'x) pstate \<Rightarrow> (bool \<times> ('f, 'x) pstate) outcome" where
  "takes E \<equiv> acc (se_expr E 0)"

definition exp_in :: "('f, 'x) stmt_env \<Rightarrow> nat \<Rightarrow> nat \<Rightarrow> ('f, 'x) pstate \<Rightarrow> ('f, 'x, ('f, 'x) pexpr) presult" where
  "exp_in E n scope lx = parse_expr_exp (se_expr E scope) (parsers (se_expr E scope) n) n False lx"

definition no_comma_in :: "('f, 'x) stmt_env \<Rightarrow> nat \<Rightarrow> nat \<Rightarrow> ('f, 'x) pstate \<Rightarrow> ('f, 'x, ('f, 'x) pexpr) presult" where
  "no_comma_in E n scope lx = parse_expr_assignment (se_expr E scope) (parsers (se_expr E scope) n) n False lx"

section \<open>At a declaration?\<close>

definition parse_at_tdef :: "nat \<Rightarrow> ('f, 'x) pstate \<Rightarrow> nat option outcome" where
  "parse_at_tdef scope lx =
     (if curtok lx \<noteq> token_identifier then Inr None
      else
        case currentspelling lx of
          None \<Rightarrow> Inl Null_deref
        | Some sp \<Rightarrow>
          bindE (symtab_search (ps_heap lx) (Some scope) sp None) (\<lambda>ent.
            case ent of
              Some (Ent_decl d _) \<Rightarrow>
                bindE (decl_at (ps_heap lx) d) (\<lambda>dc. Inr (if dcl_typedef dc then Some d else None))
            | _ \<Rightarrow> Inr None))"

text \<open>The cases of the \<^verbatim>\<open>switch\<close> other than \<^verbatim>\<open>__extension__\<close>.\<close>

definition at_decl_here :: "nat \<Rightarrow> bool \<Rightarrow> ('f, 'x) pstate \<Rightarrow> bool outcome" where
  "at_decl_here scope include_attribute lx =
     (if curtok lx = Kw token_attribute then Inr include_attribute
      else if curtok lx \<in> {Kw token_signed, Kw token_unsigned, Kw token_inline, Kw token__Noreturn, Kw token_struct,
          Kw token_union, Kw token_enum, Kw token_typeof, Kw token___auto_type, Kw token___builtin_va_list,
          Kw token__Alignas} then Inr True
      else if curtok lx = token_identifier then bindE (parse_at_tdef scope lx) (\<lambda>d. Inr (d \<noteq> None))
      else Inr (curtok_is_type_qual (curtok lx) \<or> curtok_is_decl_store (curtok lx) \<or> curtok_is_type_primitive (curtok lx)))"

primrec accept_all :: "'f lex_env \<Rightarrow> ctoken \<Rightarrow> nat \<Rightarrow> ('f, 's) lexer_scheme \<Rightarrow> ('f, 's) lexer_scheme outcome" where
  "accept_all env t 0 lx = Inl Out_of_fuel"
| "accept_all env t (Suc n) lx =
     bindE (accept env t lx) (\<lambda>(more, lx). if more then accept_all env t n lx else Inr lx)"

definition parse_at_decl :: "('f, 'x) stmt_env \<Rightarrow> nat \<Rightarrow> nat \<Rightarrow> bool \<Rightarrow> ('f, 'x) pstate \<Rightarrow> ('f, 'x, bool) presult" where
  "parse_at_decl E n scope include_attribute lx =
     (if curtok lx = Kw token___extension then
        bindE (accept_all (pc_env (se_expr E 0)) (Kw token___extension) n lx) (\<lambda>lx.
        bindE (at_decl_here scope include_attribute lx) (\<lambda>r.
        bindE (uneat (Kw token___extension) lx) (\<lambda>lx. Inr (r, lx))))
      else bindE (at_decl_here scope include_attribute lx) (\<lambda>r. Inr (r, lx)))"

text \<open>\<^verbatim>\<open>parse_add_attr_out\<close>: the attributes, and whether there was \<^verbatim>\<open>__attribute__\<close>.\<close>

primrec parse_add_attr_out ::
  "('f, 'x) stmt_env \<Rightarrow> nat \<Rightarrow> nat \<Rightarrow> attribute list \<Rightarrow> bool \<Rightarrow> ('f, 'x) pstate \<Rightarrow> ('f, 'x, attribute list \<times> bool) presult" where
  "parse_add_attr_out E 0 scope attrs got lx = Inl Out_of_fuel"
| "parse_add_attr_out E (Suc n) scope attrs got lx =
     bindE (takes E (Kw token_attribute) lx) (\<lambda>(kw, lx).
       if \<not> kw then Inr ((attrs, got), lx)
       else
         bindE (eats E token_open_paren lx) (\<lambda>lx.
         bindE (eats E token_open_paren lx) (\<lambda>lx.
         bindE (if curtok lx \<noteq> token_close_paren then se_parse_attr E scope lx else Inr ([], lx)) (\<lambda>(as, lx).
         bindE (eats E token_close_paren lx) (\<lambda>lx.
         bindE (eats E token_close_paren lx) (\<lambda>lx.
           parse_add_attr_out E n scope (attrs @ as) True lx))))))"

section \<open>Conditions and loops\<close>

text \<open>The condition of a statement: its scope, the scope of a declaration in it, and the expression.\<close>

definition parse_test_init_expr ::
  "('f, 'x) stmt_env \<Rightarrow> nat \<Rightarrow> nat \<Rightarrow> ('f, 'x) pstate \<Rightarrow> ('f, 'x, nat \<times> nat option \<times> ('f, 'x) pexpr) presult" where
  "parse_test_init_expr E n scope lx =
     bindE (eats E token_open_paren lx) (\<lambda>lx.
     bindE (on_heap ((if se_std_c99 E then symtab_new else symtab_new_transparent) (Some scope)) lx) (\<lambda>(stab, lx).
     bindE (parse_at_decl E n stab True lx) (\<lambda>(decl, lx).
     bindE (if decl then
              bindE (on_heap (symtab_new (Some stab)) lx) (\<lambda>(init_scope, lx).
              bindE (se_parse_decl E init_scope lx) (\<lambda>(spel, lx).
              bindE (se_flow_check E init_scope lx) (\<lambda>lx.
              bindE (takes E token_semicolon lx) (\<lambda>(semi, lx).
              bindE (if semi then exp_in E n init_scope lx else Inr (E_identifier spel, lx)) (\<lambda>(e, lx).
                Inr ((init_scope, Some init_scope, e), lx))))))
            else bindE (exp_in E n stab lx) (\<lambda>(e, lx). Inr ((stab, None, e), lx))) (\<lambda>((stab, flow, e), lx).
     bindE (se_fold_expr E e stab lx) (\<lambda>(e, lx).
     bindE (eats E token_close_paren lx) (\<lambda>lx. Inr ((stab, flow, e), lx)))))))"

definition parse_if :: "('f, 'x) stmt_env \<Rightarrow> ('f, 'x) rec_stmts \<Rightarrow> nat \<Rightarrow> ('f, 'x) sparser" where
  "parse_if E rc n ctx lx =
     bindE (eats E (Kw token_if) lx) (\<lambda>lx.
     let sub = ctx\<lparr>parsing_unbraced_if := (curtok lx \<noteq> token_open_block)\<rparr> in
     bindE (parse_test_init_expr E n (sc_scope ctx) lx) (\<lambda>((stab, flow, e), lx).
     let sub = sub\<lparr>sc_scope := stab\<rparr> in
     bindE (rs_stmt rc sub lx) (\<lambda>(l, lx).
     bindE (takes E (Kw token_else) lx) (\<lambda>(els, lx).
       if els then
         bindE (rs_stmt rc (sub\<lparr>parsing_unbraced_if := False\<rparr>) lx) (\<lambda>(r, lx). Inr (S_if stab flow e l (Some r), lx))
       else Inr (S_if stab flow e l None, lx)))))"

definition parse_switch :: "('f, 'x) stmt_env \<Rightarrow> ('f, 'x) rec_stmts \<Rightarrow> nat \<Rightarrow> ('f, 'x) sparser" where
  "parse_switch E rc n ctx lx =
     (let t = sc_depth ctx in
     bindE (eats E (Kw token_switch) lx) (\<lambda>lx.
     bindE (parse_test_init_expr E n (sc_scope ctx) lx) (\<lambda>((stab, flow, e), lx).
     bindE (rs_stmt rc (ctx\<lparr>break_target := Some t, switch_target := Some t, sc_depth := Suc t, sc_scope := stab\<rparr>) lx) (\<lambda>(l, lx).
       Inr (S_switch t stab flow e l, lx)))))"

definition parse_do :: "('f, 'x) stmt_env \<Rightarrow> ('f, 'x) rec_stmts \<Rightarrow> nat \<Rightarrow> ('f, 'x) sparser" where
  "parse_do E rc n ctx lx =
     (let t = sc_depth ctx in
     bindE (eats E (Kw token_do) lx) (\<lambda>lx.
     bindE (rs_stmt rc (ctx\<lparr>break_target := Some t, continue_target := Some t, sc_depth := Suc t\<rparr>) lx) (\<lambda>(l, lx).
     bindE (eats E (Kw token_while) lx) (\<lambda>lx.
     bindE (eats E token_open_paren lx) (\<lambda>lx.
     bindE (exp_in E n (sc_scope ctx) lx) (\<lambda>(e, lx).
     bindE (se_fold_nodecay E e (sc_scope ctx) lx) (\<lambda>(e, lx).
     bindE (eats E token_close_paren lx) (\<lambda>lx.
     bindE (eats E token_semicolon lx) (\<lambda>lx. Inr (S_do t l e, lx))))))))))"

definition parse_while :: "('f, 'x) stmt_env \<Rightarrow> ('f, 'x) rec_stmts \<Rightarrow> nat \<Rightarrow> ('f, 'x) sparser" where
  "parse_while E rc n ctx lx =
     (let t = sc_depth ctx in
     bindE (eats E (Kw token_while) lx) (\<lambda>lx.
     bindE (parse_test_init_expr E n (sc_scope ctx) lx) (\<lambda>((stab, flow, e), lx).
     bindE (rs_stmt rc (ctx\<lparr>continue_target := Some t, break_target := Some t, sc_depth := Suc t, sc_scope := stab\<rparr>) lx) (\<lambda>(l, lx).
       Inr (S_while t stab flow e l, lx)))))"

text \<open>An expression of the head of a \<^verbatim>\<open>for\<close>, up to the token that closes it.\<close>

definition for_part ::
  "('f, 'x) stmt_env \<Rightarrow> nat \<Rightarrow> nat \<Rightarrow> ctoken \<Rightarrow> ('f, 'x) pstate \<Rightarrow> ('f, 'x, ('f, 'x) pexpr option) presult" where
  "for_part E n scope closing lx =
     bindE (takes E closing lx) (\<lambda>(none, lx).
       if none then Inr (None, lx)
       else
         bindE (exp_in E n scope lx) (\<lambda>(e, lx).
         bindE (se_fold_expr E e scope lx) (\<lambda>(e, lx).
         bindE (eats E closing lx) (\<lambda>lx. Inr (Some e, lx)))))"

definition parse_for :: "('f, 'x) stmt_env \<Rightarrow> ('f, 'x) rec_stmts \<Rightarrow> nat \<Rightarrow> ('f, 'x) sparser" where
  "parse_for E rc n ctx lx =
     (let t = sc_depth ctx in
     bindE (eats E (Kw token_for) lx) (\<lambda>lx.
     bindE (eats E token_open_paren lx) (\<lambda>lx.
     bindE (on_heap (symtab_new (Some (sc_scope ctx))) lx) (\<lambda>(stab, lx).
     bindE (takes E token_semicolon lx) (\<lambda>(semi, lx).
     bindE (if semi then Inr (None, lx)
            else
              bindE (se_decl_group E False False stab lx) (\<lambda>((got_decls, _), lx).
                if got_decls then bindE (se_flow_check E stab lx) (\<lambda>lx. Inr (None, lx))
                else
                  bindE (exp_in E n stab lx) (\<lambda>(e, lx).
                  bindE (se_flow_check E stab lx) (\<lambda>lx.
                  bindE (se_fold_expr E e stab lx) (\<lambda>(e, lx).
                  bindE (eats E token_semicolon lx) (\<lambda>lx. Inr (Some e, lx))))))) (\<lambda>(init, lx).
     bindE (for_part E n stab token_semicolon lx) (\<lambda>(whil, lx).
     bindE (for_part E n stab token_close_paren lx) (\<lambda>(inc, lx).
     bindE (rs_stmt rc (ctx\<lparr>continue_target := Some t, break_target := Some t, sc_depth := Suc t, sc_scope := stab\<rparr>) lx) (\<lambda>(l, lx).
       Inr (S_for t stab init whil inc l, lx))))))))))"

section \<open>Labels, attributes and assertions\<close>

text \<open>Whether an assertion was read; a string that is missing ends its line early.\<close>

primrec parse_static_assert :: "('f, 'x) stmt_env \<Rightarrow> nat \<Rightarrow> nat \<Rightarrow> bool \<Rightarrow> ('f, 'x) pstate \<Rightarrow> ('f, 'x, bool) presult" where
  "parse_static_assert E 0 scope found lx = Inl Out_of_fuel"
| "parse_static_assert E (Suc n) scope found lx =
     bindE (takes E (Kw token__Static_assert) lx) (\<lambda>(more, lx).
       if \<not> more then Inr (found, lx)
       else
         bindE (eats E token_open_paren lx) (\<lambda>lx.
         bindE (no_comma_in E n scope lx) (\<lambda>(e, lx).
         bindE (takes E token_comma lx) (\<lambda>(comma, lx).
         bindE (if comma then
                  (case parse_asciz_str lx of
                     (None, lx) \<Rightarrow> Inr (None, lx)
                   | (Some s, lx) \<Rightarrow> bindE (eats E token_string lx) (\<lambda>lx. Inr (Some (Some s), lx)))
                else Inr (Some None, lx)) (\<lambda>(str, lx).
           case str of
             None \<Rightarrow> parse_static_assert E n scope found lx
           | Some s \<Rightarrow>
             bindE (eats E token_close_paren lx) (\<lambda>lx.
             bindE (eats E token_semicolon lx) (\<lambda>lx.
               parse_static_assert E n scope True (lx\<lparr>ps_asserts := ps_asserts lx @ [(scope, e, s)]\<rparr>))))))))"

definition parse_label :: "('f, 'x) stmt_env \<Rightarrow> ('f, 'x) rec_stmts \<Rightarrow> nat \<Rightarrow> ('f, 'x) sparser" where
  "parse_label E rc n ctx lx =
     bindE (token_eat_identifier (pc_env (se_expr E 0)) (Some ''?'') lx) (\<lambda>(lbl, lx).
     bindE (eats E token_colon lx) (\<lambda>lx.
     bindE (parse_add_attr_out E n (sc_scope ctx) [] False lx) (\<lambda>((attrs, _), lx).
     bindE (rs_stmt rc ctx lx) (\<lambda>(l, lx).
       case lbl of
         None \<Rightarrow> Inl Null_deref
       | Some lbl \<Rightarrow> Inr (S_label lbl (list_ex (\<lambda>a. at_kind a = attr_unused) attrs) l, lx)))))"

primrec local_label_names :: "('f, 'x) stmt_env \<Rightarrow> nat \<Rightarrow> nat \<Rightarrow> ('f, 'x) pstate \<Rightarrow> ('f, 'x) pstate outcome" where
  "local_label_names E 0 scope lx = Inl Out_of_fuel"
| "local_label_names E (Suc n) scope lx =
     bindE (token_eat_identifier (pc_env (se_expr E 0)) None lx) (\<lambda>(spel, lx).
       case spel of
         None \<Rightarrow> Inr lx
       | Some spel \<Rightarrow>
         bindE (on_heap (symtab_label_add_local scope spel) lx) (\<lambda>(created, lx).
         let lx = (if created then lx else lx\<lparr>ps_fold_error := True\<rparr>) in
         bindE (takes E token_semicolon lx) (\<lambda>(semi, lx).
           if semi then Inr lx
           else bindE (eats E token_comma lx) (local_label_names E n scope))))"

primrec parse_local_labels :: "('f, 'x) stmt_env \<Rightarrow> nat \<Rightarrow> nat \<Rightarrow> ('f, 'x) pstate \<Rightarrow> ('f, 'x) pstate outcome" where
  "parse_local_labels E 0 scope lx = Inl Out_of_fuel"
| "parse_local_labels E (Suc n) scope lx =
     bindE (takes E (Kw token___label) lx) (\<lambda>(more, lx).
       if more then bindE (local_label_names E n scope lx) (parse_local_labels E n scope) else Inr lx)"

fun is_noop :: "('f, 'x) cstmt \<Rightarrow> bool" where
  "is_noop (S_noop _) = True"
| "is_noop _ = False"

definition apply_stmt_attrs ::
  "('f, 'x) cstmt \<Rightarrow> attribute list \<Rightarrow> ('f, 'x) pstate \<Rightarrow> ('f, 'x, ('f, 'x) cstmt) presult" where
  "apply_stmt_attrs s attrs lx =
     (if \<not> list_ex (\<lambda>a. at_kind a = attr_fallthrough) attrs then Inr (s, lx)
      else if \<not> is_noop s then Inr (s, lx\<lparr>ps_fold_error := True\<rparr>)
      else if curtok lx = Kw token_case \<or> curtok lx = Kw token_default then Inr (S_noop True, lx)
      else
        bindE (tok_at_label lx) (\<lambda>(lbl, lx).
          Inr (S_noop True, if lbl then lx else lx\<lparr>ps_fold_error := True\<rparr>)))"

section \<open>Statements\<close>

definition parse_jump :: "('f, 'x) stmt_env \<Rightarrow> nat \<Rightarrow> ('f, 'x) sparser" where
  "parse_jump E n ctx lx =
     bindE (takes E (Kw token_break) lx) (\<lambda>(brk, lx).
     bindE (if brk then Inr (False, lx) else takes E (Kw token_continue) lx) (\<lambda>(cont, lx).
     bindE (if brk \<or> cont then Inr (False, lx) else takes E (Kw token_return) lx) (\<lambda>(ret, lx).
     bindE (if brk then Inr (S_break (break_target ctx), lx)
            else if cont then Inr (S_continue (continue_target ctx), lx)
            else if ret then
              (if curtok lx \<noteq> token_semicolon then
                 bindE (exp_in E n (sc_scope ctx) lx) (\<lambda>(e, lx).
                 bindE (se_fold_nodecay E e (sc_scope ctx) lx) (\<lambda>(e, lx). Inr (S_return (Some e), lx)))
               else Inr (S_return None, lx))
            else
              bindE (eats E (Kw token_goto) lx) (\<lambda>lx.
              bindE (takes E (Op token_multiply) lx) (\<lambda>(computed, lx).
                if computed then bindE (exp_in E n (sc_scope ctx) lx) (\<lambda>(e, lx). Inr (S_goto_expr e, lx))
                else
                  bindE (token_accept_identifier (pc_env (se_expr E 0)) lx) (\<lambda>(spel, lx).
                    Inr (S_goto (case spel of Some s \<Rightarrow> s | None \<Rightarrow> ''?''), lx))))) (\<lambda>(t, lx).
     bindE (eats E token_semicolon lx) (\<lambda>lx. Inr (t, lx))))))"

definition parse_case :: "('f, 'x) stmt_env \<Rightarrow> ('f, 'x) rec_stmts \<Rightarrow> nat \<Rightarrow> ('f, 'x) sparser" where
  "parse_case E rc n ctx lx =
     bindE (eats E (Kw token_case) lx) (\<lambda>lx.
     bindE (no_comma_in E n (sc_scope ctx) lx) (\<lambda>(a, lx).
     bindE (takes E token_elipsis lx) (\<lambda>(range, lx).
     bindE (if range then bindE (no_comma_in E n (sc_scope ctx) lx) (\<lambda>(b, lx). Inr (Some b, lx)) else Inr (None, lx)) (\<lambda>(b, lx).
     bindE (eats E token_colon lx) (\<lambda>lx.
     bindE (rs_stmt rc ctx lx) (\<lambda>(l, lx).
       Inr (case b of Some b \<Rightarrow> S_case_range (switch_target ctx) a b l | None \<Rightarrow> S_case (switch_target ctx) a l, lx)))))))"

definition parse_default :: "('f, 'x) stmt_env \<Rightarrow> ('f, 'x) rec_stmts \<Rightarrow> ('f, 'x) sparser" where
  "parse_default E rc ctx lx =
     bindE (eats E (Kw token_default) lx) (\<lambda>lx.
     bindE (eats E token_colon lx) (\<lambda>lx.
     bindE (rs_stmt rc ctx lx) (\<lambda>(l, lx). Inr (S_default (switch_target ctx) l, lx))))"

text \<open>\<^verbatim>\<open>parse_stmt_block\<close>; without a context, as for a function body, nothing encloses it.\<close>

definition parse_stmt_block :: "('f, 'x) stmt_env \<Rightarrow> ('f, 'x) rec_stmts \<Rightarrow> nat \<Rightarrow> stmt_ctx option \<Rightarrow> ('f, 'x) pstate \<Rightarrow> ('f, 'x, ('f, 'x) cstmt) presult" where
  "parse_stmt_block E rc scope ctx lx =
     (let sub = (case ctx of
          Some c \<Rightarrow> c
        | None \<Rightarrow> \<lparr>continue_target = None, break_target = None, switch_target = None, sc_scope = scope, sc_depth = 0,
                   parsing_unbraced_if = False\<rparr>) in
      bindE (eats E token_open_block lx) (\<lambda>lx.
      bindE (rs_decls rc False [] sub lx) (\<lambda>(t, lx).
      bindE (eats E token_close_block lx) (\<lambda>lx. Inr (t, lx)))))"

definition expr_stmt :: "('f, 'x) stmt_env \<Rightarrow> nat \<Rightarrow> ('f, 'x) sparser" where
  "expr_stmt E n ctx lx =
     bindE (exp_in E n (sc_scope ctx) lx) (\<lambda>(e, lx).
     bindE (se_fold_stmt E e (sc_scope ctx) lx) (\<lambda>(e, lx).
     bindE (eats E token_semicolon lx) (\<lambda>lx. Inr (S_expr e, lx))))"

definition parse_stmt_with_attrs ::
  "('f, 'x) stmt_env \<Rightarrow> ('f, 'x) rec_stmts \<Rightarrow> nat \<Rightarrow> attribute list \<Rightarrow> ('f, 'x) sparser" where
  "parse_stmt_with_attrs E rc n attrs ctx lx =
     bindE (parse_add_attr_out E n (sc_scope ctx) attrs False lx) (\<lambda>((attrs, _), lx).
     bindE (if curtok lx = token_semicolon then bindE (eats E token_semicolon lx) (\<lambda>lx. Inr (S_noop False, lx))
            else if curtok lx \<in> {Kw token_break, Kw token_continue, Kw token_goto, Kw token_return} then parse_jump E n ctx lx
            else if curtok lx = Kw token_if then parse_if E rc n ctx lx
            else if curtok lx = Kw token_while then parse_while E rc n ctx lx
            else if curtok lx = Kw token_do then parse_do E rc n ctx lx
            else if curtok lx = Kw token_for then parse_for E rc n ctx lx
            else if curtok lx = token_open_block then
              parse_stmt_block E rc (sc_scope ctx) (Some (ctx\<lparr>parsing_unbraced_if := False\<rparr>)) lx
            else if curtok lx = Kw token_switch then parse_switch E rc n ctx lx
            else if curtok lx = Kw token_default then parse_default E rc ctx lx
            else if curtok lx = Kw token_case then parse_case E rc n ctx lx
            else if curtok lx = token_identifier then
              bindE (tok_at_label lx) (\<lambda>(lbl, lx). if lbl then parse_label E rc n ctx lx else expr_stmt E n ctx lx)
            else expr_stmt E n ctx lx) (\<lambda>(t, lx).
     apply_stmt_attrs t attrs lx))"

definition parse_stmt :: "('f, 'x) stmt_env \<Rightarrow> ('f, 'x) rec_stmts \<Rightarrow> nat \<Rightarrow> ('f, 'x) sparser" where
  "parse_stmt E rc n = parse_stmt_with_attrs E rc n []"

section \<open>Blocks\<close>

definition add_attr_to_decls :: "attribute list \<Rightarrow> nat list \<Rightarrow> symheap \<Rightarrow> symheap" where
  "add_attr_to_decls attrs ds h =
     fold (\<lambda>d h. h\<lparr>sh_decls := (sh_decls h)[d := (sh_decls h ! d)\<lparr>dcl_member :=
        (dcl_member (sh_decls h ! d))\<lparr>mb_attr := mb_attr (dcl_member (sh_decls h ! d)) @ attrs\<rparr>\<rparr>]\<rparr>) ds h"

text \<open>The declarations at the start of a block: the attributes left, and whether there was one.\<close>

primrec decl_groups ::
  "('f, 'x) stmt_env \<Rightarrow> nat \<Rightarrow> nat \<Rightarrow> attribute list \<Rightarrow> bool \<Rightarrow> bool \<Rightarrow> ('f, 'x) pstate \<Rightarrow> ('f, 'x, attribute list \<times> bool \<times> bool) presult" where
  "decl_groups E 0 scope attrs got_attribute got_decls lx = Inl Out_of_fuel"
| "decl_groups E (Suc n) scope attrs got_attribute got_decls lx =
     bindE (se_decl_group E True got_attribute scope lx) (\<lambda>((new_group, ds), lx).
     let lx = (if attrs = [] then lx else lx\<lparr>ps_heap := add_attr_to_decls attrs ds (ps_heap lx)\<rparr>) in
     if new_group then decl_groups E n scope [] False True lx else Inr ((attrs, got_attribute, got_decls), lx))"

text \<open>
  The statements of a block: what is left of the attributes, whether a declaration follows, and
  the statements.  The second call of \<^verbatim>\<open>parse_add_attr_out\<close> sets \<^verbatim>\<open>got_attribute\<close> anew.
\<close>

primrec block_stmts ::
  "('f, 'x) stmt_env \<Rightarrow> ('f, 'x) rec_stmts \<Rightarrow> nat \<Rightarrow> nat \<Rightarrow> stmt_ctx \<Rightarrow> attribute list \<Rightarrow> ('f, 'x) cstmt list \<Rightarrow> ('f, 'x) pstate \<Rightarrow>
   ('f, 'x, attribute list \<times> bool \<times> ('f, 'x) cstmt list) presult" where
  "block_stmts E rc 0 outer sub attrs stmts lx = Inl Out_of_fuel"
| "block_stmts E rc (Suc n) outer sub attrs stmts lx =
     bindE (parse_add_attr_out E n outer attrs False lx) (\<lambda>((attrs, got), lx).
     bindE (parse_static_assert E n (sc_scope sub) False lx) (\<lambda>(asserts, lx).
     let (attrs, lx) = (if asserts \<and> got then ([], lx\<lparr>ps_fold_error := True\<rparr>) else (attrs, lx)) in
     bindE (parse_add_attr_out E n outer attrs False lx) (\<lambda>((attrs, got), lx).
     bindE (if curtok lx = token_identifier then tok_at_label lx else Inr (False, lx)) (\<lambda>(lbl, lx).
       if lbl then
         bindE (parse_label E rc n sub lx) (\<lambda>(s, lx).
         let (attrs, lx) = (if got then ([], lx\<lparr>ps_fold_error := True\<rparr>) else (attrs, lx)) in
         block_stmts E rc n outer sub attrs (stmts @ [s]) lx)
       else if curtok lx = token_close_block then
         (if got then Inl (Assert_failed ''!got_attribute'') else Inr ((attrs, False, stmts), lx))
       else
         bindE (parse_at_decl E n (sc_scope sub) False lx) (\<lambda>(decl, lx).
           if decl then (if got then Inl (Assert_failed ''!got_attribute'') else Inr ((attrs, True, stmts), lx))
           else
             bindE (parse_stmt_with_attrs E rc n attrs sub lx) (\<lambda>(s, lx).
               block_stmts E rc n outer sub [] (stmts @ [s]) lx))))))"

definition parse_stmt_and_decls ::
  "('f, 'x) stmt_env \<Rightarrow> ('f, 'x) rec_stmts \<Rightarrow> nat \<Rightarrow> bool \<Rightarrow> attribute list \<Rightarrow> ('f, 'x) sparser" where
  "parse_stmt_and_decls E rc n nested attrs ctx lx =
     bindE (on_heap (symtab_new (Some (sc_scope ctx))) lx) (\<lambda>(stab, lx).
     bindE (on_heap (\<lambda>h. bindE (tab h stab) (\<lambda>s. Inr ((), put_tab stab (s\<lparr>st_internal_nest := nested\<rparr>) h))) lx) (\<lambda>(_, lx).
     let sub = ctx\<lparr>sc_scope := stab\<rparr> in
     bindE (parse_local_labels E n stab lx) (\<lambda>lx.
     bindE (parse_static_assert E n stab False lx) (\<lambda>(_, lx).
     bindE (parse_add_attr_out E n (sc_scope ctx) attrs False lx) (\<lambda>((attrs, got), lx).
     bindE (parse_at_decl E n (sc_scope ctx) False lx) (\<lambda>(decl, lx).
     bindE (if decl \<or> got \<and> curtok lx \<noteq> token_semicolon then decl_groups E n stab attrs got False lx
            else Inr ((attrs, got, False), lx)) (\<lambda>((attrs, got, got_decls), lx).
     bindE (if got_decls then se_dup_check E stab lx else Inr lx) (\<lambda>lx.
     if curtok lx = token_close_block then Inr (S_code stab [], lx)
     else
       bindE (block_stmts E rc n (sc_scope ctx) sub attrs [] lx) (\<lambda>((attrs, at_decl, stmts), lx).
         if \<not> at_decl then Inr (S_code stab stmts, lx)
         else if stmts = [] then Inl (Ice ''got another decl - should've been handled already'')
         else
           bindE (rs_decls rc True attrs sub lx) (\<lambda>(nest, lx). Inr (S_code stab (stmts @ [nest]), lx)))))))))))"

text \<open>The parsers with a given depth of recursion.\<close>

primrec stmt_parsers :: "('f, 'x) stmt_env \<Rightarrow> nat \<Rightarrow> ('f, 'x) rec_stmts" where
  "stmt_parsers E 0 = \<lparr>rs_stmt = (\<lambda>_ _. Inl Out_of_fuel), rs_decls = (\<lambda>_ _ _ _. Inl Out_of_fuel)\<rparr>"
| "stmt_parsers E (Suc n) =
     \<lparr>rs_stmt = parse_stmt E (stmt_parsers E n) n, rs_decls = parse_stmt_and_decls E (stmt_parsers E n) n\<rparr>"

text \<open>\<^verbatim>\<open>asm("...");\<close> outside of functions.\<close>

definition parse_gasm :: "('f, 'x) stmt_env \<Rightarrow> ('f, 'x) pstate \<Rightarrow> ('f, 'x, cstring option) presult" where
  "parse_gasm E lx =
     bindE (eats E token_open_paren lx) (\<lambda>lx.
       case parse_asciz_str lx of
         (None, lx) \<Rightarrow> Inr (None, lx)
       | (Some c, lx) \<Rightarrow>
         bindE (eats E token_string lx) (\<lambda>lx.
         bindE (eats E token_close_paren lx) (\<lambda>lx.
         bindE (eats E token_semicolon lx) (\<lambda>lx. Inr (Some c, lx)))))"

end
