(* ===== verification/Ucc_Stmt_Targets.thy ===== *)
theory Ucc_Stmt_Targets
  imports Ucc_Parse_Stmt Ucc_Lexer_Scan
begin

text \<open>
  What the parser of statements guarantees: the jumps of every statement refer to the loop or switch
  that encloses them, and an \<^verbatim>\<open>else\<close> belongs to the nearest \<^verbatim>\<open>if\<close>.  The contract of the two recursive
  calls is a locale, kept by every parser and interpreted on the parsers themselves.  Examples at the
  end evaluate the parser on text.
\<close>

section \<open>Jumps and \<^verbatim>\<open>else\<close>\<close>

text \<open>
  With \<open>d\<close> loops and switches around it, the innermost loop \<open>ct\<close>, the innermost loop or switch
  \<open>bt\<close> and the innermost switch \<open>st\<close>, every jump and label of a statement refers to the right one.
\<close>

fun targets_ok :: "nat \<Rightarrow> nat option \<Rightarrow> nat option \<Rightarrow> nat option \<Rightarrow> ('f, 'x) cstmt \<Rightarrow> bool" where
  "targets_ok d ct bt st (S_break p) \<longleftrightarrow> p = bt"
| "targets_ok d ct bt st (S_continue p) \<longleftrightarrow> p = ct"
| "targets_ok d ct bt st (S_if _ _ _ l r) \<longleftrightarrow>
     targets_ok d ct bt st l \<and> (case r of None \<Rightarrow> True | Some r \<Rightarrow> targets_ok d ct bt st r)"
| "targets_ok d ct bt st (S_switch t _ _ _ l) \<longleftrightarrow> t = d \<and> targets_ok (Suc d) ct (Some d) (Some d) l"
| "targets_ok d ct bt st (S_while t _ _ _ l) \<longleftrightarrow> t = d \<and> targets_ok (Suc d) (Some d) (Some d) st l"
| "targets_ok d ct bt st (S_do t l _) \<longleftrightarrow> t = d \<and> targets_ok (Suc d) (Some d) (Some d) st l"
| "targets_ok d ct bt st (S_for t _ _ _ _ l) \<longleftrightarrow> t = d \<and> targets_ok (Suc d) (Some d) (Some d) st l"
| "targets_ok d ct bt st (S_case p _ l) \<longleftrightarrow> p = st \<and> targets_ok d ct bt st l"
| "targets_ok d ct bt st (S_case_range p _ _ l) \<longleftrightarrow> p = st \<and> targets_ok d ct bt st l"
| "targets_ok d ct bt st (S_default p l) \<longleftrightarrow> p = st \<and> targets_ok d ct bt st l"
| "targets_ok d ct bt st (S_label _ _ l) \<longleftrightarrow> targets_ok d ct bt st l"
| "targets_ok d ct bt st (S_code _ ss) \<longleftrightarrow> list_all (targets_ok d ct bt st) ss"
| "targets_ok d ct bt st _ \<longleftrightarrow> True"

text \<open>A statement that ends with an \<^verbatim>\<open>if\<close> that has no \<^verbatim>\<open>else\<close>.\<close>

fun ends_open :: "('f, 'x) cstmt \<Rightarrow> bool" where
  "ends_open (S_if _ _ _ _ None) = True"
| "ends_open (S_if _ _ _ _ (Some r)) = ends_open r"
| "ends_open (S_switch _ _ _ _ l) = ends_open l"
| "ends_open (S_while _ _ _ _ l) = ends_open l"
| "ends_open (S_for _ _ _ _ _ l) = ends_open l"
| "ends_open (S_case _ _ l) = ends_open l"
| "ends_open (S_case_range _ _ _ l) = ends_open l"
| "ends_open (S_default _ l) = ends_open l"
| "ends_open (S_label _ _ l) = ends_open l"
| "ends_open _ = False"

definition in_ctx :: "stmt_ctx \<Rightarrow> ('f, 'x) cstmt \<Rightarrow> bool" where
  "in_ctx c s \<longleftrightarrow> targets_ok (sc_depth c) (continue_target c) (break_target c) (switch_target c) s"

definition ensures :: "'a outcome \<Rightarrow> ('a \<Rightarrow> bool) \<Rightarrow> bool" where
  "ensures m P \<longleftrightarrow> (\<forall>x. m = Inr x \<longrightarrow> P x)"

lemma ensures_simps [simp]: "ensures (Inl f) P" "ensures (Inr x) P \<longleftrightarrow> P x"
  by (simp_all add: ensures_def)

lemma ensures_bind:
  assumes "\<And>x. m = Inr x \<Longrightarrow> ensures (f x) P" shows "ensures (bindE m f) P"
  using assms by (cases m) simp_all

definition good :: "stmt_ctx \<Rightarrow> ('f, 'x, ('f, 'x) cstmt) presult \<Rightarrow> bool" where
  "good c r \<longleftrightarrow> (case r of Inl _ \<Rightarrow> True | Inr (s, lx) \<Rightarrow> in_ctx c s \<and> (ends_open s \<longrightarrow> curtok lx \<noteq> Kw token_else))"

lemma good_Inl [simp]: "good c (Inl f)"
  by (simp add: good_def)

lemma good_Inr: "good c (Inr (s, lx)) \<longleftrightarrow> in_ctx c s \<and> (ends_open s \<longrightarrow> curtok lx \<noteq> Kw token_else)"
  by (simp add: good_def)

lemma good_bind:
  assumes "\<And>x. m = Inr x \<Longrightarrow> good c (f x)" shows "good c (bindE m f)"
  using assms by (cases m) simp_all

lemma good_then:
  assumes "good c m" "\<And>s lx. in_ctx c s \<Longrightarrow> ends_open s \<longrightarrow> curtok lx \<noteq> Kw token_else \<Longrightarrow> good c (f (s, lx))"
  shows "good c (bindE m f)"
proof (cases m)
  case (Inr a)
  then show ?thesis using assms(1,2) by (cases a) (simp add: good_Inr)
qed simp

lemma acc_else: "acc C t lx = Inr (False, lx') \<Longrightarrow> lx' = lx \<and> curtok lx \<noteq> t"
  by (auto simp: accept_def bindE_eq_Inr split: if_splits)

locale good_parsers =
  fixes rc :: "('f, 'x) rec_stmts"
  assumes stmt: "good c (rs_stmt rc c lx)"
    and decls: "rs_decls rc b as c lx = Inr (s, lx') \<Longrightarrow> in_ctx c s \<and> \<not> ends_open s"
begin

lemma stmt_in: "rs_stmt rc c lx = Inr (s, lx') \<Longrightarrow> in_ctx c s \<and> (ends_open s \<longrightarrow> curtok lx' \<noteq> Kw token_else)"
  using stmt [of c lx] by (simp add: good_def)

lemma good_if: "good c (parse_if E rc n c lx)"
  unfolding parse_if_def Let_def
  by (intro good_bind) (auto simp: good_Inr in_ctx_def split: prod.splits dest!: stmt_in acc_else intro!: good_bind)

lemma good_loops:
  "good c (parse_switch E rc n c lx)" "good c (parse_do E rc n c lx)" "good c (parse_while E rc n c lx)"
  "good c (parse_for E rc n c lx)"
  unfolding parse_switch_def parse_do_def parse_while_def parse_for_def Let_def
  by (auto simp: good_Inr in_ctx_def split: prod.splits dest!: stmt_in intro!: good_bind)

lemma good_labels:
  "good c (parse_case E rc n c lx)" "good c (parse_default E rc c lx)" "good c (parse_label E rc n c lx)"
  unfolding parse_case_def parse_default_def parse_label_def
  by (auto simp: good_Inr in_ctx_def split: prod.splits option.splits dest!: stmt_in intro!: good_bind)

lemma good_jump: "good c (parse_jump E n c lx)"
  unfolding parse_jump_def
  by (auto simp: good_Inr in_ctx_def bindE_eq_Inr split: prod.splits if_splits intro!: good_bind)

lemma good_block: "good c (parse_stmt_block E rc sc (Some (c\<lparr>parsing_unbraced_if := b\<rparr>)) lx)"
  unfolding parse_stmt_block_def Let_def
  by (auto simp: good_Inr in_ctx_def split: prod.splits dest!: decls intro!: good_bind)

lemma good_expr: "good c (expr_stmt E n c lx)"
  unfolding expr_stmt_def by (auto simp: good_Inr in_ctx_def split: prod.splits intro!: good_bind)

lemma good_apply:
  assumes "in_ctx c s" "ends_open s \<longrightarrow> curtok lx \<noteq> Kw token_else"
  shows "good c (apply_stmt_attrs s attrs lx)"
  using assms unfolding apply_stmt_attrs_def
  by (auto simp: good_Inr in_ctx_def split: prod.splits intro!: good_bind)

lemma good_with_attrs: "good c (parse_stmt_with_attrs E rc n as c lx)"
proof -
  have semi: "good c (bindE (eats E token_semicolon lx) (\<lambda>lx. Inr (S_noop False, lx)))" for lx
    by (auto simp: good_Inr in_ctx_def intro: good_bind)
  have lbl: "good c (bindE (tok_at_label lx) (\<lambda>(lbl, lx). if lbl then parse_label E rc n c lx else expr_stmt E n c lx))" for lx
    by (auto intro!: good_bind simp: good_labels good_expr split: prod.split)
  show ?thesis
    unfolding parse_stmt_with_attrs_def
    by (intro good_bind)
       (auto split: prod.split intro!: good_then good_apply intro: semi lbl good_jump good_if good_loops good_block
         good_labels good_expr)
qed

lemma block_stmts_in:
  "list_all (in_ctx c) ss \<Longrightarrow> ensures (block_stmts E rc n sc c as ss lx) (\<lambda>r. list_all (in_ctx c) (snd (snd (fst r))))"
proof (induction n arbitrary: as ss lx)
  case (Suc n)
  have lb: "in_ctx c s" if "parse_label E rc n c l = Inr (s, l')" for s l l'
    using good_labels(3) [of c E n l] that by (simp add: good_def)
  have st: "in_ctx c s" if "parse_stmt_with_attrs E rc n as c l = Inr (s, l')" for s l l' as
    using good_with_attrs [of c E n as l] that by (simp add: good_def)
  show ?case
    unfolding block_stmts.simps Let_def
    using Suc.prems by (auto split: prod.split intro!: ensures_bind Suc.IH dest!: lb st)
qed simp

lemma and_decls_in: "ensures (parse_stmt_and_decls E rc n b as c lx) (\<lambda>r. in_ctx c (fst r) \<and> \<not> ends_open (fst r))"
proof -
  have c: "in_ctx (c\<lparr>sc_scope := k\<rparr>) = in_ctx c" for k by (simp add: in_ctx_def fun_eq_iff)
  have code: "in_ctx c (S_code k ss) = list_all (in_ctx c) ss" for k ss by (simp add: in_ctx_def list_all_iff)
  have blk: "list_all (in_ctx c) ss"
    if "block_stmts E rc n sc (c\<lparr>sc_scope := k\<rparr>) as' [] l = Inr ((as'', d, ss), l')" for sc k as' l as'' d ss l'
    using block_stmts_in [of "c\<lparr>sc_scope := k\<rparr>" "[]" E n sc as' l] that by (simp add: ensures_def c)
  have dc: "in_ctx c s" if "rs_decls rc b as' (c\<lparr>sc_scope := k\<rparr>) l = Inr (s, l')" for b as' k l s l'
    using decls [OF that] by (simp add: c)
  show ?thesis
    unfolding parse_stmt_and_decls_def Let_def
    by (auto simp: code split: prod.split intro!: ensures_bind dest!: blk dc)
qed

end

lemma stmt_parsers_good: "good_parsers (stmt_parsers E n)"
proof (induction n)
  case 0
  show ?case by unfold_locales auto
next
  case (Suc n)
  show ?case
  proof unfold_locales
    show "good c (rs_stmt (stmt_parsers E (Suc n)) c lx)" for c lx
      using good_parsers.good_with_attrs [OF Suc] by (simp add: parse_stmt_def)
    show "rs_decls (stmt_parsers E (Suc n)) b as c lx = Inr (s, lx') \<Longrightarrow> in_ctx c s \<and> \<not> ends_open s" for b as c lx s lx'
      using good_parsers.and_decls_in [OF Suc, of E n b as c lx] by (simp add: ensures_def)
  qed
qed

interpretation stmts: good_parsers "stmt_parsers E n" for E :: "('f, 'x) stmt_env" and n
  by (rule stmt_parsers_good)

text \<open>
  C16: In every block that is parsed, each \<^verbatim>\<open>break\<close> refers to the innermost loop or switch around it,
  each \<^verbatim>\<open>continue\<close> to the innermost loop and each \<^verbatim>\<open>case\<close> and \<^verbatim>\<open>default\<close> to the innermost switch, and has no
  parent exactly when there is none; and no statement that ends with an open \<^verbatim>\<open>if\<close> stands before an
  \<^verbatim>\<open>else\<close>, so that an \<^verbatim>\<open>else\<close> belongs to the nearest \<^verbatim>\<open>if\<close>.
\<close>

theorem jumps_and_else:
  assumes "parse_stmt_block E (stmt_parsers E n) scope None lx = Inr (s, lx')"
  shows "targets_ok 0 None None None s \<and>
    (\<forall>c l s' l'. parse_stmt E (stmt_parsers E n) n c l = Inr (s', l') \<longrightarrow>
      targets_ok (sc_depth c) (continue_target c) (break_target c) (switch_target c) s' \<and>
      (ends_open s' \<longrightarrow> curtok l' \<noteq> Kw token_else))"
proof -
  have "targets_ok 0 None None None s"
    using assms by (auto simp: parse_stmt_block_def bindE_eq_Inr in_ctx_def dest!: stmts.decls split: prod.splits)
  moreover have "in_ctx c s' \<and> (ends_open s' \<longrightarrow> curtok l' \<noteq> Kw token_else)"
    if "parse_stmt E (stmt_parsers E n) n c l = Inr (s', l')" for c l s' l'
    using stmts.good_with_attrs that by (metis good_Inr parse_stmt_def)
  ultimately show ?thesis unfolding in_ctx_def by blast
qed

section \<open>Examples\<close>

definition example_attr :: "(nat, unit) pstate \<Rightarrow> (nat, unit, attribute list) presult" where
  "example_attr lx =
     bindE (token_eat_identifier example_lex_env None lx) (\<lambda>(s, lx).
       Inr (if s = Some ''fallthrough'' then [\<lparr>at_kind = attr_fallthrough, at_align = None\<rparr>] else [], lx))"

definition example_stmt_env :: "(nat, unit) stmt_env" where
  "example_stmt_env =
     \<lparr>se_expr = (\<lambda>_. \<lparr>pc_env = example_lex_env, pc_parse_type = (\<lambda>lx. Inr (None, lx)),
        pc_parse_init = (\<lambda>_ _. Inl (Died ''init'')), pc_parse_stmt_block = (\<lambda>_. Inl (Died ''block'')),
        pc_parse_block = (\<lambda>_. Inl (Died ''block'')), pc_builtin_parse = (\<lambda>_ lx. Inr (None, lx))\<rparr>),
      se_std_c99 = True, se_parse_decl = (\<lambda>_ _. Inl (Died ''decl'')), se_decl_group = (\<lambda>_ _ _ lx. Inr ((False, []), lx)),
      se_parse_attr = (\<lambda>_. example_attr), se_fold_expr = (\<lambda>e _ lx. Inr (e, lx)), se_fold_nodecay = (\<lambda>e _ lx. Inr (e, lx)),
      se_flow_check = (\<lambda>_. Inr), se_fold_stmt = (\<lambda>e _ lx. Inr (e, lx)), se_dup_check = (\<lambda>_. Inr)\<rparr>"

definition example_state :: "(nat, unit) pstate" where
  "example_state =
     lexer.extend lexer_init (pstate.fields
       \<lparr>sh_tabs = [empty_tab], sh_decls = [], sh_syms = [], sh_labels = [], sh_tags = []\<rparr> False [])"

text \<open>Parse a line of text as a block, from the characters on.\<close>

definition parse_text :: "nat \<Rightarrow> string \<Rightarrow> (nat, unit, (nat, unit) cstmt) presult" where
  "parse_text n line =
     bindE (tokenise_set_input example_lex_env [line] ''a.c'' example_state)
       (parse_stmt_block example_stmt_env (stmt_parsers example_stmt_env n) 0 None)"

text \<open>Unfold the argument of a bind before its continuation.\<close>

lemma bindE_weak: "m = m' \<Longrightarrow> bindE m f = bindE m' f" by simp

lemma rs_num:
  "rs_stmt (stmt_parsers E (Suc n)) = parse_stmt E (stmt_parsers E n) n"
  "rs_decls (stmt_parsers E (Suc n)) = parse_stmt_and_decls E (stmt_parsers E n) n"
  by simp_all

lemma nt_num: "nexttoken_n env (numeral k) lx = nexttoken_step env (nexttoken_n env (pred_numeral k)) lx"
  "nextchar_loop (numeral k) lx = nextchar_loop (Suc (pred_numeral k)) lx"
  "tok_at_label_n (numeral k) lx = tok_at_label_n (Suc (pred_numeral k)) lx"
  "parse_binary C rec n st (numeral k) l = parse_binary C rec n st (Suc (pred_numeral k)) l"
  by (simp_all add: numeral_eq_Suc)

text \<open>The definitions that the evaluation of a parse unfolds.\<close>

lemmas stmt_eval =
  parse_text_def example_attr_def example_state_def lexer_init_def lexer.extend_def pstate.fields_def
  example_lex_env_def example_stmt_env_def rs_num nt_num tok_at_label_def
  FNAME_STACK_N_def set_chr_def handle_pragma_ucc_def pragma_handle_def set_current_fname_def update_stack_def
  push_fname_def pop_fname_def handle_line_file_directive_def strtol0_def parse_line_directive_def
  tokenise_read_line_def tokenise_next_line_def buf_rest_def first_char_def buf_char_def as_int_def
  update_bufferpos_def rawnextchar_def char_is_cspace_def remaining_def nextchar_def skipchar_def
  peeknextchar_def opt_is_def skip_to_end_of_num_def read_integer_def read_suffix_float_exp_def
  read_suffix_float_def read_suffix_int_def read_suffix_def read_prefix_def read_floating_def read_number_def
  handle_escape_warn_err_def read_string_def ungetchar_def read_string_multiple_def read_char_def eat2_def
  eat_def token_get_current_str_def lex_pragma_def word_char_def lex_word_def lex_dot_def choose_next_def
  punctuation_def lex_punctuation_def lex_xequal_def lex_slash_def lex_from_def nexttoken_step_def nexttoken_def
  tokenise_set_input_def tokenise_set_mode_def token_accept_identifier_def token_eat_identifier_def accept_def
  uneat_def curtok_in_list_def eat_curtok_to_identifier_def expr_new_val_def EAT_def parse_expr_identifier_def
  parse_expr__Generic_def parse_expr_primary_def parse_funcargs_def postfix_step_def parse_expr_postfix_def
  what_token_def parse_expr_sizeof_typeof_alignof_def parse_expr_unary_def parse_expr_generic_def
  binary_levels_def parse_expr_logical_or_def parse_expr_conditional_def parse_expr_assignment_def
  parse_expr_exp_def parse_asciz_str_def on_heap_def exp_in_def no_comma_in_def parse_at_tdef_def
  at_decl_here_def parse_at_decl_def parse_test_init_expr_def parse_if_def parse_switch_def parse_do_def
  parse_while_def for_part_def parse_for_def parse_label_def apply_stmt_attrs_def parse_jump_def parse_case_def
  parse_default_def parse_stmt_block_def expr_stmt_def parse_stmt_with_attrs_def parse_stmt_def
  add_attr_to_decls_def parse_stmt_and_decls_def parse_gasm_def tab_def put_tab_def decl_at_def empty_tab_def
  symtab_add_target_def symtab_add_to_scope2_def symtab_add_to_scope_def symtab_insert_before_def
  symtab_add_sue_def sym_new_def sym_new_and_prepend_decl_def symtab_rm_parent_def symtab_set_parent_def
  symtab_new_def symtab_new_transparent_def symtabg_new_def symtab_root_def symtab_func_root_def
  symtab_nested_internal_def enum_member_find_def symtab_search_def symtab_is_transparent_def label_init_def
  label_new_def label_set_def symtab_label_add_local_def symtab_label_add_def symtab_label_find_or_new_def
  sym_outval_def sym_setoutval_def pop_fnames.simps read_flags.simps find_fname.simps read_line_loop.simps
  fill_buffer.simps nextchar_loop.simps base_suffix.simps suffix_int_loop.simps handle_escapes.simps
  read_string_loop.simps skip_comment.simps nexttoken_n.simps tok_at_label_n.simps set_in_parens.simps
  unparen.simps generic_labels.simps funcargs_loop.simps parse_expr_postfix_with.simps generic_loop.simps
  parse_binary.simps accept_all.simps parse_add_attr_out.simps parse_static_assert.simps local_label_names.simps
  parse_local_labels.simps is_noop.simps decl_groups.simps block_stmts.simps add_target.simps root_n.simps
  func_root_n.simps nested_internal_n.simps enum_member_search_nodescend.simps decl_search.simps search_n.simps
  label_find_n.simps decls_bytes.simps symtab_decl_bytes.simps Let_def find_keyword_def
  curtok_is_type_primitive_def curtok_is_type_qual_def curtok_is_decl_store_def
  curtok_is_compound_assignment_def curtok_is_xequal_def quoted_def isspace_def isdigit_def isalpha_def
  isupper_def islower_def isalnum_def char_code_def keyword_table_def

lemma nested_loops_parsed:
  "map_sum id fst (parse_text (Suc (Suc (Suc (Suc (Suc (Suc (Suc (Suc 0))))))))
     ''{ for ( ; ; ) { for ( ; ; ) continue ; break ; } default : ; }'') =
   Inr (S_code (Suc 0)
     [S_for 0 (Suc (Suc 0)) None None None
        (S_code (Suc (Suc (Suc 0)))
           [S_for (Suc 0) (Suc (Suc (Suc (Suc 0)))) None None None (S_continue (Some (Suc 0))), S_break (Some 0)]),
      S_default None (S_noop False)])"
  by (simp add: stmt_eval del: stmt_parsers.simps parsers.simps cong: bindE_weak let_weak_cong)

theorem jumps_and_else_witness:
  "\<exists>lx s lx'.
     tokenise_set_input example_lex_env [''{ for ( ; ; ) { for ( ; ; ) continue ; break ; } default : ; }''] ''a.c'' example_state = Inr lx \<and>
     parse_stmt_block example_stmt_env (stmt_parsers example_stmt_env (Suc (Suc (Suc (Suc (Suc (Suc (Suc (Suc 0))))))))) 0 None lx = Inr (s, lx') \<and>
     targets_ok 0 None None None s"
proof -
  obtain lx s lx' where
    "tokenise_set_input example_lex_env [''{ for ( ; ; ) { for ( ; ; ) continue ; break ; } default : ; }''] ''a.c'' example_state = Inr lx"
    and p: "parse_stmt_block example_stmt_env (stmt_parsers example_stmt_env (Suc (Suc (Suc (Suc (Suc (Suc (Suc (Suc 0))))))))) 0 None lx = Inr (s, lx')"
    using nested_loops_parsed by (auto simp: parse_text_def bindE_def map_sum_def split: sum.splits)
  then show ?thesis using jumps_and_else [OF p] by blast
qed

text \<open>
  An attribute before a label is not reported: the second call of \<^verbatim>\<open>parse_add_attr_out\<close> has set
  \<^verbatim>\<open>got_attribute\<close> to 0, and the attribute goes to the statement after the label's.
\<close>

lemma label_keeps_attribute:
  "map_sum id (\<lambda>(s, lx). (s, ps_fold_error lx)) (parse_text (Suc (Suc (Suc (Suc (Suc (Suc (Suc (Suc 0))))))))
     ''{ ; __attribute__ ( ( fallthrough ) ) l : ; ; default : ; }'') =
   Inr (S_code (Suc 0) [S_noop False, S_label ''l'' False (S_noop False), S_noop True, S_default None (S_noop False)], False)"
  by (simp add: stmt_eval del: stmt_parsers.simps parsers.simps cong: bindE_weak let_weak_cong)

end
