(* ===== verification/Ucc_Blk.thy ===== *)
theory Ucc_Blk
  imports Ucc_Prelude
begin

text \<open>
  Basic blocks, \<^verbatim>\<open>src/cc1/out/blk.c\<close>, and the transfers between them, \<^verbatim>\<open>src/cc1/out/ctrl.c\<close>.

  A function under construction is a heap of blocks; a pointer to a block is its index.  A block
  holds its instructions as text and ends in one of the ways of \<^verbatim>\<open>enum\<close> \<^verbatim>\<open>type\<close>.  The blocks are
  written out as lines of assembler, with jumps only where the next block is not the one written
  next.  Values merged at the end of a block (\<^verbatim>\<open>phi_val\<close>), debug labels and comments are left
  out.  Values held in the flags are saved with the registers before a block ends; no call of
  \<^verbatim>\<open>out_current_blk\<close> here finds one.
\<close>

section \<open>Blocks and the context\<close>

datatype blk_type =
    BLK_UNINIT
  | BLK_TERMINAL
  | BLK_NEXT_BLOCK nat
  | BLK_NEXT_EXPR
  | BLK_COND string nat nat bool

record out_blk =
  bk_desc :: string
  bk_lbl :: "string option"
  bk_force_lbl :: "string option"
  bk_insns :: "string list"
  bk_merge_preds :: "nat list"
  bk_align :: nat
  bk_reachable :: bool
  bk_emitted :: bool
  bk_type :: blk_type

record out_ctx =
  oc_blks :: "out_blk list"
  oc_current :: "nat option"
  oc_last_used :: "nat option"
  oc_mustgen :: "nat list"
  oc_epilogue :: nat
  oc_nblks :: nat

definition blk_at :: "out_blk list \<Rightarrow> nat \<Rightarrow> out_blk outcome" where
  "blk_at bs b = (if b < length bs then Inr (bs ! b) else Inl Out_of_bounds)"

definition upd_blk :: "nat \<Rightarrow> (out_blk \<Rightarrow> out_blk) \<Rightarrow> 'a out_ctx_scheme \<Rightarrow> 'a out_ctx_scheme outcome" where
  "upd_blk b f oc = bindE (blk_at (oc_blks oc) b) (\<lambda>k. Inr (oc\<lparr>oc_blks := (oc_blks oc)[b := f k]\<rparr>))"

definition blk_is_empty :: "out_blk \<Rightarrow> bool" where
  "blk_is_empty k \<longleftrightarrow> bk_insns k = []"

section \<open>New blocks\<close>

definition blk_new_common :: "string \<Rightarrow> string \<Rightarrow> 'a out_ctx_scheme \<Rightarrow> nat \<times> 'a out_ctx_scheme" where
  "blk_new_common lbl desc oc =
     (length (oc_blks oc),
      oc\<lparr>oc_blks := oc_blks oc @ [\<lparr>bk_desc = desc, bk_lbl = Some lbl, bk_force_lbl = None, bk_insns = [], bk_merge_preds = [],
        bk_align = 0, bk_reachable = False, bk_emitted = False, bk_type = BLK_UNINIT\<rparr>]\<rparr>)"

definition out_blk_new_lbl :: "string \<Rightarrow> 'a out_ctx_scheme \<Rightarrow> nat \<times> 'a out_ctx_scheme" where
  "out_blk_new_lbl lbl oc = blk_new_common lbl lbl oc"

text \<open>Decimal digits, as \<^verbatim>\<open>%lu\<close> prints them.\<close>

fun decimal :: "nat \<Rightarrow> string" where
  "decimal n = (if n < 10 then [char_of (48 + n)] else decimal (n div 10) @ [char_of (48 + n mod 10)])"

declare decimal.simps [simp del]

text \<open>The buffer has 16 bytes; \<^verbatim>\<open>xsnprintf\<close> fails an assertion when the text does not fit.\<close>

definition out_label_bblock :: "string \<Rightarrow> nat \<Rightarrow> string outcome" where
  "out_label_bblock privatelbl_prefix n =
     (let s = privatelbl_prefix @ ''blk.'' @ decimal n in
      if length s < 16 then Inr s else Inl (Ice ''snprintf() overflow''))"

definition out_blk_new :: "string \<Rightarrow> string \<Rightarrow> 'a out_ctx_scheme \<Rightarrow> (nat \<times> 'a out_ctx_scheme) outcome" where
  "out_blk_new pre desc oc =
     bindE (out_label_bblock pre (oc_nblks oc)) (\<lambda>lbl.
       Inr (blk_new_common lbl desc (oc\<lparr>oc_nblks := Suc (oc_nblks oc)\<rparr>)))"

definition out_blk_mustgen :: "nat \<Rightarrow> string option \<Rightarrow> 'a out_ctx_scheme \<Rightarrow> 'a out_ctx_scheme outcome" where
  "out_blk_mustgen b force_lbl oc =
     bindE (if force_lbl = None then Inr oc else upd_blk b (\<lambda>k. k\<lparr>bk_force_lbl := force_lbl\<rparr>) oc) (\<lambda>oc.
       Inr (oc\<lparr>oc_mustgen := oc_mustgen oc @ [b]\<rparr>))"

definition blk_transfer :: "nat \<Rightarrow> nat \<Rightarrow> 'a out_ctx_scheme \<Rightarrow> 'a out_ctx_scheme outcome" where
  "blk_transfer from to oc =
     bindE (blk_at (oc_blks oc) from) (\<lambda>f.
     bindE (upd_blk to (\<lambda>k. k\<lparr>bk_lbl := bk_lbl f, bk_align := bk_align f\<rparr>) oc) (\<lambda>oc.
     upd_blk from (\<lambda>k. k\<lparr>bk_lbl := None, bk_align := 0\<rparr>) oc))"

section \<open>The end of a block\<close>

text \<open>Append an instruction to the current block, or drop it in code that is not reached.\<close>

definition blk_add_insn :: "string \<Rightarrow> 'a out_ctx_scheme \<Rightarrow> 'a out_ctx_scheme outcome" where
  "blk_add_insn insn oc =
     (case oc_current oc of None \<Rightarrow> Inr oc | Some b \<Rightarrow> upd_blk b (\<lambda>k. k\<lparr>bk_insns := bk_insns k @ [insn]\<rparr>) oc)"

definition blk_terminate_condjmp :: "string \<Rightarrow> nat \<Rightarrow> nat \<Rightarrow> bool \<Rightarrow> 'a out_ctx_scheme \<Rightarrow> 'a out_ctx_scheme outcome" where
  "blk_terminate_condjmp condinsn condto uncondto unlikely oc =
     (case oc_current oc of
        None \<Rightarrow> Inr oc
      | Some b \<Rightarrow>
        bindE (blk_at (oc_blks oc) b) (\<lambda>k.
          if bk_type k \<noteq> BLK_UNINIT then Inl (Assert_failed ''overwriting .next?'')
          else bindE (upd_blk b (\<lambda>k. k\<lparr>bk_type := BLK_COND condinsn condto uncondto unlikely\<rparr>) oc) (\<lambda>oc.
            Inr (oc\<lparr>oc_current := None\<rparr>))))"

definition blk_terminate_undef :: "nat option \<Rightarrow> 'a out_ctx_scheme \<Rightarrow> 'a out_ctx_scheme outcome" where
  "blk_terminate_undef b oc = (case b of None \<Rightarrow> Inr oc | Some b \<Rightarrow> upd_blk b (\<lambda>k. k\<lparr>bk_type := BLK_TERMINAL\<rparr>) oc)"

definition out_current_blk :: "nat \<Rightarrow> 'a out_ctx_scheme \<Rightarrow> 'a out_ctx_scheme" where
  "out_current_blk b oc = oc\<lparr>oc_last_used := Some b, oc_current := Some b\<rparr>"

definition out_ctx_current_blk_is_empty :: "'a out_ctx_scheme \<Rightarrow> bool outcome" where
  "out_ctx_current_blk_is_empty oc =
     (case oc_current oc of
        None \<Rightarrow> Inr True
      | Some b \<Rightarrow> bindE (blk_at (oc_blks oc) b) (\<lambda>k. Inr (blk_is_empty k)))"

text \<open>\<^verbatim>\<open>out_ctrl_transfer\<close> without a value; the registers to be saved first are the argument \<open>spill\<close>.\<close>

definition out_ctrl_transfer :: "('a out_ctx_scheme \<Rightarrow> 'a out_ctx_scheme outcome) \<Rightarrow> nat \<Rightarrow> 'a out_ctx_scheme \<Rightarrow> 'a out_ctx_scheme outcome" where
  "out_ctrl_transfer spill to oc0 =
     bindE (spill oc0) (\<lambda>oc.
       case oc_last_used oc of
         None \<Rightarrow> Inl (Assert_failed ''octx->last_used_blk'')
       | Some lastb \<Rightarrow>
         (case oc_current oc0 of
            None \<Rightarrow> upd_blk to (\<lambda>k. k\<lparr>bk_merge_preds := bk_merge_preds k @ [lastb]\<rparr>) oc
          | Some f \<Rightarrow>
            bindE (upd_blk to (\<lambda>k. k\<lparr>bk_merge_preds := bk_merge_preds k @ [f]\<rparr>) oc) (\<lambda>oc.
            bindE (blk_at (oc_blks oc) f) (\<lambda>k.
              if bk_type k \<noteq> BLK_UNINIT then Inl (Assert_failed ''from->type == BLK_UNINIT'')
              else bindE (upd_blk f (\<lambda>k. k\<lparr>bk_type := BLK_NEXT_BLOCK to\<rparr>) oc) (\<lambda>oc. Inr (oc\<lparr>oc_current := None\<rparr>))))))"

definition out_ctrl_transfer_make_current :: "('a out_ctx_scheme \<Rightarrow> 'a out_ctx_scheme outcome) \<Rightarrow> nat \<Rightarrow> 'a out_ctx_scheme \<Rightarrow> 'a out_ctx_scheme outcome" where
  "out_ctrl_transfer_make_current spill to oc =
     bindE (out_ctrl_transfer spill to oc) (\<lambda>oc. Inr (out_current_blk to oc))"

section \<open>Reachable blocks\<close>

fun blk_succs :: "blk_type \<Rightarrow> nat list" where
  "blk_succs (BLK_NEXT_BLOCK n) = [n]"
| "blk_succs (BLK_COND _ a b _) = [a, b]"
| "blk_succs _ = []"

text \<open>
  \<^verbatim>\<open>mark_reachable_blocks\<close>.  Every call but the ones that return at once marks a block, so that the
  depth of the recursion is at most the number of blocks.
\<close>

primrec mark_reachable_blocks :: "nat \<Rightarrow> nat \<Rightarrow> out_blk list \<Rightarrow> out_blk list outcome" where
  "mark_reachable_blocks 0 b bs = Inl Out_of_fuel"
| "mark_reachable_blocks (Suc n) b bs =
     bindE (blk_at bs b) (\<lambda>k.
       if bk_reachable k then Inr bs
       else
         let bs = bs[b := k\<lparr>bk_reachable := True\<rparr>] in
         case bk_type k of
           BLK_UNINIT \<Rightarrow> Inl (Assert_failed ''0'')
         | BLK_TERMINAL \<Rightarrow> Inr bs
         | BLK_NEXT_EXPR \<Rightarrow> Inr bs
         | BLK_NEXT_BLOCK next \<Rightarrow> mark_reachable_blocks n next bs
         | BLK_COND _ if_0 if_1 _ \<Rightarrow> bindE (mark_reachable_blocks n if_0 bs) (mark_reachable_blocks n if_1))"

section \<open>Writing the blocks\<close>

datatype asm_line =
    Ln_align nat
  | Ln_label string
  | Ln_insn string
  | Ln_cond string
  | Ln_jmp string

record flush_state =
  fs_jmpto :: "nat option"
  fs_lines :: "asm_line list"
  fs_blks :: "out_blk list"

definition asm_out :: "asm_line list \<Rightarrow> flush_state \<Rightarrow> flush_state" where
  "asm_out ls st = st\<lparr>fs_lines := fs_lines st @ ls\<rparr>"

definition lbl_of :: "out_blk list \<Rightarrow> nat \<Rightarrow> string outcome" where
  "lbl_of bs b = bindE (blk_at bs b) (\<lambda>k. case bk_lbl k of None \<Rightarrow> Inl Null_deref | Some l \<Rightarrow> Inr l)"

definition blk_jmpnext :: "nat \<Rightarrow> flush_state \<Rightarrow> flush_state outcome" where
  "blk_jmpnext to st = (if fs_jmpto st \<noteq> None then Inl (Assert_failed ''!st->jmpto'') else Inr (st\<lparr>fs_jmpto := Some to\<rparr>))"

definition JMP_THREAD_LIM :: nat where
  "JMP_THREAD_LIM = 10"

primrec thread_jumps :: "nat \<Rightarrow> out_blk list \<Rightarrow> nat \<Rightarrow> nat outcome" where
  "thread_jumps 0 bs to = Inr to"
| "thread_jumps (Suc n) bs to =
     bindE (blk_at bs to) (\<lambda>k.
       case bk_type k of
         BLK_NEXT_BLOCK next \<Rightarrow> if blk_is_empty k then thread_jumps n bs next else Inr to
       | _ \<Rightarrow> Inr to)"

definition blk_jmpthread :: "bool \<Rightarrow> nat \<Rightarrow> flush_state \<Rightarrow> flush_state outcome" where
  "blk_jmpthread fopt_thread_jumps to st =
     bindE (if fopt_thread_jumps then thread_jumps JMP_THREAD_LIM (fs_blks st) to else Inr to) (\<lambda>to.
     bindE (lbl_of (fs_blks st) to) (\<lambda>l. Inr (asm_out [Ln_jmp l] st)))"

definition blk_codegen :: "bool \<Rightarrow> nat \<Rightarrow> flush_state \<Rightarrow> flush_state outcome" where
  "blk_codegen thr b st =
     bindE (case fs_jmpto st of
              None \<Rightarrow> Inr st
            | Some to \<Rightarrow>
              bindE (if to \<noteq> b then blk_jmpthread thr to st else Inr st) (\<lambda>st. Inr (st\<lparr>fs_jmpto := None\<rparr>))) (\<lambda>st.
     bindE (blk_at (fs_blks st) b) (\<lambda>k.
     bindE (lbl_of (fs_blks st) b) (\<lambda>l.
       Inr (asm_out
         ((if bk_align k = 0 then [] else [Ln_align (bk_align k)]) @ [Ln_label l] @
          (case bk_force_lbl k of None \<Rightarrow> [] | Some f \<Rightarrow> [Ln_label f]) @ map Ln_insn (bk_insns k)) st))))"

text \<open>\<^verbatim>\<open>bfs_block\<close>; as above, every call that does not return at once marks a block as written.\<close>

primrec bfs_each :: "(nat \<Rightarrow> flush_state \<Rightarrow> flush_state outcome) \<Rightarrow> nat list \<Rightarrow> flush_state \<Rightarrow> flush_state outcome" where
  "bfs_each f [] st = Inr st"
| "bfs_each f (b # bs) st = bindE (f b st) (bfs_each f bs)"

primrec bfs_block :: "bool \<Rightarrow> nat \<Rightarrow> nat \<Rightarrow> flush_state \<Rightarrow> flush_state outcome" where
  "bfs_block thr 0 b st = Inl Out_of_fuel"
| "bfs_block thr (Suc n) b st =
     bindE (blk_at (fs_blks st) b) (\<lambda>k.
       if bk_emitted k \<or> \<not> bk_reachable k then Inr st
       else
         bindE (bfs_each (bfs_block thr n) (bk_merge_preds k) (st\<lparr>fs_blks := (fs_blks st)[b := k\<lparr>bk_emitted := True\<rparr>]\<rparr>)) (\<lambda>st.
         case bk_type k of
           BLK_UNINIT \<Rightarrow> Inl (Assert_failed ''uninitialised block type'')
         | BLK_TERMINAL \<Rightarrow> blk_codegen thr b st
         | BLK_NEXT_EXPR \<Rightarrow> blk_codegen thr b st
         | BLK_NEXT_BLOCK next \<Rightarrow>
             bindE (blk_codegen thr b st) (\<lambda>st. bindE (blk_jmpnext next st) (bfs_block thr n next))
         | BLK_COND insn if_0 if_1 unlikely \<Rightarrow>
             bindE (blk_codegen thr b st) (\<lambda>st.
             bindE (blk_jmpnext if_1 (asm_out [Ln_cond insn] st)) (\<lambda>st.
               if unlikely then bindE (bfs_block thr n if_0 st) (bfs_block thr n if_1)
               else bindE (bfs_block thr n if_1 st) (bfs_block thr n if_0)))))"

primrec mark_each :: "nat \<Rightarrow> nat list \<Rightarrow> out_blk list \<Rightarrow> out_blk list outcome" where
  "mark_each n [] bs = Inr bs"
| "mark_each n (b # rest) bs = bindE (mark_reachable_blocks n b bs) (mark_each n rest)"

definition blk_flushall :: "bool \<Rightarrow> nat \<Rightarrow> 'a out_ctx_scheme \<Rightarrow> asm_line list outcome" where
  "blk_flushall thr first oc =
     (let n = Suc (length (oc_blks oc)) in
      bindE (mark_each n (first # oc_mustgen oc) (oc_blks oc)) (\<lambda>bs.
      bindE (bfs_each (bfs_block thr n) (first # oc_mustgen oc) \<lparr>fs_jmpto = None, fs_lines = [], fs_blks = bs\<rparr>) (\<lambda>st.
        case fs_jmpto st of
          None \<Rightarrow> Inr (fs_lines st)
        | Some to \<Rightarrow> bindE (lbl_of (fs_blks st) to) (\<lambda>l. Inr (fs_lines st @ [Ln_jmp l])))))"

end
