(* ===== verification/Ucc_Blk_Emit.thy ===== *)
theory Ucc_Blk_Emit
  imports Ucc_Blk
begin

text \<open>
  The lines written for a graph of blocks run as the graph does.  An instruction is a change of the
  machine state, and the text of a conditional jump gives the label it goes to, if it jumps; both are
  arguments.
\<close>

section \<open>Running a graph and running lines\<close>

definition gnext ::
  "(string \<Rightarrow> 's \<Rightarrow> 's) \<Rightarrow> (string \<Rightarrow> 's \<Rightarrow> string option) \<Rightarrow> out_blk list \<Rightarrow> nat \<times> 's \<Rightarrow> (nat \<times> 's) option" where
  "gnext ex jp bs x =
     (case x of (b, s) \<Rightarrow>
       if b < length bs then
         let t = fold ex (bk_insns (bs ! b)) s in
         case bk_type (bs ! b) of
           BLK_NEXT_BLOCK n \<Rightarrow> Some (n, t)
         | BLK_COND i if_0 if_1 _ \<Rightarrow> Some (if jp i t = bk_lbl (bs ! if_0) then if_0 else if_1, t)
         | _ \<Rightarrow> None
       else None)"

definition gruns ::
  "(string \<Rightarrow> 's \<Rightarrow> 's) \<Rightarrow> (string \<Rightarrow> 's \<Rightarrow> string option) \<Rightarrow> out_blk list \<Rightarrow> nat \<times> 's \<Rightarrow> nat \<times> 's \<Rightarrow> bool" where
  "gruns ex jp bs = (\<lambda>x y. gnext ex jp bs x = Some y)\<^sup>*\<^sup>*"

primrec label_pos :: "asm_line list \<Rightarrow> string \<Rightarrow> nat option" where
  "label_pos [] l = None"
| "label_pos (x # xs) l = (if x = Ln_label l then Some 0 else map_option Suc (label_pos xs l))"

definition anext ::
  "(string \<Rightarrow> 's \<Rightarrow> 's) \<Rightarrow> (string \<Rightarrow> 's \<Rightarrow> string option) \<Rightarrow> asm_line list \<Rightarrow> nat \<times> 's \<Rightarrow> (nat \<times> 's) option" where
  "anext ex jp P x =
     (case x of (pc, s) \<Rightarrow>
       if pc < length P then
         case P ! pc of
           Ln_insn i \<Rightarrow> Some (Suc pc, ex i s)
         | Ln_jmp l \<Rightarrow> map_option (\<lambda>p. (p, s)) (label_pos P l)
         | Ln_cond i \<Rightarrow> (case jp i s of None \<Rightarrow> Some (Suc pc, s) | Some l \<Rightarrow> map_option (\<lambda>p. (p, s)) (label_pos P l))
         | _ \<Rightarrow> Some (Suc pc, s)
       else None)"

definition aruns ::
  "(string \<Rightarrow> 's \<Rightarrow> 's) \<Rightarrow> (string \<Rightarrow> 's \<Rightarrow> string option) \<Rightarrow> asm_line list \<Rightarrow> nat \<times> 's \<Rightarrow> nat \<times> 's \<Rightarrow> bool" where
  "aruns ex jp P = (\<lambda>x y. anext ex jp P x = Some y)\<^sup>*\<^sup>*"

section \<open>Well-formed graphs\<close>

definition blk_reach :: "out_blk list \<Rightarrow> nat set \<Rightarrow> nat set" where
  "blk_reach bs roots = {(x, y). x < length bs \<and> y \<in> set (blk_succs (bk_type (bs ! x)))}\<^sup>* `` roots"

definition blk_labels :: "out_blk \<Rightarrow> string list" where
  "blk_labels k = (case bk_lbl k of None \<Rightarrow> [] | Some l \<Rightarrow> [l]) @ (case bk_force_lbl k of None \<Rightarrow> [] | Some l \<Rightarrow> [l])"

text \<open>
  Pointers point to blocks, labels are unique, no flag is set, the blocks that can be reached have been
  ended, and a conditional jump goes to one of its two blocks.
\<close>

definition wf_graph :: "(string \<Rightarrow> 's \<Rightarrow> string option) \<Rightarrow> nat list \<Rightarrow> out_blk list \<Rightarrow> bool" where
  "wf_graph jp roots bs \<longleftrightarrow>
     (\<forall>b < length bs. set (blk_succs (bk_type (bs ! b))) \<union> set (bk_merge_preds (bs ! b)) \<subseteq> {..<length bs} \<and>
        bk_lbl (bs ! b) \<noteq> None \<and> \<not> bk_reachable (bs ! b) \<and> \<not> bk_emitted (bs ! b)) \<and>
     distinct (concat (map blk_labels bs)) \<and> set roots \<subseteq> {..<length bs} \<and>
     (\<forall>b \<in> blk_reach bs (set roots). bk_type (bs ! b) \<noteq> BLK_UNINIT) \<and>
     (\<forall>b < length bs. \<forall>i if_0 if_1 u. bk_type (bs ! b) = BLK_COND i if_0 if_1 u \<longrightarrow>
        (\<forall>s. jp i s \<in> {None, bk_lbl (bs ! if_0), bk_lbl (bs ! if_1)}))"

section \<open>Marking\<close>

definition flagged :: "out_blk list \<Rightarrow> nat set \<Rightarrow> nat set \<Rightarrow> out_blk list" where
  "flagged bs R E = map (\<lambda>i. (bs ! i)\<lparr>bk_reachable := i \<in> R, bk_emitted := i \<in> E\<rparr>) [0..<length bs]"

lemma length_flagged [simp]: "length (flagged bs R E) = length bs"
  by (simp add: flagged_def)

lemma nth_flagged:
  "b < length bs \<Longrightarrow> flagged bs R E ! b = (bs ! b)\<lparr>bk_reachable := b \<in> R, bk_emitted := b \<in> E\<rparr>"
  by (simp add: flagged_def)

lemma flagged_fields [simp]:
  assumes "b < length bs"
  shows "bk_type (flagged bs R E ! b) = bk_type (bs ! b)" "bk_insns (flagged bs R E ! b) = bk_insns (bs ! b)"
    "bk_merge_preds (flagged bs R E ! b) = bk_merge_preds (bs ! b)" "bk_lbl (flagged bs R E ! b) = bk_lbl (bs ! b)"
    "bk_force_lbl (flagged bs R E ! b) = bk_force_lbl (bs ! b)" "bk_align (flagged bs R E ! b) = bk_align (bs ! b)"
    "bk_reachable (flagged bs R E ! b) = (b \<in> R)" "bk_emitted (flagged bs R E ! b) = (b \<in> E)"
  using assms by (simp_all add: nth_flagged)

lemma blk_at_flagged [simp]: "b < length bs \<Longrightarrow> blk_at (flagged bs R E) b = Inr (flagged bs R E ! b)"
  by (simp add: blk_at_def)

lemma flagged_reach [simp]:
  "b < length bs \<Longrightarrow> (flagged bs R E)[b := (flagged bs R E ! b)\<lparr>bk_reachable := True\<rparr>] = flagged bs (insert b R) E"
  by (rule nth_equalityI) (auto simp: nth_list_update nth_flagged)

lemma flagged_emit [simp]:
  "b < length bs \<Longrightarrow> (flagged bs R E)[b := (flagged bs R E ! b)\<lparr>bk_emitted := True\<rparr>] = flagged bs R (insert b E)"
  by (rule nth_equalityI) (auto simp: nth_list_update nth_flagged)

lemma flagged_none:
  assumes "\<And>b. b < length bs \<Longrightarrow> \<not> bk_reachable (bs ! b) \<and> \<not> bk_emitted (bs ! b)"
  shows "flagged bs {} {} = bs"
  by (rule nth_equalityI) (use assms in \<open>auto simp: nth_flagged intro!: out_blk.equality\<close>)

text \<open>Marking visits a set that holds the start and is closed under successors.\<close>

definition visits :: "out_blk list \<Rightarrow> nat set \<Rightarrow> nat set \<Rightarrow> nat set \<Rightarrow> bool" where
  "visits bs R R' X \<longleftrightarrow> R \<subseteq> R' \<and> R' \<subseteq> {..<length bs} \<and> X \<subseteq> R' \<and>
     (\<forall>x \<in> R' - R. set (blk_succs (bk_type (bs ! x))) \<subseteq> R')"

lemma visits_trans: "visits bs R R1 X \<Longrightarrow> visits bs R1 R2 Y \<Longrightarrow> visits bs R R2 (X \<union> Y)"
  unfolding visits_def by blast

lemma visits_insert:
  "visits bs (insert b R) R' X \<Longrightarrow> set (blk_succs (bk_type (bs ! b))) \<subseteq> X \<Longrightarrow> visits bs R R' {b}"
  unfolding visits_def by (simp add: Ball_def) blast

lemma blk_reach_step:
  "b \<in> blk_reach bs X \<Longrightarrow> b < length bs \<Longrightarrow> c \<in> set (blk_succs (bk_type (bs ! b))) \<Longrightarrow> c \<in> blk_reach bs X"
  unfolding blk_reach_def by (auto intro: rtrancl_into_rtrancl)

lemma blk_reach_root: "b \<in> X \<Longrightarrow> b \<in> blk_reach bs X"
  unfolding blk_reach_def by auto

lemma blk_reach_closed:
  assumes "X \<subseteq> R" "\<And>x. x \<in> R \<Longrightarrow> x < length bs \<Longrightarrow> set (blk_succs (bk_type (bs ! x))) \<subseteq> R"
  shows "blk_reach bs X \<subseteq> R"
proof
  fix y assume "y \<in> blk_reach bs X"
  then obtain x where "x \<in> X" and r: "(x, y) \<in> {(x, y). x < length bs \<and> y \<in> set (blk_succs (bk_type (bs ! x)))}\<^sup>*"
    unfolding blk_reach_def by auto
  from r \<open>x \<in> X\<close> show "y \<in> R"
    by (induction rule: rtrancl_induct) (use assms in auto)
qed

definition unmarked :: "out_blk list \<Rightarrow> nat set \<Rightarrow> nat" where
  "unmarked bs R = card ({..<length bs} - R)"

lemma unmarked_insert: "b < length bs \<Longrightarrow> b \<notin> R \<Longrightarrow> unmarked bs R = Suc (unmarked bs (insert b R))"
  unfolding unmarked_def by (subst card_Suc_Diff1 [symmetric, of _ b]) (auto simp: Diff_insert [symmetric] insert_commute)

lemma unmarked_mono: "R \<subseteq> R' \<Longrightarrow> unmarked bs R' \<le> unmarked bs R"
  unfolding unmarked_def by (rule card_mono) auto

lemma unmarked_le: "unmarked bs R \<le> length bs"
  unfolding unmarked_def by (rule order_trans [OF card_mono [of "{..<length bs}"]]) auto


lemma mark_visits:
  assumes "b \<in> blk_reach bs X" "b < length bs" "unmarked bs R < n" "R \<subseteq> {..<length bs}"
    and init: "\<forall>b \<in> blk_reach bs X. bk_type (bs ! b) \<noteq> BLK_UNINIT"
    and rng: "\<forall>b < length bs. set (blk_succs (bk_type (bs ! b))) \<subseteq> {..<length bs}"
  shows "\<exists>R'. mark_reachable_blocks n b (flagged bs R {}) = Inr (flagged bs R' {}) \<and> visits bs R R' {b} \<and> R' \<subseteq> R \<union> blk_reach bs X"
  using assms(1-4)
proof (induction n arbitrary: b R)
  case (Suc n)
  let ?go = "\<lambda>c S. \<exists>R'. mark_reachable_blocks n c (flagged bs S {}) = Inr (flagged bs R' {}) \<and> visits bs S R' {c} \<and>
    R' \<subseteq> S \<union> blk_reach bs X"
  have here [simp]: "b < length bs" using Suc.prems by simp
  show ?case
  proof (cases "b \<in> R")
    case True
    then show ?thesis using Suc.prems by (intro exI [of _ R]) (auto simp: visits_def)
  next
    case False
    let ?R = "insert b R"
    have small: "unmarked bs ?R < n" using Suc.prems(3) False unmarked_insert [of b bs R] by simp
    have sub: "?go c S" if "c \<in> set (blk_succs (bk_type (bs ! b)))" "?R \<subseteq> S" "S \<subseteq> {..<length bs}" for c S
    proof (rule Suc.IH)
      show "c \<in> blk_reach bs X" using Suc.prems that blk_reach_step by blast
      show "c < length bs" using rng Suc.prems that by auto
      show "unmarked bs S < n" using small unmarked_mono [OF that(2)] by (meson le_less_trans)
    qed (use that in auto)
    have ty: "bk_type (bs ! b) \<noteq> BLK_UNINIT" using init Suc.prems by blast
    have R: "?R \<subseteq> {..<length bs}" "b \<in> blk_reach bs X" using Suc.prems by auto
    show ?thesis
    proof (cases "bk_type (bs ! b)")
      case (BLK_NEXT_BLOCK c)
      then obtain R' where "mark_reachable_blocks n c (flagged bs ?R {}) = Inr (flagged bs R' {})" "visits bs ?R R' {c}"
        "R' \<subseteq> ?R \<union> blk_reach bs X"
        using sub [of c ?R] R by auto
      moreover from this have "visits bs R R' {b}" using BLK_NEXT_BLOCK by (auto intro: visits_insert)
      ultimately show ?thesis using R BLK_NEXT_BLOCK False by (auto simp: Let_def)
    next
      case (BLK_COND i c d u)
      then obtain R1 where 1: "mark_reachable_blocks n c (flagged bs ?R {}) = Inr (flagged bs R1 {})" "visits bs ?R R1 {c}"
        "R1 \<subseteq> ?R \<union> blk_reach bs X"
        using sub [of c ?R] R by auto
      moreover from this obtain R' where 2: "mark_reachable_blocks n d (flagged bs R1 {}) = Inr (flagged bs R' {})"
        "visits bs R1 R' {d}" "R' \<subseteq> R1 \<union> blk_reach bs X"
        using sub [of d R1] BLK_COND by (auto simp: visits_def)
      moreover have "visits bs R R' {b}"
        using visits_trans [OF 1(2) 2(2)] BLK_COND by (auto intro: visits_insert)
      ultimately show ?thesis using R BLK_COND False by (intro exI [of _ R']) (auto simp: Let_def)
    qed (use ty False R in \<open>auto simp: Let_def visits_def intro!: exI [of _ ?R]\<close>)
  qed
qed simp

lemma mark_each_visits:
  assumes "set bl \<subseteq> blk_reach bs X" "set bl \<subseteq> {..<length bs}" "R \<subseteq> {..<length bs}"
    and "\<forall>b \<in> blk_reach bs X. bk_type (bs ! b) \<noteq> BLK_UNINIT"
    and "\<forall>b < length bs. set (blk_succs (bk_type (bs ! b))) \<subseteq> {..<length bs}"
  shows "\<exists>R'. mark_each (Suc (length bs)) bl (flagged bs R {}) = Inr (flagged bs R' {}) \<and> visits bs R R' (set bl) \<and>
    R' \<subseteq> R \<union> blk_reach bs X"
  using assms(1-3)
proof (induction bl arbitrary: R)
  case Nil
  then show ?case by (auto simp: visits_def)
next
  case (Cons b bl)
  obtain R1 where 1: "mark_reachable_blocks (Suc (length bs)) b (flagged bs R {}) = Inr (flagged bs R1 {})"
    "visits bs R R1 {b}" "R1 \<subseteq> R \<union> blk_reach bs X"
    using mark_visits [of b bs X R "Suc (length bs)"] Cons.prems assms(4,5) unmarked_le [of bs R] by auto
  then have "R1 \<subseteq> {..<length bs}" by (simp add: visits_def)
  then obtain R' where 2: "mark_each (Suc (length bs)) bl (flagged bs R1 {}) = Inr (flagged bs R' {})"
    "visits bs R1 R' (set bl)" "R' \<subseteq> R1 \<union> blk_reach bs X"
    using Cons.IH [of R1] Cons.prems by auto
  then show ?case using 1 visits_trans [OF 1(2) 2(2)] by (intro exI [of _ R']) (auto simp del: mark_reachable_blocks.simps)
qed

section \<open>The order of the blocks decides the lines\<close>

definition the_lbl :: "out_blk list \<Rightarrow> nat \<Rightarrow> string" where
  "the_lbl bs b = the (bk_lbl (bs ! b))"

definition passes :: "out_blk \<Rightarrow> bool" where
  "passes k \<longleftrightarrow> bk_insns k = [] \<and> (\<exists>n. bk_type k = BLK_NEXT_BLOCK n)"

primrec thread :: "nat \<Rightarrow> out_blk list \<Rightarrow> nat \<Rightarrow> nat" where
  "thread 0 bs t = t"
| "thread (Suc n) bs t =
     (case bk_type (bs ! t) of BLK_NEXT_BLOCK u \<Rightarrow> if bk_insns (bs ! t) = [] then thread n bs u else t | _ \<Rightarrow> t)"

definition seg :: "out_blk list \<Rightarrow> nat \<Rightarrow> asm_line list" where
  "seg bs b =
     (if bk_align (bs ! b) = 0 then [] else [Ln_align (bk_align (bs ! b))]) @ [Ln_label (the_lbl bs b)] @
     (case bk_force_lbl (bs ! b) of None \<Rightarrow> [] | Some f \<Rightarrow> [Ln_label f]) @ map Ln_insn (bk_insns (bs ! b)) @
     (case bk_type (bs ! b) of BLK_COND i _ _ _ \<Rightarrow> [Ln_cond i] | _ \<Rightarrow> [])"

fun cont :: "blk_type \<Rightarrow> nat option" where
  "cont (BLK_NEXT_BLOCK n) = Some n"
| "cont (BLK_COND _ _ c _) = Some c"
| "cont _ = None"

definition jump_line :: "bool \<Rightarrow> out_blk list \<Rightarrow> nat \<Rightarrow> asm_line" where
  "jump_line thr bs t = Ln_jmp (the_lbl bs (if thr then thread JMP_THREAD_LIM bs t else t))"

definition emit_one :: "bool \<Rightarrow> out_blk list \<Rightarrow> nat \<Rightarrow> asm_line list \<times> nat option \<Rightarrow> asm_line list \<times> nat option" where
  "emit_one thr bs b x =
     (case x of (ls, j) \<Rightarrow>
       (ls @ (case j of None \<Rightarrow> [] | Some t \<Rightarrow> if t = b then [] else [jump_line thr bs t]) @ seg bs b, cont (bk_type (bs ! b))))"

lemma emit_one_pair:
  "emit_one thr bs b (ls, j) =
     (ls @ (case j of None \<Rightarrow> [] | Some t \<Rightarrow> if t = b then [] else [jump_line thr bs t]) @ seg bs b, cont (bk_type (bs ! b)))"
  by (simp add: emit_one_def)

abbreviation (input) fstate :: "out_blk list \<Rightarrow> nat set \<Rightarrow> nat set \<Rightarrow> asm_line list \<times> nat option \<Rightarrow> flush_state" where
  "fstate bs R E x \<equiv> \<lparr>fs_jmpto = snd x, fs_lines = fst x, fs_blks = flagged bs R E\<rparr>"

definition wf_ptrs :: "out_blk list \<Rightarrow> bool" where
  "wf_ptrs bs \<longleftrightarrow>
     (\<forall>b < length bs. set (blk_succs (bk_type (bs ! b))) \<union> set (bk_merge_preds (bs ! b)) \<subseteq> {..<length bs} \<and> bk_lbl (bs ! b) \<noteq> None)"

lemma cont_succ: "cont ty = Some c \<Longrightarrow> c \<in> set (blk_succs ty)"
  by (cases ty) auto

lemma wf_ptrsD:
  assumes "wf_ptrs bs" "b < length bs"
  shows "c \<in> set (blk_succs (bk_type (bs ! b))) \<Longrightarrow> c < length bs" "c \<in> set (bk_merge_preds (bs ! b)) \<Longrightarrow> c < length bs"
    "bk_lbl (bs ! b) = Some (the_lbl bs b)" "cont (bk_type (bs ! b)) = Some c \<Longrightarrow> c < length bs"
  using assms unfolding wf_ptrs_def the_lbl_def by (auto dest!: cont_succ)

lemma thread_jumps_eq:
  assumes "wf_ptrs bs" "t < length bs"
  shows "thread_jumps n (flagged bs R E) t = Inr (thread n bs t) \<and> thread n bs t < length bs"
  using assms(2) by (induction n arbitrary: t) (auto simp: blk_is_empty_def dest: wf_ptrsD(1) [OF assms(1)] split: blk_type.split)

lemma lbl_of_flagged: "wf_ptrs bs \<Longrightarrow> b < length bs \<Longrightarrow> lbl_of (flagged bs R E) b = Inr (the_lbl bs b)"
  by (simp add: lbl_of_def wf_ptrsD(3))

text \<open>\<^verbatim>\<open>blk_codegen\<close> with the conditional jump and \<^verbatim>\<open>blk_jmpnext\<close> behind it.\<close>

lemma codegen_emits:
  assumes "wf_ptrs bs" "b < length bs" "\<And>t. snd x = Some t \<Longrightarrow> t < length bs"
  shows "\<exists>ls. blk_codegen thr b (fstate bs R E x) = Inr (fstate bs R E (ls, None)) \<and>
    fst (emit_one thr bs b x) = ls @ (case bk_type (bs ! b) of BLK_COND i _ _ _ \<Rightarrow> [Ln_cond i] | _ \<Rightarrow> [])"
  using assms
  by (cases x; cases "snd x")
     (auto simp: blk_codegen_def emit_one_def seg_def asm_out_def blk_jmpthread_def jump_line_def lbl_of_flagged
       thread_jumps_eq split: blk_type.split)

definition wrote :: "bool \<Rightarrow> out_blk list \<Rightarrow> nat set \<Rightarrow> nat set \<Rightarrow> asm_line list \<times> nat option \<Rightarrow> nat set \<Rightarrow> asm_line list \<times> nat option \<Rightarrow> bool" where
  "wrote thr bs R E x E' x' \<longleftrightarrow>
     (\<exists>order. x' = fold (emit_one thr bs) order x \<and> distinct order \<and> set order = E' - E \<and> E \<subseteq> E' \<and> E' - E \<subseteq> R)"

lemma wrote_refl: "wrote thr bs R E x E x"
  unfolding wrote_def by (intro exI [of _ "[]"]) simp

lemma wrote_trans: "wrote thr bs R E x E1 y \<Longrightarrow> wrote thr bs R E1 y E2 z \<Longrightarrow> wrote thr bs R E x E2 z"
  unfolding wrote_def
proof (elim exE conjE)
  fix o1 o2
  assume "y = fold (emit_one thr bs) o1 x" "distinct o1" "set o1 = E1 - E" "E \<subseteq> E1" "E1 - E \<subseteq> R"
    "z = fold (emit_one thr bs) o2 y" "distinct o2" "set o2 = E2 - E1" "E1 \<subseteq> E2" "E2 - E1 \<subseteq> R"
  then show "\<exists>order. z = fold (emit_one thr bs) order x \<and> distinct order \<and> set order = E2 - E \<and> E \<subseteq> E2 \<and> E2 - E \<subseteq> R"
    by (intro exI [of _ "o1 @ o2"]) auto
qed

lemma wrote_block:
  assumes "wrote thr bs R (insert b E) x E1 y" "wrote thr bs R E1 (emit_one thr bs b y) E2 z" "b \<notin> E" "b \<in> R"
  shows "wrote thr bs R E x E2 z"
  using assms unfolding wrote_def
proof (elim exE conjE)
  fix o1 o2
  assume "y = fold (emit_one thr bs) o1 x" "distinct o1" "set o1 = E1 - insert b E" "insert b E \<subseteq> E1" "E1 - insert b E \<subseteq> R"
    "z = fold (emit_one thr bs) o2 (emit_one thr bs b y)" "distinct o2" "set o2 = E2 - E1" "E1 \<subseteq> E2" "E2 - E1 \<subseteq> R" "b \<notin> E" "b \<in> R"
  then show "\<exists>order. z = fold (emit_one thr bs) order x \<and> distinct order \<and> set order = E2 - E \<and> E \<subseteq> E2 \<and> E2 - E \<subseteq> R"
    by (intro exI [of _ "o1 @ [b] @ o2"]) auto
qed

definition pending_ok :: "out_blk list \<Rightarrow> asm_line list \<times> nat option \<Rightarrow> bool" where
  "pending_ok bs x \<longleftrightarrow> (\<forall>t. snd x = Some t \<longrightarrow> t < length bs)"

definition goes ::
  "bool \<Rightarrow> out_blk list \<Rightarrow> nat set \<Rightarrow> (flush_state \<Rightarrow> flush_state outcome) \<Rightarrow> nat set \<Rightarrow> nat set \<Rightarrow> asm_line list \<times> nat option \<Rightarrow> bool" where
  "goes thr bs R f X E x \<longleftrightarrow>
     (\<exists>E' x'. f (fstate bs R E x) = Inr (fstate bs R E' x') \<and> wrote thr bs R E x E' x' \<and> pending_ok bs x' \<and> X \<inter> R \<subseteq> E' \<and>
       (\<forall>y \<in> E' - E. set (blk_succs (bk_type (bs ! y))) \<subseteq> E'))"

lemma wrote_mono: "wrote thr bs R E x E' x' \<Longrightarrow> E \<subseteq> E'"
  unfolding wrote_def by blast

lemma goes_refl: "pending_ok bs x \<Longrightarrow> X \<inter> R \<subseteq> E \<Longrightarrow> goes thr bs R Inr X E x"
  unfolding goes_def by (intro exI [of _ E] exI [of _ x]) (simp add: wrote_refl)

lemma goes_bind:
  assumes f: "goes thr bs R f X E x" and g: "\<And>E' x'. E \<subseteq> E' \<Longrightarrow> pending_ok bs x' \<Longrightarrow> goes thr bs R g Y E' x'"
  shows "goes thr bs R (\<lambda>st. bindE (f st) g) (X \<union> Y) E x"
proof -
  obtain E1 x1 where 1: "f (fstate bs R E x) = Inr (fstate bs R E1 x1)" "wrote thr bs R E x E1 x1" "pending_ok bs x1" "X \<inter> R \<subseteq> E1"
    "\<forall>y \<in> E1 - E. set (blk_succs (bk_type (bs ! y))) \<subseteq> E1"
    using f unfolding goes_def by blast
  obtain E2 x2 where 2: "g (fstate bs R E1 x1) = Inr (fstate bs R E2 x2)" "wrote thr bs R E1 x1 E2 x2" "pending_ok bs x2" "Y \<inter> R \<subseteq> E2"
    "\<forall>y \<in> E2 - E1. set (blk_succs (bk_type (bs ! y))) \<subseteq> E2"
    using g [OF wrote_mono [OF 1(2)] 1(3)] unfolding goes_def by blast
  have "E1 \<subseteq> E2" using 2(2) by (rule wrote_mono)
  then show ?thesis
    unfolding goes_def using 1 2 wrote_trans [OF 1(2) 2(2)] by (intro exI [of _ E2] exI [of _ x2]) (simp, blast)
qed

lemma goes_each:
  assumes "\<And>c E' x'. c \<in> set cs \<Longrightarrow> E \<subseteq> E' \<Longrightarrow> pending_ok bs x' \<Longrightarrow> goes thr bs R (f c) {c} E' x'" "pending_ok bs x"
  shows "goes thr bs R (bfs_each f cs) (set cs) E x"
  using assms
proof (induction cs arbitrary: E x)
  case Nil
  then have "goes thr bs R Inr {} E x" by (intro goes_refl) auto
  then show ?case by (simp add: goes_def)
next
  case (Cons c cs)
  have "goes thr bs R (\<lambda>st. bindE (f c st) (bfs_each f cs)) ({c} \<union> set cs) E x"
  proof (rule goes_bind)
    show "goes thr bs R (f c) {c} E x" using Cons.prems by auto
    show "goes thr bs R (bfs_each f cs) (set cs) E' x'" if "E \<subseteq> E'" "pending_ok bs x'" for E' x'
      using Cons.prems that by (intro Cons.IH) auto
  qed
  then show ?case by simp
qed

lemma bindE_return [simp]: "bindE m Inr = m"
  by (cases m) simp_all

lemma bfs_each_Nil [simp]: "bfs_each f [] = Inr"
  by (simp add: fun_eq_iff)

lemma bfs_each_single [simp]: "bfs_each f [a] = f a"
  by (simp add: fun_eq_iff)

fun succ_order :: "blk_type \<Rightarrow> nat list" where
  "succ_order (BLK_COND _ a b u) = (if u then [a, b] else [b, a])"
| "succ_order ty = blk_succs ty"

lemma set_succ_order: "set (succ_order ty) = set (blk_succs ty)"
  by (cases ty) auto

text \<open>The part of \<^verbatim>\<open>bfs_block\<close> behind the predecessors.\<close>

lemma bfs_tail:
  assumes wf: "wf_ptrs bs" and b: "b < length bs" and y: "pending_ok bs y" and ty: "bk_type (bs ! b) \<noteq> BLK_UNINIT"
  shows "(case bk_type (bs ! b) of
       BLK_UNINIT \<Rightarrow> Inl (Assert_failed ''uninitialised block type'')
     | BLK_TERMINAL \<Rightarrow> blk_codegen thr b (fstate bs R E y)
     | BLK_NEXT_EXPR \<Rightarrow> blk_codegen thr b (fstate bs R E y)
     | BLK_NEXT_BLOCK next \<Rightarrow>
         bindE (blk_codegen thr b (fstate bs R E y)) (\<lambda>st. bindE (blk_jmpnext next st) (f next))
     | BLK_COND insn if_0 if_1 unlikely \<Rightarrow>
         bindE (blk_codegen thr b (fstate bs R E y)) (\<lambda>st.
         bindE (blk_jmpnext if_1 (asm_out [Ln_cond insn] st)) (\<lambda>st.
           if unlikely then bindE (f if_0 st) (f if_1) else bindE (f if_1 st) (f if_0)))) =
     bfs_each f (succ_order (bk_type (bs ! b))) (fstate bs R E (emit_one thr bs b y))"
proof -
  obtain ls where "blk_codegen thr b (fstate bs R E y) = Inr (fstate bs R E (ls, None))"
    "fst (emit_one thr bs b y) = ls @ (case bk_type (bs ! b) of BLK_COND i _ _ _ \<Rightarrow> [Ln_cond i] | _ \<Rightarrow> [])"
    using codegen_emits [OF wf b] y unfolding pending_ok_def by blast
  moreover have "snd (emit_one thr bs b y) = cont (bk_type (bs ! b))" by (simp add: emit_one_def split: prod.split)
  ultimately show ?thesis using ty by (cases "bk_type (bs ! b)") (simp_all add: blk_jmpnext_def asm_out_def)
qed

lemma bfs_goes:
  assumes wf: "wf_ptrs bs" and R: "R \<subseteq> {..<length bs}" "\<forall>x \<in> R. bk_type (bs ! x) \<noteq> BLK_UNINIT"
    and cl: "\<forall>x \<in> R. set (blk_succs (bk_type (bs ! x))) \<subseteq> R"
  shows "b < length bs \<Longrightarrow> unmarked bs E < n \<Longrightarrow> pending_ok bs x \<Longrightarrow> goes thr bs R (bfs_block thr n b) {b} E x"
proof (induction n arbitrary: b E x)
  case (Suc n)
  note b = Suc.prems(1)
  show ?case
  proof (cases "b \<in> E \<or> b \<notin> R")
    case True
    then have "goes thr bs R Inr {b} E x" using Suc.prems by (intro goes_refl) auto
    then show ?thesis using True b by (auto simp: goes_def)
  next
    case False
    let ?k = "bs ! b" and ?E = "insert b E"
    have small: "unmarked bs ?E < n" using Suc.prems(2) False unmarked_insert [OF b, of E] by simp
    have sub: "goes thr bs R (bfs_each (bfs_block thr n) cs) (set cs) E' x'"
      if "set cs \<subseteq> {..<length bs}" "?E \<subseteq> E'" "pending_ok bs x'" for cs E' x'
    proof (rule goes_each)
      fix c F z assume "c \<in> set cs" "E' \<subseteq> F" "pending_ok bs z"
      moreover have "unmarked bs F < n" using small unmarked_mono [of ?E F bs] that \<open>E' \<subseteq> F\<close> by fastforce
      ultimately show "goes thr bs R (bfs_block thr n c) {c} F z" using that by (intro Suc.IH) auto
    qed (rule that)
    have preds: "set (bk_merge_preds ?k) \<subseteq> {..<length bs}" and succs: "set (succ_order (bk_type ?k)) \<subseteq> {..<length bs}"
      using wf b unfolding wf_ptrs_def set_succ_order by auto
    obtain E1 y where 1: "bfs_each (bfs_block thr n) (bk_merge_preds ?k) (fstate bs R ?E x) = Inr (fstate bs R E1 y)"
      "wrote thr bs R ?E x E1 y" "pending_ok bs y" "\<forall>z \<in> E1 - ?E. set (blk_succs (bk_type (bs ! z))) \<subseteq> E1"
      using sub [OF preds, of ?E x] Suc.prems unfolding goes_def by blast
    have E1: "?E \<subseteq> E1" using 1(2) by (rule wrote_mono)
    have "pending_ok bs (emit_one thr bs b y)"
      using wf_ptrsD(4) [OF wf b] by (auto simp: pending_ok_def emit_one_def split: prod.split)
    then obtain E2 z where 2: "bfs_each (bfs_block thr n) (succ_order (bk_type ?k)) (fstate bs R E1 (emit_one thr bs b y)) = Inr (fstate bs R E2 z)"
      "wrote thr bs R E1 (emit_one thr bs b y) E2 z" "pending_ok bs z" "set (succ_order (bk_type ?k)) \<inter> R \<subseteq> E2"
      "\<forall>w \<in> E2 - E1. set (blk_succs (bk_type (bs ! w))) \<subseteq> E2"
      using sub [OF succs E1] unfolding goes_def by blast
    have "bfs_block thr (Suc n) b (fstate bs R E x) = Inr (fstate bs R E2 z)"
      using False b 1(1) bfs_tail [OF wf b 1(3), of thr R E1 "bfs_block thr n"] 2(1) R(2) by simp
    moreover have "E1 \<subseteq> E2" using 2(2) by (rule wrote_mono)
    moreover have "wrote thr bs R E x E2 z" using wrote_block [OF 1(2) 2(2)] False by blast
    moreover have "set (blk_succs (bk_type ?k)) \<subseteq> E2" using 2(4) cl False unfolding set_succ_order by blast
    moreover have "set (blk_succs (bk_type (bs ! w))) \<subseteq> E2" if "w \<in> E2 - E" for w
      using that 1(4) 2(5) calculation(2,4) by (cases "w = b"; cases "w \<in> E1") auto
    ultimately show ?thesis using 2(3) E1 unfolding goes_def by (intro exI [of _ E2] exI [of _ z]) auto
  qed
qed simp

section \<open>Every block is linked to its continuation\<close>

definition skips :: "out_blk list \<Rightarrow> nat \<Rightarrow> nat \<Rightarrow> bool" where
  "skips bs = (\<lambda>t u. t < length bs \<and> bk_insns (bs ! t) = [] \<and> bk_type (bs ! t) = BLK_NEXT_BLOCK u)\<^sup>*\<^sup>*"

lemma skips_refl [simp]: "skips bs t t"
  by (simp add: skips_def)

lemma skips_cases:
  assumes "skips bs t u"
  obtains "t = u" | v where "t < length bs" "bk_insns (bs ! t) = []" "bk_type (bs ! t) = BLK_NEXT_BLOCK v" "skips bs v u"
  using assms unfolding skips_def by (rule converse_rtranclpE) blast+

lemma thread_skips:
  assumes "wf_ptrs bs" "t < length bs" shows "skips bs t (thread n bs t)"
  using assms(2)
proof (induction n arbitrary: t)
  case (Suc n)
  show ?case
  proof (cases "bk_type (bs ! t)")
    case (BLK_NEXT_BLOCK u)
    then have "u < length bs" using wf_ptrsD(1) [OF assms(1) Suc.prems] by simp
    then show ?thesis using Suc BLK_NEXT_BLOCK by (auto simp: skips_def intro: converse_rtranclp_into_rtranclp)
  qed simp_all
qed simp

definition linked :: "out_blk list \<Rightarrow> nat \<Rightarrow> asm_line list \<Rightarrow> bool" where
  "linked bs t post \<longleftrightarrow> (\<exists>post'. post = seg bs t @ post') \<or> (\<exists>t' post'. skips bs t t' \<and> post = Ln_jmp (the_lbl bs t') # post')"

lemma linked_append: "linked bs t post \<Longrightarrow> linked bs t (post @ rest)"
  unfolding linked_def by (metis append_Cons append_assoc)

lemma skips_linked: "skips bs t u \<Longrightarrow> linked bs t (Ln_jmp (the_lbl bs u) # post)"
  unfolding linked_def by blast

lemma jump_linked: "wf_ptrs bs \<Longrightarrow> t < length bs \<Longrightarrow> linked bs t (jump_line thr bs t # post)"
  unfolding jump_line_def by (intro skips_linked) (simp add: thread_skips)

lemma code_placed:
  assumes "wf_ptrs bs" "set order \<subseteq> {..<length bs}" "b \<in> set order"
  shows "\<exists>pre post. fst (fold (emit_one thr bs) order ([], None)) = pre @ seg bs b @ post \<and>
    (\<forall>t. cont (bk_type (bs ! b)) = Some t \<longrightarrow>
       linked bs t post \<or> post = [] \<and> snd (fold (emit_one thr bs) order ([], None)) = Some t)"
  using assms(2,3)
proof (induction order rule: rev_induct)
  case (snoc c order)
  obtain ls j where lj: "fold (emit_one thr bs) order ([], None) = (ls, j)" by fastforce
  show ?case
  proof (cases "b \<in> set order")
    case True
    then obtain pre post where 1: "ls = pre @ seg bs b @ post"
      "\<forall>t. cont (bk_type (bs ! b)) = Some t \<longrightarrow> linked bs t post \<or> post = [] \<and> j = Some t"
      using snoc lj by auto
    let ?post = "post @ (case j of None \<Rightarrow> [] | Some t \<Rightarrow> if t = c then [] else [jump_line thr bs t]) @ seg bs c"
    have "linked bs t ?post" if "cont (bk_type (bs ! b)) = Some t" for t
    proof -
      have "t < length bs" using that snoc.prems True wf_ptrsD(4) [OF assms(1), of b] by auto
      then show ?thesis
        using 1(2) that jump_linked [OF assms(1), of t] linked_append [of bs t post]
        by (auto simp: linked_def [of bs c "seg bs c"])
    qed
    then show ?thesis using 1 lj by - (rule exI [of _ pre], rule exI [of _ ?post], simp add: emit_one_pair)
  next
    case False
    then have "b = c" using snoc.prems by simp
    then show ?thesis
      using lj by - (rule exI [of _ "ls @ (case j of None \<Rightarrow> [] | Some t \<Rightarrow> if t = c then [] else [jump_line thr bs t])"], rule exI [of _ "[]"],
        simp add: emit_one_pair)
  qed
qed simp

section \<open>Labels\<close>

fun labels_in :: "asm_line list \<Rightarrow> string list" where
  "labels_in [] = []"
| "labels_in (Ln_label l # P) = l # labels_in P"
| "labels_in (_ # P) = labels_in P"

lemma labels_in_append [simp]: "labels_in (P @ Q) = labels_in P @ labels_in Q"
  by (induction P rule: labels_in.induct) auto

lemma labels_in_insns [simp]: "labels_in (map Ln_insn ins) = []"
  by (induction ins) auto

lemma label_pos_append: "l \<notin> set (labels_in P) \<Longrightarrow> label_pos (P @ Ln_label l # Q) l = Some (length P)"
  by (induction P rule: labels_in.induct) auto

lemma labels_in_seg:
  assumes "wf_ptrs bs" "b < length bs" shows "labels_in (seg bs b) = blk_labels (bs ! b)"
  using wf_ptrsD(3) [OF assms] by (auto simp: seg_def blk_labels_def split: option.split blk_type.split)

lemma labels_in_code:
  assumes "wf_ptrs bs" "set order \<subseteq> {..<length bs}"
  shows "labels_in (fst (fold (emit_one thr bs) order ([], None))) = concat (map (\<lambda>b. blk_labels (bs ! b)) order)"
  using assms(2)
proof (induction order rule: rev_induct)
  case (snoc c order)
  then show ?case using labels_in_seg [OF assms(1), of c]
    by (auto simp: emit_one_def jump_line_def split: prod.split option.split)
qed simp

lemma distinct_concat_select:
  assumes "distinct (concat (map f xs))" "distinct idx" "set idx \<subseteq> {..<length xs}"
  shows "distinct (concat (map (\<lambda>i. f (xs ! i)) idx))"
proof -
  have ds: "distinct (f (xs ! i))" if "i < length xs" for i
    using assms(1) that by (auto simp: distinct_concat_iff)
  have dj: "set (f (xs ! i)) \<inter> set (f (xs ! j)) = {}" if "i < length xs" "j < length xs" "i < j" for i j
  proof -
    have "xs = take j xs @ xs ! j # drop (Suc j) xs" using that by (simp add: id_take_nth_drop)
    then have "distinct (concat (map f (take j xs)) @ f (xs ! j) @ concat (map f (drop (Suc j) xs)))"
      using assms(1) by (metis concat.simps(2) concat_append list.simps(9) map_append)
    moreover have "xs ! i \<in> set (take j xs)" using that by (auto simp: in_set_conv_nth intro!: exI [of _ i])
    ultimately show ?thesis by auto
  qed
  then have dj': "set (f (xs ! i)) \<inter> set (f (xs ! j)) = {}" if "i < length xs" "j < length xs" "i \<noteq> j" for i j
    using that by (metis inf_commute linorder_neqE_nat)
  show ?thesis
    using assms(2,3)
  proof (induction idx)
    case (Cons i idx)
    then have "set (f (xs ! i)) \<inter> set (f (xs ! j)) = {}" if "j \<in> set idx" for j
      using that by (intro dj') auto
    then show ?case using Cons ds by auto
  qed simp
qed

section \<open>Running the lines of a graph\<close>

lemma runs_refl [simp]: "aruns ex jp Q x x"
  by (simp add: aruns_def)

definition lp :: "out_blk list \<Rightarrow> asm_line list \<Rightarrow> nat \<Rightarrow> nat" where
  "lp bs P b = the (label_pos P (the_lbl bs b))"

text \<open>What the lines of the blocks \<open>S\<close> satisfy once all of them are written.\<close>

locale laid_out =
  fixes ex :: "string \<Rightarrow> 's \<Rightarrow> 's" and jp :: "string \<Rightarrow> 's \<Rightarrow> string option"
    and bs :: "out_blk list" and S :: "nat set" and P :: "asm_line list"
  assumes ptrs: "wf_ptrs bs" and range: "S \<subseteq> {..<length bs}"
    and closed: "b \<in> S \<Longrightarrow> set (blk_succs (bk_type (bs ! b))) \<subseteq> S"
    and placed: "b \<in> S \<Longrightarrow> \<exists>pre post. P = pre @ seg bs b @ post \<and> (\<forall>t. cont (bk_type (bs ! b)) = Some t \<longrightarrow> linked bs t post)"
    and labels: "distinct (labels_in P)"
    and conds: "b \<in> S \<Longrightarrow> bk_type (bs ! b) = BLK_COND i if_0 if_1 u \<Longrightarrow> jp i s \<in> {None, bk_lbl (bs ! if_0), bk_lbl (bs ! if_1)}"
begin

lemma label_split: "P = xs @ Ln_label l # ys \<Longrightarrow> label_pos P l = Some (length xs)"
  using labels by (auto intro: label_pos_append)

lemma runs_step: "anext ex jp P x = Some y \<Longrightarrow> aruns ex jp P y z \<Longrightarrow> aruns ex jp P x z"
  unfolding aruns_def by (rule converse_rtranclp_into_rtranclp)

lemma runs_trans: "aruns ex jp P x y \<Longrightarrow> aruns ex jp P y z \<Longrightarrow> aruns ex jp P x z"
  unfolding aruns_def by simp

lemma next_line:
  assumes "P = xs @ l # ys"
  shows "anext ex jp P (length xs, s) =
    (case l of
       Ln_insn i \<Rightarrow> Some (Suc (length xs), ex i s)
     | Ln_jmp m \<Rightarrow> map_option (\<lambda>p. (p, s)) (label_pos P m)
     | Ln_cond i \<Rightarrow> (case jp i s of None \<Rightarrow> Some (Suc (length xs), s) | Some m \<Rightarrow> map_option (\<lambda>p. (p, s)) (label_pos P m))
     | _ \<Rightarrow> Some (Suc (length xs), s))"
proof -
  have "length xs < length P" "P ! length xs = l" using assms by simp_all
  then show ?thesis by (simp add: anext_def)
qed

lemma run_line: "P = xs @ l # ys \<Longrightarrow> l = Ln_align n \<or> l = Ln_label m \<Longrightarrow> aruns ex jp P (length xs, s) (Suc (length xs), s)"
  by (rule runs_step [OF _ runs_refl], subst next_line) auto

lemma run_insns: "P = xs @ map Ln_insn ins @ ys \<Longrightarrow> aruns ex jp P (length xs, s) (length xs + length ins, fold ex ins s)"
proof (induction ins arbitrary: xs s)
  case (Cons i ins)
  have "aruns ex jp P (length (xs @ [Ln_insn i]), ex i s) (length (xs @ [Ln_insn i]) + length ins, fold ex ins (ex i s))"
    using Cons.prems by (intro Cons.IH) simp
  moreover have "anext ex jp P (length xs, s) = Some (length (xs @ [Ln_insn i]), ex i s)"
    using next_line [of xs "Ln_insn i" "map Ln_insn ins @ ys" s] Cons.prems by simp
  ultimately show ?case using runs_step by fastforce
qed simp

lemma seg_label:
  assumes "P = pre @ seg bs b @ post"
  shows "label_pos P (the_lbl bs b) = Some (length pre + (if bk_align (bs ! b) = 0 then 0 else 1))"
    and "lp bs P b = length pre + (if bk_align (bs ! b) = 0 then 0 else 1)"
    and "aruns ex jp P (length pre, s) (lp bs P b, s)"
proof -
  let ?al = "if bk_align (bs ! b) = 0 then [] else [Ln_align (bk_align (bs ! b))]"
  obtain rest where P: "P = (pre @ ?al) @ Ln_label (the_lbl bs b) # rest" using assms by (simp add: seg_def)
  show l: "label_pos P (the_lbl bs b) = Some (length pre + (if bk_align (bs ! b) = 0 then 0 else 1))"
    using label_split [OF P] by simp
  then show p: "lp bs P b = length pre + (if bk_align (bs ! b) = 0 then 0 else 1)" by (simp add: lp_def)
  show "aruns ex jp P (length pre, s) (lp bs P b, s)"
    using run_line [of pre "Ln_align (bk_align (bs ! b))"] P p by (cases "bk_align (bs ! b) = 0") simp_all
qed

lemma in_S_label: "b \<in> S \<Longrightarrow> label_pos P (the_lbl bs b) = Some (lp bs P b)"
  using placed [of b] seg_label(1,2) by metis

lemma block_run:
  assumes "P = pre @ seg bs b @ post" and tail: "tail = (case bk_type (bs ! b) of BLK_COND i _ _ _ \<Rightarrow> [Ln_cond i] | _ \<Rightarrow> [])"
  shows "\<exists>xs. P = xs @ tail @ post \<and> aruns ex jp P (lp bs P b, s) (length xs, fold ex (bk_insns (bs ! b)) s)"
proof (intro exI conjI)
  let ?al = "if bk_align (bs ! b) = 0 then [] else [Ln_align (bk_align (bs ! b))]"
  let ?fo = "case bk_force_lbl (bs ! b) of None \<Rightarrow> [] | Some f \<Rightarrow> [Ln_label f]"
  let ?ys = "pre @ ?al @ [Ln_label (the_lbl bs b)] @ ?fo"
  let ?xs = "?ys @ map Ln_insn (bk_insns (bs ! b))"
  show P: "P = ?xs @ tail @ post" using assms by (simp add: seg_def)
  have lp: "lp bs P b = length (pre @ ?al)" using seg_label(2) [OF assms(1)] by simp
  have 1: "aruns ex jp P (length (pre @ ?al), s) (Suc (length (pre @ ?al)), s)"
    by (rule run_line [of _ "Ln_label (the_lbl bs b)"]) (simp_all add: P)
  have 2: "aruns ex jp P (Suc (length (pre @ ?al)), s) (length ?ys, s)"
  proof (cases "bk_force_lbl (bs ! b)")
    case (Some f)
    have "aruns ex jp P (length (pre @ ?al @ [Ln_label (the_lbl bs b)]), s) (Suc (length (pre @ ?al @ [Ln_label (the_lbl bs b)])), s)"
      by (rule run_line [of _ "Ln_label f"]) (simp_all add: P Some)
    then show ?thesis using Some by simp
  qed simp
  have 3: "aruns ex jp P (length ?ys, s) (length ?ys + length (bk_insns (bs ! b)), fold ex (bk_insns (bs ! b)) s)"
    by (rule run_insns) (simp add: P)
  show "aruns ex jp P (lp bs P b, s) (length ?xs, fold ex (bk_insns (bs ! b)) s)"
    using runs_trans [OF 1 runs_trans [OF 2 3]] lp by (simp add: add.assoc)
qed

lemma skips_in: "skips bs b c \<Longrightarrow> b \<in> S \<Longrightarrow> c \<in> S"
  unfolding skips_def by (induction rule: rtranclp_induct) (use closed in \<open>auto, fastforce\<close>)

lemma linked_run:
  assumes "P = xs @ post" "linked bs t post" "t \<in> S"
  shows "\<exists>t'. skips bs t t' \<and> t' \<in> S \<and> aruns ex jp P (length xs, s) (lp bs P t', s)"
  using assms(2) unfolding linked_def
proof (elim disjE exE conjE)
  fix post' assume "post = seg bs t @ post'"
  then show ?thesis using seg_label(3) [of xs t post' s] assms(1,3) by (intro exI [of _ t]) simp
next
  fix t' post' assume "skips bs t t'" "post = Ln_jmp (the_lbl bs t') # post'"
  moreover from this have "t' \<in> S" using skips_in assms(3) by blast
  ultimately show ?thesis
    using runs_step [OF _ runs_refl] next_line [of xs "Ln_jmp (the_lbl bs t')" post' s] assms(1) in_S_label [of t'] by auto
qed

lemma step_run:
  assumes "b \<in> S" "gnext ex jp bs (b, s) = Some (c, t)"
  shows "\<exists>c'. skips bs c c' \<and> c' \<in> S \<and> aruns ex jp P (lp bs P b, s) (lp bs P c', t)"
proof -
  obtain pre post where P: "P = pre @ seg bs b @ post" and lk: "\<And>u. cont (bk_type (bs ! b)) = Some u \<Longrightarrow> linked bs u post"
    using placed [OF assms(1)] by blast
  have b: "b < length bs" using assms range by auto
  show ?thesis
  proof (cases "bk_type (bs ! b)")
    case (BLK_NEXT_BLOCK u)
    then have [simp]: "u = c" and t: "t = fold ex (bk_insns (bs ! b)) s" using assms b by (simp_all add: gnext_def Let_def)
    obtain xs where xs: "P = xs @ post" "aruns ex jp P (lp bs P b, s) (length xs, t)"
      using block_run [OF P, of "[]" s] by (simp add: BLK_NEXT_BLOCK t) blast
    have "c \<in> S" "linked bs c post" using closed [OF assms(1)] lk BLK_NEXT_BLOCK by auto
    then show ?thesis using linked_run [OF xs(1)] runs_trans [OF xs(2)] by blast
  next
    case (BLK_COND i a d u)
    then have c: "c = (if jp i t = bk_lbl (bs ! a) then a else d)" and t: "t = fold ex (bk_insns (bs ! b)) s"
      using assms b by (auto simp: gnext_def Let_def)
    have S: "a \<in> S" "d \<in> S" using closed [OF assms(1)] BLK_COND by auto
    then have lbl: "bk_lbl (bs ! a) = Some (the_lbl bs a)" "bk_lbl (bs ! d) = Some (the_lbl bs d)"
      using wf_ptrsD(3) [OF ptrs] range by auto
    obtain xs where xs: "P = xs @ [Ln_cond i] @ post" "aruns ex jp P (lp bs P b, s) (length xs, t)"
      using block_run [OF P, of "[Ln_cond i]" s] by (simp add: BLK_COND t) blast
    consider "jp i t = None" | e where "e \<in> {a, d}" "jp i t = Some (the_lbl bs e)"
      using conds [OF assms(1) BLK_COND, of t] lbl by auto
    then show ?thesis
    proof cases
      case 1
      have "linked bs d post" "c = d" using lk BLK_COND 1 c lbl by auto
      moreover have "aruns ex jp P (lp bs P b, s) (length (xs @ [Ln_cond i]), t)"
        using next_line [of xs "Ln_cond i" post t] xs(1) 1 by (intro runs_trans [OF xs(2)] runs_step [OF _ runs_refl]) simp
      ultimately show ?thesis using linked_run [of "xs @ [Ln_cond i]" post d t] xs(1) S runs_trans by fastforce
    next
      case 2
      then have "e \<in> S" using S by auto
      then have run: "aruns ex jp P (lp bs P b, s) (lp bs P e, t)"
        using next_line [of xs "Ln_cond i" post t] xs(1) 2 in_S_label [of e] by (intro runs_trans [OF xs(2)] runs_step [OF _ runs_refl]) simp
      have "lp bs P c = lp bs P e" using 2 c lbl by (auto simp: lp_def)
      then show ?thesis using run c S by (intro exI [of _ c]) auto
    qed
  qed (use assms b in \<open>simp_all add: gnext_def Let_def\<close>)
qed

theorem graph_run:
  assumes "gruns ex jp bs (b, s) (c, t)" "b \<in> S"
  shows "\<exists>c'. skips bs c c' \<and> c' \<in> S \<and> aruns ex jp P (lp bs P b, s) (lp bs P c', t)"
  using assms(1) unfolding gruns_def
proof (induction rule: rtranclp_induct2)
  case refl
  then show ?case using assms(2) by (intro exI [of _ b]) simp
next
  case (step c t d u)
  then obtain c' where c': "skips bs c c'" "c' \<in> S" "aruns ex jp P (lp bs P b, s) (lp bs P c', t)" by blast
  from c'(1) show ?case
  proof (cases rule: skips_cases)
    case 1
    then show ?thesis using step_run [of c t d u] step.hyps(2) c' runs_trans by blast
  next
    case (2 e)
    then have "d = e" "u = t" using step.hyps(2) by (auto simp: gnext_def Let_def)
    then show ?thesis using 2 c' by blast
  qed
qed

end

section \<open>Flushing\<close>

lemma wf_graph_ptrs: "wf_graph jp roots bs \<Longrightarrow> wf_ptrs bs"
  unfolding wf_graph_def wf_ptrs_def by blast

lemma reach_in_range:
  assumes "wf_graph jp roots bs" shows "blk_reach bs (set roots) \<subseteq> {..<length bs}"
  using assms unfolding wf_graph_def by (intro blk_reach_closed) auto

text \<open>Flushing marks the blocks that can be reached and writes each of them once.\<close>

lemma flushall_order:
  assumes wf: "wf_graph jp (first # oc_mustgen oc) (oc_blks oc)"
  defines "bs \<equiv> oc_blks oc" and "S \<equiv> blk_reach (oc_blks oc) (set (first # oc_mustgen oc))"
  shows "\<exists>order. distinct order \<and> set order = S \<and>
    (\<exists>ls j. fold (emit_one thr bs) order ([], None) = (ls, j) \<and>
      blk_flushall thr first oc = Inr (ls @ (case j of None \<Rightarrow> [] | Some t \<Rightarrow> [Ln_jmp (the_lbl bs t)])))"
proof -
  let ?roots = "first # oc_mustgen oc" and ?n = "Suc (length bs)"
  have ptrs: "wf_ptrs bs" and rng: "S \<subseteq> {..<length bs}" and roots: "set ?roots \<subseteq> {..<length bs}" "set ?roots \<subseteq> S"
    using wf wf_graph_ptrs [OF wf] reach_in_range [OF wf] by (auto simp: wf_graph_def bs_def S_def intro: blk_reach_root)
  have init: "\<forall>b \<in> S. bk_type (bs ! b) \<noteq> BLK_UNINIT" and succs: "\<forall>b < length bs. set (blk_succs (bk_type (bs ! b))) \<subseteq> {..<length bs}"
    using wf unfolding wf_graph_def bs_def S_def by blast+
  have none: "flagged bs {} {} = bs" using wf by (intro flagged_none) (simp add: wf_graph_def bs_def)
  obtain R where mark: "mark_each ?n ?roots (flagged bs {} {}) = Inr (flagged bs R {})" and vis: "visits bs {} R (set ?roots)"
    and "R \<subseteq> S"
    using mark_each_visits [of ?roots bs "set ?roots" "{}"] roots init succs by (auto simp: S_def bs_def)
  then have R: "R = S"
    using blk_reach_closed [of "set ?roots" R bs] by (auto simp: visits_def S_def bs_def)
  have closed: "\<forall>x \<in> S. set (blk_succs (bk_type (bs ! x))) \<subseteq> S" using vis R by (auto simp: visits_def)
  have "goes thr bs S (bfs_each (bfs_block thr ?n) ?roots) (set ?roots) {} ([], None)"
    by (intro goes_each bfs_goes [OF ptrs rng init closed])
       (use roots unmarked_le [of bs] in \<open>auto simp: pending_ok_def le_imp_less_Suc\<close>)
  then obtain E x where go: "bfs_each (bfs_block thr ?n) ?roots (fstate bs S {} ([], None)) = Inr (fstate bs S E x)"
    "wrote thr bs S {} ([], None) E x" "pending_ok bs x" "set ?roots \<inter> S \<subseteq> E" "\<forall>y \<in> E. set (blk_succs (bk_type (bs ! y))) \<subseteq> E"
    unfolding goes_def by auto
  obtain order where order: "x = fold (emit_one thr bs) order ([], None)" "distinct order" "set order = E" "E \<subseteq> S"
    using go(2) unfolding wrote_def by auto
  have "S \<subseteq> E" unfolding S_def using go(4,5) roots by (intro blk_reach_closed) (auto simp: bs_def)
  moreover have "blk_flushall thr first oc = Inr (fst x @ (case snd x of None \<Rightarrow> [] | Some t \<Rightarrow> [Ln_jmp (the_lbl bs t)]))"
    using mark [unfolded none] go(1,3)
    by (simp add: blk_flushall_def Let_def R bs_def [symmetric] lbl_of_flagged [OF ptrs] pending_ok_def split: option.split
        del: mark_each.simps bfs_each.simps bfs_block.simps mark_reachable_blocks.simps)
  ultimately show ?thesis using order by (intro exI [of _ order]) (metis prod.collapse subset_antisym)
qed

lemma flushall_laid_out:
  assumes wf: "wf_graph jp (first # oc_mustgen oc) (oc_blks oc)"
  shows "\<exists>P. blk_flushall thr first oc = Inr P \<and>
    laid_out jp (oc_blks oc) (blk_reach (oc_blks oc) (set (first # oc_mustgen oc))) P"
proof -
  let ?bs = "oc_blks oc" and ?S = "blk_reach (oc_blks oc) (set (first # oc_mustgen oc))"
  obtain order ls j where order: "distinct order" "set order = ?S" "fold (emit_one thr ?bs) order ([], None) = (ls, j)"
    and out: "blk_flushall thr first oc = Inr (ls @ (case j of None \<Rightarrow> [] | Some t \<Rightarrow> [Ln_jmp (the_lbl ?bs t)]))"
    using flushall_order [OF wf, of thr] by blast
  let ?P = "ls @ (case j of None \<Rightarrow> [] | Some t \<Rightarrow> [Ln_jmp (the_lbl ?bs t)])"
  have ptrs: "wf_ptrs ?bs" and rng: "?S \<subseteq> {..<length ?bs}" using wf_graph_ptrs [OF wf] reach_in_range [OF wf] .
  have "laid_out jp ?bs ?S ?P"
  proof
    fix b assume b: "b \<in> ?S"
    show "set (blk_succs (bk_type (?bs ! b))) \<subseteq> ?S" using b rng blk_reach_step by blast
    obtain pre post where "ls = pre @ seg ?bs b @ post" "\<forall>t. cont (bk_type (?bs ! b)) = Some t \<longrightarrow> linked ?bs t post \<or> post = [] \<and> j = Some t"
      using code_placed [OF ptrs, of order b thr] order rng b by auto
    then show "\<exists>pre post. ?P = pre @ seg ?bs b @ post \<and> (\<forall>t. cont (bk_type (?bs ! b)) = Some t \<longrightarrow> linked ?bs t post)"
      by - (rule exI [of _ pre], rule exI [of _ "post @ (case j of None \<Rightarrow> [] | Some t \<Rightarrow> [Ln_jmp (the_lbl ?bs t)])"],
        auto simp: linked_append skips_linked)
    show "jp i s \<in> {None, bk_lbl (?bs ! if_0), bk_lbl (?bs ! if_1)}" if "bk_type (?bs ! b) = BLK_COND i if_0 if_1 u" for i if_0 if_1 u s
      using wf b rng that unfolding wf_graph_def by blast
  next
    have "labels_in ?P = concat (map (\<lambda>b. blk_labels (?bs ! b)) order)"
      using labels_in_code [OF ptrs, of order thr] order rng by (simp split: option.split)
    then show "distinct (labels_in ?P)"
      using distinct_concat_select [of blk_labels ?bs order] wf order rng by (simp add: wf_graph_def)
  qed (fact ptrs rng)+
  then show ?thesis using out by blast
qed

text \<open>The interpretation: on a graph that is not well-formed there is nothing to write.\<close>

definition checked :: "(string \<Rightarrow> 's \<Rightarrow> string option) \<Rightarrow> nat \<Rightarrow> 'a out_ctx_scheme \<Rightarrow> out_blk list" where
  "checked jp first oc = (if wf_graph jp (first # oc_mustgen oc) (oc_blks oc) then oc_blks oc else [])"

definition flushed :: "(string \<Rightarrow> 's \<Rightarrow> string option) \<Rightarrow> bool \<Rightarrow> nat \<Rightarrow> 'a out_ctx_scheme \<Rightarrow> asm_line list" where
  "flushed jp thr first oc =
     (if wf_graph jp (first # oc_mustgen oc) (oc_blks oc) then case blk_flushall thr first oc of Inr P \<Rightarrow> P | Inl _ \<Rightarrow> [] else [])"

definition live :: "(string \<Rightarrow> 's \<Rightarrow> string option) \<Rightarrow> nat \<Rightarrow> 'a out_ctx_scheme \<Rightarrow> nat set" where
  "live jp first oc =
     (if wf_graph jp (first # oc_mustgen oc) (oc_blks oc) then blk_reach (oc_blks oc) (set (first # oc_mustgen oc)) else {})"

interpretation flush: laid_out ex jp "checked jp first oc" "live jp first oc" "flushed jp thr first oc"
  for ex :: "string \<Rightarrow> 's \<Rightarrow> 's" and jp thr first oc
proof (cases "wf_graph jp (first # oc_mustgen oc) (oc_blks oc)")
  case True
  then show "laid_out jp (checked jp first oc) (live jp first oc) (flushed jp thr first oc)"
    using flushall_laid_out [OF True, of thr] by (auto simp: checked_def live_def flushed_def)
next
  case False
  then show "laid_out jp (checked jp first oc) (live jp first oc) (flushed jp thr first oc)"
    by unfold_locales (auto simp: checked_def live_def flushed_def wf_ptrs_def)
qed

lemma flush_writes:
  assumes "wf_graph jp (first # oc_mustgen oc) (oc_blks oc)"
  shows "blk_flushall thr first oc = Inr (flushed jp thr first oc)" "checked jp first oc = oc_blks oc" "first \<in> live jp first oc"
    "label_pos (flushed jp thr first oc) (the_lbl (oc_blks oc) first) =
       Some (the (label_pos (flushed jp thr first oc) (the_lbl (oc_blks oc) first)))"
proof -
  have live: "live jp first oc = blk_reach (oc_blks oc) (set (first # oc_mustgen oc))" and bs: "checked jp first oc = oc_blks oc"
    using assms by (auto simp: checked_def live_def)
  show "blk_flushall thr first oc = Inr (flushed jp thr first oc)"
    using assms flushall_laid_out [OF assms, of thr] by (auto simp: flushed_def)
  show first: "first \<in> live jp first oc" unfolding live by (rule blk_reach_root) simp
  show "label_pos (flushed jp thr first oc) (the_lbl (oc_blks oc) first) =
       Some (the (label_pos (flushed jp thr first oc) (the_lbl (oc_blks oc) first)))"
    using flush.in_S_label [OF first, of thr, unfolded bs] by simp
qed (use assms in \<open>simp add: checked_def\<close>)

lemma flushed_run:
  assumes wf: "wf_graph jp (first # oc_mustgen oc) (oc_blks oc)" and run: "gruns ex jp (oc_blks oc) (first, s) (b, t)"
    and np: "\<not> passes (oc_blks oc ! b)" and P: "P = flushed jp thr first oc"
  shows "\<exists>p post. label_pos P (the_lbl (oc_blks oc) b) = Some p \<and>
    aruns ex jp P (the (label_pos P (the_lbl (oc_blks oc) first)), s) (p, t) \<and>
    drop p P = Ln_label (the_lbl (oc_blks oc) b) # (case bk_force_lbl (oc_blks oc ! b) of None \<Rightarrow> [] | Some f \<Rightarrow> [Ln_label f]) @
      map Ln_insn (bk_insns (oc_blks oc ! b)) @ post"
proof -
  let ?bs = "oc_blks oc"
  note bs = flush_writes(2) [OF wf] and first = flush_writes(3) [OF wf]
  obtain c where c: "skips ?bs b c" "c \<in> live jp first oc"
    "aruns ex jp P (the (label_pos P (the_lbl ?bs first)), s) (the (label_pos P (the_lbl ?bs c)), t)"
    using flush.graph_run [of ex jp first oc first s b t thr] run first
    unfolding bs P [symmetric] lp_def by blast
  have "c = b" using c(1) np by (cases rule: skips_cases) (auto simp: passes_def)
  obtain pre post where "P = pre @ seg ?bs b @ post"
    using flush.placed [OF c(2), of thr] unfolding bs P [symmetric] \<open>c = b\<close> by blast
  moreover from this have "label_pos P (the_lbl ?bs b) = Some (length pre + (if bk_align (?bs ! b) = 0 then 0 else 1))"
    using flush.seg_label(1) [of jp thr first oc pre b post] unfolding bs P [symmetric] by blast
  ultimately show ?thesis using c(3) \<open>c = b\<close> by (simp add: seg_def)
qed

text \<open>
  C4: A well-formed graph of blocks is always written, and the lines run as the graph does: whenever the
  graph, started at its first block, comes to the start of a block that is not an empty jump, the lines,
  started at the label of the first block, come to the label of that block in the same state, and the
  instructions of the block stand behind it.
\<close>

theorem flush_refines_graph:
  assumes "wf_graph jp (first # oc_mustgen oc) (oc_blks oc)"
  shows "\<exists>P p0. blk_flushall thr first oc = Inr P \<and> label_pos P (the_lbl (oc_blks oc) first) = Some p0 \<and>
    (\<forall>s b t. gruns ex jp (oc_blks oc) (first, s) (b, t) \<longrightarrow> \<not> passes (oc_blks oc ! b) \<longrightarrow>
       (\<exists>p post. label_pos P (the_lbl (oc_blks oc) b) = Some p \<and> aruns ex jp P (p0, s) (p, t) \<and>
          drop p P = Ln_label (the_lbl (oc_blks oc) b) #
            (case bk_force_lbl (oc_blks oc ! b) of None \<Rightarrow> [] | Some f \<Rightarrow> [Ln_label f]) @
            map Ln_insn (bk_insns (oc_blks oc ! b)) @ post))"
  using flush_writes(1,4) [OF assms, of thr] flushed_run [OF assms _ _ refl] by blast

text \<open>A loop: the first block tests, the second counts down and goes back, the third returns.\<close>

definition example_graph :: out_ctx where
  "example_graph =
     \<lparr>oc_blks =
        [\<lparr>bk_desc = ''test'', bk_lbl = Some ''f'', bk_force_lbl = None, bk_insns = [''test''], bk_merge_preds = [1], bk_align = 16,
           bk_reachable = False, bk_emitted = False, bk_type = BLK_COND ''jz .Lblk.1'' 2 1 False\<rparr>,
         \<lparr>bk_desc = ''body'', bk_lbl = Some ''.Lblk.0'', bk_force_lbl = None, bk_insns = [''dec''], bk_merge_preds = [], bk_align = 0,
           bk_reachable = False, bk_emitted = False, bk_type = BLK_NEXT_BLOCK 0\<rparr>,
         \<lparr>bk_desc = ''end'', bk_lbl = Some ''.Lblk.1'', bk_force_lbl = None, bk_insns = [''ret''], bk_merge_preds = [], bk_align = 0,
           bk_reachable = False, bk_emitted = False, bk_type = BLK_TERMINAL\<rparr>],
      oc_current = None, oc_last_used = Some 2, oc_mustgen = [], oc_epilogue = 2, oc_nblks = 2\<rparr>"

definition example_insn :: "string \<Rightarrow> nat \<Rightarrow> nat" where
  "example_insn i s = (if i = ''dec'' then s - 1 else s)"

definition example_jump :: "string \<Rightarrow> nat \<Rightarrow> string option" where
  "example_jump i s = (if i = ''jz .Lblk.1'' \<and> s = 0 then Some ''.Lblk.1'' else None)"

lemma example_graph_wf: "wf_graph example_jump [0] (oc_blks example_graph)"
proof -
  have "blk_reach (oc_blks example_graph) {0} \<subseteq> {0, 1, 2}"
    by (rule blk_reach_closed) (auto simp: example_graph_def)
  then show ?thesis
    by (auto simp: wf_graph_def example_graph_def blk_labels_def example_jump_def less_Suc_eq numeral_eq_Suc)
qed

lemma example_graph_run: "gruns example_insn example_jump (oc_blks example_graph) (0, 1) (2, 0)"
proof -
  have "gnext example_insn example_jump (oc_blks example_graph) (0, 1) = Some (1, 1)"
    "gnext example_insn example_jump (oc_blks example_graph) (1, 1) = Some (0, 0)"
    "gnext example_insn example_jump (oc_blks example_graph) (0, 0) = Some (2, 0)"
    by (simp_all add: gnext_def example_graph_def example_insn_def example_jump_def)
  then show ?thesis
    unfolding gruns_def by (meson converse_rtranclp_into_rtranclp rtranclp.rtrancl_refl)
qed

theorem flush_refines_graph_witness:
  "\<exists>P p0 p. blk_flushall True 0 example_graph = Inr P \<and> label_pos P ''f'' = Some p0 \<and> label_pos P ''.Lblk.1'' = Some p \<and>
     aruns example_insn example_jump P (p0, 1) (p, 0)"
proof -
  have "wf_graph example_jump (0 # oc_mustgen example_graph) (oc_blks example_graph)"
    using example_graph_wf by (simp add: example_graph_def)
  from flush_refines_graph [OF this, of True example_insn] obtain P p0 where
    P: "blk_flushall True 0 example_graph = Inr P" "label_pos P (the_lbl (oc_blks example_graph) 0) = Some p0" and
    runs: "\<And>s b t. gruns example_insn example_jump (oc_blks example_graph) (0, s) (b, t) \<Longrightarrow> \<not> passes (oc_blks example_graph ! b) \<Longrightarrow>
      \<exists>p. label_pos P (the_lbl (oc_blks example_graph) b) = Some p \<and> aruns example_insn example_jump P (p0, s) (p, t)"
    by blast
  have "\<not> passes (oc_blks example_graph ! 2)" "the_lbl (oc_blks example_graph) 0 = ''f''" "the_lbl (oc_blks example_graph) 2 = ''.Lblk.1''"
    by (simp_all add: passes_def the_lbl_def example_graph_def)
  then show ?thesis using P runs [OF example_graph_run] by auto
qed

end
