(* ===== verification/Ucc_Gen_Stmt.thy ===== *)
theory Ucc_Gen_Stmt
  imports Ucc_Blk Ucc_Sym
begin

text \<open>
  Code generation for statements: the functions \<^verbatim>\<open>gen_stmt_*\<close> of \<^verbatim>\<open>src/cc1/ops/stmt_*.c\<close>, with the code
  for entering and leaving scopes of \<^verbatim>\<open>src/cc1/ops/stmt_code.c\<close> and \<^verbatim>\<open>src/cc1/ops/stmt_if.c\<close>.

  A folded statement holds what its \<^verbatim>\<open>gen\<close> function reads.  Loops, switches, cases and labels are
  numbered; the blocks that the code stores in them are part of the state.  The generation of
  expressions, declarations and cleanups and the choice of registers are the operations of a backend.
\<close>

section \<open>State, statements and the backend\<close>

datatype tgt = T_case nat | T_label nat

record 'b gen_ctx = out_ctx +
  gc_flow :: "nat \<Rightarrow> nat option \<times> nat option"
  gc_tgt :: "tgt \<Rightarrow> nat option"
  gc_be :: 'b

type_synonym gcase = "nat \<times> int \<times> int option"

datatype 'e gstmt =
    G_noop
  | G_expr 'e
  | G_break nat nat nat
  | G_continue nat nat nat
  | G_return "'e option" nat nat
  | G_goto nat nat nat
  | G_goto_expr 'e
  | G_if "nat option" nat 'e "'e gstmt" "'e gstmt option"
  | G_while nat "nat option" nat 'e "'e gstmt"
  | G_do nat "'e gstmt" 'e
  | G_for nat nat "'e option" "'e option" "'e option" "'e gstmt"
  | G_switch nat "nat option" nat 'e "gcase list" "nat option" "'e gstmt"
  | G_case nat "'e gstmt"
  | G_label nat "string option" "'e gstmt"
  | G_code nat "'e gstmt list"

text \<open>
  The backend: \<^verbatim>\<open>gen_expr\<close>, \<^verbatim>\<open>out_val_consume\<close>, the spill of a transfer, \<^verbatim>\<open>impl_branch\<close> behind its spill,
  the comparisons of a switch, the declarations of \<^verbatim>\<open>gen_block_decls\<close> and
  \<^verbatim>\<open>gen_block_decls_dealloca\<close>, \<^verbatim>\<open>gen_scope_destructors\<close>, \<^verbatim>\<open>impl_to_retreg\<close> and \<^verbatim>\<open>impl_jmp_expr\<close>.
\<close>

record ('e, 'v, 'b) backend =
  be_prefix :: string
  be_expr :: "'e \<Rightarrow> 'b gen_ctx \<Rightarrow> ('v \<times> 'b gen_ctx) outcome"
  be_consume :: "'v \<Rightarrow> 'b gen_ctx \<Rightarrow> 'b gen_ctx outcome"
  be_spill :: "'b gen_ctx \<Rightarrow> 'b gen_ctx outcome"
  be_branch :: "'v \<Rightarrow> nat \<Rightarrow> nat \<Rightarrow> 'b gen_ctx \<Rightarrow> 'b gen_ctx outcome"
  be_case_eq :: "'v \<Rightarrow> int \<Rightarrow> 'b gen_ctx \<Rightarrow> ('v \<times> 'b gen_ctx) outcome"
  be_case_lt :: "'v \<Rightarrow> int \<Rightarrow> 'b gen_ctx \<Rightarrow> ('v \<times> 'b gen_ctx) outcome"
  be_case_gt :: "'v \<Rightarrow> int \<Rightarrow> 'b gen_ctx \<Rightarrow> ('v \<times> 'b gen_ctx) outcome"
  be_decls :: "nat \<Rightarrow> 'b gen_ctx \<Rightarrow> 'b gen_ctx outcome"
  be_dealloca :: "nat \<Rightarrow> 'b gen_ctx \<Rightarrow> 'b gen_ctx outcome"
  be_dtors :: "nat \<Rightarrow> 'b gen_ctx \<Rightarrow> 'b gen_ctx outcome"
  be_ret :: "'v \<Rightarrow> 'b gen_ctx \<Rightarrow> 'b gen_ctx outcome"
  be_jmp_expr :: "'v \<Rightarrow> 'b gen_ctx \<Rightarrow> 'b gen_ctx outcome"

type_synonym 'b gen = "'b gen_ctx \<Rightarrow> 'b gen_ctx outcome"

definition new_blk :: "('e, 'v, 'b) backend \<Rightarrow> string \<Rightarrow> 'b gen_ctx \<Rightarrow> (nat \<times> 'b gen_ctx) outcome" where
  "new_blk B desc g = out_blk_new (be_prefix B) desc g"

definition transfer :: "('e, 'v, 'b) backend \<Rightarrow> nat \<Rightarrow> 'b gen" where
  "transfer B to g = out_ctrl_transfer (be_spill B) to g"

definition transfer_make_current :: "('e, 'v, 'b) backend \<Rightarrow> nat \<Rightarrow> 'b gen" where
  "transfer_make_current B to g = out_ctrl_transfer_make_current (be_spill B) to g"

definition out_ctrl_branch :: "('e, 'v, 'b) backend \<Rightarrow> 'v \<Rightarrow> nat \<Rightarrow> nat \<Rightarrow> 'b gen" where
  "out_ctrl_branch B cond if_true if_false g =
     bindE (be_branch B cond if_true if_false g) (\<lambda>g. Inr (out_current_blk if_true g))"

definition out_ctrl_end_ret :: "('e, 'v, 'b) backend \<Rightarrow> 'v option \<Rightarrow> 'b gen" where
  "out_ctrl_end_ret B ret g =
     bindE (case ret of None \<Rightarrow> Inr g | Some v \<Rightarrow> be_ret B v g) (\<lambda>g.
     bindE (transfer B (oc_epilogue g) g) (\<lambda>g. Inr (g\<lparr>oc_current := None\<rparr>)))"

definition out_ctrl_transfer_exp :: "('e, 'v, 'b) backend \<Rightarrow> 'v \<Rightarrow> 'b gen" where
  "out_ctrl_transfer_exp B addr g =
     bindE (be_spill B g) (\<lambda>g.
     bindE (be_jmp_expr B addr g) (\<lambda>g.
     bindE (case oc_current g of None \<Rightarrow> Inr g | Some b \<Rightarrow> upd_blk b (\<lambda>k. k\<lparr>bk_type := BLK_NEXT_EXPR\<rparr>) g) (\<lambda>g.
       Inr (g\<lparr>oc_current := None\<rparr>))))"

definition stmt_init_blks :: "nat \<Rightarrow> nat option \<Rightarrow> nat option \<Rightarrow> 'b gen_ctx \<Rightarrow> 'b gen_ctx" where
  "stmt_init_blks p con brk g = g\<lparr>gc_flow := (gc_flow g)(p := (con, brk))\<rparr>"

definition gen_value :: "('e, 'v, 'b) backend \<Rightarrow> 'e \<Rightarrow> 'b gen" where
  "gen_value B e g = bindE (be_expr B e g) (\<lambda>(v, g). be_consume B v g)"

definition gen_value_opt :: "('e, 'v, 'b) backend \<Rightarrow> 'e option \<Rightarrow> 'b gen" where
  "gen_value_opt B e g = (case e of None \<Rightarrow> Inr g | Some e \<Rightarrow> gen_value B e g)"

section \<open>Scopes\<close>

definition new_block_for_scope :: "('e, 'v, 'b) backend \<Rightarrow> string \<Rightarrow> 'b gen" where
  "new_block_for_scope B desc g =
     bindE (out_ctx_current_blk_is_empty g) (\<lambda>emp.
       if emp then Inr g else bindE (new_blk B desc g) (\<lambda>(b, g). transfer_make_current B b g))"

definition gen_block_decls :: "('e, 'v, 'b) backend \<Rightarrow> nat \<Rightarrow> 'b gen" where
  "gen_block_decls B stab g = bindE (new_block_for_scope B ''scope_enter'' g) (be_decls B stab)"

definition gen_block_decls_dealloca :: "('e, 'v, 'b) backend \<Rightarrow> nat \<Rightarrow> 'b gen" where
  "gen_block_decls_dealloca B stab g = bindE (be_dealloca B stab g) (new_block_for_scope B ''scope_leave'')"

text \<open>\<^verbatim>\<open>SYMTAB_PARENT_WALK\<close>; the fuel is the number of tables.\<close>

primrec parent_walk :: "nat \<Rightarrow> symheap \<Rightarrow> nat option \<Rightarrow> nat list outcome" where
  "parent_walk 0 h s = (if s = None then Inr [] else Inl Out_of_fuel)"
| "parent_walk (Suc n) h s =
     (case s of
        None \<Rightarrow> Inr []
      | Some s \<Rightarrow> bindE (tab h s) (\<lambda>t. bindE (parent_walk n h (st_parent t)) (\<lambda>up. Inr (s # up))))"

definition scope_chain :: "symheap \<Rightarrow> nat \<Rightarrow> nat list outcome" where
  "scope_chain h s = parent_walk (length (sh_tabs h)) h (Some s)"

primrec each_scope :: "(nat \<Rightarrow> 'b gen) \<Rightarrow> nat list \<Rightarrow> 'b gen" where
  "each_scope f [] g = Inr g"
| "each_scope f (s # ss) g = bindE (f s g) (each_scope f ss)"

definition gen_scope_leave :: "('e, 'v, 'b) backend \<Rightarrow> symheap \<Rightarrow> nat \<Rightarrow> nat option \<Rightarrow> 'b gen" where
  "gen_scope_leave B h s_from s_to g =
     (case s_to of
        None \<Rightarrow> be_dtors B s_from g
      | Some s_to \<Rightarrow>
        bindE (scope_chain h s_to) (\<lambda>marked.
        bindE (scope_chain h s_from) (\<lambda>up.
          each_scope (be_dtors B) (takeWhile (\<lambda>s. s \<notin> set marked) up) g)))"

definition gen_scope_leave_parent :: "('e, 'v, 'b) backend \<Rightarrow> symheap \<Rightarrow> nat \<Rightarrow> 'b gen" where
  "gen_scope_leave_parent B h s_from g = bindE (tab h s_from) (\<lambda>t. gen_scope_leave B h s_from (st_parent t) g)"

definition flow_gen :: "('e, 'v, 'b) backend \<Rightarrow> nat option \<Rightarrow> nat \<Rightarrow> 'b gen" where
  "flow_gen B flow stab g =
     bindE (gen_block_decls B stab g) (\<lambda>g.
       case flow of
         None \<Rightarrow> Inr g
       | Some init \<Rightarrow> if stab \<noteq> init then gen_block_decls B init g else Inr g)"

definition flow_end :: "('e, 'v, 'b) backend \<Rightarrow> symheap \<Rightarrow> nat option \<Rightarrow> nat \<Rightarrow> 'b gen" where
  "flow_end B h flow stab g =
     bindE (gen_scope_leave_parent B h stab g) (\<lambda>g.
     bindE (gen_block_decls_dealloca B stab g) (\<lambda>g.
       case flow of
         None \<Rightarrow> Inr g
       | Some init \<Rightarrow>
         if stab = init then Inr g
         else
           bindE (tab h stab) (\<lambda>t.
             if st_parent t \<noteq> Some init then Inl (Assert_failed ''stab->parent == flow->for_init_symtab'')
             else bindE (gen_scope_leave_parent B h init g) (gen_block_decls_dealloca B init))))"

section \<open>Jumps and labels\<close>

definition jump_to :: "('e, 'v, 'b) backend \<Rightarrow> nat option \<Rightarrow> 'b gen" where
  "jump_to B b g = (case b of None \<Rightarrow> Inl Null_deref | Some b \<Rightarrow> transfer B b g)"

definition label_getblk :: "('e, 'v, 'b) backend \<Rightarrow> nat \<Rightarrow> 'b gen_ctx \<Rightarrow> (nat \<times> 'b gen_ctx) outcome" where
  "label_getblk B l g =
     (case gc_tgt g (T_label l) of
        Some b \<Rightarrow> Inr (b, g)
      | None \<Rightarrow>
        bindE (new_blk B ''label'' g) (\<lambda>(b, g). Inr (b, g\<lparr>gc_tgt := (gc_tgt g)(T_label l \<mapsto> b)\<rparr>)))"

section \<open>Switch\<close>

definition gen_case :: "('e, 'v, 'b) backend \<Rightarrow> 'v \<Rightarrow> gcase \<Rightarrow> 'b gen" where
  "gen_case B v c g =
     (case c of (k, lo, hi) \<Rightarrow>
       bindE (new_blk B ''case_next'' g) (\<lambda>(cancel, g).
       bindE (new_blk B ''case'' g) (\<lambda>(case_blk, g).
       let g = g\<lparr>gc_tgt := (gc_tgt g)(T_case k \<mapsto> case_blk)\<rparr> in
       bindE (case hi of
                Some hi \<Rightarrow>
                  bindE (new_blk B ''range_true'' g) (\<lambda>(test2, g).
                  bindE (be_case_lt B v lo g) (\<lambda>(c, g).
                  bindE (out_ctrl_branch B c cancel test2 g) (\<lambda>g.
                  bindE (be_case_gt B v hi (out_current_blk test2 g)) (\<lambda>(c, g).
                  out_ctrl_branch B c cancel case_blk g))))
              | None \<Rightarrow>
                  bindE (be_case_eq B v lo g) (\<lambda>(c, g). out_ctrl_branch B c case_blk cancel g)) (\<lambda>g.
       Inr (out_current_blk cancel g)))))"

primrec gen_cases :: "('e, 'v, 'b) backend \<Rightarrow> 'v \<Rightarrow> gcase list \<Rightarrow> 'b gen" where
  "gen_cases B v [] g = Inr g"
| "gen_cases B v (c # cs) g = bindE (gen_case B v c g) (gen_cases B v cs)"

section \<open>Statements\<close>

text \<open>
  One definition for each \<^verbatim>\<open>gen_stmt_*\<close>; an argument of type \<open>'b gen\<close> is the call of \<^verbatim>\<open>gen_stmt\<close> for a
  part of the statement.  A volatile expression statement is read by \<open>be_consume\<close>.  \<^verbatim>\<open>return\<close> is the one
  of a function that is not being inlined, without the check of \<^verbatim>\<open>-fsanitize\<close>.
\<close>

definition gen_stmt_noop :: "'b gen" where
  "gen_stmt_noop g = Inr g"

definition gen_stmt_expr :: "('e, 'v, 'b) backend \<Rightarrow> 'e \<Rightarrow> 'b gen" where
  "gen_stmt_expr B e g = gen_value B e g"

definition gen_stmt_break :: "('e, 'v, 'b) backend \<Rightarrow> symheap \<Rightarrow> nat \<Rightarrow> nat \<Rightarrow> nat \<Rightarrow> 'b gen" where
  "gen_stmt_break B h p s_from s_to g =
     bindE (gen_scope_leave B h s_from (Some s_to) g) (\<lambda>g. jump_to B (snd (gc_flow g p)) g)"

definition gen_stmt_continue :: "('e, 'v, 'b) backend \<Rightarrow> symheap \<Rightarrow> nat \<Rightarrow> nat \<Rightarrow> nat \<Rightarrow> 'b gen" where
  "gen_stmt_continue B h p s_from s_to g =
     bindE (gen_scope_leave B h s_from (Some s_to) g) (\<lambda>g. jump_to B (fst (gc_flow g p)) g)"

definition gen_stmt_return :: "('e, 'v, 'b) backend \<Rightarrow> symheap \<Rightarrow> 'e option \<Rightarrow> nat \<Rightarrow> nat \<Rightarrow> 'b gen" where
  "gen_stmt_return B h e s_from root g =
     bindE (case e of None \<Rightarrow> Inr (None, g) | Some e \<Rightarrow> bindE (be_expr B e g) (\<lambda>(v, g). Inr (Some v, g))) (\<lambda>(v, g).
     bindE (gen_scope_leave B h s_from (Some root) g) (out_ctrl_end_ret B v))"

definition gen_stmt_goto :: "('e, 'v, 'b) backend \<Rightarrow> symheap \<Rightarrow> nat \<Rightarrow> nat \<Rightarrow> nat \<Rightarrow> 'b gen" where
  "gen_stmt_goto B h l s_from s_to g =
     bindE (gen_scope_leave B h s_from (Some s_to) g) (\<lambda>g.
     bindE (label_getblk B l g) (\<lambda>(b, g). transfer B b g))"

definition gen_stmt_goto_expr :: "('e, 'v, 'b) backend \<Rightarrow> 'e \<Rightarrow> 'b gen" where
  "gen_stmt_goto_expr B e g = bindE (be_expr B e g) (\<lambda>(v, g). out_ctrl_transfer_exp B v g)"

definition gen_stmt_if :: "('e, 'v, 'b) backend \<Rightarrow> symheap \<Rightarrow> nat option \<Rightarrow> nat \<Rightarrow> 'e \<Rightarrow> 'b gen \<Rightarrow> 'b gen option \<Rightarrow> 'b gen" where
  "gen_stmt_if B h flow stab e lhs rhs g =
     bindE (new_blk B ''if_true'' g) (\<lambda>(blk_true, g).
     bindE (new_blk B ''if_false'' g) (\<lambda>(blk_false, g).
     bindE (new_blk B ''fi'' g) (\<lambda>(blk_fi, g).
     bindE (flow_gen B flow stab g) (\<lambda>g.
     bindE (be_expr B e g) (\<lambda>(cond, g).
     bindE (out_ctrl_branch B cond blk_true blk_false g) (\<lambda>g.
     bindE (lhs (out_current_blk blk_true g)) (\<lambda>g.
     bindE (transfer B blk_fi g) (\<lambda>g.
     bindE (case rhs of None \<Rightarrow> Inr (out_current_blk blk_false g) | Some rhs \<Rightarrow> rhs (out_current_blk blk_false g)) (\<lambda>g.
     bindE (transfer B blk_fi g) (\<lambda>g.
     flow_end B h flow stab (out_current_blk blk_fi g)))))))))))"

definition gen_stmt_while :: "('e, 'v, 'b) backend \<Rightarrow> symheap \<Rightarrow> nat \<Rightarrow> nat option \<Rightarrow> nat \<Rightarrow> 'e \<Rightarrow> 'b gen \<Rightarrow> 'b gen" where
  "gen_stmt_while B h p flow stab e lhs g =
     bindE (new_blk B ''while_body'' g) (\<lambda>(blk_body, g).
     bindE (new_blk B ''while_cont'' g) (\<lambda>(blk_cont, g).
     bindE (new_blk B ''while_break'' g) (\<lambda>(blk_break, g).
     bindE (transfer B blk_cont (stmt_init_blks p (Some blk_cont) (Some blk_break) g)) (\<lambda>g.
     bindE (flow_gen B flow stab (out_current_blk blk_cont g)) (\<lambda>g.
     bindE (be_expr B e g) (\<lambda>(cond, g).
     bindE (out_ctrl_branch B cond blk_body blk_break g) (\<lambda>g.
     bindE (lhs (out_current_blk blk_body g)) (\<lambda>g.
     bindE (transfer B blk_cont g) (\<lambda>g.
     flow_end B h flow stab (out_current_blk blk_break g))))))))))"

definition gen_stmt_do :: "('e, 'v, 'b) backend \<Rightarrow> nat \<Rightarrow> 'b gen \<Rightarrow> 'e \<Rightarrow> 'b gen" where
  "gen_stmt_do B p lhs e g =
     bindE (new_blk B ''do_begin'' g) (\<lambda>(begn, g).
     bindE (new_blk B ''do_test'' g) (\<lambda>(tst, g).
     bindE (new_blk B ''do_end'' g) (\<lambda>(en, g).
     bindE (transfer B begn (stmt_init_blks p (Some tst) (Some en) g)) (\<lambda>g.
     bindE (lhs (out_current_blk begn g)) (\<lambda>g.
     bindE (transfer B tst g) (\<lambda>g.
     bindE (be_expr B e (out_current_blk tst g)) (\<lambda>(cond, g).
     bindE (out_ctrl_branch B cond begn en g) (\<lambda>g. Inr (out_current_blk en g)))))))))"

definition gen_stmt_for :: "('e, 'v, 'b) backend \<Rightarrow> symheap \<Rightarrow> nat \<Rightarrow> nat \<Rightarrow> 'e option \<Rightarrow> 'e option \<Rightarrow> 'e option \<Rightarrow> 'b gen \<Rightarrow> 'b gen" where
  "gen_stmt_for B h p stab init cond inc lhs g =
     bindE (new_blk B ''for_test'' g) (\<lambda>(blk_test, g).
     bindE (new_blk B ''for_body'' g) (\<lambda>(blk_body, g).
     bindE (new_blk B ''for_end'' g) (\<lambda>(blk_end, g).
     bindE (new_blk B ''for_inc'' g) (\<lambda>(blk_inc, g).
     bindE (flow_gen B (Some stab) stab g) (\<lambda>g.
     bindE (gen_value_opt B init g) (\<lambda>g.
     bindE (transfer_make_current B blk_test g) (\<lambda>g.
     bindE (case cond of
              Some e \<Rightarrow> bindE (be_expr B e g) (\<lambda>(v, g). out_ctrl_branch B v blk_body blk_end g)
            | None \<Rightarrow> transfer B blk_body g) (\<lambda>g.
     bindE (lhs (out_current_blk blk_body (stmt_init_blks p (Some blk_inc) (Some blk_end) g))) (\<lambda>g.
     bindE (transfer B blk_inc g) (\<lambda>g.
     bindE (gen_value_opt B inc (out_current_blk blk_inc g)) (\<lambda>g.
     bindE (transfer B blk_test g) (\<lambda>g.
     flow_end B h (Some stab) stab (out_current_blk blk_end g)))))))))))))"

definition gen_default :: "('e, 'v, 'b) backend \<Rightarrow> nat option \<Rightarrow> nat \<Rightarrow> 'b gen_ctx \<Rightarrow> (nat \<times> 'b gen_ctx) outcome" where
  "gen_default B dflt fin g =
     (case dflt of
        None \<Rightarrow> Inr (fin, g)
      | Some k \<Rightarrow> bindE (new_blk B ''default'' g) (\<lambda>(b, g). Inr (b, g\<lparr>gc_tgt := (gc_tgt g)(T_case k \<mapsto> b)\<rparr>)))"

definition gen_stmt_switch ::
  "('e, 'v, 'b) backend \<Rightarrow> symheap \<Rightarrow> nat \<Rightarrow> nat option \<Rightarrow> nat \<Rightarrow> 'e \<Rightarrow> gcase list \<Rightarrow> nat option \<Rightarrow> 'b gen \<Rightarrow> 'b gen" where
  "gen_stmt_switch B h p flow stab e cases dflt lhs g =
     bindE (new_blk B ''switch_fin'' g) (\<lambda>(fin, g).
     bindE (flow_gen B flow stab (stmt_init_blks p None (Some fin) g)) (\<lambda>g.
     bindE (be_expr B e g) (\<lambda>(v, g).
     bindE (gen_cases B v cases g) (\<lambda>g.
     bindE (be_consume B v g) (\<lambda>g.
     bindE (gen_default B dflt fin g) (\<lambda>(other, g).
     bindE (transfer B other g) (\<lambda>g.
     bindE (new_blk B ''switch_body'' g) (\<lambda>(b, g).
     bindE (lhs (out_current_blk b g)) (\<lambda>g.
     bindE (transfer B fin g) (\<lambda>g.
     flow_end B h flow stab (out_current_blk fin g)))))))))))"

text \<open>\<^verbatim>\<open>gen_stmt_case\<close>, \<^verbatim>\<open>gen_stmt_case_range\<close> and \<^verbatim>\<open>gen_stmt_default\<close>, which are the same.\<close>

definition gen_stmt_case :: "('e, 'v, 'b) backend \<Rightarrow> nat \<Rightarrow> 'b gen \<Rightarrow> 'b gen" where
  "gen_stmt_case B k lhs g =
     (case gc_tgt g (T_case k) of
        None \<Rightarrow> Inl Null_deref
      | Some b \<Rightarrow> bindE (transfer_make_current B b g) lhs)"

definition gen_stmt_label :: "('e, 'v, 'b) backend \<Rightarrow> nat \<Rightarrow> string option \<Rightarrow> 'b gen \<Rightarrow> 'b gen" where
  "gen_stmt_label B k mustgen_spel lhs g =
     bindE (label_getblk B k g) (\<lambda>(b, g).
     bindE (if mustgen_spel = None then Inr g else out_blk_mustgen b mustgen_spel g) (\<lambda>g.
     bindE (transfer_make_current B b g) lhs))"

definition gen_stmt_code_m1_finish :: "('e, 'v, 'b) backend \<Rightarrow> symheap \<Rightarrow> nat \<Rightarrow> 'b gen" where
  "gen_stmt_code_m1_finish B h stab g = bindE (gen_scope_leave_parent B h stab g) (gen_block_decls_dealloca B stab)"

definition gen_stmt_code :: "('e, 'v, 'b) backend \<Rightarrow> symheap \<Rightarrow> nat \<Rightarrow> 'b gen \<Rightarrow> 'b gen" where
  "gen_stmt_code B h stab stmts g =
     bindE (gen_block_decls B stab g) (\<lambda>g.
     bindE (stmts g) (gen_stmt_code_m1_finish B h stab))"

definition gen_seq :: "'b gen \<Rightarrow> 'b gen \<Rightarrow> 'b gen" where
  "gen_seq f f' g = bindE (f g) f'"

fun gen_stmt :: "('e, 'v, 'b) backend \<Rightarrow> symheap \<Rightarrow> 'e gstmt \<Rightarrow> 'b gen"
  and gen_stmts :: "('e, 'v, 'b) backend \<Rightarrow> symheap \<Rightarrow> 'e gstmt list \<Rightarrow> 'b gen" where
  "gen_stmt B h G_noop = gen_stmt_noop"
| "gen_stmt B h (G_expr e) = gen_stmt_expr B e"
| "gen_stmt B h (G_break p s_from s_to) = gen_stmt_break B h p s_from s_to"
| "gen_stmt B h (G_continue p s_from s_to) = gen_stmt_continue B h p s_from s_to"
| "gen_stmt B h (G_return e s_from root) = gen_stmt_return B h e s_from root"
| "gen_stmt B h (G_goto l s_from s_to) = gen_stmt_goto B h l s_from s_to"
| "gen_stmt B h (G_goto_expr e) = gen_stmt_goto_expr B e"
| "gen_stmt B h (G_if flow stab e l r) = gen_stmt_if B h flow stab e (gen_stmt B h l) (map_option (gen_stmt B h) r)"
| "gen_stmt B h (G_while p flow stab e l) = gen_stmt_while B h p flow stab e (gen_stmt B h l)"
| "gen_stmt B h (G_do p l e) = gen_stmt_do B p (gen_stmt B h l) e"
| "gen_stmt B h (G_for p stab init cond inc l) = gen_stmt_for B h p stab init cond inc (gen_stmt B h l)"
| "gen_stmt B h (G_switch p flow stab e cases dflt body) = gen_stmt_switch B h p flow stab e cases dflt (gen_stmt B h body)"
| "gen_stmt B h (G_case k l) = gen_stmt_case B k (gen_stmt B h l)"
| "gen_stmt B h (G_label k mustgen_spel l) = gen_stmt_label B k mustgen_spel (gen_stmt B h l)"
| "gen_stmt B h (G_code stab ss) = gen_stmt_code B h stab (gen_stmts B h ss)"
| "gen_stmts B h [] = Inr"
| "gen_stmts B h (s # ss) = gen_seq (gen_stmt B h s) (gen_stmts B h ss)"

end
