(* ===== verification/Ucc_Gen_Grow.thy ===== *)
theory Ucc_Gen_Grow
  imports Ucc_Gen_Stmt
begin

text \<open>
  What the generation of code keeps of the graph it extends: blocks that are ended stay as they are,
  others only gain instructions, and only the current block, new blocks and the blocks of the labels
  of the statement are written to.
\<close>

section \<open>Growing graphs\<close>

definition same_blk :: "out_blk \<Rightarrow> out_blk \<Rightarrow> bool" where
  "same_blk k k' \<longleftrightarrow> bk_insns k' = bk_insns k \<and> bk_type k' = bk_type k"

definition ext :: "out_blk list \<Rightarrow> out_blk list \<Rightarrow> bool" where
  "ext bs G \<longleftrightarrow> length bs \<le> length G \<and>
     (\<forall>b < length bs. (\<exists>rest. bk_insns (G ! b) = bk_insns (bs ! b) @ rest) \<and>
        (bk_type (bs ! b) \<noteq> BLK_UNINIT \<longrightarrow> same_blk (bs ! b) (G ! b)) \<and> bk_lbl (G ! b) = bk_lbl (bs ! b))"

lemma ext_refl [simp]: "ext bs bs"
  by (simp add: ext_def same_blk_def)

lemma ext_trans: "ext a b \<Longrightarrow> ext b c \<Longrightarrow> ext a c"
  unfolding ext_def same_blk_def by (metis append_assoc dual_order.strict_trans1 order.trans)

lemma ext_length: "ext a b \<Longrightarrow> length a \<le> length b"
  by (simp add: ext_def)

definition ginv :: "'b gen_ctx \<Rightarrow> bool" where
  "ginv g \<longleftrightarrow>
     (\<forall>b. oc_current g = Some b \<longrightarrow> b < length (oc_blks g) \<and> bk_type (oc_blks g ! b) = BLK_UNINIT) \<and>
     (\<forall>k b. gc_tgt g k = Some b \<longrightarrow> b < length (oc_blks g)) \<and>
     (\<forall>k k' b. gc_tgt g k = Some b \<longrightarrow> gc_tgt g k' = Some b \<longrightarrow> k = k')"

definition fresh :: "nat \<Rightarrow> 'b gen_ctx \<Rightarrow> bool" where
  "fresh b g \<longleftrightarrow> b < length (oc_blks g) \<and> bk_insns (oc_blks g ! b) = [] \<and> bk_type (oc_blks g ! b) = BLK_UNINIT \<and>
     oc_current g \<noteq> Some b"

text \<open>
  The statement may write to the blocks of the targets \<open>K\<close>, give blocks to the cases \<open>N\<close> and to labels,
  and set the blocks of the loops and switches \<open>D\<close>.
\<close>

definition grow :: "tgt set \<Rightarrow> tgt set \<Rightarrow> nat set \<Rightarrow> 'b gen_ctx \<Rightarrow> 'b gen_ctx \<Rightarrow> bool" where
  "grow K N D g g' \<longleftrightarrow>
     ginv g' \<and> ext (oc_blks g) (oc_blks g') \<and>
     (\<forall>b < length (oc_blks g). oc_current g \<noteq> Some b \<longrightarrow> (\<forall>k \<in> K. gc_tgt g k \<noteq> Some b) \<longrightarrow>
        same_blk (oc_blks g ! b) (oc_blks g' ! b) \<and> oc_current g' \<noteq> Some b) \<and>
     (\<forall>k b. gc_tgt g k = Some b \<longrightarrow> gc_tgt g' k = Some b) \<and>
     (\<forall>k b. gc_tgt g k = None \<longrightarrow> gc_tgt g' k = Some b \<longrightarrow>
        length (oc_blks g) \<le> b \<and> (k \<notin> K \<longrightarrow> fresh b g') \<and> (k \<in> N \<or> k \<in> range T_label)) \<and>
     (\<forall>q. q \<notin> D \<longrightarrow> gc_flow g' q = gc_flow g q) \<and> oc_epilogue g' = oc_epilogue g"

lemma grow_refl: "ginv g \<Longrightarrow> grow K N D g g"
  by (simp add: grow_def same_blk_def)

lemma growD:
  assumes "grow K N D g g'"
  shows "ginv g'" "ext (oc_blks g) (oc_blks g')" "gc_tgt g k = Some b \<Longrightarrow> gc_tgt g' k = Some b"
    "q \<notin> D \<Longrightarrow> gc_flow g' q = gc_flow g q" "oc_epilogue g' = oc_epilogue g" "length (oc_blks g) \<le> length (oc_blks g')"
  using assms by (simp_all add: grow_def ext_def)

lemma grow_keeps:
  assumes "grow K N D g g'" "b < length (oc_blks g)" "oc_current g \<noteq> Some b" "\<And>k. k \<in> K \<Longrightarrow> gc_tgt g k \<noteq> Some b"
  shows "same_blk (oc_blks g ! b) (oc_blks g' ! b)" "oc_current g' \<noteq> Some b"
  using assms unfolding grow_def by blast+

lemma grow_new:
  assumes "grow K N D g g'" "gc_tgt g k = None" "gc_tgt g' k = Some b"
  shows "length (oc_blks g) \<le> b" "k \<notin> K \<Longrightarrow> fresh b g'" "k \<in> N \<or> k \<in> range T_label"
  using assms unfolding grow_def by blast+

lemma fresh_keeps: "fresh b g \<Longrightarrow> same_blk (oc_blks g ! b) (oc_blks g' ! b) \<Longrightarrow> oc_current g' \<noteq> Some b \<Longrightarrow>
    length (oc_blks g) \<le> length (oc_blks g') \<Longrightarrow> fresh b g'"
  by (simp add: fresh_def same_blk_def)

lemma grow_fresh:
  assumes "grow K N D g g'" "fresh b g" "\<And>k. k \<in> K \<Longrightarrow> gc_tgt g k \<noteq> Some b"
  shows "fresh b g'"
  using grow_keeps [OF assms(1)] assms(2,3) growD(6) [OF assms(1)] by (intro fresh_keeps [OF assms(2)]) (auto simp: fresh_def)

lemma ginvD:
  assumes "ginv g"
  shows "oc_current g = Some b \<Longrightarrow> b < length (oc_blks g)" "oc_current g = Some b \<Longrightarrow> bk_type (oc_blks g ! b) = BLK_UNINIT"
    "gc_tgt g k = Some b \<Longrightarrow> b < length (oc_blks g)" "gc_tgt g k = Some b \<Longrightarrow> gc_tgt g k' = Some b \<Longrightarrow> k = k'"
  using assms unfolding ginv_def by blast+

lemma grow_trans:
  assumes 1: "grow K1 N1 D1 g g1" and 2: "grow K2 N2 D2 g1 g2" and K: "K1 \<subseteq> K" "K2 \<subseteq> K" "N1 \<subseteq> N" "N2 \<subseteq> N" "D1 \<subseteq> D" "D2 \<subseteq> D"
  shows "grow K N D g g2"
proof -
  have keep: "same_blk (oc_blks g ! b) (oc_blks g2 ! b) \<and> oc_current g2 \<noteq> Some b"
    if b: "b < length (oc_blks g)" "oc_current g \<noteq> Some b" and k: "\<forall>k \<in> K. gc_tgt g k \<noteq> Some b" for b
  proof -
    have s1: "same_blk (oc_blks g ! b) (oc_blks g1 ! b)" "oc_current g1 \<noteq> Some b"
      using grow_keeps [OF 1 b] k K by auto
    have "gc_tgt g1 k' \<noteq> Some b" if "k' \<in> K2" for k'
      using k K that b growD(3) [OF 1, of k'] grow_new(1) [OF 1, of k' b] by (cases "gc_tgt g k'") auto
    then have "same_blk (oc_blks g1 ! b) (oc_blks g2 ! b)" "oc_current g2 \<noteq> Some b"
      using grow_keeps [OF 2 _ s1(2)] b growD(6) [OF 1] by auto
    with s1 show ?thesis by (simp add: same_blk_def)
  qed
  have new: "length (oc_blks g) \<le> b \<and> (k \<notin> K \<longrightarrow> fresh b g2) \<and> (k \<in> N \<or> k \<in> range T_label)"
    if n: "gc_tgt g k = None" "gc_tgt g2 k = Some b" for k b
  proof (cases "gc_tgt g1 k")
    case None
    then show ?thesis using grow_new [OF 2 None n(2)] growD(6) [OF 1] K by auto
  next
    case (Some b')
    then have b: "gc_tgt g1 k = Some b" using growD(3) [OF 2, of k b'] n by simp
    have "fresh b g2" if "k \<notin> K"
      using grow_fresh [OF 2] grow_new(2) [OF 1 n(1) b] ginvD(4) [OF growD(1) [OF 1] b] K that by blast
    then show ?thesis using grow_new [OF 1 n(1) b] K by auto
  qed
  have flow: "gc_flow g2 q = gc_flow g q" if "q \<notin> D" for q
    using growD(4) [OF 1, of q] growD(4) [OF 2, of q] K that by (metis subsetD)
  show ?thesis
    unfolding grow_def
    using keep new flow ext_trans [OF growD(2) [OF 1] growD(2) [OF 2]] growD(1,3,5) [OF 2] growD(3,5) [OF 1] by simp
qed

text \<open>A block that only the code that made it knows.\<close>

definition priv :: "nat \<Rightarrow> 'b gen_ctx \<Rightarrow> bool" where
  "priv b g \<longleftrightarrow> fresh b g \<and> (\<forall>k. gc_tgt g k \<noteq> Some b)"

lemma priv_grow:
  assumes "grow K N D g g'" "priv b g" shows "priv b g'"
proof -
  have "gc_tgt g' k \<noteq> Some b" for k
  proof (cases "gc_tgt g k")
    case None
    then show ?thesis using grow_new(1) [OF assms(1) None, of b] assms(2) by (auto simp: priv_def fresh_def)
  next
    case (Some c)
    then show ?thesis using growD(3) [OF assms(1), of k c] assms(2) by (auto simp: priv_def)
  qed
  then show ?thesis using grow_fresh [OF assms(1)] assms(2) by (auto simp: priv_def)
qed

text \<open>The blocks of the targets \<open>K\<close> have not been written to.\<close>

definition tfresh :: "tgt set \<Rightarrow> 'b gen_ctx \<Rightarrow> bool" where
  "tfresh K g \<longleftrightarrow> (\<forall>k \<in> K. \<forall>b. gc_tgt g k = Some b \<longrightarrow> fresh b g)"

lemma tfresh_grow:
  assumes "grow K N D g g'" "tfresh K' g" "K \<inter> K' = {}" "ginv g" shows "tfresh K' g'"
  unfolding tfresh_def
proof (intro ballI allI impI)
  fix k b assume k: "k \<in> K'" "gc_tgt g' k = Some b"
  show "fresh b g'"
  proof (cases "gc_tgt g k")
    case None
    then show ?thesis using grow_new(2) [OF assms(1) None k(2)] k assms(3) by auto
  next
    case (Some c)
    then have c: "c = b" using growD(3) [OF assms(1) Some] k by simp
    have "gc_tgt g k' \<noteq> Some b" if "k' \<in> K" for k'
      using ginvD(4) [OF assms(4) Some, of k'] c that k assms(3) by auto
    then show ?thesis using grow_fresh [OF assms(1)] assms(2) k Some c by (auto simp: tfresh_def)
  qed
qed

section \<open>The operations\<close>

definition quiet :: "'b gen \<Rightarrow> bool" where
  "quiet f \<longleftrightarrow> (\<forall>g g'. ginv g \<longrightarrow> f g = Inr g' \<longrightarrow> grow {} {} {} g g')"

definition quiet_val :: "('b gen_ctx \<Rightarrow> ('a \<times> 'b gen_ctx) outcome) \<Rightarrow> bool" where
  "quiet_val f \<longleftrightarrow> (\<forall>g a g'. ginv g \<longrightarrow> f g = Inr (a, g') \<longrightarrow> grow {} {} {} g g')"

text \<open>
  What a backend does to the graph: its operations write to the current block and to blocks of their own;
  a spill stays in its block; a branch ends the current block.
\<close>

definition quiet_backend :: "('e, 'v, 'b) backend \<Rightarrow> bool" where
  "quiet_backend B \<longleftrightarrow>
     (\<forall>e. quiet_val (be_expr B e)) \<and> (\<forall>v. quiet (be_consume B v)) \<and> quiet (be_spill B) \<and>
     (\<forall>g g'. be_spill B g = Inr g' \<longrightarrow> oc_current g' = oc_current g) \<and>
     (\<forall>v t f g g'. ginv g \<longrightarrow> be_branch B v t f g = Inr g' \<longrightarrow>
        grow {} {} {} g g' \<and> oc_current g' = None) \<and>
     (\<forall>v n. quiet_val (be_case_eq B v n) \<and> quiet_val (be_case_lt B v n) \<and> quiet_val (be_case_gt B v n)) \<and>
     (\<forall>s. quiet (be_decls B s) \<and> quiet (be_dealloca B s) \<and> quiet (be_dtors B s)) \<and>
     (\<forall>v. quiet (be_ret B v) \<and> quiet (be_jmp_expr B v))"

lemma quietD: "quiet f \<Longrightarrow> ginv g \<Longrightarrow> f g = Inr g' \<Longrightarrow> grow {} {} {} g g'"
  unfolding quiet_def by blast

lemma quiet_valD: "quiet_val f \<Longrightarrow> ginv g \<Longrightarrow> f g = Inr (a, g') \<Longrightarrow> grow {} {} {} g g'"
  unfolding quiet_val_def by blast

lemma grow_trans0: "grow {} {} {} g g1 \<Longrightarrow> grow {} {} {} g1 g2 \<Longrightarrow> grow {} {} {} g g2"
  by (rule grow_trans) auto

lemma quiet_return [simp]: "quiet Inr"
  by (simp add: quiet_def grow_refl)

lemma quiet_bind: "quiet f \<Longrightarrow> quiet h \<Longrightarrow> quiet (\<lambda>g. bindE (f g) h)"
  unfolding quiet_def [of "\<lambda>g. bindE (f g) h"] bindE_eq_Inr
  by (blast dest: quietD intro: grow_trans0 growD(1))

lemma quiet_val_bind: "quiet_val f \<Longrightarrow> (\<And>v. quiet (h v)) \<Longrightarrow> quiet (\<lambda>g. bindE (f g) (\<lambda>(v, g). h v g))"
  unfolding quiet_def [of "\<lambda>g. bindE (f g) (\<lambda>(v, g). h v g)"] bindE_eq_Inr split_paired_Ex prod.case
  by (blast dest: quiet_valD quietD intro: grow_trans0 growD(1))

lemma new_blk_grow:
  assumes "ginv g" "new_blk B desc g = Inr (b, g')"
  shows "grow {} {} {} g g'" "priv b g'" "b = length (oc_blks g)" "oc_current g' = oc_current g" "gc_tgt g' = gc_tgt g"
    "gc_flow g' = gc_flow g" "gc_be g' = gc_be g" "length (oc_blks g') = Suc (length (oc_blks g))"
proof -
  obtain k n where g': "g' = g\<lparr>oc_nblks := n, oc_blks := oc_blks g @ [k]\<rparr>" and k: "bk_insns k = []" "bk_type k = BLK_UNINIT"
    and b: "b = length (oc_blks g)"
    using assms(2) by (auto simp: new_blk_def out_blk_new_def blk_new_common_def bindE_eq_Inr)
  show "grow {} {} {} g g'"
    using assms(1) unfolding grow_def g' ginv_def by (auto simp: ext_def same_blk_def nth_append intro: less_SucI)
  show "priv b g'"
    using assms(1) k unfolding priv_def fresh_def g' b ginv_def by (auto simp: nth_append)
qed (use assms in \<open>auto simp: new_blk_def out_blk_new_def blk_new_common_def bindE_eq_Inr\<close>)

lemma grow_current:
  assumes "grow K N D g0 g" "b < length (oc_blks g)" "bk_type (oc_blks g ! b) = BLK_UNINIT"
    "length (oc_blks g0) \<le> b \<or> (\<exists>k \<in> K. gc_tgt g0 k = Some b)" "\<And>k. gc_tgt g k = Some b \<Longrightarrow> k \<in> K"
  shows "grow K N D g0 (out_current_blk b g)"
proof -
  have "ginv (out_current_blk b g)" using growD(1) [OF assms(1)] assms(2,3) by (auto simp: ginv_def out_current_blk_def)
  moreover have "fresh c (out_current_blk b g)" if "fresh c g" "gc_tgt g k = Some c" "k \<notin> K" for c k
    using that assms(5) [of k] by (auto simp: fresh_def out_current_blk_def)
  ultimately show ?thesis
    using assms unfolding grow_def by (auto simp: out_current_blk_def)
qed

lemma priv_current: "priv b (out_current_blk c g) \<longleftrightarrow> b \<noteq> c \<and> priv b (g\<lparr>oc_current := None\<rparr>)"
  by (auto simp: priv_def fresh_def out_current_blk_def)

lemma grow_current_priv: "grow K N D g0 g \<Longrightarrow> priv b g \<Longrightarrow> length (oc_blks g0) \<le> b \<Longrightarrow> grow K N D g0 (out_current_blk b g)"
  by (rule grow_current) (auto simp: priv_def fresh_def)

lemma grow_weaken: "grow K N D g g' \<Longrightarrow> K \<subseteq> K' \<Longrightarrow> N \<subseteq> N' \<Longrightarrow> D \<subseteq> D' \<Longrightarrow> grow K' N' D' g g'"
  by (rule grow_trans [OF _ grow_refl]) (auto dest: growD(1))

lemma grow_init_blks: "grow K N D g0 g \<Longrightarrow> p \<in> D \<Longrightarrow> grow K N D g0 (stmt_init_blks p c b g)"
  unfolding grow_def ginv_def fresh_def stmt_init_blks_def by auto

lemma quiet_backendD:
  assumes "quiet_backend B"
  shows "quiet_val (be_expr B e)" "quiet (be_consume B v)" "quiet (be_spill B)" "be_spill B g = Inr g' \<Longrightarrow> oc_current g' = oc_current g"
    "ginv g \<Longrightarrow> be_branch B v t f g = Inr g' \<Longrightarrow> grow {} {} {} g g'"
    "ginv g \<Longrightarrow> be_branch B v t f g = Inr g' \<Longrightarrow> oc_current g' = None"
    "quiet_val (be_case_eq B v n)" "quiet_val (be_case_lt B v n)" "quiet_val (be_case_gt B v n)"
    "quiet (be_decls B s)" "quiet (be_dealloca B s)" "quiet (be_dtors B s)" "quiet (be_ret B v)" "quiet (be_jmp_expr B v)"
  using assms unfolding quiet_backend_def by blast+

text \<open>Changes to a block that leave its instructions and its end.\<close>

lemma upd_blk_grow:
  assumes "ginv g" "upd_blk b f g = Inr g'" "\<And>k. same_blk k (f k) \<and> bk_lbl (f k) = bk_lbl k"
  shows "grow {} {} {} g g'" "oc_current g' = oc_current g" "gc_flow g' = gc_flow g" "gc_tgt g' = gc_tgt g" "gc_be g' = gc_be g"
    "b < length (oc_blks g)" "length (oc_blks g') = length (oc_blks g)" "oc_last_used g' = oc_last_used g"
proof -
  have g': "g' = g\<lparr>oc_blks := (oc_blks g)[b := f (oc_blks g ! b)]\<rparr>" and b: "b < length (oc_blks g)"
    using assms(2) by (auto simp: upd_blk_def blk_at_def bindE_eq_Inr split: if_splits)
  have nth: "same_blk (oc_blks g ! c) ((oc_blks g)[b := f (oc_blks g ! b)] ! c) \<and>
      bk_lbl ((oc_blks g)[b := f (oc_blks g ! b)] ! c) = bk_lbl (oc_blks g ! c)" for c
    using assms(3) [of "oc_blks g ! b"] b by (cases "c = b") (simp_all add: same_blk_def)
  then show "grow {} {} {} g g'"
    using assms(1) unfolding grow_def g' ginv_def ext_def same_blk_def by simp
qed (use assms(2) in \<open>auto simp: upd_blk_def blk_at_def bindE_eq_Inr split: if_splits\<close>)

text \<open>The end of the current block.\<close>

lemma end_blk_grow:
  assumes "ginv g" "oc_current g = Some b" "upd_blk b (\<lambda>k. k\<lparr>bk_type := ty\<rparr>) g = Inr g'"
  shows "grow {} {} {} g (g'\<lparr>oc_current := None\<rparr>)"
proof -
  have g': "g' = g\<lparr>oc_blks := (oc_blks g)[b := (oc_blks g ! b)\<lparr>bk_type := ty\<rparr>]\<rparr>" and b: "b < length (oc_blks g)"
    using assms(3) by (auto simp: upd_blk_def blk_at_def bindE_eq_Inr split: if_splits)
  have un: "bk_type (oc_blks g ! b) = BLK_UNINIT" using ginvD(2) [OF assms(1,2)] .
  have nth: "(oc_blks g)[b := (oc_blks g ! b)\<lparr>bk_type := ty\<rparr>] ! c = (if c = b then (oc_blks g ! b)\<lparr>bk_type := ty\<rparr> else oc_blks g ! c)" for c
    using b by simp
  show ?thesis
    using assms(1,2) un unfolding grow_def g' ginv_def ext_def same_blk_def by (auto simp: nth)
qed

lemma transfer_grow:
  assumes B: "quiet_backend B" and g: "ginv g" and t: "transfer B to g = Inr g'"
  shows "grow {} {} {} g g'" "oc_current g' = None"
proof -
  obtain g1 l where 1: "be_spill B g = Inr g1" "oc_last_used g1 = Some l"
    and t': "(case oc_current g of
            None \<Rightarrow> upd_blk to (\<lambda>k. k\<lparr>bk_merge_preds := bk_merge_preds k @ [l]\<rparr>) g1
          | Some f \<Rightarrow>
            bindE (upd_blk to (\<lambda>k. k\<lparr>bk_merge_preds := bk_merge_preds k @ [f]\<rparr>) g1) (\<lambda>oc.
            bindE (blk_at (oc_blks oc) f) (\<lambda>k.
              if bk_type k \<noteq> BLK_UNINIT then Inl (Assert_failed ''from->type == BLK_UNINIT'')
              else bindE (upd_blk f (\<lambda>k. k\<lparr>bk_type := BLK_NEXT_BLOCK to\<rparr>) oc) (\<lambda>oc. Inr (oc\<lparr>oc_current := None\<rparr>))))) = Inr g'"
    using t by (auto simp: transfer_def out_ctrl_transfer_def bindE_eq_Inr split: option.splits)
  have sp: "grow {} {} {} g g1" "oc_current g1 = oc_current g"
    using quietD [OF quiet_backendD(3) [OF B] g 1(1)] quiet_backendD(4) [OF B 1(1)] .
  have pr: "grow {} {} {} g g2 \<and> oc_current g2 = oc_current g"
    if "upd_blk to (\<lambda>k. k\<lparr>bk_merge_preds := bk_merge_preds k @ [f]\<rparr>) g1 = Inr g2" for f g2
    using upd_blk_grow(1,2) [OF growD(1) [OF sp(1)] that] sp by (auto simp: same_blk_def intro: grow_trans0)
  have "grow {} {} {} g g' \<and> oc_current g' = None"
  proof (cases "oc_current g")
    case None
    then show ?thesis using t' pr by simp
  next
    case (Some f)
    then obtain g2 g3 where 2: "upd_blk to (\<lambda>k. k\<lparr>bk_merge_preds := bk_merge_preds k @ [f]\<rparr>) g1 = Inr g2"
      and 3: "upd_blk f (\<lambda>k. k\<lparr>bk_type := BLK_NEXT_BLOCK to\<rparr>) g2 = Inr g3" and g': "g' = g3\<lparr>oc_current := None\<rparr>"
      using t' by (auto simp: bindE_eq_Inr split: if_splits)
    have p2: "grow {} {} {} g g2" "oc_current g2 = Some f" using pr [OF 2] Some by simp_all
    then show ?thesis
      using grow_trans0 [OF p2(1) end_blk_grow [OF growD(1) [OF p2(1)] p2(2) 3]] g' by simp
  qed
  then show "grow {} {} {} g g'" "oc_current g' = None" by auto
qed

lemma transfer_make_current_split: "transfer_make_current B to g = bindE (transfer B to g) (\<lambda>g. Inr (out_current_blk to g))"
  by (simp add: transfer_make_current_def transfer_def out_ctrl_transfer_make_current_def)

lemma new_block_for_scope_quiet: "quiet_backend B \<Longrightarrow> quiet (new_block_for_scope B desc)"
  unfolding quiet_def
proof (intro allI impI)
  fix g g' assume B: "quiet_backend B" and g: "ginv g" and n: "new_block_for_scope B desc g = Inr g'"
  consider "g' = g" | b g1 g2 where "new_blk B desc g = Inr (b, g1)" "transfer B b g1 = Inr g2" "g' = out_current_blk b g2"
    using n by (auto simp: new_block_for_scope_def bindE_eq_Inr transfer_make_current_split split: if_splits)
  then show "grow {} {} {} g g'"
  proof cases
    case 1
    then show ?thesis using g by (simp add: grow_refl)
  next
    case 2
    note n = new_blk_grow [OF g 2(1)]
    note t = transfer_grow [OF B growD(1) [OF n(1)] 2(2)]
    show ?thesis
      using grow_current_priv [OF grow_trans0 [OF n(1) t(1)] priv_grow [OF t(1) n(2)]] n(3) 2(3) by simp
  qed
qed

lemma scope_quiet:
  assumes "quiet_backend B"
  shows "quiet (gen_block_decls B stab)" "quiet (gen_block_decls_dealloca B stab)" "quiet (each_scope (be_dtors B) ss)"
    "quiet (gen_scope_leave B h s_from s_to)" "quiet (gen_scope_leave_parent B h stab)" "quiet (flow_gen B flow stab)"
    "quiet (flow_end B h flow stab)" "quiet (gen_value B e)" "quiet (gen_value_opt B eo)"
proof -
  note q = quiet_backendD [OF assms] new_block_for_scope_quiet [OF assms]
  show decls: "quiet (gen_block_decls B stab)" for stab
    using quiet_bind [OF q(15,10)] by (simp add: gen_block_decls_def [abs_def])
  show dealloca: "quiet (gen_block_decls_dealloca B stab)" for stab
    using quiet_bind [OF q(11,15)] by (simp add: gen_block_decls_dealloca_def [abs_def])
  show each: "quiet (each_scope (be_dtors B) ss)" for ss
  proof (induction ss)
    case Nil
    then show ?case by (simp add: quiet_def grow_refl)
  next
    case (Cons s ss)
    then show ?case using quiet_bind [OF q(12) Cons] by (simp add: quiet_def)
  qed
  show leave: "quiet (gen_scope_leave B h s_from s_to)" for s_from s_to
    using each q(12) by (auto simp: quiet_def gen_scope_leave_def bindE_eq_Inr split: option.splits)
  show parent: "quiet (gen_scope_leave_parent B h stab)" for stab
    using leave by (auto simp: quiet_def gen_scope_leave_parent_def bindE_eq_Inr)
  have opt: "quiet (\<lambda>g. case flow of None \<Rightarrow> Inr g | Some init \<Rightarrow> if stab \<noteq> init then gen_block_decls B init g else Inr g)"
    using decls by (auto simp: quiet_def grow_refl split: option.split)
  then show "quiet (flow_gen B flow stab)"
    using quiet_bind [OF decls opt] by (simp add: flow_gen_def [abs_def])
  have rest: "quiet (\<lambda>g. case flow of
         None \<Rightarrow> Inr g
       | Some init \<Rightarrow>
         if stab = init then Inr g
         else
           bindE (tab h stab) (\<lambda>t.
             if st_parent t \<noteq> Some init then Inl (Assert_failed ''stab->parent == flow->for_init_symtab'')
             else bindE (gen_scope_leave_parent B h init g) (gen_block_decls_dealloca B init)))"
    using quiet_bind [OF parent dealloca] by (auto simp: quiet_def grow_refl bindE_eq_Inr split: option.split if_splits) blast
  show "quiet (flow_end B h flow stab)"
    using quiet_bind [OF parent quiet_bind [OF dealloca rest]] by (simp add: flow_end_def [abs_def])
  show val: "quiet (gen_value B e)" for e
    using quiet_val_bind [OF q(1,2)] by (simp add: gen_value_def [abs_def])
  show "quiet (gen_value_opt B eo)"
    using val by (auto simp: quiet_def gen_value_opt_def grow_refl split: option.split)
qed

section \<open>Labels of statements\<close>

text \<open>The cases and labels in a statement, the cases its switches give blocks to, and its loops and switches.\<close>

fun keys :: "'e gstmt \<Rightarrow> tgt set" where
  "keys (G_if _ _ _ l r) = keys l \<union> (case r of None \<Rightarrow> {} | Some r \<Rightarrow> keys r)"
| "keys (G_while _ _ _ _ l) = keys l"
| "keys (G_do _ l _) = keys l"
| "keys (G_for _ _ _ _ _ l) = keys l"
| "keys (G_switch _ _ _ _ _ _ l) = keys l"
| "keys (G_case k l) = insert (T_case k) (keys l)"
| "keys (G_label k _ l) = insert (T_label k) (keys l)"
| "keys (G_code _ ss) = \<Union> (set (map keys ss))"
| "keys _ = {}"

definition case_keys :: "gcase list \<Rightarrow> nat option \<Rightarrow> nat list" where
  "case_keys cs dflt = map fst cs @ (case dflt of None \<Rightarrow> [] | Some k \<Rightarrow> [k])"

fun binds :: "'e gstmt \<Rightarrow> tgt set" where
  "binds (G_if _ _ _ l r) = binds l \<union> (case r of None \<Rightarrow> {} | Some r \<Rightarrow> binds r)"
| "binds (G_while _ _ _ _ l) = binds l"
| "binds (G_do _ l _) = binds l"
| "binds (G_for _ _ _ _ _ l) = binds l"
| "binds (G_switch _ _ _ _ cs d l) = T_case ` set (case_keys cs d) \<union> binds l"
| "binds (G_case _ l) = binds l"
| "binds (G_label _ _ l) = binds l"
| "binds (G_code _ ss) = \<Union> (set (map binds ss))"
| "binds _ = {}"

fun flows :: "'e gstmt \<Rightarrow> nat set" where
  "flows (G_if _ _ _ l r) = flows l \<union> (case r of None \<Rightarrow> {} | Some r \<Rightarrow> flows r)"
| "flows (G_while p _ _ _ l) = insert p (flows l)"
| "flows (G_do p l _) = insert p (flows l)"
| "flows (G_for p _ _ _ _ l) = insert p (flows l)"
| "flows (G_switch p _ _ _ _ _ l) = insert p (flows l)"
| "flows (G_case _ l) = flows l"
| "flows (G_label _ _ l) = flows l"
| "flows (G_code _ ss) = \<Union> (set (map flows ss))"
| "flows _ = {}"

abbreviation (input) tks :: "'e gstmt \<Rightarrow> tgt set" where
  "tks s \<equiv> keys s \<union> binds s"

text \<open>The loops and switches around a statement that its jumps go to.\<close>

fun refs :: "'e gstmt \<Rightarrow> nat set" where
  "refs (G_break p _ _) = {p}"
| "refs (G_continue p _ _) = {p}"
| "refs (G_if _ _ _ l r) = refs l \<union> (case r of None \<Rightarrow> {} | Some r \<Rightarrow> refs r)"
| "refs (G_while p _ _ _ l) = refs l - {p}"
| "refs (G_do p l _) = refs l - {p}"
| "refs (G_for p _ _ _ _ l) = refs l - {p}"
| "refs (G_switch p _ _ _ _ _ l) = refs l - {p}"
| "refs (G_case _ l) = refs l"
| "refs (G_label _ _ l) = refs l"
| "refs (G_code _ ss) = \<Union> (set (map refs ss))"
| "refs _ = {}"

text \<open>Every label and every case stands once and belongs to one switch, and jumps go to a loop around them.\<close>

definition apart :: "'e gstmt \<Rightarrow> 'e gstmt \<Rightarrow> bool" where
  "apart l r \<longleftrightarrow> tks l \<inter> tks r = {} \<and> flows l \<inter> refs r = {}"

fun dist :: "'e gstmt \<Rightarrow> bool" and dists :: "'e gstmt list \<Rightarrow> bool" where
  "dist (G_if _ _ _ l r) = (dist l \<and> (case r of None \<Rightarrow> True | Some r \<Rightarrow> dist r \<and> apart l r))"
| "dist (G_while _ _ _ _ l) = dist l"
| "dist (G_do _ l _) = dist l"
| "dist (G_for _ _ _ _ _ l) = dist l"
| "dist (G_switch _ _ _ _ cs d l) = (dist l \<and> distinct (case_keys cs d) \<and> T_case ` set (case_keys cs d) \<inter> binds l = {})"
| "dist (G_case k l) = (dist l \<and> T_case k \<notin> tks l)"
| "dist (G_label k _ l) = (dist l \<and> T_label k \<notin> keys l)"
| "dist (G_code _ ss) = dists ss"
| "dist _ = True"
| "dists [] = True"
| "dists (s # ss) = (dist s \<and> dists ss \<and> list_all (apart s) ss)"

lemma binds_cases: "binds s \<subseteq> range T_case"
  by (induction s rule: binds.induct) (auto split: option.splits)

definition unbound :: "tgt set \<Rightarrow> 'b gen_ctx \<Rightarrow> bool" where
  "unbound N g \<longleftrightarrow> (\<forall>k \<in> N. gc_tgt g k = None)"

lemma unbound_grow:
  assumes "grow K N D g g'" "unbound N' g" "N \<inter> N' = {}" "N' \<subseteq> range T_case" shows "unbound N' g'"
  unfolding unbound_def
proof
  fix k assume k: "k \<in> N'"
  show "gc_tgt g' k = None"
  proof (cases "gc_tgt g' k")
    case (Some b)
    then have "k \<in> N \<or> k \<in> range T_label" using grow_new(3) [OF assms(1)] assms(2) k by (auto simp: unbound_def)
    then show ?thesis using assms(3,4) k by auto
  qed
qed

section \<open>Stages\<close>

text \<open>On the way from \<open>g0\<close> the blocks \<open>P\<close> have been made for later use.\<close>

definition stage :: "tgt set \<Rightarrow> tgt set \<Rightarrow> nat set \<Rightarrow> 'b gen_ctx \<Rightarrow> 'b gen_ctx \<Rightarrow> nat set \<Rightarrow> bool" where
  "stage K N D g0 g P \<longleftrightarrow> grow K N D g0 g \<and> (\<forall>b \<in> P. priv b g \<and> length (oc_blks g0) \<le> b)"

definition point :: "'b gen_ctx \<Rightarrow> nat \<Rightarrow> nat \<times> nat" where
  "point g b = (b, length (bk_insns (oc_blks g ! b)))"

lemma stage_ginv: "stage K N D g0 g P \<Longrightarrow> ginv g"
  by (auto simp: stage_def dest: growD(1))

lemma stage_grow: "stage K N D g0 g P \<Longrightarrow> grow K N D g0 g"
  by (simp add: stage_def)

lemma stage_start: "ginv g \<Longrightarrow> stage K N D g g {}"
  by (simp add: stage_def grow_refl)

lemma stage_step:
  "stage K N D g0 g P \<Longrightarrow> grow K' N' D' g g' \<Longrightarrow> K' \<subseteq> K \<Longrightarrow> N' \<subseteq> N \<Longrightarrow> D' \<subseteq> D \<Longrightarrow> stage K N D g0 g' P"
  by (auto simp: stage_def intro: grow_trans priv_grow)

lemma stage_quiet: "stage K N D g0 g P \<Longrightarrow> quiet f \<Longrightarrow> f g = Inr g' \<Longrightarrow> stage K N D g0 g' P"
  using stage_step [of K N D g0 g P, OF _ quietD [of f g g']] stage_ginv by blast

lemma stage_quiet_val: "stage K N D g0 g P \<Longrightarrow> quiet_val f \<Longrightarrow> f g = Inr (a, g') \<Longrightarrow> stage K N D g0 g' P"
  using stage_step [of K N D g0 g P, OF _ quiet_valD [of f g a g']] stage_ginv by blast

lemma stage_transfer: "stage K N D g0 g P \<Longrightarrow> quiet_backend B \<Longrightarrow> transfer B to g = Inr g' \<Longrightarrow> stage K N D g0 g' P"
  by (rule stage_step [OF _ transfer_grow(1)]) (auto dest: stage_ginv)

lemma stage_new:
  assumes "stage K N D g0 g P" "new_blk B desc g = Inr (b, g')"
  shows "stage K N D g0 g' (insert b P)" "b \<notin> P"
proof -
  note n = new_blk_grow [OF stage_ginv [OF assms(1)] assms(2)]
  have "stage K N D g0 g' P" using stage_step [OF assms(1) n(1)] by simp
  then show "stage K N D g0 g' (insert b P)"
    using n(2,3) growD(6) [OF stage_grow [OF assms(1)]] by (simp add: stage_def)
  show "b \<notin> P" using assms(1) n(3) by (auto simp: stage_def priv_def fresh_def)
qed

lemma stage_current:
  assumes "stage K N D g0 g P" "b \<in> P"
  shows "stage K N D g0 (out_current_blk b g) (P - {b})" "point (out_current_blk b g) b = (b, 0)"
    "oc_current (out_current_blk b g) = Some b"
  using assms grow_current_priv [of K N D g0 g b]
  by (auto simp: stage_def priv_current point_def out_current_blk_def priv_def fresh_def)

lemma stage_range: "stage K N D g0 g P \<Longrightarrow> b \<in> P \<Longrightarrow> b < length (oc_blks g)"
  by (auto simp: stage_def priv_def fresh_def)

lemma stage_init_blks: "stage K N D g0 g P \<Longrightarrow> p \<in> D \<Longrightarrow> stage K N D g0 (stmt_init_blks p c b g) P"
  by (auto simp: stage_def grow_init_blks) (auto simp: priv_def fresh_def stmt_init_blks_def)

lemma stage_tgt:
  assumes "stage K N D g0 g P" "b \<in> P" "gc_tgt g k = None" "k \<in> N \<or> k \<in> range T_label"
  shows "stage K N D g0 (g\<lparr>gc_tgt := (gc_tgt g)(k \<mapsto> b)\<rparr>) (P - {b})"
proof -
  have pb: "priv b g" "length (oc_blks g0) \<le> b" and gr: "grow K N D g0 g" using assms by (auto simp: stage_def)
  have "gc_tgt g0 k = None" using growD(3) [OF gr, of k] assms(3) by (cases "gc_tgt g0 k") auto
  then have "grow K N D g0 (g\<lparr>gc_tgt := (gc_tgt g)(k \<mapsto> b)\<rparr>)"
    using gr pb assms(4) unfolding grow_def ginv_def priv_def fresh_def by auto
  then show ?thesis using assms(1) by (auto simp: stage_def priv_def fresh_def)
qed

lemma stage_branch:
  assumes "stage K N D g0 g P" "quiet_backend B" "out_ctrl_branch B v t f g = Inr g'"
  shows "\<exists>g1. be_branch B v t f g = Inr g1 \<and> g' = out_current_blk t g1 \<and> stage K N D g0 g1 P"
proof -
  obtain g1 where 1: "be_branch B v t f g = Inr g1" "g' = out_current_blk t g1"
    using assms(3) by (auto simp: out_ctrl_branch_def bindE_eq_Inr)
  then show ?thesis
    using stage_step [OF assms(1) quiet_backendD(5) [OF assms(2) stage_ginv [OF assms(1)] 1(1)]] by auto
qed

section \<open>Switches\<close>

lemma out_current_again [simp]: "out_current_blk c (out_current_blk b g) = out_current_blk c g"
  by (simp add: out_current_blk_def)

lemma stage_branch_current:
  assumes "stage K N D g0 g P" "quiet_backend B" "out_ctrl_branch B v t f g = Inr g'" "c \<in> P"
  shows "stage K N D g0 (out_current_blk c g') (P - {c})"
  using stage_branch [OF assms(1-3)] stage_current(1) [OF _ assms(4)] by auto

lemma gen_case_stage:
  assumes B: "quiet_backend B" and st: "stage K N D g0 g P" and k: "gc_tgt g (T_case k) = None" "T_case k \<in> N"
    and gen: "gen_case B v (k, lo, hi) g = Inr g'"
  shows "stage K N D g0 g' P"
proof -
  obtain c g1 cb g2 where n: "new_blk B ''case_next'' g = Inr (c, g1)" "new_blk B ''case'' g1 = Inr (cb, g2)"
    and g: "bindE (case hi of
                Some hi \<Rightarrow>
                  bindE (new_blk B ''range_true'' (g2\<lparr>gc_tgt := (gc_tgt g2)(T_case k \<mapsto> cb)\<rparr>)) (\<lambda>(test2, g).
                  bindE (be_case_lt B v lo g) (\<lambda>(x, g).
                  bindE (out_ctrl_branch B x c test2 g) (\<lambda>g.
                  bindE (be_case_gt B v hi (out_current_blk test2 g)) (\<lambda>(x, g).
                  out_ctrl_branch B x c cb g))))
              | None \<Rightarrow>
                  bindE (be_case_eq B v lo (g2\<lparr>gc_tgt := (gc_tgt g2)(T_case k \<mapsto> cb)\<rparr>)) (\<lambda>(x, g). out_ctrl_branch B x cb c g)) (\<lambda>g.
       Inr (out_current_blk c g)) = Inr g'"
    using gen by (auto simp: gen_case_def bindE_eq_Inr Let_def)
  note s1 = stage_new [OF st n(1)]
  note s2 = stage_new [OF s1(1) n(2)]
  let ?g3 = "g2\<lparr>gc_tgt := (gc_tgt g2)(T_case k \<mapsto> cb)\<rparr>"
  have "gc_tgt g2 (T_case k) = None"
    using k(1) new_blk_grow(5) [OF stage_ginv [OF st] n(1)] new_blk_grow(5) [OF stage_ginv [OF s1(1)] n(2)] by simp
  then have s3: "stage K N D g0 ?g3 (insert c P)"
    using stage_tgt [OF s2(1), of cb "T_case k"] k(2) s2(2) s1(2) by simp
  show ?thesis
  proof (cases hi)
    case None
    then obtain x g4 g5 where 4: "be_case_eq B v lo ?g3 = Inr (x, g4)" "out_ctrl_branch B x cb c g4 = Inr g5" "g' = out_current_blk c g5"
      using g by (auto simp: bindE_eq_Inr)
    note s4 = stage_quiet_val [OF s3 quiet_backendD(7) [OF B] 4(1)]
    show ?thesis using stage_branch_current [OF s4 B 4(2), of c] 4(3) s1(2) by simp
  next
    case (Some hi')
    then obtain d g4 x g5 g6 y g7 g8 where 4: "new_blk B ''range_true'' ?g3 = Inr (d, g4)" "be_case_lt B v lo g4 = Inr (x, g5)"
      "out_ctrl_branch B x c d g5 = Inr g6" "be_case_gt B v hi' (out_current_blk d g6) = Inr (y, g7)" "out_ctrl_branch B y c cb g7 = Inr g8"
      "g' = out_current_blk c g8"
      using g by (auto simp: bindE_eq_Inr)
    note s4 = stage_new [OF s3 4(1)]
    note s5 = stage_quiet_val [OF s4(1) quiet_backendD(8) [OF B] 4(2)]
    have s6: "stage K N D g0 (out_current_blk d g6) (insert c P)"
      using stage_branch_current [OF s5 B 4(3), of d] s4(2) by simp
    note s7 = stage_quiet_val [OF s6 quiet_backendD(9) [OF B] 4(4)]
    show ?thesis using stage_branch_current [OF s7 B 4(5), of c] 4(6) s1(2) by simp
  qed
qed

lemma gen_cases_stage:
  assumes B: "quiet_backend B"
  shows "stage K N D g0 g P \<Longrightarrow> distinct (map fst cs) \<Longrightarrow> unbound (T_case ` fst ` set cs) g \<Longrightarrow> T_case ` fst ` set cs \<subseteq> N \<Longrightarrow>
    gen_cases B v cs g = Inr g' \<Longrightarrow> stage K N D g0 g' P"
proof (induction cs arbitrary: g)
  case (Cons c cs)
  obtain k lo hi where c: "c = (k, lo, hi)" by (cases c)
  from Cons.prems obtain g1 where 1: "gen_case B v (k, lo, hi) g = Inr g1" "gen_cases B v cs g1 = Inr g'"
    by (auto simp: c bindE_eq_Inr)
  have k: "gc_tgt g (T_case k) = None" "T_case k \<in> N" using Cons.prems by (auto simp: c unbound_def)
  have gr: "grow {} {T_case k} {} g g1"
    using gen_case_stage [OF B stage_start [OF stage_ginv [OF Cons.prems(1)]] k(1) _ 1(1), of "{T_case k}"] by (auto simp: stage_def)
  have "unbound (T_case ` fst ` set cs) g1"
    using Cons.prems(2,3) by (intro unbound_grow [OF gr]) (auto simp: c unbound_def)
  then show ?case using Cons.IH [OF gen_case_stage [OF B Cons.prems(1) k 1(1)]] Cons.prems 1(2) by auto
qed simp

lemma stage_unbound: "stage K {} D g0 g P \<Longrightarrow> unbound (binds s) g0 \<Longrightarrow> unbound (binds s) g"
  using unbound_grow [of K "{}" D g0 g "binds s"] binds_cases by (auto simp: stage_def)

lemma unbound_current [simp]: "unbound N (out_current_blk b g) = unbound N g" "unbound N (stmt_init_blks p c d g) = unbound N g"
  by (simp_all add: unbound_def out_current_blk_def stmt_init_blks_def)

lemma stage_weaken: "stage K N D g0 g P \<Longrightarrow> K \<subseteq> K' \<Longrightarrow> N \<subseteq> N' \<Longrightarrow> D \<subseteq> D' \<Longrightarrow> P' \<subseteq> P \<Longrightarrow> stage K' N' D' g0 g P'"
  by (auto simp: stage_def intro: grow_weaken)

lemma ext_back: "grow K N D g g' \<Longrightarrow> ext (oc_blks g') G \<Longrightarrow> ext (oc_blks g) G"
  by (blast dest: growD(2) intro: ext_trans)

end
