(* ===== verification/Ucc_Gen_Compiled.thy ===== *)
theory Ucc_Gen_Compiled
  imports Ucc_Gen_Grow Ucc_Blk_Emit
begin

text \<open>
  What the code of a statement looks like in the finished graph: \<open>compiled\<close> says for a statement which
  runs of the graph lead from its start to its end, to the blocks of loops and switches and to labels.
  The generator is shown to make such code, given what the backend's operations do.
\<close>

section \<open>Machine and meaning\<close>

text \<open>
  A machine: what instructions and conditional jumps do, the memory of the C program in a state, the
  value of a backend's value in it and whether that is saved outside of registers; then what expressions, the declarations and the cleanups of a scope
  and the return of a value do to the memory.
\<close>

record ('e, 'm, 's, 'v, 'b) machine =
  mc_ex :: "string \<Rightarrow> 's \<Rightarrow> 's"
  mc_jp :: "string \<Rightarrow> 's \<Rightarrow> string option"
  mc_mem :: "'s \<Rightarrow> 'm"
  mc_val :: "'b \<Rightarrow> 'v \<Rightarrow> 's \<Rightarrow> int"
  mc_saved :: "'b \<Rightarrow> 'v \<Rightarrow> bool"
  cs_eval :: "'e \<Rightarrow> 'm \<Rightarrow> (int \<times> 'm) option"
  cs_decls :: "nat \<Rightarrow> 'm \<Rightarrow> 'm option"
  cs_dtors :: "nat \<Rightarrow> 'm \<Rightarrow> 'm"
  cs_ret :: "int \<Rightarrow> 'm \<Rightarrow> 'm"

text \<open>A run inside blocks: a point is a block and the number of its instructions that are done.\<close>

definition pnext ::
  "('e, 'm, 's, 'v, 'b) machine \<Rightarrow> out_blk list \<Rightarrow> (nat \<times> nat) \<times> 's \<Rightarrow> ((nat \<times> nat) \<times> 's) option" where
  "pnext M G x =
     (case x of ((b, i), s) \<Rightarrow>
       if b < length G then
         if i < length (bk_insns (G ! b)) then Some ((b, Suc i), mc_ex M (bk_insns (G ! b) ! i) s)
         else
           case bk_type (G ! b) of
             BLK_NEXT_BLOCK n \<Rightarrow> Some ((n, 0), s)
           | BLK_COND c if_0 if_1 _ \<Rightarrow> Some ((if mc_jp M c s = bk_lbl (G ! if_0) then if_0 else if_1, 0), s)
           | _ \<Rightarrow> None
       else None)"

definition pruns ::
  "('e, 'm, 's, 'v, 'b) machine \<Rightarrow> out_blk list \<Rightarrow> (nat \<times> nat) \<times> 's \<Rightarrow> (nat \<times> nat) \<times> 's \<Rightarrow> bool" where
  "pruns M G = (\<lambda>x y. pnext M G x = Some y)\<^sup>*\<^sup>*"

lemma pruns_refl [simp]: "pruns M G x x"
  by (simp add: pruns_def)

lemma pruns_trans: "pruns M G x y \<Longrightarrow> pruns M G y z \<Longrightarrow> pruns M G x z"
  by (simp add: pruns_def)

lemma pruns_step: "pnext M G x = Some y \<Longrightarrow> pruns M G x y"
  by (auto simp: pruns_def)

definition cur :: "'b gen_ctx \<Rightarrow> (nat \<times> nat) option" where
  "cur g = map_option (point g) (oc_current g)"

text \<open>Runs from a point, which is missing in code that is not reached.\<close>

definition moves ::
  "('e, 'm, 's, 'v, 'b) machine \<Rightarrow> out_blk list \<Rightarrow> ('m \<Rightarrow> 'm option) \<Rightarrow> (nat \<times> nat) option \<Rightarrow> (nat \<times> nat) option \<Rightarrow> bool" where
  "moves M G f z z' \<longleftrightarrow>
     (\<forall>x s m. z = Some x \<longrightarrow> f (mc_mem M s) = Some m \<longrightarrow>
        (\<exists>y t. z' = Some y \<and> pruns M G (x, s) (y, t) \<and> mc_mem M t = m))"

definition reaches ::
  "('e, 'm, 's, 'v, 'b) machine \<Rightarrow> out_blk list \<Rightarrow> ('m \<Rightarrow> ('r \<times> 'm) option) \<Rightarrow> ('r \<Rightarrow> nat) \<Rightarrow> (nat \<times> nat) option \<Rightarrow> bool" where
  "reaches M G f to z \<longleftrightarrow>
     (\<forall>x s r m. z = Some x \<longrightarrow> f (mc_mem M s) = Some (r, m) \<longrightarrow> (\<exists>t. pruns M G (x, s) ((to r, 0), t) \<and> mc_mem M t = m))"

abbreviation (input) jumps ::
  "('e, 'm, 's, 'v, 'b) machine \<Rightarrow> out_blk list \<Rightarrow> ('m \<Rightarrow> 'm) \<Rightarrow> nat \<Rightarrow> (nat \<times> nat) option \<Rightarrow> bool" where
  "jumps M G f b z \<equiv> reaches M G (\<lambda>m. Some ((), f m)) (\<lambda>_. b) z"

lemma moves_trans: "moves M G f z z' \<Longrightarrow> moves M G h z' z'' \<Longrightarrow> moves M G (\<lambda>m. Option.bind (f m) h) z z''"
  unfolding moves_def bind_eq_Some_conv by (blast intro: pruns_trans)

lemma moves_reaches: "moves M G f z z' \<Longrightarrow> reaches M G h to z' \<Longrightarrow> reaches M G (\<lambda>m. Option.bind (f m) h) to z"
  unfolding moves_def reaches_def bind_eq_Some_conv by (blast intro: pruns_trans)

lemma moves_same: "moves M G Some z z"
  unfolding moves_def by (metis option.inject pruns_refl)

section \<open>The backend\<close>

definition acts :: "('e, 'm, 's, 'v, 'b) machine \<Rightarrow> bool \<Rightarrow> 'b gen \<Rightarrow> ('m \<Rightarrow> 'm option) \<Rightarrow> bool" where
  "acts M keep f sem \<longleftrightarrow>
     (\<forall>g g' G x s m. ginv g \<longrightarrow> f g = Inr g' \<longrightarrow> ext (oc_blks g') G \<longrightarrow> cur g = Some x \<longrightarrow> sem (mc_mem M s) = Some m \<longrightarrow>
        (\<exists>y t. cur g' = Some y \<and> pruns M G (x, s) (y, t) \<and> mc_mem M t = m \<and>
          (keep \<longrightarrow> (\<forall>w. mc_val M (gc_be g') w t = mc_val M (gc_be g) w s))))"

definition compares ::
  "('e, 'm, 's, 'v, 'b) machine \<Rightarrow> ('e, 'v, 'b) backend \<Rightarrow> 'v \<Rightarrow> ('b gen_ctx \<Rightarrow> ('v \<times> 'b gen_ctx) outcome) \<Rightarrow> (int \<Rightarrow> bool) \<Rightarrow> bool" where
  "compares M B v f test \<longleftrightarrow>
     (\<forall>g c g1 a b g2 G x s. ginv g \<longrightarrow> f g = Inr (c, g1) \<longrightarrow> be_branch B c a b g1 = Inr g2 \<longrightarrow> ext (oc_blks g2) G \<longrightarrow> cur g = Some x \<longrightarrow>
        (\<exists>t. pruns M G (x, s) ((if test (mc_val M (gc_be g) v s) then a else b, 0), t) \<and> mc_mem M t = mc_mem M s \<and>
          mc_val M (gc_be g2) v t = mc_val M (gc_be g) v s)) \<and>
     (\<forall>g c g1 a b g2. ginv g \<longrightarrow> f g = Inr (c, g1) \<longrightarrow> be_branch B c a b g1 = Inr g2 \<longrightarrow>
        mc_saved M (gc_be g2) v \<and> (mc_saved M (gc_be g) v \<longrightarrow> mc_val M (gc_be g2) v = mc_val M (gc_be g) v))"

definition expr_ok :: "('e, 'm, 's, 'v, 'b) machine \<Rightarrow> ('e, 'v, 'b) backend \<Rightarrow> bool" where
  "expr_ok M B \<longleftrightarrow>
     (\<forall>e g v g' G x s r m. ginv g \<longrightarrow> be_expr B e g = Inr (v, g') \<longrightarrow> ext (oc_blks g') G \<longrightarrow> cur g = Some x \<longrightarrow>
        cs_eval M e (mc_mem M s) = Some (r, m) \<longrightarrow>
        (\<exists>y t. cur g' = Some y \<and> pruns M G (x, s) (y, t) \<and> mc_mem M t = m \<and> mc_val M (gc_be g') v t = r))"

definition branch_ok :: "('e, 'm, 's, 'v, 'b) machine \<Rightarrow> ('e, 'v, 'b) backend \<Rightarrow> bool" where
  "branch_ok M B \<longleftrightarrow>
     (\<forall>v a b g g' G x s. ginv g \<longrightarrow> be_branch B v a b g = Inr g' \<longrightarrow> ext (oc_blks g') G \<longrightarrow> cur g = Some x \<longrightarrow>
        (\<exists>t. pruns M G (x, s) ((if mc_val M (gc_be g) v s \<noteq> 0 then a else b, 0), t) \<and> mc_mem M t = mc_mem M s))"

definition ret_ok :: "('e, 'm, 's, 'v, 'b) machine \<Rightarrow> ('e, 'v, 'b) backend \<Rightarrow> bool" where
  "ret_ok M B \<longleftrightarrow>
     (\<forall>v g g' G x s. ginv g \<longrightarrow> be_ret B v g = Inr g' \<longrightarrow> ext (oc_blks g') G \<longrightarrow> cur g = Some x \<longrightarrow>
        (\<exists>y t. cur g' = Some y \<and> pruns M G (x, s) (y, t) \<and> mc_mem M t = cs_ret M (mc_val M (gc_be g) v s) (mc_mem M s)))"

text \<open>
  What the statements rely on: the code of an expression computes its value and its effect; a branch
  goes by the value of its condition; the comparisons of a switch keep the value they compare, which stays
  where it is once it has been saved; the other
  operations have the effect of their name, and the value to be returned survives the cleanups.
\<close>

definition backend_ok :: "('e, 'm, 's, 'v, 'b) machine \<Rightarrow> ('e, 'v, 'b) backend \<Rightarrow> bool" where
  "backend_ok M B \<longleftrightarrow> quiet_backend B \<and> expr_ok M B \<and> branch_ok M B \<and> ret_ok M B \<and>
     (\<forall>v n. compares M B v (be_case_eq B v n) (\<lambda>i. i = n) \<and> compares M B v (be_case_lt B v n) (\<lambda>i. i < n) \<and>
        compares M B v (be_case_gt B v n) (\<lambda>i. n < i)) \<and>
     (\<forall>v. acts M False (be_consume B v) Some) \<and> acts M True (be_spill B) Some \<and>
     (\<forall>st. acts M False (be_decls B st) (cs_decls M st) \<and> acts M False (be_dealloca B st) Some \<and>
        acts M True (be_dtors B st) (\<lambda>m. Some (cs_dtors M st m)))"

lemma backend_okD:
  assumes "backend_ok M B"
  shows "quiet_backend B" "expr_ok M B" "branch_ok M B" "ret_ok M B"
    "compares M B v (be_case_eq B v n) (\<lambda>i. i = n)" "compares M B v (be_case_lt B v n) (\<lambda>i. i < n)"
    "compares M B v (be_case_gt B v n) (\<lambda>i. n < i)"
    "acts M False (be_consume B v) Some" "acts M True (be_spill B) Some" "acts M False (be_decls B st) (cs_decls M st)"
    "acts M False (be_dealloca B st) Some" "acts M True (be_dtors B st) (\<lambda>m. Some (cs_dtors M st m))"
  using assms unfolding backend_ok_def by simp_all

lemma comparesD:
  assumes "compares M B v f test" "ginv g" "f g = Inr (c, g1)" "be_branch B c a b g1 = Inr g2"
  shows "ext (oc_blks g2) G \<Longrightarrow> cur g = Some x \<Longrightarrow>
      \<exists>t. pruns M G (x, s) ((if test (mc_val M (gc_be g) v s) then a else b, 0), t) \<and> mc_mem M t = mc_mem M s \<and>
        mc_val M (gc_be g2) v t = mc_val M (gc_be g) v s"
    "mc_saved M (gc_be g2) v" "mc_saved M (gc_be g) v \<Longrightarrow> mc_val M (gc_be g2) v = mc_val M (gc_be g) v"
  using assms unfolding compares_def by blast+

lemma expr_okD:
  "expr_ok M B \<Longrightarrow> ginv g \<Longrightarrow> be_expr B e g = Inr (v, g') \<Longrightarrow> ext (oc_blks g') G \<Longrightarrow> cur g = Some x \<Longrightarrow>
     cs_eval M e (mc_mem M s) = Some (r, m) \<Longrightarrow>
     \<exists>y t. cur g' = Some y \<and> pruns M G (x, s) (y, t) \<and> mc_mem M t = m \<and> mc_val M (gc_be g') v t = r"
  unfolding expr_ok_def by blast

lemma branch_okD:
  "branch_ok M B \<Longrightarrow> ginv g \<Longrightarrow> be_branch B v a b g = Inr g' \<Longrightarrow> ext (oc_blks g') G \<Longrightarrow> cur g = Some x \<Longrightarrow>
     \<exists>t. pruns M G (x, s) ((if mc_val M (gc_be g) v s \<noteq> 0 then a else b, 0), t) \<and> mc_mem M t = mc_mem M s"
  unfolding branch_ok_def by blast

lemma ret_okD:
  "ret_ok M B \<Longrightarrow> ginv g \<Longrightarrow> be_ret B v g = Inr g' \<Longrightarrow> ext (oc_blks g') G \<Longrightarrow> cur g = Some x \<Longrightarrow>
     \<exists>y t. cur g' = Some y \<and> pruns M G (x, s) (y, t) \<and> mc_mem M t = cs_ret M (mc_val M (gc_be g) v s) (mc_mem M s)"
  unfolding ret_ok_def by blast

lemma acts_moves: "acts M keep f sem \<Longrightarrow> ginv g \<Longrightarrow> f g = Inr g' \<Longrightarrow> ext (oc_blks g') G \<Longrightarrow> moves M G sem (cur g) (cur g')"
  unfolding acts_def moves_def by blast

lemma acts_weaken: "acts M True f sem \<Longrightarrow> acts M keep f sem"
  unfolding acts_def by blast

lemma acts_return: "acts M keep Inr Some"
  unfolding acts_def by (metis option.inject pruns_refl sum.inject(2))

lemma acts_bind:
  assumes "acts M keep f s1" "acts M keep h s2" "quiet f" "quiet h"
  shows "acts M keep (\<lambda>g. bindE (f g) h) (\<lambda>m. Option.bind (s1 m) s2)"
  unfolding acts_def
proof (intro allI impI)
  fix g g' G x s m
  assume g: "ginv g" "bindE (f g) h = Inr g'" "ext (oc_blks g') G" "cur g = Some x" "Option.bind (s1 (mc_mem M s)) s2 = Some m"
  obtain g1 m1 where 1: "f g = Inr g1" "h g1 = Inr g'" "s1 (mc_mem M s) = Some m1" "s2 m1 = Some m"
    using g by (auto simp: bindE_eq_Inr bind_eq_Some_conv)
  have i1: "ginv g1" using growD(1) [OF quietD [OF assms(3) g(1) 1(1)]] .
  have e1: "ext (oc_blks g1) G" using ext_back [OF quietD [OF assms(4) i1 1(2)] g(3)] .
  obtain y t where 2: "cur g1 = Some y" "pruns M G (x, s) (y, t)" "mc_mem M t = m1"
    "keep \<longrightarrow> (\<forall>w. mc_val M (gc_be g1) w t = mc_val M (gc_be g) w s)"
    using assms(1) g(1,4) 1(1,3) e1 unfolding acts_def by blast
  obtain y' t' where 3: "cur g' = Some y'" "pruns M G (y, t) (y', t')" "mc_mem M t' = m"
    "keep \<longrightarrow> (\<forall>w. mc_val M (gc_be g') w t' = mc_val M (gc_be g1) w t)"
    using assms(2) i1 1(2,4) g(3) 2(1,3) unfolding acts_def by blast
  show "\<exists>y t. cur g' = Some y \<and> pruns M G (x, s) (y, t) \<and> mc_mem M t = m \<and> (keep \<longrightarrow> (\<forall>w. mc_val M (gc_be g') w t = mc_val M (gc_be g) w s))"
    using 2(4) 3 pruns_trans [OF 2(2) 3(2)] by (intro exI [of _ y'] exI [of _ t']) simp
qed

section \<open>Transfers and scopes\<close>

lemma transfer_run:
  assumes B: "backend_ok M B" and g: "ginv g" and t: "transfer B to g = Inr g'" and G: "ext (oc_blks g') G" and x: "cur g = Some x"
  shows "\<exists>u. pruns M G (x, s) ((to, 0), u) \<and> mc_mem M u = mc_mem M s"
proof -
  obtain f where f: "oc_current g = Some f" "x = point g f" using x by (auto simp: cur_def)
  obtain g1 g2 g3 where 1: "be_spill B g = Inr g1" and
    2: "upd_blk to (\<lambda>k. k\<lparr>bk_merge_preds := bk_merge_preds k @ [f]\<rparr>) g1 = Inr g2" and
    3: "upd_blk f (\<lambda>k. k\<lparr>bk_type := BLK_NEXT_BLOCK to\<rparr>) g2 = Inr g3" "g' = g3\<lparr>oc_current := None\<rparr>"
    using t f by (auto simp: transfer_def out_ctrl_transfer_def bindE_eq_Inr split: option.splits if_splits)
  note q = quiet_backendD [OF backend_okD(1) [OF B]]
  have i1: "ginv g1" using growD(1) [OF quietD [OF q(3) g 1]] .
  have c1: "oc_current g1 = Some f" using q(4) [OF 1] f by simp
  note u2 = upd_blk_grow [OF i1 2]
  have g2: "grow {} {} {} g1 g2" "oc_current g2 = Some f" using u2(1,2) c1 by (simp_all add: same_blk_def)
  have g3: "grow {} {} {} g2 g'" using end_blk_grow [OF growD(1) [OF g2(1)] g2(2) 3(1)] 3(2) by simp
  have e1: "ext (oc_blks g1) G" using ext_back [OF g2(1)] ext_back [OF g3 G] by simp
  obtain y u where 4: "cur g1 = Some y" "pruns M G (x, s) (y, u)" "mc_mem M u = mc_mem M s"
    using backend_okD(9) [OF B] g 1 e1 x unfolding acts_def by blast
  have y: "y = point g1 f" using 4(1) c1 by (simp add: cur_def)
  have f2: "f < length (oc_blks g2)" using ginvD(1) [OF growD(1) [OF g2(1)] g2(2)] .
  have b3: "oc_blks g' ! f = (oc_blks g2 ! f)\<lparr>bk_type := BLK_NEXT_BLOCK to\<rparr>" "f < length (oc_blks g')"
    using 3 f2 by (auto simp: upd_blk_def blk_at_def bindE_eq_Inr split: if_splits)
  have ins: "bk_insns (oc_blks g2 ! f) = bk_insns (oc_blks g1 ! f)"
    using 2 by (auto simp: upd_blk_def blk_at_def bindE_eq_Inr nth_list_update split: if_splits)
  have "bk_type (G ! f) = BLK_NEXT_BLOCK to" "bk_insns (G ! f) = bk_insns (oc_blks g1 ! f)" "f < length G"
    using G b3 ins unfolding ext_def same_blk_def by auto
  then have "pnext M G (y, u) = Some ((to, 0), u)" by (simp add: pnext_def y point_def)
  then show ?thesis using pruns_trans [OF 4(2) pruns_step] 4(3) by blast
qed

lemma transfer_jumps:
  "backend_ok M B \<Longrightarrow> ginv g \<Longrightarrow> transfer B to g = Inr g' \<Longrightarrow> ext (oc_blks g') G \<Longrightarrow> jumps M G (\<lambda>m. m) to (cur g)"
  using transfer_run unfolding reaches_def by (metis option.inject prod.inject)

lemma cur_new: "ginv g \<Longrightarrow> new_blk B d g = Inr (b, g') \<Longrightarrow> cur g' = cur g"
  using ginvD(1) [of g]
  by (cases "oc_current g")
     (auto simp: cur_def point_def new_blk_def out_blk_new_def blk_new_common_def bindE_eq_Inr nth_append)

lemma cur_priv: "priv b g \<Longrightarrow> cur (out_current_blk b g) = Some (b, 0)"
  by (simp add: cur_def point_def out_current_blk_def priv_def fresh_def)

lemma cur_init [simp]: "cur (stmt_init_blks p c b g) = cur g"
  by (cases "oc_current g") (simp_all add: cur_def point_def stmt_init_blks_def)

lemma acts_scope_block:
  assumes "backend_ok M B" shows "acts M False (new_block_for_scope B desc) Some"
  unfolding acts_def
proof (intro allI impI)
  fix g g' G x s m
  assume g: "ginv g" "new_block_for_scope B desc g = Inr g'" "ext (oc_blks g') G" "cur g = Some x" "Some (mc_mem M s) = Some m"
  consider "g' = g" | b g1 g2 where "new_blk B desc g = Inr (b, g1)" "transfer B b g1 = Inr g2" "g' = out_current_blk b g2"
    using g(2) by (auto simp: new_block_for_scope_def bindE_eq_Inr transfer_make_current_split split: if_splits)
  then show "\<exists>y t. cur g' = Some y \<and> pruns M G (x, s) (y, t) \<and> mc_mem M t = m \<and>
    (False \<longrightarrow> (\<forall>w. mc_val M (gc_be g') w t = mc_val M (gc_be g) w s))"
  proof cases
    case 1
    then show ?thesis using g by (intro exI [of _ x] exI [of _ s]) simp
  next
    case 2
    note n = new_blk_grow [OF g(1) 2(1)]
    note t = transfer_grow [OF backend_okD(1) [OF assms] growD(1) [OF n(1)] 2(2)]
    have "ext (oc_blks g2) G" using g(3) 2(3) by (simp add: out_current_blk_def)
    moreover have "cur g1 = Some x" using cur_new [OF g(1) 2(1)] g(4) by simp
    ultimately obtain u where "pruns M G (x, s) ((b, 0), u)" "mc_mem M u = mc_mem M s"
      using transfer_run [OF assms growD(1) [OF n(1)] 2(2)] by blast
    then show ?thesis
      using cur_priv [OF priv_grow [OF t(1) n(2)]] 2(3) g(5) by (intro exI [of _ "(b, 0)"] exI [of _ u]) simp
  qed
qed

text \<open>The scopes that are left on the way from one scope to another.\<close>

definition scopes_left :: "symheap \<Rightarrow> nat \<Rightarrow> nat option \<Rightarrow> nat list outcome" where
  "scopes_left h s_from s_to =
     (case s_to of
        None \<Rightarrow> Inr [s_from]
      | Some s_to \<Rightarrow>
        bindE (scope_chain h s_to) (\<lambda>marked. bindE (scope_chain h s_from) (\<lambda>up. Inr (takeWhile (\<lambda>s. s \<notin> set marked) up))))"

definition scope_ok :: "symheap \<Rightarrow> nat \<Rightarrow> bool" where
  "scope_ok h stab \<longleftrightarrow> bindE (tab h stab) (\<lambda>t. scopes_left h stab (st_parent t)) = Inr [stab]"

lemma acts_each:
  assumes "backend_ok M B" shows "acts M True (each_scope (be_dtors B) ss) (\<lambda>m. Some (fold (cs_dtors M) ss m))"
proof (induction ss)
  case Nil
  then show ?case using acts_return [of M True] by (simp add: acts_def)
next
  case (Cons st ss)
  note q = backend_okD(1) [OF assms]
  have "acts M True (\<lambda>g. bindE (be_dtors B st g) (each_scope (be_dtors B) ss))
      (\<lambda>m. Option.bind (Some (cs_dtors M st m)) (\<lambda>m. Some (fold (cs_dtors M) ss m)))"
    by (rule acts_bind [OF backend_okD(12) [OF assms] Cons quiet_backendD(12) [OF q] scope_quiet(3) [OF q]])
  then show ?case by (simp add: acts_def)
qed

lemma acts_leave:
  assumes "backend_ok M B" "scopes_left h f to = Inr ss"
  shows "acts M True (gen_scope_leave B h f to) (\<lambda>m. Some (fold (cs_dtors M) ss m))"
proof (cases to)
  case None
  then have "gen_scope_leave B h f to = be_dtors B f" "ss = [f]" using assms(2) by (auto simp: gen_scope_leave_def scopes_left_def)
  then show ?thesis using backend_okD(12) [OF assms(1), of f] by simp
next
  case (Some s_to)
  then have "gen_scope_leave B h f to = each_scope (be_dtors B) ss"
    using assms(2) by (auto simp: scopes_left_def gen_scope_leave_def fun_eq_iff bindE_eq_Inr)
  then show ?thesis using acts_each [OF assms(1)] by simp
qed

lemma acts_leave_parent:
  assumes "backend_ok M B" "scope_ok h stab"
  shows "acts M True (gen_scope_leave_parent B h stab) (\<lambda>m. Some (cs_dtors M stab m))"
proof -
  obtain t where t: "tab h stab = Inr t" "scopes_left h stab (st_parent t) = Inr [stab]"
    using assms(2) by (auto simp: scope_ok_def bindE_eq_Inr)
  then show ?thesis
    using acts_leave [OF assms(1) t(2)] by (simp add: acts_def gen_scope_leave_parent_def)
qed

lemma acts_decls:
  assumes "backend_ok M B" shows "acts M False (gen_block_decls B stab) (cs_decls M stab)"
  using acts_bind [OF acts_scope_block [OF assms] backend_okD(10) [OF assms] new_block_for_scope_quiet quiet_backendD(10)]
    backend_okD(1) [OF assms]
  by (simp add: gen_block_decls_def [abs_def])

lemma acts_dealloca:
  assumes "backend_ok M B" shows "acts M False (gen_block_decls_dealloca B stab) Some"
  using acts_bind [OF backend_okD(11) [OF assms] acts_scope_block [OF assms] quiet_backendD(11) new_block_for_scope_quiet]
    backend_okD(1) [OF assms]
  by (simp add: gen_block_decls_dealloca_def [abs_def])

lemma acts_flow_gen: "backend_ok M B \<Longrightarrow> flow = None \<or> flow = Some stab \<Longrightarrow> acts M False (flow_gen B flow stab) (cs_decls M stab)"
  using acts_decls [of M B stab] by (auto simp: flow_gen_def [abs_def])

lemma acts_scope_end:
  assumes "backend_ok M B" "scope_ok h stab"
  shows "acts M False (\<lambda>g. bindE (gen_scope_leave_parent B h stab g) (gen_block_decls_dealloca B stab)) (\<lambda>m. Some (cs_dtors M stab m))"
  using acts_bind [OF acts_weaken [OF acts_leave_parent [OF assms]] acts_dealloca [OF assms(1)] scope_quiet(5,2)] backend_okD(1) [OF assms(1)]
  by simp

lemma acts_flow_end:
  assumes "backend_ok M B" "scope_ok h stab" "flow = None \<or> flow = Some stab"
  shows "acts M False (flow_end B h flow stab) (\<lambda>m. Some (cs_dtors M stab m))"
  using acts_scope_end [OF assms(1,2)] assms(3) by (auto simp: flow_end_def [abs_def])

lemma acts_value:
  assumes "backend_ok M B" shows "acts M False (gen_value B e) (\<lambda>m. map_option snd (cs_eval M e m))"
  unfolding acts_def
proof (intro allI impI)
  fix g g' G x s m
  assume g: "ginv g" "gen_value B e g = Inr g'" "ext (oc_blks g') G" "cur g = Some x" "map_option snd (cs_eval M e (mc_mem M s)) = Some m"
  obtain v g1 r where 1: "be_expr B e g = Inr (v, g1)" "be_consume B v g1 = Inr g'" "cs_eval M e (mc_mem M s) = Some (r, m)"
    using g by (auto simp: gen_value_def bindE_eq_Inr)
  note q = quiet_backendD [OF backend_okD(1) [OF assms]]
  have i1: "ginv g1" using growD(1) [OF quiet_valD [OF q(1) g(1) 1(1)]] .
  have e1: "ext (oc_blks g1) G" using ext_back [OF quietD [OF q(2) i1 1(2)] g(3)] .
  obtain y t where 2: "cur g1 = Some y" "pruns M G (x, s) (y, t)" "mc_mem M t = m"
    using expr_okD [OF backend_okD(2) [OF assms] g(1) 1(1) e1 g(4) 1(3)] by blast
  obtain z u where 3: "cur g' = Some z" "pruns M G (y, t) (z, u)" "mc_mem M u = m"
    using backend_okD(8) [OF assms] i1 1(2) g(3) 2(1,3) unfolding acts_def by blast
  show "\<exists>y t. cur g' = Some y \<and> pruns M G (x, s) (y, t) \<and> mc_mem M t = m \<and>
    (False \<longrightarrow> (\<forall>w. mc_val M (gc_be g') w t = mc_val M (gc_be g) w s))"
    using 3 pruns_trans [OF 2(2) 3(2)] by blast
qed

section \<open>Compiled statements\<close>

definition opt_eval :: "('e, 'm, 's, 'v, 'b) machine \<Rightarrow> 'e option \<Rightarrow> 'm \<Rightarrow> 'm option" where
  "opt_eval M e m = (case e of None \<Rightarrow> Some m | Some e \<Rightarrow> map_option snd (cs_eval M e m))"

definition case_matches :: "int \<Rightarrow> int option \<Rightarrow> int \<Rightarrow> bool" where
  "case_matches lo hi x \<longleftrightarrow> (case hi of None \<Rightarrow> x = lo | Some hi \<Rightarrow> lo \<le> x \<and> x \<le> hi)"

fun pick :: "gcase list \<Rightarrow> int \<Rightarrow> nat option" where
  "pick [] x = None"
| "pick ((k, lo, hi) # cs) x = (if case_matches lo hi x then Some k else pick cs x)"

definition selected :: "gcase list \<Rightarrow> nat option \<Rightarrow> int \<Rightarrow> nat option" where
  "selected cs d x = (case pick cs x of None \<Rightarrow> d | Some k \<Rightarrow> Some k)"

definition for_test_ok :: "('e, 'm, 's, 'v, 'b) machine \<Rightarrow> 'e option \<Rightarrow> nat \<Rightarrow> nat \<Rightarrow> out_blk list \<Rightarrow> (nat \<times> nat) option \<Rightarrow> bool" where
  "for_test_ok M cond bo en G x \<longleftrightarrow>
     (case cond of
        None \<Rightarrow> jumps M G (\<lambda>m. m) bo x
      | Some e \<Rightarrow> reaches M G (cs_eval M e) (\<lambda>v. if v \<noteq> 0 then bo else en) x)"

abbreviation (input) to_unit :: "('m \<Rightarrow> 'm option) \<Rightarrow> 'm \<Rightarrow> (unit \<times> 'm) option" where
  "to_unit f \<equiv> (\<lambda>m. map_option (Pair ()) (f m))"

definition ret_eval :: "('e, 'm, 's, 'v, 'b) machine \<Rightarrow> nat list \<Rightarrow> 'e option \<Rightarrow> 'm \<Rightarrow> (unit \<times> 'm) option" where
  "ret_eval M ls e m =
     (case e of
        None \<Rightarrow> Some ((), fold (cs_dtors M) ls m)
      | Some e \<Rightarrow> map_option (\<lambda>(r, m). ((), cs_ret M r (fold (cs_dtors M) ls m))) (cs_eval M e m))"

text \<open>
  The code of a statement runs from the point \<open>x\<close> to the point \<open>y\<close>; \<open>fl\<close> are the blocks of the loops and
  switches around it, \<open>T\<close> those of labels and cases, and \<open>ep\<close> is the epilogue.
\<close>

fun compiled :: "('e, 'm, 's, 'v, 'b) machine \<Rightarrow> out_blk list \<Rightarrow> (tgt \<Rightarrow> nat option) \<Rightarrow> symheap \<Rightarrow> nat \<Rightarrow> (nat \<Rightarrow> nat option \<times> nat option) \<Rightarrow>
    'e gstmt \<Rightarrow> (nat \<times> nat) option \<Rightarrow> (nat \<times> nat) option \<Rightarrow> bool"
  and compileds :: "('e, 'm, 's, 'v, 'b) machine \<Rightarrow> out_blk list \<Rightarrow> (tgt \<Rightarrow> nat option) \<Rightarrow> symheap \<Rightarrow> nat \<Rightarrow> (nat \<Rightarrow> nat option \<times> nat option) \<Rightarrow>
    'e gstmt list \<Rightarrow> (nat \<times> nat) option \<Rightarrow> (nat \<times> nat) option \<Rightarrow> bool" where
  "compiled M G T h ep fl G_noop x y \<longleftrightarrow> y = x"
| "compiled M G T h ep fl (G_expr e) x y \<longleftrightarrow> moves M G (opt_eval M (Some e)) x y"
| "compiled M G T h ep fl (G_break p f t) x y \<longleftrightarrow>
     (\<exists>b ls. snd (fl p) = Some b \<and> scopes_left h f (Some t) = Inr ls \<and> jumps M G (fold (cs_dtors M) ls) b x)"
| "compiled M G T h ep fl (G_continue p f t) x y \<longleftrightarrow>
     (\<exists>b ls. fst (fl p) = Some b \<and> scopes_left h f (Some t) = Inr ls \<and> jumps M G (fold (cs_dtors M) ls) b x)"
| "compiled M G T h ep fl (G_return e f root) x y \<longleftrightarrow>
     (\<exists>ls. scopes_left h f (Some root) = Inr ls \<and> reaches M G (ret_eval M ls e) (\<lambda>_. ep) x)"
| "compiled M G T h ep fl (G_goto l f t) x y \<longleftrightarrow>
     (\<exists>b ls. T (T_label l) = Some b \<and> scopes_left h f (Some t) = Inr ls \<and> jumps M G (fold (cs_dtors M) ls) b x)"
| "compiled M G T h ep fl (G_goto_expr e) x y \<longleftrightarrow> True"
| "compiled M G T h ep fl (G_if flow stab e l r) x y \<longleftrightarrow>
     (\<exists>z a b fi w1 w2. moves M G (cs_decls M stab) x z \<and> reaches M G (cs_eval M e) (\<lambda>v. if v \<noteq> 0 then a else b) z \<and>
        compiled M G T h ep fl l (Some (a, 0)) w1 \<and> jumps M G (\<lambda>m. m) fi w1 \<and>
        (case r of None \<Rightarrow> w2 = Some (b, 0) | Some r \<Rightarrow> compiled M G T h ep fl r (Some (b, 0)) w2) \<and> jumps M G (\<lambda>m. m) fi w2 \<and>
        moves M G (\<lambda>m. Some (cs_dtors M stab m)) (Some (fi, 0)) y)"
| "compiled M G T h ep fl (G_while p flow stab e l) x y \<longleftrightarrow>
     (\<exists>co bo br z w. jumps M G (\<lambda>m. m) co x \<and> moves M G (cs_decls M stab) (Some (co, 0)) z \<and>
        reaches M G (cs_eval M e) (\<lambda>v. if v \<noteq> 0 then bo else br) z \<and>
        compiled M G T h ep (fl(p := (Some co, Some br))) l (Some (bo, 0)) w \<and> jumps M G (\<lambda>m. m) co w \<and>
        moves M G (\<lambda>m. Some (cs_dtors M stab m)) (Some (br, 0)) y)"
| "compiled M G T h ep fl (G_do p l e) x y \<longleftrightarrow>
     (\<exists>be te en w. jumps M G (\<lambda>m. m) be x \<and> compiled M G T h ep (fl(p := (Some te, Some en))) l (Some (be, 0)) w \<and>
        jumps M G (\<lambda>m. m) te w \<and> reaches M G (cs_eval M e) (\<lambda>v. if v \<noteq> 0 then be else en) (Some (te, 0)) \<and> y = Some (en, 0))"
| "compiled M G T h ep fl (G_for p stab init cond inc l) x y \<longleftrightarrow>
     (\<exists>te bo en ic w. reaches M G (to_unit (\<lambda>m. Option.bind (cs_decls M stab m) (opt_eval M init))) (\<lambda>_. te) x \<and>
        for_test_ok M cond bo en G (Some (te, 0)) \<and>
        compiled M G T h ep (fl(p := (Some ic, Some en))) l (Some (bo, 0)) w \<and> jumps M G (\<lambda>m. m) ic w \<and>
        reaches M G (to_unit (opt_eval M inc)) (\<lambda>_. te) (Some (ic, 0)) \<and>
        moves M G (\<lambda>m. Some (cs_dtors M stab m)) (Some (en, 0)) y)"
| "compiled M G T h ep fl (G_switch p flow stab e cs d l) x y \<longleftrightarrow>
     (\<exists>fin z b w. moves M G (cs_decls M stab) x z \<and> (\<forall>k \<in> set (case_keys cs d). T (T_case k) \<noteq> None) \<and>
        reaches M G (cs_eval M e) (\<lambda>v. case selected cs d v of None \<Rightarrow> fin | Some k \<Rightarrow> the (T (T_case k))) z \<and>
        compiled M G T h ep (fl(p := (None, Some fin))) l (Some (b, 0)) w \<and> jumps M G (\<lambda>m. m) fin w \<and>
        moves M G (\<lambda>m. Some (cs_dtors M stab m)) (Some (fin, 0)) y)"
| "compiled M G T h ep fl (G_case k l) x y \<longleftrightarrow>
     (\<exists>b. T (T_case k) = Some b \<and> jumps M G (\<lambda>m. m) b x \<and> compiled M G T h ep fl l (Some (b, 0)) y)"
| "compiled M G T h ep fl (G_label k _ l) x y \<longleftrightarrow>
     (\<exists>b. T (T_label k) = Some b \<and> jumps M G (\<lambda>m. m) b x \<and> compiled M G T h ep fl l (Some (b, 0)) y)"
| "compiled M G T h ep fl (G_code stab ss) x y \<longleftrightarrow>
     (\<exists>z w. moves M G (cs_decls M stab) x z \<and> compileds M G T h ep fl ss z w \<and> moves M G (\<lambda>m. Some (cs_dtors M stab m)) w y)"
| "compileds M G T h ep fl [] x y \<longleftrightarrow> y = x"
| "compileds M G T h ep fl (s # ss) x y \<longleftrightarrow> (\<exists>z. compiled M G T h ep fl s x z \<and> compileds M G T h ep fl ss z y)"

text \<open>The scopes of a statement are linked as the statement needs them.\<close>

fun wf_scopes :: "symheap \<Rightarrow> 'e gstmt \<Rightarrow> bool" where
  "wf_scopes h (G_break p f t) \<longleftrightarrow> (case scopes_left h f (Some t) of Inr _ \<Rightarrow> True | Inl _ \<Rightarrow> False)"
| "wf_scopes h (G_continue p f t) \<longleftrightarrow> (case scopes_left h f (Some t) of Inr _ \<Rightarrow> True | Inl _ \<Rightarrow> False)"
| "wf_scopes h (G_return e f t) \<longleftrightarrow> (case scopes_left h f (Some t) of Inr _ \<Rightarrow> True | Inl _ \<Rightarrow> False)"
| "wf_scopes h (G_goto l f t) \<longleftrightarrow> (case scopes_left h f (Some t) of Inr _ \<Rightarrow> True | Inl _ \<Rightarrow> False)"
| "wf_scopes h (G_if flow stab e l r) \<longleftrightarrow> (flow = None \<or> flow = Some stab) \<and> scope_ok h stab \<and> wf_scopes h l \<and>
     (case r of None \<Rightarrow> True | Some r \<Rightarrow> wf_scopes h r)"
| "wf_scopes h (G_while p flow stab e l) \<longleftrightarrow> (flow = None \<or> flow = Some stab) \<and> scope_ok h stab \<and> wf_scopes h l"
| "wf_scopes h (G_do p l e) \<longleftrightarrow> wf_scopes h l"
| "wf_scopes h (G_for p stab i c n l) \<longleftrightarrow> scope_ok h stab \<and> wf_scopes h l"
| "wf_scopes h (G_switch p flow stab e cs d l) \<longleftrightarrow> (flow = None \<or> flow = Some stab) \<and> scope_ok h stab \<and> wf_scopes h l"
| "wf_scopes h (G_case k l) \<longleftrightarrow> wf_scopes h l"
| "wf_scopes h (G_label k m l) \<longleftrightarrow> wf_scopes h l"
| "wf_scopes h (G_code stab ss) \<longleftrightarrow> scope_ok h stab \<and> list_all (wf_scopes h) ss"
| "wf_scopes h _ \<longleftrightarrow> True"

end
