(* ===== verification/Ucc_Gen_Sound.thy ===== *)
theory Ucc_Gen_Sound
  imports Ucc_Gen_Compiled
begin

text \<open>
  The code that is generated for a statement is \<open>compiled\<close>: one lemma for each \<^verbatim>\<open>gen_stmt_*\<close>, with what
  its parts generate as an argument, and an induction over the statement.
\<close>

section \<open>Steps of the generator\<close>

lemma out_current_sel [simp]:
  "oc_blks (out_current_blk b g) = oc_blks g" "gc_tgt (out_current_blk b g) = gc_tgt g" "gc_flow (out_current_blk b g) = gc_flow g"
  "oc_epilogue (out_current_blk b g) = oc_epilogue g" "gc_be (out_current_blk b g) = gc_be g"
  by (simp_all add: out_current_blk_def)

lemma init_blks_sel [simp]:
  "oc_blks (stmt_init_blks p c b g) = oc_blks g" "gc_tgt (stmt_init_blks p c b g) = gc_tgt g"
  "gc_flow (stmt_init_blks p c b g) = (gc_flow g)(p := (c, b))" "oc_epilogue (stmt_init_blks p c b g) = oc_epilogue g"
  by (simp_all add: stmt_init_blks_def)

lemma grow_flow: "grow K N {} g g' \<Longrightarrow> gc_flow g' = gc_flow g"
  by (rule ext) (simp add: growD(4))

lemma grow_tgt: "grow K N D g g' \<Longrightarrow> gc_tgt g \<subseteq>\<^sub>m gc_tgt g'"
  by (auto simp: map_le_def dest: growD(3))

definition gives :: "'b gen_ctx \<Rightarrow> 'b gen_ctx \<Rightarrow> (out_blk list \<Rightarrow> bool) \<Rightarrow> bool" where
  "gives g g' Q \<longleftrightarrow> grow {} {} {} g g' \<and> (\<forall>G. ext (oc_blks g') G \<longrightarrow> Q G)"

lemma givesD: "gives g g' Q \<Longrightarrow> grow {} {} {} g g'" "gives g g' Q \<Longrightarrow> ext (oc_blks g') G \<Longrightarrow> Q G"
  by (simp_all add: gives_def)

lemma acts_gives: "acts M keep f sem \<Longrightarrow> quiet f \<Longrightarrow> ginv g \<Longrightarrow> f g = Inr g' \<Longrightarrow> gives g g' (\<lambda>G. moves M G sem (cur g) (cur g'))"
  by (simp add: gives_def acts_moves quietD)

lemma transfer_gives:
  assumes "backend_ok M B" "ginv g" "transfer B to g = Inr g'"
  shows "gives g g' (\<lambda>G. jumps M G (\<lambda>m. m) to (cur g))"
  using transfer_jumps [OF assms] transfer_grow(1) [OF backend_okD(1) [OF assms(1)] assms(2,3)] by (simp add: gives_def)

lemma test_gives:
  assumes B: "backend_ok M B" and g: "ginv g" and e: "be_expr B e g = Inr (v, g1)" and b: "out_ctrl_branch B v t f g1 = Inr g2"
  shows "\<exists>g3. g2 = out_current_blk t g3 \<and> gives g g3 (\<lambda>G. reaches M G (cs_eval M e) (\<lambda>v. if v \<noteq> 0 then t else f) (cur g))"
proof -
  obtain g3 where 3: "be_branch B v t f g1 = Inr g3" "g2 = out_current_blk t g3"
    using b by (auto simp: out_ctrl_branch_def bindE_eq_Inr)
  note q = quiet_backendD [OF backend_okD(1) [OF B]]
  have x: "grow {} {} {} g g1" using quiet_valD [OF q(1) g e] .
  note i = growD(1) [OF x]
  note y = q(5) [OF i 3(1)]
  have "reaches M G (cs_eval M e) (\<lambda>v. if v \<noteq> 0 then t else f) (cur g)" if G: "ext (oc_blks g3) G" for G
    unfolding reaches_def
  proof (intro allI impI)
    fix z s r m assume z: "cur g = Some z" "cs_eval M e (mc_mem M s) = Some (r, m)"
    obtain y u where 1: "cur g1 = Some y" "pruns M G (z, s) (y, u)" "mc_mem M u = m" "mc_val M (gc_be g1) v u = r"
      using expr_okD [OF backend_okD(2) [OF B] g e ext_back [OF y G] z] by blast
    obtain w where 2: "pruns M G (y, u) ((if mc_val M (gc_be g1) v u \<noteq> 0 then t else f, 0), w)" "mc_mem M w = mc_mem M u"
      using branch_okD [OF backend_okD(3) [OF B] i 3(1) G 1(1)] by blast
    then show "\<exists>ta. pruns M G (z, s) ((if r \<noteq> 0 then t else f, 0), ta) \<and> mc_mem M ta = m"
      using 1 2 pruns_trans [OF 1(2) 2(1)] by (intro exI [of _ w]) simp
  qed
  then show ?thesis using 3(2) grow_trans0 [OF x y] by (auto simp: gives_def)
qed

lemma stage_gives: "stage K N D g0 g P \<Longrightarrow> gives g g' Q \<Longrightarrow> stage K N D g0 g' P"
  by (rule stage_step [OF _ givesD(1)]) auto

lemma stage_cur: "stage K N D g0 g P \<Longrightarrow> b \<in> P \<Longrightarrow> cur (out_current_blk b g) = Some (b, 0)"
  by (rule cur_priv) (simp add: stage_def)

lemma stage_to: "stage K N D g0 g P \<Longrightarrow> b \<in> P \<Longrightarrow> P' \<subseteq> P - {b} \<Longrightarrow> stage K N D g0 (out_current_blk b g) P'"
  by (rule stage_weaken [OF stage_current(1)]) auto

section \<open>Fine generators\<close>

text \<open>
  A generator with the labels \<open>K\<close>, the cases \<open>N\<close> of its switches, the loops \<open>D\<close> and the jumps \<open>R\<close> to loops
  around it makes code with the property \<open>C\<close>.
\<close>

definition fine ::
  "nat \<Rightarrow> tgt set \<Rightarrow> tgt set \<Rightarrow> nat set \<Rightarrow> nat set \<Rightarrow> 'b gen \<Rightarrow>
    (out_blk list \<Rightarrow> (tgt \<Rightarrow> nat option) \<Rightarrow> (nat \<Rightarrow> nat option \<times> nat option) \<Rightarrow> (nat \<times> nat) option \<Rightarrow> (nat \<times> nat) option \<Rightarrow> bool) \<Rightarrow> bool" where
  "fine ep K N D R f C \<longleftrightarrow> N \<subseteq> range T_case \<and>
     (\<forall>g g'. ginv g \<longrightarrow> unbound N g \<longrightarrow> tfresh K g \<longrightarrow> oc_epilogue g = ep \<longrightarrow> f g = Inr g' \<longrightarrow>
        grow (K \<union> N) N D g g' \<and>
        (\<forall>G T fl. ext (oc_blks g') G \<longrightarrow> gc_tgt g' \<subseteq>\<^sub>m T \<longrightarrow> (\<forall>q \<in> R. fl q = gc_flow g q) \<longrightarrow> C G T fl (cur g) (cur g')))"

lemma fineI:
  assumes "N \<subseteq> range T_case"
    "\<And>g g'. ginv g \<Longrightarrow> unbound N g \<Longrightarrow> tfresh K g \<Longrightarrow> oc_epilogue g = ep \<Longrightarrow> f g = Inr g' \<Longrightarrow> grow (K \<union> N) N D g g' \<and>
        (\<forall>G T fl. ext (oc_blks g') G \<longrightarrow> gc_tgt g' \<subseteq>\<^sub>m T \<longrightarrow> (\<forall>q \<in> R. fl q = gc_flow g q) \<longrightarrow> C G T fl (cur g) (cur g'))"
  shows "fine ep K N D R f C"
  using assms unfolding fine_def by blast

text \<open>The part of a statement, after a prefix that made the blocks \<open>P\<close>.\<close>

lemma fine_part:
  assumes f: "fine ep K N D R f C" and st: "stage K0 N0 D0 g0 g P" and K0: "K0 \<inter> K = {}" "N0 \<inter> N = {}"
    and g0: "unbound N g0" "tfresh K g0" "oc_epilogue g0 = ep" "ginv g0" and run: "f g = Inr g'"
  shows "grow (K \<union> N) N D g g'" "stage (K0 \<union> (K \<union> N)) (N0 \<union> N) (D0 \<union> D) g0 g' P"
    "\<And>G T fl. ext (oc_blks g') G \<Longrightarrow> gc_tgt g' \<subseteq>\<^sub>m T \<Longrightarrow> (\<And>q. q \<in> R \<Longrightarrow> fl q = gc_flow g q) \<Longrightarrow> C G T fl (cur g) (cur g')"
proof -
  note gr = stage_grow [OF st]
  have N: "N \<subseteq> range T_case" using f by (simp add: fine_def)
  have u: "unbound N g" using unbound_grow [OF gr g0(1) K0(2) N] .
  have t: "tfresh K g" using tfresh_grow [OF gr g0(2) K0(1) g0(4)] .
  have ep: "oc_epilogue g = ep" using growD(5) [OF gr] g0(3) by simp
  note r = f [unfolded fine_def, THEN conjunct2, rule_format, OF stage_ginv [OF st] u t ep run]
  show 1: "grow (K \<union> N) N D g g'" using r by blast
  show "stage (K0 \<union> (K \<union> N)) (N0 \<union> N) (D0 \<union> D) g0 g' P"
    by (rule stage_step [OF stage_weaken [OF st] 1]) auto
  show "C G T fl (cur g) (cur g')" if "ext (oc_blks g') G" "gc_tgt g' \<subseteq>\<^sub>m T" "\<And>q. q \<in> R \<Longrightarrow> fl q = gc_flow g q" for G T fl
    using r that by blast
qed

section \<open>Loops\<close>

lemma fine_while:
  assumes B: "backend_ok M B" and sc: "scope_ok h stab" "flow = None \<or> flow = Some stab" and body: "fine ep K N D R lhs C"
  shows "fine ep K N (insert p D) (R - {p}) (gen_stmt_while B h p flow stab e lhs) (\<lambda>G T fl x y.
     \<exists>co bo br z w. jumps M G (\<lambda>m. m) co x \<and> moves M G (cs_decls M stab) (Some (co, 0)) z \<and>
        reaches M G (cs_eval M e) (\<lambda>v. if v \<noteq> 0 then bo else br) z \<and>
        C G T (fl(p := (Some co, Some br))) (Some (bo, 0)) w \<and> jumps M G (\<lambda>m. m) co w \<and>
        moves M G (\<lambda>m. Some (cs_dtors M stab m)) (Some (br, 0)) y)" (is "fine _ _ _ _ _ _ ?C")
proof (rule fineI)
  show "N \<subseteq> range T_case" using body by (simp add: fine_def)
next
  fix g g' assume i: "ginv g" and g: "unbound N g" "tfresh K g" "oc_epilogue g = ep" and run: "gen_stmt_while B h p flow stab e lhs g = Inr g'"
  note q = backend_okD(1) [OF B]
  obtain bo g1 co g2 br g3 g4 g5 v g6 g7 g8 g9 where
    n: "new_blk B ''while_body'' g = Inr (bo, g1)" "new_blk B ''while_cont'' g1 = Inr (co, g2)" "new_blk B ''while_break'' g2 = Inr (br, g3)" and
    r4: "transfer B co (stmt_init_blks p (Some co) (Some br) g3) = Inr g4" and r5: "flow_gen B flow stab (out_current_blk co g4) = Inr g5" and
    r6: "be_expr B e g5 = Inr (v, g6)" "out_ctrl_branch B v bo br g6 = Inr g7" and
    r8: "lhs (out_current_blk bo g7) = Inr g8" and r9: "transfer B co g8 = Inr g9" and rl: "flow_end B h flow stab (out_current_blk br g9) = Inr g'"
    using run by (auto simp: gen_stmt_while_def bindE_eq_Inr)
  note s1 = stage_new [OF stage_start [OF i, of "{}" "{}" "{p}"] n(1)]
  note s2 = stage_new [OF s1(1) n(2)]
  note s3 = stage_new [OF s2(1) n(3)]
  note si = stage_init_blks [OF s3(1), of p "Some co" "Some br", simplified]
  note t4 = transfer_gives [OF B stage_ginv [OF si] r4]
  note s4 = stage_gives [OF si t4]
  have ds: "co \<noteq> bo" "br \<noteq> co" "br \<noteq> bo" using s2(2) s3(2) by auto
  have s4c: "stage {} {} {p} g (out_current_blk co g4) {bo, br}"
    by (rule stage_to [OF s4]) (use ds in auto)
  note t5 = acts_gives [OF acts_flow_gen [OF B sc(2)] scope_quiet(6) [OF q] stage_ginv [OF s4c] r5]
  note s5 = stage_gives [OF s4c t5]
  obtain g7' where g7: "g7 = out_current_blk bo g7'" and
    t7: "gives g5 g7' (\<lambda>G. reaches M G (cs_eval M e) (\<lambda>v. if v \<noteq> 0 then bo else br) (cur g5))"
    using test_gives [OF B stage_ginv [OF s5] r6] by auto
  note s7 = stage_gives [OF s5 t7]
  have s7c: "stage {} {} {p} g (out_current_blk bo g7) {br}"
    using stage_to [OF s7, of bo "{br}"] ds g7 by simp
  note b = fine_part [OF body s7c _ _ g i r8, simplified]
  note t9 = transfer_gives [OF B stage_ginv [OF b(2)] r9]
  note s9 = stage_gives [OF b(2) t9]
  note sl = stage_current [OF s9, of br]
  note tl = acts_gives [OF acts_flow_end [OF B sc] scope_quiet(7) [OF q] stage_ginv [OF sl(1)] rl]
  have gr: "grow (K \<union> N) N (insert p D) g g'" using stage_grow [OF stage_gives [OF sl(1) tl]] by simp
  have "?C G T fl (cur g) (cur g')" if G: "ext (oc_blks g') G" and T: "gc_tgt g' \<subseteq>\<^sub>m T" and fl: "\<forall>q \<in> R - {p}. fl q = gc_flow g q" for G T fl
  proof -
    have e9: "ext (oc_blks g9) G" using ext_back [OF givesD(1) [OF tl] G] by simp
    have e8: "ext (oc_blks g8) G" using ext_back [OF givesD(1) [OF t9] e9] .
    have e7: "ext (oc_blks g7') G" using ext_back [OF b(1)] e8 g7 by simp
    have e5: "ext (oc_blks g5) G" using ext_back [OF givesD(1) [OF t7] e7] .
    have e4: "ext (oc_blks g4) G" using ext_back [OF givesD(1) [OF t5]] e5 by simp
    have T8: "gc_tgt g8 \<subseteq>\<^sub>m T" using map_le_trans [OF map_le_trans [OF grow_tgt [OF givesD(1) [OF t9]]] T] grow_tgt [OF givesD(1) [OF tl]] by simp
    have fp: "gc_flow g7 p = (Some co, Some br)"
      using grow_flow [OF givesD(1) [OF t4]] grow_flow [OF givesD(1) [OF t5]] grow_flow [OF givesD(1) [OF t7]] g7 by simp
    have fq: "gc_flow g7 r = gc_flow g r" if "r \<noteq> p" for r
      using growD(4) [OF stage_grow [OF s7c], of r] that by simp
    have x: "cur g3 = cur g"
      using cur_new [OF i n(1)] cur_new [OF stage_ginv [OF s1(1)] n(2)] cur_new [OF stage_ginv [OF s2(1)] n(3)] by simp
    have C: "C G T (fl(p := (Some co, Some br))) (Some (bo, 0)) (cur g8)"
      using b(3) [OF e8 T8, of "fl(p := (Some co, Some br))"] fp fq fl stage_cur [OF s7, of bo] g7 by simp
    show ?thesis
      using givesD(2) [OF t4 e4] givesD(2) [OF t5 e5] givesD(2) [OF t7 e7] givesD(2) [OF t9 e9] givesD(2) [OF tl G] C
        stage_cur [OF s4, of co] stage_cur [OF s9, of br] x
      by - (rule exI [of _ co], rule exI [of _ bo], rule exI [of _ br], rule exI [of _ "cur g5"], rule exI [of _ "cur g8"], simp)
  qed
  then show "grow (K \<union> N) N (insert p D) g g' \<and>
      (\<forall>G T fl. ext (oc_blks g') G \<longrightarrow> gc_tgt g' \<subseteq>\<^sub>m T \<longrightarrow> (\<forall>q \<in> R - {p}. fl q = gc_flow g q) \<longrightarrow> ?C G T fl (cur g) (cur g'))"
    using gr by blast
qed

lemma fine_do:
  assumes B: "backend_ok M B" and body: "fine ep K N D R lhs C"
  shows "fine ep K N (insert p D) (R - {p}) (gen_stmt_do B p lhs e) (\<lambda>G T fl x y.
     \<exists>be te en w. jumps M G (\<lambda>m. m) be x \<and> C G T (fl(p := (Some te, Some en))) (Some (be, 0)) w \<and>
        jumps M G (\<lambda>m. m) te w \<and> reaches M G (cs_eval M e) (\<lambda>v. if v \<noteq> 0 then be else en) (Some (te, 0)) \<and> y = Some (en, 0))"
    (is "fine _ _ _ _ _ _ ?C")
proof (rule fineI)
  show "N \<subseteq> range T_case" using body by (simp add: fine_def)
next
  fix g g' assume i: "ginv g" and g: "unbound N g" "tfresh K g" "oc_epilogue g = ep" and run: "gen_stmt_do B p lhs e g = Inr g'"
  obtain be g1 te g2 en g3 g4 g5 g6 v g7 g8 where
    n: "new_blk B ''do_begin'' g = Inr (be, g1)" "new_blk B ''do_test'' g1 = Inr (te, g2)" "new_blk B ''do_end'' g2 = Inr (en, g3)" and
    r4: "transfer B be (stmt_init_blks p (Some te) (Some en) g3) = Inr g4" and r5: "lhs (out_current_blk be g4) = Inr g5" and
    r6: "transfer B te g5 = Inr g6" and r7: "be_expr B e (out_current_blk te g6) = Inr (v, g7)" "out_ctrl_branch B v be en g7 = Inr g8" and
    g': "g' = out_current_blk en g8"
    using run by (auto simp: gen_stmt_do_def bindE_eq_Inr)
  note s1 = stage_new [OF stage_start [OF i, of "{}" "{}" "{p}"] n(1)]
  note s2 = stage_new [OF s1(1) n(2)]
  note s3 = stage_new [OF s2(1) n(3)]
  note si = stage_init_blks [OF s3(1), of p "Some te" "Some en", simplified]
  note t4 = transfer_gives [OF B stage_ginv [OF si] r4]
  note s4 = stage_gives [OF si t4]
  have ds: "te \<noteq> be" "en \<noteq> te" "en \<noteq> be" using s2(2) s3(2) by auto
  have s4c: "stage {} {} {p} g (out_current_blk be g4) {te, en}"
    by (rule stage_to [OF s4]) (use ds in auto)
  note b = fine_part [OF body s4c _ _ g i r5, simplified]
  note t6 = transfer_gives [OF B stage_ginv [OF b(2)] r6]
  note s6 = stage_gives [OF b(2) t6]
  have s6c: "stage (K \<union> N) N (insert p D) g (out_current_blk te g6) {en}"
    using stage_to [OF s6, of te "{en}"] ds by simp
  obtain g8' where g8: "g8 = out_current_blk be g8'" and
    t8: "gives (out_current_blk te g6) g8' (\<lambda>G. reaches M G (cs_eval M e) (\<lambda>v. if v \<noteq> 0 then be else en) (cur (out_current_blk te g6)))"
    using test_gives [OF B stage_ginv [OF s6c] r7] by auto
  note s8 = stage_gives [OF s6c t8]
  have gr: "grow (K \<union> N) N (insert p D) g g'" using stage_grow [OF stage_current(1) [OF s8, of en]] g' g8 by simp
  have "?C G T fl (cur g) (cur g')" if G: "ext (oc_blks g') G" and T: "gc_tgt g' \<subseteq>\<^sub>m T" and fl: "\<forall>q \<in> R - {p}. fl q = gc_flow g q" for G T fl
  proof -
    have e8: "ext (oc_blks g8') G" using G g' g8 by simp
    have e6: "ext (oc_blks g6) G" using ext_back [OF givesD(1) [OF t8] e8] by simp
    have e5: "ext (oc_blks g5) G" using ext_back [OF givesD(1) [OF t6] e6] .
    have e4: "ext (oc_blks g4) G" using ext_back [OF b(1) e5] by simp
    have T5: "gc_tgt g5 \<subseteq>\<^sub>m T"
      using map_le_trans [OF map_le_trans [OF grow_tgt [OF givesD(1) [OF t6]]]] grow_tgt [OF givesD(1) [OF t8]] T g' g8 by simp
    have fp: "gc_flow g4 p = (Some te, Some en)" using grow_flow [OF givesD(1) [OF t4]] by simp
    have fq: "gc_flow g4 r = gc_flow g r" if "r \<noteq> p" for r
      using growD(4) [OF stage_grow [OF s4c], of r] that by simp
    have x: "cur g3 = cur g"
      using cur_new [OF i n(1)] cur_new [OF stage_ginv [OF s1(1)] n(2)] cur_new [OF stage_ginv [OF s2(1)] n(3)] by simp
    have C: "C G T (fl(p := (Some te, Some en))) (Some (be, 0)) (cur g5)"
      using b(3) [OF e5 T5, of "fl(p := (Some te, Some en))"] fp fq fl stage_cur [OF s4, of be] by simp
    show ?thesis
      using givesD(2) [OF t4 e4] givesD(2) [OF t6 e6] givesD(2) [OF t8 e8] C stage_cur [OF s6, of te] stage_cur [OF s8, of en] x g' g8
      by - (rule exI [of _ be], rule exI [of _ te], rule exI [of _ en], rule exI [of _ "cur g5"], simp)
  qed
  then show "grow (K \<union> N) N (insert p D) g g' \<and>
      (\<forall>G T fl. ext (oc_blks g') G \<longrightarrow> gc_tgt g' \<subseteq>\<^sub>m T \<longrightarrow> (\<forall>q \<in> R - {p}. fl q = gc_flow g q) \<longrightarrow> ?C G T fl (cur g) (cur g'))"
    using gr by blast
qed

lemma moves_jumps: "moves M G f z z' \<Longrightarrow> jumps M G (\<lambda>m. m) b z' \<Longrightarrow> reaches M G (to_unit f) (\<lambda>_. b) z"
  unfolding moves_def reaches_def map_option_eq_Some by (metis Pair_inject pruns_trans)

lemma acts_value_opt: "backend_ok M B \<Longrightarrow> acts M False (gen_value_opt B e) (opt_eval M e)"
  using acts_value [of M B] acts_return [of M False]
  by (cases e) (simp_all add: acts_def gen_value_opt_def opt_eval_def)

lemma for_test_gives:
  assumes B: "backend_ok M B" and g: "ginv g" and run: "(case cond of
              Some e \<Rightarrow> bindE (be_expr B e g) (\<lambda>(v, g). out_ctrl_branch B v bo en g)
            | None \<Rightarrow> transfer B bo g) = Inr g1"
  shows "\<exists>g2. out_current_blk bo (stmt_init_blks p c b g1) = out_current_blk bo (stmt_init_blks p c b g2) \<and>
    gives g g2 (\<lambda>G. for_test_ok M cond bo en G (cur g))"
proof (cases cond)
  case None
  then have "transfer B bo g = Inr g1" using run by simp
  from transfer_gives [OF B g this] show ?thesis by (intro exI [of _ g1]) (simp add: for_test_ok_def None)
next
  case (Some e)
  then obtain v g3 where r: "be_expr B e g = Inr (v, g3)" "out_ctrl_branch B v bo en g3 = Inr g1"
    using run by (auto simp: bindE_eq_Inr)
  obtain g2 where "g1 = out_current_blk bo g2" "gives g g2 (\<lambda>G. reaches M G (cs_eval M e) (\<lambda>v. if v \<noteq> 0 then bo else en) (cur g))"
    using test_gives [OF B g r] by auto
  then show ?thesis by (intro exI [of _ g2]) (simp add: for_test_ok_def Some out_current_blk_def stmt_init_blks_def)
qed

lemma fine_for:
  assumes B: "backend_ok M B" and sc: "scope_ok h stab" and body: "fine ep K N D R lhs C"
  shows "fine ep K N (insert p D) (R - {p}) (gen_stmt_for B h p stab init cond inc lhs) (\<lambda>G T fl x y.
     \<exists>te bo en ic w. reaches M G (to_unit (\<lambda>m. Option.bind (cs_decls M stab m) (opt_eval M init))) (\<lambda>_. te) x \<and>
        for_test_ok M cond bo en G (Some (te, 0)) \<and>
        C G T (fl(p := (Some ic, Some en))) (Some (bo, 0)) w \<and> jumps M G (\<lambda>m. m) ic w \<and>
        reaches M G (to_unit (opt_eval M inc)) (\<lambda>_. te) (Some (ic, 0)) \<and>
        moves M G (\<lambda>m. Some (cs_dtors M stab m)) (Some (en, 0)) y)" (is "fine _ _ _ _ _ _ ?C")
proof (rule fineI)
  show "N \<subseteq> range T_case" using body by (simp add: fine_def)
next
  fix g g' assume i: "ginv g" and g: "unbound N g" "tfresh K g" "oc_epilogue g = ep" and run: "gen_stmt_for B h p stab init cond inc lhs g = Inr g'"
  note q = backend_okD(1) [OF B]
  obtain te g1 bo g2 en g3 ic g4 g5 g6 g7 g8 g9 g10 g11 g12 where
    n: "new_blk B ''for_test'' g = Inr (te, g1)" "new_blk B ''for_body'' g1 = Inr (bo, g2)" "new_blk B ''for_end'' g2 = Inr (en, g3)"
      "new_blk B ''for_inc'' g3 = Inr (ic, g4)" and
    r5: "flow_gen B (Some stab) stab g4 = Inr g5" and r6: "gen_value_opt B init g5 = Inr g6" and r7: "transfer B te g6 = Inr g7" and
    r8: "(case cond of
              Some e \<Rightarrow> bindE (be_expr B e (out_current_blk te g7)) (\<lambda>(v, g). out_ctrl_branch B v bo en g)
            | None \<Rightarrow> transfer B bo (out_current_blk te g7)) = Inr g8" and
    r9: "lhs (out_current_blk bo (stmt_init_blks p (Some ic) (Some en) g8)) = Inr g9" and r10: "transfer B ic g9 = Inr g10" and
    r11: "gen_value_opt B inc (out_current_blk ic g10) = Inr g11" and r12: "transfer B te g11 = Inr g12" and
    rl: "flow_end B h (Some stab) stab (out_current_blk en g12) = Inr g'"
    using run by (auto simp: gen_stmt_for_def bindE_eq_Inr transfer_make_current_split)
  note s1 = stage_new [OF stage_start [OF i, of "{}" "{}" "{p}"] n(1)]
  note s2 = stage_new [OF s1(1) n(2)]
  note s3 = stage_new [OF s2(1) n(3)]
  note s4 = stage_new [OF s3(1) n(4)]
  have ds: "bo \<noteq> te" "en \<noteq> bo" "en \<noteq> te" "ic \<noteq> en" "ic \<noteq> bo" "ic \<noteq> te" using s2(2) s3(2) s4(2) by auto
  note t5 = acts_gives [OF acts_flow_gen [OF B, of "Some stab" stab, simplified] scope_quiet(6) [OF q] stage_ginv [OF s4(1)] r5]
  note s5 = stage_gives [OF s4(1) t5]
  note t6 = acts_gives [OF acts_value_opt [OF B] scope_quiet(9) [OF q] stage_ginv [OF s5] r6]
  note s6 = stage_gives [OF s5 t6]
  note t7 = transfer_gives [OF B stage_ginv [OF s6] r7]
  note s7 = stage_gives [OF s6 t7]
  have s7c: "stage {} {} {p} g (out_current_blk te g7) {bo, en, ic}" by (rule stage_to [OF s7]) (use ds in auto)
  obtain g8' where g8: "out_current_blk bo (stmt_init_blks p (Some ic) (Some en) g8) = out_current_blk bo (stmt_init_blks p (Some ic) (Some en) g8')" and
    t8: "gives (out_current_blk te g7) g8' (\<lambda>G. for_test_ok M cond bo en G (cur (out_current_blk te g7)))"
    using for_test_gives [OF B stage_ginv [OF s7c] r8] by blast
  note s8 = stage_init_blks [OF stage_gives [OF s7c t8], of p "Some ic" "Some en", simplified]
  have s8c: "stage {} {} {p} g (out_current_blk bo (stmt_init_blks p (Some ic) (Some en) g8')) {en, ic}"
    by (rule stage_to [OF s8]) (use ds in auto)
  note b = fine_part [OF body s8c _ _ g i r9 [unfolded g8], simplified]
  note t10 = transfer_gives [OF B stage_ginv [OF b(2)] r10]
  note s10 = stage_gives [OF b(2) t10]
  have s10c: "stage (K \<union> N) N (insert p D) g (out_current_blk ic g10) {en}" by (rule stage_to [OF s10]) (use ds in auto)
  note t11 = acts_gives [OF acts_value_opt [OF B] scope_quiet(9) [OF q] stage_ginv [OF s10c] r11]
  note s11 = stage_gives [OF s10c t11]
  note t12 = transfer_gives [OF B stage_ginv [OF s11] r12]
  note s12 = stage_gives [OF s11 t12]
  note sl = stage_current [OF s12, of en]
  note tl = acts_gives [OF acts_flow_end [OF B sc, of "Some stab", simplified] scope_quiet(7) [OF q] stage_ginv [OF sl(1)] rl]
  have gr: "grow (K \<union> N) N (insert p D) g g'" using stage_grow [OF stage_gives [OF sl(1) tl]] by simp
  have "?C G T fl (cur g) (cur g')" if G: "ext (oc_blks g') G" and T: "gc_tgt g' \<subseteq>\<^sub>m T" and fl: "\<forall>q \<in> R - {p}. fl q = gc_flow g q" for G T fl
  proof -
    have e12: "ext (oc_blks g12) G" using ext_back [OF givesD(1) [OF tl] G] by simp
    have e11: "ext (oc_blks g11) G" using ext_back [OF givesD(1) [OF t12] e12] .
    have e10: "ext (oc_blks g10) G" using ext_back [OF givesD(1) [OF t11] e11] by simp
    have e9: "ext (oc_blks g9) G" using ext_back [OF givesD(1) [OF t10] e10] .
    have e8: "ext (oc_blks g8') G" using ext_back [OF b(1)] e9 by simp
    have e7: "ext (oc_blks g7) G" using ext_back [OF givesD(1) [OF t8] e8] by simp
    have e6: "ext (oc_blks g6) G" using ext_back [OF givesD(1) [OF t7] e7] .
    have e5: "ext (oc_blks g5) G" using ext_back [OF givesD(1) [OF t6] e6] .
    have T12: "gc_tgt g12 \<subseteq>\<^sub>m T" using map_le_trans [OF grow_tgt [OF givesD(1) [OF tl]] T] by simp
    have T10: "gc_tgt g10 \<subseteq>\<^sub>m T"
      using map_le_trans [OF grow_tgt [OF grow_trans0 [OF givesD(1) [OF t11] givesD(1) [OF t12]]] T12] by simp
    have T9: "gc_tgt g9 \<subseteq>\<^sub>m T" using map_le_trans [OF grow_tgt [OF givesD(1) [OF t10]] T10] .
    have fq: "gc_flow g8' r = gc_flow g r" if "r \<noteq> p" for r
      using growD(4) [OF stage_grow [OF s8c], of r] that by simp
    have x: "cur g4 = cur g"
      using cur_new [OF i n(1)] cur_new [OF stage_ginv [OF s1(1)] n(2)] cur_new [OF stage_ginv [OF s2(1)] n(3)]
        cur_new [OF stage_ginv [OF s3(1)] n(4)] by simp
    have C: "C G T (fl(p := (Some ic, Some en))) (Some (bo, 0)) (cur g9)"
      using b(3) [OF e9 T9, of "fl(p := (Some ic, Some en))"] fq fl stage_cur [OF s8, of bo] by simp
    have st: "reaches M G (to_unit (\<lambda>m. Option.bind (cs_decls M stab m) (opt_eval M init))) (\<lambda>_. te) (cur g)"
      using moves_jumps [OF moves_trans [OF givesD(2) [OF t5 e5] givesD(2) [OF t6 e6]] givesD(2) [OF t7 e7]] x by simp
    have ic: "reaches M G (to_unit (opt_eval M inc)) (\<lambda>_. te) (Some (ic, 0))"
      using moves_jumps [OF givesD(2) [OF t11 e11] givesD(2) [OF t12 e12]] stage_cur [OF s10, of ic] by simp
    show ?thesis
      using st ic C givesD(2) [OF t8 e8] givesD(2) [OF t10 e10] givesD(2) [OF tl G] stage_cur [OF s7, of te] stage_cur [OF s12, of en]
      by - (rule exI [of _ te], rule exI [of _ bo], rule exI [of _ en], rule exI [of _ ic], rule exI [of _ "cur g9"], simp)
  qed
  then show "grow (K \<union> N) N (insert p D) g g' \<and>
      (\<forall>G T fl. ext (oc_blks g') G \<longrightarrow> gc_tgt g' \<subseteq>\<^sub>m T \<longrightarrow> (\<forall>q \<in> R - {p}. fl q = gc_flow g q) \<longrightarrow> ?C G T fl (cur g) (cur g'))"
    using gr by blast
qed

section \<open>If\<close>

lemma fine_skip: "fine ep {} {} {} {} Inr (\<lambda>G T fl x y. y = x)"
  by (rule fineI) (auto simp: grow_refl)

lemma fine_if:
  assumes B: "backend_ok M B" and sc: "scope_ok h stab" "flow = None \<or> flow = Some stab" and l: "fine ep K N D R lhs C" and r: "fine ep K' N' D' R' rhs C'"
    and ds: "(K \<union> N) \<inter> (K' \<union> N') = {}" "D \<inter> R' = {}"
    and rhs: "rhs = (case opt of None \<Rightarrow> Inr | Some f \<Rightarrow> f)"
  shows "fine ep (K \<union> K') (N \<union> N') (D \<union> D') (R \<union> R') (gen_stmt_if B h flow stab e lhs opt) (\<lambda>G T fl x y.
     \<exists>z a b fi w1 w2. moves M G (cs_decls M stab) x z \<and> reaches M G (cs_eval M e) (\<lambda>v. if v \<noteq> 0 then a else b) z \<and>
        C G T fl (Some (a, 0)) w1 \<and> jumps M G (\<lambda>m. m) fi w1 \<and> C' G T fl (Some (b, 0)) w2 \<and> jumps M G (\<lambda>m. m) fi w2 \<and>
        moves M G (\<lambda>m. Some (cs_dtors M stab m)) (Some (fi, 0)) y)" (is "fine _ _ _ _ _ _ ?C")
proof (rule fineI)
  show "N \<union> N' \<subseteq> range T_case" using l r by (simp add: fine_def)
next
  fix g g' assume i: "ginv g" and g: "unbound (N \<union> N') g" "tfresh (K \<union> K') g" and ep: "oc_epilogue g = ep"
    and run: "gen_stmt_if B h flow stab e lhs opt g = Inr g'"
  have gl: "unbound N g" "tfresh K g" and gr: "unbound N' g" "tfresh K' g" using g by (auto simp: unbound_def tfresh_def)
  note q = backend_okD(1) [OF B]
  have opt: "(case opt of None \<Rightarrow> Inr z | Some f \<Rightarrow> f z) = rhs z" for z by (simp add: rhs split: option.split)
  obtain a g1 b g2 fi g3 g4 v g5 g6 g7 g8 g9 g10 where
    n: "new_blk B ''if_true'' g = Inr (a, g1)" "new_blk B ''if_false'' g1 = Inr (b, g2)" "new_blk B ''fi'' g2 = Inr (fi, g3)" and
    r4: "flow_gen B flow stab g3 = Inr g4" and r6: "be_expr B e g4 = Inr (v, g5)" "out_ctrl_branch B v a b g5 = Inr g6" and
    r7: "lhs (out_current_blk a g6) = Inr g7" and r8: "transfer B fi g7 = Inr g8" and r9: "rhs (out_current_blk b g8) = Inr g9" and
    r10: "transfer B fi g9 = Inr g10" and rl: "flow_end B h flow stab (out_current_blk fi g10) = Inr g'"
    using run by (auto simp: gen_stmt_if_def opt bindE_eq_Inr)
  note s1 = stage_new [OF stage_start [OF i, of "{}" "{}" "{}"] n(1)]
  note s2 = stage_new [OF s1(1) n(2)]
  note s3 = stage_new [OF s2(1) n(3)]
  have ne: "b \<noteq> a" "fi \<noteq> b" "fi \<noteq> a" using s2(2) s3(2) by auto
  note t4 = acts_gives [OF acts_flow_gen [OF B sc(2)] scope_quiet(6) [OF q] stage_ginv [OF s3(1)] r4]
  note s4 = stage_gives [OF s3(1) t4]
  obtain g6' where g6: "g6 = out_current_blk a g6'" and
    t6: "gives g4 g6' (\<lambda>G. reaches M G (cs_eval M e) (\<lambda>v. if v \<noteq> 0 then a else b) (cur g4))"
    using test_gives [OF B stage_ginv [OF s4] r6] by auto
  note s6 = stage_gives [OF s4 t6]
  have s6c: "stage {} {} {} g (out_current_blk a g6) {b, fi}" using stage_to [OF s6, of a "{b, fi}"] ne g6 by simp
  note b1 = fine_part [OF l s6c _ _ gl ep i r7, simplified]
  note t8 = transfer_gives [OF B stage_ginv [OF b1(2)] r8]
  note s8 = stage_gives [OF b1(2) t8]
  have s8c: "stage (K \<union> N) N D g (out_current_blk b g8) {fi}" by (rule stage_to [OF s8]) (use ne in auto)
  have "(K \<union> N) \<inter> K' = {}" "N \<inter> N' = {}" using ds by auto
  note b2 = fine_part [OF r s8c this gr ep i r9]
  note t10 = transfer_gives [OF B stage_ginv [OF b2(2)] r10]
  note s10 = stage_gives [OF b2(2) t10]
  note sl = stage_current [OF s10, of fi]
  note tl = acts_gives [OF acts_flow_end [OF B sc] scope_quiet(7) [OF q] stage_ginv [OF sl(1)] rl]
  have gr: "grow (K \<union> K' \<union> (N \<union> N')) (N \<union> N') (D \<union> D') g g'"
    using stage_grow [OF stage_gives [OF sl(1) tl]] by (simp add: Un_assoc Un_left_commute)
  have "?C G T fl (cur g) (cur g')" if G: "ext (oc_blks g') G" and T: "gc_tgt g' \<subseteq>\<^sub>m T" and fl: "\<forall>q \<in> R \<union> R'. fl q = gc_flow g q" for G T fl
  proof -
    have e10: "ext (oc_blks g10) G" using ext_back [OF givesD(1) [OF tl] G] by simp
    have e9: "ext (oc_blks g9) G" using ext_back [OF givesD(1) [OF t10] e10] .
    have e8: "ext (oc_blks g8) G" using ext_back [OF b2(1) e9] by simp
    have e7: "ext (oc_blks g7) G" using ext_back [OF givesD(1) [OF t8] e8] .
    have e6: "ext (oc_blks g6') G" using ext_back [OF b1(1) e7] g6 by simp
    have e4: "ext (oc_blks g4) G" using ext_back [OF givesD(1) [OF t6] e6] .
    have T10: "gc_tgt g10 \<subseteq>\<^sub>m T" using map_le_trans [OF grow_tgt [OF givesD(1) [OF tl]] T] by simp
    have T9: "gc_tgt g9 \<subseteq>\<^sub>m T" using map_le_trans [OF grow_tgt [OF givesD(1) [OF t10]] T10] .
    have T8: "gc_tgt g8 \<subseteq>\<^sub>m T" using map_le_trans [OF grow_tgt [OF b2(1)]] T9 by simp
    have T7: "gc_tgt g7 \<subseteq>\<^sub>m T" using map_le_trans [OF grow_tgt [OF givesD(1) [OF t8]] T8] .
    have f6: "gc_flow g6 = gc_flow g" using grow_flow [OF stage_grow [OF s6c]] by simp
    have f8: "gc_flow g8 r = gc_flow g r" if "r \<in> R'" for r using growD(4) [OF stage_grow [OF s8c], of r] ds(2) that by auto
    have x: "cur g3 = cur g"
      using cur_new [OF i n(1)] cur_new [OF stage_ginv [OF s1(1)] n(2)] cur_new [OF stage_ginv [OF s2(1)] n(3)] by simp
    have C: "C G T fl (Some (a, 0)) (cur g7)" using b1(3) [OF e7 T7, of fl] f6 fl stage_cur [OF s6, of a] g6 by simp
    have C': "C' G T fl (Some (b, 0)) (cur g9)" using b2(3) [OF e9 T9, of fl] f8 fl stage_cur [OF s8, of b] by simp
    show ?thesis
      using C C' givesD(2) [OF t4 e4] givesD(2) [OF t6 e6] givesD(2) [OF t8 e8] givesD(2) [OF t10 e10] givesD(2) [OF tl G]
        stage_cur [OF s10, of fi] x
      by - (rule exI [of _ "cur g4"], rule exI [of _ a], rule exI [of _ b], rule exI [of _ fi], rule exI [of _ "cur g7"], rule exI [of _ "cur g9"], simp)
  qed
  then show "grow (K \<union> K' \<union> (N \<union> N')) (N \<union> N') (D \<union> D') g g' \<and>
      (\<forall>G T fl. ext (oc_blks g') G \<longrightarrow> gc_tgt g' \<subseteq>\<^sub>m T \<longrightarrow> (\<forall>q \<in> R \<union> R'. fl q = gc_flow g q) \<longrightarrow> ?C G T fl (cur g) (cur g'))"
    using gr by blast
qed

section \<open>Switch\<close>

lemma cur_tgt [simp]: "cur (g\<lparr>gc_tgt := f\<rparr>) = cur g"
  by (cases "oc_current g") (simp_all add: cur_def point_def)

definition case_runs ::
  "('e, 'm, 's, 'v, 'b) machine \<Rightarrow> out_blk list \<Rightarrow> 'v \<Rightarrow> 'b \<Rightarrow> 'b \<Rightarrow> nat \<Rightarrow> nat \<Rightarrow> (int \<Rightarrow> bool) \<Rightarrow> nat \<times> nat \<Rightarrow> 's \<Rightarrow> bool" where
  "case_runs M G v be be' b c test x s \<longleftrightarrow>
     (\<exists>t. mc_mem M t = mc_mem M s \<and>
        (if test (mc_val M be v s) then pruns M G (x, s) ((b, 0), t)
         else pruns M G (x, s) ((c, 0), t) \<and> mc_val M be' v t = mc_val M be v s))"

lemma gen_case_eq_run:
  assumes B: "backend_ok M B" and g: "ginv g" and e: "be_case_eq B v lo g = Inr (c, g1)" "be_branch B c cb ca g1 = Inr g2"
    and G: "ext (oc_blks g2) G" and x: "cur g = Some x"
  shows "case_runs M G v (gc_be g) (gc_be g2) cb ca (\<lambda>i. i = lo) x s"
  using comparesD(1) [OF backend_okD(5) [OF B] g e G x, of s] unfolding case_runs_def by (metis (mono_tags, lifting))

lemma gen_case_range_run:
  assumes B: "backend_ok M B" and g: "ginv g" "be_case_lt B v lo g = Inr (c, g1)" "be_branch B c ca d g1 = Inr g2"
    and i2: "ginv (out_current_blk d g2)" and cd: "cur (out_current_blk d g2) = Some (d, 0)"
    and e: "be_case_gt B v hi (out_current_blk d g2) = Inr (c', g3)" "be_branch B c' ca cb g3 = Inr g4"
    and G: "ext (oc_blks g2) G" "ext (oc_blks g4) G" and x: "cur g = Some x"
  shows "case_runs M G v (gc_be g) (gc_be g4) cb ca (\<lambda>i. lo \<le> i \<and> i \<le> hi) x s"
proof -
  note lt = comparesD [OF backend_okD(6) [OF B] g]
  note gt = comparesD [OF backend_okD(7) [OF B] i2 e]
  obtain t where 1: "pruns M G (x, s) ((if mc_val M (gc_be g) v s < lo then ca else d, 0), t)" "mc_mem M t = mc_mem M s"
    "mc_val M (gc_be g2) v t = mc_val M (gc_be g) v s"
    using lt(1) [OF G(1) x] by blast
  have keep: "mc_val M (gc_be g4) v = mc_val M (gc_be g2) v" using gt(3) lt(2) by simp
  show ?thesis
  proof (cases "mc_val M (gc_be g) v s < lo")
    case True
    then show ?thesis using 1 keep by (auto simp: case_runs_def)
  next
    case False
    then have p1: "pruns M G (x, s) ((d, 0), t)" using 1 by simp
    obtain u where 2: "pruns M G ((d, 0), t) ((if hi < mc_val M (gc_be g2) v t then ca else cb, 0), u)" "mc_mem M u = mc_mem M t"
      "mc_val M (gc_be g4) v u = mc_val M (gc_be g2) v t"
      using gt(1) [OF G(2) cd, of t] by auto
    show ?thesis using False 1 2 pruns_trans [OF p1 2(1)] unfolding case_runs_def by (intro exI [of _ u]) auto
  qed
qed

lemma gen_case_run:
  assumes B: "backend_ok M B" and i: "ginv g" and k: "gc_tgt g (T_case k) = None" and gen: "gen_case B v (k, lo, hi) g = Inr g'"
  shows "\<exists>b c. gc_tgt g' (T_case k) = Some b \<and> cur g' = Some (c, 0) \<and>
    (\<forall>G x s. ext (oc_blks g') G \<longrightarrow> cur g = Some x \<longrightarrow> case_runs M G v (gc_be g) (gc_be g') b c (case_matches lo hi) x s)"
proof -
  note q = quiet_backendD [OF backend_okD(1) [OF B]]
  obtain c g1 cb g2 where n: "new_blk B ''case_next'' g = Inr (c, g1)" "new_blk B ''case'' g1 = Inr (cb, g2)"
    and gn: "bindE (case hi of
                Some hi \<Rightarrow>
                  bindE (new_blk B ''range_true'' (g2\<lparr>gc_tgt := (gc_tgt g2)(T_case k \<mapsto> cb)\<rparr>)) (\<lambda>(test2, g).
                  bindE (be_case_lt B v lo g) (\<lambda>(x, g).
                  bindE (out_ctrl_branch B x c test2 g) (\<lambda>g.
                  bindE (be_case_gt B v hi (out_current_blk test2 g)) (\<lambda>(x, g).
                  out_ctrl_branch B x c cb g))))
              | None \<Rightarrow>
                  bindE (be_case_eq B v lo (g2\<lparr>gc_tgt := (gc_tgt g2)(T_case k \<mapsto> cb)\<rparr>)) (\<lambda>(x, g). out_ctrl_branch B x cb c g)) (\<lambda>g.
       Inr (out_current_blk c g)) = Inr g'"
    using gen by (auto simp: gen_case_def bindE_eq_Inr Let_def)
  let ?g3 = "g2\<lparr>gc_tgt := (gc_tgt g2)(T_case k \<mapsto> cb)\<rparr>"
  note s1 = stage_new [OF stage_start [OF i, of "{}" "{T_case k}" "{}"] n(1)]
  note s2 = stage_new [OF s1(1) n(2)]
  note w1 = new_blk_grow [OF i n(1)] and w2 = new_blk_grow [OF stage_ginv [OF s1(1)] n(2)]
  have ne: "cb \<noteq> c" using s2(2) by auto
  have s3: "stage {} {T_case k} {} g ?g3 {c}"
    using stage_tgt [OF s2(1), of cb "T_case k"] ne w1(5) w2(5) k by simp
  have x3: "cur ?g3 = cur g" "gc_be ?g3 = gc_be g"
    using cur_new [OF i n(1)] cur_new [OF stage_ginv [OF s1(1)] n(2)] w1(7) w2(7) by simp_all
  note i3 = stage_ginv [OF s3]
  show ?thesis
  proof (cases hi)
    case None
    then obtain x g4 g5 where r: "be_case_eq B v lo ?g3 = Inr (x, g4)" "be_branch B x cb c g4 = Inr g5" "g' = out_current_blk c g5"
      using gn by (auto simp: bindE_eq_Inr out_ctrl_branch_def)
    have gr4: "grow {} {} {} ?g3 g4" using quiet_valD [OF q(7) i3 r(1)] .
    have gr: "grow {} {} {} ?g3 g5" using grow_trans0 [OF gr4 q(5) [OF growD(1) [OF gr4] r(2)]] .
    have "cur g' = Some (c, 0)" using stage_cur [OF stage_step [OF s3 gr], of c] r(3) by simp
    moreover have "gc_tgt g' (T_case k) = Some cb" using growD(3) [OF gr, of "T_case k" cb] r(3) by simp
    moreover have "case_matches lo hi = (\<lambda>i. i = lo)" by (simp add: case_matches_def None fun_eq_iff)
    ultimately show ?thesis
      using gen_case_eq_run [OF B i3 r(1,2)] x3 r(3) by (intro exI [of _ cb] exI [of _ c]) simp
  next
    case (Some hi')
    then obtain d g4 x g5 g6 y g7 g8 where r: "new_blk B ''range_true'' ?g3 = Inr (d, g4)" "be_case_lt B v lo g4 = Inr (x, g5)"
      "be_branch B x c d g5 = Inr g6" "be_case_gt B v hi' (out_current_blk d g6) = Inr (y, g7)" "be_branch B y c cb g7 = Inr g8"
      "g' = out_current_blk c g8"
      using gn by (auto simp: bindE_eq_Inr out_ctrl_branch_def)
    note s4 = stage_new [OF s3 r(1)]
    note s5 = stage_quiet_val [OF s4(1) q(8) r(2)]
    have gr56: "grow {} {} {} g5 g6" using q(5) [OF stage_ginv [OF s5] r(3)] .
    have s6: "stage {} {T_case k} {} g g6 {d, c}" using stage_step [OF s5 gr56] by simp
    have s6d: "stage {} {T_case k} {} g (out_current_blk d g6) {c}" by (rule stage_to [OF s6]) (use s4(2) in auto)
    have gr67: "grow {} {} {} (out_current_blk d g6) g7" using quiet_valD [OF q(9) stage_ginv [OF s6d] r(4)] .
    have gr68: "grow {} {} {} (out_current_blk d g6) g8" using grow_trans0 [OF gr67 q(5) [OF growD(1) [OF gr67] r(5)]] .
    have gr46: "grow {} {} {} g4 g6" using grow_trans0 [OF quiet_valD [OF q(8) stage_ginv [OF s4(1)] r(2)] gr56] .
    note w4 = new_blk_grow [OF i3 r(1)]
    have "gc_tgt g4 (T_case k) = Some cb" using w4(5) by simp
    then have "gc_tgt g6 (T_case k) = Some cb" using growD(3) [OF gr46] by simp
    then have tg: "gc_tgt g' (T_case k) = Some cb" using growD(3) [OF gr68, of "T_case k" cb] r(6) by simp
    have cu: "cur g' = Some (c, 0)" using stage_cur [OF stage_step [OF s6d gr68], of c] r(6) by simp
    have x4: "cur g4 = cur g" "gc_be g4 = gc_be g" using cur_new [OF i3 r(1)] x3 w4(7) by simp_all
    have m: "case_matches lo hi = (\<lambda>i. lo \<le> i \<and> i \<le> hi')" by (simp add: case_matches_def Some fun_eq_iff)
    have "case_runs M G v (gc_be g) (gc_be g') cb c (case_matches lo hi) x s" if G: "ext (oc_blks g') G" and x: "cur g = Some x" for G x s
    proof -
      have G8: "ext (oc_blks g8) G" using G r(6) by simp
      have G6: "ext (oc_blks g6) G" using ext_back [OF gr68 G8] by simp
      show ?thesis
        using gen_case_range_run [OF B stage_ginv [OF s4(1)] r(2,3) stage_ginv [OF s6d] stage_cur [OF s6] r(4,5) G6 G8] x x4 m r(6) by simp
    qed
    then show ?thesis using tg cu by blast
  qed
qed

lemma gen_cases_run:
  assumes B: "backend_ok M B"
  shows "ginv g \<Longrightarrow> distinct (map fst cs) \<Longrightarrow> unbound (T_case ` fst ` set cs) g \<Longrightarrow> gen_cases B v cs g = Inr g' \<Longrightarrow>
    (\<forall>k \<in> fst ` set cs. gc_tgt g' (T_case k) \<noteq> None) \<and>
    (\<forall>G x s. ext (oc_blks g') G \<longrightarrow> cur g = Some x \<longrightarrow>
       (\<exists>t. mc_mem M t = mc_mem M s \<and>
          (case pick cs (mc_val M (gc_be g) v s) of
             Some k \<Rightarrow> pruns M G (x, s) ((the (gc_tgt g' (T_case k)), 0), t)
           | None \<Rightarrow> \<exists>y. cur g' = Some y \<and> pruns M G (x, s) (y, t))))"
proof (induction cs arbitrary: g)
  case Nil
  then show ?case by (auto intro: exI [of _ "_ :: 'c"])
next
  case (Cons cse cs)
  obtain k lo hi where c: "cse = (k, lo, hi)" by (cases cse)
  from Cons.prems obtain g1 where 1: "gen_case B v (k, lo, hi) g = Inr g1" "gen_cases B v cs g1 = Inr g'"
    by (auto simp: c bindE_eq_Inr)
  note q = backend_okD(1) [OF B]
  have k: "gc_tgt g (T_case k) = None" using Cons.prems by (auto simp: c unbound_def)
  have gr: "grow {} {T_case k} {} g g1"
    using gen_case_stage [OF q stage_start [OF Cons.prems(1)] k _ 1(1), of "{T_case k}"] by (auto simp: stage_def)
  have u: "unbound (T_case ` fst ` set cs) g1"
    using Cons.prems(2,3) by (intro unbound_grow [OF gr]) (auto simp: c unbound_def)
  have "stage {} (T_case ` fst ` set cs) {} g1 g' {}"
    using gen_cases_stage [OF q stage_start [OF growD(1) [OF gr]] _ u _ 1(2)] Cons.prems(2) by auto
  note gr2 = stage_grow [OF this]
  obtain b cn where r: "gc_tgt g1 (T_case k) = Some b" "cur g1 = Some (cn, 0)"
    "\<And>G x s. ext (oc_blks g1) G \<Longrightarrow> cur g = Some x \<Longrightarrow> case_runs M G v (gc_be g) (gc_be g1) b cn (case_matches lo hi) x s"
    using gen_case_run [OF B Cons.prems(1) k 1(1)] by blast
  have b: "gc_tgt g' (T_case k) = Some b" using growD(3) [OF gr2 r(1)] .
  have IH: "\<forall>k \<in> fst ` set cs. gc_tgt g' (T_case k) \<noteq> None"
    "\<And>G x s. ext (oc_blks g') G \<Longrightarrow> cur g1 = Some x \<Longrightarrow>
       (\<exists>t. mc_mem M t = mc_mem M s \<and>
          (case pick cs (mc_val M (gc_be g1) v s) of
             Some k \<Rightarrow> pruns M G (x, s) ((the (gc_tgt g' (T_case k)), 0), t)
           | None \<Rightarrow> \<exists>y. cur g' = Some y \<and> pruns M G (x, s) (y, t)))"
    using Cons.IH [OF growD(1) [OF gr] _ u 1(2)] Cons.prems(2) by auto
  have "\<exists>t. mc_mem M t = mc_mem M s \<and>
          (case pick (cse # cs) (mc_val M (gc_be g) v s) of
             Some k \<Rightarrow> pruns M G (x, s) ((the (gc_tgt g' (T_case k)), 0), t)
           | None \<Rightarrow> \<exists>y. cur g' = Some y \<and> pruns M G (x, s) (y, t))"
    if G: "ext (oc_blks g') G" and x: "cur g = Some x" for G x s
  proof -
    obtain t where t: "mc_mem M t = mc_mem M s"
        "if case_matches lo hi (mc_val M (gc_be g) v s) then pruns M G (x, s) ((b, 0), t)
         else pruns M G (x, s) ((cn, 0), t) \<and> mc_val M (gc_be g1) v t = mc_val M (gc_be g) v s"
      using r(3) [OF ext_back [OF gr2 G] x, of s] unfolding case_runs_def by blast
    show ?thesis
    proof (cases "case_matches lo hi (mc_val M (gc_be g) v s)")
      case True
      then show ?thesis using t b by (intro exI [of _ t]) (simp add: c)
    next
      case False
      then have t': "pruns M G (x, s) ((cn, 0), t)" "mc_val M (gc_be g1) v t = mc_val M (gc_be g) v s" using t by simp_all
      obtain u where u: "mc_mem M u = mc_mem M t"
        "case pick cs (mc_val M (gc_be g) v s) of
             Some k \<Rightarrow> pruns M G ((cn, 0), t) ((the (gc_tgt g' (T_case k)), 0), u)
           | None \<Rightarrow> \<exists>y. cur g' = Some y \<and> pruns M G ((cn, 0), t) (y, u)"
        using IH(2) [OF G r(2), of t] t'(2) by auto
      then show ?thesis
        using False t(1) pruns_trans [OF t'(1)] by (intro exI [of _ u]) (auto simp: c split: option.splits)
    qed
  qed
  then show ?case using IH(1) b by (auto simp: c)
qed

lemma gen_default_stage:
  assumes st: "stage K N D g0 g P" and k: "\<forall>k. dflt = Some k \<longrightarrow> gc_tgt g (T_case k) = None \<and> T_case k \<in> N"
    and run: "gen_default B dflt fin g = Inr (other, g')"
  shows "stage K N D g0 g' P" "cur g' = cur g" "gc_flow g' = gc_flow g" "ext (oc_blks g) (oc_blks g')" "gc_tgt g \<subseteq>\<^sub>m gc_tgt g'"
    "other = (case dflt of None \<Rightarrow> fin | Some k \<Rightarrow> the (gc_tgt g' (T_case k)))" "dflt = Some k \<Longrightarrow> gc_tgt g' (T_case k) \<noteq> None"
proof -
  have "stage K N D g0 g' P \<and> cur g' = cur g \<and> gc_flow g' = gc_flow g \<and> ext (oc_blks g) (oc_blks g') \<and> gc_tgt g \<subseteq>\<^sub>m gc_tgt g' \<and>
    other = (case dflt of None \<Rightarrow> fin | Some k \<Rightarrow> the (gc_tgt g' (T_case k))) \<and> (dflt = Some k \<longrightarrow> gc_tgt g' (T_case k) \<noteq> None)"
  proof (cases dflt)
    case None
    then show ?thesis using st run by (simp add: gen_default_def)
  next
    case (Some d)
    then obtain g1 where 1: "new_blk B ''default'' g = Inr (other, g1)" "g' = g1\<lparr>gc_tgt := (gc_tgt g1)(T_case d \<mapsto> other)\<rparr>"
      using run by (auto simp: gen_default_def bindE_eq_Inr)
    note n = new_blk_grow [OF stage_ginv [OF st] 1(1)] and s1 = stage_new [OF st 1(1)]
    have "stage K N D g0 g' P" using stage_tgt [OF s1(1), of other "T_case d"] k Some n(5) s1(2) 1(2) by simp
    then show ?thesis
      using 1(2) n(5,6) cur_new [OF stage_ginv [OF st] 1(1)] growD(2) [OF n(1)] k Some by (auto simp: map_le_def)
  qed
  then show "stage K N D g0 g' P" "cur g' = cur g" "gc_flow g' = gc_flow g" "ext (oc_blks g) (oc_blks g')" "gc_tgt g \<subseteq>\<^sub>m gc_tgt g'"
    "other = (case dflt of None \<Rightarrow> fin | Some k \<Rightarrow> the (gc_tgt g' (T_case k)))" "dflt = Some k \<Longrightarrow> gc_tgt g' (T_case k) \<noteq> None" by blast+
qed

lemma set_case_keys: "set (case_keys cs d) = fst ` set cs \<union> set_option d"
  by (auto simp: case_keys_def split: option.split)

text \<open>The head of a switch: from the evaluation of its expression to the block of the case that is selected.\<close>

lemma switch_head_run:
  assumes B: "backend_ok M B" and i: "ginv g" and e: "be_expr B e g = Inr (v, g1)" and cs: "gen_cases B v cs g1 = Inr g2"
    and ds: "distinct (map fst cs)" "unbound (T_case ` fst ` set cs) g1" and co: "be_consume B v g2 = Inr g3"
    and i2: "ginv g2" and c4: "cur g4 = cur g3" and i4: "ginv g4" and e34: "ext (oc_blks g3) (oc_blks g4)" and tg: "gc_tgt g2 \<subseteq>\<^sub>m T"
    and t: "transfer B other g4 = Inr g5" and G: "ext (oc_blks g5) G"
    and other: "other = (case d of None \<Rightarrow> fin | Some k \<Rightarrow> the (T (T_case k)))"
    and G1: "ext (oc_blks g1) G" "ext (oc_blks g2) G"
  shows "reaches M G (cs_eval M e) (\<lambda>v. case selected cs d v of None \<Rightarrow> fin | Some k \<Rightarrow> the (T (T_case k))) (cur g)"
  unfolding reaches_def
proof (intro allI impI)
  fix x s r m assume x: "cur g = Some x" "cs_eval M e (mc_mem M s) = Some (r, m)"
  note q = quiet_backendD [OF backend_okD(1) [OF B]]
  have i1: "ginv g1" using growD(1) [OF quiet_valD [OF q(1) i e]] .
  obtain y u where 1: "cur g1 = Some y" "pruns M G (x, s) (y, u)" "mc_mem M u = m" "mc_val M (gc_be g1) v u = r"
    using expr_okD [OF backend_okD(2) [OF B] i e G1(1) x] by blast
  note cr = gen_cases_run [OF B i1 ds cs]
  obtain w where 2: "mc_mem M w = m" "case pick cs r of
             Some k \<Rightarrow> pruns M G (y, u) ((the (gc_tgt g2 (T_case k)), 0), w)
           | None \<Rightarrow> \<exists>z. cur g2 = Some z \<and> pruns M G (y, u) (z, w)"
    using cr [THEN conjunct2, rule_format, OF G1(2) 1(1), of u] 1(3,4) by auto
  show "\<exists>t. pruns M G (x, s) ((case selected cs d r of None \<Rightarrow> fin | Some k \<Rightarrow> the (T (T_case k)), 0), t) \<and> mc_mem M t = m"
  proof (cases "pick cs r")
    case (Some k)
    have "k \<in> fst ` set cs" using Some by (induction cs r rule: pick.induct) (auto split: if_splits)
    then obtain b where "gc_tgt g2 (T_case k) = Some b" using cr by auto
    then have "T (T_case k) = gc_tgt g2 (T_case k)" using tg by (auto simp: map_le_def dom_def)
    then show ?thesis using 2 Some pruns_trans [OF 1(2)] by (intro exI [of _ w]) (simp add: selected_def)
  next
    case None
    then obtain z where z: "cur g2 = Some z" "pruns M G (y, u) (z, w)" using 2 by auto
    have e4: "ext (oc_blks g4) G" using ext_back [OF transfer_grow(1) [OF backend_okD(1) [OF B] i4 t] G] .
    obtain z' w' where 3: "cur g3 = Some z'" "pruns M G (z, w) (z', w')" "mc_mem M w' = m"
      using acts_moves [OF backend_okD(8) [OF B] i2 co ext_trans [OF e34 e4]] z(1) 2(1) unfolding moves_def by blast
    obtain w2 where 4: "pruns M G (z', w') ((other, 0), w2)" "mc_mem M w2 = m"
      using transfer_run [OF B i4 t G] 3 c4 by metis
    have "pruns M G (x, s) ((other, 0), w2)"
      using pruns_trans [OF pruns_trans [OF pruns_trans [OF 1(2) z(2)] 3(2)] 4(1)] .
    moreover have "(case selected cs d r of None \<Rightarrow> fin | Some k \<Rightarrow> the (T (T_case k))) = other"
      by (simp add: selected_def None other)
    ultimately show ?thesis using 4(2) by auto
  qed
qed

lemma fine_switch:
  assumes B: "backend_ok M B" and sc: "scope_ok h stab" "flow = None \<or> flow = Some stab" and body: "fine ep K N D R lhs C"
    and ds: "distinct (case_keys cs d)" "T_case ` set (case_keys cs d) \<inter> N = {}"
  shows "fine ep K (T_case ` set (case_keys cs d) \<union> N) (insert p D) (R - {p}) (gen_stmt_switch B h p flow stab e cs d lhs) (\<lambda>G T fl x y.
     \<exists>fin z b w. moves M G (cs_decls M stab) x z \<and> (\<forall>k \<in> set (case_keys cs d). T (T_case k) \<noteq> None) \<and>
        reaches M G (cs_eval M e) (\<lambda>v. case selected cs d v of None \<Rightarrow> fin | Some k \<Rightarrow> the (T (T_case k))) z \<and>
        C G T (fl(p := (None, Some fin))) (Some (b, 0)) w \<and> jumps M G (\<lambda>m. m) fin w \<and>
        moves M G (\<lambda>m. Some (cs_dtors M stab m)) (Some (fin, 0)) y)" (is "fine _ _ (?S \<union> _) _ _ _ ?C")
proof (rule fineI)
  show "?S \<union> N \<subseteq> range T_case" using body by (auto simp: fine_def)
next
  fix g g' assume i: "ginv g" and g0: "unbound (?S \<union> N) g" and g1: "tfresh K g" "oc_epilogue g = ep"
    and run: "gen_stmt_switch B h p flow stab e cs d lhs g = Inr g'"
  have g: "unbound N g" "tfresh K g" "oc_epilogue g = ep" and gS: "unbound ?S g" using g0 g1 by (auto simp: unbound_def)
  note q = backend_okD(1) [OF B]
  obtain fin g1 g2 v g3 g4 g5 other g6 g7 b g8 g9 g10 where
    n1: "new_blk B ''switch_fin'' g = Inr (fin, g1)" and r2: "flow_gen B flow stab (stmt_init_blks p None (Some fin) g1) = Inr g2" and
    r3: "be_expr B e g2 = Inr (v, g3)" and r4: "gen_cases B v cs g3 = Inr g4" and r5: "be_consume B v g4 = Inr g5" and
    r6: "gen_default B d fin g5 = Inr (other, g6)" and r7: "transfer B other g6 = Inr g7" and n8: "new_blk B ''switch_body'' g7 = Inr (b, g8)" and
    r9: "lhs (out_current_blk b g8) = Inr g9" and r10: "transfer B fin g9 = Inr g10" and rl: "flow_end B h flow stab (out_current_blk fin g10) = Inr g'"
    using run by (auto simp: gen_stmt_switch_def bindE_eq_Inr)
  note s1 = stage_new [OF stage_start [OF i, of "{}" "{}" "{p}"] n1]
  note si = stage_init_blks [OF s1(1), of p None "Some fin", simplified]
  note t2 = acts_gives [OF acts_flow_gen [OF B sc(2)] scope_quiet(6) [OF q] stage_ginv [OF si] r2]
  note s2 = stage_gives [OF si t2]
  note s3 = stage_quiet_val [OF s2 quiet_backendD(1) [OF q] r3]
  have u3: "unbound ?S g3" using unbound_grow [OF stage_grow [OF s3] gS] by auto
  have dk: "distinct (map fst cs)" using ds(1) by (simp add: case_keys_def)
  have uc: "unbound (T_case ` fst ` set cs) g3" using u3 by (auto simp: unbound_def set_case_keys)
  have s3': "stage {} ?S {p} g g3 {fin}" using stage_weaken [OF s3, of "{}" ?S "{p}" "{fin}"] by simp
  have s4: "stage {} ?S {p} g g4 {fin}" using gen_cases_stage [OF q s3' dk uc _ r4] by (auto simp: set_case_keys)
  have gr34: "grow {} (T_case ` fst ` set cs) {} g3 g4"
    using stage_grow [OF gen_cases_stage [OF q stage_start [OF stage_ginv [OF s3]] dk uc _ r4]] by auto
  note s5 = stage_quiet [OF s4 quiet_backendD(2) [OF q] r5]
  have gr45: "grow {} {} {} g4 g5" using quietD [OF quiet_backendD(2) [OF q] stage_ginv [OF s4] r5] .
  have gr35: "grow {} (T_case ` fst ` set cs) {} g3 g5" using grow_trans [OF gr34 gr45] by auto
  have dS: "\<forall>k. d = Some k \<longrightarrow> gc_tgt g5 (T_case k) = None \<and> T_case k \<in> ?S"
  proof (intro allI impI)
    fix k assume that: "d = Some k"
    have "k \<notin> fst ` set cs" using ds(1) that by (auto simp: case_keys_def)
    then have "unbound {T_case k} g5" using u3 that by (intro unbound_grow [OF gr35]) (auto simp: unbound_def set_case_keys)
    then show "gc_tgt g5 (T_case k) = None \<and> T_case k \<in> ?S" using that by (simp add: unbound_def set_case_keys)
  qed
  note s6 = gen_default_stage [OF s5 dS r6]
  note t7 = transfer_gives [OF B stage_ginv [OF s6(1)] r7]
  note s7 = stage_gives [OF s6(1) t7]
  note s8 = stage_new [OF s7 n8]
  note w8 = new_blk_grow [OF stage_ginv [OF s7] n8]
  have s8c: "stage {} ?S {p} g (out_current_blk b g8) {fin}" by (rule stage_to [OF s8(1)]) (use s8(2) in auto)
  note bd = fine_part [OF body s8c _ ds(2) g i r9, simplified]
  note t10 = transfer_gives [OF B stage_ginv [OF bd(2)] r10]
  note s10 = stage_gives [OF bd(2) t10]
  note sl = stage_current [OF s10, of fin]
  note tl = acts_gives [OF acts_flow_end [OF B sc] scope_quiet(7) [OF q] stage_ginv [OF sl(1)] rl]
  have gr: "grow (K \<union> (?S \<union> N)) (?S \<union> N) (insert p D) g g'"
    using grow_weaken [OF stage_grow [OF stage_gives [OF sl(1) tl]], of "K \<union> (?S \<union> N)" "?S \<union> N" "insert p D"] by auto
  have "?C G T fl (cur g) (cur g')" if G: "ext (oc_blks g') G" and T: "gc_tgt g' \<subseteq>\<^sub>m T" and fl: "\<forall>q \<in> R - {p}. fl q = gc_flow g q" for G T fl
  proof -
    have e10: "ext (oc_blks g10) G" using ext_back [OF givesD(1) [OF tl] G] by simp
    have e9: "ext (oc_blks g9) G" using ext_back [OF givesD(1) [OF t10] e10] .
    have e8: "ext (oc_blks g8) G" using ext_back [OF bd(1) e9] by simp
    have e7: "ext (oc_blks g7) G" using ext_back [OF w8(1) e8] .
    have e5: "ext (oc_blks g5) G" using ext_trans [OF s6(4) ext_back [OF givesD(1) [OF t7] e7]] .
    have e4: "ext (oc_blks g4) G" using ext_back [OF gr45 e5] .
    have e3: "ext (oc_blks g3) G" using ext_back [OF gr34 e4] .
    have e2: "ext (oc_blks g2) G" using ext_back [OF quiet_valD [OF quiet_backendD(1) [OF q] stage_ginv [OF s2] r3] e3] .
    have T9: "gc_tgt g9 \<subseteq>\<^sub>m T" using map_le_trans [OF map_le_trans [OF grow_tgt [OF givesD(1) [OF t10]]] T] grow_tgt [OF givesD(1) [OF tl]] by simp
    have T8: "gc_tgt g8 \<subseteq>\<^sub>m T" using map_le_trans [OF grow_tgt [OF bd(1)]] T9 by simp
    have T6: "gc_tgt g6 \<subseteq>\<^sub>m T" using map_le_trans [OF grow_tgt [OF grow_trans0 [OF givesD(1) [OF t7] w8(1)]] T8] .
    have T5: "gc_tgt g5 \<subseteq>\<^sub>m T" using map_le_trans [OF s6(5) T6] .
    have T4: "gc_tgt g4 \<subseteq>\<^sub>m T" using map_le_trans [OF grow_tgt [OF gr45] T5] .
    have kd: "T (T_case k) = gc_tgt g6 (T_case k)" if "d = Some k" for k
      using T6 s6(7) [OF that] by (auto simp: map_le_def dom_def)
    have other: "other = (case d of None \<Rightarrow> fin | Some k \<Rightarrow> the (T (T_case k)))" using s6(6) kd by (simp split: option.splits)
    have hd: "reaches M G (cs_eval M e) (\<lambda>v. case selected cs d v of None \<Rightarrow> fin | Some k \<Rightarrow> the (T (T_case k))) (cur g2)"
      using switch_head_run [OF B stage_ginv [OF s2] r3 r4 dk uc r5 stage_ginv [OF s4] s6(2) stage_ginv [OF s6(1)] s6(4) T4 r7 e7 other e3 e4] .
    have ks: "T (T_case k) \<noteq> None" if "k \<in> set (case_keys cs d)" for k
    proof (cases "k \<in> fst ` set cs")
      case True
      then have "gc_tgt g4 (T_case k) \<noteq> None" using gen_cases_run [OF B stage_ginv [OF s3] dk uc r4] by blast
      then show ?thesis using T4 by (auto simp: map_le_def dom_def)
    next
      case False
      then have "d = Some k" using that by (auto simp: set_case_keys)
      then show ?thesis using kd [of k] s6(7) [of k] by simp
    qed
    have f: "gc_flow g8 p = (None, Some fin)"
      using grow_flow [OF givesD(1) [OF t2]] grow_flow [OF quiet_valD [OF quiet_backendD(1) [OF q] stage_ginv [OF s2] r3]] grow_flow [OF gr35]
        s6(3) grow_flow [OF givesD(1) [OF t7]] w8(6) by simp
    have fq: "gc_flow g8 r = gc_flow g r" if "r \<noteq> p" for r
      using growD(4) [OF stage_grow [OF s8c], of r] that by simp
    have C: "C G T (fl(p := (None, Some fin))) (Some (b, 0)) (cur g9)"
      using bd(3) [OF e9 T9, of "fl(p := (None, Some fin))"] f fq fl stage_cur [OF s8(1), of b] by simp
    show ?thesis
      using C hd ks givesD(2) [OF t2 e2] givesD(2) [OF t10 e10] givesD(2) [OF tl G] stage_cur [OF s10, of fin] cur_new [OF i n1]
      by - (rule exI [of _ fin], rule exI [of _ "cur g2"], rule exI [of _ b], rule exI [of _ "cur g9"], simp)
  qed
  then show "grow (K \<union> (?S \<union> N)) (?S \<union> N) (insert p D) g g' \<and>
      (\<forall>G T fl. ext (oc_blks g') G \<longrightarrow> gc_tgt g' \<subseteq>\<^sub>m T \<longrightarrow> (\<forall>q \<in> R - {p}. fl q = gc_flow g q) \<longrightarrow> ?C G T fl (cur g) (cur g'))"
    using gr by blast
qed

section \<open>Jumps and labels\<close>

lemma moves_to_jumps: "moves M G (\<lambda>m. Some (f m)) z z' \<Longrightarrow> jumps M G (\<lambda>m. m) b z' \<Longrightarrow> jumps M G f b z"
  using moves_jumps [of M G "\<lambda>m. Some (f m)" z z' b] by simp

lemma fine_leave_jump:
  assumes B: "backend_ok M B" and ls: "scopes_left h s_from (Some s_to) = Inr ls"
    and i: "ginv g" and r: "gen_scope_leave B h s_from (Some s_to) g = Inr g1" "transfer B b g1 = Inr g2"
  shows "gives g g2 (\<lambda>G. jumps M G (fold (cs_dtors M) ls) b (cur g))"
proof -
  note t1 = acts_gives [OF acts_leave [OF B ls] scope_quiet(4) [OF backend_okD(1) [OF B]] i r(1)]
  note t2 = transfer_gives [OF B growD(1) [OF givesD(1) [OF t1]] r(2)]
  have "jumps M G (fold (cs_dtors M) ls) b (cur g)" if "ext (oc_blks g2) G" for G
    using moves_to_jumps [OF givesD(2) [OF t1 ext_back [OF givesD(1) [OF t2] that]] givesD(2) [OF t2 that]] .
  then show ?thesis using grow_trans0 [OF givesD(1) [OF t1] givesD(1) [OF t2]] by (simp add: gives_def)
qed

lemma fine_break:
  assumes B: "backend_ok M B" and ls: "scopes_left h s_from (Some s_to) = Inr ls"
  shows "fine ep {} {} {} {p} (gen_stmt_break B h p s_from s_to) (\<lambda>G T fl x y.
     \<exists>b ls. snd (fl p) = Some b \<and> scopes_left h s_from (Some s_to) = Inr ls \<and> jumps M G (fold (cs_dtors M) ls) b x)"
proof (rule fineI)
  fix g g' assume i: "ginv g" and run: "gen_stmt_break B h p s_from s_to g = Inr g'"
  obtain g1 b where r: "gen_scope_leave B h s_from (Some s_to) g = Inr g1" "snd (gc_flow g1 p) = Some b" "transfer B b g1 = Inr g'"
    using run by (auto simp: gen_stmt_break_def jump_to_def bindE_eq_Inr split: option.splits)
  have "gc_flow g1 = gc_flow g" using grow_flow [OF quietD [OF scope_quiet(4) [OF backend_okD(1) [OF B]] i r(1)]] .
  then show "grow ({} \<union> {}) {} {} g g' \<and> (\<forall>G T fl. ext (oc_blks g') G \<longrightarrow> gc_tgt g' \<subseteq>\<^sub>m T \<longrightarrow> (\<forall>q \<in> {p}. fl q = gc_flow g q) \<longrightarrow>
     (\<exists>b ls. snd (fl p) = Some b \<and> scopes_left h s_from (Some s_to) = Inr ls \<and> jumps M G (fold (cs_dtors M) ls) b (cur g)))"
    using fine_leave_jump [OF B ls i r(1,3)] r(2) ls by (simp add: gives_def)
qed simp

lemma fine_continue:
  assumes B: "backend_ok M B" and ls: "scopes_left h s_from (Some s_to) = Inr ls"
  shows "fine ep {} {} {} {p} (gen_stmt_continue B h p s_from s_to) (\<lambda>G T fl x y.
     \<exists>b ls. fst (fl p) = Some b \<and> scopes_left h s_from (Some s_to) = Inr ls \<and> jumps M G (fold (cs_dtors M) ls) b x)"
proof (rule fineI)
  fix g g' assume i: "ginv g" and run: "gen_stmt_continue B h p s_from s_to g = Inr g'"
  obtain g1 b where r: "gen_scope_leave B h s_from (Some s_to) g = Inr g1" "fst (gc_flow g1 p) = Some b" "transfer B b g1 = Inr g'"
    using run by (auto simp: gen_stmt_continue_def jump_to_def bindE_eq_Inr split: option.splits)
  have "gc_flow g1 = gc_flow g" using grow_flow [OF quietD [OF scope_quiet(4) [OF backend_okD(1) [OF B]] i r(1)]] .
  then show "grow ({} \<union> {}) {} {} g g' \<and> (\<forall>G T fl. ext (oc_blks g') G \<longrightarrow> gc_tgt g' \<subseteq>\<^sub>m T \<longrightarrow> (\<forall>q \<in> {p}. fl q = gc_flow g q) \<longrightarrow>
     (\<exists>b ls. fst (fl p) = Some b \<and> scopes_left h s_from (Some s_to) = Inr ls \<and> jumps M G (fold (cs_dtors M) ls) b (cur g)))"
    using fine_leave_jump [OF B ls i r(1,3)] r(2) ls by (simp add: gives_def)
qed simp

lemma label_getblk_grow:
  assumes i: "ginv g" and r: "label_getblk B l g = Inr (b, g')"
  shows "grow {} {} {} g g'" "gc_tgt g' (T_label l) = Some b" "cur g' = cur g" "length (oc_blks g) \<le> b \<or> gc_tgt g (T_label l) = Some b"
    "tfresh {T_label l} g \<Longrightarrow> fresh b g'"
proof -
  have "grow {} {} {} g g' \<and> gc_tgt g' (T_label l) = Some b \<and> cur g' = cur g \<and> (length (oc_blks g) \<le> b \<or> gc_tgt g (T_label l) = Some b) \<and>
    (tfresh {T_label l} g \<longrightarrow> fresh b g')"
  proof (cases "gc_tgt g (T_label l)")
    case None
    then obtain g1 where 1: "new_blk B ''label'' g = Inr (b, g1)" "g' = g1\<lparr>gc_tgt := (gc_tgt g1)(T_label l \<mapsto> b)\<rparr>"
      using r by (auto simp: label_getblk_def bindE_eq_Inr)
    note n = new_blk_grow [OF i 1(1)] and s1 = stage_new [OF stage_start [OF i, of "{}" "{}" "{}"] 1(1)]
    have "stage {} {} {} g g' {}" using stage_tgt [OF s1(1), of b "T_label l"] n(5) None 1(2) by simp
    then show ?thesis using n(2,3) cur_new [OF i 1(1)] 1(2) by (auto simp: stage_def priv_def fresh_def)
  next
    case (Some c)
    then show ?thesis using r i by (auto simp: label_getblk_def grow_refl tfresh_def)
  qed
  then show "grow {} {} {} g g'" "gc_tgt g' (T_label l) = Some b" "cur g' = cur g" "length (oc_blks g) \<le> b \<or> gc_tgt g (T_label l) = Some b"
    "tfresh {T_label l} g \<Longrightarrow> fresh b g'" by blast+
qed

lemma map_le_Some: "f \<subseteq>\<^sub>m T \<Longrightarrow> f k = Some b \<Longrightarrow> T k = Some b"
  by (force simp: map_le_def)

lemma fine_goto:
  assumes B: "backend_ok M B" and ls: "scopes_left h s_from (Some s_to) = Inr ls"
  shows "fine ep {} {} {} {} (gen_stmt_goto B h l s_from s_to) (\<lambda>G T fl x y.
     \<exists>b ls. T (T_label l) = Some b \<and> scopes_left h s_from (Some s_to) = Inr ls \<and> jumps M G (fold (cs_dtors M) ls) b x)"
proof (rule fineI)
  fix g g' assume i: "ginv g" and run: "gen_stmt_goto B h l s_from s_to g = Inr g'"
  obtain g1 b g2 where r: "gen_scope_leave B h s_from (Some s_to) g = Inr g1" "label_getblk B l g1 = Inr (b, g2)" "transfer B b g2 = Inr g'"
    using run by (auto simp: gen_stmt_goto_def bindE_eq_Inr)
  note t1 = acts_gives [OF acts_leave [OF B ls] scope_quiet(4) [OF backend_okD(1) [OF B]] i r(1)]
  note n = label_getblk_grow [OF growD(1) [OF givesD(1) [OF t1]] r(2)]
  note t2 = transfer_gives [OF B growD(1) [OF n(1)] r(3)]
  have gr: "grow {} {} {} g g'" using grow_trans0 [OF givesD(1) [OF t1] grow_trans0 [OF n(1) givesD(1) [OF t2]]] .
  have "T (T_label l) = Some b \<and> jumps M G (fold (cs_dtors M) ls) b (cur g)" if G: "ext (oc_blks g') G" and T: "gc_tgt g' \<subseteq>\<^sub>m T" for G T
  proof -
    have "ext (oc_blks g1) G" using ext_back [OF grow_trans0 [OF n(1) givesD(1) [OF t2]] G] .
    then have "jumps M G (fold (cs_dtors M) ls) b (cur g)"
      using moves_to_jumps [OF givesD(2) [OF t1], of G b] givesD(2) [OF t2 G] n(3) by simp
    then show ?thesis using map_le_Some [OF T growD(3) [OF givesD(1) [OF t2] n(2)]] by simp
  qed
  then show "grow ({} \<union> {}) {} {} g g' \<and> (\<forall>G T fl. ext (oc_blks g') G \<longrightarrow> gc_tgt g' \<subseteq>\<^sub>m T \<longrightarrow> (\<forall>q \<in> {}. fl q = gc_flow g q) \<longrightarrow>
     (\<exists>b ls. T (T_label l) = Some b \<and> scopes_left h s_from (Some s_to) = Inr ls \<and> jumps M G (fold (cs_dtors M) ls) b (cur g)))"
    using gr ls by simp blast
qed simp

lemma fine_goto_expr:
  assumes B: "backend_ok M B" shows "fine ep {} {} {} {} (gen_stmt_goto_expr B e) (\<lambda>G T fl x y. True)"
proof (rule fineI)
  fix g g' assume i: "ginv g" and run: "gen_stmt_goto_expr B e g = Inr g'"
  note q = quiet_backendD [OF backend_okD(1) [OF B]]
  obtain v g1 g2 g3 g4 where r: "be_expr B e g = Inr (v, g1)" "be_spill B g1 = Inr g2" "be_jmp_expr B v g2 = Inr g3" and
    4: "(case oc_current g3 of None \<Rightarrow> Inr g3 | Some b \<Rightarrow> upd_blk b (\<lambda>k. k\<lparr>bk_type := BLK_NEXT_EXPR\<rparr>) g3) = Inr g4" "g' = g4\<lparr>oc_current := None\<rparr>"
    using run by (auto simp: gen_stmt_goto_expr_def out_ctrl_transfer_exp_def bindE_eq_Inr)
  note a1 = quiet_valD [OF q(1) i r(1)]
  note a2 = grow_trans0 [OF a1 quietD [OF q(3) growD(1) [OF a1] r(2)]]
  note a3 = grow_trans0 [OF a2 quietD [OF q(14) growD(1) [OF a2] r(3)]]
  have "grow {} {} {} g3 g'"
  proof (cases "oc_current g3")
    case None
    then have "g' = g3" using 4 by simp
    then show ?thesis using growD(1) [OF a3] by (simp add: grow_refl)
  next
    case (Some b)
    then show ?thesis using end_blk_grow [OF growD(1) [OF a3] Some] 4 by simp
  qed
  then show "grow ({} \<union> {}) {} {} g g' \<and> (\<forall>G T fl. ext (oc_blks g') G \<longrightarrow> gc_tgt g' \<subseteq>\<^sub>m T \<longrightarrow> (\<forall>q \<in> {}. fl q = gc_flow g q) \<longrightarrow> True)"
    using grow_trans0 [OF a3] by simp
qed simp

lemma fine_expr: "backend_ok M B \<Longrightarrow> fine ep {} {} {} {} (gen_stmt_expr B e) (\<lambda>G T fl x y. moves M G (opt_eval M (Some e)) x y)"
  using acts_gives [OF acts_value [of M B e] scope_quiet(8) [OF backend_okD(1) [of M B]]]
  by (intro fineI) (simp_all add: gen_stmt_expr_def gives_def opt_eval_def [abs_def])

lemma fine_return:
  assumes B: "backend_ok M B" and ls: "scopes_left h s_from (Some root) = Inr ls"
  shows "fine ep {} {} {} {} (gen_stmt_return B h e s_from root) (\<lambda>G T fl x y.
     \<exists>ls. scopes_left h s_from (Some root) = Inr ls \<and> reaches M G (ret_eval M ls e) (\<lambda>_. ep) x)"
proof (rule fineI)
  fix g g' assume i: "ginv g" and ep: "oc_epilogue g = ep" and run: "gen_stmt_return B h e s_from root g = Inr g'"
  note q = quiet_backendD [OF backend_okD(1) [OF B]] and ql = scope_quiet(4) [OF backend_okD(1) [OF B]]
  have "gives g g' (\<lambda>G. reaches M G (ret_eval M ls e) (\<lambda>_. ep) (cur g))"
  proof (cases e)
    case None
    then obtain g1 g2 where r: "gen_scope_leave B h s_from (Some root) g = Inr g1" "transfer B (oc_epilogue g1) g1 = Inr g2" "g' = g2\<lparr>oc_current := None\<rparr>"
      using run by (auto simp: gen_stmt_return_def out_ctrl_end_ret_def bindE_eq_Inr)
    have gr1: "grow {} {} {} g g1" using quietD [OF ql i r(1)] .
    have "oc_current g2 = None" using transfer_grow(2) [OF backend_okD(1) [OF B] growD(1) [OF gr1] r(2)] .
    then have "g' = g2" using r(3) by simp
    then show ?thesis using fine_leave_jump [OF B ls i r(1,2)] ep growD(5) [OF gr1] None by (simp add: gives_def ret_eval_def [abs_def])
  next
    case (Some a)
    then obtain v g1 g2 g3 g4 where r: "be_expr B a g = Inr (v, g1)" "gen_scope_leave B h s_from (Some root) g1 = Inr g2" "be_ret B v g2 = Inr g3"
      "transfer B (oc_epilogue g3) g3 = Inr g4" "g' = g4\<lparr>oc_current := None\<rparr>"
      using run by (auto simp: gen_stmt_return_def out_ctrl_end_ret_def bindE_eq_Inr)
    note a1 = quiet_valD [OF q(1) i r(1)]
    note a2 = quietD [OF ql growD(1) [OF a1] r(2)]
    note a3 = quietD [OF q(13) growD(1) [OF a2] r(3)]
    note t = transfer_grow [OF backend_okD(1) [OF B] growD(1) [OF a3] r(4)]
    have g': "g' = g4" using t(2) r(5) by simp
    have ep3: "oc_epilogue g3 = ep" using growD(5) [OF a1] growD(5) [OF a2] growD(5) [OF a3] ep by simp
    have "reaches M G (ret_eval M ls e) (\<lambda>_. ep) (cur g)" if G: "ext (oc_blks g4) G" for G
      unfolding reaches_def
    proof (intro allI impI)
      fix x s and u :: unit and m assume x: "cur g = Some x" "ret_eval M ls e (mc_mem M s) = Some (u, m)"
      then obtain n m1 where e: "cs_eval M a (mc_mem M s) = Some (n, m1)" "m = cs_ret M n (fold (cs_dtors M) ls m1)"
        by (auto simp: ret_eval_def Some)
      have e3: "ext (oc_blks g3) G" using ext_back [OF t(1) G] .
      have e2: "ext (oc_blks g2) G" using ext_back [OF a3 e3] .
      obtain y1 s1 where 1: "cur g1 = Some y1" "pruns M G (x, s) (y1, s1)" "mc_mem M s1 = m1" "mc_val M (gc_be g1) v s1 = n"
        using expr_okD [OF backend_okD(2) [OF B] i r(1) ext_back [OF a2 e2] x(1) e(1)] by blast
      obtain y2 s2 where 2: "cur g2 = Some y2" "pruns M G (y1, s1) (y2, s2)" "mc_mem M s2 = fold (cs_dtors M) ls m1"
        "mc_val M (gc_be g2) v s2 = n"
        using acts_leave [OF B ls] growD(1) [OF a1] r(2) e2 1(1,3,4) unfolding acts_def by blast
      obtain y3 s3 where 3: "cur g3 = Some y3" "pruns M G (y2, s2) (y3, s3)" "mc_mem M s3 = m"
        using ret_okD [OF backend_okD(4) [OF B] growD(1) [OF a2] r(3) e3 2(1), of s2] 2(3,4) e(2) by auto
      obtain s4 where 4: "pruns M G (y3, s3) ((ep, 0), s4)" "mc_mem M s4 = m"
        using transfer_run [OF B growD(1) [OF a3] r(4) G 3(1), of s3] ep3 3(3) by auto
      show "\<exists>t. pruns M G (x, s) ((ep, 0), t) \<and> mc_mem M t = m"
        using pruns_trans [OF pruns_trans [OF pruns_trans [OF 1(2) 2(2)] 3(2)] 4(1)] 4(2) by blast
    qed
    then show ?thesis using grow_trans0 [OF grow_trans0 [OF a1 a2] grow_trans0 [OF a3 t(1)]] g' by (simp add: gives_def)
  qed
  then show "grow ({} \<union> {}) {} {} g g' \<and> (\<forall>G T fl. ext (oc_blks g') G \<longrightarrow> gc_tgt g' \<subseteq>\<^sub>m T \<longrightarrow> (\<forall>q \<in> {}. fl q = gc_flow g q) \<longrightarrow>
     (\<exists>ls. scopes_left h s_from (Some root) = Inr ls \<and> reaches M G (ret_eval M ls e) (\<lambda>_. ep) (cur g)))"
    using ls by (simp add: gives_def)
qed simp

text \<open>Control reaches the block of a label from above, and goes on there.\<close>

lemma fine_target:
  assumes B: "backend_ok M B" and body: "fine ep K N D R lhs C" and k: "tk \<notin> K" and gr: "grow {} {} {} g g1" and tg: "gc_tgt g1 tk = Some b"
    and fr: "fresh b g1" and old: "length (oc_blks g) \<le> b \<or> gc_tgt g tk = Some b"
    and i: "ginv g" and g: "unbound N g" "tfresh K g" "oc_epilogue g = ep" and c: "cur g1 = cur g"
    and run: "transfer B b g1 = Inr g2" "lhs (out_current_blk b g2) = Inr g'"
  shows "grow (insert tk K \<union> N) N D g g' \<and>
      (\<forall>G T fl. ext (oc_blks g') G \<longrightarrow> gc_tgt g' \<subseteq>\<^sub>m T \<longrightarrow> (\<forall>q \<in> R. fl q = gc_flow g q) \<longrightarrow>
        (\<exists>b. T tk = Some b \<and> jumps M G (\<lambda>m. m) b (cur g) \<and> C G T fl (Some (b, 0)) (cur g')))"
proof -
  note t = transfer_gives [OF B growD(1) [OF gr] run(1)]
  have gr2: "grow {} {} {} g g2" using grow_trans0 [OF gr givesD(1) [OF t]] .
  have fr2: "fresh b g2" using grow_fresh [OF givesD(1) [OF t] fr] by simp
  have tg2: "gc_tgt g2 tk = Some b" using growD(3) [OF givesD(1) [OF t] tg] .
  have "grow {tk} {} {} g (out_current_blk b g2)"
  proof (rule grow_current)
    show "grow {tk} {} {} g g2" using grow_weaken [OF gr2] by simp
    show "k' \<in> {tk}" if "gc_tgt g2 k' = Some b" for k' using ginvD(4) [OF growD(1) [OF gr2] that tg2] by simp
  qed (use fr2 old in \<open>auto simp: fresh_def\<close>)
  then have st: "stage {tk} {} {} g (out_current_blk b g2) {}" by (simp add: stage_def)
  note b = fine_part [OF body st _ _ g i run(2)]
  have cu: "cur (out_current_blk b g2) = Some (b, 0)" using fr2 by (simp add: cur_def point_def out_current_blk_def fresh_def)
  have "T tk = Some b \<and> jumps M G (\<lambda>m. m) b (cur g) \<and> C G T fl (Some (b, 0)) (cur g')"
    if G: "ext (oc_blks g') G" and T: "gc_tgt g' \<subseteq>\<^sub>m T" and fl: "\<forall>q \<in> R. fl q = gc_flow g q" for G T fl
  proof -
    have e2: "ext (oc_blks g2) G" using ext_back [OF b(1) G] k by simp
    have "gc_tgt g' tk = Some b" using growD(3) [OF b(1), of tk b] tg2 k by simp
    then show ?thesis
      using map_le_Some [OF T] givesD(2) [OF t e2] c b(3) [OF _ _ G T, of fl] fl grow_flow [OF gr2] cu k by simp
  qed
  moreover have "grow (insert tk K \<union> N) N D g g'" using stage_grow [OF b(2)] k by simp
  ultimately show ?thesis by blast
qed

lemma fine_case:
  assumes B: "backend_ok M B" and body: "fine ep K N D R lhs C" and k: "T_case k \<notin> K"
  shows "fine ep (insert (T_case k) K) N D R (gen_stmt_case B k lhs) (\<lambda>G T fl x y.
     \<exists>b. T (T_case k) = Some b \<and> jumps M G (\<lambda>m. m) b x \<and> C G T fl (Some (b, 0)) y)"
proof (rule fineI)
  fix g g' assume i: "ginv g" and g: "unbound N g" "tfresh (insert (T_case k) K) g" "oc_epilogue g = ep" and run: "gen_stmt_case B k lhs g = Inr g'"
  obtain b g2 where r: "gc_tgt g (T_case k) = Some b" "transfer B b g = Inr g2" "lhs (out_current_blk b g2) = Inr g'"
    using run by (auto simp: gen_stmt_case_def transfer_make_current_split bindE_eq_Inr split: option.splits)
  have fr: "fresh b g" and t: "tfresh K g" using g(2) r(1) by (auto simp: tfresh_def)
  from fine_target [OF B body k grow_refl [OF i] r(1) fr disjI2 [OF r(1)] i g(1) t g(3) refl r(2,3)]
  show "grow (insert (T_case k) K \<union> N) N D g g' \<and>
      (\<forall>G T fl. ext (oc_blks g') G \<longrightarrow> gc_tgt g' \<subseteq>\<^sub>m T \<longrightarrow> (\<forall>q \<in> R. fl q = gc_flow g q) \<longrightarrow>
        (\<exists>b. T (T_case k) = Some b \<and> jumps M G (\<lambda>m. m) b (cur g) \<and> C G T fl (Some (b, 0)) (cur g')))" .
qed (use body in \<open>simp add: fine_def\<close>)

lemma mustgen_grow:
  assumes "ginv g" "(if sp = None then Inr g else out_blk_mustgen b sp g) = Inr g'"
  shows "grow {} {} {} g g'" "cur g' = cur g" "gc_tgt g' = gc_tgt g"
proof -
  have "grow {} {} {} g g' \<and> cur g' = cur g \<and> gc_tgt g' = gc_tgt g"
  proof (cases "sp = None")
    case True
    then show ?thesis using assms by (simp add: grow_refl)
  next
    case False
    then obtain g1 where 1: "upd_blk b (\<lambda>k. k\<lparr>bk_force_lbl := sp\<rparr>) g = Inr g1" "g' = g1\<lparr>oc_mustgen := oc_mustgen g1 @ [b]\<rparr>"
      using assms(2) by (auto simp: out_blk_mustgen_def bindE_eq_Inr)
    note u = upd_blk_grow [OF assms(1) 1(1)]
    have gr: "grow {} {} {} g g1" using u(1) by (simp add: same_blk_def)
    have oc: "oc_current g1 = oc_current g" "gc_tgt g1 = gc_tgt g" using u(2,4) by (simp_all add: same_blk_def)
    have "grow {} {} {} g g'" using gr 1(2) by (simp add: grow_def ginv_def fresh_def)
    moreover have "bk_insns (oc_blks g1 ! c) = bk_insns (oc_blks g ! c)" for c
      using 1(1) by (cases "c = b") (auto simp: upd_blk_def blk_at_def bindE_eq_Inr split: if_splits)
    ultimately show ?thesis using oc 1(2) by (cases "oc_current g") (simp_all add: cur_def point_def)
  qed
  then show "grow {} {} {} g g'" "cur g' = cur g" "gc_tgt g' = gc_tgt g" by blast+
qed

lemma fine_label:
  assumes B: "backend_ok M B" and body: "fine ep K N D R lhs C" and k: "T_label k \<notin> K"
  shows "fine ep (insert (T_label k) K) N D R (gen_stmt_label B k sp lhs) (\<lambda>G T fl x y.
     \<exists>b. T (T_label k) = Some b \<and> jumps M G (\<lambda>m. m) b x \<and> C G T fl (Some (b, 0)) y)"
proof (rule fineI)
  fix g g' assume i: "ginv g" and g: "unbound N g" "tfresh (insert (T_label k) K) g" "oc_epilogue g = ep" and run: "gen_stmt_label B k sp lhs g = Inr g'"
  obtain b g1 g2 g3 where r: "label_getblk B k g = Inr (b, g1)" "(if sp = None then Inr g1 else out_blk_mustgen b sp g1) = Inr g2"
    "transfer B b g2 = Inr g3" "lhs (out_current_blk b g3) = Inr g'"
    using run by (auto simp: gen_stmt_label_def transfer_make_current_split bindE_eq_Inr)
  have tf: "tfresh {T_label k} g" "tfresh K g" using g(2) by (auto simp: tfresh_def)
  note n = label_getblk_grow [OF i r(1)]
  note m = mustgen_grow [OF growD(1) [OF n(1)] r(2)]
  have fr: "fresh b g2" using grow_fresh [OF m(1) n(5) [OF tf(1)]] by simp
  have c: "gc_tgt g2 (T_label k) = Some b" "cur g2 = cur g" using m n(2,3) by simp_all
  from fine_target [OF B body k grow_trans0 [OF n(1) m(1)] c(1) fr n(4) i g(1) tf(2) g(3) c(2) r(3,4)]
  show "grow (insert (T_label k) K \<union> N) N D g g' \<and>
      (\<forall>G T fl. ext (oc_blks g') G \<longrightarrow> gc_tgt g' \<subseteq>\<^sub>m T \<longrightarrow> (\<forall>q \<in> R. fl q = gc_flow g q) \<longrightarrow>
        (\<exists>b. T (T_label k) = Some b \<and> jumps M G (\<lambda>m. m) b (cur g) \<and> C G T fl (Some (b, 0)) (cur g')))" .
qed (use body in \<open>simp add: fine_def\<close>)

section \<open>Sequences\<close>

lemma fine_code:
  assumes B: "backend_ok M B" and sc: "scope_ok h stab" and body: "fine ep K N D R stmts C"
  shows "fine ep K N D R (gen_stmt_code B h stab stmts) (\<lambda>G T fl x y.
     \<exists>z w. moves M G (cs_decls M stab) x z \<and> C G T fl z w \<and> moves M G (\<lambda>m. Some (cs_dtors M stab m)) w y)"
proof (rule fineI)
  fix g g' assume i: "ginv g" and g: "unbound N g" "tfresh K g" "oc_epilogue g = ep" and run: "gen_stmt_code B h stab stmts g = Inr g'"
  note q = backend_okD(1) [OF B]
  obtain g1 g2 where r: "gen_block_decls B stab g = Inr g1" "stmts g1 = Inr g2"
    "bindE (gen_scope_leave_parent B h stab g2) (gen_block_decls_dealloca B stab) = Inr g'"
    using run by (auto simp: gen_stmt_code_def gen_stmt_code_m1_finish_def [abs_def] bindE_eq_Inr)
  note t1 = acts_gives [OF acts_decls [OF B] scope_quiet(1) [OF q] i r(1)]
  have s1: "stage {} {} {} g g1 {}" using givesD(1) [OF t1] by (simp add: stage_def)
  note b = fine_part [OF body s1 _ _ g i r(2), simplified]
  note t3 = acts_gives [OF acts_scope_end [OF B sc] quiet_bind [OF scope_quiet(5) [OF q] scope_quiet(2) [OF q]] stage_ginv [OF b(2)] r(3)]
  have gr: "grow (K \<union> N) N D g g'" using stage_grow [OF stage_gives [OF b(2) t3]] .
  have "\<exists>z w. moves M G (cs_decls M stab) (cur g) z \<and> C G T fl z w \<and> moves M G (\<lambda>m. Some (cs_dtors M stab m)) w (cur g')"
    if G: "ext (oc_blks g') G" and T: "gc_tgt g' \<subseteq>\<^sub>m T" and fl: "\<forall>q \<in> R. fl q = gc_flow g q" for G T fl
  proof -
    have e2: "ext (oc_blks g2) G" using ext_back [OF givesD(1) [OF t3] G] .
    have T2: "gc_tgt g2 \<subseteq>\<^sub>m T" using map_le_trans [OF grow_tgt [OF givesD(1) [OF t3]] T] .
    have "C G T fl (cur g1) (cur g2)" using b(3) [OF e2 T2, of fl] fl grow_flow [OF givesD(1) [OF t1]] by simp
    then show ?thesis using givesD(2) [OF t1 ext_back [OF b(1) e2]] givesD(2) [OF t3 G] by blast
  qed
  then show "grow (K \<union> N) N D g g' \<and>
      (\<forall>G T fl. ext (oc_blks g') G \<longrightarrow> gc_tgt g' \<subseteq>\<^sub>m T \<longrightarrow> (\<forall>q \<in> R. fl q = gc_flow g q) \<longrightarrow>
        (\<exists>z w. moves M G (cs_decls M stab) (cur g) z \<and> C G T fl z w \<and> moves M G (\<lambda>m. Some (cs_dtors M stab m)) w (cur g')))"
    using gr by blast
qed (use body in \<open>simp add: fine_def\<close>)

lemma fine_seq:
  assumes l: "fine ep K N D R f C" and r: "fine ep K' N' D' R' f' C'" and ds: "(K \<union> N) \<inter> (K' \<union> N') = {}" "D \<inter> R' = {}"
  shows "fine ep (K \<union> K') (N \<union> N') (D \<union> D') (R \<union> R') (gen_seq f f') (\<lambda>G T fl x y. \<exists>z. C G T fl x z \<and> C' G T fl z y)"
proof (rule fineI)
  show "N \<union> N' \<subseteq> range T_case" using l r by (simp add: fine_def)
next
  fix g g' assume i: "ginv g" and g: "unbound (N \<union> N') g" "tfresh (K \<union> K') g" and ep: "oc_epilogue g = ep" and run: "gen_seq f f' g = Inr g'"
  have gl: "unbound N g" "tfresh K g" and gr: "unbound N' g" "tfresh K' g" using g by (auto simp: unbound_def tfresh_def)
  obtain g1 where r1: "f g = Inr g1" "f' g1 = Inr g'" using run by (auto simp: gen_seq_def bindE_eq_Inr)
  note b1 = fine_part [OF l stage_start [OF i, of "{}" "{}" "{}"] _ _ gl ep i r1(1), simplified]
  have "(K \<union> N) \<inter> K' = {}" "N \<inter> N' = {}" using ds by auto
  note b2 = fine_part [OF r b1(2) this gr ep i r1(2)]
  have "\<exists>z. C G T fl (cur g) z \<and> C' G T fl z (cur g')"
    if G: "ext (oc_blks g') G" and T: "gc_tgt g' \<subseteq>\<^sub>m T" and fl: "\<forall>q \<in> R \<union> R'. fl q = gc_flow g q" for G T fl
  proof -
    have "gc_flow g1 r = gc_flow g r" if "r \<in> R'" for r using growD(4) [OF b1(1), of r] ds(2) that by auto
    then show ?thesis
      using b1(3) [OF ext_back [OF b2(1) G] map_le_trans [OF grow_tgt [OF b2(1)] T], of fl] b2(3) [OF G T, of fl] fl by auto
  qed
  then show "grow (K \<union> K' \<union> (N \<union> N')) (N \<union> N') (D \<union> D') g g' \<and>
      (\<forall>G T fl. ext (oc_blks g') G \<longrightarrow> gc_tgt g' \<subseteq>\<^sub>m T \<longrightarrow> (\<forall>q \<in> R \<union> R'. fl q = gc_flow g q) \<longrightarrow> (\<exists>z. C G T fl (cur g) z \<and> C' G T fl z (cur g')))"
    using stage_grow [OF b2(2)] by (simp add: Un_assoc Un_left_commute)
qed

section \<open>All statements\<close>

abbreviation (input) gen_fine :: "('e, 'm, 's, 'v, 'b) machine \<Rightarrow> ('e, 'v, 'b) backend \<Rightarrow> symheap \<Rightarrow> nat \<Rightarrow> 'e gstmt \<Rightarrow> bool" where
  "gen_fine M B h ep s \<equiv> fine ep (keys s) (binds s) (flows s) (refs s) (gen_stmt B h s) (\<lambda>G T fl x y. compiled M G T h ep fl s x y)"

abbreviation (input) gens_fine :: "('e, 'm, 's, 'v, 'b) machine \<Rightarrow> ('e, 'v, 'b) backend \<Rightarrow> symheap \<Rightarrow> nat \<Rightarrow> 'e gstmt list \<Rightarrow> bool" where
  "gens_fine M B h ep ss \<equiv> fine ep (\<Union> (set (map keys ss))) (\<Union> (set (map binds ss))) (\<Union> (set (map flows ss))) (\<Union> (set (map refs ss)))
     (gen_stmts B h ss) (\<lambda>G T fl x y. compileds M G T h ep fl ss x y)"

lemma gen_compiled:
  fixes M :: "('e, 'm, 's, 'v, 'b) machine"
  shows "backend_ok M B \<Longrightarrow> wf_scopes h s \<Longrightarrow> dist s \<Longrightarrow> gen_fine M B h ep s"
    "backend_ok M B \<Longrightarrow> list_all (wf_scopes h) ss \<Longrightarrow> dists ss \<Longrightarrow> gens_fine M B h ep ss"
proof (induction B h s and B h ss rule: gen_stmt_gen_stmts.induct)
  case (1 B h)
  then show ?case using fine_skip [of ep] by (simp add: gen_stmt_noop_def [abs_def])
next
  case (2 B h e)
  then show ?case using fine_expr by simp
next
  case (3 B h p f t)
  then show ?case using fine_break by (auto split: sum.splits)
next
  case (4 B h p f t)
  then show ?case using fine_continue by (auto split: sum.splits)
next
  case (5 B h e f t)
  then show ?case using fine_return by (auto split: sum.splits)
next
  case (6 B h l f t)
  then show ?case using fine_goto by (auto split: sum.splits)
next
  case (7 B h e)
  then show ?case using fine_goto_expr [OF 7(1)] by simp
next
  case (8 B h flow stab e l r)
  have l: "gen_fine M B h ep l" using 8 by simp
  have sc: "scope_ok h stab" "flow = None \<or> flow = Some stab" using 8 by simp_all
  show ?case
  proof (cases r)
    case None
    then show ?thesis using fine_if [OF 8(3) sc l fine_skip, of None e] by simp
  next
    case (Some r')
    then have r: "gen_fine M B h ep r'" using 8 by simp
    have "apart l r'" using 8 Some by simp
    then show ?thesis using fine_if [OF 8(3) sc l r, of "Some (gen_stmt B h r')" e] Some by (simp add: apart_def)
  qed
next
  case (9 B h p flow stab e l)
  then show ?case using fine_while [of M B h stab flow ep "keys l" "binds l" "flows l" "refs l" "gen_stmt B h l"] by simp
next
  case (10 B h p l e)
  then show ?case using fine_do [of M B ep "keys l" "binds l" "flows l" "refs l" "gen_stmt B h l"] by simp
next
  case (11 B h p stab init cond inc l)
  then show ?case using fine_for [of M B h stab ep "keys l" "binds l" "flows l" "refs l" "gen_stmt B h l"] by simp
next
  case (12 B h p flow stab e cs d l)
  then show ?case using fine_switch [of M B h stab flow ep "keys l" "binds l" "flows l" "refs l" "gen_stmt B h l" _ cs d] by simp
next
  case (13 B h k l)
  then show ?case using fine_case [of M B ep "keys l" "binds l" "flows l" "refs l" "gen_stmt B h l" _ k] by simp
next
  case (14 B h k sp l)
  then show ?case using fine_label [of M B ep "keys l" "binds l" "flows l" "refs l" "gen_stmt B h l" _ k sp] by simp
next
  case (15 B h stab ss)
  then show ?case using fine_code [OF 15(2), of h stab ep _ _ _ _ "gen_stmts B h ss"] by simp
next
  case (16 B h)
  then show ?case using fine_skip by simp
next
  case (17 B h s ss)
  have "tks s \<inter> (\<Union> (set (map keys ss)) \<union> \<Union> (set (map binds ss))) = {}" "flows s \<inter> \<Union> (set (map refs ss)) = {}"
    using 17(5) by (auto simp: list_all_iff apart_def)
  then show ?case using fine_seq [of ep "keys s" "binds s" "flows s" "refs s" "gen_stmt B h s"] 17 by simp
qed

end
