(* ===== verification/Ucc_Gen_Exec.thy ===== *)
theory Ucc_Gen_Exec
  imports Ucc_Gen_Sound
begin

text \<open>
  The meaning of statements, as C gives it, and that the generated code has it.

  A statement is run from its start, or from a label or case inside it that control jumps to; it ends
  normally or with a jump out of it.  A jump runs the cleanups of the scopes it leaves, and the end of a
  scope its own.
\<close>

section \<open>C statements\<close>

datatype mode = Run | Seek tgt

datatype exit = X_normal | X_break nat | X_continue nat | X_return | X_goto nat

definition leave :: "('e, 'm, 's, 'v, 'b) machine \<Rightarrow> nat \<Rightarrow> exit \<Rightarrow> 'm \<Rightarrow> 'm" where
  "leave M stab x m = (if x = X_normal then cs_dtors M stab m else m)"

text \<open>What a loop or a switch \<open>p\<close> makes of the way its body ended.\<close>

definition sw_exit :: "nat \<Rightarrow> exit \<Rightarrow> exit" where
  "sw_exit p x = (if x = X_break p then X_normal else x)"

definition again :: "nat \<Rightarrow> exit \<Rightarrow> bool" where
  "again p x \<longleftrightarrow> x = X_normal \<or> x = X_continue p"

definition test_eval :: "('e, 'm, 's, 'v, 'b) machine \<Rightarrow> 'e option \<Rightarrow> 'm \<Rightarrow> (bool \<times> 'm) option" where
  "test_eval M e m = (case e of None \<Rightarrow> Some (True, m) | Some e \<Rightarrow> map_option (map_prod (\<lambda>v. v \<noteq> 0) id) (cs_eval M e m))"

inductive exec :: "('e, 'm, 's, 'v, 'b) machine \<Rightarrow> symheap \<Rightarrow> mode \<Rightarrow> 'e gstmt \<Rightarrow> 'm \<Rightarrow> exit \<Rightarrow> 'm \<Rightarrow> bool"
  and execs :: "('e, 'm, 's, 'v, 'b) machine \<Rightarrow> symheap \<Rightarrow> mode \<Rightarrow> 'e gstmt list \<Rightarrow> 'm \<Rightarrow> exit \<Rightarrow> 'm \<Rightarrow> bool"
  and loop :: "('e, 'm, 's, 'v, 'b) machine \<Rightarrow> symheap \<Rightarrow> 'e gstmt \<Rightarrow> exit \<Rightarrow> 'm \<Rightarrow> exit \<Rightarrow> 'm \<Rightarrow> bool"
  and for_loop :: "('e, 'm, 's, 'v, 'b) machine \<Rightarrow> symheap \<Rightarrow> 'e gstmt \<Rightarrow> 'm \<Rightarrow> exit \<Rightarrow> 'm \<Rightarrow> bool"
  for M :: "('e, 'm, 's, 'v, 'b) machine" and h :: symheap where
  noop: "exec M h Run G_noop m X_normal m"
| expr: "cs_eval M e m = Some (v, m') \<Longrightarrow> exec M h Run (G_expr e) m X_normal m'"
| break: "scopes_left h f (Some t) = Inr ls \<Longrightarrow> exec M h Run (G_break p f t) m (X_break p) (fold (cs_dtors M) ls m)"
| continue: "scopes_left h f (Some t) = Inr ls \<Longrightarrow> exec M h Run (G_continue p f t) m (X_continue p) (fold (cs_dtors M) ls m)"
| return: "scopes_left h f (Some t) = Inr ls \<Longrightarrow> ret_eval M ls e m = Some (u, m') \<Longrightarrow> exec M h Run (G_return e f t) m X_return m'"
| goto: "scopes_left h f (Some t) = Inr ls \<Longrightarrow> exec M h Run (G_goto l f t) m (X_goto l) (fold (cs_dtors M) ls m)"
| if_true: "cs_decls M stab m = Some m1 \<Longrightarrow> cs_eval M e m1 = Some (v, m2) \<Longrightarrow> v \<noteq> 0 \<Longrightarrow> exec M h Run l m2 x m3 \<Longrightarrow>
    exec M h Run (G_if flow stab e l r) m x (leave M stab x m3)"
| if_false: "cs_decls M stab m = Some m1 \<Longrightarrow> cs_eval M e m1 = Some (0, m2) \<Longrightarrow> exec M h Run r m2 x m3 \<Longrightarrow>
    exec M h Run (G_if flow stab e l (Some r)) m x (leave M stab x m3)"
| if_none: "cs_decls M stab m = Some m1 \<Longrightarrow> cs_eval M e m1 = Some (0, m2) \<Longrightarrow>
    exec M h Run (G_if flow stab e l None) m X_normal (cs_dtors M stab m2)"
| if_seek: "exec M h (Seek tg) l m x m1 \<Longrightarrow> exec M h (Seek tg) (G_if flow stab e l r) m x (leave M stab x m1)"
| if_seek_else: "exec M h (Seek tg) r m x m1 \<Longrightarrow> exec M h (Seek tg) (G_if flow stab e l (Some r)) m x (leave M stab x m1)"
| while_end: "cs_decls M stab m = Some m1 \<Longrightarrow> cs_eval M e m1 = Some (0, m2) \<Longrightarrow>
    exec M h Run (G_while p flow stab e l) m X_normal (cs_dtors M stab m2)"
| while_body: "cs_decls M stab m = Some m1 \<Longrightarrow> cs_eval M e m1 = Some (v, m2) \<Longrightarrow> v \<noteq> 0 \<Longrightarrow> exec M h Run l m2 x m3 \<Longrightarrow>
    loop M h (G_while p flow stab e l) x m3 x' m' \<Longrightarrow> exec M h Run (G_while p flow stab e l) m x' m'"
| while_seek: "exec M h (Seek tg) l m x m1 \<Longrightarrow> loop M h (G_while p flow stab e l) x m1 x' m' \<Longrightarrow>
    exec M h (Seek tg) (G_while p flow stab e l) m x' m'"
| while_again: "again p x \<Longrightarrow> exec M h Run (G_while p flow stab e l) m x' m' \<Longrightarrow> loop M h (G_while p flow stab e l) x m x' m'"
| while_break: "loop M h (G_while p flow stab e l) (X_break p) m X_normal (cs_dtors M stab m)"
| while_jump: "\<not> again p x \<Longrightarrow> x \<noteq> X_break p \<Longrightarrow> loop M h (G_while p flow stab e l) x m x m"
| do_body: "exec M h md l m x m1 \<Longrightarrow> loop M h (G_do p l e) x m1 x' m' \<Longrightarrow> exec M h md (G_do p l e) m x' m'"
| do_again: "again p x \<Longrightarrow> cs_eval M e m = Some (v, m1) \<Longrightarrow> v \<noteq> 0 \<Longrightarrow> exec M h Run (G_do p l e) m1 x' m' \<Longrightarrow>
    loop M h (G_do p l e) x m x' m'"
| do_end: "again p x \<Longrightarrow> cs_eval M e m = Some (0, m1) \<Longrightarrow> loop M h (G_do p l e) x m X_normal m1"
| do_break: "loop M h (G_do p l e) (X_break p) m X_normal m"
| do_jump: "\<not> again p x \<Longrightarrow> x \<noteq> X_break p \<Longrightarrow> loop M h (G_do p l e) x m x m"
| for_start: "Option.bind (cs_decls M stab m) (opt_eval M init) = Some m1 \<Longrightarrow> for_loop M h (G_for p stab init c inc l) m1 x' m' \<Longrightarrow>
    exec M h Run (G_for p stab init c inc l) m x' m'"
| for_end: "test_eval M c m = Some (False, m1) \<Longrightarrow> for_loop M h (G_for p stab init c inc l) m X_normal (cs_dtors M stab m1)"
| for_body: "test_eval M c m = Some (True, m1) \<Longrightarrow> exec M h Run l m1 x m2 \<Longrightarrow> loop M h (G_for p stab init c inc l) x m2 x' m' \<Longrightarrow>
    for_loop M h (G_for p stab init c inc l) m x' m'"
| for_seek: "exec M h (Seek tg) l m x m1 \<Longrightarrow> loop M h (G_for p stab init c inc l) x m1 x' m' \<Longrightarrow>
    exec M h (Seek tg) (G_for p stab init c inc l) m x' m'"
| for_again: "again p x \<Longrightarrow> opt_eval M inc m = Some m1 \<Longrightarrow> for_loop M h (G_for p stab init c inc l) m1 x' m' \<Longrightarrow>
    loop M h (G_for p stab init c inc l) x m x' m'"
| for_break: "loop M h (G_for p stab init c inc l) (X_break p) m X_normal (cs_dtors M stab m)"
| for_jump: "\<not> again p x \<Longrightarrow> x \<noteq> X_break p \<Longrightarrow> loop M h (G_for p stab init c inc l) x m x m"
| switch_case: "cs_decls M stab m = Some m1 \<Longrightarrow> cs_eval M e m1 = Some (v, m2) \<Longrightarrow> selected cs d v = Some k \<Longrightarrow>
    exec M h (Seek (T_case k)) l m2 x m3 \<Longrightarrow> exec M h Run (G_switch p flow stab e cs d l) m (sw_exit p x) (leave M stab (sw_exit p x) m3)"
| switch_none: "cs_decls M stab m = Some m1 \<Longrightarrow> cs_eval M e m1 = Some (v, m2) \<Longrightarrow> selected cs d v = None \<Longrightarrow>
    exec M h Run (G_switch p flow stab e cs d l) m X_normal (cs_dtors M stab m2)"
| switch_seek: "exec M h (Seek tg) l m x m1 \<Longrightarrow>
    exec M h (Seek tg) (G_switch p flow stab e cs d l) m (sw_exit p x) (leave M stab (sw_exit p x) m1)"
| case_run: "exec M h Run l m x m' \<Longrightarrow> md = Run \<or> md = Seek (T_case k) \<Longrightarrow> exec M h md (G_case k l) m x m'"
| case_seek: "exec M h (Seek tg) l m x m' \<Longrightarrow> exec M h (Seek tg) (G_case k l) m x m'"
| label_run: "exec M h Run l m x m' \<Longrightarrow> md = Run \<or> md = Seek (T_label k) \<Longrightarrow> exec M h md (G_label k sp l) m x m'"
| label_seek: "exec M h (Seek tg) l m x m' \<Longrightarrow> exec M h (Seek tg) (G_label k sp l) m x m'"
| code_run: "cs_decls M stab m = Some m1 \<Longrightarrow> execs M h Run ss m1 x m2 \<Longrightarrow> exec M h Run (G_code stab ss) m x (leave M stab x m2)"
| code_seek: "execs M h (Seek tg) ss m x m1 \<Longrightarrow> exec M h (Seek tg) (G_code stab ss) m x (leave M stab x m1)"
| nil: "execs M h Run [] m X_normal m"
| cons: "exec M h md s m X_normal m1 \<Longrightarrow> execs M h Run ss m1 x m' \<Longrightarrow> execs M h md (s # ss) m x m'"
| stop: "exec M h md s m x m' \<Longrightarrow> x \<noteq> X_normal \<Longrightarrow> execs M h md (s # ss) m x m'"
| skip: "execs M h (Seek tg) ss m x m' \<Longrightarrow> execs M h (Seek tg) (s # ss) m x m'"

section \<open>The code follows\<close>

definition entry :: "(tgt \<Rightarrow> nat option) \<Rightarrow> (nat \<times> nat) option \<Rightarrow> mode \<Rightarrow> (nat \<times> nat) option" where
  "entry T x md = (case md of Run \<Rightarrow> x | Seek tg \<Rightarrow> map_option (\<lambda>b. (b, 0)) (T tg))"

definition target ::
  "(tgt \<Rightarrow> nat option) \<Rightarrow> nat \<Rightarrow> (nat \<Rightarrow> nat option \<times> nat option) \<Rightarrow> (nat \<times> nat) option \<Rightarrow> exit \<Rightarrow> (nat \<times> nat) option" where
  "target T ep fl y x =
     (case x of
        X_normal \<Rightarrow> y
      | X_break p \<Rightarrow> map_option (\<lambda>b. (b, 0)) (snd (fl p))
      | X_continue p \<Rightarrow> map_option (\<lambda>b. (b, 0)) (fst (fl p))
      | X_return \<Rightarrow> Some (ep, 0)
      | X_goto l \<Rightarrow> map_option (\<lambda>b. (b, 0)) (T (T_label l)))"

text \<open>The code at \<open>z\<close> takes memory \<open>m\<close> to \<open>m'\<close> at \<open>w\<close>.\<close>

definition follows ::
  "('e, 'm, 's, 'v, 'b) machine \<Rightarrow> out_blk list \<Rightarrow> (nat \<times> nat) option \<Rightarrow> 'm \<Rightarrow> (nat \<times> nat) option \<Rightarrow> 'm \<Rightarrow> bool" where
  "follows M G z m w m' \<longleftrightarrow>
     (\<forall>a st. z = Some a \<longrightarrow> mc_mem M st = m \<longrightarrow> (\<exists>b st'. w = Some b \<and> pruns M G (a, st) (b, st') \<and> mc_mem M st' = m'))"

lemma follows_refl: "follows M G z m z m"
  unfolding follows_def by (metis pruns_refl)

lemma follows_trans: "follows M G z m w m' \<Longrightarrow> follows M G w m' v m'' \<Longrightarrow> follows M G z m v m''"
  unfolding follows_def by (metis pruns_trans)

lemma follows_moves: "moves M G f z w \<Longrightarrow> f m = Some m' \<Longrightarrow> follows M G z m w m'"
  unfolding follows_def moves_def by blast

lemma follows_reaches: "reaches M G f to z \<Longrightarrow> f m = Some (r, m') \<Longrightarrow> follows M G z m (Some (to r, 0)) m'"
  unfolding follows_def reaches_def by blast

lemma follows_jumps: "jumps M G f b z \<Longrightarrow> follows M G z m (Some (b, 0)) (f m)"
  by (rule follows_reaches [of M G "\<lambda>m. Some ((), f m)" "\<lambda>_. b"]) auto

lemma follows_dtors: "moves M G (\<lambda>m. Some (cs_dtors M stab m)) z w \<Longrightarrow> follows M G z m w (cs_dtors M stab m)"
  by (rule follows_moves) auto

lemma target_exit: "x \<noteq> X_normal \<Longrightarrow> target T ep fl w x = target T ep fl y x"
  by (simp add: target_def split: exit.split)

lemma target_jump: "\<not> again p x \<Longrightarrow> x \<noteq> X_break p \<Longrightarrow> target T ep (fl(p := z)) w x = target T ep fl y x"
  by (auto simp: target_def again_def split: exit.split)

lemma target_simps [simp]: "target T ep fl y X_normal = y" "target T ep (fl(p := (c, Some b))) y (X_break p) = Some (b, 0)"
  by (simp_all add: target_def)

lemma entry_simps [simp]: "entry T x Run = x" "entry T x (Seek tg) = map_option (\<lambda>b. (b, 0)) (T tg)"
  by (simp_all add: entry_def)

lemma follows_again: "again p x \<Longrightarrow> jumps M G (\<lambda>m. m) c w \<Longrightarrow> follows M G (target T ep (fl(p := (Some c, b))) w x) m (Some (c, 0)) m"
  using follows_jumps [of M G "\<lambda>m. m" c w m] by (auto simp: again_def target_def follows_refl)

lemma follows_leave:
  assumes "jumps M G (\<lambda>m. m) b w" "moves M G (\<lambda>m. Some (cs_dtors M stab m)) (Some (b, 0)) y"
  shows "follows M G (target T ep fl w x) m (target T ep fl y x) (leave M stab x m)"
proof (cases "x = X_normal")
  case True
  then show ?thesis
    using follows_trans [OF follows_jumps [OF assms(1), of m] follows_moves [OF assms(2)]] by (simp add: leave_def)
next
  case False
  then show ?thesis using target_exit [OF False, of T ep fl w y] by (simp add: leave_def follows_refl)
qed

lemma follows_switch:
  assumes "jumps M G (\<lambda>m. m) b w" "moves M G (\<lambda>m. Some (cs_dtors M stab m)) (Some (b, 0)) y"
  shows "follows M G (target T ep (fl(p := (None, Some b))) w x) m (target T ep fl y (sw_exit p x)) (leave M stab (sw_exit p x) m)"
proof (cases "x = X_break p")
  case True
  then show ?thesis using follows_moves [OF assms(2), of m] by (simp add: sw_exit_def leave_def)
next
  case False
  show ?thesis
  proof (cases "x = X_continue p")
    case True
    then show ?thesis by (simp add: follows_def target_def sw_exit_def leave_def)
  next
    case ne: False
    have "follows M G (target T ep fl w x) m (target T ep fl y x) (leave M stab x m)" using follows_leave [OF assms] .
    moreover have "target T ep (fl(p := (None, Some b))) w x = target T ep fl w x"
      using False ne by (auto simp: target_def split: exit.split)
    ultimately show ?thesis using False by (simp add: sw_exit_def)
  qed
qed

lemma follows_test: "for_test_ok M c bo en G x \<Longrightarrow> test_eval M c m = Some (t, m') \<Longrightarrow> follows M G x m (Some (if t then bo else en, 0)) m'"
  by (auto simp: for_test_ok_def test_eval_def split: option.splits dest: follows_reaches follows_jumps)

lemma follows_scope:
  "moves M G (\<lambda>m. Some (cs_dtors M stab m)) w y \<Longrightarrow> follows M G (target T ep fl w x) m (target T ep fl y x) (leave M stab x m)"
  using target_exit [of x T ep fl w y] by (cases "x = X_normal") (auto simp: leave_def follows_refl intro: follows_moves)

lemma selected_key: "selected cs d v = Some k \<Longrightarrow> k \<in> set (case_keys cs d)"
  by (induction cs v rule: pick.induct) (auto simp: selected_def case_keys_def split: option.splits if_splits)

fun loop_id :: "'e gstmt \<Rightarrow> nat" where
  "loop_id (G_while p _ _ _ _) = p"
| "loop_id (G_do p _ _) = p"
| "loop_id (G_for p _ _ _ _ _) = p"
| "loop_id _ = 0"

definition for_code ::
  "('e, 'm, 's, 'v, 'b) machine \<Rightarrow> out_blk list \<Rightarrow> (tgt \<Rightarrow> nat option) \<Rightarrow> symheap \<Rightarrow> nat \<Rightarrow> (nat \<Rightarrow> nat option \<times> nat option) \<Rightarrow>
    'e gstmt \<Rightarrow> nat \<Rightarrow> (nat \<times> nat) option \<Rightarrow> bool" where
  "for_code M G T h ep fl s te y \<longleftrightarrow>
     (case s of
        G_for p stab init c inc l \<Rightarrow>
          \<exists>bo en ic w. for_test_ok M c bo en G (Some (te, 0)) \<and> compiled M G T h ep (fl(p := (Some ic, Some en))) l (Some (bo, 0)) w \<and>
            jumps M G (\<lambda>m. m) ic w \<and> reaches M G (to_unit (opt_eval M inc)) (\<lambda>_. te) (Some (ic, 0)) \<and>
            moves M G (\<lambda>m. Some (cs_dtors M stab m)) (Some (en, 0)) y
      | _ \<Rightarrow> False)"

fun loop_code ::
  "('e, 'm, 's, 'v, 'b) machine \<Rightarrow> out_blk list \<Rightarrow> (tgt \<Rightarrow> nat option) \<Rightarrow> symheap \<Rightarrow> nat \<Rightarrow> (nat \<Rightarrow> nat option \<times> nat option) \<Rightarrow>
    'e gstmt \<Rightarrow> nat \<Rightarrow> nat \<Rightarrow> (nat \<times> nat) option \<Rightarrow> (nat \<times> nat) option \<Rightarrow> bool" where
  "loop_code M G T h ep fl (G_while p flow stab e l) con brk w y \<longleftrightarrow>
     compiled M G T h ep fl (G_while p flow stab e l) (Some (con, 0)) y \<and> jumps M G (\<lambda>m. m) con w \<and>
     moves M G (\<lambda>m. Some (cs_dtors M stab m)) (Some (brk, 0)) y"
| "loop_code M G T h ep fl (G_do p l e) con brk w y \<longleftrightarrow>
     (\<exists>be. jumps M G (\<lambda>m. m) con w \<and> reaches M G (cs_eval M e) (\<lambda>v. if v \<noteq> 0 then be else brk) (Some (con, 0)) \<and>
        compiled M G T h ep fl (G_do p l e) (Some (be, 0)) y \<and> y = Some (brk, 0))"
| "loop_code M G T h ep fl (G_for p stab init c inc l) con brk w y \<longleftrightarrow>
     (\<exists>te. jumps M G (\<lambda>m. m) con w \<and> reaches M G (to_unit (opt_eval M inc)) (\<lambda>_. te) (Some (con, 0)) \<and>
        for_code M G T h ep fl (G_for p stab init c inc l) te y \<and> moves M G (\<lambda>m. Some (cs_dtors M stab m)) (Some (brk, 0)) y)"
| "loop_code M G T h ep fl _ con brk w y \<longleftrightarrow> False"

lemma jumps_here: "jumps M G (\<lambda>m. m) b (Some (b, 0))"
  unfolding reaches_def by (metis option.inject prod.inject pruns_refl)

lemma while_loop_code:
  assumes "compiled M G T h ep fl (G_while p flow stab e l) x y"
  obtains co bo br z w where "jumps M G (\<lambda>m. m) co x" "moves M G (cs_decls M stab) (Some (co, 0)) z"
    "reaches M G (cs_eval M e) (\<lambda>v. if v \<noteq> 0 then bo else br) z" "compiled M G T h ep (fl(p := (Some co, Some br))) l (Some (bo, 0)) w"
    "moves M G (\<lambda>m. Some (cs_dtors M stab m)) (Some (br, 0)) y" "loop_code M G T h ep fl (G_while p flow stab e l) co br w y"
proof -
  obtain co bo br z w where c: "jumps M G (\<lambda>m. m) co x" "moves M G (cs_decls M stab) (Some (co, 0)) z"
    "reaches M G (cs_eval M e) (\<lambda>v. if v \<noteq> 0 then bo else br) z" "compiled M G T h ep (fl(p := (Some co, Some br))) l (Some (bo, 0)) w"
    "jumps M G (\<lambda>m. m) co w" "moves M G (\<lambda>m. Some (cs_dtors M stab m)) (Some (br, 0)) y"
    using assms unfolding compiled.simps by blast
  have "compiled M G T h ep fl (G_while p flow stab e l) (Some (co, 0)) y"
    unfolding compiled.simps using c jumps_here [of M G co] by blast
  then show thesis using that c by simp
qed

lemma do_loop_code:
  assumes "compiled M G T h ep fl (G_do p l e) x y"
  obtains be te en w where "jumps M G (\<lambda>m. m) be x" "compiled M G T h ep (fl(p := (Some te, Some en))) l (Some (be, 0)) w"
    "loop_code M G T h ep fl (G_do p l e) te en w y"
proof -
  obtain be te en w where c: "jumps M G (\<lambda>m. m) be x" "compiled M G T h ep (fl(p := (Some te, Some en))) l (Some (be, 0)) w"
    "jumps M G (\<lambda>m. m) te w" "reaches M G (cs_eval M e) (\<lambda>v. if v \<noteq> 0 then be else en) (Some (te, 0))" "y = Some (en, 0)"
    using assms unfolding compiled.simps by blast
  have "compiled M G T h ep fl (G_do p l e) (Some (be, 0)) y"
    unfolding compiled.simps using c jumps_here [of M G be] by blast
  then have "loop_code M G T h ep fl (G_do p l e) te en w y" using c(3-5) by auto
  then show thesis using that c(1,2) by blast
qed

lemma for_loop_code:
  assumes "for_code M G T h ep fl (G_for p stab init c inc l) te y"
  obtains bo en ic w where "for_test_ok M c bo en G (Some (te, 0))" "compiled M G T h ep (fl(p := (Some ic, Some en))) l (Some (bo, 0)) w"
    "moves M G (\<lambda>m. Some (cs_dtors M stab m)) (Some (en, 0)) y" "loop_code M G T h ep fl (G_for p stab init c inc l) ic en w y"
proof -
  obtain bo en ic w where c: "for_test_ok M c bo en G (Some (te, 0))" "compiled M G T h ep (fl(p := (Some ic, Some en))) l (Some (bo, 0)) w"
    "jumps M G (\<lambda>m. m) ic w" "reaches M G (to_unit (opt_eval M inc)) (\<lambda>_. te) (Some (ic, 0))"
    "moves M G (\<lambda>m. Some (cs_dtors M stab m)) (Some (en, 0)) y"
    using assms unfolding for_code_def gstmt.case by blast
  then have "loop_code M G T h ep fl (G_for p stab init c inc l) ic en w y" using assms by auto
  then show thesis using that c by blast
qed

lemma code_follows:
  "exec M h md s m x m' \<Longrightarrow> \<forall>fl a y. compiled M G T h ep fl s a y \<longrightarrow> follows M G (entry T a md) m (target T ep fl y x) m'"
  "execs M h md ss m x m' \<Longrightarrow> \<forall>fl a y. compileds M G T h ep fl ss a y \<longrightarrow> follows M G (entry T a md) m (target T ep fl y x) m'"
  "loop M h s x m x' m' \<Longrightarrow> \<forall>fl con brk w y. loop_code M G T h ep fl s con brk w y \<longrightarrow>
     follows M G (target T ep (fl(loop_id s := (Some con, Some brk))) w x) m (target T ep fl y x') m'"
  "for_loop M h s m x m' \<Longrightarrow> \<forall>fl te y. for_code M G T h ep fl s te y \<longrightarrow> follows M G (Some (te, 0)) m (target T ep fl y x) m'"
proof (induct rule: exec_execs_loop_for_loop.inducts)
  case (noop m)
  then show ?case by (simp add: follows_refl)
next
  case (expr e m v m')
  then show ?case by (auto simp: opt_eval_def intro!: follows_moves)
next
  case (break f t ls p m)
  then show ?case by (auto simp: target_def intro: follows_jumps)
next
  case (continue f t ls p m)
  then show ?case by (auto simp: target_def intro: follows_jumps)
next
  case (return f t ls e m u m')
  then show ?case by (auto simp: target_def intro: follows_reaches [of M G _ "\<lambda>_. ep"])
next
  case (goto f t ls l m)
  then show ?case by (auto simp: target_def intro: follows_jumps)
next
  case (if_true stab m m1 e v m2 l x m3 flow r)
  show ?case
  proof (intro allI impI)
    fix fl a y assume "compiled M G T h ep fl (G_if flow stab e l r) a y"
    then obtain z b c fi w1 w2 where c: "moves M G (cs_decls M stab) a z" "reaches M G (cs_eval M e) (\<lambda>v. if v \<noteq> 0 then b else c) z"
      "compiled M G T h ep fl l (Some (b, 0)) w1" "jumps M G (\<lambda>m. m) fi w1" "moves M G (\<lambda>m. Some (cs_dtors M stab m)) (Some (fi, 0)) y"
      unfolding compiled.simps by blast
    have "follows M G z m1 (Some (b, 0)) m2" using follows_reaches [OF c(2) if_true(2)] if_true(3) by simp
    note f = follows_trans [OF follows_moves [OF c(1) if_true(1)] this]
    have "follows M G (Some (b, 0)) m2 (target T ep fl w1 x) m3" using if_true(5) [rule_format, OF c(3)] by simp
    from follows_trans [OF follows_trans [OF f this] follows_leave [OF c(4,5)]]
    show "follows M G (entry T a Run) m (target T ep fl y x) (leave M stab x m3)" by simp
  qed
next
  case (if_false stab m m1 e m2 r x m3 flow l)
  show ?case
  proof (intro allI impI)
    fix fl a y assume "compiled M G T h ep fl (G_if flow stab e l (Some r)) a y"
    then obtain z b c fi w1 w2 where c: "moves M G (cs_decls M stab) a z" "reaches M G (cs_eval M e) (\<lambda>v. if v \<noteq> 0 then b else c) z"
      "compiled M G T h ep fl r (Some (c, 0)) w2" "jumps M G (\<lambda>m. m) fi w2" "moves M G (\<lambda>m. Some (cs_dtors M stab m)) (Some (fi, 0)) y"
      unfolding compiled.simps option.case by blast
    have "follows M G z m1 (Some (c, 0)) m2" using follows_reaches [OF c(2) if_false(2)] by simp
    note f = follows_trans [OF follows_moves [OF c(1) if_false(1)] this]
    have "follows M G (Some (c, 0)) m2 (target T ep fl w2 x) m3" using if_false(4) [rule_format, OF c(3)] by simp
    from follows_trans [OF follows_trans [OF f this] follows_leave [OF c(4,5)]]
    show "follows M G (entry T a Run) m (target T ep fl y x) (leave M stab x m3)" by simp
  qed
next
  case (if_none stab m m1 e m2 flow l)
  show ?case
  proof (intro allI impI)
    fix fl a y assume "compiled M G T h ep fl (G_if flow stab e l None) a y"
    then obtain z b c fi where c: "moves M G (cs_decls M stab) a z" "reaches M G (cs_eval M e) (\<lambda>v. if v \<noteq> 0 then b else c) z"
      "jumps M G (\<lambda>m. m) fi (Some (c, 0))" "moves M G (\<lambda>m. Some (cs_dtors M stab m)) (Some (fi, 0)) y"
      unfolding compiled.simps option.case by blast
    have "follows M G z m1 (Some (c, 0)) m2" using follows_reaches [OF c(2) if_none(2)] by simp
    note f = follows_trans [OF follows_moves [OF c(1) if_none(1)] this]
    from follows_trans [OF f follows_leave [OF c(3,4), of T ep fl X_normal, simplified]]
    show "follows M G (entry T a Run) m (target T ep fl y X_normal) (cs_dtors M stab m2)" by (simp add: leave_def)
  qed
next
  case (if_seek tg l m x m1 flow stab e r)
  show ?case
  proof (intro allI impI)
    fix fl a y assume "compiled M G T h ep fl (G_if flow stab e l r) a y"
    then obtain b fi w1 where c: "compiled M G T h ep fl l (Some (b, 0)) w1" "jumps M G (\<lambda>m. m) fi w1"
      "moves M G (\<lambda>m. Some (cs_dtors M stab m)) (Some (fi, 0)) y"
      unfolding compiled.simps by blast
    have "follows M G (entry T a (Seek tg)) m (target T ep fl w1 x) m1" using if_seek(2) [rule_format, OF c(1)] by simp
    from follows_trans [OF this follows_leave [OF c(2,3)]]
    show "follows M G (entry T a (Seek tg)) m (target T ep fl y x) (leave M stab x m1)" .
  qed
next
  case (if_seek_else tg r m x m1 flow stab e l)
  show ?case
  proof (intro allI impI)
    fix fl a y assume "compiled M G T h ep fl (G_if flow stab e l (Some r)) a y"
    then obtain b fi w1 where c: "compiled M G T h ep fl r (Some (b, 0)) w1" "jumps M G (\<lambda>m. m) fi w1"
      "moves M G (\<lambda>m. Some (cs_dtors M stab m)) (Some (fi, 0)) y"
      unfolding compiled.simps option.case by blast
    have "follows M G (entry T a (Seek tg)) m (target T ep fl w1 x) m1" using if_seek_else(2) [rule_format, OF c(1)] by simp
    from follows_trans [OF this follows_leave [OF c(2,3)]]
    show "follows M G (entry T a (Seek tg)) m (target T ep fl y x) (leave M stab x m1)" .
  qed
next
  case (while_end stab m m1 e m2 p flow l)
  show ?case
  proof (intro allI impI)
    fix fl a y assume "compiled M G T h ep fl (G_while p flow stab e l) a y"
    then obtain co bo br z w where c: "jumps M G (\<lambda>m. m) co a" "moves M G (cs_decls M stab) (Some (co, 0)) z"
      "reaches M G (cs_eval M e) (\<lambda>v. if v \<noteq> 0 then bo else br) z" "moves M G (\<lambda>m. Some (cs_dtors M stab m)) (Some (br, 0)) y"
      by (rule while_loop_code)
    have "follows M G z m1 (Some (br, 0)) m2" using follows_reaches [OF c(3) while_end(2)] by simp
    from follows_trans [OF follows_trans [OF follows_trans [OF follows_jumps [OF c(1)] follows_moves [OF c(2) while_end(1)]] this] follows_moves [OF c(4)]]
    show "follows M G (entry T a Run) m (target T ep fl y X_normal) (cs_dtors M stab m2)" by simp
  qed
next
  case (while_body stab m m1 e v m2 l x m3 p flow x' m')
  show ?case
  proof (intro allI impI)
    fix fl a y assume "compiled M G T h ep fl (G_while p flow stab e l) a y"
    then obtain co bo br z w where c: "jumps M G (\<lambda>m. m) co a" "moves M G (cs_decls M stab) (Some (co, 0)) z"
      "reaches M G (cs_eval M e) (\<lambda>v. if v \<noteq> 0 then bo else br) z" "compiled M G T h ep (fl(p := (Some co, Some br))) l (Some (bo, 0)) w"
      "loop_code M G T h ep fl (G_while p flow stab e l) co br w y"
      by (rule while_loop_code)
    have "follows M G z m1 (Some (bo, 0)) m2" using follows_reaches [OF c(3) while_body(2)] while_body(3) by simp
    note f = follows_trans [OF follows_trans [OF follows_jumps [OF c(1)] follows_moves [OF c(2) while_body(1)]] this]
    have b: "follows M G (Some (bo, 0)) m2 (target T ep (fl(p := (Some co, Some br))) w x) m3" using while_body(5) [rule_format, OF c(4)] by simp
    have "follows M G (target T ep (fl(p := (Some co, Some br))) w x) m3 (target T ep fl y x') m'" using while_body(7) [rule_format, OF c(5)] by simp
    from follows_trans [OF follows_trans [OF f b] this]
    show "follows M G (entry T a Run) m (target T ep fl y x') m'" by simp
  qed
next
  case (while_seek tg l m x m1 p flow stab e x' m')
  show ?case
  proof (intro allI impI)
    fix fl a y assume "compiled M G T h ep fl (G_while p flow stab e l) a y"
    then obtain co bo br w where c: "compiled M G T h ep (fl(p := (Some co, Some br))) l (Some (bo, 0)) w"
      "loop_code M G T h ep fl (G_while p flow stab e l) co br w y"
      by (rule while_loop_code)
    have b: "follows M G (entry T a (Seek tg)) m (target T ep (fl(p := (Some co, Some br))) w x) m1" using while_seek(2) [rule_format, OF c(1)] by simp
    have "follows M G (target T ep (fl(p := (Some co, Some br))) w x) m1 (target T ep fl y x') m'" using while_seek(4) [rule_format, OF c(2)] by simp
    from follows_trans [OF b this] show "follows M G (entry T a (Seek tg)) m (target T ep fl y x') m'" .
  qed
next
  case (while_again p x flow stab e l m x' m')
  show ?case
  proof (intro allI impI)
    fix fl con brk w y assume "loop_code M G T h ep fl (G_while p flow stab e l) con brk w y"
    then have c: "compiled M G T h ep fl (G_while p flow stab e l) (Some (con, 0)) y" "jumps M G (\<lambda>m. m) con w" unfolding loop_code.simps by blast+
    have "follows M G (Some (con, 0)) m (target T ep fl y x') m'" using while_again(3) [rule_format, OF c(1)] by simp
    from follows_trans [OF follows_again [OF while_again(1) c(2)] this]
    show "follows M G (target T ep (fl(loop_id (G_while p flow stab e l) := (Some con, Some brk))) w x) m (target T ep fl y x') m'" by simp
  qed
next
  case (while_break p flow stab e l m)
  then show ?case by (simp del: compiled.simps fun_upd_apply) (blast intro: follows_dtors)
next
  case (while_jump p x flow stab e l m)
  then show ?case using target_jump [OF while_jump] follows_refl by (metis loop_id.simps(1))
next
  case (do_body md l m x m1 p e x' m')
  show ?case
  proof (intro allI impI)
    fix fl a y assume "compiled M G T h ep fl (G_do p l e) a y"
    then obtain be te en w where c: "jumps M G (\<lambda>m. m) be a" "compiled M G T h ep (fl(p := (Some te, Some en))) l (Some (be, 0)) w"
      "loop_code M G T h ep fl (G_do p l e) te en w y"
      by (rule do_loop_code)
    have "follows M G (entry T a md) m (entry T (Some (be, 0)) md) m" using follows_jumps [OF c(1), of m] by (cases md) (simp_all add: follows_refl)
    moreover have b: "follows M G (entry T (Some (be, 0)) md) m (target T ep (fl(p := (Some te, Some en))) w x) m1" using do_body(2) c(2) by blast
    moreover have "follows M G (target T ep (fl(p := (Some te, Some en))) w x) m1 (target T ep fl y x') m'" using do_body(4) [rule_format, OF c(3)] by simp
    ultimately show "follows M G (entry T a md) m (target T ep fl y x') m'" by (blast intro: follows_trans)
  qed
next
  case (do_again p x e m v m1 l x' m')
  show ?case
  proof (intro allI impI)
    fix fl con brk w y assume "loop_code M G T h ep fl (G_do p l e) con brk w y"
    then obtain be where c: "jumps M G (\<lambda>m. m) con w" "reaches M G (cs_eval M e) (\<lambda>v. if v \<noteq> 0 then be else brk) (Some (con, 0))"
      "compiled M G T h ep fl (G_do p l e) (Some (be, 0)) y" unfolding loop_code.simps by blast
    have "follows M G (Some (con, 0)) m (Some (be, 0)) m1" using follows_reaches [OF c(2) do_again(2)] do_again(3) by simp
    moreover have "follows M G (Some (be, 0)) m1 (target T ep fl y x') m'" using do_again(5) [rule_format, OF c(3)] by simp
    ultimately have "follows M G (Some (con, 0)) m (target T ep fl y x') m'" by (rule follows_trans)
    from follows_trans [OF follows_again [OF do_again(1) c(1)] this]
    show "follows M G (target T ep (fl(loop_id (G_do p l e) := (Some con, Some brk))) w x) m (target T ep fl y x') m'" by simp
  qed
next
  case (do_end p x e m m1 l)
  show ?case
  proof (intro allI impI)
    fix fl con brk w y assume "loop_code M G T h ep fl (G_do p l e) con brk w y"
    then obtain be where c: "jumps M G (\<lambda>m. m) con w" "reaches M G (cs_eval M e) (\<lambda>v. if v \<noteq> 0 then be else brk) (Some (con, 0))"
      "y = Some (brk, 0)" unfolding loop_code.simps by blast
    have "follows M G (Some (con, 0)) m y m1" using follows_reaches [OF c(2) do_end(2)] c(3) by simp
    from follows_trans [OF follows_again [OF do_end(1) c(1)] this]
    show "follows M G (target T ep (fl(loop_id (G_do p l e) := (Some con, Some brk))) w x) m (target T ep fl y X_normal) m1" by simp
  qed
next
  case (do_break p l e m)
  then show ?case by (auto simp: follows_refl simp del: compiled.simps fun_upd_apply)
next
  case (do_jump p x l e m)
  then show ?case using target_jump [OF do_jump] follows_refl by (metis loop_id.simps(2))
next
  case (for_start stab m init m1 p c inc l x' m')
  show ?case
  proof (intro allI impI)
    fix fl a y assume "compiled M G T h ep fl (G_for p stab init c inc l) a y"
    then obtain te where k: "reaches M G (to_unit (\<lambda>m. Option.bind (cs_decls M stab m) (opt_eval M init))) (\<lambda>_. te) a"
      "for_code M G T h ep fl (G_for p stab init c inc l) te y"
      unfolding compiled.simps for_code_def gstmt.case by blast
    have "follows M G a m (Some (te, 0)) m1" using follows_reaches [OF k(1), of m "()" m1] for_start(1) by simp
    moreover have "follows M G (Some (te, 0)) m1 (target T ep fl y x') m'" using for_start(3) k(2) by blast
    ultimately show "follows M G (entry T a Run) m (target T ep fl y x') m'" by (simp add: follows_trans)
  qed
next
  case (for_end c m m1 p stab init inc l)
  show ?case
  proof (intro allI impI)
    fix fl te y assume "for_code M G T h ep fl (G_for p stab init c inc l) te y"
    then obtain bo en where k: "for_test_ok M c bo en G (Some (te, 0))" "moves M G (\<lambda>m. Some (cs_dtors M stab m)) (Some (en, 0)) y"
      by (rule for_loop_code)
    have "follows M G (Some (te, 0)) m (Some (en, 0)) m1" using follows_test [OF k(1) for_end(1)] by simp
    from follows_trans [OF this follows_moves [OF k(2)]]
    show "follows M G (Some (te, 0)) m (target T ep fl y X_normal) (cs_dtors M stab m1)" by simp
  qed
next
  case (for_body c m m1 l x m2 p stab init inc x' m')
  show ?case
  proof (intro allI impI)
    fix fl te y assume "for_code M G T h ep fl (G_for p stab init c inc l) te y"
    then obtain bo en ic w where k: "for_test_ok M c bo en G (Some (te, 0))" "compiled M G T h ep (fl(p := (Some ic, Some en))) l (Some (bo, 0)) w"
      "loop_code M G T h ep fl (G_for p stab init c inc l) ic en w y" by (rule for_loop_code)
    have f: "follows M G (Some (te, 0)) m (Some (bo, 0)) m1" using follows_test [OF k(1) for_body(1)] by simp
    have b: "follows M G (Some (bo, 0)) m1 (target T ep (fl(p := (Some ic, Some en))) w x) m2" using for_body(3) [rule_format, OF k(2)] by simp
    have "follows M G (target T ep (fl(p := (Some ic, Some en))) w x) m2 (target T ep fl y x') m'" using for_body(5) [rule_format, OF k(3)] by simp
    from follows_trans [OF follows_trans [OF f b] this] show "follows M G (Some (te, 0)) m (target T ep fl y x') m'" .
  qed
next
  case (for_seek tg l m x m1 p stab init c inc x' m')
  show ?case
  proof (intro allI impI)
    fix fl a y assume "compiled M G T h ep fl (G_for p stab init c inc l) a y"
    then obtain te where "for_code M G T h ep fl (G_for p stab init c inc l) te y"
      unfolding compiled.simps for_code_def gstmt.case by blast
    then obtain bo en ic w where k: "compiled M G T h ep (fl(p := (Some ic, Some en))) l (Some (bo, 0)) w"
      "loop_code M G T h ep fl (G_for p stab init c inc l) ic en w y" by (rule for_loop_code)
    have b: "follows M G (entry T a (Seek tg)) m (target T ep (fl(p := (Some ic, Some en))) w x) m1" using for_seek(2) [rule_format, OF k(1)] by simp
    have "follows M G (target T ep (fl(p := (Some ic, Some en))) w x) m1 (target T ep fl y x') m'" using for_seek(4) [rule_format, OF k(2)] by simp
    from follows_trans [OF b this] show "follows M G (entry T a (Seek tg)) m (target T ep fl y x') m'" .
  qed
next
  case (for_again p x inc m m1 stab init c l x' m')
  show ?case
  proof (intro allI impI)
    fix fl con brk w y assume "loop_code M G T h ep fl (G_for p stab init c inc l) con brk w y"
    then obtain te where k: "jumps M G (\<lambda>m. m) con w" "reaches M G (to_unit (opt_eval M inc)) (\<lambda>_. te) (Some (con, 0))"
      "for_code M G T h ep fl (G_for p stab init c inc l) te y" unfolding loop_code.simps by blast
    have "follows M G (Some (con, 0)) m (Some (te, 0)) m1" using follows_reaches [OF k(2), of m "()" m1] for_again(2) by simp
    moreover have "follows M G (Some (te, 0)) m1 (target T ep fl y x') m'" using for_again(4) k(3) by blast
    ultimately have "follows M G (Some (con, 0)) m (target T ep fl y x') m'" by (rule follows_trans)
    from follows_trans [OF follows_again [OF for_again(1) k(1)] this]
    show "follows M G (target T ep (fl(loop_id (G_for p stab init c inc l) := (Some con, Some brk))) w x) m (target T ep fl y x') m'" by simp
  qed
next
  case (for_break p stab init c inc l m)
  then show ?case by (simp del: compiled.simps fun_upd_apply) (blast intro: follows_dtors)
next
  case (for_jump p x stab init c inc l m)
  then show ?case using target_jump [OF for_jump] follows_refl by (metis loop_id.simps(3))
next
  case (switch_case stab m m1 e v m2 cs d k l x m3 p flow)
  show ?case
  proof (intro allI impI)
    fix fl a y assume "compiled M G T h ep fl (G_switch p flow stab e cs d l) a y"
    then obtain fin z b w where c: "moves M G (cs_decls M stab) a z" "\<forall>k \<in> set (case_keys cs d). T (T_case k) \<noteq> None"
        "reaches M G (cs_eval M e) (\<lambda>v. case selected cs d v of None \<Rightarrow> fin | Some k \<Rightarrow> the (T (T_case k))) z"
        "compiled M G T h ep (fl(p := (None, Some fin))) l (Some (b, 0)) w" "jumps M G (\<lambda>m. m) fin w"
        "moves M G (\<lambda>m. Some (cs_dtors M stab m)) (Some (fin, 0)) y"
      unfolding compiled.simps by blast
    have "follows M G z m1 (Some (the (T (T_case k)), 0)) m2" using follows_reaches [OF c(3) switch_case(2)] switch_case(3) by simp
    note f = follows_trans [OF follows_moves [OF c(1) switch_case(1)] this]
    have "k \<in> set (case_keys cs d)" using selected_key [OF switch_case(3)] .
    then have "entry T a (Seek (T_case k)) = Some (the (T (T_case k)), 0)" using c(2) by auto
    then have b: "follows M G (Some (the (T (T_case k)), 0)) m2 (target T ep (fl(p := (None, Some fin))) w x) m3"
      using switch_case(5) c(4) by (metis entry_simps(2))
    from follows_trans [OF follows_trans [OF f b] follows_switch [OF c(5,6)]]
    show "follows M G (entry T a Run) m (target T ep fl y (sw_exit p x)) (leave M stab (sw_exit p x) m3)" by simp
  qed
next
  case (switch_none stab m m1 e v m2 cs d p flow l)
  show ?case
  proof (intro allI impI)
    fix fl a y assume "compiled M G T h ep fl (G_switch p flow stab e cs d l) a y"
    then obtain fin z where c: "moves M G (cs_decls M stab) a z"
        "reaches M G (cs_eval M e) (\<lambda>v. case selected cs d v of None \<Rightarrow> fin | Some k \<Rightarrow> the (T (T_case k))) z"
        "moves M G (\<lambda>m. Some (cs_dtors M stab m)) (Some (fin, 0)) y"
      unfolding compiled.simps by blast
    have "follows M G z m1 (Some (fin, 0)) m2" using follows_reaches [OF c(2) switch_none(2)] switch_none(3) by simp
    from follows_trans [OF follows_trans [OF follows_moves [OF c(1) switch_none(1)] this] follows_moves [OF c(3)]]
    show "follows M G (entry T a Run) m (target T ep fl y X_normal) (cs_dtors M stab m2)" by simp
  qed
next
  case (switch_seek tg l m x m1 p flow stab e cs d)
  show ?case
  proof (intro allI impI)
    fix fl a y assume "compiled M G T h ep fl (G_switch p flow stab e cs d l) a y"
    then obtain fin b w where c: "compiled M G T h ep (fl(p := (None, Some fin))) l (Some (b, 0)) w" "jumps M G (\<lambda>m. m) fin w"
        "moves M G (\<lambda>m. Some (cs_dtors M stab m)) (Some (fin, 0)) y"
      unfolding compiled.simps by blast
    have "follows M G (entry T a (Seek tg)) m (target T ep (fl(p := (None, Some fin))) w x) m1" using switch_seek(2) [rule_format, OF c(1)] by simp
    from follows_trans [OF this follows_switch [OF c(2,3)]]
    show "follows M G (entry T a (Seek tg)) m (target T ep fl y (sw_exit p x)) (leave M stab (sw_exit p x) m1)" .
  qed
next
  case (case_run l m x m' md k)
  show ?case
  proof (intro allI impI)
    fix fl a y assume "compiled M G T h ep fl (G_case k l) a y"
    then obtain b where c: "T (T_case k) = Some b" "jumps M G (\<lambda>m. m) b a" "compiled M G T h ep fl l (Some (b, 0)) y" unfolding compiled.simps by blast
    have "follows M G (entry T a md) m (Some (b, 0)) m" using case_run(3) follows_jumps [OF c(2), of m] c(1) by (auto simp: follows_refl)
    moreover have "follows M G (Some (b, 0)) m (target T ep fl y x) m'" using case_run(2) [rule_format, OF c(3)] by simp
    ultimately show "follows M G (entry T a md) m (target T ep fl y x) m'" by (rule follows_trans)
  qed
next
  case (case_seek tg l m x m' k)
  then show ?case unfolding compiled.simps entry_simps by blast
next
  case (label_run l m x m' md k sp)
  show ?case
  proof (intro allI impI)
    fix fl a y assume "compiled M G T h ep fl (G_label k sp l) a y"
    then obtain b where c: "T (T_label k) = Some b" "jumps M G (\<lambda>m. m) b a" "compiled M G T h ep fl l (Some (b, 0)) y" unfolding compiled.simps by blast
    have "follows M G (entry T a md) m (Some (b, 0)) m" using label_run(3) follows_jumps [OF c(2), of m] c(1) by (auto simp: follows_refl)
    moreover have "follows M G (Some (b, 0)) m (target T ep fl y x) m'" using label_run(2) [rule_format, OF c(3)] by simp
    ultimately show "follows M G (entry T a md) m (target T ep fl y x) m'" by (rule follows_trans)
  qed
next
  case (label_seek tg l m x m' k sp)
  then show ?case unfolding compiled.simps entry_simps by blast
next
  case (code_run stab m m1 ss x m2)
  show ?case
  proof (intro allI impI)
    fix fl a y assume "compiled M G T h ep fl (G_code stab ss) a y"
    then obtain z w where c: "moves M G (cs_decls M stab) a z" "compileds M G T h ep fl ss z w" "moves M G (\<lambda>m. Some (cs_dtors M stab m)) w y"
      unfolding compiled.simps by blast
    have "follows M G z m1 (target T ep fl w x) m2" using code_run(3) [rule_format, OF c(2)] by simp
    from follows_trans [OF follows_trans [OF follows_moves [OF c(1) code_run(1)] this] follows_scope [OF c(3)]]
    show "follows M G (entry T a Run) m (target T ep fl y x) (leave M stab x m2)" by simp
  qed
next
  case (code_seek tg ss m x m1 stab)
  show ?case
  proof (intro allI impI)
    fix fl a y assume "compiled M G T h ep fl (G_code stab ss) a y"
    then obtain z w where c: "compileds M G T h ep fl ss z w" "moves M G (\<lambda>m. Some (cs_dtors M stab m)) w y"
      unfolding compiled.simps by blast
    have "follows M G (entry T a (Seek tg)) m (target T ep fl w x) m1" using code_seek(2) [rule_format, OF c(1)] by simp
    from follows_trans [OF this follows_scope [OF c(2)]]
    show "follows M G (entry T a (Seek tg)) m (target T ep fl y x) (leave M stab x m1)" .
  qed
next
  case (nil m)
  then show ?case by (simp add: follows_refl)
next
  case (cons md s m m1 ss x m')
  show ?case
  proof (intro allI impI)
    fix fl a y assume "compileds M G T h ep fl (s # ss) a y"
    then obtain z where c: "compiled M G T h ep fl s a z" "compileds M G T h ep fl ss z y" unfolding compileds.simps by blast
    have "follows M G (entry T a md) m z m1" using cons(2) [rule_format, OF c(1)] by simp
    moreover have "follows M G z m1 (target T ep fl y x) m'" using cons(4) [rule_format, OF c(2)] by simp
    ultimately show "follows M G (entry T a md) m (target T ep fl y x) m'" by (rule follows_trans)
  qed
next
  case (stop md s m x m' ss)
  then show ?case unfolding compileds.simps using target_exit by metis
next
  case (skip tg ss m x m' s)
  then show ?case unfolding compileds.simps entry_simps by blast
qed

end
