(* ===== verification/Ucc_Gen_Run.thy ===== *)
theory Ucc_Gen_Run
  imports Ucc_Gen_Exec
begin

text \<open>
  Functions: the body of a function, from its statements to the lines of assembler.  A \<^verbatim>\<open>goto\<close> leaves the
  statements around it up to the body and starts again at the label.  A small backend shows that the
  contract can be met, and runs a loop.
\<close>

section \<open>The body of a function\<close>

text \<open>\<^verbatim>\<open>gen_stmt\<close> for the body, and the start of \<^verbatim>\<open>out_func_epilogue\<close>: a body that ends goes on in the epilogue.\<close>

definition gen_func_body :: "('e, 'v, 'b) backend \<Rightarrow> symheap \<Rightarrow> 'e gstmt \<Rightarrow> 'b gen" where
  "gen_func_body B h s g =
     bindE (gen_stmt B h s g) (\<lambda>g.
       case oc_current g of
         None \<Rightarrow> Inr g
       | Some b \<Rightarrow>
         bindE (blk_at (oc_blks g) b) (\<lambda>k.
           if bk_type k = BLK_UNINIT then transfer B (oc_epilogue g) g else Inr g))"

inductive fn_exec :: "('e, 'm, 's, 'v, 'b) machine \<Rightarrow> symheap \<Rightarrow> mode \<Rightarrow> 'e gstmt \<Rightarrow> 'm \<Rightarrow> 'm \<Rightarrow> bool"
  for M :: "('e, 'm, 's, 'v, 'b) machine" and h :: symheap where
  fn_end: "exec M h md s m x m' \<Longrightarrow> x = X_normal \<or> x = X_return \<Longrightarrow> fn_exec M h md s m m'"
| fn_goto: "exec M h md s m (X_goto l) m1 \<Longrightarrow> fn_exec M h (Seek (T_label l)) s m1 m' \<Longrightarrow> fn_exec M h md s m m'"

lemma fn_follows:
  assumes "fn_exec M h md s m m'" "compiled M G T h ep fl s a y" "jumps M G (\<lambda>m. m) ep y"
  shows "follows M G (entry T a md) m (Some (ep, 0)) m'"
  using assms
proof (induct arbitrary: a rule: fn_exec.induct)
  case (fn_end md s m x m')
  have "follows M G (entry T a md) m (target T ep fl y x) m'" using code_follows(1) [OF fn_end(1)] fn_end(3) by blast
  then show ?case using fn_end(2) follows_trans [OF _ follows_jumps [OF fn_end(4)]] by (auto simp: target_def)
next
  case (fn_goto md s m l m1 m')
  have "follows M G (entry T a md) m (target T ep fl y (X_goto l)) m1" using code_follows(1) [OF fn_goto(1)] fn_goto(4) by blast
  then have "follows M G (entry T a md) m (entry T a (Seek (T_label l))) m1" by (simp add: target_def)
  from follows_trans [OF this fn_goto(3) [OF fn_goto(4,5)]] show ?case .
qed

section \<open>Runs of blocks\<close>

lemma pruns_gruns_gen:
  assumes "pruns M G x ((c, 0), t)"
  shows "\<forall>b i s s0. x = ((b, i), s) \<longrightarrow> s = fold (mc_ex M) (take i (bk_insns (G ! b))) s0 \<longrightarrow> gruns (mc_ex M) (mc_jp M) G (b, s0) (c, t)"
  using assms unfolding pruns_def
proof (induct rule: converse_rtranclp_induct)
  case base
  then show ?case by (simp add: gruns_def)
next
  case (step x y)
  show ?case
  proof (intro allI impI)
    fix b i s s0 assume x: "x = ((b, i), s)" "s = fold (mc_ex M) (take i (bk_insns (G ! b))) s0"
    have b: "b < length G" using step(1) x by (auto simp: pnext_def split: if_splits)
    show "gruns (mc_ex M) (mc_jp M) G (b, s0) (c, t)"
    proof (cases "i < length (bk_insns (G ! b))")
      case True
      then have "y = ((b, Suc i), fold (mc_ex M) (take (Suc i) (bk_insns (G ! b))) s0)"
        using step(1) x b by (simp add: pnext_def take_Suc_conv_app_nth)
      then show ?thesis using step(3) by blast
    next
      case False
      then have s: "s = fold (mc_ex M) (bk_insns (G ! b)) s0" using x(2) by simp
      obtain n where n: "y = ((n, 0), s)" "gnext (mc_ex M) (mc_jp M) G (b, s0) = Some (n, s)"
        using step(1) x(1) b False s by (auto simp: pnext_def gnext_def Let_def split: blk_type.splits)
      then have "gruns (mc_ex M) (mc_jp M) G (n, s) (c, t)" using step(3) by (metis fold_simps(1) take_0)
      then show ?thesis using n(2) unfolding gruns_def by (metis (mono_tags, lifting) converse_rtranclp_into_rtranclp)
    qed
  qed
qed

lemma pruns_gruns: "pruns M G ((b, 0), s) ((c, 0), t) \<Longrightarrow> gruns (mc_ex M) (mc_jp M) G (b, s) (c, t)"
  using pruns_gruns_gen [of M G "((b, 0), s)" c t] by simp

lemma gruns_trans: "gruns ex jp G x y \<Longrightarrow> gruns ex jp G y z \<Longrightarrow> gruns ex jp G x z"
  by (simp add: gruns_def)

lemma func_body_follows:
  assumes B: "backend_ok M B" and s: "wf_scopes h s" "dist s" and i: "ginv g" and c: "cur g = Some (b0, 0)" and t: "gc_tgt g = Map.empty"
    and run: "gen_func_body B h s g = Inr g'" and G: "ext (oc_blks g') G" and ex: "fn_exec M h Run s m m'"
  shows "follows M G (Some (b0, 0)) m (Some (oc_epilogue g, 0)) m'"
proof -
  obtain g1 where r: "gen_stmt B h s g = Inr g1" and
    e: "(case oc_current g1 of
         None \<Rightarrow> Inr g1
       | Some b \<Rightarrow>
         bindE (blk_at (oc_blks g1) b) (\<lambda>k.
           if bk_type k = BLK_UNINIT then transfer B (oc_epilogue g1) g1 else Inr g1)) = Inr g'"
    using run by (auto simp: gen_func_body_def bindE_eq_Inr)
  have "unbound (binds s) g" "tfresh (keys s) g" using t by (simp_all add: unbound_def tfresh_def)
  then have gr: "grow (tks s) (binds s) (flows s) g g1" and
    comp: "\<And>G T. ext (oc_blks g1) G \<Longrightarrow> gc_tgt g1 \<subseteq>\<^sub>m T \<Longrightarrow> compiled M G T h (oc_epilogue g) (gc_flow g) s (cur g) (cur g1)"
    using gen_compiled(1) [OF B s, of "oc_epilogue g", unfolded fine_def] i r by blast+
  have ep: "oc_epilogue g1 = oc_epilogue g" using growD(5) [OF gr] .
  have fin: "ext (oc_blks g1) G \<and> jumps M G (\<lambda>m. m) (oc_epilogue g) (cur g1)"
  proof (cases "oc_current g1")
    case None
    then show ?thesis using e G by (simp add: cur_def reaches_def)
  next
    case (Some b)
    then have "transfer B (oc_epilogue g) g1 = Inr g'"
      using e ginvD(1,2) [OF growD(1) [OF gr] Some] ep by (simp add: blk_at_def)
    then have "gives g1 g' (\<lambda>G. jumps M G (\<lambda>m. m) (oc_epilogue g) (cur g1))" by (rule transfer_gives [OF B growD(1) [OF gr]])
    then show ?thesis using givesD(2) [OF _ G] ext_back [OF givesD(1) G] by blast
  qed
  have "compiled M G (gc_tgt g1) h (oc_epilogue g) (gc_flow g) s (cur g) (cur g1)" using comp fin by simp
  from fn_follows [OF ex this] show ?thesis using fin c by simp
qed

section \<open>What backends are made of\<close>

lemma blk_add_insn_grow:
  assumes i: "ginv g" and r: "blk_add_insn ins g = Inr g'"
  shows "grow {} {} {} g g'" "gc_be g' = gc_be g"
    "\<And>G s. cur g = Some x \<Longrightarrow> ext (oc_blks g') G \<Longrightarrow> \<exists>y. cur g' = Some y \<and> pruns M G (x, s) (y, mc_ex M ins s)"
proof -
  have "grow {} {} {} g g' \<and> gc_be g' = gc_be g \<and>
    (\<forall>G s. cur g = Some x \<longrightarrow> ext (oc_blks g') G \<longrightarrow> (\<exists>y. cur g' = Some y \<and> pruns M G (x, s) (y, mc_ex M ins s)))"
  proof (cases "oc_current g")
    case None
    then show ?thesis using i r by (simp add: blk_add_insn_def grow_refl cur_def)
  next
    case (Some b)
    note b = ginvD(1,2) [OF i Some]
    have g': "g' = g\<lparr>oc_blks := (oc_blks g)[b := (oc_blks g ! b)\<lparr>bk_insns := bk_insns (oc_blks g ! b) @ [ins]\<rparr>]\<rparr>"
      using r Some b(1) by (simp add: blk_add_insn_def upd_blk_def blk_at_def)
    have nth: "oc_blks g' ! c = (if c = b then (oc_blks g ! b)\<lparr>bk_insns := bk_insns (oc_blks g ! b) @ [ins]\<rparr> else oc_blks g ! c)" for c
      using b(1) by (simp add: g')
    have sel: "length (oc_blks g') = length (oc_blks g)" "oc_current g' = oc_current g" "gc_tgt g' = gc_tgt g" "gc_flow g' = gc_flow g"
      "gc_be g' = gc_be g" "oc_epilogue g' = oc_epilogue g" by (simp_all add: g')
    have "grow {} {} {} g g'"
      using i b(2) Some unfolding grow_def ginv_def ext_def same_blk_def sel by (auto simp: nth)
    moreover have "\<exists>y. cur g' = Some y \<and> pruns M G (x, s) (y, mc_ex M ins s)" if x: "cur g = Some x" and G: "ext (oc_blks g') G" for G s
    proof -
      obtain rest where "bk_insns (G ! b) = bk_insns (oc_blks g ! b) @ ins # rest" "b < length G"
        using G b(1) nth [of b] unfolding ext_def sel by force
      moreover have "x = (b, length (bk_insns (oc_blks g ! b)))" using x Some by (simp add: cur_def point_def)
      ultimately have "pnext M G (x, s) = Some ((b, Suc (length (bk_insns (oc_blks g ! b)))), mc_ex M ins s)"
        by (simp add: pnext_def nth_append)
      from pruns_step [OF this] show ?thesis using Some nth [of b] sel by (simp add: cur_def point_def)
    qed
    ultimately show ?thesis using sel by blast
  qed
  then show "grow {} {} {} g g'" "gc_be g' = gc_be g"
    "\<And>G s. cur g = Some x \<Longrightarrow> ext (oc_blks g') G \<Longrightarrow> \<exists>y. cur g' = Some y \<and> pruns M G (x, s) (y, mc_ex M ins s)" by blast+
qed

lemma blk_terminate_condjmp_grow:
  assumes i: "ginv g" and r: "blk_terminate_condjmp ins a b u g = Inr g'"
  shows "grow {} {} {} g g'" "oc_current g' = None" "gc_be g' = gc_be g"
    "\<And>G s. cur g = Some x \<Longrightarrow> ext (oc_blks g') G \<Longrightarrow>
       pruns M G (x, s) ((if mc_jp M ins s = bk_lbl (G ! a) then a else b, 0), s)"
proof -
  have "grow {} {} {} g g' \<and> oc_current g' = None \<and> gc_be g' = gc_be g \<and>
    (\<forall>G s. cur g = Some x \<longrightarrow> ext (oc_blks g') G \<longrightarrow> pruns M G (x, s) ((if mc_jp M ins s = bk_lbl (G ! a) then a else b, 0), s))"
  proof (cases "oc_current g")
    case None
    then show ?thesis using i r by (simp add: blk_terminate_condjmp_def grow_refl cur_def)
  next
    case (Some c)
    note c = ginvD(1,2) [OF i Some]
    obtain g1 where g1: "upd_blk c (\<lambda>k. k\<lparr>bk_type := BLK_COND ins a b u\<rparr>) g = Inr g1" "g' = g1\<lparr>oc_current := None\<rparr>"
      using r Some c by (auto simp: blk_terminate_condjmp_def blk_at_def bindE_eq_Inr split: if_splits)
    have blks: "oc_blks g' = (oc_blks g)[c := (oc_blks g ! c)\<lparr>bk_type := BLK_COND ins a b u\<rparr>]" "gc_be g' = gc_be g"
      using g1 c(1) by (auto simp: upd_blk_def blk_at_def)
    have "pruns M G (x, s) ((if mc_jp M ins s = bk_lbl (G ! a) then a else b, 0), s)" if x: "cur g = Some x" and G: "ext (oc_blks g') G" for G s
    proof -
      have "bk_type (G ! c) = BLK_COND ins a b u" "bk_insns (G ! c) = bk_insns (oc_blks g ! c)" "c < length G"
        using G c(1) unfolding ext_def same_blk_def blks by auto
      moreover have "x = (c, length (bk_insns (oc_blks g ! c)))" using x Some by (simp add: cur_def point_def)
      ultimately have "pnext M G (x, s) = Some ((if mc_jp M ins s = bk_lbl (G ! a) then a else b, 0), s)" by (simp add: pnext_def)
      then show ?thesis by (rule pruns_step)
    qed
    then show ?thesis using end_blk_grow [OF i Some g1(1)] g1(2) blks(2) by simp
  qed
  then show "grow {} {} {} g g'" "oc_current g' = None" "gc_be g' = gc_be g"
    "\<And>G s. cur g = Some x \<Longrightarrow> ext (oc_blks g') G \<Longrightarrow> pruns M G (x, s) ((if mc_jp M ins s = bk_lbl (G ! a) then a else b, 0), s)" by blast+
qed

section \<open>A backend\<close>

text \<open>
  A machine with an accumulator and one variable in memory.  An expression decrements the variable or reads
  it, scope 2 has a cleanup, and a conditional jump compares the accumulator with a number written in unary
  in front of its label.
\<close>

definition toy_ex :: "string \<Rightarrow> int \<times> int \<Rightarrow> int \<times> int" where
  "toy_ex i s =
     (if i = ''dec'' then (snd s - 1, snd s - 1) else if i = ''get'' then (snd s, snd s)
      else if i = ''clean'' then (fst s, snd s + 100) else s)"

definition toy_cond :: "char \<Rightarrow> nat \<Rightarrow> int \<Rightarrow> bool" where
  "toy_cond c n a =
     (if c = CHR ''e'' then a = int n else if c = CHR ''l'' then a < int n else if c = CHR ''g'' then int n < a else a \<noteq> 0)"

definition toy_jmp :: "char \<times> nat \<Rightarrow> string \<Rightarrow> string" where
  "toy_jmp v l = fst v # replicate (snd v) (CHR ''i'') @ CHR '' '' # l"

definition toy_jp :: "string \<Rightarrow> int \<times> int \<Rightarrow> string option" where
  "toy_jp i s =
     (case i of
        [] \<Rightarrow> None
      | c # r \<Rightarrow>
        let n = length (takeWhile (\<lambda>x. x = CHR ''i'') r) in
        if toy_cond c n (fst s) then Some (drop (Suc n) r) else None)"

definition toy_machine :: "(bool, int, int \<times> int, char \<times> nat, unit) machine" where
  "toy_machine =
     \<lparr>mc_ex = toy_ex, mc_jp = toy_jp, mc_mem = snd,
      mc_val = (\<lambda>_ v s. if fst v \<in> {CHR ''e'', CHR ''l'', CHR ''g''} then if toy_cond (fst v) (snd v) (fst s) then 1 else 0 else fst s),
      mc_saved = (\<lambda>_ _. True), cs_eval = (\<lambda>e m. Some (if e then (m - 1, m - 1) else (m, m))), cs_decls = (\<lambda>_ m. Some m),
      cs_dtors = (\<lambda>st m. if st = 2 then m + 100 else m), cs_ret = (\<lambda>_ m. m)\<rparr>"

lemma toy_sel [simp]:
  "mc_ex toy_machine = toy_ex" "mc_jp toy_machine = toy_jp" "mc_mem toy_machine s = snd s" "mc_saved toy_machine be v"
  "mc_val toy_machine be v s =
     (if fst v \<in> {CHR ''e'', CHR ''l'', CHR ''g''} then if toy_cond (fst v) (snd v) (fst s) then 1 else 0 else fst s)"
  "cs_eval toy_machine e m = Some (if e then (m - 1, m - 1) else (m, m))" "cs_decls toy_machine st m = Some m"
  "cs_dtors toy_machine st m = (if st = 2 then m + 100 else m)" "cs_ret toy_machine i m = m"
  by (simp_all add: toy_machine_def)

definition toy_acc :: "char \<times> nat" where
  "toy_acc = (CHR ''n'', 0)"

definition toy_case :: "char \<Rightarrow> char \<times> nat \<Rightarrow> int \<Rightarrow> unit gen_ctx \<Rightarrow> ((char \<times> nat) \<times> unit gen_ctx) outcome" where
  "toy_case c v n g = (if v = toy_acc \<and> 0 \<le> n then Inr ((c, nat n), g) else Inl Null_deref)"

definition toy_backend :: "(bool, char \<times> nat, unit) backend" where
  "toy_backend =
     \<lparr>be_prefix = ''.L'', be_expr = (\<lambda>e g. bindE (blk_add_insn (if e then ''dec'' else ''get'') g) (\<lambda>g. Inr (toy_acc, g))),
      be_consume = (\<lambda>_. Inr), be_spill = Inr,
      be_branch = (\<lambda>v t f g. bindE (lbl_of (oc_blks g) t) (\<lambda>l. blk_terminate_condjmp (toy_jmp v l) t f False g)),
      be_case_eq = toy_case (CHR ''e''), be_case_lt = toy_case (CHR ''l''), be_case_gt = toy_case (CHR ''g''),
      be_decls = (\<lambda>_. Inr), be_dealloca = (\<lambda>_. Inr), be_dtors = (\<lambda>st. if st = 2 then blk_add_insn ''clean'' else Inr),
      be_ret = (\<lambda>_. Inr), be_jmp_expr = (\<lambda>_. Inr)\<rparr>"

lemma toy_jp_jmp: "toy_jp (toy_jmp v l) s = (if toy_cond (fst v) (snd v) (fst s) then Some l else None)"
proof -
  have "takeWhile (\<lambda>x. x = CHR ''i'') (replicate (snd v) (CHR ''i'') @ CHR '' '' # l) = replicate (snd v) (CHR ''i'')"
    by (subst takeWhile_append2) auto
  then show ?thesis by (simp add: toy_jp_def toy_jmp_def)
qed

lemma toy_branch_run:
  assumes i: "ginv g" and r: "be_branch toy_backend v a b g = Inr g'" and G: "ext (oc_blks g') G" and x: "cur g = Some x"
  shows "pruns toy_machine G (x, s) ((if toy_cond (fst v) (snd v) (fst s) then a else b, 0), s)"
proof -
  obtain l where l: "lbl_of (oc_blks g) a = Inr l" "blk_terminate_condjmp (toy_jmp v l) a b False g = Inr g'"
    using r by (auto simp: toy_backend_def bindE_eq_Inr)
  note c = blk_terminate_condjmp_grow [OF i l(2)]
  have "bk_lbl (oc_blks g ! a) = Some l" "a < length (oc_blks g)"
    using l(1) by (auto simp: lbl_of_def blk_at_def bindE_eq_Inr split: if_splits option.splits)
  then have "bk_lbl (G ! a) = Some l" using ext_back [OF c(1) G] by (simp add: ext_def)
  then show ?thesis using c(4) [OF x G, of toy_machine s] toy_jp_jmp [of v l s] by (simp split: if_splits)
qed

lemma toy_quiet: "quiet_backend toy_backend"
proof -
  have add: "quiet (blk_add_insn i :: unit gen)" for i
    unfolding quiet_def using blk_add_insn_grow(1) by blast
  have ex: "quiet_val (be_expr toy_backend e)" for e
    unfolding quiet_val_def using blk_add_insn_grow(1) by (auto simp: toy_backend_def bindE_eq_Inr)
  have br: "grow {} {} {} g g' \<and> oc_current g' = None" if "ginv g" "be_branch toy_backend v t f g = Inr g'" for v t f g g'
    using that blk_terminate_condjmp_grow(1,2) [OF that(1)] by (auto simp: toy_backend_def bindE_eq_Inr)
  have cs: "quiet_val (toy_case c v n)" for c v n
    by (auto simp: quiet_val_def toy_case_def grow_refl split: if_splits)
  have dt: "quiet (be_dtors toy_backend s)" for s
    using add [of "''clean''"] by (simp add: toy_backend_def)
  show ?thesis unfolding quiet_backend_def
    using ex br cs dt by (auto simp: toy_backend_def)
qed

lemma toy_compares:
  assumes "f = toy_case c v n" and "\<And>i. 0 \<le> n \<Longrightarrow> test i = toy_cond c (nat n) i"
  shows "compares toy_machine toy_backend v f test"
proof -
  have run: "\<exists>t. pruns toy_machine G (x, s) ((if test (mc_val toy_machine (gc_be g) v s) then a else b, 0), t) \<and>
      mc_mem toy_machine t = mc_mem toy_machine s \<and> mc_val toy_machine (gc_be g2) v t = mc_val toy_machine (gc_be g) v s"
    if "ginv g" "f g = Inr (w, g1)" "be_branch toy_backend w a b g1 = Inr g2" "ext (oc_blks g2) G" "cur g = Some x" for g w g1 a b g2 G x s
  proof -
    have v: "v = toy_acc" "0 \<le> n" "w = (c, nat n)" "g1 = g" using that(2) by (auto simp: assms(1) toy_case_def split: if_splits)
    have "pruns toy_machine G (x, s) ((if toy_cond c (nat n) (fst s) then a else b, 0), s)"
      using toy_branch_run [OF that(1), of w a b g2 G x s] that v by simp
    then show ?thesis using v assms(2) by (intro exI [of _ s]) (simp add: toy_acc_def)
  qed
  show ?thesis unfolding compares_def using run by (simp del: toy_sel(5))
qed

lemma toy_ok: "backend_ok toy_machine toy_backend"
proof -
  have ex: "expr_ok toy_machine toy_backend"
    unfolding expr_ok_def
  proof (intro allI impI)
    fix e g v g' G x s r m
    assume a: "ginv g" "be_expr toy_backend e g = Inr (v, g')" "ext (oc_blks g') G" "cur g = Some x" "cs_eval toy_machine e (mc_mem toy_machine s) = Some (r, m)"
    have "blk_add_insn (if e then ''dec'' else ''get'') g = Inr g'" "v = toy_acc"
      using a(2) by (auto simp: toy_backend_def bindE_eq_Inr)
    then show "\<exists>y t. cur g' = Some y \<and> pruns toy_machine G (x, s) (y, t) \<and> mc_mem toy_machine t = m \<and> mc_val toy_machine (gc_be g') v t = r"
      using blk_add_insn_grow(3) [OF a(1) _ a(4,3), of "if e then ''dec'' else ''get''" toy_machine s] a(5)
      by (cases e) (auto simp: toy_ex_def toy_acc_def)
  qed
  have br: "branch_ok toy_machine toy_backend"
    unfolding branch_ok_def
  proof (intro allI impI)
    fix v a b g g' G x s assume r: "ginv g" "be_branch toy_backend v a b g = Inr g'" "ext (oc_blks g') G" "cur g = Some x"
    have "(mc_val toy_machine (gc_be g) v s \<noteq> 0) = toy_cond (fst v) (snd v) (fst s)" by (simp add: toy_cond_def)
    then show "\<exists>t. pruns toy_machine G (x, s) ((if mc_val toy_machine (gc_be g) v s \<noteq> 0 then a else b, 0), t) \<and>
        mc_mem toy_machine t = mc_mem toy_machine s"
      using toy_branch_run [OF r, of s] by (intro exI [of _ s]) simp
  qed
  have rt: "ret_ok toy_machine toy_backend"
    unfolding ret_ok_def by (simp add: toy_backend_def) (metis pruns_refl)
  have cs: "compares toy_machine toy_backend v (be_case_eq toy_backend v n) (\<lambda>i. i = n)"
    "compares toy_machine toy_backend v (be_case_lt toy_backend v n) (\<lambda>i. i < n)"
    "compares toy_machine toy_backend v (be_case_gt toy_backend v n) (\<lambda>i. n < i)" for v n
    by (rule toy_compares [of _ "CHR ''e''" v n], simp add: toy_backend_def, simp add: toy_cond_def)
       (rule toy_compares [of _ "CHR ''l''" v n], simp add: toy_backend_def, simp add: toy_cond_def,
        rule toy_compares [of _ "CHR ''g''" v n], simp add: toy_backend_def, simp add: toy_cond_def)
  have dt: "acts toy_machine True (be_dtors toy_backend st) (\<lambda>m. Some (cs_dtors toy_machine st m))" for st
  proof (cases "st = 2")
    case True
    then have f: "be_dtors toy_backend st = blk_add_insn ''clean''" by (simp add: toy_backend_def)
    show ?thesis unfolding acts_def f
    proof (intro allI impI)
      fix g g' :: "unit gen_ctx" and G x s m
      assume a: "ginv g" "blk_add_insn ''clean'' g = Inr g'" "ext (oc_blks g') G" "cur g = Some x" "Some (cs_dtors toy_machine st (mc_mem toy_machine s)) = Some m"
      obtain y where "cur g' = Some y" "pruns toy_machine G (x, s) (y, mc_ex toy_machine ''clean'' s)"
        using blk_add_insn_grow(3) [OF a(1,2,4,3), of toy_machine s] by blast
      then show "\<exists>y t. cur g' = Some y \<and> pruns toy_machine G (x, s) (y, t) \<and> mc_mem toy_machine t = m \<and>
          (True \<longrightarrow> (\<forall>w. mc_val toy_machine (gc_be g') w t = mc_val toy_machine (gc_be g) w s))"
        using a(5) True by (intro exI [of _ y] exI [of _ "mc_ex toy_machine ''clean'' s"]) (simp add: toy_ex_def)
    qed
  next
    case False
    then show ?thesis using acts_return [of toy_machine True] by (simp add: toy_backend_def acts_def)
  qed
  show ?thesis unfolding backend_ok_def
    using toy_quiet ex br rt cs dt acts_return [of toy_machine True] acts_return [of toy_machine False]
    by (simp add: toy_backend_def acts_def)
qed

text \<open>
  C1: The code of a function does what its statements mean.  For a backend that keeps its contract, take the
  graph that is generated for the body of a function and completed to a well-formed one, with a prologue
  that leads to the body.  Whenever C's rules for statements, with their loops, jumps, cases, labels and
  cleanups, take the memory of the program from the start of the body to its end, the lines of assembler that are
  written, started at the label of the function, come to the label of the epilogue with that memory.
\<close>

theorem function_code_correct:
  fixes M :: "('e, 'm, 's, 'v, 'b) machine" and oc :: "'c out_ctx_scheme"
  assumes "backend_ok M B" and "wf_scopes h s" and "dist s"
    and "ginv g" and "cur g = Some (b0, 0)" and "gc_tgt g = Map.empty" and "gen_func_body B h s g = Inr g'"
    and "ext (oc_blks g') (oc_blks oc)" and "wf_graph (mc_jp M) (first # oc_mustgen oc) (oc_blks oc)" and "\<not> passes (oc_blks oc ! oc_epilogue g)"
    and "gruns (mc_ex M) (mc_jp M) (oc_blks oc) (first, st0) (b0, st)" and "fn_exec M h Run s (mc_mem M st) m'"
  shows "\<exists>P p0 p t. blk_flushall thr first oc = Inr P \<and> label_pos P (the_lbl (oc_blks oc) first) = Some p0 \<and>
    label_pos P (the_lbl (oc_blks oc) (oc_epilogue g)) = Some p \<and> aruns (mc_ex M) (mc_jp M) P (p0, st0) (p, t) \<and> mc_mem M t = m'"
proof -
  obtain t where t: "pruns M (oc_blks oc) ((b0, 0), st) ((oc_epilogue g, 0), t)" "mc_mem M t = m'"
    using func_body_follows [OF assms(1-8,12)] unfolding follows_def by blast
  have "gruns (mc_ex M) (mc_jp M) (oc_blks oc) (first, st0) (oc_epilogue g, t)"
    using gruns_trans [OF assms(11) pruns_gruns [OF t(1)]] .
  from flushed_run [OF assms(9) this assms(10) refl, of thr] show ?thesis
    using flush_writes(1,4) [OF assms(9), of thr] t(2) by blast
qed

text \<open>\<^verbatim>\<open>do { T x __attribute__((cleanup(f))); } while(--n);\<close>, started with -198 in \<^verbatim>\<open>n\<close>; the cleanup adds 100.\<close>

definition toy_table :: "nat option \<Rightarrow> symtable" where
  "toy_table p = \<lparr>st_parent = p, st_children = [], st_internal_nest = False, st_are_params = False, st_transparent = False,
     st_in_func = None, st_sues = [], st_decls = [], st_labels = None\<rparr>"

definition toy_heap :: symheap where
  "toy_heap = \<lparr>sh_tabs = [toy_table None, toy_table (Some 0), toy_table (Some 1)], sh_decls = [], sh_syms = [], sh_labels = [], sh_tags = []\<rparr>"

definition toy_body :: "bool gstmt" where
  "toy_body = G_code 1 [G_do 0 (G_code 2 []) True]"

definition toy_blk :: "string \<Rightarrow> string \<Rightarrow> string list \<Rightarrow> nat list \<Rightarrow> blk_type \<Rightarrow> out_blk" where
  "toy_blk desc lbl insns preds ty = \<lparr>bk_desc = desc, bk_lbl = Some lbl, bk_force_lbl = None, bk_insns = insns, bk_merge_preds = preds,
     bk_align = 0, bk_reachable = False, bk_emitted = False, bk_type = ty\<rparr>"

definition toy_start :: "unit gen_ctx" where
  "toy_start = \<lparr>oc_blks = [toy_blk ''f'' ''f'' [] [] BLK_UNINIT, toy_blk ''epilogue'' ''.Lret'' [] [] BLK_UNINIT],
     oc_current = Some 0, oc_last_used = Some 0, oc_mustgen = [], oc_epilogue = 1, oc_nblks = 0,
     gc_flow = (\<lambda>_. (None, None)), gc_tgt = Map.empty, gc_be = ()\<rparr>"

definition toy_blks :: "string list \<Rightarrow> blk_type \<Rightarrow> out_blk list" where
  "toy_blks ret ty =
     [toy_blk ''f'' ''f'' [] [] (BLK_NEXT_BLOCK 2), toy_blk ''epilogue'' ''.Lret'' ret [4] ty,
      toy_blk ''do_begin'' ''.Lblk.0'' [''clean''] [0] (BLK_NEXT_BLOCK 5), toy_blk ''do_test'' ''.Lblk.1'' [''dec''] [5] (BLK_COND ''n .Lblk.0'' 2 4 False),
      toy_blk ''do_end'' ''.Lblk.2'' [] [] (BLK_NEXT_BLOCK 1), toy_blk ''scope_leave'' ''.Lblk.3'' [] [2] (BLK_NEXT_BLOCK 3)]"

definition toy_oc :: out_ctx where
  "toy_oc = \<lparr>oc_blks = toy_blks [''ret''] BLK_TERMINAL, oc_current = None, oc_last_used = Some 1, oc_mustgen = [], oc_epilogue = 1, oc_nblks = 4\<rparr>"

lemma toy_gen: "\<exists>g. gen_func_body toy_backend toy_heap toy_body toy_start = Inr g \<and> oc_blks g = toy_blks [] BLK_UNINIT"
proof -
  have "map_sum id oc_blks (gen_func_body toy_backend toy_heap toy_body toy_start) = Inr (toy_blks [] BLK_UNINIT)"
    by code_simp
  then show ?thesis by (cases "gen_func_body toy_backend toy_heap toy_body toy_start") auto
qed

lemma toy_scopes: "wf_scopes toy_heap toy_body" "dist toy_body"
  by (simp_all add: toy_body_def scope_ok_def scopes_left_def scope_chain_def tab_def toy_heap_def toy_table_def)

lemma toy_inv: "ginv toy_start" "cur toy_start = Some (0, 0)" "gc_tgt toy_start = Map.empty" "oc_epilogue toy_start = 1"
  by (simp_all add: ginv_def toy_start_def cur_def point_def toy_blk_def)

lemma toy_ext: "ext (toy_blks [] BLK_UNINIT) (oc_blks toy_oc)"
  by (auto simp: ext_def same_blk_def toy_oc_def toy_blks_def toy_blk_def less_Suc_eq numeral_eq_Suc)

lemma toy_wf: "wf_graph (mc_jp toy_machine) [0] (oc_blks toy_oc)"
proof -
  have "blk_reach (oc_blks toy_oc) {0} \<subseteq> {0, 1, 2, 3, 4, 5}"
    by (rule blk_reach_closed) (auto simp: toy_oc_def toy_blks_def toy_blk_def)
  moreover have "toy_jp ''n .Lblk.0'' s = (if fst s = 0 then None else Some ''.Lblk.0'')" for s
    by (simp add: toy_jp_def toy_cond_def)
  ultimately show ?thesis
    by (auto simp: wf_graph_def toy_oc_def toy_blks_def toy_blk_def blk_labels_def less_Suc_eq numeral_eq_Suc)
qed

lemma toy_runs: "fn_exec toy_machine toy_heap Run toy_body (-198) 0"
proof -
  let ?l = "G_code 2 [] :: bool gstmt"
  have b: "exec toy_machine toy_heap Run ?l m X_normal (m + 100)" for m
    using exec_execs_loop_for_loop.code_run [of toy_machine 2 m m toy_heap "[]" X_normal m]
      exec_execs_loop_for_loop.nil [of toy_machine toy_heap m] by (simp add: leave_def)
  have e: "loop toy_machine toy_heap (G_do 0 ?l True) X_normal 1 X_normal 0"
    by (rule exec_execs_loop_for_loop.do_end) (simp_all add: again_def)
  have d: "exec toy_machine toy_heap Run (G_do 0 ?l True) (-99) X_normal 0"
    by (rule exec_execs_loop_for_loop.do_body [OF _ e]) (use b [of "-99"] in simp)
  have l: "loop toy_machine toy_heap (G_do 0 ?l True) X_normal (-98) X_normal 0"
    by (rule exec_execs_loop_for_loop.do_again [where v = "-99", OF _ _ _ d]) (simp_all add: again_def)
  have "exec toy_machine toy_heap Run (G_do 0 ?l True) (-198) X_normal 0"
    by (rule exec_execs_loop_for_loop.do_body [OF _ l]) (use b [of "-198"] in simp)
  then have "execs toy_machine toy_heap Run [G_do 0 ?l True] (-198) X_normal 0"
    by (rule exec_execs_loop_for_loop.cons) (rule exec_execs_loop_for_loop.nil)
  from exec_execs_loop_for_loop.code_run [OF _ this, of 1 "-198"]
  have "exec toy_machine toy_heap Run toy_body (-198) X_normal 0" by (simp add: toy_body_def leave_def)
  then show ?thesis by (rule fn_end) simp
qed

theorem function_code_correct_witness:
  "\<exists>P p0 p t. blk_flushall True 0 toy_oc = Inr P \<and> label_pos P ''f'' = Some p0 \<and> label_pos P ''.Lret'' = Some p \<and>
     aruns toy_ex toy_jp P (p0, (0, -198)) (p, t) \<and> snd t = 0"
proof -
  obtain g where g: "gen_func_body toy_backend toy_heap toy_body toy_start = Inr g" "oc_blks g = toy_blks [] BLK_UNINIT"
    using toy_gen by blast
  have wf: "wf_graph (mc_jp toy_machine) (0 # oc_mustgen toy_oc) (oc_blks toy_oc)" using toy_wf by (simp add: toy_oc_def)
  have np: "\<not> passes (oc_blks toy_oc ! oc_epilogue toy_start)" by (simp add: toy_inv passes_def toy_oc_def toy_blks_def toy_blk_def)
  have lbl: "the_lbl (oc_blks toy_oc) 0 = ''f''" "the_lbl (oc_blks toy_oc) (oc_epilogue toy_start) = ''.Lret''"
    by (simp_all add: toy_inv the_lbl_def toy_oc_def toy_blks_def toy_blk_def)
  have "ext (oc_blks g) (oc_blks toy_oc)" using toy_ext g(2) by simp
  moreover have "gruns (mc_ex toy_machine) (mc_jp toy_machine) (oc_blks toy_oc) (0, (0, -198)) (0, (0, -198))" by (simp add: gruns_def)
  moreover have "fn_exec toy_machine toy_heap Run toy_body (mc_mem toy_machine (0, -198)) 0" using toy_runs by simp
  ultimately show ?thesis
    using function_code_correct [where thr = True, OF toy_ok toy_scopes toy_inv(1-3) g(1) _ wf np] lbl by simp
qed

end
