(* ===== verification/Spec2Isabelle.thy ===== *)
theory Spec2Isabelle
  imports Ucc_Dynarray Ucc_Dynmap Ucc_Math Ucc_Escape Ucc_Leb Ucc_Str Ucc_Tokenise Ucc_Cpp_Expr
    Ucc_Triple Ucc_Path Ucc_Type Ucc_Type_Is Ucc_Type_Cmp Ucc_Num Ucc_Const Ucc_Fold_Op Ucc_Pack
    Ucc_Has Ucc_Macro Ucc_Macro_Expand Ucc_Directive Ucc_Include Ucc_Preproc Ucc_Groups Ucc_Layout Ucc_Cstring
    Ucc_Tokconv Ucc_Lexer Ucc_Lexer_Scan Ucc_Parse_Expr Ucc_Parse_Gram Ucc_Sym Ucc_Parse_Stmt Ucc_Stmt_Targets
    Ucc_Blk Ucc_Blk_Emit Ucc_Gen_Stmt Ucc_Gen_Grow Ucc_Gen_Compiled Ucc_Gen_Sound Ucc_Gen_Exec Ucc_Gen_Run
begin

text \<open>
  A verification development of ucc, a C compiler written in C.

  \<^bold>\<open>The program.\<close>  The driver (src/src/ucc) starts the preprocessor (src/src/cpp2), the compiler
  proper (src/src/cc1) and the system's assembler and linker.  The three programs share the library
  src/src/util: growing arrays, hash maps, escapes, target triples and path handling.  The
  preprocessor reads lines, tokenises macro arguments, evaluates the expressions of its conditionals
  and expands macros.  The compiler parses declarations and expressions into trees whose nodes carry
  type chains, folds constants, and emits assembler text through src/src/cc1/out.

  \<^bold>\<open>The theories,\<close> in the order of the calls between the parts they model:

  \<^item> \<^verbatim>\<open>Ucc_Prelude\<close>: results with errors as a sum type, C strings read with their terminator, word
    and list lemmas, and the locale of simulations between an implementation and its specification.
  \<^item> \<^verbatim>\<open>Ucc_Dynarray\<close> (util/dynarray.c): the NULL-terminated pointer array at the level of its memory
    block; it refines the list of its elements.
  \<^item> \<^verbatim>\<open>Ucc_Dynmap\<close> (util/dynmap.c): buckets with chained entries, for any hash and equality; it
    refines finite maps.  The locale of key stores states what clients rely on.
  \<^item> \<^verbatim>\<open>Ucc_Math\<close> (util/math.c), \<^verbatim>\<open>Ucc_Escape\<close> (util/escape.c), \<^verbatim>\<open>Ucc_Leb\<close> (cc1/out/leb.c): bit
    tricks, numeric literals and escape sequences, variable-length integers; all on machine words.
  \<^item> \<^verbatim>\<open>Ucc_Str\<close> (util/str.c, cpp2/str.c), \<^verbatim>\<open>Ucc_Tokenise\<close> (cpp2/tokenise.c), \<^verbatim>\<open>Ucc_Cpp_Expr\<close>
    (cpp2/expr.c, cpp2/expr_tok.c): the text level of the preprocessor and the expressions of its
    conditionals, with the precedence parser proved against a printer and the evaluator against a
    reference semantics.
  \<^item> \<^verbatim>\<open>Ucc_Triple\<close> (util/triple.c, util/platform.c), \<^verbatim>\<open>Ucc_Path\<close> (util/path.c).
  \<^item> \<^verbatim>\<open>Ucc_Type\<close>, \<^verbatim>\<open>Ucc_Type_Is\<close>, \<^verbatim>\<open>Ucc_Type_Cmp\<close> (cc1/btype.c, cc1/type.c, cc1/type_is.c, parts of
    cc1/sue.c and cc1/attribute.c): the chain of type nodes, the predicates that look through it, the
    sizes and alignments, and the comparison of two types.
  \<^item> \<^verbatim>\<open>Ucc_Num\<close> (cc1/num.c, cc1/op.c), \<^verbatim>\<open>Ucc_Const\<close> (cc1/const.c), \<^verbatim>\<open>Ucc_Fold_Op\<close> (the folding
    part of cc1/ops/expr_op.c): compile-time arithmetic at the width of the type.
  \<^item> \<^verbatim>\<open>Ucc_Pack\<close> (cc1/pack.c): placing members at aligned offsets.  \<^verbatim>\<open>Ucc_Layout\<close> (cc1/fold_sue.c with
    helpers of cc1/decl.c, cc1/fold.c): the layout of structs and unions, bit-fields included, and
    of enumerations.  Structs without bit-fields are proved to be laid out as C asks; the examples
    at the end show where bit-fields are not.
  \<^item> \<^verbatim>\<open>Ucc_Has\<close> (util/std.c, cpp2/has.c), \<^verbatim>\<open>Ucc_Macro\<close> (cpp2/macro.c, cpp2/snapshot.c, the expansion
    part of cpp2/eval.c), \<^verbatim>\<open>Ucc_Directive\<close> (cpp2/directive.c, the rest of cpp2/eval.c), \<^verbatim>\<open>Ucc_Include\<close>
    (cpp2/include.c, cpp2/deps.c and helpers of util), \<^verbatim>\<open>Ucc_Preproc\<close> (cpp2/preproc.c): the
    preprocessor's state as one record, from feature tests over the table of macros to the loop over
    the lines of the input.  The locale of frames collects what every operation keeps of that state.
  \<^item> \<^verbatim>\<open>Ucc_Macro_Expand\<close>: what expansion computes, and that it keeps the table.  The locale of
    functions that more fuel does not change is interpreted on the expansion of a line.
    \<^verbatim>\<open>Ucc_Groups\<close>: the stack of conditionals refines the nested groups of the C grammar.
  \<^item> \<^verbatim>\<open>Ucc_Cstring\<close> (cc1/str.c): string literals, their escapes, and how they are printed for the
    assembler.  \<^verbatim>\<open>Ucc_Tokconv\<close> (cc1/tokenise.h, cc1/tokconv.c): the tokens of C, the keywords and the
    tables from tokens to types, storage and operators.  \<^verbatim>\<open>Ucc_Lexer\<close> (cc1/tokenise.c, cc1/pragma.c):
    the tokeniser as one record, with line markers, literals, comments and the token that may be given
    back.  \<^verbatim>\<open>Ucc_Lexer_Scan\<close>: tokens that are printed are read back, and where the tokeniser departs
    from C.
  \<^item> \<^verbatim>\<open>Ucc_Parse_Expr\<close> (cc1/parse_expr.c): the recursive descent parser of expressions on the state of
    the tokeniser.  \<^verbatim>\<open>Ucc_Parse_Gram\<close>: the grammar of C expressions as an inductive relation, and that
    the parser refines it, from the characters of the text to the tree.
  \<^item> \<^verbatim>\<open>Ucc_Sym\<close> (cc1/sym.c, cc1/label.c): scopes as a heap of tables with their parents, declarations,
    enumerators and labels; names mean what the scope rules of C say.
  \<^item> \<^verbatim>\<open>Ucc_Parse_Stmt\<close> (cc1/parse_stmt.c): the parser of statements, which opens scopes and enters labels
    as it goes.  \<^verbatim>\<open>Ucc_Stmt_Targets\<close>: jumps refer to the right loop or switch, and an \<^verbatim>\<open>else\<close> to the
    nearest \<^verbatim>\<open>if\<close>; the contract of the recursive calls is a locale.
  \<^item> \<^verbatim>\<open>Ucc_Blk\<close> (cc1/out/blk.c, cc1/out/ctrl.c): basic blocks as a heap, transfers between them, and how
    they are marked and written out.  \<^verbatim>\<open>Ucc_Blk_Emit\<close>: the lines of assembler run as the graph of blocks
    does; what is known of the lines that have been laid out is a locale.
  \<^item> \<^verbatim>\<open>Ucc_Gen_Stmt\<close> (cc1/ops/stmt_*.c, cc1/label.c): code generation for statements over a backend that
    stands for expressions, declarations, cleanups and registers.  \<^verbatim>\<open>Ucc_Gen_Grow\<close>: what the generator
    keeps of the graph it extends.  \<^verbatim>\<open>Ucc_Gen_Compiled\<close>: what the code of a statement looks like in the
    finished graph, given what the backend does.  \<^verbatim>\<open>Ucc_Gen_Sound\<close>: the generator makes such code.
    \<^verbatim>\<open>Ucc_Gen_Exec\<close>: the meaning of C statements as inductive rules, and that compiled code follows them.
    \<^verbatim>\<open>Ucc_Gen_Run\<close>: the body of a function, from its statements to the lines of assembler, with a small
    backend that meets the contract.  The theorem is about runs that end.

  \<^bold>\<open>Conventions.\<close>  A function that may stop the program (\<^verbatim>\<open>CPP_DIE\<close>, \<^verbatim>\<open>ICE\<close>, a failed assertion, an
  access outside an object) returns a value of the result type of the prelude, with the error on the
  left.  Integers have their C width wherever the code can reach the bound.  Code that is not in
  the repository, and what the system answers, are arguments.  Recursion over C pointers that has
  no structural measure carries fuel; the parser of conditionals is proved to need at most four
  times the length of its input, and the other loops are total functions with a measure.  Macro
  expansion may run forever (a macro can expand to itself with more text), so it takes fuel and
  returns nothing when the fuel ends; more fuel never changes a result, and one of the lemmas
  exhibits an expansion that no fuel suffices for.  The tokeniser calls itself only behind a character
  it has read and takes the number of characters left as its fuel; only a comment that is never closed
  uses it up, as the code loops there.  The expression parser takes fuel for its depth and its loops;
  every expression of the grammar is shown to have enough of it.  Marking and writing blocks recurse to
  a depth of at most the number of blocks, and every well-formed graph is shown to be written.

  \<^bold>\<open>Not modelled.\<close>  The driver, and the option tables of the three programs, which start processes
  and handle files; the parser of declarations; the walk that type-checks the tree; the generation of
  expressions with register allocation and instruction selection; debug information.  Messages and warnings do not appear in results
  unless they end the program.
\<close>

end
